(* ===== verification/Prelude.thy ===== *)
theory Prelude
  imports Main "HOL-Library.AList" "HOL-Library.Multiset"
begin

text \<open>
  Shared vocabulary of the development: results with an error branch, the C++ standard
  containers the bindings use (a vector as a list, \<^verbatim>\<open>std::sort\<close> followed by
  \<^verbatim>\<open>std::unique\<close> as \<open>tidy\<close>, \<^verbatim>\<open>std::unordered_map\<close> as an association list whose
  order stands for the hash table's unspecified iteration order) and the lemmas on them that
  every component uses.
\<close>

section \<open>Collections of facts\<close>

named_theorems result_simps \<open>evaluation of results with an error branch\<close>
named_theorems table_simps \<open>look-ups in the hash tables after an update\<close>

section \<open>Results\<close>

text \<open>A C++ function that may throw is a function into \<open>'e + 'a\<close>; \<open>Inl\<close> is the throw.\<close>

type_synonym ('e, 'a) result = "'e + 'a"

definition bind_result :: "('e, 'a) result \<Rightarrow> ('a \<Rightarrow> ('e, 'b) result) \<Rightarrow> ('e, 'b) result" where
  "bind_result r f = (case r of Inl e \<Rightarrow> Inl e | Inr x \<Rightarrow> f x)"

definition require :: "bool \<Rightarrow> 'e \<Rightarrow> ('e, unit) result" where
  "require b e = (if b then Inr () else Inl e)"

text \<open>A loop whose body may throw: the first throw ends it.\<close>

fun each :: "('a \<Rightarrow> ('e, 'b) result) \<Rightarrow> 'a list \<Rightarrow> ('e, 'b list) result" where
  "each f [] = Inr []"
| "each f (x # xs) =
     (case f x of Inl e \<Rightarrow> Inl e
      | Inr y \<Rightarrow> (case each f xs of Inl e \<Rightarrow> Inl e | Inr ys \<Rightarrow> Inr (y # ys)))"

text \<open>A loop over a state, whose body may throw.\<close>

fun loop :: "('a \<Rightarrow> 's \<Rightarrow> ('e, 's) result) \<Rightarrow> 'a list \<Rightarrow> 's \<Rightarrow> ('e, 's) result" where
  "loop f [] s = Inr s"
| "loop f (x # xs) s = (case f x s of Inl e \<Rightarrow> Inl e | Inr s' \<Rightarrow> loop f xs s')"

lemma bind_result_simps [simp, result_simps]:
  "bind_result (Inl e) f = Inl e"
  "bind_result (Inr x) f = f x"
  by (simp_all add: bind_result_def)

lemma bind_result_Inr_iff:
  "bind_result r f = Inr y \<longleftrightarrow> (\<exists>x. r = Inr x \<and> f x = Inr y)"
  by (cases r) auto

lemma require_Inr_iff [simp]: "require b e = Inr u \<longleftrightarrow> b"
  by (simp add: require_def)

lemma require_Inl_iff [simp]: "require b e = Inl e' \<longleftrightarrow> \<not> b \<and> e = e'"
  by (auto simp: require_def)

lemma require_simps [simp, result_simps]:
  "require True e = Inr ()"
  "require False e = Inl e"
  by (simp_all add: require_def)

lemma each_Cons_Inr: "each f (x # xs) = Inr ys \<longleftrightarrow>
    (\<exists>y zs. ys = y # zs \<and> f x = Inr y \<and> each f xs = Inr zs)"
  by (auto split: sum.splits)

lemma each_Inr_iff: "each f xs = Inr ys \<longleftrightarrow> list_all2 (\<lambda>x y. f x = Inr y) xs ys"
proof (induction xs arbitrary: ys)
  case Nil
  show ?case by auto
next
  case (Cons x xs)
  show ?case unfolding each_Cons_Inr list_all2_Cons1 Cons.IH by blast
qed

lemma each_length: "each f xs = Inr ys \<Longrightarrow> length ys = length xs"
  by (auto simp: each_Inr_iff dest: list_all2_lengthD)

lemma each_total: "(\<And>x. x \<in> set xs \<Longrightarrow> \<exists>y. f x = Inr y) \<Longrightarrow> \<exists>ys. each f xs = Inr ys"
proof (induction xs)
  case Nil
  show ?case by simp
next
  case (Cons x xs)
  then obtain y ys where "f x = Inr y" and "each f xs = Inr ys"
    by (metis list.set_intros)
  then show ?case by simp
qed

lemma loop_append:
  "loop f (xs @ ys) s = bind_result (loop f xs s) (loop f ys)"
  by (induction xs arbitrary: s) (auto split: sum.splits)

lemma loop_invariant:
  assumes "loop f xs s = Inr s'" and "P s"
    and "\<And>x s s'. x \<in> set xs \<Longrightarrow> P s \<Longrightarrow> f x s = Inr s' \<Longrightarrow> P s'"
  shows "P s'"
  using assms
proof (induction xs arbitrary: s)
  case Nil
  then show ?case by simp
next
  case (Cons x xs)
  then obtain t where t: "f x s = Inr t" and rest: "loop f xs t = Inr s'"
    by (auto split: sum.splits)
  have "P t" by (rule Cons.prems(3) [OF _ Cons.prems(2) t]) simp
  with rest show ?case by (rule Cons.IH) (use Cons.prems(3) in auto)
qed

section \<open>Sorting and removing duplicates\<close>

text \<open>
  \<^verbatim>\<open>std::sort(v.begin(), v.end()); v.erase(std::unique(v.begin(), v.end()), v.end());\<close>:
  sort, then drop every element equal to its predecessor.
\<close>

definition tidy :: "'a::linorder list \<Rightarrow> 'a list" where
  "tidy xs = remdups_adj (sort xs)"

lemma sorted_remdups_adj_strict:
  "sorted xs \<Longrightarrow> sorted_wrt (<) (remdups_adj xs)"
proof (induction xs rule: remdups_adj.induct)
  case (3 x y xs)
  show ?case
  proof (cases "x = y")
    case True
    with 3 show ?thesis by simp
  next
    case False
    with 3 have "sorted_wrt (<) (remdups_adj (y # xs))" and "x < y" and "\<forall>z \<in> set xs. y \<le> z"
      by auto
    then show ?thesis using False
      by (auto intro: less_le_trans)
  qed
qed simp_all

lemma set_tidy [simp]: "set (tidy xs) = set xs"
  by (simp add: tidy_def)

lemma strict_tidy: "sorted_wrt (<) (tidy xs)"
  by (simp add: tidy_def sorted_remdups_adj_strict)

lemma sorted_tidy [simp]: "sorted (tidy xs)"
  using strict_tidy strict_sorted_imp_sorted by blast

lemma distinct_tidy [simp]: "distinct (tidy xs)"
  using strict_tidy strict_sorted_iff by blast

lemma tidy_eq_sorted_list_of_set: "tidy xs = sorted_list_of_set (set xs)"
  by (metis List.finite_set set_tidy strict_tidy sorted_list_of_set.idem_if_sorted_distinct
      sorted_tidy distinct_tidy)

lemma tidy_cong_set: "set xs = set ys \<Longrightarrow> tidy xs = tidy ys"
  by (simp add: tidy_eq_sorted_list_of_set)

lemma tidy_Nil [simp]: "tidy [] = []"
  by (simp add: tidy_def)

lemma tidy_empty_iff [simp]: "tidy xs = [] \<longleftrightarrow> xs = []"
  by (metis set_empty set_tidy)

lemma tidy_id: "sorted xs \<Longrightarrow> distinct xs \<Longrightarrow> tidy xs = xs"
  by (simp add: tidy_eq_sorted_list_of_set sorted_list_of_set.idem_if_sorted_distinct)

lemma hd_tidy_le: "x \<in> set xs \<Longrightarrow> hd (tidy xs) \<le> x"
  by (metis distinct_tidy list.sel(1) list.set_cases order_refl set_tidy sorted_simps(2) sorted_tidy)

lemma distinct_one_iff:
  "distinct xs \<Longrightarrow> x \<in> set xs \<Longrightarrow> 1 < length xs \<longleftrightarrow> set xs \<noteq> {x}"
  by (cases xs; cases "tl xs") auto

text \<open>A list without repetition counts each of its elements once; a sorted list is its counts.\<close>

lemma count_list_replicate: "count_list (replicate n x) y = (if x = y then n else 0)"
  by (induction n) auto

lemma distinct_count_list: "distinct xs \<longleftrightarrow> (\<forall>x. count_list xs x \<le> 1)"
proof (induction xs)
  case (Cons a xs)
  have "(\<forall>x. count_list (a # xs) x \<le> 1) \<longleftrightarrow> count_list xs a = 0 \<and> (\<forall>x. count_list xs x \<le> 1)"
  proof
    assume all: "\<forall>x. count_list (a # xs) x \<le> 1"
    then have "count_list xs x \<le> 1" for x
      using spec [OF all, of x] by (cases "x = a") simp_all
    then show "count_list xs a = 0 \<and> (\<forall>x. count_list xs x \<le> 1)" using spec [OF all, of a] by simp
  qed simp
  with Cons show ?case by (simp add: count_list_0_iff)
qed simp

lemma count_list_repeats:
  "distinct xs \<Longrightarrow> count_list (concat (map (\<lambda>x. replicate (f x) x) xs)) y = (if y \<in> set xs then f y else 0)"
  by (induction xs) (auto simp: count_list_append count_list_replicate)

lemma sorted_repeats:
  "sorted xs \<Longrightarrow> sorted (concat (map (\<lambda>x. replicate (f x) x) xs))" for xs :: "'a::linorder list"
  by (induction xs) (auto simp: sorted_append sorted_replicate)

lemma sorted_by_counts:
  "sorted xs \<Longrightarrow> sorted ys \<Longrightarrow> (\<And>z. count_list xs z = count_list ys z) \<Longrightarrow> xs = ys" for xs :: "'a::linorder list"
proof -
  assume sorted: "sorted xs" "sorted ys" and "\<And>z. count_list xs z = count_list ys z"
  then have "mset xs = mset ys" by (intro multiset_eqI) (simp add: count_mset)
  with sorted show "xs = ys" by (metis properties_for_sort sorted_sort_id)
qed

text \<open>Ranges of integers that follow one another.\<close>

lemma upto_append: "i \<le> j \<Longrightarrow> j \<le> k \<Longrightarrow> [i..j - 1] @ [j..k - 1] = [i..k - 1]" for i j k :: int
  using upto_split2 [of i "j - 1" "k - 1"] by (cases "i = j") auto

section \<open>Tables of lists\<close>

text \<open>
  The contract of a table that keeps a list for every key, whatever the container: pushing a value
  at a key adds it at the end of the list of that key, and of no other. Keys are compared by an
  identity of theirs, for a hasher that tells fewer keys apart than equality. The session's hash
  tables provide it, and OCCT's map of sub-shapes and ancestors.
\<close>

locale multimap =
  fixes look :: "'m \<Rightarrow> 'k \<Rightarrow> 'v list" and push :: "'k \<Rightarrow> 'v \<Rightarrow> 'm \<Rightarrow> 'm" and identity :: "'k \<Rightarrow> 'i"
  assumes look_push: "look (push k v m) k' = look m k' @ (if identity k = identity k' then [v] else [])"
begin

lemma set_look_pushes:
  "set (look (fold (\<lambda>k. push k v) ks m) k') = set (look m k') \<union> (if identity k' \<in> identity ` set ks then {v} else {})"
  by (induction ks arbitrary: m) (auto simp: look_push)

lemma look_pushes:
  "distinct (map identity ks) \<Longrightarrow>
     look (fold (\<lambda>k. push k v) ks m) k' = look m k' @ (if identity k' \<in> identity ` set ks then [v] else [])"
  by (induction ks arbitrary: m) (auto simp: look_push)

lemma look_pushes_counted:
  "look (fold (\<lambda>k. push k v) ks m) k' =
     look m k' @ replicate (count_list (map identity ks) (identity k')) v"
  by (induction ks arbitrary: m) (auto simp: look_push)

text \<open>Filling the table row by row groups the values by their keys, in order.\<close>

lemma look_rows:
  assumes "\<And>v. distinct (map identity (keys v))"
  shows "look (fold (\<lambda>v m. fold (\<lambda>k. push k v) (keys v) m) vs m) k =
    look m k @ filter (\<lambda>v. identity k \<in> identity ` set (keys v)) vs"
  by (induction vs arbitrary: m) (simp_all add: look_pushes [OF assms])

end

section \<open>Hash tables as association lists\<close>

text \<open>\<^verbatim>\<open>table[k].push_back(v)\<close> on a table of vectors; a missing key starts empty.\<close>

definition values_at :: "('k \<times> 'v list) list \<Rightarrow> 'k \<Rightarrow> 'v list" where
  "values_at m k = (case map_of m k of None \<Rightarrow> [] | Some vs \<Rightarrow> vs)"

definition push_at :: "'k \<Rightarrow> 'v \<Rightarrow> ('k \<times> 'v list) list \<Rightarrow> ('k \<times> 'v list) list" where
  "push_at k v m = AList.update k (values_at m k @ [v]) m"

definition push_each :: "'k list \<Rightarrow> 'v \<Rightarrow> ('k \<times> 'v list) list \<Rightarrow> ('k \<times> 'v list) list" where
  "push_each ks v m = fold (\<lambda>k. push_at k v) ks m"

text \<open>\<^verbatim>\<open>table.emplace(k, v)\<close>: a key that is present keeps its value.\<close>

definition emplace :: "'k \<Rightarrow> 'v \<Rightarrow> ('k \<times> 'v) list \<Rightarrow> ('k \<times> 'v) list" where
  "emplace k v m = (case map_of m k of None \<Rightarrow> m @ [(k, v)] | Some _ \<Rightarrow> m)"

text \<open>The same on a table that the code never iterates over.\<close>

definition emplace_map :: "'k \<Rightarrow> 'v \<Rightarrow> ('k \<rightharpoonup> 'v) \<Rightarrow> ('k \<rightharpoonup> 'v)" where
  "emplace_map k v m = (case m k of None \<Rightarrow> m(k \<mapsto> v) | Some _ \<Rightarrow> m)"

lemma values_at_Nil [simp]: "values_at [] k = []"
  by (simp add: values_at_def)

lemma map_of_push_at [table_simps]:
  "map_of (push_at k v m) = (map_of m)(k \<mapsto> values_at m k @ [v])"
  by (simp add: push_at_def update_conv')

lemma values_at_push_at [simp, table_simps]:
  "values_at (push_at k v m) k' = (if k' = k then values_at m k @ [v] else values_at m k')"
  by (simp add: values_at_def map_of_push_at)

lemma keys_push_at: "fst ` set (push_at k v m) = insert k (fst ` set m)"
  by (metis dom_map_of_conv_image_fst dom_fun_upd map_of_push_at option.distinct(1))

lemma distinct_push_at: "distinct (map fst m) \<Longrightarrow> distinct (map fst (push_at k v m))"
  by (simp add: push_at_def distinct_update)

interpretation table: multimap values_at push_at "\<lambda>k. k"
  by unfold_locales simp

lemma set_values_at_push_each [simp, table_simps]:
  "set (values_at (push_each ks v m) k) =
     set (values_at m k) \<union> (if k \<in> set ks then {v} else {})"
  unfolding push_each_def table.set_look_pushes by simp

lemma values_at_push_each_distinct:
  "distinct ks \<Longrightarrow> values_at (push_each ks v m) k = values_at m k @ (if k \<in> set ks then [v] else [])"
  unfolding push_each_def using table.look_pushes [of ks v m k] by simp

lemma values_at_push_each:
  "values_at (push_each ks v m) k = values_at m k @ replicate (count_list ks k) v"
  unfolding push_each_def using table.look_pushes_counted [of v ks m k] by simp

lemma keys_push_each: "fst ` set (push_each ks v m) = set ks \<union> fst ` set m"
  by (induction ks arbitrary: m) (auto simp: push_each_def keys_push_at)

lemma distinct_push_each: "distinct (map fst m) \<Longrightarrow> distinct (map fst (push_each ks v m))"
  by (induction ks arbitrary: m) (auto simp: push_each_def distinct_push_at)

lemma push_each_simps [simp]:
  "push_each [] v m = m"
  "push_each (k # ks) v m = push_each ks v (push_at k v m)"
  by (simp_all add: push_each_def)

lemma values_at_nonempty_key: "values_at m k \<noteq> [] \<Longrightarrow> k \<in> fst ` set m"
  by (auto simp: values_at_def split: option.splits dest: map_of_SomeD intro: rev_image_eqI)

lemma map_of_emplace [table_simps]:
  "map_of (emplace k v m) =
     (if map_of m k = None then (map_of m)(k \<mapsto> v) else map_of m)"
  by (auto simp: emplace_def map_add_def fun_eq_iff split: option.splits)

lemma keys_emplace: "fst ` set (emplace k v m) = insert k (fst ` set m)"
  by (auto simp: emplace_def map_of_eq_None_iff split: option.splits
      intro: rev_image_eqI dest: map_of_SomeD)

lemma distinct_emplace: "distinct (map fst m) \<Longrightarrow> distinct (map fst (emplace k v m))"
  by (auto simp: emplace_def map_of_eq_None_iff split: option.splits)

lemma emplace_map_apply [simp, table_simps]:
  "emplace_map k v m k' = (if m k = None \<and> k' = k then Some v else m k')"
  by (auto simp: emplace_map_def split: option.splits)

lemma dom_emplace_map [simp]: "dom (emplace_map k v m) = insert k (dom m)"
  by (auto simp: emplace_map_def domIff split: option.splits)

text \<open>The keys of a table, in the ascending order the code sorts them into.\<close>

definition sorted_keys :: "('k::linorder \<times> 'v) list \<Rightarrow> 'k list" where
  "sorted_keys m = sort (map fst m)"

lemma set_sorted_keys [simp]: "set (sorted_keys m) = fst ` set m"
  by (simp add: sorted_keys_def)

lemma distinct_sorted_keys [simp]: "distinct (sorted_keys m) = distinct (map fst m)"
  by (simp add: sorted_keys_def)

lemma sorted_sorted_keys [simp]: "sorted (sorted_keys m)"
  by (simp add: sorted_keys_def)

lemma sorted_keys_perm:
  "mset m = mset m' \<Longrightarrow> sorted_keys m = sorted_keys m'"
  unfolding sorted_keys_def by (intro properties_for_sort) (simp_all add: mset_map)

lemma map_of_perm:
  assumes "mset m = mset m'" and "distinct (map fst m)"
  shows "map_of m = map_of m'"
proof -
  from assms have "set m = set m'" by (metis set_mset_mset)
  moreover from assms have "distinct (map fst m')"
    by (metis mset_eq_imp_distinct_iff mset_map)
  ultimately show ?thesis using assms by (simp add: map_of_inject_set)
qed

end
