(* ===== verification/Shapes.thy ===== *)
theory Shapes
  imports Prelude
begin

text \<open>
  The shapes the session works on (\<^verbatim>\<open>session/session.hpp\<close>, "Types" and "Small helpers").
  A \<^verbatim>\<open>TopoDS_Shape\<close> is a handle to a TShape, a Location and an Orientation; its TShape fixes
  its type and its children. OCCT itself is not modelled: \<^verbatim>\<open>TopExp::MapShapes\<close> is an
  argument of type \<open>map_shapes\<close> wherever the code calls it.
\<close>

section \<open>Shapes\<close>

text \<open>\<^verbatim>\<open>TopAbs_ShapeEnum\<close>, in its order, and \<^verbatim>\<open>TopAbs_Orientation\<close>.\<close>

datatype shape_enum = COMPOUND | COMPSOLID | SOLID | SHELL | FACE | WIRE | EDGE | VERTEX | SHAPE

datatype orientation = FORWARD | REVERSED | INTERNAL | EXTERNAL

text \<open>
  The TShape is its address, with 0 for the null handle, and the Location is a number, with 0
  for the identity. The last field holds what \<^verbatim>\<open>TopoDS_Iterator\<close> lists, each child with
  its composed location.
\<close>

datatype shape = Shape (tshape: nat) (location: nat) (orient: orientation)
  (shape_type: shape_enum) (children: "shape list")

definition is_null :: "shape \<Rightarrow> bool" where
  "is_null s = (tshape s = 0)"

text \<open>A null \<^verbatim>\<open>TopoDS_Shape\<close>.\<close>

definition null_shape :: shape where
  "null_shape = Shape 0 0 EXTERNAL SHAPE []"

text \<open>
  \<^verbatim>\<open>TopTools_ShapeMapHasher\<close>: two shapes are one key when they are \<^verbatim>\<open>IsSame\<close>, that
  is when the TShape and the Location agree, whatever the Orientation.
\<close>

datatype shape_key = SKey (key_tshape: nat) (key_location: nat)

definition skey :: "shape \<Rightarrow> shape_key" where
  "skey s = SKey (tshape s) (location s)"

definition is_same :: "shape \<Rightarrow> shape \<Rightarrow> bool" where
  "is_same a b = (skey a = skey b)"

text \<open>\<^verbatim>\<open>IsEqual\<close> compares the Orientation too.\<close>

definition is_equal :: "shape \<Rightarrow> shape \<Rightarrow> bool" where
  "is_equal a b = (is_same a b \<and> orient a = orient b)"

text \<open>\<^verbatim>\<open>TopExp::MapShapes(s, kind, map)\<close>, as the list of the map's keys from index 1 on.\<close>

type_synonym map_shapes = "shape \<Rightarrow> shape_enum \<Rightarrow> shape list"

text \<open>
  What the code relies on: the map lists no key twice, and only shapes of the kind asked for.
\<close>

definition maps_ok :: "map_shapes \<Rightarrow> shape \<Rightarrow> bool" where
  "maps_ok M s = (\<forall>k. distinct (map skey (M s k)) \<and> (\<forall>x \<in> set (M s k). shape_type x = k))"

section \<open>Entity kinds\<close>

datatype kind_error = UnknownKind string

definition kEntityKinds :: "shape_enum list" where
  "kEntityKinds = [SOLID, FACE, EDGE, VERTEX]"

fun kind_name :: "shape_enum \<Rightarrow> string" where
  "kind_name SOLID = ''SOLID''"
| "kind_name FACE = ''FACE''"
| "kind_name EDGE = ''EDGE''"
| "kind_name VERTEX = ''VERTEX''"
| "kind_name _ = ''OTHER''"

definition kind_from_name :: "string \<Rightarrow> (kind_error, shape_enum) result" where
  "kind_from_name name =
     (if name = ''SOLID'' then Inr SOLID
      else if name = ''FACE'' then Inr FACE
      else if name = ''EDGE'' then Inr EDGE
      else if name = ''VERTEX'' then Inr VERTEX
      else Inl (UnknownKind name))"

section \<open>Lists of shapes\<close>

text \<open>\<^verbatim>\<open>append_unique\<close>: push a shape unless one of the list is the same.\<close>

definition append_unique :: "shape list \<Rightarrow> shape \<Rightarrow> shape list" where
  "append_unique dst s = (if list_ex (\<lambda>e. is_same e s) dst then dst else dst @ [s])"

text \<open>\<^verbatim>\<open>explode_into\<close>: the leaves of a shape, descending through compounds only.\<close>

fun explode_into :: "shape \<Rightarrow> shape list \<Rightarrow> shape list" where
  "explode_into (Shape t l d k cs) out =
     (if is_null (Shape t l d k cs) then out
      else if k = COMPOUND then foldl (\<lambda>acc c. explode_into c acc) out cs
      else out @ [Shape t l d k cs])"

text \<open>
  \<^verbatim>\<open>make_root\<close>: a fresh compound TShape over the bodies. The address is the one the
  allocator gives, an argument here.
\<close>

definition make_root :: "nat \<Rightarrow> shape list \<Rightarrow> shape" where
  "make_root addr bodies = Shape addr 0 FORWARD COMPOUND bodies"

definition root_bodies :: "shape \<Rightarrow> shape list" where
  "root_bodies root = explode_into root []"

text \<open>\<^verbatim>\<open>registered_subshapes\<close>: solids, then faces, then edges, then vertices.\<close>

definition registered_subshapes :: "map_shapes \<Rightarrow> shape \<Rightarrow> shape list" where
  "registered_subshapes M s =
     (if is_null s then [] else concat (map (M s) kEntityKinds))"

section \<open>Lemmas\<close>

lemma is_same_refl [simp]: "is_same s s"
  by (simp add: is_same_def)

lemma append_unique_alt:
  "append_unique dst s = (if skey s \<in> skey ` set dst then dst else dst @ [s])"
  by (auto simp: append_unique_def list_ex_iff is_same_def intro: rev_image_eqI)

lemma keys_append_unique [simp]:
  "skey ` set (append_unique dst s) = insert (skey s) (skey ` set dst)"
  by (auto simp: append_unique_alt)

lemma append_unique_distinct:
  "distinct (map skey dst) \<Longrightarrow> distinct (map skey (append_unique dst s))"
  by (auto simp: append_unique_alt)

lemma append_unique_not_Nil [simp]: "append_unique dst s \<noteq> []"
  by (auto simp: append_unique_alt)

lemma set_append_unique_subset: "set (append_unique dst s) \<subseteq> insert s (set dst)"
  by (auto simp: append_unique_alt)

lemma append_unique_new:
  "skey s \<notin> skey ` set dst \<Longrightarrow> append_unique dst s = dst @ [s]"
  by (simp add: append_unique_alt)

text \<open>Pushing a whole list with \<open>append_unique\<close>.\<close>

definition append_all :: "shape list \<Rightarrow> shape list \<Rightarrow> shape list" where
  "append_all dst ss = foldl append_unique dst ss"

lemma append_all_simps [simp]:
  "append_all dst [] = dst"
  "append_all dst (s # ss) = append_all (append_unique dst s) ss"
  by (simp_all add: append_all_def)

lemma keys_append_all [simp]:
  "skey ` set (append_all dst ss) = skey ` set dst \<union> skey ` set ss"
  by (induction ss arbitrary: dst) auto

lemma append_all_distinct:
  "distinct (map skey dst) \<Longrightarrow> distinct (map skey (append_all dst ss))"
  by (induction ss arbitrary: dst) (auto intro: append_unique_distinct)

lemma set_append_all_subset: "set (append_all dst ss) \<subseteq> set dst \<union> set ss"
proof (induction ss arbitrary: dst)
  case (Cons s ss)
  have "set (append_all (append_unique dst s) ss) \<subseteq> set (append_unique dst s) \<union> set ss"
    by (rule Cons.IH)
  then show ?case using set_append_unique_subset by fastforce
qed simp

lemma append_all_new:
  "distinct (map skey (dst @ ss)) \<Longrightarrow> append_all dst ss = dst @ ss"
proof (induction ss arbitrary: dst)
  case (Cons s ss)
  then have "skey s \<notin> skey ` set dst" by auto
  then show ?case using Cons.IH [of "dst @ [s]"] Cons.prems
    by (simp add: append_unique_new)
qed simp

lemma append_all_empty_iff [simp]: "append_all dst ss = [] \<longleftrightarrow> dst = [] \<and> ss = []"
  by (metis keys_append_all image_is_empty set_empty sup_eq_bot_iff)

text \<open>\<^verbatim>\<open>explode_into\<close> only appends: it is \<open>out\<close> followed by the leaves.\<close>

lemma explode_fold_step:
  assumes "\<And>c acc. c \<in> set cs \<Longrightarrow> explode_into c acc = acc @ explode_into c []"
  shows "foldl (\<lambda>acc c. explode_into c acc) out cs =
    out @ concat (map (\<lambda>c. explode_into c []) cs)"
  using assms
proof (induction cs arbitrary: out)
  case (Cons c cs)
  have c: "explode_into c out = out @ explode_into c []"
    by (rule Cons.prems) simp
  have "foldl (\<lambda>acc c. explode_into c acc) (explode_into c out) cs =
      explode_into c out @ concat (map (\<lambda>c. explode_into c []) cs)"
    by (rule Cons.IH) (rule Cons.prems, simp)
  with c show ?case by simp
qed simp

lemma explode_into_append: "explode_into s out = out @ explode_into s []"
proof (induction s arbitrary: out)
  case (Shape t l d k cs)
  note step = explode_fold_step [OF Shape]
  show ?case by (simp add: step [of cs out] step [of cs "[]"])
qed

lemma explode_fold: "foldl (\<lambda>acc c. explode_into c acc) out cs =
    out @ concat (map (\<lambda>c. explode_into c []) cs)"
  by (rule explode_fold_step) (rule explode_into_append)

text \<open>No leaf is null and none is a compound: the flat list of bodies the root is kept as.\<close>

lemma explode_leaves:
  "x \<in> set (explode_into s []) \<Longrightarrow> \<not> is_null x \<and> shape_type x \<noteq> COMPOUND"
proof (induction s)
  case (Shape t l d k cs)
  then show ?case
    by (auto simp: explode_fold split: if_splits)
qed

lemma explode_leaf:
  "\<not> is_null s \<Longrightarrow> shape_type s \<noteq> COMPOUND \<Longrightarrow> explode_into s [] = [s]"
  by (cases s) simp

lemma root_bodies_make_root:
  assumes "addr \<noteq> 0"
    and "\<forall>b \<in> set bodies. \<not> is_null b \<and> shape_type b \<noteq> COMPOUND"
  shows "root_bodies (make_root addr bodies) = bodies"
proof -
  have "concat (map (\<lambda>c. explode_into c []) bodies) = bodies"
    using assms(2) by (induction bodies) (simp_all add: explode_leaf)
  with assms(1) show ?thesis
    by (simp add: root_bodies_def make_root_def is_null_def explode_fold)
qed

text \<open>The names of the kinds that carry ids read back to the kind.\<close>

lemma kind_from_name_kind_name:
  "k \<in> set kEntityKinds \<Longrightarrow> kind_from_name (kind_name k) = Inr k"
  by (auto simp: kEntityKinds_def kind_from_name_def)

lemma kind_from_name_Inr:
  "kind_from_name n = Inr k \<Longrightarrow> k \<in> set kEntityKinds \<and> n = kind_name k"
  by (auto simp: kEntityKinds_def kind_from_name_def split: if_splits)

end
