(* ===== verification/Registry.thy ===== *)
theory Registry
  imports Shapes
begin

text \<open>
  The EntityId registry and its carry across one operation: \<^verbatim>\<open>EntityRecord\<close>,
  \<^verbatim>\<open>RegistryState\<close>, \<^verbatim>\<open>Origin\<close>, \<^verbatim>\<open>Delta\<close> and \<^verbatim>\<open>PieceRule\<close> of
  \<^verbatim>\<open>session/session.hpp\<close>, and \<^verbatim>\<open>Session::carry_registry\<close> of \<^verbatim>\<open>session_core.cpp\<close>,
  pass by pass. \<^verbatim>\<open>EntityId\<close> is an \<^verbatim>\<open>int64\<close> counted up from 1, one per issued entity;
  here an \<open>int\<close>.
\<close>

section \<open>State\<close>

type_synonym entity_id = int

datatype role = Constructed | Generated

fun role_code :: "role \<Rightarrow> int" where
  "role_code Constructed = 0"
| "role_code Generated = 1"

record entity_record =
  ent_shapes :: "shape list"
  ent_kind :: shape_enum

text \<open>
  Both tables of a registry are hash tables; \<open>alive\<close> lists its entries in the table's
  iteration order, whatever it is.
\<close>

record registry =
  alive :: "(entity_id \<times> entity_record) list"
  by_shape :: "(shape_key \<times> entity_id list) list"

definition empty_registry :: registry where
  "empty_registry = \<lparr>alive = [], by_shape = []\<rparr>"

record origin =
  o_op :: int
  o_role :: role
  o_ordinal :: int
  o_sources :: "entity_id list"

record delta =
  d_created :: "entity_id list"
  d_deleted :: "entity_id list"
  d_modified :: "entity_id list"
  d_split :: "entity_id list"
  d_merged :: "entity_id list"
  d_valid :: "bool option"
  d_warnings :: "string list"

definition empty_delta :: delta where
  "empty_delta = \<lparr>d_created = [], d_deleted = [], d_modified = [], d_split = [],
     d_merged = [], d_valid = None, d_warnings = []\<rparr>"

text \<open>
  A \<^verbatim>\<open>BRepTools_History\<close>: what an operation recorded of each input shape. OCCT computes
  it, so it is an argument of the carry; a null handle is \<open>None\<close>.
\<close>

record history =
  hist_modified :: "shape \<Rightarrow> shape list"
  hist_generated :: "shape \<Rightarrow> shape list"
  hist_removed :: "shape \<Rightarrow> bool"

text \<open>\<^verbatim>\<open>PieceRule\<close>: what becomes of an id of one kind that the operation cut in pieces.\<close>

datatype piece_rule = KeepId | NewPieceIds shape_enum

section \<open>Pass 1: carrying one id forward\<close>

text \<open>Whether every shape of the entity is still in the new model.\<close>

definition is_intact :: "shape_key list \<Rightarrow> entity_record \<Rightarrow> bool" where
  "is_intact ms rec = list_all (\<lambda>s. skey s \<in> set ms) (ent_shapes rec)"

type_synonym sources_table = "(shape_key \<times> entity_id list) list"

text \<open>The body of the loop over \<^verbatim>\<open>rec.shapes\<close>, on (successors, generated_from).\<close>

definition carry_shape ::
  "history option \<Rightarrow> bool \<Rightarrow> entity_id \<Rightarrow> shape \<Rightarrow>
   shape list \<times> sources_table \<Rightarrow> shape list \<times> sources_table" where
  "carry_shape hist intact eid s acc =
     (let (succ, gen) = acc in
      case hist of
        None \<Rightarrow> (append_unique succ s, gen)
      | Some h \<Rightarrow>
          let gen' = push_each (map skey (hist_generated h s)) eid gen in
          if intact then
            (append_unique succ s, push_each (map skey (hist_modified h s)) eid gen')
          else if hist_removed h s then (succ, gen')
          else if hist_modified h s \<noteq> [] then (append_all succ (hist_modified h s), gen')
          else (append_unique succ s, gen'))"

definition carry_shapes ::
  "history option \<Rightarrow> bool \<Rightarrow> entity_id \<Rightarrow> shape list \<Rightarrow> sources_table \<Rightarrow>
   shape list \<times> sources_table" where
  "carry_shapes hist intact eid shapes gen =
     fold (carry_shape hist intact eid) shapes ([], gen)"

text \<open>The shapes of a list that the new model holds, each once.\<close>

definition members_of :: "shape_key list \<Rightarrow> shape list \<Rightarrow> shape list" where
  "members_of ms ss = append_all [] (filter (\<lambda>s. skey s \<in> set ms) ss)"

text \<open>Successors in the result, or else the shapes of the entity itself that are still there.\<close>

definition live_shapes :: "shape_key list \<Rightarrow> shape list \<Rightarrow> entity_record \<Rightarrow> shape list" where
  "live_shapes ms succ rec =
     (let live = members_of ms succ in
      if live = [] then members_of ms (ent_shapes rec) else live)"

definition same_shapes :: "shape list \<Rightarrow> entity_record \<Rightarrow> bool" where
  "same_shapes live rec =
     (length live = length (ent_shapes rec) \<and> list_all2 is_same live (ent_shapes rec))"

definition is_cut :: "piece_rule \<Rightarrow> shape list \<Rightarrow> entity_record \<Rightarrow> bool" where
  "is_cut pieces live rec =
     (case pieces of
        KeepId \<Rightarrow> False
      | NewPieceIds k \<Rightarrow> ent_kind rec = k \<and> 1 < length live \<and> \<not> same_shapes live rec)"

definition add_entity :: "entity_id \<Rightarrow> entity_record \<Rightarrow> registry \<Rightarrow> registry" where
  "add_entity eid rec r = r\<lparr>by_shape := push_each (map skey (ent_shapes rec)) eid (by_shape r),
     alive := emplace eid rec (alive r)\<rparr>"

text \<open>What pass 1 builds: the next registry, \<^verbatim>\<open>generated_from\<close> and the delta.\<close>

record carry =
  c_next :: registry
  c_gen :: sources_table
  c_delta :: delta

definition carry_id ::
  "history option \<Rightarrow> shape_key list \<Rightarrow> piece_rule \<Rightarrow> registry \<Rightarrow> entity_id \<Rightarrow> carry \<Rightarrow> carry" where
  "carry_id hist ms pieces prev eid c =
     (case map_of (alive prev) eid of
        None \<Rightarrow> c
      | Some rec \<Rightarrow>
          let (succ, gen) = carry_shapes hist (is_intact ms rec) eid (ent_shapes rec) (c_gen c);
              live = live_shapes ms succ rec;
              d = c_delta c
          in if live = [] then
               c\<lparr>c_gen := gen, c_delta := d\<lparr>d_deleted := d_deleted d @ [eid]\<rparr>\<rparr>
             else if is_cut pieces live rec then
               c\<lparr>c_gen := push_each (map skey live) eid gen,
                 c_delta := d\<lparr>d_deleted := d_deleted d @ [eid]\<rparr>\<rparr>
             else
               let out = \<lparr>ent_shapes = live, ent_kind = ent_kind rec\<rparr>;
                   d1 = (if same_shapes live rec then d
                         else d\<lparr>d_modified := d_modified d @ [eid]\<rparr>);
                   d2 = (if 1 < length live then d1\<lparr>d_split := d_split d1 @ [eid]\<rparr> else d1)
               in c\<lparr>c_next := add_entity eid out (c_next c), c_gen := gen, c_delta := d2\<rparr>)"

definition carry_ids :: "history option \<Rightarrow> shape_key list \<Rightarrow> piece_rule \<Rightarrow> registry \<Rightarrow> carry" where
  "carry_ids hist ms pieces prev =
     fold (carry_id hist ms pieces prev) (sorted_keys (alive prev))
       \<lparr>c_next = empty_registry, c_gen = [], c_delta = empty_delta\<rparr>"

section \<open>Pass 2: issuing ids\<close>

datatype name_key = NameKey (nk_op: int) (nk_role: int) (nk_ordinal: int)

text \<open>The session-global counters and tables, and what pass 2 builds on.\<close>

record issuer =
  i_next_id :: entity_id
  i_origins :: "entity_id \<rightharpoonup> origin"
  i_names :: "name_key \<rightharpoonup> entity_id"
  i_constructed :: int
  i_generated :: int
  i_registry :: registry
  i_created :: "entity_id list"

definition issue_shape :: "int \<Rightarrow> sources_table \<Rightarrow> shape \<Rightarrow> issuer \<Rightarrow> issuer" where
  "issue_shape op gen s i =
     (if skey s \<in> fst ` set (by_shape (i_registry i)) then i
      else
        let eid = i_next_id i;
            rec = \<lparr>ent_shapes = [s], ent_kind = shape_type s\<rparr>;
            from_gen = values_at gen (skey s);
            org = (if from_gen \<noteq> []
                   then \<lparr>o_op = op, o_role = Generated, o_ordinal = i_generated i,
                          o_sources = tidy from_gen\<rparr>
                   else \<lparr>o_op = op, o_role = Constructed, o_ordinal = i_constructed i,
                          o_sources = []\<rparr>)
        in i\<lparr>i_next_id := eid + 1,
             i_registry := add_entity eid rec (i_registry i),
             i_generated := (if from_gen \<noteq> [] then i_generated i + 1 else i_generated i),
             i_constructed := (if from_gen \<noteq> [] then i_constructed i else i_constructed i + 1),
             i_names := emplace_map (NameKey op (role_code (o_role org)) (o_ordinal org)) eid (i_names i),
             i_origins := emplace_map eid org (i_origins i),
             i_created := i_created i @ [eid]\<rparr>)"

definition issue_shapes :: "int \<Rightarrow> sources_table \<Rightarrow> shape list \<Rightarrow> issuer \<Rightarrow> issuer" where
  "issue_shapes op gen ss i = fold (issue_shape op gen) ss i"

section \<open>The carry\<close>

text \<open>Every id list is published sorted; a list with two ids or more is a merge.\<close>

definition publish :: "(shape_key \<times> entity_id list) list \<Rightarrow> (shape_key \<times> entity_id list) list" where
  "publish m = map (\<lambda>(k, ids). (k, sort ids)) m"

definition merged_ids :: "(shape_key \<times> entity_id list) list \<Rightarrow> entity_id list" where
  "merged_ids m = concat (map (\<lambda>(k, ids). if 1 < length ids then sort ids else []) m)"

definition finalise :: "delta \<Rightarrow> delta" where
  "finalise d = d\<lparr>d_created := tidy (d_created d), d_deleted := tidy (d_deleted d),
     d_modified := tidy (d_modified d), d_split := tidy (d_split d),
     d_merged := tidy (d_merged d)\<rparr>"

record carried =
  r_registry :: registry
  r_delta :: delta
  r_next_id :: entity_id
  r_origins :: "entity_id \<rightharpoonup> origin"
  r_names :: "name_key \<rightharpoonup> entity_id"

definition carry_registry ::
  "shape list \<Rightarrow> history option \<Rightarrow> int \<Rightarrow> piece_rule \<Rightarrow> registry \<Rightarrow>
   entity_id \<Rightarrow> (entity_id \<rightharpoonup> origin) \<Rightarrow> (name_key \<rightharpoonup> entity_id) \<Rightarrow> carried" where
  "carry_registry new_order hist op pieces prev next_id origins names =
     (let c = carry_ids hist (map skey new_order) pieces prev;
          i = issue_shapes op (c_gen c) new_order
                \<lparr>i_next_id = next_id, i_origins = origins, i_names = names,
                 i_constructed = 0, i_generated = 0, i_registry = c_next c, i_created = []\<rparr>;
          r = i_registry i;
          d = (c_delta c)\<lparr>d_created := i_created i, d_merged := merged_ids (by_shape r)\<rparr>
      in \<lparr>r_registry = r\<lparr>by_shape := publish (by_shape r)\<rparr>, r_delta = finalise d,
          r_next_id = i_next_id i, r_origins = i_origins i, r_names = i_names i\<rparr>)"

end
