(* ===== verification/Issue.thy ===== *)
theory Issue
  imports Carry
begin

text \<open>
  Pass 2 of the carry: the ids it issues, their provenance and their names. The naming
  invariant says that the name table is the inverse of the provenance of every id ever issued.
\<close>

section \<open>Names\<close>

definition origin_key :: "origin \<Rightarrow> name_key" where
  "origin_key org = NameKey (o_op org) (role_code (o_role org)) (o_ordinal org)"

text \<open>The session-global tables after the ids 1 to \<open>next - 1\<close> and the operations below \<open>op\<close>.\<close>

definition names_ok ::
  "int \<Rightarrow> entity_id \<Rightarrow> (entity_id \<rightharpoonup> origin) \<Rightarrow> (name_key \<rightharpoonup> entity_id) \<Rightarrow> bool" where
  "names_ok op next_id origins names =
     (1 \<le> next_id \<and> dom origins = {1..<next_id} \<and>
      (\<forall>e org. origins e = Some org \<longrightarrow> o_op org < op \<and>
          (\<forall>src \<in> set (o_sources org). src < e)) \<and>
      (\<forall>key e. names key = Some e \<longleftrightarrow> (\<exists>org. origins e = Some org \<and> key = origin_key org)))"

text \<open>The same half-way through pass 2 of operation \<open>op\<close>.\<close>

fun rank_of :: "issuer \<Rightarrow> role \<Rightarrow> int" where
  "rank_of i Constructed = i_constructed i"
| "rank_of i Generated = i_generated i"

definition issuing_ok :: "int \<Rightarrow> issuer \<Rightarrow> bool" where
  "issuing_ok op i =
     (1 \<le> i_next_id i \<and> dom (i_origins i) = {1..<i_next_id i} \<and>
      (\<forall>e org. i_origins i e = Some org \<longrightarrow>
          (o_op org < op \<or> o_op org = op \<and> o_ordinal org < rank_of i (o_role org)) \<and>
          (\<forall>src \<in> set (o_sources org). src < e)) \<and>
      (\<forall>key e. i_names i key = Some e \<longleftrightarrow>
          (\<exists>org. i_origins i e = Some org \<and> key = origin_key org)))"

lemma role_code_inject [simp]: "role_code a = role_code b \<longleftrightarrow> a = b"
  by (cases a; cases b) simp_all

lemma origin_key_inject:
  "origin_key a = origin_key b \<longleftrightarrow>
     o_op a = o_op b \<and> o_role a = o_role b \<and> o_ordinal a = o_ordinal b"
  by (simp add: origin_key_def)

lemma issuing_ok_start:
  assumes "names_ok op next_id origins names"
  shows "issuing_ok op \<lparr>i_next_id = next_id, i_origins = origins, i_names = names,
    i_constructed = 0, i_generated = 0, i_registry = r, i_created = cs\<rparr>"
  using assms by (auto simp: names_ok_def issuing_ok_def)

lemma issuing_ok_finish:
  assumes "issuing_ok op i" and "op < op'"
  shows "names_ok op' (i_next_id i) (i_origins i) (i_names i)"
proof -
  have "o_op org < op'" if "i_origins i e = Some org" for e org
    using assms that unfolding issuing_ok_def by fastforce
  with assms(1) show ?thesis unfolding issuing_ok_def names_ok_def by simp
qed

section \<open>One step\<close>

text \<open>The provenance pass 2 gives a shape that no id was carried onto.\<close>

definition new_origin :: "int \<Rightarrow> sources_table \<Rightarrow> shape \<Rightarrow> issuer \<Rightarrow> origin" where
  "new_origin op gen s i =
     (let from_gen = values_at gen (skey s) in
      if from_gen \<noteq> []
      then \<lparr>o_op = op, o_role = Generated, o_ordinal = i_generated i, o_sources = tidy from_gen\<rparr>
      else \<lparr>o_op = op, o_role = Constructed, o_ordinal = i_constructed i, o_sources = []\<rparr>)"

text \<open>The record it gets.\<close>

definition issued_to :: "shape \<Rightarrow> entity_record" where
  "issued_to s = \<lparr>ent_shapes = [s], ent_kind = shape_type s\<rparr>"

lemma record_ok_issued_to [simp]: "record_ok (issued_to s)"
  by (simp add: record_ok_def issued_to_def)

definition is_named :: "issuer \<Rightarrow> shape \<Rightarrow> bool" where
  "is_named i s = (skey s \<in> fst ` set (by_shape (i_registry i)))"

lemma issue_named: "is_named i s \<Longrightarrow> issue_shape op gen s i = i"
  by (simp add: issue_shape_def is_named_def)

lemma issue_unnamed:
  assumes "\<not> is_named i s"
  shows "i_next_id (issue_shape op gen s i) = i_next_id i + 1"
    and "i_created (issue_shape op gen s i) = i_created i @ [i_next_id i]"
    and "i_registry (issue_shape op gen s i) = add_entity (i_next_id i) (issued_to s) (i_registry i)"
    and "i_origins (issue_shape op gen s i) = emplace_map (i_next_id i) (new_origin op gen s i) (i_origins i)"
    and "i_names (issue_shape op gen s i) = emplace_map (origin_key (new_origin op gen s i)) (i_next_id i) (i_names i)"
    and "rank_of (issue_shape op gen s i) r = rank_of i r + (if r = o_role (new_origin op gen s i) then 1 else 0)"
  using assms by (cases r; simp add: issue_shape_def is_named_def new_origin_def origin_key_def
      issued_to_def Let_def)+

lemma new_origin_facts:
  "o_op (new_origin op gen s i) = op"
  "o_ordinal (new_origin op gen s i) = rank_of i (o_role (new_origin op gen s i))"
  "set (o_sources (new_origin op gen s i)) = set (values_at gen (skey s))"
  "o_role (new_origin op gen s i) =
     (if values_at gen (skey s) = [] then Constructed else Generated)"
  by (simp_all add: new_origin_def Let_def)

lemma issue_shape_issuing_ok:
  assumes ok: "issuing_ok op i"
    and src: "\<forall>src \<in> set (values_at gen (skey s)). src < i_next_id i"
  shows "issuing_ok op (issue_shape op gen s i)"
proof (cases "is_named i s")
  case True
  with ok show ?thesis by (simp add: issue_named)
next
  case False
  let ?o = "new_origin op gen s i" and ?n = "i_next_id i"
  note step = issue_unnamed [OF False, where op = op and gen = gen]
  have fresh: "i_origins i ?n = None"
    using ok by (auto simp: issuing_ok_def set_eq_iff domIff)
  have new_name: "origin_key org \<noteq> origin_key ?o" if "i_origins i e = Some org" for e org
  proof -
    have "o_op org < op \<or> o_op org = op \<and> o_ordinal org < rank_of i (o_role org)"
      using ok that unfolding issuing_ok_def by blast
    then show ?thesis by (auto simp: origin_key_inject new_origin_facts(1,2))
  qed
  have no_name: "i_names i (origin_key ?o) = None"
  proof (rule ccontr)
    assume "i_names i (origin_key ?o) \<noteq> None"
    then obtain e org where "i_origins i e = Some org" "origin_key ?o = origin_key org"
      using ok by (auto simp: issuing_ok_def)
    with new_name show False by metis
  qed
  have dom: "dom (i_origins (issue_shape op gen s i)) = {1..<?n + 1}"
    using ok by (auto simp: issuing_ok_def step(4))
  have orgs: "i_origins (issue_shape op gen s i) e = Some org \<longleftrightarrow>
      i_origins i e = Some org \<or> e = ?n \<and> org = ?o" for e org
    using fresh by (auto simp: step(4))
  have nms: "i_names (issue_shape op gen s i) key = Some e \<longleftrightarrow>
      i_names i key = Some e \<or> e = ?n \<and> key = origin_key ?o" for key e
    using no_name by (auto simp: step(5))
  let ?i' = "issue_shape op gen s i"
  have old: "(o_op org < op \<or> o_op org = op \<and> o_ordinal org < rank_of ?i' (o_role org)) \<and>
      (\<forall>src \<in> set (o_sources org). src < e)" if "i_origins i e = Some org" for e org
  proof -
    have "rank_of i (o_role org) \<le> rank_of ?i' (o_role org)" by (simp add: step(6))
    then show ?thesis using ok that unfolding issuing_ok_def by fastforce
  qed
  have new: "(o_op ?o < op \<or> o_op ?o = op \<and> o_ordinal ?o < rank_of ?i' (o_role ?o)) \<and>
      (\<forall>src \<in> set (o_sources ?o). src < ?n)"
    using src by (simp add: step(6) new_origin_facts(1-3))
  have keys: "\<forall>key e. i_names ?i' key = Some e \<longleftrightarrow>
      (\<exists>org. i_origins ?i' e = Some org \<and> key = origin_key org)"
    using ok unfolding nms orgs issuing_ok_def by blast
  have "1 \<le> ?n + 1" using ok by (simp add: issuing_ok_def)
  moreover have "\<forall>e org. i_origins ?i' e = Some org \<longrightarrow>
      (o_op org < op \<or> o_op org = op \<and> o_ordinal org < rank_of ?i' (o_role org)) \<and>
      (\<forall>src \<in> set (o_sources org). src < e)"
    unfolding orgs using old new by blast
  ultimately show ?thesis unfolding issuing_ok_def step(1) using dom keys by blast
qed

section \<open>The whole pass\<close>

lemma issue_shapes_Nil [simp]: "issue_shapes op gen [] i = i"
  by (simp add: issue_shapes_def)

lemma issue_shapes_Cons [simp]:
  "issue_shapes op gen (s # ss) i = issue_shapes op gen ss (issue_shape op gen s i)"
  by (simp add: issue_shapes_def)

lemma issue_shape_next_mono: "i_next_id i \<le> i_next_id (issue_shape op gen s i)"
  by (cases "is_named i s") (simp_all add: issue_named issue_unnamed)

lemma issue_shapes_next_mono: "i_next_id i \<le> i_next_id (issue_shapes op gen ss i)"
  by (induction ss arbitrary: i) (auto intro: order_trans issue_shape_next_mono)

lemma issue_shapes_issuing_ok:
  assumes "issuing_ok op i" and "\<forall>k. \<forall>src \<in> set (values_at gen k). src < i_next_id i"
  shows "issuing_ok op (issue_shapes op gen ss i)"
  using assms
proof (induction ss arbitrary: i)
  case (Cons s ss)
  have "\<forall>k. \<forall>src \<in> set (values_at gen k). src < i_next_id (issue_shape op gen s i)"
    using Cons.prems(2) issue_shape_next_mono by (meson order_less_le_trans)
  with Cons show ?case by (simp add: issue_shape_issuing_ok)
qed simp

text \<open>The registry side: the ids of the pass are consecutive, and each names one new shape.\<close>

definition ids_below :: "entity_id \<Rightarrow> registry \<Rightarrow> bool" where
  "ids_below n r = (live_ids r \<subseteq> {1..<n})"

lemma issue_shape_registry:
  assumes "index_ok (i_registry i)" and "ids_below (i_next_id i) (i_registry i)"
    and "1 \<le> i_next_id i"
  shows "index_ok (i_registry (issue_shape op gen s i))"
    and "ids_below (i_next_id (issue_shape op gen s i)) (i_registry (issue_shape op gen s i))"
    and "fst ` set (by_shape (i_registry (issue_shape op gen s i))) =
      insert (skey s) (fst ` set (by_shape (i_registry i)))"
    and "map_of (alive (i_registry (issue_shape op gen s i))) e =
      (if is_named i s \<or> e \<noteq> i_next_id i then map_of (alive (i_registry i)) e
       else Some (issued_to s))"
proof -
  have fresh: "i_next_id i \<notin> live_ids (i_registry i)"
    using assms(2) by (auto simp: ids_below_def)
  note reg = issue_unnamed(1,3) [where i = i and s = s and op = op and gen = gen]
  show "index_ok (i_registry (issue_shape op gen s i))"
    using assms fresh
    by (cases "is_named i s") (simp_all add: issue_named reg index_ok_add_entity)
  show "ids_below (i_next_id (issue_shape op gen s i)) (i_registry (issue_shape op gen s i))"
    using assms
    by (cases "is_named i s") (auto simp: issue_named reg ids_below_def add_entity_simps)
  show "fst ` set (by_shape (i_registry (issue_shape op gen s i))) =
      insert (skey s) (fst ` set (by_shape (i_registry i)))"
    by (cases "is_named i s")
      (auto simp: issue_named reg add_entity_simps is_named_def issued_to_def)
  show "map_of (alive (i_registry (issue_shape op gen s i))) e =
      (if is_named i s \<or> e \<noteq> i_next_id i then map_of (alive (i_registry i)) e
       else Some (issued_to s))"
    using fresh by (cases "is_named i s")
      (auto simp: issue_named reg add_entity_simps live_ids_dom)
qed

lemma issue_shape_owners:
  assumes "index_ok (i_registry i)" and "ids_below (i_next_id i) (i_registry i)"
  shows "owners (i_registry (issue_shape op gen s i)) k =
    (if is_named i s \<or> k \<noteq> skey s then owners (i_registry i) k else {i_next_id i})"
proof (cases "is_named i s")
  case True
  then show ?thesis by (simp add: issue_named)
next
  case False
  have "i_next_id i \<notin> live_ids (i_registry i)"
    using assms(2) by (auto simp: ids_below_def)
  moreover have "owners (i_registry i) (skey s) = {}"
    using False by_shape_key_iff [OF assms(1)] by (simp add: is_named_def)
  ultimately show ?thesis using False
    by (simp add: issue_unnamed(3) owners_add_entity issued_to_def)
qed

text \<open>A pass in one place: where it starts and what it leaves.\<close>

definition issued ::
  "int \<Rightarrow> sources_table \<Rightarrow> shape list \<Rightarrow> issuer \<Rightarrow> issuer \<Rightarrow> bool" where
  "issued op gen ss i i' =
     (index_ok (i_registry i') \<and> ids_below (i_next_id i') (i_registry i') \<and>
      i_next_id i \<le> i_next_id i' \<and>
      fst ` set (by_shape (i_registry i')) = skey ` set ss \<union> fst ` set (by_shape (i_registry i)) \<and>
      (\<forall>e < i_next_id i. map_of (alive (i_registry i')) e = map_of (alive (i_registry i)) e) \<and>
      i_created i' = i_created i @ [i_next_id i..i_next_id i' - 1] \<and>
      (\<forall>k \<in> fst ` set (by_shape (i_registry i)). owners (i_registry i') k = owners (i_registry i) k) \<and>
      (\<forall>e \<in> {i_next_id i..<i_next_id i'}. \<exists>s \<in> set ss. \<exists>org.
          skey s \<notin> fst ` set (by_shape (i_registry i)) \<and>
          map_of (alive (i_registry i')) e = Some (issued_to s) \<and>
          owners (i_registry i') (skey s) = {e} \<and>
          i_origins i' e = Some org \<and> o_op org = op \<and>
          o_role org = (if values_at gen (skey s) = [] then Constructed else Generated) \<and>
          set (o_sources org) = set (values_at gen (skey s))) \<and>
      i_origins i \<subseteq>\<^sub>m i_origins i' \<and> i_names i \<subseteq>\<^sub>m i_names i')"

lemma issued_new:
  "issued op gen ss i i' \<Longrightarrow> e \<in> {i_next_id i..<i_next_id i'} \<Longrightarrow>
   \<exists>s \<in> set ss. \<exists>org. skey s \<notin> fst ` set (by_shape (i_registry i)) \<and>
      map_of (alive (i_registry i')) e = Some (issued_to s) \<and>
      owners (i_registry i') (skey s) = {e} \<and>
      i_origins i' e = Some org \<and> o_op org = op \<and>
      o_role org = (if values_at gen (skey s) = [] then Constructed else Generated) \<and>
      set (o_sources org) = set (values_at gen (skey s))"
  unfolding issued_def by blast

lemma map_le_emplace_map: "m \<subseteq>\<^sub>m emplace_map k v m"
  by (auto simp: map_le_def)

lemma issue_shape_map_le:
  "i_origins i \<subseteq>\<^sub>m i_origins (issue_shape op gen s i)"
  "i_names i \<subseteq>\<^sub>m i_names (issue_shape op gen s i)"
  by (cases "is_named i s"; simp add: issue_named issue_unnamed map_le_emplace_map)+

lemma issued_step:
  assumes reg: "index_ok (i_registry i)" "ids_below (i_next_id i) (i_registry i)" "1 \<le> i_next_id i"
    and dom: "dom (i_origins i) \<subseteq> {..<i_next_id i}"
  shows "issued op gen [s] i (issue_shape op gen s i)"
proof (cases "is_named i s")
  case True
  with reg show ?thesis
    by (auto simp: issued_def issue_named is_named_def)
next
  case False
  let ?i = "issue_shape op gen s i"
  have "i_origins i (i_next_id i) = None" using dom by auto
  then have "i_origins ?i (i_next_id i) = Some (new_origin op gen s i)"
    by (simp add: issue_unnamed(4) [OF False])
  moreover have "map_of (alive (i_registry ?i)) (i_next_id i) = Some (issued_to s)"
    using False by (simp add: issue_shape_registry(4) [OF reg])
  moreover have "owners (i_registry ?i) (skey s) = {i_next_id i}"
    using False by (simp add: issue_shape_owners [OF reg(1,2)])
  moreover have "{i_next_id i..<i_next_id ?i} = {i_next_id i}"
    by (auto simp: issue_unnamed(1) [OF False])
  moreover have "\<forall>k \<in> fst ` set (by_shape (i_registry i)).
      owners (i_registry ?i) k = owners (i_registry i) k"
    using False unfolding is_named_def by (metis issue_shape_owners [OF reg(1,2)])
  ultimately show ?thesis
    using False issue_shape_registry(1-3) [OF reg, of op gen s] issue_shape_map_le [of i op gen s]
    by (simp add: issued_def issue_shape_registry(4) [OF reg] issue_unnamed(1,2) [OF False]
        new_origin_facts is_named_def)
qed

lemma issued_trans:
  assumes one: "issued op gen ss i j" and two: "issued op gen ts j k"
  shows "issued op gen (ss @ ts) i k"
proof -
  have created: "[i_next_id i..i_next_id j - 1] @ [i_next_id j..i_next_id k - 1] =
      [i_next_id i..i_next_id k - 1]"
    using one two by (intro upto_append) (simp_all add: issued_def)
  have keys: "fst ` set (by_shape (i_registry j)) =
      skey ` set ss \<union> fst ` set (by_shape (i_registry i))"
    using one by (simp add: issued_def)
  have new: "\<exists>s \<in> set (ss @ ts). \<exists>org.
      skey s \<notin> fst ` set (by_shape (i_registry i)) \<and>
      map_of (alive (i_registry k)) e = Some (issued_to s) \<and>
      owners (i_registry k) (skey s) = {e} \<and>
      i_origins k e = Some org \<and> o_op org = op \<and>
      o_role org = (if values_at gen (skey s) = [] then Constructed else Generated) \<and>
      set (o_sources org) = set (values_at gen (skey s))"
    if e: "e \<in> {i_next_id i..<i_next_id k}" for e
  proof (cases "e < i_next_id j")
    case True
    with e one obtain s org where s: "s \<in> set ss" "skey s \<notin> fst ` set (by_shape (i_registry i))"
      "map_of (alive (i_registry j)) e = Some (issued_to s)" "owners (i_registry j) (skey s) = {e}"
      "i_origins j e = Some org" "o_op org = op"
      "o_role org = (if values_at gen (skey s) = [] then Constructed else Generated)"
      "set (o_sources org) = set (values_at gen (skey s))"
      unfolding issued_def by (metis atLeastLessThan_iff)
    have "i_origins k e = Some org"
      using s(5) two unfolding issued_def map_le_def by (metis domI)
    moreover have "map_of (alive (i_registry k)) e = Some (issued_to s)"
      using s(3) two True unfolding issued_def by metis
    moreover have "skey s \<in> fst ` set (by_shape (i_registry j))"
      using s(1) keys by auto
    then have "owners (i_registry k) (skey s) = {e}"
      using s(4) two unfolding issued_def by metis
    ultimately show ?thesis using s by auto
  next
    case False
    with e two obtain s org where "s \<in> set ts" "skey s \<notin> fst ` set (by_shape (i_registry j))"
      "map_of (alive (i_registry k)) e = Some (issued_to s)" "owners (i_registry k) (skey s) = {e}"
      "i_origins k e = Some org" "o_op org = op"
      "o_role org = (if values_at gen (skey s) = [] then Constructed else Generated)"
      "set (o_sources org) = set (values_at gen (skey s))"
      unfolding issued_def by (metis atLeastLessThan_iff not_le)
    then show ?thesis using keys by auto
  qed
  show ?thesis
    unfolding issued_def
  proof (intro conjI)
    show "i_created k = i_created i @ [i_next_id i..i_next_id k - 1]"
      using one two created by (simp add: issued_def)
    show "\<forall>e<i_next_id i. map_of (alive (i_registry k)) e = map_of (alive (i_registry i)) e"
      using one two by (simp add: issued_def)
    show "\<forall>k' \<in> fst ` set (by_shape (i_registry i)).
        owners (i_registry k) k' = owners (i_registry i) k'"
      using one two keys by (simp add: issued_def)
    show "i_origins i \<subseteq>\<^sub>m i_origins k" "i_names i \<subseteq>\<^sub>m i_names k"
      using one two unfolding issued_def by (meson map_le_trans)+
  qed (use one two new keys in \<open>auto simp: issued_def\<close>)
qed

lemma issue_shapes_issued:
  assumes "index_ok (i_registry i)" "ids_below (i_next_id i) (i_registry i)" "issuing_ok op i"
    and src: "\<forall>k. \<forall>src \<in> set (values_at gen k). src < i_next_id i"
  shows "issued op gen ss i (issue_shapes op gen ss i)"
  using assms
proof (induction ss arbitrary: i)
  case Nil
  then show ?case by (simp add: issued_def)
next
  case (Cons s ss)
  let ?j = "issue_shape op gen s i"
  have n: "1 \<le> i_next_id i" "dom (i_origins i) \<subseteq> {..<i_next_id i}"
    using Cons.prems(3) by (auto simp: issuing_ok_def)
  have step: "issued op gen [s] i ?j"
    by (rule issued_step [OF Cons.prems(1,2) n])
  have "issuing_ok op ?j"
    using Cons.prems(3,4) by (simp add: issue_shape_issuing_ok)
  moreover have "\<forall>k. \<forall>src \<in> set (values_at gen k). src < i_next_id ?j"
    using Cons.prems(4) issue_shape_next_mono by (meson order_less_le_trans)
  ultimately have "issued op gen ss ?j (issue_shapes op gen ss ?j)"
    using step by (intro Cons.IH) (simp_all add: issued_def)
  from issued_trans [OF step this] show ?case by simp
qed

end
