(* ===== verification/CarryFacts.thy ===== *)
theory CarryFacts
  imports Issue
begin

text \<open>
  The carry as a whole: \<^verbatim>\<open>Session::carry_registry\<close> keeps the registry and the naming
  invariant, and its delta says exactly what became of every id.
\<close>

section \<open>Assembling the passes\<close>

definition start_issuer ::
  "entity_id \<Rightarrow> (entity_id \<rightharpoonup> origin) \<Rightarrow> (name_key \<rightharpoonup> entity_id) \<Rightarrow> registry \<Rightarrow> issuer" where
  "start_issuer next_id origins names r =
     \<lparr>i_next_id = next_id, i_origins = origins, i_names = names,
      i_constructed = 0, i_generated = 0, i_registry = r, i_created = []\<rparr>"

lemma start_issuer_simps [simp]:
  "i_next_id (start_issuer n orgs nms r) = n"
  "i_origins (start_issuer n orgs nms r) = orgs"
  "i_names (start_issuer n orgs nms r) = nms"
  "i_registry (start_issuer n orgs nms r) = r"
  "i_created (start_issuer n orgs nms r) = []"
  by (simp_all add: start_issuer_def)

text \<open>What a session holds when an operation starts its carry.\<close>

definition carry_ready ::
  "int \<Rightarrow> registry \<Rightarrow> entity_id \<Rightarrow> (entity_id \<rightharpoonup> origin) \<Rightarrow> (name_key \<rightharpoonup> entity_id) \<Rightarrow> bool" where
  "carry_ready op prev next_id origins names =
     (index_ok prev \<and> ids_below next_id prev \<and> names_ok op next_id origins names)"

definition pass1 ::
  "shape list \<Rightarrow> history option \<Rightarrow> piece_rule \<Rightarrow> registry \<Rightarrow> carry" where
  "pass1 new_order hist pieces prev = carry_ids hist (map skey new_order) pieces prev"

definition pass2 ::
  "shape list \<Rightarrow> history option \<Rightarrow> int \<Rightarrow> piece_rule \<Rightarrow> registry \<Rightarrow> entity_id \<Rightarrow>
   (entity_id \<rightharpoonup> origin) \<Rightarrow> (name_key \<rightharpoonup> entity_id) \<Rightarrow> issuer" where
  "pass2 new_order hist op pieces prev next_id origins names =
     issue_shapes op (c_gen (pass1 new_order hist pieces prev)) new_order
       (start_issuer next_id origins names (c_next (pass1 new_order hist pieces prev)))"

lemma carry_registry_parts:
  "carry_registry new_order hist op pieces prev next_id origins names =
     (let i = pass2 new_order hist op pieces prev next_id origins names;
          r = i_registry i
      in \<lparr>r_registry = r\<lparr>by_shape := publish (by_shape r)\<rparr>,
          r_delta = finalise ((c_delta (pass1 new_order hist pieces prev))
            \<lparr>d_created := i_created i, d_merged := merged_ids (by_shape r)\<rparr>),
          r_next_id = i_next_id i, r_origins = i_origins i, r_names = i_names i\<rparr>)"
  by (simp add: carry_registry_def pass1_def pass2_def start_issuer_def Let_def)

lemma carried_of_below:
  "ids_below n prev \<Longrightarrow> carried_of hist ms pieces prev e = Some rec \<Longrightarrow> e \<in> {1..<n}"
  by (auto simp: carried_of_def bind_eq_Some_conv ids_below_def live_ids_dom)

lemma pass1_facts:
  assumes "carry_ready op prev next_id origins names"
  shows "index_ok (c_next (pass1 new_order hist pieces prev))"
    and "ids_below next_id (c_next (pass1 new_order hist pieces prev))"
    and "fst ` set (by_shape (c_next (pass1 new_order hist pieces prev))) \<subseteq> skey ` set new_order"
    and "map_of (alive (c_next (pass1 new_order hist pieces prev))) =
      carried_of hist (map skey new_order) pieces prev"
    and "set (values_at (c_gen (pass1 new_order hist pieces prev)) k) =
      {e. \<exists>rec. map_of (alive prev) e = Some rec \<and>
          k \<in> derived_keys hist (map skey new_order) pieces rec}"
proof -
  have d: "distinct (map fst (alive prev))"
    using assms by (simp add: carry_ready_def index_ok_def)
  show "index_ok (c_next (pass1 new_order hist pieces prev))"
    and m: "map_of (alive (c_next (pass1 new_order hist pieces prev))) =
      carried_of hist (map skey new_order) pieces prev"
    unfolding pass1_def by (rule carry_ids_spec [OF d])+
  show "ids_below next_id (c_next (pass1 new_order hist pieces prev))"
    using assms carried_of_below [of next_id prev] m
    by (fastforce simp: ids_below_def live_ids_dom carry_ready_def)
  show "fst ` set (by_shape (c_next (pass1 new_order hist pieces prev))) \<subseteq> skey ` set new_order"
    using carry_ids_keys [OF d, of hist "map skey new_order" pieces] by (simp add: pass1_def)
  show "set (values_at (c_gen (pass1 new_order hist pieces prev)) k) =
      {e. \<exists>rec. map_of (alive prev) e = Some rec \<and>
          k \<in> derived_keys hist (map skey new_order) pieces rec}"
    unfolding pass1_def by (rule carry_ids_spec [OF d])
qed

lemma pass1_sources_below:
  assumes "carry_ready op prev next_id origins names"
    and "e \<in> set (values_at (c_gen (pass1 new_order hist pieces prev)) k)"
  shows "e \<in> live_ids prev" and "e < next_id"
  using assms by (auto simp: pass1_facts(5) [OF assms(1)] live_ids_dom carry_ready_def
      ids_below_def dest: domI)

lemma pass2_issued:
  assumes "carry_ready op prev next_id origins names"
  shows "issued op (c_gen (pass1 new_order hist pieces prev)) new_order
      (start_issuer next_id origins names (c_next (pass1 new_order hist pieces prev)))
      (pass2 new_order hist op pieces prev next_id origins names)"
    and "issuing_ok op (pass2 new_order hist op pieces prev next_id origins names)"
proof -
  have start: "issuing_ok op
      (start_issuer next_id origins names (c_next (pass1 new_order hist pieces prev)))"
    unfolding start_issuer_def
    using assms by (intro issuing_ok_start) (simp add: carry_ready_def)
  have src: "\<forall>k. \<forall>src \<in> set (values_at (c_gen (pass1 new_order hist pieces prev)) k). src < next_id"
    using pass1_sources_below [OF assms] by blast
  show "issued op (c_gen (pass1 new_order hist pieces prev)) new_order
      (start_issuer next_id origins names (c_next (pass1 new_order hist pieces prev)))
      (pass2 new_order hist op pieces prev next_id origins names)"
    unfolding pass2_def
    using pass1_facts(1,2) [OF assms] start src by (intro issue_shapes_issued) simp_all
  show "issuing_ok op (pass2 new_order hist op pieces prev next_id origins names)"
    unfolding pass2_def using start src by (intro issue_shapes_issuing_ok) simp_all
qed

section \<open>The registry after a carry\<close>

lemma live_ids_by_shape_update [simp]: "live_ids (r\<lparr>by_shape := m\<rparr>) = live_ids r"
  by (simp add: live_ids_def)

text \<open>The registry and the root agree again, and the ids stay below the counter.\<close>

lemma carry_registry_ok:
  assumes "carry_ready op prev next_id origins names"
    and "c = carry_registry new_order hist op pieces prev next_id origins names"
  shows "registry_ok (r_registry c)"
    and "covers (r_registry c) (skey ` set new_order)"
    and "ids_below (r_next_id c) (r_registry c)"
    and "next_id \<le> r_next_id c"
  using pass2_issued(1) [OF assms(1), of new_order hist pieces]
    pass1_facts(3) [OF assms(1), of new_order hist pieces]
  by (simp_all add: assms(2) carry_registry_parts Let_def issued_def registry_ok_publish covers_def
      ids_below_def Un_absorb2)

text \<open>The naming invariant holds for the operations to come, and nothing issued is forgotten.\<close>

lemma carry_registry_names:
  assumes "carry_ready op prev next_id origins names"
    and "c = carry_registry new_order hist op pieces prev next_id origins names"
  shows "op < op' \<Longrightarrow> names_ok op' (r_next_id c) (r_origins c) (r_names c)"
    and "origins \<subseteq>\<^sub>m r_origins c" and "names \<subseteq>\<^sub>m r_names c"
  using pass2_issued [OF assms(1), of new_order hist pieces]
  by (auto simp: assms(2) carry_registry_parts Let_def issued_def intro: issuing_ok_finish)

text \<open>An id of the previous registry is what the abstract carry makes of it; dead ids stay dead.\<close>

lemma carry_registry_old:
  assumes "carry_ready op prev next_id origins names"
    and "c = carry_registry new_order hist op pieces prev next_id origins names"
    and "e < next_id"
  shows "map_of (alive (r_registry c)) e =
    carried_of hist (map skey new_order) pieces prev e"
  using pass2_issued(1) [OF assms(1), of new_order hist pieces] assms(3)
    pass1_facts(4) [OF assms(1), of new_order hist pieces]
  by (simp add: assms(2) carry_registry_parts Let_def issued_def)

text \<open>An id at or above the counter is new: one shape of its own, that no id was carried onto.\<close>

lemma carry_registry_new:
  assumes ready: "carry_ready op prev next_id origins names"
    and c: "c = carry_registry new_order hist op pieces prev next_id origins names"
    and e: "e \<in> {next_id..<r_next_id c}"
  obtains s org where "s \<in> set new_order"
    and "map_of (alive (r_registry c)) e = Some (issued_to s)"
    and "owners (r_registry c) (skey s) = {e}"
    and "r_origins c e = Some org" and "o_op org = op"
    and "o_role org = (if o_sources org = [] then Constructed else Generated)"
    and "set (o_sources org) = {e'. \<exists>rec. map_of (alive prev) e' = Some rec \<and>
        skey s \<in> derived_keys hist (map skey new_order) pieces rec}"
proof -
  let ?gen = "c_gen (pass1 new_order hist pieces prev)"
  let ?i = "pass2 new_order hist op pieces prev next_id origins names"
  have "e \<in> {next_id..<i_next_id ?i}"
    using e by (simp add: c carry_registry_parts Let_def)
  then obtain s org where s: "s \<in> set new_order"
    "map_of (alive (i_registry ?i)) e = Some (issued_to s)"
    "owners (i_registry ?i) (skey s) = {e}" "i_origins ?i e = Some org" "o_op org = op"
    "o_role org = (if values_at ?gen (skey s) = [] then Constructed else Generated)"
    "set (o_sources org) = set (values_at ?gen (skey s))"
    using issued_new [OF pass2_issued(1) [OF ready, of new_order hist pieces], of e]
    by auto
  have "o_sources org = [] \<longleftrightarrow> values_at ?gen (skey s) = []"
    using s(7) by (metis set_empty)
  with s show thesis
    by (intro that [of s org])
      (simp_all add: c carry_registry_parts Let_def pass1_facts(5) [OF ready])
qed

lemma carry_registry_live_ids:
  assumes "carry_ready op prev next_id origins names"
    and "c = carry_registry new_order hist op pieces prev next_id origins names"
  shows "live_ids (r_registry c) =
    {e. carried_of hist (map skey new_order) pieces prev e \<noteq> None} \<union> {next_id..<r_next_id c}"
proof -
  have "e \<in> live_ids (r_registry c) \<longleftrightarrow>
      carried_of hist (map skey new_order) pieces prev e \<noteq> None \<or> e \<in> {next_id..<r_next_id c}" for e
  proof (cases "e < next_id")
    case True
    then show ?thesis using carry_registry_old [OF assms True] by (simp add: live_ids_dom domIff)
  next
    case False
    then have "carried_of hist (map skey new_order) pieces prev e = None"
      using carried_of_below [of next_id prev] assms(1) by (fastforce simp: carry_ready_def)
    moreover have "e \<in> live_ids (r_registry c)" if "e \<in> {next_id..<r_next_id c}"
      using that by (elim carry_registry_new [OF assms]) (simp add: live_ids_dom domI)
    then have "e \<in> live_ids (r_registry c) \<longleftrightarrow> e \<in> {next_id..<r_next_id c}"
      using False carry_registry_ok(3) [OF assms] by (auto simp: ids_below_def)
    ultimately show ?thesis by simp
  qed
  then show ?thesis by blast
qed

section \<open>The delta\<close>

text \<open>A carry leaves no record with a shape twice.\<close>

lemma carry_registry_apart:
  assumes "carry_ready op prev next_id origins names"
    and "c = carry_registry new_order hist op pieces prev next_id origins names"
  shows "shapes_apart (r_registry c)"
  unfolding shapes_apart_def
proof (intro allI impI)
  fix e rec
  assume rec: "map_of (alive (r_registry c)) e = Some rec"
  show "distinct (map skey (ent_shapes rec))"
  proof (cases "e < next_id")
    case True
    with carry_registry_old [OF assms] rec
    have "carried_of hist (map skey new_order) pieces prev e = Some rec" by simp
    then obtain rec0 where "carried_entity hist (map skey new_order) pieces rec0 = Some rec"
      by (auto simp: carried_of_def bind_eq_Some_conv)
    then show ?thesis by (simp add: carried_entity_ok)
  next
    case False
    have "e \<in> live_ids (r_registry c)" using rec by (auto simp: live_ids_dom)
    with False have "e \<in> {next_id..<r_next_id c}"
      using carry_registry_ok(3) [OF assms] by (auto simp: ids_below_def)
    from carry_registry_new [OF assms this] obtain s
      where "map_of (alive (r_registry c)) e = Some (issued_to s)" by blast
    with rec show ?thesis by (auto simp: issued_to_def)
  qed
qed

lemma set_merged_ids:
  assumes "index_ok r" and "shapes_apart r"
  shows "set (merged_ids (by_shape r)) = {e. \<exists>k. e \<in> owners r k \<and> owners r k \<noteq> {e}}"
proof -
  have row: "ids = values_at (by_shape r) k" if "(k, ids) \<in> set (by_shape r)" for k ids
    using that assms by (simp add: index_ok_def values_at_def)
  have two: "1 < length (values_at (by_shape r) k) \<longleftrightarrow> owners r k \<noteq> {e}"
    if "e \<in> owners r k" for k e
    using that index_ok_row [OF assms(1)] index_ok_row_distinct [OF assms]
      distinct_one_iff [of "values_at (by_shape r) k" e] by simp
  show ?thesis
  proof (intro set_eqI iffI)
    fix e
    assume "e \<in> set (merged_ids (by_shape r))"
    then obtain k ids where k: "(k, ids) \<in> set (by_shape r)" "1 < length ids" "e \<in> set ids"
      by (auto simp: merged_ids_def split: if_splits)
    moreover have "ids = values_at (by_shape r) k" by (rule row) (rule k(1))
    ultimately have "e \<in> owners r k" using index_ok_row [OF assms(1)] by blast
    with two k row show "e \<in> {e. \<exists>k. e \<in> owners r k \<and> owners r k \<noteq> {e}}" by blast
  next
    fix e
    assume "e \<in> {e. \<exists>k. e \<in> owners r k \<and> owners r k \<noteq> {e}}"
    then obtain k where k: "e \<in> owners r k" "owners r k \<noteq> {e}" by blast
    then have "k \<in> fst ` set (by_shape r)" using by_shape_key_iff [OF assms(1)] by blast
    then obtain ids where ids: "(k, ids) \<in> set (by_shape r)" by auto
    moreover have "1 < length ids" "e \<in> set ids"
      using two [OF k(1)] k row [OF ids] index_ok_row [OF assms(1)] by auto
    ultimately show "e \<in> set (merged_ids (by_shape r))"
      by (auto simp: merged_ids_def intro!: bexI [of _ "(k, ids)"])
  qed
qed

lemma carry_registry_delta:
  assumes ready: "carry_ready op prev next_id origins names"
    and c: "c = carry_registry new_order hist op pieces prev next_id origins names"
  shows "d_created (r_delta c) = [next_id..r_next_id c - 1]"
    and "set (d_deleted (r_delta c)) = live_ids prev - live_ids (r_registry c)"
    and "set (d_modified (r_delta c)) =
      {e \<in> live_ids prev. is_changed hist (map skey new_order) pieces prev e}"
    and "set (d_split (r_delta c)) =
      {e \<in> live_ids prev. is_split_up hist (map skey new_order) pieces prev e}"
    and "set (d_merged (r_delta c)) =
      {e. \<exists>k. e \<in> owners (r_registry c) k \<and> owners (r_registry c) k \<noteq> {e}}"
proof -
  let ?i = "pass2 new_order hist op pieces prev next_id origins names"
  have iss: "index_ok (i_registry ?i)" "i_created ?i = [next_id..i_next_id ?i - 1]"
    using pass2_issued(1) [OF ready, of new_order hist pieces] by (simp_all add: issued_def)
  have d: "distinct (map fst (alive prev))"
    using ready by (simp add: carry_ready_def index_ok_def)
  have keys: "set (sorted_keys (alive prev)) = live_ids prev"
    by (simp add: live_ids_def)
  note delta = carry_ids_spec(4) [OF d, of hist "map skey new_order" pieces, folded pass1_def]
  note parts = c carry_registry_parts Let_def finalise_def
  show "d_created (r_delta c) = [next_id..r_next_id c - 1]"
    by (simp add: parts iss tidy_id)
  show "set (d_merged (r_delta c)) =
      {e. \<exists>k. e \<in> owners (r_registry c) k \<and> owners (r_registry c) k \<noteq> {e}}"
    using carry_registry_apart [OF ready c] by (simp add: parts set_merged_ids [OF iss(1)])
  show "set (d_modified (r_delta c)) =
      {e \<in> live_ids prev. is_changed hist (map skey new_order) pieces prev e}"
    and "set (d_split (r_delta c)) =
      {e \<in> live_ids prev. is_split_up hist (map skey new_order) pieces prev e}"
    using keys by (auto simp: parts delta)
  have "set (d_deleted (r_delta c)) =
      {e \<in> live_ids prev. carried_of hist (map skey new_order) pieces prev e = None}"
    using keys by (auto simp: parts delta)
  also have "\<dots> = live_ids prev - live_ids (r_registry c)"
    using ready by (auto simp: carry_registry_live_ids [OF ready c] carry_ready_def ids_below_def)
  finally show "set (d_deleted (r_delta c)) = live_ids prev - live_ids (r_registry c)" .
qed

end
