(* ===== verification/Session.thy ===== *)
theory Session
  imports CarryFacts
begin

text \<open>
  The session (\<^verbatim>\<open>class Session\<close> of \<^verbatim>\<open>session/session.hpp\<close>, with the bodies of
  \<^verbatim>\<open>session_core.cpp\<close>): the live root and its registry, the session-global counters and
  tables, the snapshot stack, the re-entrancy guard, and \<^verbatim>\<open>commit\<close>, through which every
  modelling operation publishes its result. A method takes the session and gives its outcome
  together with the session it leaves, so that what a throwing method leaves behind is explicit.
\<close>

section \<open>State\<close>

record session_state =
  st_root :: shape
  st_registry :: registry
  st_op_index :: int

record session =
  s_validate :: bool
  s_state :: session_state
  s_next_id :: entity_id
  s_next_op :: int
  s_origins :: "entity_id \<rightharpoonup> origin"
  s_names :: "name_key \<rightharpoonup> entity_id"
  s_snapshots :: "session_state option list"
  s_in_op :: bool
  s_tear :: bool
  s_heap :: nat

text \<open>
  \<open>s_heap\<close> is the address the next compound TShape gets: the session's own roots are the
  only TShapes it allocates, and a TShape that some handle holds is never reused.

  OCCT as the session uses it: \<^verbatim>\<open>TopExp::MapShapes\<close>, \<^verbatim>\<open>TopExp_Explorer\<close>, the verdict
  of \<^verbatim>\<open>BRepCheck_Analyzer\<close> and the statuses behind it; the last two may throw.
\<close>

record check_finding =
  f_shape :: shape
  f_status :: string
  f_context :: shape

record occt =
  map_shapes :: map_shapes
  explore :: "shape \<Rightarrow> shape_enum \<Rightarrow> shape list"
  check_valid :: "shape \<Rightarrow> string + bool"
  check_findings :: "shape \<Rightarrow> string + check_finding list"

text \<open>Every \<^verbatim>\<open>PysmeshError\<close> of this unit, with the data its message names.\<close>

datatype session_error =
    Busy
  | UnknownMark int
  | DiscardedMark int
  | BadKind string
  | NotIssued entity_id
  | DeadEntity entity_id
  | NeverNamed int int int
  | NoEntityNamed
  | ForeignEntity entity_id
  | ForeignSubshape
  | TwoBodies
  | SeveralBodies nat
  | WrongKind entity_id shape_enum shape_enum
  | WasSplit entity_id nat
  | NotCurveBody shape_enum
  | NotSweepable shape_enum
  | Unlabelled shape_enum
  | Diverged entity_id
  | EmptyScope
  | TornModel
  | TopologyChanged
  | IdentityLost
  | TransformThrew string
  | TransformFailed
  | CopyFailed
  | AnalyzerFailed string
  | StatusesFailed string
  | InvalidResult "(shape_enum \<times> nat \<times> entity_id list \<times> string \<times> (shape_enum \<times> nat) option) list" nat "int list"

type_synonym 'a outcome = "(session_error, 'a) result"
type_synonym 'a action = "session \<Rightarrow> 'a outcome \<times> session"

definition new_session :: "bool \<Rightarrow> session" where
  "new_session validate =
     \<lparr>s_validate = validate,
      s_state = \<lparr>st_root = make_root 1 [], st_registry = empty_registry, st_op_index = 0\<rparr>,
      s_next_id = 1, s_next_op = 1, s_origins = Map.empty, s_names = Map.empty,
      s_snapshots = [], s_in_op = False, s_tear = False, s_heap = 2\<rparr>"

section \<open>The re-entrancy guard\<close>

text \<open>\<^verbatim>\<open>OpGuard\<close>: refuse when the flag is up; else raise it and lower it on every way out.\<close>

definition guarded :: "'a action \<Rightarrow> 'a action" where
  "guarded body s =
     (if s_in_op s then (Inl Busy, s)
      else let (r, s') = body (s\<lparr>s_in_op := True\<rparr>) in (r, s'\<lparr>s_in_op := False\<rparr>))"

section \<open>Snapshots\<close>

definition snapshot :: "int action" where
  "snapshot = guarded (\<lambda>s.
     let snaps = s_snapshots s @ [Some (s_state s)]
     in (Inr (int (length snaps) - 1), s\<lparr>s_snapshots := snaps\<rparr>))"

definition restore :: "int \<Rightarrow> unit action" where
  "restore mark = guarded (\<lambda>s.
     if mark < 0 \<or> length (s_snapshots s) \<le> nat mark then (Inl (UnknownMark mark), s)
     else case s_snapshots s ! nat mark of
            None \<Rightarrow> (Inl (DiscardedMark mark), s)
          | Some snap \<Rightarrow> (Inr (), s\<lparr>s_state := snap\<rparr>))"

definition discard_snapshot :: "int \<Rightarrow> unit action" where
  "discard_snapshot mark = guarded (\<lambda>s.
     if mark < 0 \<or> length (s_snapshots s) \<le> nat mark then (Inl (UnknownMark mark), s)
     else (Inr (), s\<lparr>s_snapshots := (s_snapshots s)[nat mark := None]\<rparr>))"

definition snapshot_count :: "session \<Rightarrow> int" where
  "snapshot_count s = int (length (filter (\<lambda>x. x \<noteq> None) (s_snapshots s)))"

section \<open>Queries\<close>

definition require_issued :: "session \<Rightarrow> entity_id \<Rightarrow> unit outcome" where
  "require_issued s eid = require (\<not> (eid < 1 \<or> s_next_id s \<le> eid)) (NotIssued eid)"

abbreviation "live_registry s \<equiv> st_registry (s_state s)"

definition require_alive :: "session \<Rightarrow> entity_id \<Rightarrow> entity_record outcome" where
  "require_alive s eid = bind_result (require_issued s eid) (\<lambda>_.
     case map_of (alive (live_registry s)) eid of
       None \<Rightarrow> Inl (DeadEntity eid) | Some rec \<Rightarrow> Inr rec)"

definition kind_of_name :: "string \<Rightarrow> shape_enum outcome" where
  "kind_of_name n = (case kind_from_name n of Inl (UnknownKind m) \<Rightarrow> Inl (BadKind m) | Inr k \<Rightarrow> Inr k)"

definition ids_of_kind :: "session \<Rightarrow> shape_enum \<Rightarrow> entity_id list" where
  "ids_of_kind s k =
     sort (map fst (filter (\<lambda>(eid, rec). ent_kind rec = k) (alive (live_registry s))))"

text \<open>\<^verbatim>\<open>label_of\<close>: the lowest of the ids on a shape of the root.\<close>

definition label_of :: "session \<Rightarrow> shape \<Rightarrow> entity_id outcome" where
  "label_of s sh =
     (case map_of (by_shape (live_registry s)) (skey sh) of
        None \<Rightarrow> Inl (Unlabelled (shape_type sh))
      | Some [] \<Rightarrow> Inl (Unlabelled (shape_type sh))
      | Some (e # es) \<Rightarrow> Inr e)"

definition entities :: "occt \<Rightarrow> session \<Rightarrow> string \<Rightarrow> bool \<Rightarrow> entity_id list outcome" where
  "entities oc s kind dist = bind_result (kind_of_name kind) (\<lambda>k.
     if \<not> dist then Inr (ids_of_kind s k)
     else bind_result (each (label_of s) (map_shapes oc (st_root (s_state s)) k))
            (\<lambda>labels. Inr (tidy labels)))"

definition ordinal_ids :: "occt \<Rightarrow> session \<Rightarrow> string \<Rightarrow> entity_id list list outcome" where
  "ordinal_ids oc s kind = bind_result (kind_of_name kind) (\<lambda>k.
     Inr (map (\<lambda>sh. values_at (by_shape (live_registry s)) (skey sh))
            (map_shapes oc (st_root (s_state s)) k)))"

definition entity_kind :: "session \<Rightarrow> entity_id \<Rightarrow> string outcome" where
  "entity_kind s eid = bind_result (require_alive s eid) (\<lambda>rec. Inr (kind_name (ent_kind rec)))"

datatype liveness = Alive | Dead

definition entity_state :: "session \<Rightarrow> entity_id \<Rightarrow> liveness outcome" where
  "entity_state s eid = bind_result (require_issued s eid) (\<lambda>_.
     Inr (if map_of (alive (live_registry s)) eid \<noteq> None then Alive else Dead))"

definition shape_count :: "session \<Rightarrow> entity_id \<Rightarrow> int outcome" where
  "shape_count s eid =
     bind_result (require_alive s eid) (\<lambda>rec. Inr (int (length (ent_shapes rec))))"

definition entity_count :: "session \<Rightarrow> int" where
  "entity_count s = int (length (alive (live_registry s)))"

text \<open>Names. \<open>origins_.at(id)\<close> throws \<^verbatim>\<open>std::out_of_range\<close> on a missing id, \<open>None\<close> here.\<close>

definition name_of :: "session \<Rightarrow> entity_id \<Rightarrow> (int \<times> int \<times> int) option outcome" where
  "name_of s eid = bind_result (require_alive s eid) (\<lambda>_.
     Inr (map_option (\<lambda>o'. (o_op o', role_code (o_role o'), o_ordinal o')) (s_origins s eid)))"

definition origin_of :: "session \<Rightarrow> entity_id \<Rightarrow> origin option outcome" where
  "origin_of s eid = bind_result (require_issued s eid) (\<lambda>_. Inr (s_origins s eid))"

datatype resolution = Lost | Resolved entity_id | Ambiguous entity_id nat

definition resolve :: "session \<Rightarrow> int \<Rightarrow> int \<Rightarrow> int \<Rightarrow> resolution outcome" where
  "resolve s op rl ordinal =
     (case s_names s (NameKey op rl ordinal) of
        None \<Rightarrow> Inl (NeverNamed op rl ordinal)
      | Some eid \<Rightarrow>
          (case map_of (alive (live_registry s)) eid of
             None \<Rightarrow> Inr Lost
           | Some rec \<Rightarrow>
               (let n = length (ent_shapes rec) in
                Inr (if n = 1 then Resolved eid else Ambiguous eid n))))"

end
