(* ===== verification/Commit.thy ===== *)
theory Commit
  imports Session "HOL-Library.List_Lexorder"
begin

text \<open>
  Publishing an operation's result (\<^verbatim>\<open>session_core.cpp\<close>, "root bookkeeping" and "the
  identity-carrying core"): the helpers that resolve named entities to bodies of the root,
  \<^verbatim>\<open>commit\<close> with its refusal of an invalid result, and \<^verbatim>\<open>relabel_body\<close>.
\<close>

section \<open>Root bookkeeping\<close>

definition bodies_excluding :: "session \<Rightarrow> shape list \<Rightarrow> shape list" where
  "bodies_excluding s drp =
     filter (\<lambda>body. \<not> list_ex (is_same body) drp) (root_bodies (st_root (s_state s)))"

definition concat_bodies :: "shape list \<Rightarrow> shape \<Rightarrow> shape list" where
  "concat_bodies keep added = explode_into added keep"

text \<open>Sub-shape to owning body; the first body that holds a shared sub-shape keeps it.\<close>

definition body_of_subshape :: "occt \<Rightarrow> session \<Rightarrow> (shape_key \<times> shape) list" where
  "body_of_subshape oc s =
     fold (\<lambda>body m. fold (\<lambda>sub m. emplace (skey sub) body m)
                      (registered_subshapes (map_shapes oc) body) m)
       (root_bodies (st_root (s_state s))) []"

fun sole_owner_from :: "(shape_key \<times> shape) list \<Rightarrow> shape list \<Rightarrow> shape option \<Rightarrow> shape option outcome" where
  "sole_owner_from tbl [] found = Inr found"
| "sole_owner_from tbl (sub # subs) found =
     (case map_of tbl (skey sub) of
        None \<Rightarrow> Inl ForeignSubshape
      | Some body \<Rightarrow>
          (case found of
             None \<Rightarrow> sole_owner_from tbl subs (Some body)
           | Some b \<Rightarrow> if is_same b body then sole_owner_from tbl subs found
                       else Inl TwoBodies))"

text \<open>\<^verbatim>\<open>sole_owner_body\<close>; \<open>None\<close> is the null shape it gives for no sub-shape at all.\<close>

definition sole_owner_body :: "(shape_key \<times> shape) list \<Rightarrow> shape list \<Rightarrow> shape option outcome" where
  "sole_owner_body tbl subs = sole_owner_from tbl subs None"

definition add_owners ::
  "(shape_key \<times> shape) list \<Rightarrow> session \<Rightarrow> entity_id \<Rightarrow> shape list \<Rightarrow> shape list outcome" where
  "add_owners tbl s eid out = bind_result (require_alive s eid) (\<lambda>rec.
     loop (\<lambda>sh acc. case map_of tbl (skey sh) of
              None \<Rightarrow> Inl (ForeignEntity eid)
            | Some body \<Rightarrow> Inr (append_unique acc body)) (ent_shapes rec) out)"

definition owner_bodies :: "occt \<Rightarrow> session \<Rightarrow> entity_id list \<Rightarrow> shape list outcome" where
  "owner_bodies oc s ids =
     (if ids = [] then Inl NoEntityNamed
      else loop (add_owners (body_of_subshape oc s) s) ids [])"

definition sole_body :: "occt \<Rightarrow> session \<Rightarrow> entity_id list \<Rightarrow> shape outcome" where
  "sole_body oc s ids = bind_result (owner_bodies oc s ids) (\<lambda>bodies.
     case bodies of [b] \<Rightarrow> Inr b | _ \<Rightarrow> Inl (SeveralBodies (length bodies)))"

text \<open>
  \<^verbatim>\<open>operand_bodies\<close> has the body of \<^verbatim>\<open>owner_bodies\<close>; only its messages name the
  argument.
\<close>

definition operand_bodies :: "occt \<Rightarrow> session \<Rightarrow> entity_id list \<Rightarrow> shape list outcome" where
  "operand_bodies oc s ids =
     (if ids = [] then Inl NoEntityNamed
      else loop (add_owners (body_of_subshape oc s) s) ids [])"

text \<open>The single shape an id of the wanted kind denotes; a split entity is refused.\<close>

definition sole_shape :: "session \<Rightarrow> shape_enum \<Rightarrow> entity_id \<Rightarrow> shape outcome" where
  "sole_shape s k eid = bind_result (require_alive s eid) (\<lambda>rec.
     if ent_kind rec \<noteq> k then Inl (WrongKind eid (ent_kind rec) k)
     else case ent_shapes rec of
            [sh] \<Rightarrow> Inr sh
          | shs \<Rightarrow> Inl (WasSplit eid (length shs)))"

text \<open>\<^verbatim>\<open>edges_of\<close> with its optional \<open>kept\<close> list: the ids of the edges returned.\<close>

definition edges_of :: "session \<Rightarrow> entity_id list \<Rightarrow> (shape list \<times> entity_id list) outcome" where
  "edges_of s ids =
     (if ids = [] then Inl NoEntityNamed
      else loop (\<lambda>eid (out, kept). bind_result (sole_shape s EDGE eid) (\<lambda>sh.
             let out' = append_unique out sh
             in Inr (out', if length out' \<noteq> length out then kept @ [eid] else kept)))
           ids ([], []))"

definition faces_of :: "session \<Rightarrow> entity_id list \<Rightarrow> shape list outcome" where
  "faces_of s ids =
     (if ids = [] then Inl NoEntityNamed
      else loop (\<lambda>eid out. bind_result (sole_shape s FACE eid) (\<lambda>sh. Inr (append_unique out sh)))
           ids [])"

text \<open>
  \<^verbatim>\<open>sole_face\<close> and \<^verbatim>\<open>sole_edge\<close>: the root's own copy of the shape, from the map of the
  root's faces or edges (\<^verbatim>\<open>FindIndex\<close> by \<^verbatim>\<open>IsSame\<close>).
\<close>

definition find_key :: "shape list \<Rightarrow> shape \<Rightarrow> shape option" where
  "find_key mapped sh = find (\<lambda>x. is_same x sh) mapped"

definition sole_of :: "occt \<Rightarrow> session \<Rightarrow> shape_enum \<Rightarrow> entity_id \<Rightarrow> shape outcome" where
  "sole_of oc s k eid = bind_result (sole_shape s k eid) (\<lambda>sh.
     case find_key (map_shapes oc (st_root (s_state s)) k) sh of
       None \<Rightarrow> Inl (Diverged eid) | Some x \<Rightarrow> Inr x)"

definition sole_face :: "occt \<Rightarrow> session \<Rightarrow> entity_id \<Rightarrow> shape outcome" where
  "sole_face oc s eid = sole_of oc s FACE eid"

definition sole_edge :: "occt \<Rightarrow> session \<Rightarrow> entity_id \<Rightarrow> shape outcome" where
  "sole_edge oc s eid = sole_of oc s EDGE eid"

definition require_curve_body :: "shape \<Rightarrow> unit outcome" where
  "require_curve_body body =
     (if shape_type body \<noteq> EDGE \<and> shape_type body \<noteq> WIRE
      then Inl (NotCurveBody (shape_type body)) else Inr ())"

definition require_sweepable :: "shape \<Rightarrow> unit outcome" where
  "require_sweepable body =
     (case shape_type body of
        VERTEX \<Rightarrow> Inr () | EDGE \<Rightarrow> Inr () | WIRE \<Rightarrow> Inr () | FACE \<Rightarrow> Inr () | SHELL \<Rightarrow> Inr ()
      | k \<Rightarrow> Inl (NotSweepable k))"

text \<open>\<^verbatim>\<open>alias_groups\<close>: the id lists of the shapes with two ids or more, in \<^verbatim>\<open>std::sort\<close> order.\<close>

definition alias_groups :: "occt \<Rightarrow> session \<Rightarrow> string \<Rightarrow> entity_id list list outcome" where
  "alias_groups oc s kind = bind_result (kind_of_name kind) (\<lambda>k.
     Inr (sort (filter (\<lambda>ids. 1 < length ids)
       (map (\<lambda>sh. values_at (by_shape (live_registry s)) (skey sh))
          (map_shapes oc (st_root (s_state s)) k)))))"

section \<open>The refusal of an invalid result\<close>

text \<open>\<^verbatim>\<open>static_cast<int>(id)\<close>: the low 32 bits, as a signed number.\<close>

definition to_int32 :: "int \<Rightarrow> int" where
  "to_int32 n = signed_take_bit 31 n"

definition ids_as_int :: "entity_id list \<Rightarrow> int list" where
  "ids_as_int ids = map to_int32 ids"

definition refusal_sources :: "session \<Rightarrow> history option \<Rightarrow> sources_table" where
  "refusal_sources s hist =
     fold (\<lambda>(eid, rec) m. fold (\<lambda>sh m.
             let m = push_at (skey sh) eid m in
             case hist of
               None \<Rightarrow> m
             | Some h \<Rightarrow> push_each (map skey (hist_generated h sh)) eid
                          (push_each (map skey (hist_modified h sh)) eid m))
           (ent_shapes rec) m)
       (alive (live_registry s)) []"

definition ids_from :: "sources_table \<Rightarrow> shape \<Rightarrow> entity_id list" where
  "ids_from sources sub = tidy (values_at sources (skey sub))"

text \<open>\<^verbatim>\<open>FindIndex\<close>: the 1-based index, 0 for a shape that is not in the map.\<close>

definition find_index :: "shape list \<Rightarrow> shape \<Rightarrow> nat" where
  "find_index mapped sh =
     (let pre = takeWhile (\<lambda>x. \<not> is_same x sh) mapped
      in if length pre = length mapped then 0 else length pre + 1)"

definition refused_faces ::
  "occt \<Rightarrow> sources_table \<Rightarrow> shape \<Rightarrow> shape \<Rightarrow> int list" where
  "refused_faces oc sources built sub =
     (if shape_type sub = FACE then ids_as_int (ids_from sources sub)
      else concat (map (\<lambda>f.
             if list_ex (\<lambda>x. is_same x sub) (explore oc f (shape_type sub))
             then ids_as_int (ids_from sources f) else [])
           (explore oc built FACE)))"

definition kListed :: nat where
  "kListed = 20"

definition refuse_invalid ::
  "occt \<Rightarrow> session \<Rightarrow> shape \<Rightarrow> history option \<Rightarrow> session_error" where
  "refuse_invalid oc s built hist =
     (case check_findings oc built of
        Inl msg \<Rightarrow> StatusesFailed msg
      | Inr findings \<Rightarrow>
          (let sources = refusal_sources s hist;
               ordinal = (\<lambda>sub. find_index (map_shapes oc built (shape_type sub)) sub);
               detail = (\<lambda>f. (shape_type (f_shape f), ordinal (f_shape f),
                   ids_from sources (f_shape f), f_status f,
                   if is_null (f_context f) then None
                   else Some (shape_type (f_context f), ordinal (f_context f))))
           in InvalidResult (map detail (take kListed findings)) (length findings)
                (tidy (concat (map (\<lambda>f. refused_faces oc sources built (f_shape f)) findings)))))"

section \<open>Commit\<close>

datatype validation = Strict | Report

record op_report =
  rep_delta :: delta
  rep_op_index :: int
  rep_op_name :: string

text \<open>What an operation hands to \<^verbatim>\<open>commit\<close>.\<close>

record commit_args =
  ca_bodies :: "shape list"
  ca_history :: "history option"
  ca_op_name :: string
  ca_built :: shape
  ca_mode :: validation
  ca_warnings :: "string list"
  ca_pieces :: piece_rule

text \<open>The verdict on the shape built: a refusal, no check, or BRepCheck's answer.\<close>

definition commit_verdict ::
  "occt \<Rightarrow> session \<Rightarrow> commit_args \<Rightarrow> history option \<Rightarrow> bool option outcome" where
  "commit_verdict oc s a hist =
     (if is_null (ca_built a) \<or> \<not> (s_validate s \<or> ca_mode a = Report) then Inr None
      else case check_valid oc (ca_built a) of
             Inl msg \<Rightarrow> Inl (AnalyzerFailed msg)
           | Inr valid \<Rightarrow>
               if \<not> valid \<and> ca_mode a = Strict then Inl (refuse_invalid oc s (ca_built a) hist)
               else Inr (Some valid))"

definition commit :: "occt \<Rightarrow> commit_args \<Rightarrow> op_report action" where
  "commit oc a s0 =
     (let hist = (if s_tear s0 then None else ca_history a);
          s = s0\<lparr>s_tear := False\<rparr>
      in case commit_verdict oc s a hist of
           Inl e \<Rightarrow> (Inl e, s)
         | Inr verdict \<Rightarrow>
             (let new_root = make_root (s_heap s) (ca_bodies a);
                  op = s_next_op s;
                  c = carry_registry (registered_subshapes (map_shapes oc) new_root) hist op
                        (ca_pieces a) (live_registry s) (s_next_id s) (s_origins s) (s_names s);
                  d = (r_delta c)\<lparr>d_valid := verdict, d_warnings := ca_warnings a\<rparr>
              in (Inr \<lparr>rep_delta = d, rep_op_index = op, rep_op_name = ca_op_name a\<rparr>,
                  s\<lparr>s_state := \<lparr>st_root = new_root, st_registry = r_registry c,
                               st_op_index = op\<rparr>,
                    s_next_id := r_next_id c, s_next_op := op + 1,
                    s_origins := r_origins c, s_names := r_names c,
                    s_heap := s_heap s + 1\<rparr>)))"

definition add_bodies :: "occt \<Rightarrow> shape \<Rightarrow> string \<Rightarrow> op_report action" where
  "add_bodies oc added op_name s =
     commit oc \<lparr>ca_bodies = concat_bodies (root_bodies (st_root (s_state s))) added,
       ca_history = None, ca_op_name = op_name, ca_built = added, ca_mode = Strict,
       ca_warnings = [], ca_pieces = KeepId\<rparr> s"

section \<open>Relabelling a body\<close>

definition relabel_record :: "(shape_key \<rightharpoonup> shape) \<Rightarrow> entity_record \<Rightarrow> entity_record" where
  "relabel_record remap rec =
     \<lparr>ent_shapes = map (\<lambda>s. case remap (skey s) of None \<Rightarrow> s | Some t \<Rightarrow> t) (ent_shapes rec),
      ent_kind = ent_kind rec\<rparr>"

definition relabel_registry :: "(shape_key \<rightharpoonup> shape) \<Rightarrow> registry \<Rightarrow> registry" where
  "relabel_registry remap r =
     (let next = fold (\<lambda>(eid, rec). add_entity eid (relabel_record remap rec)) (alive r)
                   empty_registry
      in next\<lparr>by_shape := publish (by_shape next)\<rparr>)"

definition relabel_body :: "shape \<Rightarrow> shape \<Rightarrow> (shape_key \<rightharpoonup> shape) \<Rightarrow> session \<Rightarrow> session" where
  "relabel_body body twin remap s =
     (let bodies = map (\<lambda>b. if is_same b body then twin else b) (root_bodies (st_root (s_state s)))
      in s\<lparr>s_state := (s_state s)\<lparr>st_root := make_root (s_heap s) bodies,
            st_registry := relabel_registry remap (live_registry s)\<rparr>,
          s_heap := s_heap s + 1\<rparr>)"

end
