(* ===== verification/Transform.thy ===== *)
theory Transform
  imports Commit
begin

text \<open>
  Transforms and copies of bodies (\<^verbatim>\<open>session_transform.cpp\<close>): the scope of an operation,
  the relocation path, where identity is structural, the rebuild path, where identity goes
  through the transform's history, and \<^verbatim>\<open>copy\<close>. What OCCT does to one shape is a field of
  \<open>trsf\<close>.
\<close>

section \<open>Which bodies an operation acts on\<close>

definition is_moving :: "shape list \<Rightarrow> shape \<Rightarrow> bool" where
  "is_moving moving body = list_ex (is_same body) moving"

definition guard_shared_subshapes :: "occt \<Rightarrow> shape list \<Rightarrow> shape list \<Rightarrow> unit outcome" where
  "guard_shared_subshapes oc bodies moving =
     (let subs = concat (map (registered_subshapes (map_shapes oc)) moving)
      in loop (\<lambda>body _.
           if is_moving moving body then Inr ()
           else loop (\<lambda>sub _. if list_ex (is_same sub) subs then Inl TornModel else Inr ())
                  (registered_subshapes (map_shapes oc) body) ()) bodies ())"

text \<open>\<^verbatim>\<open>sole_owner_body\<close> gives the null shape for an empty list of sub-shapes.\<close>

definition scoped_bodies :: "occt \<Rightarrow> session \<Rightarrow> entity_id list option \<Rightarrow> shape list outcome" where
  "scoped_bodies oc s entity_ids =
     (let bodies = root_bodies (st_root (s_state s)) in
      case entity_ids of
        None \<Rightarrow> Inr bodies
      | Some [] \<Rightarrow> Inl EmptyScope
      | Some ids \<Rightarrow>
          (let tbl = body_of_subshape oc s in
           bind_result (loop (\<lambda>eid moving. bind_result (require_alive s eid) (\<lambda>rec.
               bind_result (sole_owner_body tbl (ent_shapes rec)) (\<lambda>b.
                 Inr (append_unique moving (case b of None \<Rightarrow> null_shape | Some x \<Rightarrow> x))))) ids [])
             (\<lambda>moving. bind_result (guard_shared_subshapes oc bodies moving) (\<lambda>_. Inr moving))))"

section \<open>Relocation\<close>

text \<open>
  A \<^verbatim>\<open>gp_Trsf\<close> as the session uses it: \<^verbatim>\<open>is_location_only\<close>, \<^verbatim>\<open>TopoDS_Shape::Moved\<close>
  by its Location, and \<^verbatim>\<open>BRepBuilderAPI_Transform\<close> on a compound, with the history built
  from it; the latter may throw.
\<close>

record trsf =
  location_only :: bool
  moved :: "shape \<Rightarrow> shape"
  rebuild :: "shape \<Rightarrow> string + shape \<times> history option"

definition is_partner :: "shape \<Rightarrow> shape \<Rightarrow> bool" where
  "is_partner a b = (tshape a = tshape b)"

text \<open>The loop over the pairs of old and new sub-shapes of one body.\<close>

fun pair_up ::
  "(shape \<times> shape) list \<Rightarrow> (shape_key \<times> shape) list \<Rightarrow> (shape_key \<times> shape) list outcome" where
  "pair_up [] remap = Inr remap"
| "pair_up ((a, b) # ps) remap =
     (if \<not> is_partner a b then Inl IdentityLost else pair_up ps (emplace (skey a) b remap))"

definition move_body ::
  "occt \<Rightarrow> trsf \<Rightarrow> shape list \<Rightarrow> shape \<Rightarrow>
   shape list \<times> (shape_key \<times> shape) list \<Rightarrow> (shape list \<times> (shape_key \<times> shape) list) outcome" where
  "move_body oc t moving body acc =
     (let (new_bodies, remap) = acc in
      if \<not> is_moving moving body then Inr (new_bodies @ [body], remap)
      else
        let olds = registered_subshapes (map_shapes oc) body;
            after = registered_subshapes (map_shapes oc) (moved t body)
        in if length olds \<noteq> length after then Inl TopologyChanged
           else bind_result (pair_up (zip olds after) remap)
                  (\<lambda>remap'. Inr (new_bodies @ [moved t body], remap')))"

definition relocated_delta :: "(shape_key \<rightharpoonup> shape) \<Rightarrow> registry \<Rightarrow> registry \<Rightarrow> delta" where
  "relocated_delta remap prev next = finalise (empty_delta
     \<lparr>d_modified := map fst (filter (\<lambda>(eid, rec).
          list_ex (\<lambda>sh. remap (skey sh) \<noteq> None) (ent_shapes rec)) (alive prev)),
      d_split := map fst (filter (\<lambda>(eid, rec).
          1 < length (ent_shapes (relabel_record remap rec))) (alive prev)),
      d_merged := merged_ids (by_shape next)\<rparr>)"

definition relocate :: "occt \<Rightarrow> trsf \<Rightarrow> entity_id list option \<Rightarrow> string \<Rightarrow> op_report action" where
  "relocate oc t entity_ids op_name s =
     (case bind_result (scoped_bodies oc s entity_ids) (\<lambda>moving.
             loop (move_body oc t moving) (root_bodies (st_root (s_state s))) ([], [])) of
        Inl e \<Rightarrow> (Inl e, s)
      | Inr (new_bodies, remap) \<Rightarrow>
          (let op = s_next_op s;
               next = relabel_registry (map_of remap) (live_registry s)
           in (Inr \<lparr>rep_delta = relocated_delta (map_of remap) (live_registry s) next,
                    rep_op_index = op, rep_op_name = op_name\<rparr>,
               s\<lparr>s_state := \<lparr>st_root = make_root (s_heap s) new_bodies, st_registry = next,
                            st_op_index = op\<rparr>,
                 s_next_op := op + 1, s_heap := s_heap s + 1\<rparr>)))"

section \<open>Rebuilding and copying\<close>

definition rebuild_moved ::
  "occt \<Rightarrow> (shape \<Rightarrow> string + shape \<times> history option) \<Rightarrow> entity_id list option \<Rightarrow> string \<Rightarrow>
   op_report action" where
  "rebuild_moved oc run entity_ids op_name s =
     (case scoped_bodies oc s entity_ids of
        Inl e \<Rightarrow> (Inl e, s)
      | Inr moving \<Rightarrow>
          (let staying = bodies_excluding s moving;
               inp = make_root (s_heap s) moving;
               s1 = s\<lparr>s_heap := s_heap s + 1\<rparr>
           in case run inp of
                Inl msg \<Rightarrow> (Inl (TransformThrew msg), s1)
              | Inr (out, hist) \<Rightarrow>
                  if is_null out then (Inl TransformFailed, s1)
                  else commit oc \<lparr>ca_bodies = concat_bodies staying out, ca_history = hist,
                         ca_op_name = op_name, ca_built = out, ca_mode = Strict,
                         ca_warnings = [], ca_pieces = KeepId\<rparr> s1))"

definition apply_trsf :: "occt \<Rightarrow> trsf \<Rightarrow> entity_id list option \<Rightarrow> string \<Rightarrow> op_report action" where
  "apply_trsf oc t entity_ids op_name s =
     (if location_only t then relocate oc t entity_ids op_name s
      else rebuild_moved oc (rebuild t) entity_ids op_name s)"

text \<open>\<open>dup\<close> is \<^verbatim>\<open>BRepBuilderAPI_Copy\<close> on one body.\<close>

definition copy_bodies :: "occt \<Rightarrow> (shape \<Rightarrow> shape) \<Rightarrow> entity_id list \<Rightarrow> op_report action" where
  "copy_bodies oc dup entity_ids = guarded (\<lambda>s.
     case owner_bodies oc s entity_ids of
       Inl e \<Rightarrow> (Inl e, s)
     | Inr sources \<Rightarrow>
         (let copies = map dup sources in
          if list_ex is_null copies then (Inl CopyFailed, s)
          else
            let added = make_root (s_heap s) copies;
                s1 = s\<lparr>s_heap := s_heap s + 1\<rparr>
            in commit oc \<lparr>ca_bodies = concat_bodies (root_bodies (st_root (s_state s1))) added,
                 ca_history = None, ca_op_name = ''copy'', ca_built = added, ca_mode = Strict,
                 ca_warnings = [], ca_pieces = KeepId\<rparr> s1))"

end
