(* ===== verification/SessionFacts.thy ===== *)
theory SessionFacts
  imports Transform
begin

text \<open>
  What holds of a session between its methods: the registry names exactly the sub-shapes of the
  root, in the live state and in every snapshot, and the name table is the inverse of the
  provenance of every id ever issued. Each method keeps it, so every session reached from a new
  one has it.
\<close>

section \<open>What the session relies on OCCT for\<close>

text \<open>The sub-shapes of a shape, itself included, depth first.\<close>

fun descendants :: "shape \<Rightarrow> shape list" where
  "descendants (Shape t l d k cs) =
     (if t = 0 then [] else Shape t l d k cs # concat (map descendants cs))"

text \<open>
  \<^verbatim>\<open>TopExp::MapShapes\<close> maps each sub-shape of the kind asked for once, up to \<^verbatim>\<open>IsSame\<close>.
\<close>

definition occt_ok :: "occt \<Rightarrow> bool" where
  "occt_ok oc = (\<forall>s k. distinct (map skey (map_shapes oc s k)) \<and>
     (\<forall>x \<in> set (map_shapes oc s k). shape_type x = k) \<and>
     skey ` set (map_shapes oc s k) = skey ` {x \<in> set (descendants s). shape_type x = k})"

definition root_keys :: "occt \<Rightarrow> shape \<Rightarrow> shape_key set" where
  "root_keys oc root = skey ` set (registered_subshapes (map_shapes oc) root)"

lemma map_shapes_kind:
  "occt_ok oc \<Longrightarrow> x \<in> set (map_shapes oc s k) \<Longrightarrow> shape_type x = k"
  by (simp add: occt_ok_def)

lemma map_shapes_distinct: "occt_ok oc \<Longrightarrow> distinct (map skey (map_shapes oc s k))"
  by (simp add: occt_ok_def)

lemma map_shapes_registered:
  "\<not> is_null s \<Longrightarrow> k \<in> set kEntityKinds \<Longrightarrow> x \<in> set (map_shapes oc s k) \<Longrightarrow>
   skey x \<in> root_keys oc s"
  by (auto simp: root_keys_def registered_subshapes_def)

text \<open>The registered keys of a root are those of its descendants of the four kinds.\<close>

lemma root_keys_descendants:
  assumes "occt_ok oc" and "\<not> is_null s"
  shows "root_keys oc s = skey ` {x \<in> set (descendants s). shape_type x \<in> set kEntityKinds}"
proof -
  have "root_keys oc s = (\<Union>k \<in> set kEntityKinds. skey ` set (map_shapes oc s k))"
    using assms(2) by (auto simp: root_keys_def registered_subshapes_def)
  also have "\<dots> = (\<Union>k \<in> set kEntityKinds. skey ` {x \<in> set (descendants s). shape_type x = k})"
    using assms(1) by (simp add: occt_ok_def)
  also have "\<dots> = skey ` {x \<in> set (descendants s). shape_type x \<in> set kEntityKinds}"
    by auto
  finally show ?thesis .
qed

lemma not_null_make_root [simp]: "is_null (make_root a bs) \<longleftrightarrow> a = 0"
  by (simp add: is_null_def make_root_def)

lemma root_keys_make_root:
  assumes "occt_ok oc" and "a \<noteq> 0"
  shows "root_keys oc (make_root a bs) =
    (\<Union>b \<in> set bs. skey ` {x \<in> set (descendants b). shape_type x \<in> set kEntityKinds})"
  using assms
  by (subst root_keys_descendants) (auto simp: make_root_def kEntityKinds_def is_null_def)

section \<open>The invariant\<close>

definition state_ok :: "occt \<Rightarrow> entity_id \<Rightarrow> int \<Rightarrow> session_state \<Rightarrow> bool" where
  "state_ok oc next_id next_op st =
     (registry_ok (st_registry st) \<and> covers (st_registry st) (root_keys oc (st_root st)) \<and>
      \<not> is_null (st_root st) \<and> ids_below next_id (st_registry st) \<and> st_op_index st < next_op)"

definition session_ok :: "occt \<Rightarrow> session \<Rightarrow> bool" where
  "session_ok oc s =
     (state_ok oc (s_next_id s) (s_next_op s) (s_state s) \<and>
      (\<forall>st. Some st \<in> set (s_snapshots s) \<longrightarrow> state_ok oc (s_next_id s) (s_next_op s) st) \<and>
      names_ok (s_next_op s) (s_next_id s) (s_origins s) (s_names s) \<and> 0 < s_heap s)"

lemma state_ok_mono:
  assumes "state_ok oc n op st" and "n \<le> n'" and "op \<le> op'"
  shows "state_ok oc n' op' st"
  using assms by (auto simp: state_ok_def ids_below_def)

lemma names_ok_mono: "names_ok op n org nms \<Longrightarrow> op \<le> op' \<Longrightarrow> names_ok op' n org nms"
  unfolding names_ok_def by (meson order_less_le_trans)

lemma session_ok_flags [simp]:
  "session_ok oc (s\<lparr>s_tear := b\<rparr>) = session_ok oc s"
  "session_ok oc (s\<lparr>s_in_op := b\<rparr>) = session_ok oc s"
  by (simp_all add: session_ok_def)

lemma session_ok_heap: "session_ok oc s \<Longrightarrow> session_ok oc (s\<lparr>s_heap := s_heap s + 1\<rparr>)"
  by (simp add: session_ok_def)

lemma session_ok_new: "occt_ok oc \<Longrightarrow> session_ok oc (new_session v)"
  by (simp add: session_ok_def new_session_def state_ok_def root_keys_make_root covers_def
      ids_below_def live_ids_def names_ok_def)
    (simp add: empty_registry_def)

text \<open>What an operation that publishes a new state has to show.\<close>

lemma session_ok_publish:
  assumes "session_ok oc s" and "s_next_id s \<le> n" and "s_next_op s < op"
    and "state_ok oc n op st" and "names_ok op n orgs nms"
  shows "session_ok oc (s\<lparr>s_state := st, s_next_id := n, s_next_op := op, s_origins := orgs,
     s_names := nms, s_heap := s_heap s + 1\<rparr>)"
  using assms by (auto simp: session_ok_def intro: state_ok_mono)

lemma session_ok_ready:
  "session_ok oc s \<Longrightarrow>
   carry_ready (s_next_op s) (live_registry s) (s_next_id s) (s_origins s) (s_names s)"
  by (simp add: session_ok_def carry_ready_def state_ok_def registry_ok_def)

section \<open>Commit\<close>

text \<open>The history \<^verbatim>\<open>commit\<close> carries by, and its carry.\<close>

definition commit_history :: "commit_args \<Rightarrow> session \<Rightarrow> history option" where
  "commit_history a s = (if s_tear s then None else ca_history a)"

definition commit_carry :: "occt \<Rightarrow> commit_args \<Rightarrow> session \<Rightarrow> carried" where
  "commit_carry oc a s =
     carry_registry (registered_subshapes (map_shapes oc) (make_root (s_heap s) (ca_bodies a)))
       (commit_history a s) (s_next_op s) (ca_pieces a) (live_registry s) (s_next_id s)
       (s_origins s) (s_names s)"

definition committed :: "occt \<Rightarrow> commit_args \<Rightarrow> session \<Rightarrow> session" where
  "committed oc a s = s\<lparr>s_tear := False,
     s_state := \<lparr>st_root = make_root (s_heap s) (ca_bodies a),
       st_registry = r_registry (commit_carry oc a s), st_op_index = s_next_op s\<rparr>,
     s_next_id := r_next_id (commit_carry oc a s), s_next_op := s_next_op s + 1,
     s_origins := r_origins (commit_carry oc a s), s_names := r_names (commit_carry oc a s),
     s_heap := s_heap s + 1\<rparr>"

lemma commit_refused:
  "commit oc a s = (Inl e, s') \<Longrightarrow> s' = s\<lparr>s_tear := False\<rparr>"
  by (auto simp: commit_def Let_def split: sum.splits)

lemma commit_published:
  "commit oc a s = (Inr rep, s') \<Longrightarrow> s' = committed oc a s \<and>
   rep = \<lparr>rep_delta = (r_delta (commit_carry oc a s))\<lparr>d_valid := d_valid (rep_delta rep),
            d_warnings := ca_warnings a\<rparr>,
          rep_op_index = s_next_op s, rep_op_name = ca_op_name a\<rparr>"
  by (auto simp: commit_def committed_def commit_carry_def commit_history_def Let_def
      split: sum.splits)

lemma session_ok_committed:
  assumes "session_ok oc s"
  shows "session_ok oc (committed oc a s)"
proof -
  note ready = session_ok_ready [OF assms]
  note ok = carry_registry_ok [OF ready refl]
  note names = carry_registry_names [OF ready refl]
  have "0 < s_heap s" using assms by (simp add: session_ok_def)
  then have st: "state_ok oc (r_next_id (commit_carry oc a s)) (s_next_op s + 1)
      \<lparr>st_root = make_root (s_heap s) (ca_bodies a),
       st_registry = r_registry (commit_carry oc a s), st_op_index = s_next_op s\<rparr>"
    unfolding commit_carry_def state_ok_def root_keys_def using ok by simp
  have "session_ok oc (s\<lparr>s_tear := False\<rparr>)" using assms by simp
  from session_ok_publish [OF this _ _ st, of "r_origins (commit_carry oc a s)"
      "r_names (commit_carry oc a s)"]
  show ?thesis unfolding committed_def
    using ok(4) names(1) by (simp add: commit_carry_def)
qed

lemma session_ok_commit:
  assumes "session_ok oc s" and "commit oc a s = (r, s')"
  shows "session_ok oc s'"
proof (cases r)
  case (Inl e)
  with assms show ?thesis using commit_refused by fastforce
next
  case (Inr rep)
  with assms show ?thesis using commit_published session_ok_committed by blast
qed

section \<open>Relabelling\<close>

definition rekey :: "(shape_key \<rightharpoonup> shape) \<Rightarrow> shape_key \<Rightarrow> shape_key" where
  "rekey remap k = (case remap k of None \<Rightarrow> k | Some t \<Rightarrow> skey t)"

lemma relabel_record_simps [simp]:
  "ent_kind (relabel_record remap rec) = ent_kind rec"
  "length (ent_shapes (relabel_record remap rec)) = length (ent_shapes rec)"
  "map skey (ent_shapes (relabel_record remap rec)) = map (rekey remap) (map skey (ent_shapes rec))"
  "skey ` set (ent_shapes (relabel_record remap rec)) = rekey remap ` skey ` set (ent_shapes rec)"
proof -
  show "map skey (ent_shapes (relabel_record remap rec)) =
      map (rekey remap) (map skey (ent_shapes rec))"
    by (simp add: relabel_record_def rekey_def split: option.split)
  from arg_cong [OF this, of set]
  show "skey ` set (ent_shapes (relabel_record remap rec)) = rekey remap ` skey ` set (ent_shapes rec)"
    by (simp only: set_map)
qed (simp_all add: relabel_record_def)

lemma record_ok_relabel: "record_ok rec \<Longrightarrow> record_ok (relabel_record remap rec)"
  by (metis length_0_conv record_ok_def relabel_record_simps(2))

lemma empty_registry_simps [simp]:
  "live_ids empty_registry = {}" "alive empty_registry = []" "by_shape empty_registry = []"
  by (simp_all add: empty_registry_def live_ids_def)

lemma relabel_fold:
  assumes "distinct (map fst es)" and "index_ok r" and "live_ids r \<inter> fst ` set es = {}"
    and "\<forall>(eid, rec) \<in> set es. record_ok (f rec)"
    and "r' = fold (\<lambda>(eid, rec). add_entity eid (f rec)) es r"
  shows "index_ok r' \<and>
    map_of (alive r') = map_of (alive r) ++ (\<lambda>e. map_option f (map_of es e)) \<and>
    fst ` set (by_shape r') =
      fst ` set (by_shape r) \<union> (\<Union>(eid, rec) \<in> set es. skey ` set (ent_shapes (f rec)))"
  using assms
proof (induction es arbitrary: r)
  case Nil
  then show ?case by (simp add: map_add_def)
next
  case (Cons x es)
  obtain eid rec where x: "x = (eid, rec)" by (cases x)
  let ?r = "add_entity eid (f rec) r"
  have fresh: "eid \<notin> live_ids r" and ok: "record_ok (f rec)"
    using Cons.prems x by auto
  have "index_ok ?r" using Cons.prems(2) fresh ok by (rule index_ok_add_entity)
  moreover have "live_ids ?r \<inter> fst ` set es = {}"
    using Cons.prems(1,3) x by (auto simp: add_entity_simps image_iff)
  moreover have "\<forall>(eid, rec) \<in> set es. record_ok (f rec)"
    using Cons.prems(4) by simp
  moreover have r': "r' = fold (\<lambda>(eid, rec). add_entity eid (f rec)) es ?r"
    using Cons.prems(5) x by simp
  moreover have "distinct (map fst es)" using Cons.prems(1) by simp
  ultimately have IH: "index_ok r'"
      "map_of (alive r') = map_of (alive ?r) ++ (\<lambda>e. map_option f (map_of es e))"
      "fst ` set (by_shape r') =
        fst ` set (by_shape ?r) \<union> (\<Union>(eid, rec) \<in> set es. skey ` set (ent_shapes (f rec)))"
    using Cons.IH by blast+
  have "map_of (alive ?r) ++ (\<lambda>e. map_option f (map_of es e)) =
      map_of (alive r) ++ (\<lambda>e. map_option f (map_of (x # es) e))"
  proof
    fix e
    show "(map_of (alive ?r) ++ (\<lambda>e. map_option f (map_of es e))) e =
        (map_of (alive r) ++ (\<lambda>e. map_option f (map_of (x # es) e))) e"
      using fresh Cons.prems(1) x
      by (cases "map_of es e")
        (auto simp: add_entity_simps map_add_def live_ids_dom domIff dest: map_of_SomeD
          intro: rev_image_eqI split: option.splits)
  qed
  with IH x show ?case by (auto simp: add_entity_simps)
qed

lemma by_shape_keys:
  assumes "index_ok r"
  shows "fst ` set (by_shape r) = (\<Union>(eid, rec) \<in> set (alive r). skey ` set (ent_shapes rec))"
proof -
  have d: "distinct (map fst (alive r))" using assms by (simp add: index_ok_def)
  have "owners r k = {eid. \<exists>rec. (eid, rec) \<in> set (alive r) \<and> k \<in> skey ` set (ent_shapes rec)}" for k
    by (simp add: owners_def map_of_eq_Some_iff [OF d])
  then have "k \<in> fst ` set (by_shape r) \<longleftrightarrow>
      (\<exists>x \<in> set (alive r). k \<in> skey ` set (ent_shapes (snd x)))" for k
    unfolding by_shape_key_iff [OF assms] by force
  then show ?thesis by (simp add: set_eq_iff case_prod_beta)
qed

lemma relabel_registry_spec:
  assumes ok: "index_ok r"
  shows "registry_ok (relabel_registry remap r)"
    and "map_of (alive (relabel_registry remap r)) =
      (\<lambda>e. map_option (relabel_record remap) (map_of (alive r) e))"
    and "fst ` set (by_shape (relabel_registry remap r)) = rekey remap ` fst ` set (by_shape r)"
proof -
  have d: "distinct (map fst (alive r))" using ok by (simp add: index_ok_def)
  have rec: "\<forall>(eid, rec) \<in> set (alive r). record_ok (relabel_record remap rec)"
    using ok d by (auto simp: index_ok_def intro: record_ok_relabel)
  obtain r' where r': "r' = fold (\<lambda>(eid, rec). add_entity eid (relabel_record remap rec)) (alive r)
      empty_registry" by simp
  have spec: "index_ok r'"
      "map_of (alive r') = Map.empty ++ (\<lambda>e. map_option (relabel_record remap) (map_of (alive r) e))"
      "fst ` set (by_shape r') =
        (\<Union>(eid, rec) \<in> set (alive r). skey ` set (ent_shapes (relabel_record remap rec)))"
    using relabel_fold [OF d index_ok_empty _ rec r'] by (simp_all add: empty_registry_simps)
  have next': "relabel_registry remap r = r'\<lparr>by_shape := publish (by_shape r')\<rparr>"
    by (simp add: relabel_registry_def r' Let_def)
  show "registry_ok (relabel_registry remap r)"
    using spec(1) by (simp add: next' registry_ok_publish)
  show "map_of (alive (relabel_registry remap r)) =
      (\<lambda>e. map_option (relabel_record remap) (map_of (alive r) e))"
    by (simp add: next' spec(2))
  have keys: "fst ` set (by_shape r) = (\<Union>(eid, rec) \<in> set (alive r). skey ` set (ent_shapes rec))"
    by (rule by_shape_keys [OF ok])
  show "fst ` set (by_shape (relabel_registry remap r)) = rekey remap ` fst ` set (by_shape r)"
    by (simp add: next' spec(3) keys image_UN case_prod_beta)
qed

section \<open>Shared facts\<close>

lemma live_facts:
  assumes "session_ok oc s"
  shows "registry_ok (live_registry s)" and "index_ok (live_registry s)"
    and "fst ` set (by_shape (live_registry s)) =
      skey ` set (registered_subshapes (map_shapes oc) (st_root (s_state s)))"
    and "live_ids (live_registry s) \<subseteq> {1..<s_next_id s}"
    and "names_ok (s_next_op s) (s_next_id s) (s_origins s) (s_names s)"
    and "carry_ready (s_next_op s) (live_registry s) (s_next_id s) (s_origins s) (s_names s)"
  using assms session_ok_ready [OF assms]
  by (simp_all add: session_ok_def state_ok_def covers_def root_keys_def registry_ok_def ids_below_def)

lemma require_alive_iff:
  assumes "session_ok oc s"
  shows "require_alive s e = Inr rec \<longleftrightarrow> map_of (alive (live_registry s)) e = Some rec"
proof -
  have "1 \<le> e \<and> e < s_next_id s" if "map_of (alive (live_registry s)) e = Some rec"
    using that live_facts(4) [OF assms] by (auto simp: live_ids_dom)
  then show ?thesis
    by (auto simp: require_alive_def require_issued_def bind_result_Inr_iff split: option.splits)
qed

text \<open>
  The row of a shape: its owners in ascending order, each as often as its record holds the shape,
  so each once where no record holds a shape twice.
\<close>

definition id_row :: "registry \<Rightarrow> shape_key \<Rightarrow> entity_id list" where
  "id_row r k = concat (map (\<lambda>e. replicate (holdings r k e) e) (sorted_list_of_set (owners r k)))"

lemma finite_owners: "finite (owners r k)"
proof (rule finite_subset [OF owners_subset_live])
  show "finite (live_ids r)" by (simp add: live_ids_def)
qed

lemma id_row_apart: "shapes_apart r \<Longrightarrow> id_row r k = sorted_list_of_set (owners r k)"
proof -
  assume apart: "shapes_apart r"
  have "holdings r k e = 1" if "e \<in> owners r k" for e
    using that holdings_apart [OF apart, of k e] by (simp add: owners_holdings)
  then have "map (\<lambda>e. replicate (holdings r k e) e) (sorted_list_of_set (owners r k)) =
      map (\<lambda>e. [e]) (sorted_list_of_set (owners r k))"
    by (intro map_cong) (simp_all add: finite_owners)
  moreover have "concat (map (\<lambda>e. [e]) xs) = xs" for xs :: "entity_id list"
    by (induction xs) simp_all
  ultimately show ?thesis by (simp only: id_row_def)
qed

lemma set_id_row: "set (id_row r k) = owners r k"
  by (auto simp: id_row_def finite_owners owners_holdings)

lemma sorted_id_row: "sorted (id_row r k)"
  unfolding id_row_def by (rule sorted_repeats) simp

lemma id_row_key:
  assumes "registry_ok r"
  shows "map_of (by_shape r) k = (if k \<in> fst ` set (by_shape r) then Some (id_row r k) else None)"
proof -
  have "count_list (id_row r k) e = holdings r k e" for e
    using count_list_repeats [of "sorted_list_of_set (owners r k)" "holdings r k" e]
    by (simp add: id_row_def finite_owners owners_holdings)
  then have "values_at (by_shape r) k = id_row r k"
    using assms by (intro sorted_by_counts sorted_id_row) (simp_all add: registry_ok_def index_ok_def)
  then show ?thesis
    by (auto simp: values_at_def map_of_eq_None_iff split: option.splits)
qed

lemma live_record:
  assumes "session_ok oc s" and "map_of (alive (live_registry s)) e = Some rec"
  shows "ent_shapes rec \<noteq> []" and "1 \<le> e" and "e < s_next_id s"
proof -
  have "e \<in> live_ids (live_registry s)" using assms(2) by (auto simp: live_ids_dom)
  then have "e \<in> {1..<s_next_id s}" using live_facts(4) [OF assms(1)] by blast
  then show "1 \<le> e" and "e < s_next_id s" by simp_all
  show "ent_shapes rec \<noteq> []"
    using live_facts(2) [OF assms(1)] assms(2) unfolding index_ok_def record_ok_def by blast
qed

end
