(* ===== verification/TransformFacts.thy ===== *)
theory TransformFacts
  imports SessionFacts
begin

text \<open>
  Moving bodies keeps the session's invariant: the relocation path relabels the registry by the
  pairs of old and new sub-shapes, and the bodies it moves share nothing with those that stay.
\<close>

section \<open>The bodies of a root\<close>

definition entity_shapes :: "shape \<Rightarrow> shape set" where
  "entity_shapes s = {x \<in> set (descendants s). shape_type x \<in> set kEntityKinds}"

lemma entity_shapes_leaves: "entity_shapes s = (\<Union>b \<in> set (explode_into s []). entity_shapes b)"
proof (induction s)
  case (Shape t l d k cs)
  have step: "entity_shapes (Shape t l d COMPOUND cs) = (\<Union>c \<in> set cs. entity_shapes c)" if "t \<noteq> 0"
    using that by (auto simp: entity_shapes_def kEntityKinds_def)
  have "(\<Union>c \<in> set cs. entity_shapes c) =
      (\<Union>c \<in> set cs. \<Union>b \<in> set (explode_into c []). entity_shapes b)"
    using Shape by (intro SUP_cong) auto
  then show ?case
    by (auto simp: explode_fold step is_null_def entity_shapes_def [of "Shape 0 l d k cs"])
qed

lemma root_keys_bodies:
  assumes "occt_ok oc" and "\<not> is_null root"
  shows "root_keys oc root = (\<Union>b \<in> set (root_bodies root). root_keys oc b)"
proof -
  have "root_keys oc b = skey ` entity_shapes b" if "b \<in> set (root_bodies root)" for b
    using that root_keys_descendants [OF assms(1), of b] explode_leaves [of b root]
    by (simp add: root_bodies_def entity_shapes_def)
  then show ?thesis
    using root_keys_descendants [OF assms] entity_shapes_leaves [of root]
    by (simp add: entity_shapes_def [symmetric] image_UN root_bodies_def)
qed

lemma root_keys_make_root_bodies:
  assumes "occt_ok oc" and "a \<noteq> 0" and "\<forall>b \<in> set bs. \<not> is_null b"
  shows "root_keys oc (make_root a bs) = (\<Union>b \<in> set bs. root_keys oc b)"
  using assms root_keys_descendants [OF assms(1)] by (simp add: root_keys_make_root)

text \<open>Two bodies that are the same shape have the same sub-shapes.\<close>

definition coherent :: "occt \<Rightarrow> shape list \<Rightarrow> bool" where
  "coherent oc bodies =
     (\<forall>a \<in> set bodies. \<forall>b \<in> set bodies. is_same a b \<longrightarrow> root_keys oc a = root_keys oc b)"

section \<open>The scope\<close>

lemma loop_unit_Inr: "loop f xs () = Inr () \<longleftrightarrow> (\<forall>x \<in> set xs. f x () = Inr ())"
  by (induction xs) (auto split: sum.splits)

lemma guard_shared_subshapes_ok:
  "guard_shared_subshapes oc bodies moving = Inr () \<longleftrightarrow>
     (\<forall>b \<in> set bodies. \<not> is_moving moving b \<longrightarrow>
        root_keys oc b \<inter> (\<Union>m \<in> set moving. root_keys oc m) = {})"
proof -
  obtain U where U: "U = (\<Union>m \<in> set moving. root_keys oc m)" by simp
  have "list_ex (is_same sub) (concat (map (registered_subshapes (map_shapes oc)) moving)) \<longleftrightarrow>
      skey sub \<in> U" for sub
    by (auto simp: U list_ex_iff is_same_def root_keys_def intro: rev_image_eqI)
  then have "loop (\<lambda>sub _. if list_ex (is_same sub)
        (concat (map (registered_subshapes (map_shapes oc)) moving)) then Inl TornModel else Inr ())
      (registered_subshapes (map_shapes oc) b) () = Inr () \<longleftrightarrow> root_keys oc b \<inter> U = {}" for b
    by (auto simp: loop_unit_Inr root_keys_def)
  then show ?thesis
    by (auto simp: guard_shared_subshapes_def Let_def loop_unit_Inr U [symmetric])
qed

lemma body_of_subshape_bodies:
  "map_of (body_of_subshape oc s) k = Some b \<Longrightarrow> b \<in> set (root_bodies (st_root (s_state s)))"
proof -
  have inner: "set (fold (\<lambda>sub m. emplace (skey sub) b m) subs m) \<subseteq> set m \<union> UNIV \<times> {b}"
    for subs b and m :: "(shape_key \<times> shape) list"
  proof (induction subs arbitrary: m)
    case (Cons sub subs)
    have "set (emplace (skey sub) b m) \<subseteq> set m \<union> UNIV \<times> {b}"
      by (auto simp: emplace_def split: option.splits)
    with Cons.IH [of "emplace (skey sub) b m"] show ?case by auto
  qed simp
  have "snd ` set (fold (\<lambda>body m. fold (\<lambda>sub m. emplace (skey sub) body m)
      (registered_subshapes (map_shapes oc) body) m) bs m) \<subseteq> snd ` set m \<union> set bs"
    for bs and m :: "(shape_key \<times> shape) list"
  proof (induction bs arbitrary: m)
    case (Cons b bs)
    let ?m = "fold (\<lambda>sub m. emplace (skey sub) b m) (registered_subshapes (map_shapes oc) b) m"
    have "snd ` set ?m \<subseteq> insert b (snd ` set m)"
      using image_mono [OF inner [of b "registered_subshapes (map_shapes oc) b" m], of snd]
      by (auto simp: image_Un)
    with Cons.IH [of ?m] show ?case by (simp add: subset_iff) blast
  qed simp
  from this [of "root_bodies (st_root (s_state s))" "[]"]
  have "snd ` set (body_of_subshape oc s) \<subseteq> set (root_bodies (st_root (s_state s)))"
    unfolding body_of_subshape_def by simp
  then show "map_of (body_of_subshape oc s) k = Some b \<Longrightarrow> ?thesis"
    by (fastforce dest: map_of_SomeD intro: rev_image_eqI)
qed

lemma sole_owner_from_bodies:
  "sole_owner_from tbl subs found = Inr r \<Longrightarrow>
   (r = found \<and> (subs = [] \<or> found \<noteq> None)) \<or> (\<exists>k b. r = Some b \<and> map_of tbl k = Some b)"
  by (induction tbl subs found rule: sole_owner_from.induct)
    (auto split: option.splits if_splits)

text \<open>A scope holds bodies of the root only, and nothing it holds is shared with the rest.\<close>

lemma scoped_bodies_ok:
  assumes ok: "session_ok oc s" and m: "scoped_bodies oc s ids = Inr moving"
  shows "set moving \<subseteq> set (root_bodies (st_root (s_state s)))"
    and "\<forall>b \<in> set (root_bodies (st_root (s_state s))). \<not> is_moving moving b \<longrightarrow>
      root_keys oc b \<inter> (\<Union>m \<in> set moving. root_keys oc m) = {}"
proof -
  let ?bodies = "root_bodies (st_root (s_state s))"
  let ?f = "\<lambda>eid moving. bind_result (require_alive s eid) (\<lambda>rec.
      bind_result (sole_owner_body (body_of_subshape oc s) (ent_shapes rec)) (\<lambda>b.
        Inr (append_unique moving (case b of None \<Rightarrow> null_shape | Some x \<Rightarrow> x))))"
  have alive: "ent_shapes rec \<noteq> []" if "require_alive s e = Inr rec" for e rec
    using that ok by (auto simp: require_alive_def session_ok_def state_ok_def registry_ok_def
        index_ok_def record_ok_def bind_result_Inr_iff split: option.splits)
  have step: "set acc' \<subseteq> set ?bodies"
    if acc: "set acc \<subseteq> set ?bodies" and run: "?f e acc = Inr acc'" for e acc acc'
  proof -
    obtain rec b where rec: "require_alive s e = Inr rec"
      and b: "sole_owner_body (body_of_subshape oc s) (ent_shapes rec) = Inr b"
      and acc': "acc' = append_unique acc (case b of None \<Rightarrow> null_shape | Some x \<Rightarrow> x)"
      using run by (auto simp: bind_result_Inr_iff)
    obtain x where "b = Some x" "x \<in> set ?bodies"
      using sole_owner_from_bodies [OF b [unfolded sole_owner_body_def]] alive [OF rec]
        body_of_subshape_bodies by blast
    then show ?thesis using acc acc' set_append_unique_subset by fastforce
  qed
  have "set moving \<subseteq> set ?bodies \<and> guard_shared_subshapes oc ?bodies moving = Inr ()"
  proof (cases ids)
    case None
    have "is_moving ?bodies b" if "b \<in> set ?bodies" for b
      using that by (auto simp: is_moving_def list_ex_iff intro!: bexI [of _ b])
    with None m show ?thesis by (simp add: scoped_bodies_def Let_def guard_shared_subshapes_ok)
  next
    case (Some es)
    with m have l: "loop ?f es [] = Inr moving" and g: "guard_shared_subshapes oc ?bodies moving = Inr ()"
      by (auto simp: scoped_bodies_def Let_def bind_result_Inr_iff split: list.splits)
    have "set moving \<subseteq> set ?bodies"
      by (rule loop_invariant [OF l, where P = "\<lambda>acc. set acc \<subseteq> set ?bodies"])
        (use step in \<open>auto simp del: bind_result_simps\<close>)
    with g show ?thesis by simp
  qed
  then show "set moving \<subseteq> set ?bodies"
    and "\<forall>b \<in> set ?bodies. \<not> is_moving moving b \<longrightarrow>
      root_keys oc b \<inter> (\<Union>m \<in> set moving. root_keys oc m) = {}"
    by (simp_all add: guard_shared_subshapes_ok)
qed

section \<open>Relocation\<close>

text \<open>
  What the code relies on of \<^verbatim>\<open>Moved\<close>: it keeps the TShape and the traversal order, and
  composes every Location with the same one, so it moves keys by one injective function.
\<close>

definition trsf_ok :: "occt \<Rightarrow> trsf \<Rightarrow> (shape_key \<Rightarrow> shape_key) \<Rightarrow> bool" where
  "trsf_ok oc t f = (inj f \<and> (\<forall>k. key_tshape (f k) = key_tshape k) \<and> (\<forall>b. is_null (moved t b) = is_null b \<and>
     (\<forall>k. map skey (map_shapes oc (moved t b) k) = map (\<lambda>x. f (skey x)) (map_shapes oc b k) \<and>
          map tshape (map_shapes oc (moved t b) k) = map tshape (map_shapes oc b k))))"

lemma trsf_ok_registered:
  assumes "trsf_ok oc t f"
  shows "map skey (registered_subshapes (map_shapes oc) (moved t b)) =
      map (\<lambda>x. f (skey x)) (registered_subshapes (map_shapes oc) b)"
    and "map tshape (registered_subshapes (map_shapes oc) (moved t b)) =
      map tshape (registered_subshapes (map_shapes oc) b)"
    and "root_keys oc (moved t b) = f ` root_keys oc b"
proof -
  have "map skey (registered_subshapes (map_shapes oc) (moved t b)) =
        map (\<lambda>x. f (skey x)) (registered_subshapes (map_shapes oc) b) \<and>
      map tshape (registered_subshapes (map_shapes oc) (moved t b)) =
        map tshape (registered_subshapes (map_shapes oc) b)"
    using assms by (simp add: trsf_ok_def registered_subshapes_def kEntityKinds_def)
  then show keys: "map skey (registered_subshapes (map_shapes oc) (moved t b)) =
      map (\<lambda>x. f (skey x)) (registered_subshapes (map_shapes oc) b)"
    and "map tshape (registered_subshapes (map_shapes oc) (moved t b)) =
      map tshape (registered_subshapes (map_shapes oc) b)"
    by blast+
  from arg_cong [OF keys, of set] show "root_keys oc (moved t b) = f ` root_keys oc b"
    by (simp add: root_keys_def image_image)
qed

text \<open>A remap of the keys \<open>D\<close> by \<open>f\<close>.\<close>

definition remaps :: "(shape_key \<Rightarrow> shape_key) \<Rightarrow> shape_key set \<Rightarrow> (shape_key \<rightharpoonup> shape) \<Rightarrow> bool" where
  "remaps f D remap = (dom remap = D \<and> (\<forall>k t. remap k = Some t \<longrightarrow> skey t = f k))"

lemma remaps_emplace:
  "remaps f D (map_of m) \<Longrightarrow> skey b = f k \<Longrightarrow> remaps f (insert k D) (map_of (emplace k b m))"
  by (auto simp: remaps_def map_of_emplace split: if_splits)

lemma rekey_remaps: "remaps f D remap \<Longrightarrow> rekey remap k = (if k \<in> D then f k else k)"
  by (auto simp: remaps_def rekey_def domI split: option.splits)

lemma pair_up_ok:
  assumes "map skey bs = map (\<lambda>x. f (skey x)) as" and "map tshape bs = map tshape as"
    and "remaps f D (map_of m)"
  shows "\<exists>m'. pair_up (zip as bs) m = Inr m' \<and> remaps f (skey ` set as \<union> D) (map_of m')"
  using assms
proof (induction as arbitrary: bs m D)
  case (Cons a as)
  then obtain b bs' where bs: "bs = b # bs'" "skey b = f (skey a)" "tshape b = tshape a"
      "map skey bs' = map (\<lambda>x. f (skey x)) as" "map tshape bs' = map tshape as"
    by (cases bs) auto
  have "remaps f (insert (skey a) D) (map_of (emplace (skey a) b m))"
    using Cons.prems(3) bs(2) by (rule remaps_emplace)
  from Cons.IH [OF bs(4,5) this] bs show ?case by (simp add: is_partner_def)
qed simp

lemma move_body_ok:
  assumes t: "trsf_ok oc t f" and m: "remaps f D (map_of m)"
  shows "\<exists>m'. move_body oc t moving b (bs, m) =
      Inr (bs @ [if is_moving moving b then moved t b else b], m') \<and>
    remaps f ((if is_moving moving b then root_keys oc b else {}) \<union> D) (map_of m')"
proof (cases "is_moving moving b")
  case True
  from pair_up_ok [OF trsf_ok_registered(1,2) [OF t, of b] m]
  obtain m' where "pair_up (zip (registered_subshapes (map_shapes oc) b)
        (registered_subshapes (map_shapes oc) (moved t b))) m = Inr m'"
      "remaps f (root_keys oc b \<union> D) (map_of m')"
    by (auto simp: root_keys_def)
  moreover have "length (registered_subshapes (map_shapes oc) b) =
      length (registered_subshapes (map_shapes oc) (moved t b))"
    using arg_cong [OF trsf_ok_registered(2) [OF t, of b], of length] by simp
  ultimately show ?thesis using True by (simp add: move_body_def Let_def)
qed (use m in \<open>simp add: move_body_def\<close>)

text \<open>The relocation of a whole model never fails, and pairs every key of the moving bodies.\<close>

lemma move_bodies_ok:
  assumes t: "trsf_ok oc t f" and m: "remaps f D (map_of m)"
  shows "\<exists>m'. loop (move_body oc t moving) bodies (bs, m) =
      Inr (bs @ map (\<lambda>b. if is_moving moving b then moved t b else b) bodies, m') \<and>
    remaps f ((\<Union>b \<in> {b \<in> set bodies. is_moving moving b}. root_keys oc b) \<union> D) (map_of m')"
  using m
proof (induction bodies arbitrary: bs m D)
  case (Cons b bodies)
  let ?b = "if is_moving moving b then moved t b else b"
  let ?D = "(if is_moving moving b then root_keys oc b else {}) \<union> D"
  obtain m1 where m1: "move_body oc t moving b (bs, m) = Inr (bs @ [?b], m1)"
      "remaps f ?D (map_of m1)"
    using move_body_ok [OF t Cons.prems] by blast
  from Cons.IH [OF m1(2), of "bs @ [?b]"] obtain m' where
    "loop (move_body oc t moving) bodies (bs @ [?b], m1) =
      Inr ((bs @ [?b]) @ map (\<lambda>b. if is_moving moving b then moved t b else b) bodies, m')"
    "remaps f ((\<Union>b \<in> {b \<in> set bodies. is_moving moving b}. root_keys oc b) \<union> ?D) (map_of m')"
    by blast
  moreover have "(\<Union>b \<in> {b \<in> set bodies. is_moving moving b}. root_keys oc b) \<union> ?D =
      (\<Union>b' \<in> {b' \<in> set (b # bodies). is_moving moving b'}. root_keys oc b') \<union> D"
    by auto
  ultimately show ?case using m1(1) by simp
qed simp

text \<open>
  A relocation that returns: the keys of the scope move by \<open>f\<close>, every other key stays, and every
  id keeps its kind and its number of shapes.
\<close>

definition scope_keys :: "occt \<Rightarrow> session \<Rightarrow> shape list \<Rightarrow> shape_key set" where
  "scope_keys oc s moving =
     (\<Union>b \<in> {b \<in> set (root_bodies (st_root (s_state s))). is_moving moving b}. root_keys oc b)"

lemma relocate_cases:
  assumes t: "trsf_ok oc t f" and run: "relocate oc t ids name s = (r, s')"
  shows "(\<exists>e. r = Inl e \<and> s' = s \<and> scoped_bodies oc s ids = Inl e) \<or>
    (\<exists>moving remap rep. scoped_bodies oc s ids = Inr moving \<and> r = Inr rep \<and>
       remaps f (scope_keys oc s moving) remap \<and>
       rep = \<lparr>rep_delta = relocated_delta remap (live_registry s)
                  (relabel_registry remap (live_registry s)),
              rep_op_index = s_next_op s, rep_op_name = name\<rparr> \<and>
       s' = s\<lparr>s_state := \<lparr>st_root = make_root (s_heap s)
                  (map (\<lambda>b. if is_moving moving b then moved t b else b)
                     (root_bodies (st_root (s_state s)))),
                st_registry = relabel_registry remap (live_registry s),
                st_op_index = s_next_op s\<rparr>,
              s_next_op := s_next_op s + 1, s_heap := s_heap s + 1\<rparr>)"
proof (cases "scoped_bodies oc s ids")
  case (Inl e)
  with run show ?thesis by (simp add: relocate_def)
next
  case (Inr moving)
  have "remaps f {} (map_of [])" by (simp add: remaps_def)
  from move_bodies_ok [OF t this, of moving "root_bodies (st_root (s_state s))" "[]"]
  obtain m where "loop (move_body oc t moving) (root_bodies (st_root (s_state s))) ([], []) =
      Inr (map (\<lambda>b. if is_moving moving b then moved t b else b)
        (root_bodies (st_root (s_state s))), m)"
    and "remaps f (scope_keys oc s moving) (map_of m)"
    by (auto simp: scope_keys_def)
  with Inr run show ?thesis by (auto simp: relocate_def Let_def)
qed

text \<open>The sub-shapes of the new root are the relabelled sub-shapes of the old one.\<close>

lemma relocated_root_keys:
  assumes oc: "occt_ok oc" and t: "trsf_ok oc t f" and ok: "session_ok oc s"
    and co: "coherent oc (root_bodies (st_root (s_state s)))"
    and scope: "scoped_bodies oc s ids = Inr moving"
    and rm: "remaps f (scope_keys oc s moving) remap"
  shows "root_keys oc (make_root (s_heap s) (map (\<lambda>b. if is_moving moving b then moved t b else b)
      (root_bodies (st_root (s_state s))))) = rekey remap ` root_keys oc (st_root (s_state s))"
proof -
  let ?bodies = "root_bodies (st_root (s_state s))"
  let ?move = "\<lambda>b. if is_moving moving b then moved t b else b"
  have nonnull: "\<not> is_null b" if "b \<in> set ?bodies" for b
    using that explode_leaves by (simp add: root_bodies_def)
  have each_body: "root_keys oc (?move b) = rekey remap ` root_keys oc b" if b: "b \<in> set ?bodies" for b
  proof (cases "is_moving moving b")
    case True
    with b have "root_keys oc b \<subseteq> scope_keys oc s moving" by (auto simp: scope_keys_def)
    then have "rekey remap ` root_keys oc b = f ` root_keys oc b"
      by (intro image_cong) (auto simp: rekey_remaps [OF rm])
    with True show ?thesis by (simp add: trsf_ok_registered(3) [OF t])
  next
    case False
    have "scope_keys oc s moving \<subseteq> (\<Union>m \<in> set moving. root_keys oc m)"
    proof
      fix k
      assume "k \<in> scope_keys oc s moving"
      then obtain b' m where b': "b' \<in> set ?bodies" "k \<in> root_keys oc b'"
        and m: "m \<in> set moving" "is_same b' m"
        by (auto simp: scope_keys_def is_moving_def list_ex_iff)
      have "m \<in> set ?bodies" using m(1) scoped_bodies_ok(1) [OF ok scope] by blast
      with co b'(1) m(2) have "root_keys oc b' = root_keys oc m"
        unfolding coherent_def by blast
      with b'(2) m(1) show "k \<in> (\<Union>m \<in> set moving. root_keys oc m)" by blast
    qed
    with False b scoped_bodies_ok(2) [OF ok scope]
    have "root_keys oc b \<inter> scope_keys oc s moving = {}" by blast
    then have "rekey remap ` root_keys oc b = root_keys oc b"
      by (auto simp: rekey_remaps [OF rm] image_iff)
    with False show ?thesis by simp
  qed
  have "root_keys oc (make_root (s_heap s) (map ?move ?bodies)) =
      (\<Union>b \<in> set ?bodies. root_keys oc (?move b))"
  proof -
    have "\<not> is_null (?move b)" if "b \<in> set ?bodies" for b
      using nonnull [OF that] t by (simp add: trsf_ok_def)
    then have "\<forall>b \<in> set (map ?move ?bodies). \<not> is_null b"
      unfolding set_map by blast
    moreover have "s_heap s \<noteq> 0" using ok by (simp add: session_ok_def)
    ultimately have "root_keys oc (make_root (s_heap s) (map ?move ?bodies)) =
        (\<Union>b \<in> set (map ?move ?bodies). root_keys oc b)"
      by (intro root_keys_make_root_bodies [OF oc])
    then show ?thesis by (simp only: set_map UN_simps)
  qed
  also have "\<dots> = (\<Union>b \<in> set ?bodies. rekey remap ` root_keys oc b)"
    using each_body by simp
  also have "\<dots> = rekey remap ` root_keys oc (st_root (s_state s))"
    using ok by (simp add: root_keys_bodies [OF oc] session_ok_def state_ok_def image_UN)
  finally show ?thesis .
qed

lemma session_ok_relocate:
  assumes oc: "occt_ok oc" and t: "trsf_ok oc t f" and ok: "session_ok oc s"
    and co: "coherent oc (root_bodies (st_root (s_state s)))"
    and run: "relocate oc t ids name s = (r, s')"
  shows "session_ok oc s'"
proof (cases "\<exists>e. r = Inl e")
  case True
  with relocate_cases [OF t run] ok show ?thesis by auto
next
  case False
  with relocate_cases [OF t run] obtain moving remap where
    scope: "scoped_bodies oc s ids = Inr moving" and rm: "remaps f (scope_keys oc s moving) remap"
    and s': "s' = s\<lparr>s_state := \<lparr>st_root = make_root (s_heap s)
                  (map (\<lambda>b. if is_moving moving b then moved t b else b)
                     (root_bodies (st_root (s_state s)))),
                st_registry = relabel_registry remap (live_registry s),
                st_op_index = s_next_op s\<rparr>,
              s_next_op := s_next_op s + 1, s_heap := s_heap s + 1\<rparr>"
    by blast
  have idx: "index_ok (live_registry s)"
    using ok by (simp add: session_ok_def state_ok_def registry_ok_def)
  note spec = relabel_registry_spec [OF idx, of remap]
  have "live_ids (relabel_registry remap (live_registry s)) = live_ids (live_registry s)"
    by (auto simp: live_ids_dom spec(2))
  then have "state_ok oc (s_next_id s) (s_next_op s + 1) (s_state s')"
    using ok relocated_root_keys [OF oc t ok co scope rm]
    by (auto simp: state_ok_def session_ok_def s' spec(1) covers_def spec(3) ids_below_def)
  moreover have "names_ok (s_next_op s + 1) (s_next_id s) (s_origins s) (s_names s)"
    using ok by (auto simp: session_ok_def intro: names_ok_mono)
  ultimately have "session_ok oc (s\<lparr>s_state := s_state s', s_next_id := s_next_id s,
      s_next_op := s_next_op s + 1, s_origins := s_origins s, s_names := s_names s,
      s_heap := s_heap s + 1\<rparr>)"
    by (intro session_ok_publish [OF ok]) simp_all
  then show ?thesis by (simp add: s')
qed

end
