(* ===== verification/BlockSearch.thy ===== *)
theory BlockSearch
  imports Prelude
begin

text \<open>
  The two searches of GEOM's compound-of-blocks check (\<^verbatim>\<open>FindConnected\<close> and
  \<^verbatim>\<open>HasAnyConnection\<close> of \<^verbatim>\<open>session_blocks.cpp\<close>) over the table of the relations between
  blocks. Both recurse on the rows of the table and share the set of the rows they have been at;
  the model counts the depth of the recursion down, and the lemmas show which depth is enough.
\<close>

section \<open>The relation codes and the failures\<close>

abbreviation (input) "REL_NOT_CONNECTED \<equiv> (0 :: int)"
abbreviation (input) "REL_OK \<equiv> (1 :: int)"
abbreviation (input) "REL_NOT_GLUED \<equiv> (2 :: int)"

text \<open>
  What ends a check: an OCCT exception's text, an index that a map or a table does not have, or
  the depth counter.
\<close>

datatype block_stop = Threw string | OutOfRange | OutOfFuel

type_synonym relations = "nat \<Rightarrow> nat \<Rightarrow> int"

definition rel_init :: relations where
  "rel_init = (\<lambda>_ _. REL_NOT_CONNECTED)"

text \<open>\<^verbatim>\<open>SetValue\<close> at (i, j) and at (j, i), in a square table of n rows indexed from 1.\<close>

definition set_value :: "nat \<Rightarrow> nat \<Rightarrow> int \<Rightarrow> relations \<Rightarrow> relations" where
  "set_value i j code R = (\<lambda>a b. if a = i \<and> b = j then code else R a b)"

definition set_relation :: "nat \<Rightarrow> nat \<Rightarrow> nat \<Rightarrow> int \<Rightarrow> relations \<Rightarrow> (block_stop, relations) result" where
  "set_relation n i j code R =
     (if i \<in> {1..n} \<and> j \<in> {1..n} then Inr (set_value j i code (set_value i j code R)) else Inl OutOfRange)"

section \<open>The searches\<close>

text \<open>\<^verbatim>\<open>FindConnected\<close>, on (processed, connected).\<close>

fun find_connected ::
  "nat \<Rightarrow> relations \<Rightarrow> nat \<Rightarrow> nat \<Rightarrow> nat set \<times> nat set \<Rightarrow> (block_stop, nat set \<times> nat set) result" where
  "find_connected 0 R n i st = Inl OutOfFuel"
| "find_connected (Suc k) R n i (processed, connected) =
     loop (\<lambda>col st. if (R i col = REL_OK \<or> R i col = REL_NOT_GLUED) \<and> col \<notin> fst st
                    then find_connected k R n col st else Inr st)
       [1..<Suc n] (insert i processed, insert i connected)"

text \<open>\<^verbatim>\<open>HasAnyConnection\<close>: whether it found one, and the processed rows.\<close>

fun has_any_connection ::
  "nat \<Rightarrow> relations \<Rightarrow> nat \<Rightarrow> nat set \<Rightarrow> nat \<Rightarrow> nat set \<Rightarrow> (block_stop, bool \<times> nat set) result" where
  "has_any_connection 0 R n wth i processed = Inl OutOfFuel"
| "has_any_connection (Suc k) R n wth i processed =
     loop (\<lambda>col st. if fst st then Inr st
                    else if R i col \<noteq> REL_NOT_CONNECTED \<and> col \<notin> snd st
                    then (if col \<in> wth then Inr (True, snd st)
                          else has_any_connection k R n wth col (snd st))
                    else Inr st)
       [1..<Suc n] (False, insert i processed)"

section \<open>What the searches find\<close>

text \<open>The rows joined by the codes \<^verbatim>\<open>FindConnected\<close> follows, and by any code.\<close>

definition joined :: "relations \<Rightarrow> nat \<Rightarrow> nat rel" where
  "joined R n = {(i, j). i \<in> {1..n} \<and> j \<in> {1..n} \<and> (R i j = REL_OK \<or> R i j = REL_NOT_GLUED)}"

definition related :: "relations \<Rightarrow> nat \<Rightarrow> nat rel" where
  "related R n = {(i, j). i \<in> {1..n} \<and> j \<in> {1..n} \<and> R i j \<noteq> REL_NOT_CONNECTED}"

text \<open>
  The rows X a search adds to P from the row i: they are reached from i, were not in P, and every
  row one of them leads to has been processed. It is the whole of what a depth-first search
  leaves behind, whatever P was.
\<close>

definition explored :: "nat rel \<Rightarrow> nat set \<Rightarrow> nat \<Rightarrow> nat set \<Rightarrow> bool" where
  "explored E P i X = (i \<in> X \<and> X \<subseteq> E\<^sup>* `` {i} \<and> X \<inter> P \<subseteq> {i} \<and> E `` X \<subseteq> P \<union> X)"

text \<open>The same for the rows a loop over the columns adds once i itself is in.\<close>

lemma explored_insert:
  assumes "X \<subseteq> E\<^sup>* `` {i}" and "X \<inter> insert i P = {}" and "E `` (insert i X) \<subseteq> insert i P \<union> X"
  shows "explored E P i (insert i X)"
  using assms by (auto simp: explored_def)

lemma find_connected_loop:
  assumes step: "\<And>col P C. col \<in> set cols \<Longrightarrow> (i, col) \<in> E \<Longrightarrow> col \<notin> P \<Longrightarrow> P0 \<subseteq> P \<Longrightarrow>
      \<exists>X. f col (P, C) = Inr (P \<union> X, C \<union> X) \<and> explored E P col X"
    and skip: "\<And>col st. col \<in> set cols \<Longrightarrow> (i, col) \<notin> E \<or> col \<in> fst st \<Longrightarrow> f col st = Inr st"
    and "P0 \<subseteq> P"
  shows "\<exists>X. loop f cols (P, C) = Inr (P \<union> X, C \<union> X) \<and> X \<subseteq> E\<^sup>* `` {i} \<and> X \<inter> P = {} \<and>
      E `` X \<subseteq> P \<union> X \<and> E `` {i} \<inter> set cols \<subseteq> P \<union> X"
  using assms
proof (induction cols arbitrary: P C)
  case Nil
  show ?case by (rule exI [of _ "{}"]) simp
next
  case (Cons col cols)
  have IH: "\<exists>X. loop f cols (P', C') = Inr (P' \<union> X, C' \<union> X) \<and> X \<subseteq> E\<^sup>* `` {i} \<and> X \<inter> P' = {} \<and>
      E `` X \<subseteq> P' \<union> X \<and> E `` {i} \<inter> set cols \<subseteq> P' \<union> X" if "P0 \<subseteq> P'" for P' C'
    by (rule Cons.IH) (use Cons.prems(1,2) that in auto)
  show ?case
  proof (cases "(i, col) \<in> E \<and> col \<notin> P")
    case True
    with Cons.prems(1) [of col P C] Cons.prems(3) obtain X where
      X: "f col (P, C) = Inr (P \<union> X, C \<union> X)" "explored E P col X" by auto
    have "P0 \<subseteq> P \<union> X" using Cons.prems(3) by blast
    from IH [OF this, of "C \<union> X"] obtain Y where
      Y: "loop f cols (P \<union> X, C \<union> X) = Inr (P \<union> X \<union> Y, C \<union> X \<union> Y)" "Y \<subseteq> E\<^sup>* `` {i}"
        "Y \<inter> (P \<union> X) = {}" "E `` Y \<subseteq> P \<union> X \<union> Y" "E `` {i} \<inter> set cols \<subseteq> P \<union> X \<union> Y"
      by blast
    have x: "X \<subseteq> E\<^sup>* `` {i}"
      using X(2) True unfolding explored_def by (auto intro: converse_rtrancl_into_rtrancl)
    have run: "loop f (col # cols) (P, C) = Inr (P \<union> (X \<union> Y), C \<union> (X \<union> Y))"
      using X(1) Y(1) by (simp add: Un_assoc)
    have "X \<union> Y \<subseteq> E\<^sup>* `` {i}" using x Y(2) by blast
    moreover have "(X \<union> Y) \<inter> P = {}" using X(2) Y(3) True unfolding explored_def by blast
    moreover have "E `` (X \<union> Y) \<subseteq> P \<union> (X \<union> Y)" using X(2) Y(4) unfolding explored_def by blast
    moreover have "E `` {i} \<inter> set (col # cols) \<subseteq> P \<union> (X \<union> Y)"
      using X(2) Y(5) unfolding explored_def by auto
    ultimately show ?thesis using run by blast
  next
    case False
    then have run: "f col (P, C) = Inr (P, C)" using Cons.prems(2) [of col "(P, C)"] by auto
    from IH [OF Cons.prems(3), of C] obtain Y where
      Y: "loop f cols (P, C) = Inr (P \<union> Y, C \<union> Y)" "Y \<subseteq> E\<^sup>* `` {i}"
        "Y \<inter> P = {}" "E `` Y \<subseteq> P \<union> Y" "E `` {i} \<inter> set cols \<subseteq> P \<union> Y"
      by blast
    have "E `` {i} \<inter> set (col # cols) \<subseteq> P \<union> Y" using Y(5) False by auto
    with run Y show ?thesis by (intro exI [of _ Y]) simp
  qed
qed

lemma find_connected_explores:
  assumes "i \<in> {1..n}" and "i \<notin> P" and "card ({1..n} - P) \<le> k"
  shows "\<exists>X. find_connected k R n i (P, C) = Inr (P \<union> X, C \<union> X) \<and> explored (joined R n) P i X"
  using assms
proof (induction k arbitrary: i P C)
  case 0
  then have "{1..n} - P = {}" by simp
  with 0 show ?case by blast
next
  case (Suc k)
  let ?E = "joined R n"
  let ?f = "\<lambda>col st. if (R i col = REL_OK \<or> R i col = REL_NOT_GLUED) \<and> col \<notin> fst st
                    then find_connected k R n col st else Inr st"
  have less: "card ({1..n} - Q) \<le> k" if "insert i P \<subseteq> Q" for Q
  proof -
    have "{1..n} - Q \<subset> {1..n} - P" using that Suc.prems(1,2) by blast
    then have "card ({1..n} - Q) < card ({1..n} - P)" by (simp add: psubset_card_mono)
    with Suc.prems(3) show ?thesis by simp
  qed
  have "\<exists>X. loop ?f [1..<Suc n] (insert i P, insert i C) = Inr (insert i P \<union> X, insert i C \<union> X) \<and>
      X \<subseteq> ?E\<^sup>* `` {i} \<and> X \<inter> insert i P = {} \<and> ?E `` X \<subseteq> insert i P \<union> X \<and>
      ?E `` {i} \<inter> set [1..<Suc n] \<subseteq> insert i P \<union> X"
  proof (rule find_connected_loop [where ?P0.0 = "insert i P"])
    fix col Q D
    assume "col \<in> set [1..<Suc n]" "(i, col) \<in> ?E" "col \<notin> Q" "insert i P \<subseteq> Q"
    then show "\<exists>X. ?f col (Q, D) = Inr (Q \<union> X, D \<union> X) \<and> explored ?E Q col X"
      using Suc.IH [of col Q D] less [of Q] by (auto simp: joined_def)
  qed (use Suc.prems(1) in \<open>auto simp: joined_def\<close>)
  then obtain X where X: "find_connected (Suc k) R n i (P, C) = Inr (insert i P \<union> X, insert i C \<union> X)"
    "X \<subseteq> ?E\<^sup>* `` {i}" "X \<inter> insert i P = {}" "?E `` X \<subseteq> insert i P \<union> X"
    "?E `` {i} \<inter> set [1..<Suc n] \<subseteq> insert i P \<union> X" by auto
  have "?E `` {i} \<subseteq> set [1..<Suc n]" by (auto simp: joined_def)
  with X(4,5) have "?E `` insert i X \<subseteq> insert i P \<union> X" by blast
  from explored_insert [OF X(2,3) this] X(1) show ?case by (intro exI [of _ "insert i X"]) simp
qed

text \<open>
  Between searches the processed rows are closed: then a search adds exactly what is reached from
  its row, when the relation is symmetric.
\<close>

lemma explored_closed:
  assumes X: "explored E P i X" and P: "E `` P \<subseteq> P" and "sym E" and "i \<notin> P"
  shows "X = E\<^sup>* `` {i}"
proof -
  have closed: "E `` (P \<union> X) \<subseteq> P \<union> X" using X P by (auto simp: explored_def)
  have "j \<in> P \<union> X" if "(i, j) \<in> E\<^sup>*" for j
    using that by induction (use X closed in \<open>auto simp: explored_def\<close>)
  moreover have "j \<notin> P" if "(i, j) \<in> E\<^sup>*" for j
  proof
    assume "j \<in> P"
    from that \<open>sym E\<close> have "(j, i) \<in> E\<^sup>*" by (meson sym_rtrancl symD)
    then have "i \<in> P" by induction (use \<open>j \<in> P\<close> P in auto)
    with \<open>i \<notin> P\<close> show False by simp
  qed
  ultimately show ?thesis using X by (auto simp: explored_def)
qed

text \<open>
  The other search, for a row of W: it stops at the first one it can go to, else it has been at
  everything it can reach and W is not there.
\<close>

definition sought :: "nat rel \<Rightarrow> nat set \<Rightarrow> nat set \<Rightarrow> nat \<Rightarrow> bool \<times> nat set \<Rightarrow> bool" where
  "sought E W P i r = (if fst r then E\<^sup>+ `` {i} \<inter> W \<noteq> {}
     else P \<subseteq> snd r \<and> i \<in> snd r \<and> snd r \<inter> W = {} \<and> E `` (snd r - P) \<subseteq> snd r)"

lemma sought_found [simp]: "sought E W P i (True, Q) = (E\<^sup>+ `` {i} \<inter> W \<noteq> {})"
  by (simp add: sought_def)

text \<open>The same for the columns a loop from the row i has been over.\<close>

definition passed :: "nat rel \<Rightarrow> nat set \<Rightarrow> nat set \<Rightarrow> nat \<Rightarrow> nat set \<Rightarrow> bool \<times> nat set \<Rightarrow> bool" where
  "passed E W P i cols r = (if fst r then E\<^sup>+ `` {i} \<inter> W \<noteq> {}
     else P \<subseteq> snd r \<and> snd r \<inter> W = {} \<and> E `` (snd r - P) \<subseteq> snd r \<and> E `` {i} \<inter> cols \<subseteq> snd r)"

lemma passed_skip:
  "passed E W P i cols r \<Longrightarrow> (i, col) \<notin> E \<or> col \<in> P \<Longrightarrow> passed E W P i (insert col cols) r"
  by (auto simp: passed_def split: if_splits)

lemma passed_step:
  assumes "sought E W P col (False, Q)" and "passed E W Q i cols r"
  shows "passed E W P i (insert col cols) r"
proof (cases "fst r")
  case False
  with assms have Q: "P \<subseteq> Q" "col \<in> Q" "E `` (Q - P) \<subseteq> Q"
    and r: "Q \<subseteq> snd r" "snd r \<inter> W = {}" "E `` (snd r - Q) \<subseteq> snd r" "E `` {i} \<inter> cols \<subseteq> snd r"
    by (auto simp: sought_def passed_def)
  have "E `` (snd r - P) \<subseteq> snd r" using Q r by blast
  moreover have "E `` {i} \<inter> insert col cols \<subseteq> snd r" using Q r by blast
  ultimately show ?thesis using False Q r by (auto simp: passed_def)
qed (use assms in \<open>simp add: passed_def\<close>)

lemma passed_found: "(i, col) \<in> E \<Longrightarrow> sought E W P' col (True, Q') \<or> col \<in> W \<Longrightarrow> passed E W P i cols (True, Q)"
  by (auto simp: passed_def intro: trancl_into_trancl2)

lemma passed_sought:
  assumes "passed E W (insert i P) i cols r" and "E `` {i} \<subseteq> cols"
  shows "sought E W P i r"
proof (cases "fst r")
  case False
  with assms(1) have r: "insert i P \<subseteq> snd r" "snd r \<inter> W = {}" "E `` (snd r - insert i P) \<subseteq> snd r"
    "E `` {i} \<inter> cols \<subseteq> snd r" by (auto simp: passed_def)
  have "E `` (snd r - P) \<subseteq> snd r" using r assms(2) by blast
  with False r show ?thesis by (simp add: sought_def)
qed (use assms in \<open>simp add: passed_def sought_def\<close>)

lemma found_stays: "(\<And>col st. fst st \<Longrightarrow> f col st = Inr st) \<Longrightarrow> loop f cols (True, P) = Inr (True, P)"
  by (induction cols) simp_all

lemma has_any_loop:
  assumes step: "\<And>col P. col \<in> set cols \<Longrightarrow> (i, col) \<in> E \<Longrightarrow> col \<notin> P \<Longrightarrow> col \<notin> W \<Longrightarrow> P0 \<subseteq> P \<Longrightarrow> P \<inter> W = {} \<Longrightarrow>
      \<exists>r. f col (False, P) = Inr r \<and> sought E W P col r"
    and hit: "\<And>col P. col \<in> set cols \<Longrightarrow> (i, col) \<in> E \<Longrightarrow> col \<notin> P \<Longrightarrow> col \<in> W \<Longrightarrow> f col (False, P) = Inr (True, P)"
    and skip: "\<And>col P. col \<in> set cols \<Longrightarrow> (i, col) \<notin> E \<or> col \<in> P \<Longrightarrow> f col (False, P) = Inr (False, P)"
    and stop: "\<And>col st. fst st \<Longrightarrow> f col st = Inr st"
    and P: "P0 \<subseteq> P" "P \<inter> W = {}"
  shows "\<exists>r. loop f cols (False, P) = Inr r \<and> passed E W P i (set cols) r"
  using assms
proof (induction cols arbitrary: P)
  case Nil
  then show ?case by (simp add: passed_def)
next
  case (Cons col cols)
  have IH: "\<exists>r. loop f cols (False, P') = Inr r \<and> passed E W P' i (set cols) r" if "P0 \<subseteq> P'" "P' \<inter> W = {}" for P'
    by (rule Cons.IH) (use Cons.prems(1-4) that in auto)
  consider "(i, col) \<notin> E \<or> col \<in> P" | "(i, col) \<in> E" "col \<notin> P" "col \<in> W" | "(i, col) \<in> E" "col \<notin> P" "col \<notin> W"
    by blast
  then show ?case
  proof cases
    case 1
    then have "f col (False, P) = Inr (False, P)" using Cons.prems(3) [of col P] by simp
    with IH [OF Cons.prems(5,6)] 1 show ?thesis by (auto intro: passed_skip)
  next
    case 2
    then have "f col (False, P) = Inr (True, P)" using Cons.prems(2) [of col P] by simp
    with 2 show ?thesis by (simp add: found_stays [OF Cons.prems(4)] passed_found)
  next
    case 3
    with Cons.prems(1) [of col P] Cons.prems(5,6) obtain b Q where
      r: "f col (False, P) = Inr (b, Q)" "sought E W P col (b, Q)" by auto
    show ?thesis
    proof (cases b)
      case True
      with r 3 show ?thesis using found_stays [where f = f and cols = cols and P = Q] Cons.prems(4) passed_found [of i col E W P Q] by simp
    next
      case False
      with r(2) have Q: "P \<subseteq> Q" "Q \<inter> W = {}" by (auto simp: sought_def)
      from IH [OF subset_trans [OF Cons.prems(5) Q(1)] Q(2)] obtain r' where
        r': "loop f cols (False, Q) = Inr r'" "passed E W Q i (set cols) r'" by blast
      from passed_step [OF _ r'(2)] r False r'(1) show ?thesis by auto
    qed
  qed
qed

lemma has_any_connection_seeks:
  assumes "i \<in> {1..n}" and "i \<notin> P" and "i \<notin> W" and "P \<inter> W = {}" and "card ({1..n} - P) \<le> k"
  shows "\<exists>r. has_any_connection k R n W i P = Inr r \<and> sought (related R n) W P i r"
  using assms
proof (induction k arbitrary: i P)
  case 0
  then have "{1..n} - P = {}" by simp
  with 0 show ?case by blast
next
  case (Suc k)
  let ?E = "related R n"
  let ?f = "\<lambda>col st. if fst st then Inr st
                    else if R i col \<noteq> REL_NOT_CONNECTED \<and> col \<notin> snd st
                    then (if col \<in> W then Inr (True, snd st) else has_any_connection k R n W col (snd st))
                    else Inr st"
  have less: "card ({1..n} - Q) \<le> k" if "insert i P \<subseteq> Q" for Q
  proof -
    have "{1..n} - Q \<subset> {1..n} - P" using that Suc.prems(1,2) by blast
    then have "card ({1..n} - Q) < card ({1..n} - P)" by (simp add: psubset_card_mono)
    with Suc.prems(5) show ?thesis by simp
  qed
  have "\<exists>r. loop ?f [1..<Suc n] (False, insert i P) = Inr r \<and> passed ?E W (insert i P) i (set [1..<Suc n]) r"
  proof (rule has_any_loop [where ?P0.0 = "insert i P"])
    fix col Q
    assume "col \<in> set [1..<Suc n]" "(i, col) \<in> ?E" "col \<notin> Q" "col \<notin> W" "insert i P \<subseteq> Q" "Q \<inter> W = {}"
    then show "\<exists>r. ?f col (False, Q) = Inr r \<and> sought ?E W Q col r"
      using Suc.IH [of col Q] less [of Q] by (auto simp: related_def)
  qed (use Suc.prems(1,3,4) in \<open>auto simp: related_def\<close>)
  then obtain r where r: "has_any_connection (Suc k) R n W i P = Inr r"
    "passed ?E W (insert i P) i (set [1..<Suc n]) r" by auto
  have "?E `` {i} \<subseteq> set [1..<Suc n]" by (auto simp: related_def)
  from passed_sought [OF r(2) this] r(1) show ?case by blast
qed

lemma has_any_connection_iff:
  assumes "i \<in> {1..n}" and "i \<notin> W"
  shows "\<exists>P. has_any_connection n R n W i {} = Inr ((related R n)\<^sup>* `` {i} \<inter> W \<noteq> {}, P)"
proof -
  let ?E = "related R n"
  from has_any_connection_seeks [of i n "{}" W n R] assms obtain b Q where
    r: "has_any_connection n R n W i {} = Inr (b, Q)" "sought ?E W {} i (b, Q)" by auto
  have "?E\<^sup>* `` {i} = insert i (?E\<^sup>+ `` {i})"
    by (auto simp: rtrancl_eq_or_trancl)
  moreover have "?E\<^sup>* `` {i} \<subseteq> Q" if "\<not> b"
  proof
    fix j assume "j \<in> ?E\<^sup>* `` {i}"
    then have "(i, j) \<in> ?E\<^sup>*" by simp
    then show "j \<in> Q" by induction (use r(2) that in \<open>auto simp: sought_def\<close>)
  qed
  ultimately have "b = (?E\<^sup>* `` {i} \<inter> W \<noteq> {})"
    using r(2) assms by (cases b) (auto simp: sought_def)
  with r(1) show ?thesis by auto
qed

section \<open>The largest set and the isolated rows\<close>

definition largest_step ::
  "relations \<Rightarrow> nat \<Rightarrow> nat \<Rightarrow> nat set \<times> nat set \<Rightarrow> (block_stop, nat set \<times> nat set) result" where
  "largest_step R n ibl st =
     (if ibl \<in> fst st then Inr st
      else bind_result (find_connected n R n ibl (fst st, {})) (\<lambda>(processed, current).
             Inr (processed, if card (snd st) < card current then current else snd st)))"

definition largest_set :: "relations \<Rightarrow> nat \<Rightarrow> (block_stop, nat set) result" where
  "largest_set R n = bind_result (loop (largest_step R n) [1..<Suc n] ({}, {})) (\<lambda>st. Inr (snd st))"

definition isolated_rows :: "relations \<Rightarrow> nat \<Rightarrow> nat set \<Rightarrow> (block_stop, nat list) result" where
  "isolated_rows R n largest =
     loop (\<lambda>ibl rows. if ibl \<in> largest then Inr rows
             else bind_result (has_any_connection n R n largest ibl {})
                    (\<lambda>r. Inr (if fst r then rows else rows @ [ibl])))
       [1..<Suc n] []"

definition component :: "relations \<Rightarrow> nat \<Rightarrow> nat \<Rightarrow> nat set" where
  "component R n i = (joined R n)\<^sup>* `` {i}"

definition symmetric :: "relations \<Rightarrow> bool" where
  "symmetric R = (\<forall>i j. R i j = R j i)"

lemma sym_joined: "symmetric R \<Longrightarrow> sym (joined R n)"
  by (auto simp: symmetric_def joined_def intro: symI)

lemma table_rows: "set [1..<Suc n] = {1..n}"
  by auto

lemma component_closed: "joined R n `` component R n i \<subseteq> component R n i"
  by (auto simp: component_def)

lemma component_bounds: "i \<in> {1..n} \<Longrightarrow> component R n i \<subseteq> {1..n}"
proof
  fix j assume "i \<in> {1..n}" and "j \<in> component R n i"
  from this(2) have "(i, j) \<in> (joined R n)\<^sup>*" by (simp add: component_def)
  then show "j \<in> {1..n}" by induction (use \<open>i \<in> {1..n}\<close> in \<open>auto simp: joined_def\<close>)
qed

lemma finite_component: "i \<in> {1..n} \<Longrightarrow> finite (component R n i)"
  by (rule finite_subset [OF component_bounds]) simp_all

lemma component_self [simp]: "i \<in> component R n i"
  by (simp add: component_def)

lemma component_eq:
  assumes "symmetric R" and "j \<in> component R n i"
  shows "component R n j = component R n i"
proof -
  from assms have "(i, j) \<in> (joined R n)\<^sup>*" and "(j, i) \<in> (joined R n)\<^sup>*"
    using sym_rtrancl [OF sym_joined] by (auto simp: component_def dest: symD)
  then show ?thesis by (auto simp: component_def dest: rtrancl_trans)
qed

lemma find_connected_component:
  assumes "symmetric R" and "i \<in> {1..n}" and "joined R n `` P \<subseteq> P" and "i \<notin> P"
  shows "find_connected n R n i (P, {}) = Inr (P \<union> component R n i, component R n i)"
proof -
  have "card ({1..n} - P) \<le> n" using card_mono [of "{1..n}" "{1..n} - P"] by simp
  from find_connected_explores [OF assms(2,4) this] obtain X where
    X: "find_connected n R n i (P, {}) = Inr (P \<union> X, {} \<union> X)" "explored (joined R n) P i X" by blast
  from explored_closed [OF X(2) assms(3) sym_joined [OF assms(1)] assms(4)] X(1)
  show ?thesis by (simp add: component_def)
qed

text \<open>The rows processed after some rows are their components; the set kept is the largest of them.\<close>

definition best_of :: "relations \<Rightarrow> nat \<Rightarrow> nat set \<Rightarrow> nat set \<times> nat set \<Rightarrow> bool" where
  "best_of R n rows st = (fst st = (\<Union>i \<in> rows. component R n i) \<and>
     (if rows = {} then snd st = {}
      else (\<exists>m \<in> rows. snd st = component R n m) \<and> (\<forall>i \<in> rows. card (component R n i) \<le> card (snd st))))"

lemma largest_step_best:
  assumes R: "symmetric R" and i: "i \<in> {1..n}" and rows: "rows \<subseteq> {1..n}" and st: "best_of R n rows st"
  shows "\<exists>st'. largest_step R n i st = Inr st' \<and> best_of R n (insert i rows) st'"
proof (cases "i \<in> fst st")
  case True
  with st obtain j where j: "j \<in> rows" "i \<in> component R n j" by (auto simp: best_of_def)
  from component_eq [OF R j(2)] have same: "component R n i = component R n j" .
  from j(1) have ne: "rows \<noteq> {}" by blast
  have "best_of R n (insert i rows) st"
    using st j(1) ne unfolding best_of_def same by (auto simp: same)
  then show ?thesis using True by (simp add: largest_step_def)
next
  case False
  from st have "fst st = (\<Union>j \<in> rows. component R n j)" by (simp add: best_of_def)
  then have closed: "joined R n `` fst st \<subseteq> fst st" by (simp add: Image_UN UN_mono component_closed)
  from find_connected_component [OF R i closed False]
  have run: "largest_step R n i st = Inr (fst st \<union> component R n i,
      if card (snd st) < card (component R n i) then component R n i else snd st)"
    using False by (simp add: largest_step_def)
  have "0 < card (component R n i)" using finite_component [OF i, of R] component_self [of i R n] unfolding card_gt_0_iff by blast
  with st have "best_of R n (insert i rows) (fst st \<union> component R n i,
      if card (snd st) < card (component R n i) then component R n i else snd st)"
    unfolding best_of_def by (auto split: if_splits)
  with run show ?thesis by blast
qed

lemma largest_set_component:
  assumes R: "symmetric R" and n: "1 \<le> n"
  shows "\<exists>m \<in> {1..n}. largest_set R n = Inr (component R n m) \<and>
    (\<forall>i \<in> {1..n}. card (component R n i) \<le> card (component R n m))"
proof -
  have "\<exists>st'. loop (largest_step R n) cols st = Inr st' \<and> best_of R n (rows \<union> set cols) st'"
    if "set cols \<subseteq> {1..n}" "rows \<subseteq> {1..n}" "best_of R n rows st" for cols rows st
    using that
  proof (induction cols arbitrary: rows st)
    case (Cons col cols)
    from largest_step_best [OF R _ Cons.prems(2,3), of col] Cons.prems(1) obtain st' where
      st': "largest_step R n col st = Inr st'" "best_of R n (insert col rows) st'" by auto
    from Cons.IH [OF _ _ st'(2)] Cons.prems(1,2) st'(1) show ?case by auto
  qed simp
  from this [OF equalityD1 [OF table_rows], of "{}" "({}, {})", unfolded table_rows] obtain st where
    st: "loop (largest_step R n) [1..<Suc n] ({}, {}) = Inr st" "best_of R n {1..n} st"
    by (auto simp: best_of_def [of R n "{}"] simp del: upt_Suc)
  have "{1..n} \<noteq> {}" using n by simp
  with st(2) obtain m where "m \<in> {1..n}" "snd st = component R n m"
    "\<forall>i \<in> {1..n}. card (component R n i) \<le> card (snd st)" unfolding best_of_def if_not_P [OF \<open>{1..n} \<noteq> {}\<close>] by blast
  with st(1) show ?thesis by (auto simp: largest_set_def simp del: upt_Suc)
qed

lemma isolated_rows_unrelated:
  "isolated_rows R n W = Inr (filter (\<lambda>i. i \<notin> W \<and> (related R n)\<^sup>* `` {i} \<inter> W = {}) [1..<Suc n])"
proof -
  let ?f = "\<lambda>ibl rows. if ibl \<in> W then Inr rows
             else bind_result (has_any_connection n R n W ibl {}) (\<lambda>r. Inr (if fst r then rows else rows @ [ibl]))"
  have "loop ?f cols acc = Inr (acc @ filter (\<lambda>i. i \<notin> W \<and> (related R n)\<^sup>* `` {i} \<inter> W = {}) cols)"
    if "set cols \<subseteq> {1..n}" for cols acc
    using that
  proof (induction cols arbitrary: acc)
    case (Cons col cols)
    show ?case
    proof (cases "col \<in> W")
      case False
      with has_any_connection_iff [of col n W R] Cons.prems obtain P where
        "has_any_connection n R n W col {} = Inr ((related R n)\<^sup>* `` {col} \<inter> W \<noteq> {}, P)" by auto
      with False Cons show ?thesis by simp
    qed (use Cons in simp)
  qed simp
  from this [OF equalityD1 [OF table_rows], of "[]"] show ?thesis by (simp add: isolated_rows_def del: upt_Suc)
qed

end
