(* ===== verification/Doubles.thy ===== *)
theory Doubles
  imports Complex_Main Prelude
begin

text \<open>
  IEEE doubles as the bindings use them: a finite value, an infinity or NaN. Comparison is
  exact; arithmetic goes through the rounding function, an argument, so that nothing proved here
  depends on the rounding mode. The two zeros are one value: no code modelled here tells them
  apart.
\<close>

datatype f64 = Fin rat | PInf | NInf | NaN

definition is_finite :: "f64 \<Rightarrow> bool" where
  "is_finite x = (case x of Fin _ \<Rightarrow> True | _ \<Rightarrow> False)"

definition is_nan :: "f64 \<Rightarrow> bool" where
  "is_nan x = (x = NaN)"

text \<open>\<open>x == y\<close> and \<open>x < y\<close>; both are false when an operand is NaN.\<close>

definition feq :: "f64 \<Rightarrow> f64 \<Rightarrow> bool" where
  "feq x y = (x = y \<and> x \<noteq> NaN)"

fun fless :: "f64 \<Rightarrow> f64 \<Rightarrow> bool" where
  "fless (Fin a) (Fin b) = (a < b)"
| "fless NaN y = False"
| "fless x NaN = False"
| "fless x NInf = False"
| "fless PInf y = False"
| "fless x y = True"

definition fle :: "f64 \<Rightarrow> f64 \<Rightarrow> bool" where
  "fle x y = (fless x y \<or> feq x y)"

text \<open>Arithmetic, with the result of a finite operation rounded by \<open>rnd\<close>.\<close>

type_synonym rounding = "rat \<Rightarrow> f64"

fun fneg :: "f64 \<Rightarrow> f64" where
  "fneg (Fin a) = Fin (- a)"
| "fneg PInf = NInf"
| "fneg NInf = PInf"
| "fneg NaN = NaN"

fun fadd :: "rounding \<Rightarrow> f64 \<Rightarrow> f64 \<Rightarrow> f64" where
  "fadd rnd (Fin a) (Fin b) = rnd (a + b)"
| "fadd rnd NaN y = NaN"
| "fadd rnd x NaN = NaN"
| "fadd rnd (Fin a) y = y"
| "fadd rnd x (Fin b) = x"
| "fadd rnd PInf PInf = PInf"
| "fadd rnd NInf NInf = NInf"
| "fadd rnd x y = NaN"

definition fsub :: "rounding \<Rightarrow> f64 \<Rightarrow> f64 \<Rightarrow> f64" where
  "fsub rnd x y = fadd rnd x (fneg y)"

fun fsign :: "f64 \<Rightarrow> int" where
  "fsign (Fin a) = (if a < 0 then -1 else if a = 0 then 0 else 1)"
| "fsign PInf = 1"
| "fsign NInf = -1"
| "fsign NaN = 0"

fun fmul :: "rounding \<Rightarrow> f64 \<Rightarrow> f64 \<Rightarrow> f64" where
  "fmul rnd (Fin a) (Fin b) = rnd (a * b)"
| "fmul rnd x y = (if x = NaN \<or> y = NaN \<or> fsign x * fsign y = 0 then NaN
                   else if 0 < fsign x * fsign y then PInf else NInf)"

fun fabs :: "f64 \<Rightarrow> f64" where
  "fabs (Fin a) = Fin (if a < 0 then - a else a)"
| "fabs NInf = PInf"
| "fabs x = x"

abbreviation "f0 \<equiv> Fin 0"

text \<open>\<^verbatim>\<open>Precision::Confusion ()\<close>, the double nearest to 1e-7.\<close>

definition confusion :: f64 where
  "confusion = Fin (944473296573929 / 2 ^ 73)"

text \<open>\<^verbatim>\<open>kPi\<close>.\<close>

definition kPi :: f64 where
  "kPi = Fin (884279719003555 / 281474976710656)"

lemma is_finite_simps [simp]:
  "is_finite (Fin a)" "\<not> is_finite PInf" "\<not> is_finite NInf" "\<not> is_finite NaN"
  by (simp_all add: is_finite_def)

lemma is_finiteE: "is_finite x \<Longrightarrow> (\<And>a. x = Fin a \<Longrightarrow> P) \<Longrightarrow> P"
  by (cases x) auto

lemma feq_simps [simp]:
  "feq (Fin a) (Fin b) = (a = b)" "feq NaN y = False" "feq x NaN = False"
  by (auto simp: feq_def)

lemma fless_irrefl [simp]: "\<not> fless x x"
  by (cases x) simp_all

lemma fless_trans: "fless x y \<Longrightarrow> fless y z \<Longrightarrow> fless x z"
  by (cases x; cases y; cases z) auto

lemma fless_not_sym: "fless x y \<Longrightarrow> \<not> fless y x"
  by (cases x; cases y) auto

lemma fless_total_finite:
  "is_finite x \<Longrightarrow> is_finite y \<Longrightarrow> fless x y \<or> x = y \<or> fless y x"
  by (cases x; cases y) auto

lemma fless_feq: "fless x y \<Longrightarrow> \<not> feq x y"
  by (auto simp: feq_def)

end
