(* ===== verification/BlockCheck.thy ===== *)
theory BlockCheck
  imports BlockSearch Commit Doubles
begin

text \<open>
  The check that a compound is one of glued blocks (\<^verbatim>\<open>session_blocks.cpp\<close>, "check_blocks"):
  the sorting of the solids into blocks and others, the table of their relations, the errors, and
  the session's method over it. OCCT is a record of functions, and each of them may throw.
\<close>

section \<open>What the check asks of OCCT\<close>

type_synonym vec = "f64 \<times> f64 \<times> f64"

text \<open>
  \<^verbatim>\<open>BRepTools_WireExplorer\<close>, \<^verbatim>\<open>BRep_Tool::Degenerated\<close>, \<^verbatim>\<open>TopExp::CommonVertex\<close>, the first
  derivative of an edge's curve at a vertex, \<^verbatim>\<open>gp_Vec::Angle\<close>, \<^verbatim>\<open>BlockFix_CheckTool\<close>,
  \<^verbatim>\<open>TopExp_Explorer (s, kind, avoid)\<close>, and \<^verbatim>\<open>GEOMAlgo_GlueAnalyser\<close>: its error status, and the
  pairs of solids to glue.
\<close>

record block_tools =
  wire_edges :: "shape \<Rightarrow> shape \<Rightarrow> string + shape list"
  degenerated :: "shape \<Rightarrow> bool"
  common_vertex :: "shape \<Rightarrow> shape \<Rightarrow> string + shape option"
  tangent :: "shape \<Rightarrow> shape \<Rightarrow> string + vec"
  vec_angle :: "vec \<Rightarrow> vec \<Rightarrow> string + f64"
  possible_blocks :: "shape \<Rightarrow> f64 \<Rightarrow> string + nat"
  explore_avoiding :: "shape \<Rightarrow> shape_enum \<Rightarrow> shape_enum \<Rightarrow> shape list"
  glue_analysis :: "shape list \<Rightarrow> string + int \<times> (shape \<times> shape) list"

definition thrown :: "string + 'a \<Rightarrow> (block_stop, 'a) result" where
  "thrown r = (case r of Inl t \<Rightarrow> Inl (Threw t) | Inr x \<Rightarrow> Inr x)"

lemma thrown_simps [simp, result_simps]: "thrown (Inl t) = Inl (Threw t)" "thrown (Inr x) = Inr x"
  by (simp_all add: thrown_def)

section \<open>Quadrangles\<close>

definition vec_reversed :: "vec \<Rightarrow> vec" where
  "vec_reversed v = (case v of (x, y, z) \<Rightarrow> (fneg x, fneg y, fneg z))"

text \<open>The tangent of an edge at a vertex, along the edge's own direction.\<close>

definition directed :: "shape \<Rightarrow> vec \<Rightarrow> vec" where
  "directed e v = (if orient e = REVERSED then vec_reversed v else v)"

text \<open>The loop over the pairs of edges: the number of sharp corners must be 4.\<close>

fun four_corners :: "block_tools \<Rightarrow> f64 \<Rightarrow> shape \<Rightarrow> shape list \<Rightarrow> nat \<Rightarrow> (block_stop, bool) result" where
  "four_corners bt tol e1 [] corners = Inr (corners = 4)"
| "four_corners bt tol e1 (e2 # es) corners =
     bind_result (thrown (common_vertex bt e1 e2)) (\<lambda>common.
       case common of
         None \<Rightarrow> Inr False
       | Some v \<Rightarrow>
           bind_result (thrown (tangent bt e1 v)) (\<lambda>v1.
           bind_result (thrown (tangent bt e2 v)) (\<lambda>v2.
           bind_result (thrown (vec_angle bt (directed e1 v1) (directed e2 v2))) (\<lambda>angle.
             let corners' = (if fless tol angle then corners + 1 else corners)
             in if 4 < corners' then Inr False else four_corners bt tol e2 es corners'))))"

definition is_quadrangle :: "occt \<Rightarrow> block_tools \<Rightarrow> f64 \<Rightarrow> shape \<Rightarrow> (block_stop, bool) result" where
  "is_quadrangle oc bt tol face =
     (case explore oc face WIRE of
        [] \<Rightarrow> Inr False
      | w # _ # _ \<Rightarrow> Inr False
      | [w] \<Rightarrow>
          (let edges = length (append_all [] (explore oc w EDGE))
           in if edges < 4 then Inr False
              else if edges = 4 then Inr True
              else if fless tol f0 then Inr False
              else bind_result (thrown (wire_edges bt w face)) (\<lambda>es.
                let es' = filter (\<lambda>e. \<not> degenerated bt e) es
                in if length es' < 4 then Inr False
                   else four_corners bt tol (hd es') (tl es' @ [hd es']) 0)))"

section \<open>Blocks and others\<close>

record block_lists =
  bl_blocks :: "shape list"
  bl_not :: "shape list"
  bl_ext :: "shape list"
  bl_noq :: "shape list"

text \<open>The faces of a shape, each once; those that are no quadrangles go to the list.\<close>

definition check_faces ::
  "occt \<Rightarrow> block_tools \<Rightarrow> f64 \<Rightarrow> shape \<Rightarrow> block_lists \<Rightarrow> (block_stop, nat \<times> bool \<times> block_lists) result" where
  "check_faces oc bt tol s bl =
     (let faces = append_all [] (explore oc s FACE)
      in loop (\<lambda>f st. bind_result (is_quadrangle oc bt tol f) (\<lambda>quad.
             let (nb, non_quad, b) = st
             in Inr (if quad then (nb + 1, non_quad, b)
                     else (nb + 1, True, b\<lparr>bl_noq := bl_noq b @ [f]\<rparr>))))
           faces (0, False, bl))"

definition add_solid ::
  "occt \<Rightarrow> block_tools \<Rightarrow> f64 \<Rightarrow> shape \<Rightarrow> block_lists \<Rightarrow> (block_stop, block_lists) result" where
  "add_solid oc bt tol s bl =
     bind_result (thrown (possible_blocks bt s tol)) (\<lambda>n.
       if 0 < n then Inr (bl\<lparr>bl_ext := bl_ext bl @ [s]\<rparr>)
       else bind_result (check_faces oc bt tol s bl) (\<lambda>(nb, non_quad, b).
         Inr (if nb = 6 \<and> \<not> non_quad then b\<lparr>bl_blocks := bl_blocks b @ [s]\<rparr>
              else b\<lparr>bl_not := bl_not b @ [s]\<rparr>)))"

fun add_blocks_from ::
    "occt \<Rightarrow> block_tools \<Rightarrow> f64 \<Rightarrow> shape \<Rightarrow> block_lists \<Rightarrow> (block_stop, block_lists) result"
  and add_blocks_from_each ::
    "occt \<Rightarrow> block_tools \<Rightarrow> f64 \<Rightarrow> shape list \<Rightarrow> block_lists \<Rightarrow> (block_stop, block_lists) result" where
  "add_blocks_from oc bt tol (Shape t l r k cs) bl =
     (let s = Shape t l r k cs
      in if k = COMPOUND \<or> k = COMPSOLID then add_blocks_from_each oc bt tol cs bl
         else if k = SOLID then add_solid oc bt tol s bl
         else if k = SHELL \<or> k = FACE
              then bind_result (check_faces oc bt tol s bl) (\<lambda>(nb, non_quad, b). Inr b)
         else Inr (bl\<lparr>bl_not := bl_not bl @ [s]\<rparr>))"
| "add_blocks_from_each oc bt tol [] bl = Inr bl"
| "add_blocks_from_each oc bt tol (c # cs) bl =
     (case add_blocks_from oc bt tol c bl of Inl e \<Rightarrow> Inl e
      | Inr bl' \<Rightarrow> add_blocks_from_each oc bt tol cs bl')"

section \<open>The relations between blocks\<close>

text \<open>\<^verbatim>\<open>GEOMImpl_Block6Explorer::MapShapesAndAncestors\<close>, as the list of the keys with their lists.\<close>

type_synonym ancestors = "(shape \<times> shape list) list"

fun add_ancestor :: "shape \<Rightarrow> shape \<Rightarrow> ancestors \<Rightarrow> ancestors" where
  "add_ancestor anc s [] = [(s, [anc])]"
| "add_ancestor anc s ((k, ancs) # m) =
     (if is_same k s then (k, ancs @ [anc]) # m else (k, ancs) # add_ancestor anc s m)"

definition map_ancestors :: "occt \<Rightarrow> block_tools \<Rightarrow> shape \<Rightarrow> shape_enum \<Rightarrow> shape_enum \<Rightarrow> ancestors" where
  "map_ancestors oc bt s ts ta =
     (let under = fold (\<lambda>anc m. fold (add_ancestor anc) (append_all [] (explore oc anc ts)) m)
                    (append_all [] (explore oc s ta)) []
      in fold (\<lambda>x m. if list_ex (\<lambda>(k, ancs). is_same k x) m then m else m @ [(x, [])])
           (explore_avoiding bt s ts ta) under)"

text \<open>\<^verbatim>\<open>TopTools_IndexedMapOfShape::FindIndex\<close>: from 1, and 0 for a key it does not have.\<close>

definition index_in :: "shape list \<Rightarrow> shape \<Rightarrow> nat" where
  "index_in keys s = (if list_ex (\<lambda>k. is_same k s) keys
     then Suc (length (takeWhile (\<lambda>k. \<not> is_same k s) keys)) else 0)"

text \<open>The blocks of one face: each with the one before it.\<close>

fun glue_row :: "nat \<Rightarrow> shape list \<Rightarrow> shape list \<Rightarrow> relations \<Rightarrow> (block_stop, relations) result" where
  "glue_row n keys (a # b # bs) R =
     (case set_relation n (index_in keys a) (index_in keys b) REL_OK R of
        Inl e \<Rightarrow> Inl e | Inr R' \<Rightarrow> glue_row n keys (b # bs) R')"
| "glue_row n keys _ R = Inr R"

definition glued_relations :: "nat \<Rightarrow> shape list \<Rightarrow> ancestors \<Rightarrow> (block_stop, relations) result" where
  "glued_relations n keys faces = loop (\<lambda>(f, bs). glue_row n keys bs) faces rel_init"

datatype bc_error_type = NOT_BLOCK | EXTRA_EDGE | INVALID_CONNECTION | NOT_CONNECTED | NOT_GLUED

text \<open>GEOM's order; the code of \<^verbatim>\<open>NOT_GLUED\<close> is what the relation table is given.\<close>

definition bc_error_code :: "bc_error_type \<Rightarrow> int" where
  "bc_error_code e = (case e of NOT_BLOCK \<Rightarrow> 0 | EXTRA_EDGE \<Rightarrow> 1 | INVALID_CONNECTION \<Rightarrow> 2
     | NOT_CONNECTED \<Rightarrow> 3 | NOT_GLUED \<Rightarrow> 4)"

definition bc_error_name :: "int \<Rightarrow> string" where
  "bc_error_name e = (if e = 0 then ''NOT_BLOCK'' else if e = 1 then ''EXTRA_EDGE''
     else if e = 2 then ''INVALID_CONNECTION'' else if e = 3 then ''NOT_CONNECTED''
     else if e = 4 then ''NOT_GLUED'' else ''UNKNOWN'')"

record bc_error =
  be_error :: bc_error_type
  be_incriminated :: "shape list"

definition unglued_relations ::
  "nat \<Rightarrow> shape list \<Rightarrow> (shape \<times> shape) list \<Rightarrow> relations \<Rightarrow> (block_stop, relations) result" where
  "unglued_relations n keys pairs R =
     loop (\<lambda>(a, b). set_relation n (index_in keys a) (index_in keys b) (bc_error_code NOT_GLUED)) pairs R"

section \<open>The check\<close>

text \<open>The failure text of the glue analyser, by the code it names.\<close>

datatype check_failure = AnalyserFailed int

text \<open>Steps 2 to 5 of the check: whether all is glued and connected, the errors, the failure.\<close>

definition check_relations ::
  "occt \<Rightarrow> block_tools \<Rightarrow> nat \<Rightarrow> shape list \<Rightarrow>
   (block_stop, bool \<times> bc_error list \<times> check_failure option) result" where
  "check_relations oc bt addr blocks =
     (let n = length blocks; keys = append_all [] blocks;
          faces = map_ancestors oc bt (make_root addr blocks) FACE SOLID
      in bind_result (glued_relations n keys faces) (\<lambda>R.
         bind_result (thrown (glue_analysis bt blocks)) (\<lambda>(status, pairs).
         if status \<noteq> 0 then Inr (True, [], Some (AnalyserFailed status))
         else bind_result (unglued_relations n keys pairs R) (\<lambda>R'.
           bind_result (largest_set R' n) (\<lambda>largest.
           bind_result (isolated_rows R' n largest) (\<lambda>rows.
           bind_result (each (\<lambda>i. if i \<le> length keys then Inr (keys ! (i - 1)) else Inl OutOfRange) rows)
             (\<lambda>isolated.
               Inr (pairs = [] \<and> isolated = [],
                    map (\<lambda>(a, b). \<lparr>be_error = NOT_GLUED, be_incriminated = [a, b]\<rparr>) pairs @
                    (if isolated = [] then []
                     else [\<lparr>be_error = NOT_CONNECTED, be_incriminated = isolated\<rparr>]),
                    None))))))))"

text \<open>
  The loop over the children; \<open>going i\<close> is what \<^verbatim>\<open>steps->More()\<close> answers the i-th time it is
  asked, always yes without a progress.
\<close>

fun add_children ::
  "occt \<Rightarrow> block_tools \<Rightarrow> f64 \<Rightarrow> (nat \<Rightarrow> bool) \<Rightarrow> nat \<Rightarrow> shape list \<Rightarrow> block_lists \<Rightarrow>
   (block_stop, nat \<times> block_lists) result" where
  "add_children oc bt tol going i [] bl = Inr (i, bl)"
| "add_children oc bt tol going i (c # cs) bl =
     (if going i
      then bind_result (add_blocks_from oc bt tol c bl) (\<lambda>bl'. add_children oc bt tol going (Suc i) cs bl')
      else Inr (Suc i, bl))"

definition no_blocks :: block_lists where
  "no_blocks = \<lparr>bl_blocks = [], bl_not = [], bl_ext = [], bl_noq = []\<rparr>"

definition solid_errors :: "block_lists \<Rightarrow> bc_error list" where
  "solid_errors bl =
     (if bl_not bl = [] then [] else [\<lparr>be_error = NOT_BLOCK, be_incriminated = bl_not bl\<rparr>]) @
     (if bl_ext bl = [] then [] else [\<lparr>be_error = EXTRA_EDGE, be_incriminated = bl_ext bl\<rparr>])"

definition check_compound ::
  "occt \<Rightarrow> block_tools \<Rightarrow> f64 \<Rightarrow> (nat \<Rightarrow> bool) \<Rightarrow> nat \<Rightarrow> shape \<Rightarrow>
   (block_stop, bool \<times> bc_error list \<times> check_failure option) result" where
  "check_compound oc bt tol going addr cmp =
     bind_result (add_children oc bt tol going 0 (children cmp) no_blocks) (\<lambda>(i, bl).
       let ok = (bl_not bl = [] \<and> bl_ext bl = [] \<and> bl_blocks bl \<noteq> [])
       in if 1 < length (bl_blocks bl) \<and> going i
          then bind_result (check_relations oc bt addr (bl_blocks bl)) (\<lambda>(ok', errors, failure).
                 Inr (ok \<and> ok', solid_errors bl @ errors, failure))
          else Inr (ok, solid_errors bl, None))"

definition is_compound_of_blocks ::
  "occt \<Rightarrow> block_tools \<Rightarrow> f64 \<Rightarrow> nat \<Rightarrow> shape \<Rightarrow> (block_stop, bool) result" where
  "is_compound_of_blocks oc bt tol addr s =
     bind_result (check_compound oc bt tol (\<lambda>_. True) addr s) (\<lambda>(ok, errors, failure).
       Inr (ok \<and> failure = None))"

section \<open>The session's method\<close>

text \<open>\<^verbatim>\<open>ids_within\<close>: the ids on a shape, or else on its sub-shapes of the first kind that has any.\<close>

fun ids_by_kind :: "occt \<Rightarrow> session \<Rightarrow> shape \<Rightarrow> shape_enum list \<Rightarrow> entity_id list" where
  "ids_by_kind oc s sh [] = []"
| "ids_by_kind oc s sh (k # ks) =
     (let ids = concat (map (\<lambda>x. values_at (by_shape (live_registry s)) (skey x)) (map_shapes oc sh k))
      in if ids = [] then ids_by_kind oc s sh ks else ids)"

definition ids_within :: "occt \<Rightarrow> session \<Rightarrow> shape \<Rightarrow> entity_id list" where
  "ids_within oc s sh =
     (case map_of (by_shape (live_registry s)) (skey sh) of
        Some ids \<Rightarrow> ids
      | None \<Rightarrow> tidy (ids_by_kind oc s sh kEntityKinds))"

text \<open>\<^verbatim>\<open>ProgressHooks\<close>: what \<^verbatim>\<open>More()\<close> answers, and whether the caller cancelled in the end.\<close>

record progress =
  pr_more :: "nat \<Rightarrow> bool"
  pr_cancelled :: bool

datatype check_error =
    CheckRefused session_error
  | ToleranceNotFinite
  | HooksRefused string
  | NoBodyNamed
  | CheckCancelled
  | CheckThrew block_stop
  | CheckFailed check_failure

definition in_session :: "'a outcome \<Rightarrow> (check_error, 'a) result" where
  "in_session r = (case r of Inl e \<Rightarrow> Inl (CheckRefused e) | Inr x \<Rightarrow> Inr x)"

definition finding_of :: "occt \<Rightarrow> session \<Rightarrow> bc_error \<Rightarrow> string \<times> entity_id list" where
  "finding_of oc s e =
     (bc_error_name (bc_error_code (be_error e)), tidy (concat (map (ids_within oc s) (be_incriminated e))))"

text \<open>The bodies a call checks: all of them, or those of the entities it names.\<close>

definition checked_bodies :: "occt \<Rightarrow> entity_id list option \<Rightarrow> session \<Rightarrow> (check_error, shape list) result" where
  "checked_bodies oc ids s =
     (case ids of
        None \<Rightarrow> Inr (root_bodies (st_root (s_state s)))
      | Some [] \<Rightarrow> Inl NoBodyNamed
      | Some es \<Rightarrow> in_session (owner_bodies oc s es))"

definition check_blocks ::
  "occt \<Rightarrow> block_tools \<Rightarrow> entity_id list option \<Rightarrow> f64 \<Rightarrow> string + progress \<Rightarrow> session \<Rightarrow>
   (check_error, bool \<times> (string \<times> entity_id list) list) result" where
  "check_blocks oc bt ids tol hooks s =
     bind_result (require (is_finite tol) ToleranceNotFinite) (\<lambda>_.
     bind_result (case hooks of Inl t \<Rightarrow> Inl (HooksRefused t) | Inr h \<Rightarrow> Inr h) (\<lambda>h.
     bind_result (checked_bodies oc ids s) (\<lambda>bodies.
       let run = check_compound oc bt tol (pr_more h) (Suc (s_heap s)) (make_root (s_heap s) bodies)
       in if pr_cancelled h then Inl CheckCancelled
          else case run of
            Inl e \<Rightarrow> Inl (CheckThrew e)
          | Inr (ok, errors, Some f) \<Rightarrow> Inl (CheckFailed f)
          | Inr (ok, errors, None) \<Rightarrow> Inr (ok, map (finding_of oc s) errors))))"

end
