(* ===== verification/BlockChains.thy ===== *)
theory BlockChains
  imports BlockCheck
begin

text \<open>
  Propagation (\<^verbatim>\<open>propagation_chains\<close> and \<^verbatim>\<open>Session::propagation_chain\<close> of
  \<^verbatim>\<open>session_blocks.cpp\<close>): from an edge to the opposite edge of every wire of four edges that holds
  it, pass by pass. The order of a wire's edges (\<^verbatim>\<open>BRepTools_WireExplorer\<close>) and
  \<^verbatim>\<open>GEOMUtils::SortShapes\<close> are arguments.
\<close>

record chain_tools =
  walk_wire :: "shape \<Rightarrow> shape list"
  sort_shapes :: "shape list \<Rightarrow> shape list"

section \<open>Opposite edges\<close>

text \<open>The loop over a wire's edges: (nb, found, anEdges) when it ends.\<close>

fun scan_wire :: "shape \<Rightarrow> shape list \<Rightarrow> nat \<times> nat \<times> shape list \<Rightarrow> nat \<times> nat \<times> shape list" where
  "scan_wire e [] st = st"
| "scan_wire e (x # xs) (nb, found, edges) =
     (if 4 < nb then (nb, 0, edges)
      else scan_wire e xs (nb + 1, if is_same x e then nb else found, edges @ [x]))"

definition opposite_edge :: "shape list \<Rightarrow> shape \<Rightarrow> shape option" where
  "opposite_edge wire e =
     (let (nb, found, edges) = scan_wire e wire (1, 0, [])
      in if nb = 5 \<and> 0 < found
         then (let opp = found + 2; opp' = (if 4 < opp then opp - 4 else opp) in Some (edges ! (opp' - 1)))
         else None)"

section \<open>One chain\<close>

text \<open>The edges of the chain, those of this pass, and all accepted ones.\<close>

type_synonym pass_state = "shape list \<times> shape list \<times> shape list"

definition accept_edge :: "shape \<Rightarrow> pass_state \<Rightarrow> pass_state" where
  "accept_edge x st =
     (let (chain, current, accepted) = st
      in if list_ex (\<lambda>y. is_same y x) accepted then st
         else (chain @ [x], current @ [x], accepted @ [x]))"

text \<open>\<^verbatim>\<open>MEW.FindFromKey\<close>, which throws on a key it does not have.\<close>

definition ancestors_of :: "ancestors \<Rightarrow> shape \<Rightarrow> (block_stop, shape list) result" where
  "ancestors_of m s = (case find (\<lambda>(k, ancs). is_same k s) m of None \<Rightarrow> Inl OutOfRange | Some (k, ancs) \<Rightarrow> Inr ancs)"

definition pass_edge :: "chain_tools \<Rightarrow> ancestors \<Rightarrow> shape \<Rightarrow> pass_state \<Rightarrow> (block_stop, pass_state) result" where
  "pass_edge ct mew e st =
     bind_result (ancestors_of mew e) (\<lambda>wires.
       Inr (fold (\<lambda>w st. case opposite_edge (walk_wire ct w) e of None \<Rightarrow> st | Some x \<Rightarrow> accept_edge x st) wires st))"

text \<open>The passes, counted down.\<close>

fun grow_chain ::
  "nat \<Rightarrow> chain_tools \<Rightarrow> ancestors \<Rightarrow> shape list \<Rightarrow> shape list \<times> shape list \<Rightarrow>
   (block_stop, shape list \<times> shape list) result" where
  "grow_chain 0 ct mew prev st = Inl OutOfFuel"
| "grow_chain (Suc k) ct mew prev (chain, accepted) =
     (if prev = [] then Inr (chain, accepted)
      else bind_result (loop (pass_edge ct mew) prev (chain, [], accepted)) (\<lambda>(chain', current, accepted').
             grow_chain k ct mew current (chain', accepted')))"

definition build_chain ::
  "chain_tools \<Rightarrow> ancestors \<Rightarrow> shape \<Rightarrow> shape list \<Rightarrow> (block_stop, shape list \<times> shape list) result" where
  "build_chain ct mew e accepted =
     grow_chain (length mew + 2) ct mew [e] ([e], accepted @ [e])"

section \<open>All the chains\<close>

text \<open>\<^verbatim>\<open>aFirstInChains\<close>, \<^verbatim>\<open>aMapChains\<close> and \<^verbatim>\<open>mapAcceptedEdges\<close>; \<^verbatim>\<open>Bind\<close> replaces.\<close>

type_synonym chains_state = "shape list \<times> (shape_key \<times> shape list) list \<times> shape list"

definition add_chain ::
  "chain_tools \<Rightarrow> ancestors \<Rightarrow> shape \<Rightarrow> chains_state \<Rightarrow> (block_stop, chains_state) result" where
  "add_chain ct mew e st =
     (let (firsts, bound, accepted) = st
      in if list_ex (\<lambda>y. is_same y e) accepted then Inr st
         else bind_result (build_chain ct mew e accepted) (\<lambda>(chain, accepted').
           let sorted = sort_shapes ct chain
           in Inr (firsts @ [hd sorted], AList.update (skey (hd sorted)) sorted bound, accepted')))"

definition propagation_chains ::
  "occt \<Rightarrow> block_tools \<Rightarrow> chain_tools \<Rightarrow> shape \<Rightarrow> shape option \<Rightarrow> (block_stop, shape list list) result" where
  "propagation_chains oc bt ct s start =
     (let mew = map_ancestors oc bt s EDGE WIRE
      in bind_result
           (case start of
              None \<Rightarrow> loop (add_chain ct mew) (map fst mew) ([], [], [])
            | Some e \<Rightarrow>
                if mew = [] then Inr ([], [], [])
                else case find_key (map fst mew) e of
                       None \<Rightarrow> Inl OutOfRange
                     | Some x \<Rightarrow> add_chain ct mew x ([], [], []))
           (\<lambda>(firsts, bound, accepted).
              each (\<lambda>f. case map_of bound (skey f) of None \<Rightarrow> Inl OutOfRange | Some chain \<Rightarrow> Inr chain)
                (sort_shapes ct firsts)))"

definition propagation_chain ::
  "occt \<Rightarrow> block_tools \<Rightarrow> chain_tools \<Rightarrow> session \<Rightarrow> entity_id \<Rightarrow> (check_error, entity_id list) result" where
  "propagation_chain oc bt ct s edge_id =
     bind_result (in_session (sole_edge oc s edge_id)) (\<lambda>edge.
     case propagation_chains oc bt ct (st_root (s_state s)) (Some edge) of
       Inl e \<Rightarrow> Inl (CheckThrew e)
     | Inr [] \<Rightarrow> Inl (CheckThrew OutOfRange)
     | Inr (chain # _) \<Rightarrow>
         bind_result (in_session (each (label_of s) chain)) (\<lambda>ids. Inr (tidy ids)))"

section \<open>What a chain is\<close>

text \<open>From an edge to the opposite one in a wire of the map.\<close>

definition opposites_of :: "chain_tools \<Rightarrow> ancestors \<Rightarrow> shape \<Rightarrow> shape_key set" where
  "opposites_of ct mew e = (case ancestors_of mew e of Inl stop \<Rightarrow> {}
     | Inr wires \<Rightarrow> {skey x | x. \<exists>w \<in> set wires. opposite_edge (walk_wire ct w) e = Some x})"

definition opposite :: "chain_tools \<Rightarrow> ancestors \<Rightarrow> shape_key rel" where
  "opposite ct mew = {(skey e, k) | e k. k \<in> opposites_of ct mew e}"

lemma find_SomeD: "find P xs = Some x \<Longrightarrow> x \<in> set xs \<and> P x"
  by (auto simp: find_Some_iff)

lemma scan_wire_same: "is_same e e' \<Longrightarrow> scan_wire e xs st = scan_wire e' xs st"
  by (induction xs arbitrary: st) (auto simp: is_same_def split: prod.splits)

lemma opposite_edge_same: "is_same e e' \<Longrightarrow> opposite_edge es e = opposite_edge es e'"
  by (simp add: opposite_edge_def scan_wire_same [of e e'])

lemma ancestors_of_same: "is_same e e' \<Longrightarrow> ancestors_of m e = ancestors_of m e'"
  by (simp add: ancestors_of_def is_same_def)

lemma opposites_of_same:
  assumes "is_same e e'"
  shows "opposites_of ct mew e = opposites_of ct mew e'"
  unfolding opposites_of_def ancestors_of_same [OF assms] opposite_edge_same [OF assms] ..

lemma opposite_image: "opposite ct mew `` {skey e} = opposites_of ct mew e"
proof -
  have "k \<in> opposite ct mew `` {skey e} \<longleftrightarrow> (\<exists>e'. is_same e' e \<and> k \<in> opposites_of ct mew e')" for k
    unfolding opposite_def is_same_def by (auto, metis)
  then show ?thesis using opposites_of_same is_same_refl by blast
qed

text \<open>A step adds edges to all three lists: new ones, each once.\<close>

definition adds :: "pass_state \<Rightarrow> pass_state \<Rightarrow> shape_key set \<Rightarrow> bool" where
  "adds st st' K = (\<exists>new. st' = (fst st @ new, fst (snd st) @ new, snd (snd st) @ new) \<and>
     distinct (map skey new) \<and> skey ` set new = K - skey ` set (snd (snd st)))"

lemma adds_refl [simp]: "adds st st {}"
  by (cases st) (auto simp: adds_def)

lemma adds_trans:
  assumes "adds st st' K" and "adds st' st'' K'"
  shows "adds st st'' (K \<union> K')"
proof -
  obtain chain current accepted where st: "st = (chain, current, accepted)" by (cases st)
  from assms(1) st obtain n1 where n1: "st' = (chain @ n1, current @ n1, accepted @ n1)"
    "distinct (map skey n1)" "skey ` set n1 = K - skey ` set accepted" by (auto simp: adds_def)
  from assms(2) n1(1) obtain n2 where n2: "st'' = (chain @ n1 @ n2, current @ n1 @ n2, accepted @ n1 @ n2)"
    "distinct (map skey n2)" "skey ` set n2 = K' - (skey ` set accepted \<union> skey ` set n1)"
    by (auto simp: adds_def image_Un)
  have "distinct (map skey (n1 @ n2))" using n1(2,3) n2(2,3) by auto
  moreover have "skey ` set (n1 @ n2) = K \<union> K' - skey ` set accepted"
    using n1(3) n2(3) by (auto simp: image_Un)
  ultimately show ?thesis using n2(1) st by (auto simp: adds_def)
qed

lemma adds_accept: "adds st (accept_edge x st) {skey x}"
  by (cases st) (auto simp: adds_def accept_edge_def list_ex_iff is_same_def intro: rev_image_eqI)

lemma pass_edge_adds:
  assumes "pass_edge ct mew e st = Inr st'"
  shows "adds st st' (opposite ct mew `` {skey e}) \<and> (\<exists>k ancs. (k, ancs) \<in> set mew \<and> is_same k e)"
proof -
  from assms obtain wires where w: "ancestors_of mew e = Inr wires"
    and st': "st' = fold (\<lambda>w st. case opposite_edge (walk_wire ct w) e of None \<Rightarrow> st | Some x \<Rightarrow> accept_edge x st) wires st"
    by (auto simp: pass_edge_def bind_result_Inr_iff)
  have added: "adds st (fold (\<lambda>w st. case opposite_edge (walk_wire ct w) e of None \<Rightarrow> st | Some x \<Rightarrow> accept_edge x st) ws st)
      {skey x | x. \<exists>w \<in> set ws. opposite_edge (walk_wire ct w) e = Some x}" for ws
  proof (induction ws arbitrary: st)
    case (Cons w ws)
    show ?case
    proof (cases "opposite_edge (walk_wire ct w) e")
      case None
      then show ?thesis using Cons.IH [of st] by simp
    next
      case (Some x)
      have "{skey y | y. \<exists>v \<in> set (w # ws). opposite_edge (walk_wire ct v) e = Some y} =
          {skey x} \<union> {skey y | y. \<exists>v \<in> set ws. opposite_edge (walk_wire ct v) e = Some y}"
        using Some by auto
      then show ?thesis using adds_trans [OF adds_accept Cons.IH] Some by simp
    qed
  qed simp
  have image: "{skey x | x. \<exists>w \<in> set wires. opposite_edge (walk_wire ct w) e = Some x} = opposite ct mew `` {skey e}"
    using w by (simp add: opposite_image opposites_of_def)
  have "\<exists>k ancs. (k, ancs) \<in> set mew \<and> is_same k e"
    using w by (auto simp: ancestors_of_def dest!: find_SomeD split: option.splits prod.splits)
  with added [of wires, unfolded image] show ?thesis unfolding st' by (rule conjI)
qed

text \<open>One pass adds what is opposite to its edges; each of them is a key of the map.\<close>

definition keys_of :: "ancestors \<Rightarrow> shape_key set" where
  "keys_of mew = (skey \<circ> fst) ` set mew"

lemma pass_adds:
  "loop (pass_edge ct mew) es st = Inr st' \<Longrightarrow>
   adds st st' (opposite ct mew `` (skey ` set es)) \<and> skey ` set es \<subseteq> keys_of mew"
proof (induction es arbitrary: st)
  case (Cons e es)
  then obtain st1 where st1: "pass_edge ct mew e st = Inr st1" "loop (pass_edge ct mew) es st1 = Inr st'"
    by (auto split: sum.splits)
  from pass_edge_adds [OF st1(1)] have e: "adds st st1 (opposite ct mew `` {skey e})" "skey e \<in> keys_of mew"
    by (auto simp: keys_of_def is_same_def intro: rev_image_eqI)
  have "opposite ct mew `` (skey ` set (e # es)) = opposite ct mew `` {skey e} \<union> opposite ct mew `` (skey ` set es)"
    by auto
  with adds_trans [OF e(1) conjunct1 [OF Cons.IH [OF st1(2)]]] Cons.IH [OF st1(2)] e(2) show ?case by simp
qed simp

lemma pass_stops: "loop (pass_edge ct mew) es st \<noteq> Inl OutOfFuel"
proof (induction es arbitrary: st)
  case (Cons e es)
  have "pass_edge ct mew e st \<noteq> Inl OutOfFuel"
    by (auto simp: pass_edge_def ancestors_of_def bind_result_def split: option.splits)
  then show ?case using Cons by (auto split: sum.splits)
qed simp

lemma frontier_closed: "E `` (A - F) \<subseteq> A \<Longrightarrow> C = E `` F - A \<Longrightarrow> E `` (A \<union> C - C) \<subseteq> A \<union> C"
  by blast

lemma frontier_reached: "E `` F - A \<subseteq> E\<^sup>* `` F"
  by blast

lemma reach_trans: "C \<subseteq> E\<^sup>* `` F \<Longrightarrow> E\<^sup>* `` C \<subseteq> E\<^sup>* `` F"
  by (auto intro: rtrancl_trans)

lemma grow_chain_reaches:
  assumes "grow_chain k ct mew prev (chain, accepted) = Inr (chain', accepted')"
    and "opposite ct mew `` (skey ` set accepted - skey ` set prev) \<subseteq> skey ` set accepted"
  shows "\<exists>new. chain' = chain @ new \<and> accepted' = accepted @ new \<and> distinct (map skey new) \<and>
    skey ` set new \<inter> skey ` set accepted = {} \<and> skey ` set new \<subseteq> (opposite ct mew)\<^sup>* `` (skey ` set prev) \<and>
    opposite ct mew `` (skey ` set accepted') \<subseteq> skey ` set accepted'"
  using assms
proof (induction k arbitrary: prev chain accepted)
  case (Suc k)
  let ?O = "opposite ct mew"
  show ?case
  proof (cases "prev = []")
    case True
    with Suc.prems show ?thesis by auto
  next
    case False
    with Suc.prems(1) obtain c1 cur a1 where
      run: "loop (pass_edge ct mew) prev (chain, [], accepted) = Inr (c1, cur, a1)"
      and rest: "grow_chain k ct mew cur (c1, a1) = Inr (chain', accepted')"
      by (auto simp: bind_result_Inr_iff)
    from pass_adds [OF run] have new: "c1 = chain @ cur" "a1 = accepted @ cur" "distinct (map skey cur)"
      "skey ` set cur = ?O `` (skey ` set prev) - skey ` set accepted" by (auto simp: adds_def)
    have "?O `` (skey ` set a1 - skey ` set cur) \<subseteq> skey ` set a1"
      unfolding new(2) set_append image_Un by (rule frontier_closed [OF Suc.prems(2) new(4)])
    from Suc.IH [OF rest this] obtain new' where new': "chain' = c1 @ new'" "accepted' = a1 @ new'"
      "distinct (map skey new')" "skey ` set new' \<inter> skey ` set a1 = {}"
      "skey ` set new' \<subseteq> ?O\<^sup>* `` (skey ` set cur)" "?O `` (skey ` set accepted') \<subseteq> skey ` set accepted'"
      by (elim exE conjE) (rule that)
    have cur: "skey ` set cur \<subseteq> ?O\<^sup>* `` (skey ` set prev)"
      unfolding new(4) by (rule frontier_reached)
    have reach: "skey ` set (cur @ new') \<subseteq> ?O\<^sup>* `` (skey ` set prev)"
    proof -
      have "?O\<^sup>* `` (skey ` set cur) \<subseteq> ?O\<^sup>* `` (skey ` set prev)"
        using cur by (rule reach_trans)
      with cur new'(5) show ?thesis by (simp add: image_Un)
    qed
    have "skey ` set cur \<inter> skey ` set new' = {}" using new'(4) unfolding new(2) set_append image_Un by blast
    with new(3) new'(3) have "distinct (map skey (cur @ new'))" by simp
    moreover have "skey ` set (cur @ new') \<inter> skey ` set accepted = {}"
      using new(4) new'(4) unfolding new(2) set_append image_Un by blast
    ultimately show ?thesis using reach new(1,2) new'(1,2,6) by (intro exI [of _ "cur @ new'"]) simp
  qed
qed simp

lemma finite_keys [simp]: "finite (keys_of mew)"
  by (simp add: keys_of_def)

text \<open>Each pass takes keys of the map that were not accepted, so their number bounds the passes.\<close>

lemma grow_chain_ends:
  "card (keys_of mew - skey ` set accepted) + 2 \<le> k \<Longrightarrow> grow_chain k ct mew prev (chain, accepted) \<noteq> Inl OutOfFuel"
proof (induction k arbitrary: prev chain accepted)
  case (Suc k)
  show ?case
  proof (cases "prev = [] \<or> (\<exists>stop. loop (pass_edge ct mew) prev (chain, [], accepted) = Inl stop)")
    case True
    then show ?thesis using pass_stops [of ct mew prev "(chain, [], accepted)"] by auto
  next
    case False
    then obtain c1 cur a1 where run: "loop (pass_edge ct mew) prev (chain, [], accepted) = Inr (c1, cur, a1)"
      by (cases "loop (pass_edge ct mew) prev (chain, [], accepted)") auto
    with False have step: "grow_chain (Suc k) ct mew prev (chain, accepted) = grow_chain k ct mew cur (c1, a1)" by simp
    from pass_adds [OF run] have new: "a1 = accepted @ cur" "skey ` set cur \<inter> skey ` set accepted = {}"
      by (auto simp: adds_def)
    obtain j where j: "k = Suc j" using Suc.prems by (cases k) auto
    show ?thesis
    proof (cases "cur \<noteq> [] \<and> skey ` set cur \<subseteq> keys_of mew")
      case True
      then have "keys_of mew - skey ` set a1 \<subset> keys_of mew - skey ` set accepted"
        using new True unfolding new(1) set_append image_Un by (cases cur) auto
      then have "card (keys_of mew - skey ` set a1) < card (keys_of mew - skey ` set accepted)"
        by (simp add: psubset_card_mono)
      with Suc.IH [of a1 cur c1] Suc.prems step show ?thesis by simp
    next
      case False
      then consider "cur = []" | "\<not> skey ` set cur \<subseteq> keys_of mew" by blast
      then show ?thesis
      proof cases
        case 2
        then obtain stop where "loop (pass_edge ct mew) cur (c1, [], a1) = Inl stop"
          using pass_adds [of ct mew cur "(c1, [], a1)"] by (cases "loop (pass_edge ct mew) cur (c1, [], a1)") auto
        with pass_stops [of ct mew cur "(c1, [], a1)"] step j show ?thesis by (auto simp: bind_result_def split: if_splits)
      qed (use step j in simp)
    qed
  qed
qed simp

end
