(* ===== verification/Block6.thy ===== *)
theory Block6
  imports BlockChains
begin

text \<open>
  GEOM's explorer of a hexahedral block (\<^verbatim>\<open>GEOMImpl_Block6Explorer\<close>, \<^verbatim>\<open>geom_block6.cpp\<close>): six
  faces, twelve edges and eight vertices under fixed numbers, the tables that say which of them
  meet, and the initialisation of the three arrays from a block and one of its faces, or from
  three of its vertices. The shapes are OCCT's; the order of a wire's edges and vertices and the two
  ends of an edge are arguments.
\<close>

section \<open>The tables\<close>

abbreviation (input) "NBFACES \<equiv> (6 :: nat)"
abbreviation (input) "NBEDGES \<equiv> (12 :: nat)"
abbreviation (input) "NBVERTS \<equiv> (8 :: nat)"

definition mod4 :: "int \<Rightarrow> int" where
  "mod4 nb = (if nb \<le> 0 then nb + 4 else if 4 < nb then nb - 4 else nb)"

text \<open>An entry of a table whose rows and columns are counted from 1.\<close>

definition entry :: "nat list list \<Rightarrow> nat \<Rightarrow> nat \<Rightarrow> nat" where
  "entry table i j = table ! (i - 1) ! (j - 1)"

definition edge_id :: "nat \<Rightarrow> nat \<Rightarrow> nat" where
  "edge_id = entry [[1, 2, 3, 4], [5, 6, 7, 8], [9, 5, 10, 1], [12, 7, 11, 3], [4, 12, 8, 9], [2, 11, 6, 10]]"

definition side_edge_id :: "nat \<Rightarrow> nat" where
  "side_edge_id nb = [9, 10, 11, 12] ! (nb - 1)"

definition vertex_id :: "nat \<Rightarrow> nat \<Rightarrow> nat" where
  "vertex_id = entry [[1, 2, 3, 4], [5, 6, 7, 8], [1, 5, 6, 2], [4, 8, 7, 3], [1, 4, 8, 5], [2, 3, 7, 6]]"

definition vertex_id_edge :: "nat \<Rightarrow> nat \<Rightarrow> nat" where
  "vertex_id_edge = entry [[1, 2], [2, 3], [3, 4], [4, 1], [5, 6], [6, 7], [7, 8], [8, 5], [1, 5], [2, 6], [3, 7], [4, 8]]"

definition face_id_edges :: "nat \<Rightarrow> nat \<Rightarrow> nat" where
  "face_id_edges = entry
     [[0, 1, 1, 1, 3, 0, 0, 0, 3, 3, 0, 0],
      [1, 0, 1, 1, 0, 6, 0, 0, 0, 6, 6, 0],
      [1, 1, 0, 1, 0, 0, 4, 0, 0, 0, 4, 4],
      [1, 1, 1, 0, 0, 0, 0, 5, 5, 0, 0, 5],
      [3, 0, 0, 0, 0, 2, 2, 2, 3, 3, 0, 0],
      [0, 6, 0, 0, 2, 0, 2, 2, 0, 6, 6, 0],
      [0, 0, 4, 0, 2, 2, 0, 2, 0, 0, 4, 4],
      [0, 0, 0, 5, 2, 2, 2, 0, 5, 0, 0, 5],
      [3, 0, 0, 5, 3, 0, 0, 5, 0, 3, 0, 5],
      [3, 6, 0, 0, 3, 6, 0, 0, 3, 0, 6, 0],
      [0, 6, 4, 0, 0, 6, 4, 0, 0, 6, 0, 4],
      [0, 0, 4, 5, 0, 0, 4, 5, 5, 0, 4, 0]]"

definition edge_id_vertices :: "nat \<Rightarrow> nat \<Rightarrow> nat" where
  "edge_id_vertices = entry
     [[0, 1, 0, 4, 9, 0, 0, 0],
      [1, 0, 2, 0, 0, 10, 0, 0],
      [0, 2, 0, 3, 0, 0, 11, 0],
      [4, 0, 3, 0, 0, 0, 0, 12],
      [9, 0, 0, 0, 0, 5, 0, 8],
      [0, 10, 0, 0, 5, 0, 6, 0],
      [0, 0, 11, 0, 0, 6, 0, 7],
      [0, 0, 0, 12, 8, 0, 7, 0]]"

definition edge_id_faces :: "nat \<Rightarrow> nat \<Rightarrow> nat" where
  "edge_id_faces = entry
     [[0, 0, 1, 3, 4, 2],
      [0, 0, 5, 7, 8, 6],
      [1, 5, 0, 0, 9, 10],
      [3, 7, 0, 0, 12, 11],
      [4, 8, 9, 12, 0, 0],
      [2, 6, 10, 11, 0, 0]]"

text \<open>\<^verbatim>\<open>GetOppositeFaceID\<close>.\<close>

definition opp_face_id :: "nat \<Rightarrow> nat" where
  "opp_face_id f = [0, 2, 1, 4, 3, 6, 5] ! f"

section \<open>The explorer\<close>

record explorer =
  x_faces :: "nat \<Rightarrow> shape"
  x_edges :: "nat \<Rightarrow> shape"
  x_vertices :: "nat \<Rightarrow> shape"

definition new_explorer :: explorer where
  "new_explorer = \<lparr>x_faces = (\<lambda>_. null_shape), x_edges = (\<lambda>_. null_shape), x_vertices = (\<lambda>_. null_shape)\<rparr>"

text \<open>
  \<^verbatim>\<open>BRepTools_WireExplorer (wire, face)\<close>, as (Current, CurrentVertex), and \<^verbatim>\<open>TopExp::Vertices\<close>.
\<close>

record block_geometry =
  wire_steps :: "shape \<Rightarrow> shape \<Rightarrow> (shape \<times> shape) list"
  edge_ends :: "shape \<Rightarrow> shape \<times> shape"

definition stop_unless :: "bool \<Rightarrow> string \<Rightarrow> (block_stop, unit) result" where
  "stop_unless b text = require b (Threw text)"

text \<open>The two nested loops that look for the first shape of a list in another.\<close>

definition first_common :: "shape list \<Rightarrow> shape list \<Rightarrow> shape option" where
  "first_common xs ys = find (\<lambda>x. list_ex (\<lambda>y. is_same x y) ys) xs"

definition set_face :: "nat \<Rightarrow> shape \<Rightarrow> explorer \<Rightarrow> explorer" where
  "set_face i s x = x\<lparr>x_faces := (x_faces x)(i := s)\<rparr>"

definition set_edge :: "nat \<Rightarrow> shape \<Rightarrow> explorer \<Rightarrow> explorer" where
  "set_edge i s x = x\<lparr>x_edges := (x_edges x)(i := s)\<rparr>"

definition set_vertex :: "nat \<Rightarrow> shape \<Rightarrow> explorer \<Rightarrow> explorer" where
  "set_vertex i s x = x\<lparr>x_vertices := (x_vertices x)(i := s)\<rparr>"

text \<open>The other end of an edge, from one of its vertices.\<close>

definition other_end :: "block_geometry \<Rightarrow> shape \<Rightarrow> shape \<Rightarrow> shape" where
  "other_end bg e v = (let (v1, v2) = edge_ends bg e in if is_same v1 v then v2 else v1)"

section \<open>From three vertices of the first face\<close>

text \<open>
  1.3: the loops over the edges of the second vertex, each with those of the first and the third.
\<close>

definition first_side :: "block_geometry \<Rightarrow> shape \<Rightarrow> shape \<Rightarrow> shape \<Rightarrow> explorer \<Rightarrow> explorer" where
  "first_side bg v1 e2 e1 x =
     (if is_same e1 e2 then set_edge (edge_id 1 1) e1 x
      else let x' = set_edge (edge_id 1 4) e1 x
           in set_vertex (vertex_id 1 4) (other_end bg (x_edges x' 4) v1) x')"

definition second_side :: "shape \<Rightarrow> shape \<Rightarrow> explorer \<Rightarrow> explorer" where
  "second_side e2 e3 x =
     (if is_same e3 e2 then set_edge (edge_id 1 2) e3 x else set_edge (edge_id 1 3) e3 x)"

definition sides_of_first_face ::
  "block_geometry \<Rightarrow> shape \<Rightarrow> shape list \<Rightarrow> shape list \<Rightarrow> shape list \<Rightarrow> explorer \<Rightarrow> explorer" where
  "sides_of_first_face bg v1 es1 es2 es3 x =
     fold (\<lambda>e2 x. fold (second_side e2) es3 (fold (first_side bg v1 e2) es1 x)) es2 x"

definition init_first_face ::
  "occt \<Rightarrow> block_tools \<Rightarrow> block_geometry \<Rightarrow> shape \<Rightarrow> shape \<Rightarrow> shape \<Rightarrow> shape \<Rightarrow> explorer \<Rightarrow>
   (block_stop, explorer) result" where
  "init_first_face oc bt bg block v1 v2 v3 x0 =
     (let x = set_vertex (vertex_id 1 3) v3 (set_vertex (vertex_id 1 2) v2 (set_vertex (vertex_id 1 1) v1 x0));
          mvf = map_ancestors oc bt block VERTEX FACE
      in bind_result (stop_unless (length mvf = NBVERTS) ''Block has wrong number of vertices'') (\<lambda>_.
         bind_result (ancestors_of mvf v1) (\<lambda>fs1.
         bind_result (ancestors_of mvf v3) (\<lambda>fs3.
         case first_common fs1 fs3 of
           None \<Rightarrow> Inl (Threw ''Vertices 1 and 3 do not belong to one face of the block'')
         | Some f \<Rightarrow>
             (let m1 = map_ancestors oc bt f VERTEX EDGE
              in bind_result (stop_unless (length m1 = 4) ''The first face of block has wrong number of vertices'') (\<lambda>_.
                 bind_result (ancestors_of m1 v1) (\<lambda>es1.
                 bind_result (ancestors_of m1 v2) (\<lambda>es2.
                 bind_result (ancestors_of m1 v3) (\<lambda>es3.
                   Inr (sides_of_first_face bg v1 es1 es2 es3 (set_face 1 f x)))))))))))"

section \<open>The rest of the block\<close>

text \<open>2: the edge from the i-th vertex of the first face that is not of that face, and its other end.\<close>

definition link_vertex ::
  "block_geometry \<Rightarrow> ancestors \<Rightarrow> shape list \<Rightarrow> nat \<Rightarrow> explorer \<Rightarrow> (block_stop, explorer) result" where
  "link_vertex bg mb face_edges i x =
     (let vi = x_vertices x (vertex_id 1 i)
      in bind_result (stop_unless (list_ex (\<lambda>(k, es). is_same k vi) mb) ''Face does not belong to the block'') (\<lambda>_.
         bind_result (ancestors_of mb vi) (\<lambda>es.
           case find (\<lambda>e. \<not> list_ex (\<lambda>k. is_same k e) face_edges) es of
             None \<Rightarrow> Inr x
           | Some e \<Rightarrow>
               Inr (set_vertex (vertex_id 2 i) (other_end bg e vi) (set_edge (side_edge_id i) e x)))))"

text \<open>3: the edge that joins the i-th vertex of the second face to the next.\<close>

definition second_face_edge :: "ancestors \<Rightarrow> nat \<Rightarrow> explorer \<Rightarrow> (block_stop, explorer) result" where
  "second_face_edge mb i x =
     (let vi = x_vertices x (vertex_id 2 i); vj = x_vertices x (vertex_id 2 (nat (mod4 (int i + 1))))
      in bind_result (ancestors_of mb vi) (\<lambda>esi.
         bind_result (ancestors_of mb vj) (\<lambda>esj.
           case first_common esi esj of
             None \<Rightarrow> Inr x | Some e \<Rightarrow> Inr (set_edge (edge_id 2 i) e x))))"

text \<open>4: the face of two of its edges.\<close>

definition face_of_edges :: "ancestors \<Rightarrow> nat \<Rightarrow> explorer \<Rightarrow> (block_stop, explorer) result" where
  "face_of_edges mbe i x =
     bind_result (ancestors_of mbe (x_edges x (edge_id i 1))) (\<lambda>fs1.
     bind_result (ancestors_of mbe (x_edges x (edge_id i 2))) (\<lambda>fs2.
       case first_common fs1 fs2 of
         None \<Rightarrow> Inr x | Some f \<Rightarrow> Inr (set_face i f x)))"

definition rest_of_block ::
  "occt \<Rightarrow> block_tools \<Rightarrow> block_geometry \<Rightarrow> shape \<Rightarrow> explorer \<Rightarrow> (block_stop, explorer) result" where
  "rest_of_block oc bt bg block x =
     (let mb = map_ancestors oc bt block VERTEX EDGE;
          face_edges = map_shapes oc (x_faces x 1) EDGE;
          mbe = map_ancestors oc bt block EDGE FACE
      in bind_result (stop_unless (length mb = NBVERTS) ''Block has wrong number of vertices'') (\<lambda>_.
         bind_result (loop (link_vertex bg mb face_edges) [1, 2, 3, 4] x) (\<lambda>x2.
         bind_result (loop (second_face_edge mb) [1, 2, 3, 4] x2) (\<lambda>x3.
         bind_result (stop_unless (length mbe = NBEDGES) ''Block has wrong number of edges'') (\<lambda>_.
           loop (face_of_edges mbe) [2, 3, 4, 5, 6] x3)))))"

text \<open>The first face's own elements are set only when no caller has set them.\<close>

definition init_by_block_and_vertices ::
  "occt \<Rightarrow> block_tools \<Rightarrow> block_geometry \<Rightarrow> shape \<Rightarrow> shape \<Rightarrow> shape \<Rightarrow> shape \<Rightarrow> explorer \<Rightarrow>
   (block_stop, explorer) result" where
  "init_by_block_and_vertices oc bt bg block v1 v2 v3 x =
     bind_result (if is_null (x_faces x 1) then init_first_face oc bt bg block v1 v2 v3 x else Inr x)
       (rest_of_block oc bt bg block)"

section \<open>From a face, from two edges, from the block\<close>

text \<open>The loop over a wire of the first face, with the number it is at.\<close>

fun fill_first_face :: "nat \<Rightarrow> (shape \<times> shape) list \<Rightarrow> explorer \<Rightarrow> (block_stop, nat \<times> explorer) result" where
  "fill_first_face nb [] x = Inr (nb, x)"
| "fill_first_face nb ((e, v) # steps) x =
     (if 4 < nb then Inl (Threw ''A face of the block has more than four edges'')
      else fill_first_face (nb + 1) steps (set_vertex (vertex_id 1 nb) v (set_edge (edge_id 1 nb) e x)))"

definition init_by_block_and_face ::
  "occt \<Rightarrow> block_tools \<Rightarrow> block_geometry \<Rightarrow> shape \<Rightarrow> shape \<Rightarrow> explorer \<Rightarrow> (block_stop, explorer) result" where
  "init_by_block_and_face oc bt bg block face x =
     (case explore oc face WIRE of
        [] \<Rightarrow> Inl (Threw ''A face of the block has no wires'')
      | w # _ # _ \<Rightarrow> Inl (Threw ''A face of the block has more than one wires'')
      | [w] \<Rightarrow>
          bind_result (fill_first_face 1 (wire_steps bg w face) (set_face 1 face x)) (\<lambda>(nb, x1).
          bind_result (stop_unless (\<not> nb < 5) ''A face of the block has less than four edges'') (\<lambda>_.
            init_by_block_and_vertices oc bt bg block (x_vertices x1 (vertex_id 1 1))
              (x_vertices x1 (vertex_id 1 2)) (x_vertices x1 (vertex_id 1 3)) x1)))"

definition init_by_block ::
  "occt \<Rightarrow> block_tools \<Rightarrow> block_geometry \<Rightarrow> shape \<Rightarrow> explorer \<Rightarrow> (block_stop, explorer) result" where
  "init_by_block oc bt bg block x =
     (case explore oc block FACE of
        [] \<Rightarrow> Inl (Threw ''The block has no faces'')
      | f # _ \<Rightarrow> init_by_block_and_face oc bt bg block f x)"

text \<open>\<^verbatim>\<open>First\<close> and \<^verbatim>\<open>Last\<close> of a list of OCCT throw when it is empty.\<close>

definition ends_of_list :: "shape list \<Rightarrow> (block_stop, shape \<times> shape) result" where
  "ends_of_list xs = (case xs of [] \<Rightarrow> Inl OutOfRange | y # ys \<Rightarrow> Inr (y, last xs))"

text \<open>The edge of a vertex that is not the given one, the first unless it is that.\<close>

definition edge_beside :: "shape \<Rightarrow> shape \<times> shape \<Rightarrow> shape" where
  "edge_beside e ends = (if is_same (fst ends) e then snd ends else fst ends)"

definition init_by_block_and_edges ::
  "occt \<Rightarrow> block_tools \<Rightarrow> block_geometry \<Rightarrow> shape \<Rightarrow> shape \<Rightarrow> shape \<Rightarrow> explorer \<Rightarrow> (block_stop, explorer) result" where
  "init_by_block_and_edges oc bt bg block e1 e3 x0 =
     (let x = set_edge (edge_id 1 3) e3 (set_edge (edge_id 1 1) e1 x0);
          mef = map_ancestors oc bt block EDGE FACE
      in bind_result (stop_unless (length mef = NBEDGES) ''Block has wrong number of edges'') (\<lambda>_.
         bind_result (ancestors_of mef e1) (\<lambda>fs1.
         bind_result (ancestors_of mef e3) (\<lambda>fs3.
         case first_common fs1 fs3 of
           None \<Rightarrow> Inl (Threw ''Edges 1 and 2 do not belong to one face of the block'')
         | Some f \<Rightarrow>
             (let (v1, v2) = edge_ends bg e1;
                  m1 = map_ancestors oc bt f VERTEX EDGE
              in bind_result (stop_unless (length m1 = 4) ''The first face of block has wrong number of vertices'') (\<lambda>_.
                 bind_result (bind_result (ancestors_of m1 v1) ends_of_list) (\<lambda>ends1.
                 bind_result (bind_result (ancestors_of m1 v2) ends_of_list) (\<lambda>ends2.
                   let e4 = edge_beside e1 ends1; e2 = edge_beside e1 ends2;
                       v4 = other_end bg e4 v1; v3 = other_end bg e2 v2;
                       x' = set_vertex (vertex_id 1 3) v3 (set_edge (edge_id 1 2) e2
                              (set_vertex (vertex_id 1 4) v4 (set_edge (edge_id 1 4) e4
                                 (set_vertex (vertex_id 1 2) v2 (set_vertex (vertex_id 1 1) v1 (set_face 1 f x))))))
                   in init_by_block_and_vertices oc bt bg block v1 v2 v3 x'))))))))"

section \<open>What the arrays hold\<close>

definition get_vertex :: "explorer \<Rightarrow> nat \<Rightarrow> shape" where
  "get_vertex x i = (if i < 1 \<or> NBVERTS < i then null_shape else x_vertices x i)"

text \<open>\<^verbatim>\<open>GetEdge\<close> and \<^verbatim>\<open>GetFace\<close> without \<^verbatim>\<open>doMake\<close>.\<close>

definition get_edge :: "explorer \<Rightarrow> nat \<Rightarrow> shape" where
  "get_edge x i = (if i < 1 \<or> NBEDGES < i then null_shape else x_edges x i)"

definition get_face :: "explorer \<Rightarrow> nat \<Rightarrow> shape" where
  "get_face x i = (if i < 1 \<or> NBFACES < i then null_shape else x_faces x i)"

definition id_of :: "(nat \<Rightarrow> shape) \<Rightarrow> nat \<Rightarrow> string \<Rightarrow> shape \<Rightarrow> (block_stop, nat) result" where
  "id_of arr n text s = (case find (\<lambda>i. is_same s (arr i)) [1..<Suc n] of None \<Rightarrow> Inl (Threw text) | Some i \<Rightarrow> Inr i)"

definition get_vertex_id :: "explorer \<Rightarrow> shape \<Rightarrow> (block_stop, nat) result" where
  "get_vertex_id x = id_of (x_vertices x) NBVERTS ''The Vertex does not belong to the Block''"

definition get_edge_id :: "explorer \<Rightarrow> shape \<Rightarrow> (block_stop, nat) result" where
  "get_edge_id x = id_of (x_edges x) NBEDGES ''The Edge does not belong to the Block''"

definition get_face_id :: "explorer \<Rightarrow> shape \<Rightarrow> (block_stop, nat) result" where
  "get_face_id x = id_of (x_faces x) NBFACES ''The Face does not belong to the Block''"

end
