(* ===== verification/BlockQueries.thy ===== *)
theory BlockQueries
  imports Block6 Commit
begin

text \<open>
  The queries about blocks of \<^verbatim>\<open>session_blocks.cpp\<close>: the face opposite a face of a block, the face
  two edges bound, the block nearest a point. What OCCT answers about one solid is a field of
  \<open>near_tools\<close>.
\<close>

section \<open>Errors\<close>

datatype block_query_error =
    QueryRefused session_error
  | QueryThrew block_stop
  | NotASolid entity_id shape_enum
  | SolidWasSplit entity_id nat
  | NotFaceOf entity_id entity_id
  | CannotOrder entity_id entity_id "block_stop option"
  | NoCommonFace entity_id entity_id
  | SeveralCommonFaces entity_id entity_id "entity_id list"
  | PointNotFinite
  | SearchFailed string
  | NoSolid
  | OnSeveralBoundaries nat "entity_id list"

definition querying :: "'a outcome \<Rightarrow> (block_query_error, 'a) result" where
  "querying r = (case r of Inl e \<Rightarrow> Inl (QueryRefused e) | Inr x \<Rightarrow> Inr x)"

lemma querying_simps [simp, result_simps]:
  "querying (Inl e) = Inl (QueryRefused e)" "querying (Inr x) = Inr x"
  by (simp_all add: querying_def)

section \<open>The opposite face\<close>

definition opposite_face ::
  "occt \<Rightarrow> block_tools \<Rightarrow> block_geometry \<Rightarrow> session \<Rightarrow> entity_id \<Rightarrow> entity_id \<Rightarrow>
   (block_query_error, entity_id) result" where
  "opposite_face oc bt bg s block_id face_id =
     bind_result (querying (require_alive s block_id)) (\<lambda>rec.
       if ent_kind rec \<noteq> SOLID then Inl (NotASolid block_id (ent_kind rec))
       else case ent_shapes rec of
         [block] \<Rightarrow>
           bind_result (querying (sole_face oc s face_id)) (\<lambda>face.
             case find_key (map_shapes oc block FACE) face of
               None \<Rightarrow> Inl (NotFaceOf face_id block_id)
             | Some f \<Rightarrow>
                 (case init_by_block_and_face oc bt bg block f new_explorer of
                    Inl stop \<Rightarrow> Inl (CannotOrder block_id face_id (Some stop))
                  | Inr x \<Rightarrow>
                      if is_null (get_face x 2) then Inl (CannotOrder block_id face_id None)
                      else querying (label_of s (get_face x 2))))
       | shapes \<Rightarrow> Inl (SolidWasSplit block_id (length shapes)))"

section \<open>The face of two edges\<close>

text \<open>The two nested loops over the faces of the edges.\<close>

definition common_faces :: "shape list \<Rightarrow> shape list \<Rightarrow> shape list" where
  "common_faces fs1 fs2 =
     fold (\<lambda>f1. fold (\<lambda>f2 found. if is_same f1 f2 then append_unique found f1 else found) fs2) fs1 []"

definition face_by_edges ::
  "occt \<Rightarrow> block_tools \<Rightarrow> session \<Rightarrow> entity_id \<Rightarrow> entity_id \<Rightarrow> (block_query_error, entity_id) result" where
  "face_by_edges oc bt s edge_a edge_b =
     bind_result (querying (sole_edge oc s edge_a)) (\<lambda>e1.
     bind_result (querying (sole_edge oc s edge_b)) (\<lambda>e2.
     let mef = map_ancestors oc bt (st_root (s_state s)) EDGE FACE
     in case (ancestors_of mef e1, ancestors_of mef e2) of
          (Inr fs1, Inr fs2) \<Rightarrow>
            (case common_faces fs1 fs2 of
               [] \<Rightarrow> Inl (NoCommonFace edge_a edge_b)
             | [f] \<Rightarrow> querying (label_of s f)
             | fs \<Rightarrow> bind_result (querying (each (label_of s) fs)) (\<lambda>ids.
                       Inl (SeveralCommonFaces edge_a edge_b ids)))
        | (Inl stop, _) \<Rightarrow> Inl (QueryThrew stop)
        | (_, Inl stop) \<Rightarrow> Inl (QueryThrew stop)))"

section \<open>The block near a point\<close>

datatype point_state = IN | ON | OUT | UNKNOWN

text \<open>
  \<^verbatim>\<open>BRepBndLib::Add\<close> with \<^verbatim>\<open>Bnd_Box::Get\<close>, as the two corners; \<^verbatim>\<open>BRepClass3d_SolidClassifier\<close>
  at the tolerance; \<^verbatim>\<open>BRepExtrema_DistShapeShape\<close>, nothing when it is not done.
\<close>

record near_tools =
  solid_box :: "shape \<Rightarrow> string + vec \<times> vec"
  classify :: "shape \<Rightarrow> vec \<Rightarrow> string + point_state"
  distance_to :: "vec \<Rightarrow> shape \<Rightarrow> string + f64 option"

text \<open>\<^verbatim>\<open>finite_arg\<close> of three numbers.\<close>

definition vec_finite :: "vec \<Rightarrow> bool" where
  "vec_finite v = (case v of (x, y, z) \<Rightarrow> is_finite x \<and> is_finite y \<and> is_finite z)"

definition out_of_box :: "vec \<Rightarrow> vec \<times> vec \<Rightarrow> bool" where
  "out_of_box p box = (let (px, py, pz) = p; ((xmin, ymin, zmin), (xmax, ymax, zmax)) = box
     in fless px xmin \<or> fless xmax px \<or> fless py ymin \<or> fless ymax py \<or> fless pz zmin \<or> fless zmax pz)"

text \<open>\<^verbatim>\<open>aDistance\<close>: -1 inside, 0 on the boundary, 1 outside.\<close>

definition place_of :: "near_tools \<Rightarrow> vec \<Rightarrow> shape \<Rightarrow> string + int" where
  "place_of nt p b =
     (case solid_box nt b of
        Inl t \<Rightarrow> Inl t
      | Inr box \<Rightarrow>
          if out_of_box p box then Inr 1
          else case classify nt b p of
                 Inl t \<Rightarrow> Inl t
               | Inr IN \<Rightarrow> Inr (-1) | Inr ON \<Rightarrow> Inr 0 | Inr _ \<Rightarrow> Inr 1)"

record search =
  sr_shape :: shape
  sr_nearest :: int
  sr_found :: nat
  sr_places :: "(shape \<times> int) list"

definition no_search :: search where
  "no_search = \<lparr>sr_shape = null_shape, sr_nearest = 2, sr_found = 0, sr_places = []\<rparr>"

fun scan_blocks :: "(shape \<Rightarrow> string + int) \<Rightarrow> shape list \<Rightarrow> search \<Rightarrow> string + search" where
  "scan_blocks place [] st = Inr st"
| "scan_blocks place (b # bs) st =
     (case place b of
        Inl t \<Rightarrow> Inl t
      | Inr d \<Rightarrow>
          (let st' = (if d < sr_nearest st then st\<lparr>sr_shape := b, sr_nearest := d, sr_found := 1\<rparr>
                      else if d = sr_nearest st then st\<lparr>sr_found := sr_found st + 1\<rparr> else st)
           in if d < sr_nearest st \<and> d = -1 then Inr st'
              else scan_blocks place bs (st'\<lparr>sr_places := sr_places st' @ [(b, d)]\<rparr>)))"

text \<open>\<^verbatim>\<open>RealLast ()\<close>.\<close>

definition real_last :: f64 where
  "real_last = Fin ((2 - 1 / 2 ^ 52) * 2 ^ 1023)"

text \<open>The loop over the blocks the point is outside of: the nearest shape so far and its distance.\<close>

fun nearest_of :: "(shape \<Rightarrow> string + f64 option) \<Rightarrow> (shape \<times> int) list \<Rightarrow> shape \<times> f64 \<Rightarrow> string + shape" where
  "nearest_of far [] (best, least) = Inr best"
| "nearest_of far ((b, d) # places) (best, least) =
     (if d = 1
      then case far b of
             Inl t \<Rightarrow> Inl t
           | Inr None \<Rightarrow> Inl ''Can not find a distance from the given point to one of blocks''
           | Inr (Some v) \<Rightarrow> nearest_of far places (if fless v least then (b, v) else (best, least))
      else nearest_of far places (best, least))"

definition settle :: "near_tools \<Rightarrow> vec \<Rightarrow> search \<Rightarrow> string + shape" where
  "settle nt p st =
     (if 1 < sr_found st \<and> sr_nearest st = 1
      then nearest_of (distance_to nt p) (sr_places st) (sr_shape st, real_last) else Inr (sr_shape st))"

definition find_block_near ::
  "occt \<Rightarrow> near_tools \<Rightarrow> session \<Rightarrow> vec \<Rightarrow> (block_query_error, entity_id) result" where
  "find_block_near oc nt s p =
     bind_result (require (vec_finite p) PointNotFinite) (\<lambda>_.
      case scan_blocks (place_of nt p) (append_all [] (explore oc (st_root (s_state s)) SOLID)) no_search of
        Inl t \<Rightarrow> Inl (SearchFailed t)
      | Inr st \<Rightarrow>
          (case settle nt p st of
             Inl t \<Rightarrow> Inl (SearchFailed t)
           | Inr b \<Rightarrow>
               if sr_found st = 0 then Inl NoSolid
               else if 1 < sr_found st \<and> sr_nearest st = 0
               then bind_result (querying (each (label_of s) (map fst (filter (\<lambda>(b, d). d = 0) (sr_places st)))))
                      (\<lambda>ids. Inl (OnSeveralBoundaries (sr_found st) ids))
               else querying (label_of s b)))"

end
