(* ===== verification/Histories.thy ===== *)
theory Histories
  imports Registry
begin

text \<open>
  The composition of several operations' histories into one (\<^verbatim>\<open>compose_histories\<close> of
  \<^verbatim>\<open>session_blocks.cpp\<close>): an operation that runs OCCT several times reports, for every
  sub-shape of its input, what the last step holds of it. The history it fills is the list of the
  \<^verbatim>\<open>AddModified\<close> and \<^verbatim>\<open>AddGenerated\<close> calls.
\<close>

section \<open>Through the steps\<close>

text \<open>A shape's images through one step, pushed onto a list (the lambda \<^verbatim>\<open>through\<close>).\<close>

definition through :: "history \<Rightarrow> shape \<Rightarrow> shape list \<Rightarrow> shape list" where
  "through step s out =
     (if hist_removed step s then out
      else if hist_modified step s = [] then append_unique out s
      else append_all out (hist_modified step s))"

text \<open>One step of the loop over the steps, on (modified, generated); a null history is skipped.\<close>

definition compose_step ::
  "history option \<Rightarrow> shape list \<times> shape list \<Rightarrow> shape list \<times> shape list" where
  "compose_step step acc =
     (case step of
        None \<Rightarrow> acc
      | Some h \<Rightarrow>
          (let (modified, generated) = acc;
               next1 = fold (through h) generated [];
               next2 = fold (\<lambda>m out. append_all out (hist_generated h m)) modified next1;
               next3 = fold (\<lambda>g out. append_all out (hist_generated h g)) generated next2
           in (fold (through h) modified [], next3)))"

definition images :: "history option list \<Rightarrow> shape \<Rightarrow> shape list \<times> shape list" where
  "images steps s = fold compose_step steps ([s], [])"

section \<open>The calls\<close>

datatype history_call = AddModified shape shape | AddGenerated shape shape

definition compose_shape :: "history option list \<Rightarrow> shape_enum \<Rightarrow> shape \<Rightarrow> history_call list" where
  "compose_shape steps k s =
     (let (modified, generated) = images steps s;
          kept = (length modified = 1 \<and> is_same (hd modified) s)
      in (if kept then [] else map (AddModified s) (filter (\<lambda>m. shape_type m = k) modified)) @
         map (AddGenerated s)
           (filter (\<lambda>g. \<not> list_ex (\<lambda>m. is_same m g) modified \<and> \<not> is_same g s) generated))"

definition compose_histories ::
  "map_shapes \<Rightarrow> shape \<Rightarrow> history option list \<Rightarrow> history_call list" where
  "compose_histories M input steps =
     concat (map (\<lambda>k. concat (map (compose_shape steps k) (M input k))) kEntityKinds)"

section \<open>What the composition means\<close>

text \<open>
  A shape becomes another through the steps when each step replaces it by one of its images, or
  keeps it; it yields a shape when some step generates one from an image, or from a shape
  generated before, and the later steps make that shape of it.
\<close>

definition moves_to :: "history \<Rightarrow> shape \<Rightarrow> shape \<Rightarrow> bool" where
  "moves_to h a b = (\<not> hist_removed h a \<and>
     (if hist_modified h a = [] then b = a else b \<in> set (hist_modified h a)))"

inductive becomes :: "history option list \<Rightarrow> shape \<Rightarrow> shape \<Rightarrow> bool" where
  here: "becomes [] a a"
| null: "becomes steps a b \<Longrightarrow> becomes (None # steps) a b"
| step: "moves_to h a b \<Longrightarrow> becomes steps b c \<Longrightarrow> becomes (Some h # steps) a c"

inductive yields :: "history option list \<Rightarrow> shape \<Rightarrow> shape \<Rightarrow> bool" where
  null: "yields steps a b \<Longrightarrow> yields (None # steps) a b"
| born: "g \<in> set (hist_generated h a) \<Longrightarrow> becomes steps g b \<or> yields steps g b \<Longrightarrow>
    yields (Some h # steps) a b"
| step: "moves_to h a b \<Longrightarrow> yields steps b c \<Longrightarrow> yields (Some h # steps) a c"

inductive_simps becomes_simps [simp]:
  "becomes [] a b" "becomes (None # steps) a b" "becomes (Some h # steps) a b"

inductive_simps yields_simps [simp]:
  "yields [] a b" "yields (None # steps) a b" "yields (Some h # steps) a b"

text \<open>What \<^verbatim>\<open>BRepTools_History\<close> promises: its maps are keyed by \<^verbatim>\<open>IsSame\<close>.\<close>

definition hist_ok :: "history \<Rightarrow> bool" where
  "hist_ok h = (\<forall>a b. is_same a b \<longrightarrow> hist_removed h a = hist_removed h b \<and>
     hist_modified h a = hist_modified h b \<and> hist_generated h a = hist_generated h b)"

definition steps_ok :: "history option list \<Rightarrow> bool" where
  "steps_ok steps = (\<forall>h. Some h \<in> set steps \<longrightarrow> hist_ok h)"

lemma steps_ok_Cons [simp]: "steps_ok (step # steps) = ((\<forall>h. step = Some h \<longrightarrow> hist_ok h) \<and> steps_ok steps)"
  by (auto simp: steps_ok_def)

lemma moves_to_same:
  "hist_ok h \<Longrightarrow> is_same a a' \<Longrightarrow> moves_to h a b \<Longrightarrow> \<exists>b'. is_same b b' \<and> moves_to h a' b'"
  unfolding moves_to_def hist_ok_def by (metis is_same_refl)

lemma becomes_same:
  "becomes steps a b \<Longrightarrow> steps_ok steps \<Longrightarrow> is_same a a' \<Longrightarrow> \<exists>b'. is_same b b' \<and> becomes steps a' b'"
proof (induction arbitrary: a' rule: becomes.induct)
  case (step h a b steps c)
  from step.prems(1) have "hist_ok h" by simp
  from moves_to_same [OF this step.prems(2) step.hyps(1)] obtain b' where b': "is_same b b'" "moves_to h a' b'"
    by blast
  from step.IH [OF _ b'(1)] step.prems(1) obtain c' where "is_same c c'" "becomes steps b' c'" by auto
  with b' show ?case by auto
qed auto

lemma yields_same:
  "yields steps a b \<Longrightarrow> steps_ok steps \<Longrightarrow> is_same a a' \<Longrightarrow> \<exists>b'. is_same b b' \<and> yields steps a' b'"
proof (induction arbitrary: a' rule: yields.induct)
  case (born g h a steps b)
  then have "g \<in> set (hist_generated h a')" by (auto simp: hist_ok_def)
  then have "yields (Some h # steps) a' b" using born.IH by (auto intro: yields.born)
  then show ?case using is_same_refl by blast
next
  case (step h a b steps c)
  from step.prems(1) have "hist_ok h" by simp
  from moves_to_same [OF this step.prems(2) step.hyps(1)] obtain b' where b': "is_same b b'" "moves_to h a' b'"
    by blast
  from step.IH [OF _ b'(1)] step.prems(1) obtain c' where "is_same c c'" "yields steps b' c'" by auto
  with b' show ?case by auto
qed auto

section \<open>The images are what the shapes become and yield\<close>

text \<open>A list of images holds exact shapes of a set, and one at least for every key of it.\<close>

definition represents :: "shape set \<Rightarrow> shape set \<Rightarrow> bool" where
  "represents X Y = (X \<subseteq> Y \<and> skey ` X = skey ` Y)"

definition reach :: "(shape \<Rightarrow> shape \<Rightarrow> bool) \<Rightarrow> shape set \<Rightarrow> shape set" where
  "reach R X = {b. \<exists>a \<in> X. R a b}"

definition keyed :: "(shape \<Rightarrow> shape \<Rightarrow> bool) \<Rightarrow> bool" where
  "keyed R = (\<forall>a b a'. R a b \<longrightarrow> is_same a a' \<longrightarrow> (\<exists>b'. is_same b b' \<and> R a' b'))"

lemma represents_refl [simp]: "represents X X"
  by (simp add: represents_def)

lemma represents_trans [trans]: "represents X Y \<Longrightarrow> represents Y Z \<Longrightarrow> represents X Z"
  by (auto simp: represents_def)

lemma represents_Un: "represents X Y \<Longrightarrow> represents X' Y' \<Longrightarrow> represents (X \<union> X') (Y \<union> Y')"
  by (auto simp: represents_def image_Un)

lemma represents_filter:
  assumes "represents X Y" and "\<And>a b. is_same a b \<Longrightarrow> P a = P b"
  shows "represents {x \<in> X. P x} {y \<in> Y. P y}"
proof -
  have "skey y \<in> skey ` {x \<in> X. P x}" if "y \<in> Y" "P y" for y
  proof -
    from assms(1) that(1) have "skey y \<in> skey ` X" by (simp add: represents_def)
    then obtain x where "x \<in> X" "is_same y x" by (auto simp: is_same_def)
    then have "x \<in> {x \<in> X. P x}" "skey y = skey x" using assms(2) [of y x] that(2) by (simp_all add: is_same_def)
    then show ?thesis by (rule rev_image_eqI)
  qed
  then show ?thesis using assms(1) unfolding represents_def by blast
qed

lemma reach_simps [simp]: "reach R {} = {}" "reach R (insert x X) = Collect (R x) \<union> reach R X"
  "reach R (X \<union> Y) = reach R X \<union> reach R Y"
  by (auto simp: reach_def)

lemma represents_reach:
  assumes R: "keyed R" and X: "represents X Y"
  shows "represents (reach R X) (reach R Y)"
proof -
  have "skey b \<in> skey ` reach R X" if "a \<in> Y" "R a b" for a b
  proof -
    from X that(1) have "skey a \<in> skey ` X" by (simp add: represents_def)
    then obtain x where "x \<in> X" "is_same a x" by (auto simp: is_same_def)
    with R that(2) obtain b' where "is_same b b'" "R x b'" unfolding keyed_def by blast
    with \<open>x \<in> X\<close> show ?thesis unfolding reach_def is_same_def by force
  qed
  then show ?thesis using X unfolding represents_def reach_def by blast
qed

lemma keyed_moves: "hist_ok h \<Longrightarrow> keyed (moves_to h)"
  unfolding keyed_def using moves_to_same by blast

lemma keyed_generated: "hist_ok h \<Longrightarrow> keyed (\<lambda>a b. b \<in> set (hist_generated h a))"
  unfolding keyed_def hist_ok_def by (metis is_same_refl)

lemma keyed_becomes: "steps_ok steps \<Longrightarrow> keyed (becomes steps)"
  unfolding keyed_def using becomes_same by blast

lemma keyed_yields: "steps_ok steps \<Longrightarrow> keyed (yields steps)"
  unfolding keyed_def using yields_same by blast

lemma represents_append_all: "represents (set (append_all out xs)) (set out \<union> set xs)"
  using set_append_all_subset by (simp add: represents_def image_Un)

lemma represents_through_one: "represents (set (through h x out)) (set out \<union> Collect (moves_to h x))"
proof -
  have "represents (set (append_unique out x)) (insert x (set out))"
    using set_append_unique_subset by (simp add: represents_def)
  moreover have "Collect (moves_to h x) =
      (if hist_removed h x then {} else if hist_modified h x = [] then {x} else set (hist_modified h x))"
    by (auto simp: moves_to_def)
  ultimately show ?thesis using represents_append_all [of out "hist_modified h x"]
    by (simp add: through_def)
qed

lemma represents_fold:
  assumes "\<And>x out. represents (set (f x out)) (set out \<union> Collect (R x))"
  shows "represents (set (fold f xs out)) (set out \<union> reach R (set xs))"
proof (induction xs arbitrary: out)
  case (Cons x xs)
  have "represents (set (fold f (x # xs) out)) (set (f x out) \<union> reach R (set xs))"
    using Cons.IH by simp
  also have "represents \<dots> (set out \<union> Collect (R x) \<union> reach R (set xs))"
    by (rule represents_Un [OF assms represents_refl])
  finally show ?case by (simp add: Un_assoc)
qed simp

lemma represents_through: "represents (set (fold (through h) xs out)) (set out \<union> reach (moves_to h) (set xs))"
  by (rule represents_fold [OF represents_through_one])

lemma represents_generated:
  "represents (set (fold (\<lambda>m out. append_all out (hist_generated h m)) xs out))
     (set out \<union> reach (\<lambda>a b. b \<in> set (hist_generated h a)) (set xs))"
  by (rule represents_fold) (use represents_append_all in simp)

lemma reach_then:
  "reach (becomes (None # steps)) X = reach (becomes steps) X"
  "reach (yields (None # steps)) X = reach (yields steps) X"
  "reach (becomes (Some h # steps)) X = reach (becomes steps) (reach (moves_to h) X)"
  "reach (yields (Some h # steps)) X =
     (let G = reach (\<lambda>a b. b \<in> set (hist_generated h a)) X
      in reach (becomes steps) G \<union> reach (yields steps) G \<union> reach (yields steps) (reach (moves_to h) X))"
  by (auto simp: reach_def)

text \<open>The loop over the steps, from any two lists of images.\<close>

lemma represents_compose:
  "steps_ok steps \<Longrightarrow>
   represents (set (fst (fold compose_step steps (ms, gs)))) (reach (becomes steps) (set ms)) \<and>
   represents (set (snd (fold compose_step steps (ms, gs))))
     (reach (becomes steps) (set gs) \<union> reach (yields steps) (set ms) \<union> reach (yields steps) (set gs))"
proof (induction steps arbitrary: ms gs)
  case Nil
  then show ?case by (simp add: reach_def)
next
  case (Cons step steps)
  show ?case
  proof (cases step)
    case None
    then show ?thesis using Cons by (simp add: reach_then compose_step_def)
  next
    case (Some h)
    let ?M = "reach (moves_to h)" and ?G = "reach (\<lambda>a b. b \<in> set (hist_generated h a))"
    define ms' where "ms' = fst (compose_step step (ms, gs))"
    define gs' where "gs' = snd (compose_step step (ms, gs))"
    from Cons.prems Some have ok: "steps_ok steps" by simp
    have M: "represents (set ms') (?M (set ms))"
      using represents_through [of h ms "[]"] Some by (simp add: ms'_def compose_step_def)
    have "represents (set gs') (?M (set gs) \<union> ?G (set ms) \<union> ?G (set gs))"
      unfolding gs'_def Some compose_step_def option.case prod.case Let_def snd_conv
      by (rule represents_trans [OF represents_generated represents_Un [OF
            represents_trans [OF represents_generated represents_Un [OF represents_through [of _ _ "[]", simplified] represents_refl]]
            represents_refl]])
    from represents_reach [OF keyed_becomes [OF ok] this] represents_reach [OF keyed_yields [OF ok] this]
    have "represents (reach (becomes steps) (set gs') \<union> reach (yields steps) (set ms') \<union> reach (yields steps) (set gs'))
        (reach (becomes steps) (?M (set gs) \<union> ?G (set ms) \<union> ?G (set gs)) \<union> reach (yields steps) (?M (set ms)) \<union>
         reach (yields steps) (?M (set gs) \<union> ?G (set ms) \<union> ?G (set gs)))"
      using represents_reach [OF keyed_yields [OF ok] M] by (intro represents_Un)
    also have "\<dots> = reach (becomes (step # steps)) (set gs) \<union> reach (yields (step # steps)) (set ms) \<union>
        reach (yields (step # steps)) (set gs)"
      unfolding Some reach_then Let_def by auto
    finally have "represents (reach (becomes steps) (set gs') \<union> reach (yields steps) (set ms') \<union> reach (yields steps) (set gs'))
      (reach (becomes (step # steps)) (set gs) \<union> reach (yields (step # steps)) (set ms) \<union>
        reach (yields (step # steps)) (set gs))" .
    moreover have "fold compose_step (step # steps) (ms, gs) = fold compose_step steps (ms', gs')"
      by (simp add: ms'_def gs'_def)
    moreover have "represents (reach (becomes steps) (set ms')) (reach (becomes (step # steps)) (set ms))"
      using represents_reach [OF keyed_becomes [OF ok] M] by (simp add: Some reach_then)
    ultimately show ?thesis
      using represents_trans [OF conjunct1 [OF Cons.IH [OF ok, of ms' gs']]]
        represents_trans [OF conjunct2 [OF Cons.IH [OF ok, of ms' gs']]] by (simp only: simp_thms)
  qed
qed

lemma represents_images:
  assumes "steps_ok steps"
  shows "represents (set (fst (images steps s))) (Collect (becomes steps s))"
    and "represents (set (snd (images steps s))) (Collect (yields steps s))"
  using represents_compose [OF assms, of "[s]" "[]"] by (simp_all add: images_def reach_def)

lemma distinct_through:
  "distinct (map skey out) \<Longrightarrow> distinct (map skey (fold (through h) xs out))"
  by (induction xs arbitrary: out) (auto simp: through_def intro: append_unique_distinct append_all_distinct)

lemma distinct_images: "distinct (map skey (fst (images steps s)))"
proof -
  have "distinct (map skey ms) \<Longrightarrow> distinct (map skey (fst (fold compose_step steps (ms, gs))))" for ms gs
    by (induction steps arbitrary: ms gs)
      (auto simp: compose_step_def Let_def distinct_through [of "[]", simplified] split: option.splits)
  then show ?thesis by (simp add: images_def)
qed

text \<open>A single image that is the shape itself is the only key there is.\<close>

lemma kept_iff:
  assumes "steps_ok steps"
  shows "(length (fst (images steps s)) = 1 \<and> is_same (hd (fst (images steps s))) s) =
    (skey ` Collect (becomes steps s) = {skey s})"
proof -
  have keys: "skey ` Collect (becomes steps s) = set (map skey (fst (images steps s)))"
    using represents_images(1) [OF assms] by (simp add: represents_def)
  have "(length xs = 1 \<and> is_same (hd xs) s) = (set (map skey xs) = {skey s})"
    if "distinct (map skey xs)" for xs
  proof (cases xs)
    case (Cons x ys)
    with that show ?thesis by (cases ys) (auto simp: is_same_def)
  qed simp
  from this [OF distinct_images] show ?thesis unfolding keys .
qed

section \<open>The calls of one shape\<close>

definition modified_in :: "history_call list \<Rightarrow> shape \<Rightarrow> shape set" where
  "modified_in calls s = {m. AddModified s m \<in> set calls}"

definition generated_in :: "history_call list \<Rightarrow> shape \<Rightarrow> shape set" where
  "generated_in calls s = {g. AddGenerated s g \<in> set calls}"

text \<open>What the calls should say of a shape: what the steps say of it, composed.\<close>

definition same_kinds :: "history option list \<Rightarrow> shape \<Rightarrow> bool" where
  "same_kinds steps s = (\<forall>a b. becomes steps s a \<and> becomes steps s b \<and> is_same a b \<longrightarrow> shape_type a = shape_type b)"

definition spec_modified :: "history option list \<Rightarrow> shape \<Rightarrow> shape set" where
  "spec_modified steps s =
     (if skey ` Collect (becomes steps s) = {skey s} then {}
      else {m. becomes steps s m \<and> shape_type m = shape_type s})"

definition spec_generated :: "history option list \<Rightarrow> shape \<Rightarrow> shape set" where
  "spec_generated steps s =
     {g. yields steps s g \<and> \<not> is_same g s \<and> skey g \<notin> skey ` Collect (becomes steps s)}"

lemma compose_shape_calls:
  assumes ok: "steps_ok steps" and kinds: "same_kinds steps s"
  shows "represents (modified_in (compose_shape steps (shape_type s) s) s) (spec_modified steps s)"
    and "represents (generated_in (compose_shape steps k s) s) (spec_generated steps s)"
proof -
  let ?ms = "fst (images steps s)" and ?gs = "snd (images steps s)"
  note M = represents_images(1) [OF ok, of s, unfolded represents_def] and G = represents_images(2) [OF ok, of s, unfolded represents_def]
  have "modified_in (compose_shape steps (shape_type s) s) s =
      (if skey ` Collect (becomes steps s) = {skey s} then {}
       else {m \<in> set ?ms. shape_type m = shape_type s})"
    unfolding kept_iff [OF ok, symmetric]
    by (auto simp: modified_in_def compose_shape_def Let_def case_prod_beta)
  moreover have "represents {m \<in> set ?ms. shape_type m = shape_type s} {m. becomes steps s m \<and> shape_type m = shape_type s}"
  proof -
    have "skey m \<in> skey ` {m \<in> set ?ms. shape_type m = shape_type s}"
      if "becomes steps s m" "shape_type m = shape_type s" for m
    proof -
      from M that(1) have "skey m \<in> skey ` set ?ms" by blast
      then obtain m' where m': "m' \<in> set ?ms" "is_same m m'" by (auto simp: is_same_def)
      from M m'(1) have "becomes steps s m'" by blast
      with kinds that m'(2) have "shape_type m' = shape_type s" unfolding same_kinds_def by metis
      with m'(1) have "m' \<in> {m \<in> set ?ms. shape_type m = shape_type s}" by simp
      moreover from m'(2) have "skey m = skey m'" by (simp add: is_same_def)
      ultimately show ?thesis by (rule rev_image_eqI)
    qed
    with M show ?thesis unfolding represents_def by blast
  qed
  ultimately show "represents (modified_in (compose_shape steps (shape_type s) s) s) (spec_modified steps s)"
    by (simp add: spec_modified_def)
  have "generated_in (compose_shape steps k s) s = {g \<in> set ?gs. \<not> is_same g s \<and> skey g \<notin> skey ` set ?ms}"
    by (auto simp: generated_in_def compose_shape_def Let_def list_ex_iff is_same_def case_prod_beta image_iff)
  also have "represents \<dots> {g \<in> Collect (yields steps s). \<not> is_same g s \<and> skey g \<notin> skey ` set ?ms}"
    by (rule represents_filter [OF represents_images(2) [OF ok]]) (auto simp: is_same_def)
  also have "\<dots> = spec_generated steps s"
    unfolding spec_generated_def conjunct2 [OF M] mem_Collect_eq by (simp only: conj_commute conj_left_commute)
  finally show "represents (generated_in (compose_shape steps k s) s) (spec_generated steps s)" .
qed

lemma compose_shape_names:
  "AddModified s m \<in> set (compose_shape steps k t) \<Longrightarrow> t = s"
  "AddGenerated s m \<in> set (compose_shape steps k t) \<Longrightarrow> t = s"
  by (auto simp: compose_shape_def Let_def case_prod_beta split: if_splits)

lemma calls_of_shape:
  assumes M: "maps_ok M input" and s: "s \<in> set (M input k)" "k \<in> set kEntityKinds"
  shows "modified_in (compose_histories M input steps) s = modified_in (compose_shape steps k s) s"
    and "generated_in (compose_histories M input steps) s = generated_in (compose_shape steps k s) s"
proof -
  from M s(1) have "shape_type s = k" by (simp add: maps_ok_def)
  with M have own: "s \<in> set (M input k') \<Longrightarrow> k' = k" for k' unfolding maps_ok_def by metis
  have calls: "set (compose_histories M input steps) =
      (\<Union>k \<in> set kEntityKinds. \<Union>t \<in> set (M input k). set (compose_shape steps k t))"
    by (simp add: compose_histories_def)
  show "modified_in (compose_histories M input steps) s = modified_in (compose_shape steps k s) s"
    unfolding modified_in_def calls using s own compose_shape_names(1) by blast
  show "generated_in (compose_histories M input steps) s = generated_in (compose_shape steps k s) s"
    unfolding generated_in_def calls using s own compose_shape_names(2) by blast
qed

end
