(* ===== verification/BlockArrays.thy ===== *)
theory BlockArrays
  imports BlockQueries Histories
begin

text \<open>
  \<^verbatim>\<open>multi_transform\<close>: a 1-D or 2-D array of copies of a block, each the session's copy moved by a
  translation, with a history that gives every sub-shape of a copy to the sub-shape of the block it
  was copied from, then glued and committed. The copier, the gluer and the merging of the gluer's
  history are fields of \<open>array_tools\<close>. The product of the counts is kept in an \<^verbatim>\<open>int\<close>; it is taken
  to wrap, as compiled code has it.
\<close>

section \<open>What OCCT does\<close>

text \<open>The gluer's answers: after \<^verbatim>\<open>Detect\<close>, after \<^verbatim>\<open>Perform\<close>, the shape, the merged history.\<close>

record glued =
  gl_detect_error :: int
  gl_detect_warning :: int
  gl_error :: int
  gl_warning :: int
  gl_shape :: shape
  gl_merged :: "history_call list \<Rightarrow> history"

text \<open>
  The tolerance of a vertex; the n-th \<^verbatim>\<open>BRepBuilderAPI_Copy\<close> of the body, as its shape and the
  TShape of each sub-shape's image; \<^verbatim>\<open>Moved\<close> by a translation; \<^verbatim>\<open>gp_Vec::Magnitude\<close>; the
  history of the calls; the gluer on a compound at a tolerance.
\<close>

record array_tools =
  vertex_tolerance :: "shape \<Rightarrow> f64"
  copier :: "nat \<Rightarrow> shape \<Rightarrow> string + shape \<times> (shape \<Rightarrow> nat)"
  translated :: "vec \<Rightarrow> shape \<Rightarrow> shape"
  magnitude :: "vec \<Rightarrow> f64"
  history_of :: "history_call list \<Rightarrow> history"
  gluer :: "shape \<Rightarrow> f64 \<Rightarrow> string + glued"

datatype array_error =
    ArrayRefused session_error
  | VectorsNotFinite
  | VectorCount nat
  | CountOfCounts nat nat
  | CountBelowOne int nat
  | OneBlock
  | VectorTooShort nat
  | CopiesFailed string
  | GluerFailed int int

section \<open>The arguments\<close>

text \<open>The loop over the counts with \<^verbatim>\<open>int total\<close>.\<close>

fun count_blocks :: "nat \<Rightarrow> int list \<Rightarrow> int \<Rightarrow> (array_error, int) result" where
  "count_blocks k [] tot = Inr tot"
| "count_blocks k (c # cs) tot =
     (if c < 1 then Inl (CountBelowOne c k) else count_blocks (k + 1) cs (to_int32 (tot * c)))"

fun check_steps :: "array_tools \<Rightarrow> nat \<Rightarrow> (vec \<times> int) list \<Rightarrow> (array_error, unit) result" where
  "check_steps tools k [] = Inr ()"
| "check_steps tools k ((v, c) # vs) =
     (if 1 < c \<and> fle (magnitude tools v) confusion then Inl (VectorTooShort k) else check_steps tools (k + 1) vs)"

definition check_array :: "array_tools \<Rightarrow> vec list \<Rightarrow> int list \<Rightarrow> (array_error, unit) result" where
  "check_array tools vectors counts =
     bind_result (require (\<not> (vectors = [] \<or> 2 < length vectors)) (VectorCount (length vectors))) (\<lambda>_.
     bind_result (require (length counts = length vectors) (CountOfCounts (length counts) (length vectors))) (\<lambda>_.
     bind_result (count_blocks 0 counts 1) (\<lambda>tot.
     bind_result (require (\<not> tot < 2) OneBlock) (\<lambda>_.
       check_steps tools 0 (zip vectors counts)))))"

section \<open>The copies\<close>

text \<open>\<^verbatim>\<open>steps[0] * i\<close>, and \<^verbatim>\<open>steps[1] * j\<close> when there are two vectors.\<close>

definition scaled :: "rounding \<Rightarrow> vec \<Rightarrow> int \<Rightarrow> vec" where
  "scaled rnd v n = (case v of (x, y, z) \<Rightarrow>
     (fmul rnd x (Fin (of_int n)), fmul rnd y (Fin (of_int n)), fmul rnd z (Fin (of_int n))))"

definition vec_sum :: "rounding \<Rightarrow> vec \<Rightarrow> vec \<Rightarrow> vec" where
  "vec_sum rnd u v = (case (u, v) of ((a, b, c), (x, y, z)) \<Rightarrow> (fadd rnd a x, fadd rnd b y, fadd rnd c z))"

definition shift_of :: "rounding \<Rightarrow> vec list \<Rightarrow> int \<Rightarrow> int \<Rightarrow> vec" where
  "shift_of rnd vectors i j =
     (let shift = scaled rnd (vectors ! 0) i
      in if 1 < length vectors then vec_sum rnd shift (scaled rnd (vectors ! 1) j) else shift)"

text \<open>The blocks, the history's calls and the failure so far; how often the copier has run.\<close>

record copies =
  cp_blocks :: "shape list"
  cp_calls :: "history_call list"
  cp_failure :: "string option"
  cp_runs :: nat

text \<open>The loop over the pairs of a sub-shape of the block and one of the copy.\<close>

fun pair_places :: "(shape \<Rightarrow> nat) \<Rightarrow> (shape \<times> shape) list \<Rightarrow> copies \<Rightarrow> copies" where
  "pair_places put [] cp = cp"
| "pair_places put ((o1, p) # ps) cp =
     (if tshape p \<noteq> put o1
      then cp\<lparr>cp_failure := Some ''a copy's sub-shape is not where BRepBuilderAPI_Copy put it''\<rparr>
      else pair_places put ps (cp\<lparr>cp_calls := cp_calls cp @ [AddGenerated o1 p]\<rparr>))"

text \<open>The inner loop, with its \<^verbatim>\<open>break\<close>; the outer loop goes on after it.\<close>

fun copy_row ::
  "occt \<Rightarrow> array_tools \<Rightarrow> rounding \<Rightarrow> vec list \<Rightarrow> shape \<Rightarrow> int \<Rightarrow> int list \<Rightarrow> copies \<Rightarrow> string + copies" where
  "copy_row oc tools rnd vectors body j [] cp = Inr cp"
| "copy_row oc tools rnd vectors body j (i # is) cp =
     (if i = 0 \<and> j = 0 then copy_row oc tools rnd vectors body j is cp
      else case copier tools (cp_runs cp) body of
        Inl t \<Rightarrow> Inl t
      | Inr (twin, put) \<Rightarrow>
          (let moved = translated tools (shift_of rnd vectors i j) twin;
               original = registered_subshapes (map_shapes oc) body;
               placed = registered_subshapes (map_shapes oc) moved;
               cp1 = cp\<lparr>cp_runs := cp_runs cp + 1\<rparr>
           in if length placed \<noteq> length original
              then Inr (cp1\<lparr>cp_failure := Some ''a copy of the block has another number of sub-shapes''\<rparr>)
              else let cp2 = pair_places put (zip original placed) cp1
                   in copy_row oc tools rnd vectors body j is (cp2\<lparr>cp_blocks := cp_blocks cp2 @ [moved]\<rparr>)))"

fun copy_rows ::
  "occt \<Rightarrow> array_tools \<Rightarrow> rounding \<Rightarrow> vec list \<Rightarrow> shape \<Rightarrow> int list \<Rightarrow> int list \<Rightarrow> copies \<Rightarrow> string + copies" where
  "copy_rows oc tools rnd vectors body is [] cp = Inr cp"
| "copy_rows oc tools rnd vectors body is (j # js) cp =
     (case copy_row oc tools rnd vectors body j is cp of
        Inl t \<Rightarrow> Inl t | Inr cp' \<Rightarrow> copy_rows oc tools rnd vectors body is js cp')"

definition array_counts :: "int list \<Rightarrow> int \<times> int" where
  "array_counts counts = (counts ! 0, if 1 < length counts then counts ! 1 else 1)"

definition make_copies ::
  "occt \<Rightarrow> array_tools \<Rightarrow> rounding \<Rightarrow> vec list \<Rightarrow> int list \<Rightarrow> shape \<Rightarrow> string + copies" where
  "make_copies oc tools rnd vectors counts body =
     (let (n1, n2) = array_counts counts
      in copy_rows oc tools rnd vectors body [0..n1 - 1] [0..n2 - 1]
           \<lparr>cp_blocks = [body], cp_calls = [], cp_failure = None, cp_runs = 0\<rparr>)"

section \<open>The glue\<close>

definition block_tolerance :: "occt \<Rightarrow> array_tools \<Rightarrow> shape \<Rightarrow> f64" where
  "block_tolerance oc tools body =
     fold (\<lambda>v tol. if fle tol (vertex_tolerance tools v) then vertex_tolerance tools v else tol)
       (explore oc body VERTEX) confusion"

text \<open>The shape to commit and its history; nothing is committed when the shape is null.\<close>

definition glue_copies ::
  "array_tools \<Rightarrow> shape \<Rightarrow> f64 \<Rightarrow> history_call list \<Rightarrow> (array_error, shape \<times> history) result" where
  "glue_copies tools input tol calls =
     (case gluer tools input tol of
        Inl t \<Rightarrow> Inl (CopiesFailed t)
      | Inr g \<Rightarrow>
          if gl_detect_error g = 0 \<and> gl_detect_warning g \<noteq> 2
          then if gl_error g = 0 \<and> gl_warning g \<noteq> 1
               then if is_null (gl_shape g) then Inl (GluerFailed 0 (gl_warning g))
                    else Inr (gl_shape g, gl_merged g calls)
               else if gl_error g = 0 then Inr (input, history_of tools calls)
               else Inl (GluerFailed (gl_error g) (gl_warning g))
          else Inl (GluerFailed (gl_detect_error g) (gl_detect_warning g)))"

definition array_of ::
  "occt \<Rightarrow> array_tools \<Rightarrow> rounding \<Rightarrow> vec list \<Rightarrow> int list \<Rightarrow> shape \<Rightarrow> nat \<Rightarrow> (array_error, shape \<times> history) result" where
  "array_of oc tools rnd vectors counts body addr =
     (case make_copies oc tools rnd vectors counts body of
        Inl t \<Rightarrow> Inl (CopiesFailed t)
      | Inr cp \<Rightarrow>
          (case cp_failure cp of
             Some t \<Rightarrow> Inl (CopiesFailed t)
           | None \<Rightarrow> glue_copies tools (make_root addr (cp_blocks cp)) (block_tolerance oc tools body) (cp_calls cp)))"

section \<open>The operation\<close>

definition in_array :: "'a outcome \<Rightarrow> (array_error, 'a) result" where
  "in_array r = (case r of Inl e \<Rightarrow> Inl (ArrayRefused e) | Inr x \<Rightarrow> Inr x)"

lemma in_array_simps [simp, result_simps]:
  "in_array (Inl e) = Inl (ArrayRefused e)" "in_array (Inr x) = Inr x"
  by (simp_all add: in_array_def)

definition array_body ::
  "occt \<Rightarrow> array_tools \<Rightarrow> rounding \<Rightarrow> entity_id \<Rightarrow> vec list \<Rightarrow> int list \<Rightarrow> session \<Rightarrow>
   (array_error, op_report) result \<times> session" where
  "array_body oc tools rnd block_id vectors counts s =
     (case bind_result (check_array tools vectors counts) (\<lambda>_. in_array (sole_body oc s [block_id])) of
        Inl e \<Rightarrow> (Inl e, s)
      | Inr body \<Rightarrow>
          (let untouched = bodies_excluding s [body];
               s1 = s\<lparr>s_heap := s_heap s + 1\<rparr>
           in case array_of oc tools rnd vectors counts body (s_heap s) of
                Inl e \<Rightarrow> (Inl e, s1)
              | Inr (result, hist) \<Rightarrow>
                  (let (r, s2) = commit oc \<lparr>ca_bodies = concat_bodies untouched result, ca_history = Some hist,
                         ca_op_name = ''multi_transform'', ca_built = result, ca_mode = Strict,
                         ca_warnings = [], ca_pieces = KeepId\<rparr> s1
                   in (in_array r, s2))))"

definition multi_transform ::
  "occt \<Rightarrow> array_tools \<Rightarrow> rounding \<Rightarrow> entity_id \<Rightarrow> vec list \<Rightarrow> int list \<Rightarrow> session \<Rightarrow>
   (array_error, op_report) result \<times> session" where
  "multi_transform oc tools rnd block_id vectors counts s =
     (if \<not> list_all vec_finite vectors then (Inl VectorsNotFinite, s)
      else if s_in_op s then (Inl (ArrayRefused Busy), s)
      else let (r, s') = array_body oc tools rnd block_id vectors counts (s\<lparr>s_in_op := True\<rparr>)
           in (r, s'\<lparr>s_in_op := False\<rparr>))"

end
