(* ===== verification/SessionRun.thy ===== *)
theory SessionRun
  imports TransformFacts BlockArrays
begin

text \<open>
  The session as a state machine: the methods that change it as the steps of a relation, the
  sessions reachable from a new one, and what every run keeps: the invariant, the growth of the
  counters and of the name table, and the kind of each id.
\<close>

section \<open>Steps\<close>

text \<open>
  What OCCT does when a transform changes Locations only: \<^verbatim>\<open>Moved\<close> moves keys by one injective
  function, and two bodies that are the same shape, TShape and Location, have the same sub-shapes.
  Nothing is asked of the session's registry.
\<close>

definition moves_as_occt :: "occt \<Rightarrow> trsf \<Rightarrow> session \<Rightarrow> bool" where
  "moves_as_occt oc t s =
     (location_only t \<longrightarrow> (\<exists>f. trsf_ok oc t f) \<and> coherent oc (root_bodies (st_root (s_state s))))"

inductive session_step :: "occt \<Rightarrow> session \<Rightarrow> session \<Rightarrow> bool" for oc where
  Step_commit: "guarded (commit oc a) s = (r, s') \<Longrightarrow> session_step oc s s'"
| Step_transform: "guarded (apply_trsf oc t ids name) s = (r, s') \<Longrightarrow> moves_as_occt oc t s \<Longrightarrow>
    session_step oc s s'"
| Step_copy: "copy_bodies oc dup ids s = (r, s') \<Longrightarrow> session_step oc s s'"
| Step_array: "multi_transform oc tools rnd block_id vectors counts s = (r', s') \<Longrightarrow> session_step oc s s'"
| Step_snapshot: "snapshot s = (r, s') \<Longrightarrow> session_step oc s s'"
| Step_restore: "restore mark s = (r', s') \<Longrightarrow> session_step oc s s'"
| Step_discard: "discard_snapshot mark s = (r', s') \<Longrightarrow> session_step oc s s'"
| Step_tear: "session_step oc s (s\<lparr>s_tear := True\<rparr>)"

inductive reachable :: "occt \<Rightarrow> bool \<Rightarrow> session \<Rightarrow> bool" for oc v where
  Reach_new: "reachable oc v (new_session v)"
| Reach_step: "reachable oc v s \<Longrightarrow> session_step oc s s' \<Longrightarrow> reachable oc v s'"

inductive_cases session_stepE: "session_step oc s s'"
inductive_simps reachable_iff: "reachable oc v s"

section \<open>One step\<close>

text \<open>
  A property of two sessions that ignores the re-entrancy flag holds across a guarded method
  when it holds across its body.
\<close>

lemma guarded_cases:
  assumes "guarded body s = (r, s')"
  shows "(r = Inl Busy \<and> s' = s) \<or>
    (\<exists>t. body (s\<lparr>s_in_op := True\<rparr>) = (r, t) \<and> s' = t\<lparr>s_in_op := False\<rparr> \<and> \<not> s_in_op s)"
  using assms by (auto simp: guarded_def split: if_splits prod.splits)

lemma snapshot_cases:
  assumes "snapshot s = (r, s')"
  shows "(r = Inl Busy \<and> s' = s) \<or>
    (r = Inr (int (length (s_snapshots s))) \<and> \<not> s_in_op s \<and>
     s' = s\<lparr>s_snapshots := s_snapshots s @ [Some (s_state s)], s_in_op := False\<rparr>)"
  using guarded_cases [OF assms [unfolded snapshot_def]] by (auto simp: Let_def)

lemma restore_cases:
  assumes "restore mark s = (r, s')"
  shows "(\<exists>e. r = Inl e \<and> s' = (if e = Busy then s else s\<lparr>s_in_op := False\<rparr>)) \<or>
    (\<exists>st. r = Inr () \<and> 0 \<le> mark \<and> nat mark < length (s_snapshots s) \<and>
      s_snapshots s ! nat mark = Some st \<and> s' = s\<lparr>s_state := st, s_in_op := False\<rparr>)"
  using guarded_cases [OF assms [unfolded restore_def]]
  by (auto split: if_splits option.splits)

lemma discard_cases:
  assumes "discard_snapshot mark s = (r, s')"
  shows "(\<exists>e. r = Inl e \<and> s' = (if e = Busy then s else s\<lparr>s_in_op := False\<rparr>)) \<or>
    (r = Inr () \<and> 0 \<le> mark \<and> nat mark < length (s_snapshots s) \<and>
      s' = s\<lparr>s_snapshots := (s_snapshots s)[nat mark := None], s_in_op := False\<rparr>)"
  using guarded_cases [OF assms [unfolded discard_snapshot_def]]
  by (auto split: if_splits)

text \<open>What holds of any two sessions of a run: nothing issued or named is taken back.\<close>

definition extends :: "session \<Rightarrow> session \<Rightarrow> bool" where
  "extends s s' =
     (s_next_id s \<le> s_next_id s' \<and> s_next_op s \<le> s_next_op s' \<and>
      s_origins s \<subseteq>\<^sub>m s_origins s' \<and> s_names s \<subseteq>\<^sub>m s_names s')"

lemma extends_refl [simp]: "extends s s"
  by (simp add: extends_def)

lemma extends_trans: "extends s t \<Longrightarrow> extends t u \<Longrightarrow> extends s u"
  unfolding extends_def by (auto intro: map_le_trans)

lemma extends_flags [simp]:
  "extends (s\<lparr>s_in_op := b\<rparr>) t = extends s t" "extends s (t\<lparr>s_in_op := b\<rparr>) = extends s t"
  "extends s (t\<lparr>s_tear := b\<rparr>) = extends s t" "extends s (t\<lparr>s_heap := h\<rparr>) = extends s t"
  "extends (s\<lparr>s_heap := h\<rparr>) t = extends s t"
  by (simp_all add: extends_def)

text \<open>The kinds of the ids agree across the live state and the snapshots.\<close>

definition state_kinds :: "(entity_id \<Rightarrow> shape_enum) \<Rightarrow> session_state \<Rightarrow> bool" where
  "state_kinds K st = (\<forall>e rec. map_of (alive (st_registry st)) e = Some rec \<longrightarrow> ent_kind rec = K e)"

definition kinds_ok :: "(entity_id \<Rightarrow> shape_enum) \<Rightarrow> session \<Rightarrow> bool" where
  "kinds_ok K s = (state_kinds K (s_state s) \<and>
     (\<forall>st. Some st \<in> set (s_snapshots s) \<longrightarrow> state_kinds K st))"

text \<open>
  What a method has to show, all at once: it keeps the invariant, takes nothing back, and keeps
  the kinds of the ids issued before it.
\<close>

definition sound_step :: "occt \<Rightarrow> session \<Rightarrow> session \<Rightarrow> bool" where
  "sound_step oc s s' = (session_ok oc s' \<and> extends s s' \<and>
     (\<forall>K. kinds_ok K s \<longrightarrow> (\<exists>K'. (\<forall>e < s_next_id s. K' e = K e) \<and> kinds_ok K' s')))"

lemma kinds_ok_flags [simp]:
  "kinds_ok K (s\<lparr>s_in_op := b\<rparr>) = kinds_ok K s" "kinds_ok K (s\<lparr>s_tear := b\<rparr>) = kinds_ok K s"
  "kinds_ok K (s\<lparr>s_heap := h\<rparr>) = kinds_ok K s"
  by (simp_all add: kinds_ok_def)

lemma sound_step_refl: "session_ok oc s \<Longrightarrow> sound_step oc s s"
  by (auto simp: sound_step_def)

lemma sound_step_flags [simp]:
  "sound_step oc (s\<lparr>s_in_op := b\<rparr>) t = sound_step oc s t"
  "sound_step oc s (t\<lparr>s_in_op := b\<rparr>) = sound_step oc s t"
  "sound_step oc s (t\<lparr>s_tear := b\<rparr>) = sound_step oc s t"
  "sound_step oc (s\<lparr>s_heap := h\<rparr>) t = sound_step oc s t"
  by (simp_all add: sound_step_def)

lemma sound_step_guarded:
  assumes "guarded body s = (r, s')" and "session_ok oc s"
    and "\<And>r t. body (s\<lparr>s_in_op := True\<rparr>) = (r, t) \<Longrightarrow> sound_step oc s t"
  shows "sound_step oc s s'"
  using guarded_cases [OF assms(1)] assms(2,3) sound_step_refl by auto

text \<open>Commit: the carried entities keep their kind, the new ids are above every one in use.\<close>

lemma kinds_ok_committed:
  assumes ok: "session_ok oc s" and K: "kinds_ok K s"
  shows "\<exists>K'. (\<forall>e < s_next_id s. K' e = K e) \<and> kinds_ok K' (committed oc a s)"
proof -
  let ?c = "commit_carry oc a s"
  let ?K = "\<lambda>e. if e < s_next_id s then K e
      else case map_of (alive (r_registry ?c)) e of None \<Rightarrow> SHAPE | Some rec \<Rightarrow> ent_kind rec"
  note ready = session_ok_ready [OF ok]
  have old: "ent_kind rec = K e"
    if e: "e < s_next_id s" "map_of (alive (r_registry ?c)) e = Some rec" for e rec
  proof -
    from e carry_registry_old [OF ready refl e(1)] obtain rec0
      where "map_of (alive (live_registry s)) e = Some rec0" "ent_kind rec = ent_kind rec0"
      by (auto simp: commit_carry_def carried_of_def bind_eq_Some_conv dest!: carried_entity_ok)
    with K show ?thesis by (auto simp: kinds_ok_def state_kinds_def)
  qed
  have "state_kinds ?K (s_state (committed oc a s))"
    using old by (auto simp: state_kinds_def committed_def)
  moreover have "state_kinds ?K st" if "Some st \<in> set (s_snapshots s)" for st
  proof -
    have "live_ids (st_registry st) \<subseteq> {1..<s_next_id s}"
      using ok that by (auto simp: session_ok_def state_ok_def ids_below_def)
    with K that show ?thesis
      by (fastforce simp: kinds_ok_def state_kinds_def live_ids_dom)
  qed
  ultimately have "kinds_ok ?K (committed oc a s)"
    by (simp add: kinds_ok_def committed_def)
  then show ?thesis by (intro exI [of _ ?K]) simp
qed

lemma sound_step_commit:
  assumes ok: "session_ok oc s" and run: "commit oc a s = (r, s')"
  shows "sound_step oc s s'"
proof (cases r)
  case (Inl e)
  with run ok show ?thesis using commit_refused sound_step_refl by fastforce
next
  case (Inr rep)
  with run have s': "s' = committed oc a s" using commit_published by blast
  have "extends s s'"
    using carry_registry_ok(4) [OF session_ok_ready [OF ok] refl]
      carry_registry_names(2,3) [OF session_ok_ready [OF ok] refl]
    by (simp add: extends_def s' committed_def commit_carry_def)
  with s' ok show ?thesis
    by (simp add: sound_step_def session_ok_committed kinds_ok_committed)
qed

section \<open>The methods\<close>

text \<open>
  The contract of a method body: from a session with the invariant and whatever else the method
  needs, it leaves a sound one. \<^verbatim>\<open>OpGuard\<close> and the sequencing of methods keep it.
\<close>

locale session_method =
  fixes oc :: occt and needs :: "session \<Rightarrow> bool" and body :: "'a action"
  assumes sound: "session_ok oc s \<Longrightarrow> needs s \<Longrightarrow> body s = (r, t) \<Longrightarrow> sound_step oc s t"
    and flags: "needs (s\<lparr>s_in_op := b\<rparr>) = needs s"
begin

lemma guarded_sound:
  assumes "session_ok oc s" and "needs s" and "guarded body s = (r, s')"
  shows "sound_step oc s s'"
  by (rule sound_step_guarded [OF assms(3,1)])
    (use sound [of "s\<lparr>s_in_op := True\<rparr>"] assms(1,2) flags in simp)

end

interpretation commit_method: session_method oc "\<lambda>_. True" "commit oc a" for oc a
  by unfold_locales (simp_all add: sound_step_commit)

text \<open>A state that a session already holds, live or in a snapshot, may become the live one.\<close>

lemma sound_step_restate:
  assumes ok: "session_ok oc s"
    and st: "st = s_state s \<or> Some st \<in> set (s_snapshots s)"
    and snaps: "\<forall>x. Some x \<in> set snaps \<longrightarrow> x = s_state s \<or> Some x \<in> set (s_snapshots s)"
  shows "sound_step oc s (s\<lparr>s_state := st, s_snapshots := snaps\<rparr>)"
proof -
  have "\<exists>K'. (\<forall>e < s_next_id s. K' e = K e) \<and> kinds_ok K' (s\<lparr>s_state := st, s_snapshots := snaps\<rparr>)"
    if "kinds_ok K s" for K
    using that st snaps by (intro exI [of _ K]) (auto simp: kinds_ok_def)
  with assms show ?thesis
    by (auto simp: sound_step_def session_ok_def extends_def)
qed

lemma sound_step_snapshot:
  assumes "session_ok oc s" and "snapshot s = (r, s')"
  shows "sound_step oc s s'"
proof -
  have "sound_step oc s (s\<lparr>s_state := s_state s, s_snapshots := s_snapshots s @ [Some (s_state s)]\<rparr>)"
    by (rule sound_step_restate) (use assms(1) in auto)
  with snapshot_cases [OF assms(2)] sound_step_refl [OF assms(1)] show ?thesis by auto
qed

lemma sound_step_restore:
  assumes "session_ok oc s" and "restore mark s = (r, s')"
  shows "sound_step oc s s'"
proof -
  have "sound_step oc s (s\<lparr>s_state := st, s_snapshots := s_snapshots s\<rparr>)"
    if "nat mark < length (s_snapshots s)" "s_snapshots s ! nat mark = Some st" for st
  proof (rule sound_step_restate)
    show "st = s_state s \<or> Some st \<in> set (s_snapshots s)"
      using that by (metis nth_mem)
  qed (use assms(1) in auto)
  with restore_cases [OF assms(2)] sound_step_refl [OF assms(1)] show ?thesis
    by (auto split: if_splits)
qed

lemma sound_step_discard:
  assumes "session_ok oc s" and "discard_snapshot mark s = (r, s')"
  shows "sound_step oc s s'"
proof -
  have "sound_step oc s (s\<lparr>s_state := s_state s, s_snapshots := (s_snapshots s)[nat mark := None]\<rparr>)"
  proof (rule sound_step_restate)
    show "\<forall>x. Some x \<in> set ((s_snapshots s)[nat mark := None]) \<longrightarrow>
        x = s_state s \<or> Some x \<in> set (s_snapshots s)"
      using set_update_subset_insert [of "s_snapshots s" "nat mark" None] by auto
  qed (use assms(1) in auto)
  with discard_cases [OF assms(2)] sound_step_refl [OF assms(1)] show ?thesis
    by (auto split: if_splits)
qed

lemma sound_step_heap:
  "session_ok oc s \<Longrightarrow> sound_step oc (s\<lparr>s_heap := s_heap s + 1\<rparr>) t = sound_step oc s t"
  by simp

lemma sound_step_rebuild:
  assumes "session_ok oc s" and "rebuild_moved oc run ids name s = (r, s')"
  shows "sound_step oc s s'"
  using assms(2) sound_step_commit [OF session_ok_heap [OF assms(1)]]
    sound_step_refl [OF assms(1)] sound_step_refl [OF session_ok_heap [OF assms(1)]]
  by (auto simp: rebuild_moved_def Let_def split: sum.splits prod.splits if_splits)

lemma sound_step_relocate:
  assumes oc: "occt_ok oc" and ok: "session_ok oc s" and tr: "moves_as_occt oc t s"
    and loc: "location_only t" and run: "relocate oc t ids name s = (r, s')"
  shows "sound_step oc s s'"
proof -
  obtain f where f: "trsf_ok oc t f" "coherent oc (root_bodies (st_root (s_state s)))"
    using tr loc by (auto simp: moves_as_occt_def)
  have ok': "session_ok oc s'" by (rule session_ok_relocate [OF oc f(1) ok f(2) run])
  have idx: "index_ok (live_registry s)"
    using ok by (simp add: session_ok_def state_ok_def registry_ok_def)
  from relocate_cases [OF f(1) run] show ?thesis
  proof
    assume "\<exists>e. r = Inl e \<and> s' = s \<and> scoped_bodies oc s ids = Inl e"
    then show ?thesis using sound_step_refl [OF ok] by auto
  next
    assume "\<exists>moving remap rep. scoped_bodies oc s ids = Inr moving \<and> r = Inr rep \<and>
       remaps f (scope_keys oc s moving) remap \<and>
       rep = \<lparr>rep_delta = relocated_delta remap (live_registry s)
                  (relabel_registry remap (live_registry s)),
              rep_op_index = s_next_op s, rep_op_name = name\<rparr> \<and>
       s' = s\<lparr>s_state := \<lparr>st_root = make_root (s_heap s)
                  (map (\<lambda>b. if is_moving moving b then moved t b else b)
                     (root_bodies (st_root (s_state s)))),
                st_registry = relabel_registry remap (live_registry s),
                st_op_index = s_next_op s\<rparr>,
              s_next_op := s_next_op s + 1, s_heap := s_heap s + 1\<rparr>"
    then obtain moving remap root where scope: "scoped_bodies oc s ids = Inr moving"
      and rm: "remaps f (scope_keys oc s moving) remap"
      and s': "s' = s\<lparr>s_state := \<lparr>st_root = root,
                st_registry = relabel_registry remap (live_registry s),
                st_op_index = s_next_op s\<rparr>,
              s_next_op := s_next_op s + 1, s_heap := s_heap s + 1\<rparr>"
      by blast
    note spec = relabel_registry_spec [OF idx, of remap]
    have "kinds_ok K s'" if "kinds_ok K s" for K
      using that by (auto simp: kinds_ok_def state_kinds_def s' spec(2))
    then show ?thesis using ok' by (auto simp: sound_step_def extends_def s')
  qed
qed

lemma sound_step_transform:
  assumes oc: "occt_ok oc" and ok: "session_ok oc s" and tr: "moves_as_occt oc t s"
    and run: "apply_trsf oc t ids name s = (r, s')"
  shows "sound_step oc s s'"
  using run sound_step_relocate [OF oc ok tr] sound_step_rebuild [OF ok]
  by (auto simp: apply_trsf_def split: if_splits)

text \<open>Scopes do not look at the re-entrancy flag.\<close>

lemma require_alive_flags [simp]: "require_alive (s\<lparr>s_in_op := b\<rparr>) e = require_alive s e"
  by (simp add: require_alive_def require_issued_def)

lemma body_of_subshape_flags [simp]:
  "body_of_subshape oc (s\<lparr>s_in_op := b\<rparr>) = body_of_subshape oc s"
  by (simp add: body_of_subshape_def)

lemma scoped_bodies_flags [simp]:
  "scoped_bodies oc (s\<lparr>s_in_op := b\<rparr>) ids = scoped_bodies oc s ids"
  by (simp add: scoped_bodies_def Let_def split: option.splits list.splits)

lemma moves_as_occt_flags [simp]:
  "moves_as_occt oc t (s\<lparr>s_in_op := b\<rparr>) = moves_as_occt oc t s"
  by (simp add: moves_as_occt_def)

interpretation rebuild_method: session_method oc "\<lambda>_. True" "rebuild_moved oc run ids name"
  for oc run ids name
  by unfold_locales (simp_all add: sound_step_rebuild)

interpretation transform_method:
  session_method oc "\<lambda>s. occt_ok oc \<and> moves_as_occt oc t s" "apply_trsf oc t ids name"
  for oc t ids name
  by unfold_locales (auto intro: sound_step_transform)

lemma sound_step_copy:
  assumes "session_ok oc s" and "copy_bodies oc dup ids s = (r, s')"
  shows "sound_step oc s s'"
proof (rule sound_step_guarded [OF assms(2) [unfolded copy_bodies_def] assms(1)])
  fix r t
  let ?s = "s\<lparr>s_in_op := True\<rparr>"
  have ok: "session_ok oc ?s" using assms(1) by simp
  assume "(case owner_bodies oc ?s ids of
       Inl e \<Rightarrow> (Inl e, ?s)
     | Inr sources \<Rightarrow>
         (let copies = map dup sources in
          if list_ex is_null copies then (Inl CopyFailed, ?s)
          else
            let added = make_root (s_heap ?s) copies;
                s1 = ?s\<lparr>s_heap := s_heap ?s + 1\<rparr>
            in commit oc \<lparr>ca_bodies = concat_bodies (root_bodies (st_root (s_state s1))) added,
                 ca_history = None, ca_op_name = ''copy'', ca_built = added, ca_mode = Strict,
                 ca_warnings = [], ca_pieces = KeepId\<rparr> s1)) = (r, t)"
  then have "t = ?s \<or> (\<exists>a. commit oc a (?s\<lparr>s_heap := s_heap ?s + 1\<rparr>) = (r, t))"
    by (auto simp: Let_def split: sum.splits if_splits)
  then show "sound_step oc s t"
  proof
    assume "\<exists>a. commit oc a (?s\<lparr>s_heap := s_heap ?s + 1\<rparr>) = (r, t)"
    then have "sound_step oc (?s\<lparr>s_heap := s_heap ?s + 1\<rparr>) t"
      using sound_step_commit [OF session_ok_heap [OF ok]] by blast
    then show ?thesis by simp
  qed (use sound_step_refl [OF assms(1)] in simp)
qed

text \<open>
  \<^verbatim>\<open>multi_transform\<close> refuses its arguments, gives up on the copies or the glue with one address
  used, or ends in a commit.
\<close>

lemma multi_transform_cases:
  assumes "multi_transform oc tools rnd block_id vectors counts s = (r, s')"
  shows "s' = s \<or> (\<exists>t. s' = t\<lparr>s_in_op := False\<rparr> \<and>
    (t = s\<lparr>s_in_op := True\<rparr> \<or> t = s\<lparr>s_in_op := True, s_heap := s_heap s + 1\<rparr> \<or>
     (\<exists>a q. commit oc a (s\<lparr>s_in_op := True, s_heap := s_heap s + 1\<rparr>) = (q, t))))"
proof -
  have "t = u \<or> t = u\<lparr>s_heap := s_heap u + 1\<rparr> \<or> (\<exists>a q. commit oc a (u\<lparr>s_heap := s_heap u + 1\<rparr>) = (q, t))"
    if "array_body oc tools rnd block_id vectors counts u = (r, t)" for u t r
    using that by (auto simp: array_body_def Let_def split: sum.splits prod.splits)
  from this [of "s\<lparr>s_in_op := True\<rparr>"] assms show ?thesis
    by (fastforce simp: multi_transform_def split: if_splits prod.splits)
qed

lemma sound_step_array:
  assumes ok: "session_ok oc s" and run: "multi_transform oc tools rnd block_id vectors counts s = (r, s')"
  shows "sound_step oc s s'"
proof -
  let ?u = "s\<lparr>s_in_op := True, s_heap := s_heap s + 1\<rparr>"
  have "session_ok oc (s\<lparr>s_in_op := True\<rparr>)" using ok by simp
  from session_ok_heap [OF this] have "session_ok oc ?u" by simp
  then have commit: "sound_step oc s t" if "commit oc a ?u = (q, t)" for a q t
    using sound_step_commit [OF _ that] by simp
  from multi_transform_cases [OF run] show ?thesis
  proof (elim disjE exE conjE)
    show "sound_step oc s s'" if "s' = t\<lparr>s_in_op := False\<rparr>" and "commit oc a ?u = (q, t)" for t a q
      using commit [OF that(2)] that(1) by simp
  qed (use sound_step_refl [OF ok] session_ok_heap [OF ok] in \<open>simp_all add: sound_step_def\<close>)
qed

section \<open>Runs\<close>

lemma sound_step_session_step:
  assumes "occt_ok oc" and "session_ok oc s" and "session_step oc s s'"
  shows "sound_step oc s s'"
  using assms(3)
proof cases
  case Step_commit
  then show ?thesis using commit_method.guarded_sound [OF assms(2)] by blast
next
  case Step_transform
  then show ?thesis using transform_method.guarded_sound [OF assms(2)] assms(1) by blast
next
  case Step_copy
  then show ?thesis by (rule sound_step_copy [OF assms(2)])
next
  case Step_array
  then show ?thesis by (rule sound_step_array [OF assms(2)])
next
  case Step_snapshot
  then show ?thesis by (rule sound_step_snapshot [OF assms(2)])
next
  case Step_restore
  then show ?thesis by (rule sound_step_restore [OF assms(2)])
next
  case Step_discard
  then show ?thesis by (rule sound_step_discard [OF assms(2)])
next
  case Step_tear
  then show ?thesis using sound_step_refl [OF assms(2)] by simp
qed

lemma sound_step_trans:
  assumes "sound_step oc s t" and "sound_step oc t u"
  shows "sound_step oc s u"
proof -
  have next_id: "s_next_id s \<le> s_next_id t"
    using assms(1) by (simp add: sound_step_def extends_def)
  have "\<exists>K'. (\<forall>e < s_next_id s. K' e = K e) \<and> kinds_ok K' u" if K: "kinds_ok K s" for K
  proof -
    obtain K1 where K1: "\<forall>e < s_next_id s. K1 e = K e" "kinds_ok K1 t"
      using assms(1) K by (auto simp: sound_step_def)
    obtain K2 where K2: "\<forall>e < s_next_id t. K2 e = K1 e" "kinds_ok K2 u"
      using assms(2) K1(2) by (auto simp: sound_step_def)
    have "\<forall>e < s_next_id s. K2 e = K e" using K1(1) K2(1) next_id by simp
    with K2(2) show ?thesis by blast
  qed
  with assms show ?thesis by (auto simp: sound_step_def intro: extends_trans)
qed

lemma sound_run:
  assumes oc: "occt_ok oc" and ok: "session_ok oc s" and run: "(session_step oc)\<^sup>*\<^sup>* s s'"
  shows "sound_step oc s s'"
  using run
proof (induction rule: rtranclp_induct)
  case base
  show ?case by (rule sound_step_refl [OF ok])
next
  case (step t u)
  then have "session_ok oc t" by (simp add: sound_step_def)
  from sound_step_session_step [OF oc this step.hyps(2)] step.IH show ?case
    by (rule sound_step_trans [rotated])
qed

lemma reachable_run: "reachable oc v s \<longleftrightarrow> (session_step oc)\<^sup>*\<^sup>* (new_session v) s"
proof
  assume "reachable oc v s"
  then show "(session_step oc)\<^sup>*\<^sup>* (new_session v) s"
    by (induction rule: reachable.induct) auto
next
  assume "(session_step oc)\<^sup>*\<^sup>* (new_session v) s"
  then show "reachable oc v s"
    by (induction rule: rtranclp_induct) (auto intro: reachable.intros)
qed

lemma reachable_session_ok: "occt_ok oc \<Longrightarrow> reachable oc v s \<Longrightarrow> session_ok oc s"
  using sound_run [OF _ session_ok_new] by (auto simp: reachable_run sound_step_def)

lemma kinds_ok_new: "kinds_ok K (new_session v)"
  by (simp add: kinds_ok_def state_kinds_def new_session_def)

lemma reachable_kinds:
  assumes "occt_ok oc" and "reachable oc v s"
  shows "\<exists>K. kinds_ok K s"
proof -
  have "sound_step oc (new_session v) s"
    using assms by (intro sound_run session_ok_new) (simp_all add: reachable_run)
  then show ?thesis using kinds_ok_new [of _ v] by (auto simp: sound_step_def)
qed

section \<open>Snapshot marks\<close>

text \<open>
  A mark is an index that never shifts: its slot holds the state it was taken at, or nothing once
  it is discarded.
\<close>

definition marks_kept :: "session \<Rightarrow> session \<Rightarrow> bool" where
  "marks_kept s s' =
     (length (s_snapshots s) \<le> length (s_snapshots s') \<and>
      (\<forall>i < length (s_snapshots s). s_snapshots s' ! i = s_snapshots s ! i \<or> s_snapshots s' ! i = None))"

lemma marks_kept_refl [simp]: "s_snapshots s = s_snapshots s' \<Longrightarrow> marks_kept s s'"
  by (simp add: marks_kept_def)

lemma marks_kept_trans: "marks_kept s t \<Longrightarrow> marks_kept t u \<Longrightarrow> marks_kept s u"
  unfolding marks_kept_def by (metis order.strict_trans2 order_trans)

lemma commit_snapshots: "commit oc a s = (r, s') \<Longrightarrow> s_snapshots s' = s_snapshots s"
  by (auto simp: commit_def Let_def split: sum.splits)

lemma rebuild_snapshots: "rebuild_moved oc run ids name s = (r, s') \<Longrightarrow> s_snapshots s' = s_snapshots s"
  by (auto simp: rebuild_moved_def Let_def dest: commit_snapshots
      split: sum.splits prod.splits if_splits)

lemma relocate_snapshots: "relocate oc t ids name s = (r, s') \<Longrightarrow> s_snapshots s' = s_snapshots s"
  by (auto simp: relocate_def Let_def split: sum.splits prod.splits)

lemma apply_trsf_snapshots:
  "apply_trsf oc t ids name s = (r, s') \<Longrightarrow> s_snapshots s' = s_snapshots s"
  by (auto simp: apply_trsf_def dest: rebuild_snapshots relocate_snapshots split: if_splits)

lemma guarded_snapshots:
  assumes "guarded body s = (r, s')"
    and "\<And>r t. body (s\<lparr>s_in_op := True\<rparr>) = (r, t) \<Longrightarrow> s_snapshots t = s_snapshots s"
  shows "s_snapshots s' = s_snapshots s"
  using guarded_cases [OF assms(1)] assms(2) by auto

lemma copy_snapshots: "copy_bodies oc dup ids s = (r, s') \<Longrightarrow> s_snapshots s' = s_snapshots s"
  unfolding copy_bodies_def
  by (erule guarded_snapshots) (auto simp: Let_def dest: commit_snapshots split: sum.splits if_splits)

lemma array_snapshots:
  "multi_transform oc tools rnd block_id vectors counts s = (r, s') \<Longrightarrow> s_snapshots s' = s_snapshots s"
  by (auto dest!: multi_transform_cases commit_snapshots)

lemma marks_kept_step: "session_step oc s s' \<Longrightarrow> marks_kept s s'"
proof (induction rule: session_step.induct)
  case (Step_commit a s r s')
  then have "s_snapshots s' = s_snapshots s"
    by (rule guarded_snapshots) (simp add: commit_snapshots)
  then show ?case by simp
next
  case (Step_transform t ids name s r s')
  from Step_transform(1) have "s_snapshots s' = s_snapshots s"
    by (rule guarded_snapshots) (simp add: apply_trsf_snapshots)
  then show ?case by simp
next
  case (Step_copy dup ids s r s')
  then show ?case using copy_snapshots by simp
next
  case (Step_array tools rnd block_id vectors counts s r' s')
  then show ?case using array_snapshots by simp
next
  case (Step_snapshot s r s')
  from snapshot_cases [OF this] show ?case by (auto simp: marks_kept_def nth_append)
next
  case (Step_restore mark s r' s')
  from restore_cases [OF this] show ?case by (auto split: if_splits)
next
  case (Step_discard mark s r' s')
  from discard_cases [OF this] show ?case
    by (auto simp: marks_kept_def nth_list_update split: if_splits)
next
  case (Step_tear s)
  show ?case by simp
qed

lemma marks_kept_run: "(session_step oc)\<^sup>*\<^sup>* s s' \<Longrightarrow> marks_kept s s'"
  by (induction rule: rtranclp_induct) (auto intro: marks_kept_trans marks_kept_step)

end
