(* ===== verification/Model.thy ===== *)
theory Model
  imports SessionRun
begin

text \<open>
  An OCCT to run the session on: the map of a kind is the depth-first walk of the shape with
  duplicates dropped, every shape is valid. It meets what the session relies on, and with it the
  session evaluates on small models: a block of one face, one edge and two vertices.
\<close>

section \<open>The walk\<close>

definition walk_map :: map_shapes where
  "walk_map s k = append_all [] (filter (\<lambda>x. shape_type x = k) (descendants s))"

definition walk_occt :: occt where
  "walk_occt = \<lparr>map_shapes = walk_map,
     explore = (\<lambda>s k. filter (\<lambda>x. shape_type x = k) (descendants s)),
     check_valid = (\<lambda>_. Inr True), check_findings = (\<lambda>_. Inr [])\<rparr>"

text \<open>The same with a checker that finds one shape invalid.\<close>

definition strict_occt :: "nat \<Rightarrow> occt" where
  "strict_occt bad = walk_occt\<lparr>check_valid := (\<lambda>s. Inr (tshape s \<noteq> bad)),
     check_findings := (\<lambda>s. Inr [\<lparr>f_shape = hd (walk_map s FACE), f_status = ''BadOrientation'',
        f_context = s\<rparr>])\<rparr>"

lemma walk_map_ok:
  "distinct (map skey (walk_map s k))" "x \<in> set (walk_map s k) \<Longrightarrow> shape_type x = k"
  "skey ` set (walk_map s k) = skey ` {x \<in> set (descendants s). shape_type x = k}"
  using set_append_all_subset [of "[]" "filter (\<lambda>x. shape_type x = k) (descendants s)"]
  by (auto simp: walk_map_def append_all_distinct)

lemma occt_ok_walk [simp]: "occt_ok walk_occt" "occt_ok (strict_occt bad)"
  using walk_map_ok by (simp_all add: occt_ok_def walk_occt_def strict_occt_def)

section \<open>A block\<close>

definition vertex_at :: "nat \<Rightarrow> shape" where
  "vertex_at t = Shape t 0 FORWARD VERTEX []"

definition edge_at :: "nat \<Rightarrow> shape" where
  "edge_at t = Shape t 0 FORWARD EDGE [vertex_at (t + 1), vertex_at (t + 2)]"

definition face_at :: "nat \<Rightarrow> shape" where
  "face_at t = Shape t 0 FORWARD FACE [Shape (t + 1) 0 FORWARD WIRE [edge_at (t + 2)]]"

definition block_at :: "nat \<Rightarrow> shape" where
  "block_at t = Shape t 0 FORWARD SOLID [Shape (t + 1) 0 FORWARD SHELL [face_at (t + 2)]]"

lemmas block_defs = vertex_at_def edge_at_def face_at_def block_at_def

text \<open>Adding a block to an empty session, and the session it leaves.\<close>

definition block_args :: "nat \<Rightarrow> history option \<Rightarrow> shape list \<Rightarrow> commit_args" where
  "block_args t h bodies = \<lparr>ca_bodies = bodies, ca_history = h, ca_op_name = ''make_box'',
     ca_built = block_at t, ca_mode = Strict, ca_warnings = [], ca_pieces = KeepId\<rparr>"

definition one_block :: session where
  "one_block = snd (guarded (commit walk_occt (block_args 100 None [block_at 100])) (new_session True))"

lemma one_block_reachable: "reachable walk_occt True one_block"
proof (rule Reach_step [OF Reach_new])
  show "session_step walk_occt (new_session True) one_block"
    unfolding one_block_def
    by (rule Step_commit [where r = "fst (guarded (commit walk_occt (block_args 100 None [block_at 100])) (new_session True))"])
      simp
qed

text \<open>Cutting the block's face in two: the solid and the face are modified, an edge is new.\<close>

definition cut_face :: shape where
  "cut_face = Shape 202 0 FORWARD FACE [Shape 203 0 FORWARD WIRE [edge_at 104]]"

definition cut_solid :: shape where
  "cut_solid = Shape 200 0 FORWARD SOLID [Shape 201 0 FORWARD SHELL [cut_face, face_at 302]]"

definition cut_history :: history where
  "cut_history = \<lparr>hist_modified = (\<lambda>s. if tshape s = 100 then [cut_solid]
       else if tshape s = 102 then [cut_face, face_at 302] else []),
     hist_generated = (\<lambda>s. if tshape s = 104 then [edge_at 304] else []),
     hist_removed = (\<lambda>_. False)\<rparr>"

definition cut_args :: "piece_rule \<Rightarrow> commit_args" where
  "cut_args pieces = \<lparr>ca_bodies = [cut_solid], ca_history = Some cut_history, ca_op_name = ''imprint'',
     ca_built = cut_solid, ca_mode = Strict, ca_warnings = [], ca_pieces = pieces\<rparr>"

definition cut_run :: "piece_rule \<Rightarrow> op_report outcome \<times> session" where
  "cut_run pieces = commit walk_occt (cut_args pieces) one_block"

lemma cut_run_ok: "\<exists>rep. fst (cut_run KeepId) = Inr rep" "\<exists>rep. fst (cut_run (NewPieceIds FACE)) = Inr rep"
  by (simp_all add: cut_run_def commit_def commit_verdict_def cut_args_def walk_occt_def Let_def)

definition report_of :: "op_report outcome \<times> session \<Rightarrow> op_report" where
  "report_of run = (case fst run of Inr rep \<Rightarrow> rep
     | Inl _ \<Rightarrow> \<lparr>rep_delta = empty_delta, rep_op_index = 0, rep_op_name = []\<rparr>)"

lemma cut_run_report:
  "cut_run KeepId = (Inr (report_of (cut_run KeepId)), snd (cut_run KeepId))"
  "cut_run (NewPieceIds FACE) = (Inr (report_of (cut_run (NewPieceIds FACE))), snd (cut_run (NewPieceIds FACE)))"
  using cut_run_ok by (metis prod.collapse report_of_def sum.simps(6))+

section \<open>A translation\<close>

text \<open>Moving a shape: every Location of it and of its sub-shapes goes up by one.\<close>

fun shift :: "shape \<Rightarrow> shape" where
  "shift (Shape t l d k cs) = Shape t (l + 1) d k (map shift cs)"

fun shift_key :: "shape_key \<Rightarrow> shape_key" where
  "shift_key (SKey t l) = SKey t (l + 1)"

definition shift_trsf :: trsf where
  "shift_trsf = \<lparr>location_only = True, moved = shift, rebuild = (\<lambda>s. Inr (s, None))\<rparr>"

lemma shift_simps [simp]:
  "tshape (shift s) = tshape s" "shape_type (shift s) = shape_type s"
  "skey (shift s) = shift_key (skey s)" "is_null (shift s) = is_null s"
  by (cases s; simp add: skey_def is_null_def)+

lemma inj_shift_key: "inj shift_key"
proof (rule injI)
  show "a = b" if "shift_key a = shift_key b" for a b
    using that by (cases a; cases b) simp
qed

lemma key_tshape_shift [simp]: "key_tshape (shift_key k) = key_tshape k"
  by (cases k) simp

lemma descendants_shift: "descendants (shift s) = map shift (descendants s)"
proof (induction s)
  case (Shape t l d k cs)
  have "concat (map descendants (map shift cs)) = map shift (concat (map descendants cs))"
    using Shape by (simp add: map_concat comp_def cong: map_cong)
  then show ?case by simp
qed

lemma append_unique_shift: "append_unique (map shift dst) (shift s) = map shift (append_unique dst s)"
  by (auto simp: append_unique_def list_ex_iff is_same_def inj_eq [OF inj_shift_key])

lemma append_all_shift: "append_all (map shift dst) (map shift ss) = map shift (append_all dst ss)"
  by (induction ss arbitrary: dst) (simp_all add: append_unique_shift)

lemma walk_map_shift: "walk_map (shift s) k = map shift (walk_map s k)"
  using append_all_shift [of "[]" "filter (\<lambda>x. shape_type x = k) (descendants s)"]
  by (simp add: walk_map_def descendants_shift filter_map comp_def)

lemma trsf_ok_shift: "trsf_ok walk_occt shift_trsf shift_key"
  by (simp add: trsf_ok_def inj_shift_key shift_trsf_def walk_occt_def walk_map_shift comp_def)

section \<open>One entity moved onto itself\<close>

text \<open>
  Two tiles of one TShape whose edge is one entity with two shapes. Nothing stops a relocation
  of the first tile onto the second, and then the entity holds one shape twice.
\<close>

definition tile :: "nat \<Rightarrow> shape" where
  "tile l = Shape 10 l FORWARD FACE [Shape 11 l FORWARD EDGE []]"

definition tile_args :: "history option \<Rightarrow> shape list \<Rightarrow> commit_args" where
  "tile_args h bodies = \<lparr>ca_bodies = bodies, ca_history = h, ca_op_name = ''tile'', ca_built = tile 0,
     ca_mode = Strict, ca_warnings = [], ca_pieces = KeepId\<rparr>"

definition tile_history :: history where
  "tile_history = \<lparr>hist_modified = (\<lambda>s. if tshape s = 11
       then [Shape 11 1 FORWARD EDGE [], Shape 11 2 FORWARD EDGE []] else []),
     hist_generated = (\<lambda>_. []), hist_removed = (\<lambda>_. False)\<rparr>"

definition one_tile :: session where
  "one_tile = snd (guarded (commit walk_occt (tile_args None [tile 0])) (new_session True))"

definition two_tiles :: session where
  "two_tiles = snd (guarded (commit walk_occt (tile_args (Some tile_history) [tile 1, tile 2])) one_tile)"

definition stacked_tiles :: session where
  "stacked_tiles = snd (guarded (apply_trsf walk_occt shift_trsf (Some [3]) ''translate'') two_tiles)"

lemma two_tiles_reachable: "reachable walk_occt True two_tiles"
proof -
  have "reachable walk_occt True one_tile"
    unfolding one_tile_def by (rule Reach_step [OF Reach_new Step_commit [OF prod.collapse [symmetric]]])
  then show ?thesis
    unfolding two_tiles_def by (rule Reach_step [OF _ Step_commit [OF prod.collapse [symmetric]]])
qed

lemma stacked_tiles_reachable: "reachable walk_occt True stacked_tiles"
proof -
  have "root_bodies (st_root (s_state two_tiles)) = [tile 1, tile 2]" by code_simp
  then have "coherent walk_occt (root_bodies (st_root (s_state two_tiles)))"
    by (auto simp: coherent_def tile_def is_same_def skey_def)
  then have "moves_as_occt walk_occt shift_trsf two_tiles"
    using trsf_ok_shift by (auto simp: moves_as_occt_def)
  then show ?thesis
    unfolding stacked_tiles_def
    by (intro Reach_step [OF two_tiles_reachable] Step_transform [OF prod.collapse [symmetric]])
qed

end
