(* ===== verification/SessionProps.thy ===== *)
theory SessionProps
  imports Model
begin

text \<open>
  The properties of the session's identity layer: what holds of every reachable session, what a
  run never takes back, and what one operation does to the ids.
\<close>

section \<open>Every reachable session\<close>



text \<open>
  C2. No run takes anything back, not even across a \<^verbatim>\<open>restore\<close>: the id and operation
  counters never go down, an id keeps the provenance it was issued with, a name keeps the id it
  was given, and an id that is live at both ends of the run has the same kind at both. An id is
  therefore never used for a second entity.
\<close>

theorem ids_are_permanent:
  assumes "occt_ok oc" and "reachable oc v s" and "(session_step oc)\<^sup>*\<^sup>* s s'"
  shows "s_next_id s \<le> s_next_id s' \<and> s_next_op s \<le> s_next_op s' \<and>
    s_origins s \<subseteq>\<^sub>m s_origins s' \<and> s_names s \<subseteq>\<^sub>m s_names s' \<and>
    (\<forall>e rec rec'. map_of (alive (live_registry s)) e = Some rec \<longrightarrow>
       map_of (alive (live_registry s')) e = Some rec' \<longrightarrow> ent_kind rec' = ent_kind rec)"
proof -
  note ok = reachable_session_ok [OF assms(1,2)]
  have step: "sound_step oc s s'" by (rule sound_run [OF assms(1) ok assms(3)])
  obtain K where K: "kinds_ok K s" using reachable_kinds [OF assms(1,2)] by blast
  obtain K' where K': "\<forall>e < s_next_id s. K' e = K e" "kinds_ok K' s'"
    using step K by (auto simp: sound_step_def)
  have "ent_kind rec' = ent_kind rec"
    if "map_of (alive (live_registry s)) e = Some rec"
      and "map_of (alive (live_registry s')) e = Some rec'" for e rec rec'
  proof -
    have "e < s_next_id s" using that(1) live_facts(4) [OF ok] by (auto simp: live_ids_dom)
    with K K' that show ?thesis by (simp add: kinds_ok_def state_kinds_def)
  qed
  with step show ?thesis by (auto simp: sound_step_def extends_def)
qed

text \<open>A run for the witness: the block is deleted, then the state before is restored.\<close>

definition deleted_block :: session where
  "deleted_block = snd (guarded (commit walk_occt (block_args 100 None [])) (snd (snapshot one_block)))"

definition restored_block :: session where
  "restored_block = snd (restore 0 deleted_block)"

lemma restored_block_run: "(session_step walk_occt)\<^sup>*\<^sup>* one_block restored_block"
proof -
  have "session_step walk_occt one_block (snd (snapshot one_block))"
    by (rule Step_snapshot [OF prod.collapse [symmetric]])
  moreover have "session_step walk_occt (snd (snapshot one_block)) deleted_block"
    unfolding deleted_block_def by (rule Step_commit [OF prod.collapse [symmetric]])
  moreover have "session_step walk_occt deleted_block restored_block"
    unfolding restored_block_def by (rule Step_restore [OF prod.collapse [symmetric]])
  ultimately show ?thesis by (meson converse_rtranclp_into_rtranclp rtranclp.rtrancl_refl)
qed

lemma ids_are_permanent_witness:
  "s_names one_block \<subseteq>\<^sub>m s_names restored_block \<and>
   live_ids (live_registry deleted_block) = {} \<and>
   map (\<lambda>(e, rec). (e, kind_name (ent_kind rec))) (alive (live_registry restored_block)) =
     [(1, ''SOLID''), (2, ''FACE''), (3, ''EDGE''), (4, ''VERTEX''), (5, ''VERTEX'')]"
proof -
  have "live_ids (live_registry deleted_block) = {}" by code_simp
  moreover have "map (\<lambda>(e, rec). (e, kind_name (ent_kind rec))) (alive (live_registry restored_block)) =
     [(1, ''SOLID''), (2, ''FACE''), (3, ''EDGE''), (4, ''VERTEX''), (5, ''VERTEX'')]"
    by code_simp
  ultimately show ?thesis
    using ids_are_permanent [OF occt_ok_walk(1) one_block_reachable restored_block_run] by blast
qed

text \<open>
  C3. Names round-trip: every live id has a name, and resolving that name gives the id back, as
  resolved when the entity denotes one shape and as ambiguous, with their number, when it denotes
  several. So no two live ids share a name.
\<close>

theorem name_roundtrip:
  assumes "occt_ok oc" and "reachable oc v s"
    and "map_of (alive (live_registry s)) e = Some rec"
  shows "\<exists>op rl ordinal. name_of s e = Inr (Some (op, rl, ordinal)) \<and>
    resolve s op rl ordinal =
      Inr (if length (ent_shapes rec) = 1 then Resolved e else Ambiguous e (length (ent_shapes rec)))"
proof -
  note ok = reachable_session_ok [OF assms(1,2)]
  have "e \<in> {1..<s_next_id s}" using assms(3) live_facts(4) [OF ok] by (auto simp: live_ids_dom)
  then have "e \<in> dom (s_origins s)" using live_facts(5) [OF ok] by (simp add: names_ok_def)
  then obtain org where org: "s_origins s e = Some org" by blast
  then have "s_names s (origin_key org) = Some e"
    using live_facts(5) [OF ok] by (auto simp: names_ok_def)
  then have "resolve s (o_op org) (role_code (o_role org)) (o_ordinal org) =
      Inr (if length (ent_shapes rec) = 1 then Resolved e else Ambiguous e (length (ent_shapes rec)))"
    by (simp add: resolve_def origin_key_def assms(3) Let_def)
  moreover have "name_of s e = Inr (Some (o_op org, role_code (o_role org), o_ordinal org))"
    using require_alive_iff [OF ok, of e rec] assms(3) org by (simp add: name_of_def)
  ultimately show ?thesis by blast
qed

lemma name_roundtrip_witness:
  "name_of one_block 3 = Inr (Some (1, 0, 2)) \<and> resolve one_block 1 0 2 = Inr (Resolved 3) \<and>
   (\<exists>op rl ordinal. name_of one_block 3 = Inr (Some (op, rl, ordinal)) \<and>
      resolve one_block op rl ordinal = Inr (Resolved 3))"
proof -
  have "map_of (alive (live_registry one_block)) 3 = Some (issued_to (edge_at 104))"
    by code_simp
  from name_roundtrip [OF occt_ok_walk(1) one_block_reachable this]
  have "\<exists>op rl ordinal. name_of one_block 3 = Inr (Some (op, rl, ordinal)) \<and>
      resolve one_block op rl ordinal = Inr (Resolved 3)"
    by (simp add: issued_to_def)
  moreover have "name_of one_block 3 = Inr (Some (1, 0, 2))" by code_simp
  moreover have "resolve one_block 1 0 2 = Inr (Resolved 3)" by code_simp
  ultimately show ?thesis by blast
qed

text \<open>
  C4. A name that has resolved once resolves for good: after any run it gives the same id, alive
  with one shape, split in several, or lost, and never another id and never an unknown name.
\<close>

theorem names_stay_resolvable:
  assumes "occt_ok oc" and "reachable oc v s" and "(session_step oc)\<^sup>*\<^sup>* s s'"
    and "resolve s op rl ordinal = Inr res" and "res = Resolved e \<or> res = Ambiguous e n"
  shows "resolve s' op rl ordinal =
    Inr (case map_of (alive (live_registry s')) e of None \<Rightarrow> Lost
         | Some rec \<Rightarrow> if length (ent_shapes rec) = 1 then Resolved e
                       else Ambiguous e (length (ent_shapes rec)))"
proof -
  have "s_names s \<subseteq>\<^sub>m s_names s'"
    using sound_run [OF assms(1) reachable_session_ok [OF assms(1,2)] assms(3)]
    by (simp add: sound_step_def extends_def)
  moreover have "s_names s (NameKey op rl ordinal) = Some e"
    using assms(4,5) by (auto simp: resolve_def Let_def split: option.splits if_splits)
  ultimately have "s_names s' (NameKey op rl ordinal) = Some e"
    by (force simp: map_le_def)
  then show ?thesis by (simp add: resolve_def Let_def split: option.splits)
qed

lemma names_stay_resolvable_witness:
  "resolve restored_block 1 0 2 = Inr (Resolved 3) \<and> resolve deleted_block 1 0 2 = Inr Lost"
proof -
  have "resolve one_block 1 0 2 = Inr (Resolved 3)" by code_simp
  note claim = names_stay_resolvable [OF occt_ok_walk(1) one_block_reachable restored_block_run this,
      of 3 0]
  have "map_of (alive (live_registry restored_block)) 3 = Some (issued_to (edge_at 104))"
    by code_simp
  with claim have "resolve restored_block 1 0 2 = Inr (Resolved 3)" by (simp add: issued_to_def)
  moreover have "resolve deleted_block 1 0 2 = Inr Lost" by code_simp
  ultimately show ?thesis by blast
qed

text \<open>
  C5. A snapshot mark brings back the state it was taken at, whatever ran in between: until the
  mark is discarded, \<^verbatim>\<open>restore\<close> of it makes the live state the one of the snapshot and changes
  nothing else, so no counter and no name goes back with it; after a discard it is refused.
\<close>

theorem restore_brings_back:
  assumes "snapshot s = (Inr mark, s1)" and "(session_step oc)\<^sup>*\<^sup>* s1 s2" and "\<not> s_in_op s2"
  shows "restore mark s2 =
    (if s_snapshots s2 ! nat mark = None then (Inl (DiscardedMark mark), s2)
     else (Inr (), s2\<lparr>s_state := s_state s\<rparr>))"
proof -
  have mark: "mark = int (length (s_snapshots s))" "s_snapshots s1 = s_snapshots s @ [Some (s_state s)]"
    using snapshot_cases [OF assms(1)] by auto
  have len: "nat mark < length (s_snapshots s2)"
    and kept: "s_snapshots s2 ! nat mark = Some (s_state s) \<or> s_snapshots s2 ! nat mark = None"
    using marks_kept_run [OF assms(2)] mark
    by (auto simp: marks_kept_def nth_append dest!: spec [of _ "length (s_snapshots s)"])
  have "s2\<lparr>s_in_op := False\<rparr> = s2" and "s2\<lparr>s_state := st, s_in_op := False\<rparr> = s2\<lparr>s_state := st\<rparr>" for st
    using assms(3) by (cases s2; simp)+
  then show ?thesis
    using len kept assms(3) mark(1) by (auto simp: restore_def guarded_def)
qed

lemma restore_brings_back_witness:
  "fst (snapshot one_block) = Inr 0 \<and>
   restore 0 deleted_block = (Inr (), deleted_block\<lparr>s_state := s_state one_block\<rparr>) \<and>
   s_next_op (restored_block) = 3"
proof -
  have "fst (snapshot one_block) = Inr 0" by code_simp
  then have mark: "snapshot one_block = (Inr 0, snd (snapshot one_block))" by (metis prod.collapse)
  have run: "(session_step walk_occt)\<^sup>*\<^sup>* (snd (snapshot one_block)) deleted_block"
    unfolding deleted_block_def by (intro r_into_rtranclp Step_commit [OF prod.collapse [symmetric]])
  have "\<not> s_in_op deleted_block" and "s_snapshots deleted_block ! nat 0 \<noteq> None"
    and "s_next_op restored_block = 3" by code_simp+
  with restore_brings_back [OF mark run] mark show ?thesis by (metis fst_conv)
qed

section \<open>One operation\<close>

text \<open>
  C6. The delta of a committed operation is exact. It created the ids from the old counter up to
  the new one; what it deleted are the ids that are no longer live; what it modified are the ids
  that live on but denote other shapes than before, shape for shape; what it split are the ids
  that live on and denote more than one shape; and what it merged are the ids that share a shape
  with another id in the published registry.
\<close>

theorem delta_is_exact:
  assumes "occt_ok oc" and "reachable oc v s" and "commit oc a s = (Inr rep, s')"
  shows "d_created (rep_delta rep) = [s_next_id s..s_next_id s' - 1] \<and>
    set (d_deleted (rep_delta rep)) = live_ids (live_registry s) - live_ids (live_registry s') \<and>
    set (d_modified (rep_delta rep)) =
      {e. \<exists>old new. map_of (alive (live_registry s)) e = Some old \<and>
        map_of (alive (live_registry s')) e = Some new \<and>
        map skey (ent_shapes new) \<noteq> map skey (ent_shapes old)} \<and>
    set (d_split (rep_delta rep)) =
      {e \<in> live_ids (live_registry s). \<exists>new. map_of (alive (live_registry s')) e = Some new \<and>
        1 < length (ent_shapes new)} \<and>
    set (d_merged (rep_delta rep)) =
      {e. \<exists>k. e \<in> owners (live_registry s') k \<and> owners (live_registry s') k \<noteq> {e}}"
proof -
  note ok = reachable_session_ok [OF assms(1,2)]
  let ?c = "commit_carry oc a s"
  let ?ms = "map skey (registered_subshapes (map_shapes oc) (make_root (s_heap s) (ca_bodies a)))"
  have s': "s' = committed oc a s" and rep: "rep_delta rep = (r_delta ?c)
      \<lparr>d_valid := d_valid (rep_delta rep), d_warnings := ca_warnings a\<rparr>"
    using commit_published [OF assms(3)] by (blast, metis op_report.select_convs(1))
  note delta = carry_registry_delta [OF live_facts(6) [OF ok] refl]
  have old: "map_of (alive (live_registry s')) e = carried_of (commit_history a s) ?ms (ca_pieces a) (live_registry s) e"
    if "e \<in> live_ids (live_registry s)" for e
    using that live_facts(4) [OF ok]
    by (subst s', auto simp: committed_def commit_carry_def intro!: carry_registry_old [OF live_facts(6) [OF ok] refl])
  have same: "same_shapes (ent_shapes new) old \<longleftrightarrow> map skey (ent_shapes new) = map skey (ent_shapes old)"
    for new old :: entity_record
    by (auto simp: same_shapes_def list_all2_conv_all_nth is_same_def list_eq_iff_nth_eq)
  have changed: "e \<in> live_ids (live_registry s) \<and>
        is_changed (commit_history a s) ?ms (ca_pieces a) (live_registry s) e \<longleftrightarrow>
      (\<exists>old new. map_of (alive (live_registry s)) e = Some old \<and>
        map_of (alive (live_registry s')) e = Some new \<and>
        map skey (ent_shapes new) \<noteq> map skey (ent_shapes old))" for e
  proof (cases "e \<in> live_ids (live_registry s)")
    case True
    with old [OF True] show ?thesis
      by (auto simp: is_changed_def live_ids_dom same split: option.splits)
  qed (auto simp: live_ids_dom)
  have split: "is_split_up (commit_history a s) ?ms (ca_pieces a) (live_registry s) e \<longleftrightarrow>
      (\<exists>new. map_of (alive (live_registry s')) e = Some new \<and> 1 < length (ent_shapes new))"
    if "e \<in> live_ids (live_registry s)" for e
    using old [OF that] by (auto simp: is_split_up_def split: option.splits)
  have parts: "d_created (rep_delta rep) = d_created (r_delta ?c)"
    "d_deleted (rep_delta rep) = d_deleted (r_delta ?c)" "d_modified (rep_delta rep) = d_modified (r_delta ?c)"
    "d_split (rep_delta rep) = d_split (r_delta ?c)" "d_merged (rep_delta rep) = d_merged (r_delta ?c)"
    by (subst rep, simp)+
  show ?thesis
    unfolding parts commit_carry_def delta
    using changed split by (auto simp: s' committed_def commit_carry_def)
qed

lemma delta_is_exact_witness:
  "d_created (rep_delta (report_of (cut_run KeepId))) = [6, 7, 8] \<and>
   set (d_deleted (rep_delta (report_of (cut_run KeepId)))) =
     live_ids (live_registry one_block) - live_ids (live_registry (snd (cut_run KeepId))) \<and>
   d_modified (rep_delta (report_of (cut_run KeepId))) = [1, 2] \<and>
   d_split (rep_delta (report_of (cut_run KeepId))) = [2]"
proof -
  note claim = delta_is_exact [OF occt_ok_walk(1) one_block_reachable
      cut_run_report(1) [unfolded cut_run_def], folded cut_run_def]
  have "d_created (rep_delta (report_of (cut_run KeepId))) = [6, 7, 8]"
    and "d_modified (rep_delta (report_of (cut_run KeepId))) = [1, 2]"
    and "d_split (rep_delta (report_of (cut_run KeepId))) = [2]"
    by code_simp+
  with claim show ?thesis by blast
qed

end
