(* ===== verification/CommitProps.thy ===== *)
theory CommitProps
  imports Model
begin

text \<open>
  What one committed operation does to the ids, by the rule it carries them with, and what a
  refused one leaves behind.
\<close>

section \<open>Refusals\<close>







section \<open>What becomes of the ids\<close>

text \<open>The keys of the model an operation commits.\<close>

definition new_keys :: "occt \<Rightarrow> commit_args \<Rightarrow> session \<Rightarrow> shape_key list" where
  "new_keys oc a s =
     map skey (registered_subshapes (map_shapes oc) (make_root (s_heap s) (ca_bodies a)))"

lemma committed_old:
  assumes "session_ok oc s" and "commit oc a s = (Inr rep, s')" and "e < s_next_id s"
  shows "map_of (alive (live_registry s')) e = Option.bind (map_of (alive (live_registry s)) e)
    (carried_entity (commit_history a s) (new_keys oc a s) (ca_pieces a))"
  using carry_registry_old [OF session_ok_ready [OF assms(1)] refl assms(3)]
    commit_published [OF assms(2)]
  by (simp add: committed_def commit_carry_def new_keys_def carried_of_def)

lemma committed_new:
  assumes "session_ok oc s" and "commit oc a s = (Inr rep, s')" and "e \<in> {s_next_id s..<s_next_id s'}"
  shows "\<exists>sh org. skey sh \<in> set (new_keys oc a s) \<and>
    map_of (alive (live_registry s')) e = Some \<lparr>ent_shapes = [sh], ent_kind = shape_type sh\<rparr> \<and>
    owners (live_registry s') (skey sh) = {e} \<and> s_origins s' e = Some org \<and>
    o_op org = rep_op_index rep \<and>
    o_role org = (if o_sources org = [] then Constructed else Generated) \<and>
    set (o_sources org) = {e'. \<exists>rec. map_of (alive (live_registry s)) e' = Some rec \<and>
      skey sh \<in> derived_keys (commit_history a s) (new_keys oc a s) (ca_pieces a) rec}"
proof -
  have s': "s' = committed oc a s" and "rep_op_index rep = s_next_op s"
    using commit_published [OF assms(2)] by (auto dest: arg_cong [where f = rep_op_index])
  moreover have "e \<in> {s_next_id s..<r_next_id (commit_carry oc a s)}"
    using assms(3) calculation(1) by (simp add: committed_def)
  then obtain sh org where
      "sh \<in> set (registered_subshapes (map_shapes oc) (make_root (s_heap s) (ca_bodies a)))"
      "map_of (alive (r_registry (commit_carry oc a s))) e = Some (issued_to sh)"
      "owners (r_registry (commit_carry oc a s)) (skey sh) = {e}"
      "r_origins (commit_carry oc a s) e = Some org" "o_op org = s_next_op s"
      "o_role org = (if o_sources org = [] then Constructed else Generated)"
      "set (o_sources org) = {e'. \<exists>rec. map_of (alive (live_registry s)) e' = Some rec \<and>
        skey sh \<in> derived_keys (commit_history a s) (new_keys oc a s) (ca_pieces a) rec}"
    unfolding new_keys_def
    by (rule carry_registry_new [OF session_ok_ready [OF assms(1)] commit_carry_def])
  moreover have "skey sh \<in> set (new_keys oc a s)"
    using calculation(3) by (simp add: new_keys_def)
  ultimately show ?thesis
    by (intro exI [of _ sh] exI [of _ org]) (simp add: committed_def issued_to_def)
qed

lemma successors_None: "successors None ms rec = append_all [] (ent_shapes rec)"
proof -
  have "fold (step_successors None b) ss acc = append_all acc ss" for b ss acc
    by (induction ss arbitrary: acc) (simp_all add: step_successors_def)
  then show ?thesis by (simp add: successors_def)
qed

text \<open>Dropping the shapes that are gone commutes with dropping repetitions.\<close>

lemma filter_append_all:
  assumes "\<And>x y. skey x = skey y \<Longrightarrow> P x = P y"
  shows "filter P (append_all acc ss) = append_all (filter P acc) (filter P ss)"
proof (induction ss arbitrary: acc)
  case (Cons x ss)
  have "list_ex (\<lambda>y. is_same y x) (filter P acc) = list_ex (\<lambda>y. is_same y x) acc" if "P x"
    using that assms [of _ x] unfolding list_ex_iff is_same_def set_filter by blast
  then have "filter P (append_unique acc x) = (if P x then append_unique (filter P acc) x else filter P acc)"
    by (simp add: append_unique_def)
  then show ?case using Cons by simp
qed simp

lemma append_all_twice: "append_all [] (append_all [] ss) = append_all [] ss"
  by (subst append_all_new) (simp_all add: append_all_distinct)

lemma image_shapes_None: "image_shapes None ms rec = members_of ms (ent_shapes rec)"
proof -
  have "filter (\<lambda>s. skey s \<in> set ms) (append_all [] (ent_shapes rec)) =
      append_all [] (filter (\<lambda>s. skey s \<in> set ms) (ent_shapes rec))"
    by (subst filter_append_all) simp_all
  then have "members_of ms (successors None ms rec) = members_of ms (ent_shapes rec)"
    by (simp add: members_of_def successors_None append_all_twice)
  then show ?thesis by (simp add: image_shapes_def live_shapes_def Let_def)
qed

text \<open>
  C8. An operation that reports no history, and carries by the rule \<^verbatim>\<open>keep_id\<close>, rewrites
  nothing: an entity lives on exactly when one of its shapes is still in the model, under the same
  id and kind, denoting those of its shapes that are still there, in their order, each once.
  Adding bodies beside the model therefore costs no id.
\<close>

theorem null_history_keeps_ids:
  assumes "occt_ok oc" and "reachable oc v s" and "commit oc a s = (Inr rep, s')"
    and "commit_history a s = None" and "ca_pieces a = KeepId"
    and "map_of (alive (live_registry s)) e = Some rec"
  shows "map_of (alive (live_registry s')) e =
    (let kept = filter (\<lambda>x. skey x \<in> set (new_keys oc a s)) (ent_shapes rec)
     in if kept = [] then None
        else Some \<lparr>ent_shapes = append_all [] kept, ent_kind = ent_kind rec\<rparr>) \<and>
    (distinct (map skey (ent_shapes rec)) \<longrightarrow>
       append_all [] (filter (\<lambda>x. skey x \<in> set (new_keys oc a s)) (ent_shapes rec)) =
       filter (\<lambda>x. skey x \<in> set (new_keys oc a s)) (ent_shapes rec))"
proof
  note ok = reachable_session_ok [OF assms(1,2)]
  have e: "e < s_next_id s" using live_record [OF ok assms(6)] by blast
  show "map_of (alive (live_registry s')) e =
    (let kept = filter (\<lambda>x. skey x \<in> set (new_keys oc a s)) (ent_shapes rec)
     in if kept = [] then None
        else Some \<lparr>ent_shapes = append_all [] kept, ent_kind = ent_kind rec\<rparr>)"
    by (simp add: committed_old [OF ok assms(3) e] assms(4-6) carried_entity_def image_shapes_None
        members_of_def is_cut_def Let_def)
  show "distinct (map skey (ent_shapes rec)) \<longrightarrow>
       append_all [] (filter (\<lambda>x. skey x \<in> set (new_keys oc a s)) (ent_shapes rec)) =
       filter (\<lambda>x. skey x \<in> set (new_keys oc a s)) (ent_shapes rec)"
    using append_all_new [of "[]"] by (simp add: distinct_map_filter)
qed

lemma null_history_keeps_ids_witness:
  "map_of (alive (live_registry (snd (commit walk_occt (block_args 300 None [block_at 100, block_at 300]) one_block)))) 2 =
     Some (issued_to (face_at 102)) \<and>
   map_of (alive (live_registry (snd (commit walk_occt (block_args 300 None [block_at 300]) one_block)))) 2 = None"
proof -
  have keep: "map_of (alive (live_registry s')) 2 =
      (let kept = filter (\<lambda>x. skey x \<in> set (new_keys walk_occt (block_args 300 None bs) one_block)) [face_at 102]
       in if kept = [] then None else Some \<lparr>ent_shapes = append_all [] kept, ent_kind = FACE\<rparr>)"
    if s': "s' = snd (commit walk_occt (block_args 300 None bs) one_block)" for s' bs
  proof -
    have "\<exists>rep. fst (commit walk_occt (block_args 300 None bs) one_block) = Inr rep"
      by (simp add: commit_def commit_verdict_def block_args_def walk_occt_def Let_def)
    then obtain rep where "commit walk_occt (block_args 300 None bs) one_block = (Inr rep, s')"
      unfolding s' by (metis prod.collapse)
    moreover have "commit_history (block_args 300 None bs) one_block = None"
      by (simp add: commit_history_def block_args_def)
    moreover have "map_of (alive (live_registry one_block)) 2 = Some (issued_to (face_at 102))"
      by code_simp
    moreover have "ca_pieces (block_args 300 None bs) = KeepId" by (simp add: block_args_def)
    ultimately show ?thesis
      using null_history_keeps_ids [OF occt_ok_walk(1) one_block_reachable, where e = 2]
      by (simp add: issued_to_def face_at_def)
  qed
  have "skey (face_at 102) \<in> set (new_keys walk_occt (block_args 300 None [block_at 100, block_at 300]) one_block)"
    and "skey (face_at 102) \<notin> set (new_keys walk_occt (block_args 300 None [block_at 300]) one_block)"
    by code_simp+
  with keep [OF refl, of "[block_at 100, block_at 300]"] keep [OF refl, of "[block_at 300]"] show ?thesis
    by (simp add: issued_to_def Let_def face_at_def append_unique_def)
qed

text \<open>
  C9. Every id an operation issues is accounted for: it denotes one shape of the new model that no
  other id denotes, its kind is that shape's type, its provenance names the operation, its sources
  are exactly the live ids from which the history (or the piece rule) derives that shape, all of
  them older than the id, and its role says whether there are any.
\<close>

theorem created_ids_have_provenance:
  assumes "occt_ok oc" and "reachable oc v s" and "commit oc a s = (Inr rep, s')"
    and "e \<in> set (d_created (rep_delta rep))"
  shows "\<exists>sh org. skey sh \<in> set (new_keys oc a s) \<and>
    map_of (alive (live_registry s')) e = Some \<lparr>ent_shapes = [sh], ent_kind = shape_type sh\<rparr> \<and>
    owners (live_registry s') (skey sh) = {e} \<and> s_origins s' e = Some org \<and>
    o_op org = rep_op_index rep \<and>
    o_role org = (if o_sources org = [] then Constructed else Generated) \<and>
    set (o_sources org) = {e'. \<exists>rec. map_of (alive (live_registry s)) e' = Some rec \<and>
      skey sh \<in> derived_keys (commit_history a s) (new_keys oc a s) (ca_pieces a) rec} \<and>
    (\<forall>e' \<in> set (o_sources org). e' < e)"
proof -
  note ok = reachable_session_ok [OF assms(1,2)]
  have "d_created (rep_delta rep) = [s_next_id s..s_next_id s' - 1]"
    using commit_published [OF assms(3)] carry_registry_delta(1) [OF session_ok_ready [OF ok] commit_carry_def]
    by (auto simp: committed_def dest: arg_cong [where f = "\<lambda>r. d_created (rep_delta r)"])
  then have e: "e \<in> {s_next_id s..<s_next_id s'}" using assms(4) by simp
  have "e' < e" if "map_of (alive (live_registry s)) e' = Some rec" for e' rec
    using live_record(3) [OF ok that] e by simp
  then show ?thesis using committed_new [OF ok assms(3) e] by (elim exE conjE) (intro exI conjI; blast)
qed

lemma created_ids_have_provenance_witness:
  "6 \<in> set (d_created (rep_delta (report_of (cut_run KeepId)))) \<and>
   s_origins (snd (cut_run KeepId)) 6 = Some \<lparr>o_op = 2, o_role = Generated, o_ordinal = 0, o_sources = [3]\<rparr> \<and>
   (\<exists>sh. map_of (alive (live_registry (snd (cut_run KeepId)))) 6 = Some \<lparr>ent_shapes = [sh], ent_kind = shape_type sh\<rparr> \<and>
      owners (live_registry (snd (cut_run KeepId))) (skey sh) = {6})"
proof -
  have "6 \<in> set (d_created (rep_delta (report_of (cut_run KeepId))))"
    and "s_origins (snd (cut_run KeepId)) 6 = Some \<lparr>o_op = 2, o_role = Generated, o_ordinal = 0, o_sources = [3]\<rparr>"
    by code_simp+
  with created_ids_have_provenance [OF occt_ok_walk(1) one_block_reachable
      cut_run_report(1) [unfolded cut_run_def], folded cut_run_def, of 6]
  show ?thesis by blast
qed

text \<open>The pieces of a cut entity: each carries an id, and a new one names the entity it was cut from.\<close>

lemma cut_piece_ids:
  assumes "occt_ok oc" and "session_ok oc s" and "commit oc a s = (Inr rep, s')"
    and "map_of (alive (live_registry s)) e = Some old"
    and "pieces = image_shapes (commit_history a s) (new_keys oc a s) old"
    and "is_cut (ca_pieces a) pieces old" and "p \<in> set pieces"
  shows "owners (live_registry s') (skey p) \<noteq> {}"
    and "x \<in> owners (live_registry s') (skey p) \<Longrightarrow> s_next_id s \<le> x \<Longrightarrow>
      \<exists>org. s_origins s' x = Some org \<and> o_role org = Generated \<and> e \<in> set (o_sources org)"
proof -
  note ok' = session_ok_commit [OF assms(2,3)]
  have "skey p \<in> set (new_keys oc a s)" using assms(7) image_shapes_ok(1) assms(5) by blast
  then have "skey p \<in> fst ` set (by_shape (live_registry s'))"
    using live_facts(3) [OF ok'] commit_published [OF assms(3)] by (simp add: new_keys_def committed_def)
  then show "owners (live_registry s') (skey p) \<noteq> {}" using by_shape_key_iff [OF live_facts(2) [OF ok']] by blast
  show "\<exists>org. s_origins s' x = Some org \<and> o_role org = Generated \<and> e \<in> set (o_sources org)"
    if x: "x \<in> owners (live_registry s') (skey p)" "s_next_id s \<le> x"
  proof -
    have "x < s_next_id s'" using x(1) live_facts(4) [OF ok'] owners_subset_live by fastforce
    with x(2) have "x \<in> {s_next_id s..<s_next_id s'}" by simp
    from committed_new [OF assms(2,3) this] obtain sh org where new: "map_of (alive (live_registry s')) x =
          Some \<lparr>ent_shapes = [sh], ent_kind = shape_type sh\<rparr>"
        "s_origins s' x = Some org" "o_role org = (if o_sources org = [] then Constructed else Generated)"
        "set (o_sources org) = {e'. \<exists>rec. map_of (alive (live_registry s)) e' = Some rec \<and>
          skey sh \<in> derived_keys (commit_history a s) (new_keys oc a s) (ca_pieces a) rec}"
      by (elim exE conjE) (rule that)
    have "skey sh = skey p" using x(1) new(1) by (auto simp: owners_def)
    then have "skey sh \<in> derived_keys (commit_history a s) (new_keys oc a s) (ca_pieces a) old"
      using assms(6,7) by (auto simp: derived_keys_def assms(5) [symmetric] Let_def)
    then have "e \<in> set (o_sources org)" using assms(4) new(4) by blast
    with new(2,3) show ?thesis by auto
  qed
qed

text \<open>
  C10. The sixth rule. Under \<^verbatim>\<open>new_piece_ids\<close> of a kind, an id of that kind never comes out of
  the operation denoting several shapes it did not denote before: one that the history cuts in
  pieces dies, every piece carries an id, and a new id on a piece is Generated with the dead id
  among its sources. Ids of every other kind are carried as under \<^verbatim>\<open>keep_id\<close>.
\<close>

theorem cut_ids_die_into_pieces:
  assumes "occt_ok oc" and "reachable oc v s" and "commit oc a s = (Inr rep, s')"
    and "ca_pieces a = NewPieceIds k"
    and "map_of (alive (live_registry s)) e = Some old"
    and "pieces = image_shapes (commit_history a s) (new_keys oc a s) old"
  shows "(if ent_kind old = k \<and> 1 < length pieces \<and> map skey pieces \<noteq> map skey (ent_shapes old)
     then map_of (alive (live_registry s')) e = None \<and>
       (\<forall>p \<in> set pieces. owners (live_registry s') (skey p) \<noteq> {} \<and>
         (\<forall>x \<in> owners (live_registry s') (skey p). s_next_id s \<le> x \<longrightarrow>
            (\<exists>org. s_origins s' x = Some org \<and> o_role org = Generated \<and> e \<in> set (o_sources org))))
     else map_of (alive (live_registry s')) e =
       (if pieces = [] then None else Some \<lparr>ent_shapes = pieces, ent_kind = ent_kind old\<rparr>))"
proof -
  note ok = reachable_session_ok [OF assms(1,2)]
  have e: "e < s_next_id s" by (rule live_record(3) [OF ok assms(5)])
  have same: "same_shapes pieces old \<longleftrightarrow> map skey pieces = map skey (ent_shapes old)"
    by (auto simp: same_shapes_def list_all2_conv_all_nth is_same_def list_eq_iff_nth_eq)
  have cut: "is_cut (ca_pieces a) pieces old \<longleftrightarrow>
      ent_kind old = k \<and> 1 < length pieces \<and> map skey pieces \<noteq> map skey (ent_shapes old)"
    by (simp add: is_cut_def assms(4) same)
  have after: "map_of (alive (live_registry s')) e =
      (if pieces = [] \<or> is_cut (ca_pieces a) pieces old then None
       else Some \<lparr>ent_shapes = pieces, ent_kind = ent_kind old\<rparr>)"
    by (simp add: committed_old [OF ok assms(3) e] assms(5,6) carried_entity_def Let_def)
  show ?thesis
  proof (cases "is_cut (ca_pieces a) pieces old")
    case False
    with after show ?thesis unfolding cut [symmetric] by simp
  next
    case True
    from cut_piece_ids [OF assms(1) ok assms(3,5,6) True] after True show ?thesis
      unfolding cut [symmetric] by simp
  qed
qed

lemma cut_ids_die_into_pieces_witness:
  "map_of (alive (live_registry (snd (cut_run (NewPieceIds FACE))))) 2 = None \<and>
   owners (live_registry (snd (cut_run (NewPieceIds FACE)))) (SKey 302 0) \<noteq> {} \<and>
   map_of (by_shape (live_registry (snd (cut_run (NewPieceIds FACE))))) (SKey 302 0) = Some [7] \<and>
   s_origins (snd (cut_run (NewPieceIds FACE))) 7 =
     Some \<lparr>o_op = 2, o_role = Generated, o_ordinal = 1, o_sources = [2]\<rparr>"
proof -
  have old: "map_of (alive (live_registry one_block)) 2 = Some (issued_to (face_at 102))"
    by code_simp
  have pieces: "[cut_face, face_at 302] = image_shapes (commit_history (cut_args (NewPieceIds FACE)) one_block)
      (new_keys walk_occt (cut_args (NewPieceIds FACE)) one_block) (issued_to (face_at 102))"
    by code_simp
  have "ca_pieces (cut_args (NewPieceIds FACE)) = NewPieceIds FACE" by (simp add: cut_args_def)
  note claim = cut_ids_die_into_pieces [OF occt_ok_walk(1) one_block_reachable
      cut_run_report(2) [unfolded cut_run_def] this old pieces, folded cut_run_def]
  have "skey (face_at 302) = SKey 302 0" by (simp add: skey_def face_at_def)
  then have "map_of (alive (live_registry (snd (cut_run (NewPieceIds FACE))))) 2 = None \<and>
      owners (live_registry (snd (cut_run (NewPieceIds FACE)))) (SKey 302 0) \<noteq> {}"
  proof -
    have cond: "ent_kind (issued_to (face_at 102)) = FACE \<and> 1 < length [cut_face, face_at 302] \<and>
        map skey [cut_face, face_at 302] \<noteq> map skey (ent_shapes (issued_to (face_at 102)))"
      by code_simp
    have "face_at 302 \<in> set [cut_face, face_at 302]" by simp
    with claim [unfolded if_P [OF cond]] \<open>skey (face_at 302) = SKey 302 0\<close> show ?thesis by metis
  qed
  moreover have "map_of (by_shape (live_registry (snd (cut_run (NewPieceIds FACE))))) (SKey 302 0) = Some [7]"
    by code_simp
  moreover have "s_origins (snd (cut_run (NewPieceIds FACE))) 7 =
      Some \<lparr>o_op = 2, o_role = Generated, o_ordinal = 1, o_sources = [2]\<rparr>"
    by code_simp
  ultimately show ?thesis by blast
qed

section \<open>Moving bodies\<close>

text \<open>
  C11. Moving bodies by a change of Location costs no id: the same ids are live with the same
  kind and the same TShapes, shape for shape, no id is issued and no name or provenance changes.
  A shape of the bodies that move is where the transform puts it and every other shape stays, and
  the delta reports as modified exactly the ids with a shape in the bodies that move, with nothing
  created or deleted. This holds of every relocation that returns, also of one that moves a shape
  of an entity onto another of its shapes; of OCCT it is assumed that \<^verbatim>\<open>Moved\<close> keeps TShapes and
  moves the keys of a body's sub-shapes by one function (\<open>trsf_ok\<close>).
\<close>

theorem relocation_keeps_ids:
  assumes "occt_ok oc" and "reachable oc v s" and "trsf_ok oc t f"
    and "relocate oc t ids name s = (Inr rep, s')" and "scoped_bodies oc s ids = Inr moving"
  shows "(\<forall>e. map_option (\<lambda>rec. (ent_kind rec, map tshape (ent_shapes rec)))
        (map_of (alive (live_registry s')) e) =
      map_option (\<lambda>rec. (ent_kind rec, map tshape (ent_shapes rec))) (map_of (alive (live_registry s)) e)) \<and>
    (\<forall>e. map_option (\<lambda>rec. map skey (ent_shapes rec)) (map_of (alive (live_registry s')) e) =
      map_option (\<lambda>rec. map (\<lambda>x. if skey x \<in> scope_keys oc s moving then f (skey x) else skey x)
        (ent_shapes rec)) (map_of (alive (live_registry s)) e)) \<and>
    s_next_id s' = s_next_id s \<and> s_origins s' = s_origins s \<and> s_names s' = s_names s \<and>
    set (d_modified (rep_delta rep)) = (\<Union>k \<in> scope_keys oc s moving. owners (live_registry s) k) \<and>
    d_created (rep_delta rep) = [] \<and> d_deleted (rep_delta rep) = []"
proof -
  note ok = reachable_session_ok [OF assms(1,2)]
  from relocate_cases [OF assms(3,4)] assms(5) obtain remap where
    rm: "remaps f (scope_keys oc s moving) remap"
    and rep: "rep_delta rep = relocated_delta remap (live_registry s)
        (relabel_registry remap (live_registry s))"
    and s': "live_registry s' = relabel_registry remap (live_registry s)"
      "s_next_id s' = s_next_id s" "s_origins s' = s_origins s" "s_names s' = s_names s"
    by auto
  note spec = relabel_registry_spec [OF live_facts(2) [OF ok], of remap]
  have alive': "map_of (alive (live_registry s')) = (\<lambda>e. map_option (relabel_record remap)
      (map_of (alive (live_registry s)) e))"
    using spec(2) by (simp add: s'(1))
  have rekey: "rekey remap k = (if k \<in> scope_keys oc s moving then f k else k)" for k
    by (rule rekey_remaps [OF rm])
  have key_tshape: "key_tshape (rekey remap k) = key_tshape k" for k
    using assms(3) by (simp add: rekey trsf_ok_def)
  have tshapes: "map tshape (ent_shapes (relabel_record remap rec)) = map tshape (ent_shapes rec)" for rec
  proof -
    have t: "map tshape xs = map key_tshape (map skey xs)" for xs
      by (simp add: skey_def)
    show ?thesis unfolding t relabel_record_simps(3) by (simp add: key_tshape)
  qed
  have "remap k \<noteq> None \<longleftrightarrow> k \<in> scope_keys oc s moving" for k
    using rm by (auto simp: remaps_def)
  then have "set (d_modified (rep_delta rep)) = {e. \<exists>rec. (e, rec) \<in> set (alive (live_registry s)) \<and>
      (\<exists>x \<in> set (ent_shapes rec). skey x \<in> scope_keys oc s moving)}"
    by (force simp: rep relocated_delta_def finalise_def empty_delta_def list_ex_iff)
  also have "\<dots> = (\<Union>k \<in> scope_keys oc s moving. owners (live_registry s) k)"
    using live_facts(2) [OF ok] by (fastforce simp: owners_def index_ok_def)
  finally show ?thesis
    unfolding alive' option.map_comp comp_def relabel_record_simps tshapes
    by (simp add: s'(2-4) rekey rep relocated_delta_def finalise_def empty_delta_def comp_def)
qed

definition moved_block :: session where
  "moved_block = snd (relocate walk_occt shift_trsf None ''translate'' one_block)"

lemma relocation_keeps_ids_witness:
  "map (\<lambda>(e, rec). (e, map skey (ent_shapes rec))) (alive (live_registry moved_block)) =
     [(1, [SKey 100 1]), (2, [SKey 102 1]), (3, [SKey 104 1]), (4, [SKey 105 1]), (5, [SKey 106 1])] \<and>
   s_names moved_block = s_names one_block"
proof -
  let ?r = "relocate walk_occt shift_trsf None ''translate'' one_block"
  have scope: "scoped_bodies walk_occt one_block None = Inr [block_at 100]" by code_simp
  have "\<exists>rep. fst ?r = Inr rep"
    using relocate_cases [OF trsf_ok_shift, of None "''translate''" one_block "fst ?r" "snd ?r"] scope
    by auto
  then obtain rep where run: "?r = (Inr rep, moved_block)"
    unfolding moved_block_def by (metis prod.collapse)
  from relocation_keeps_ids [OF occt_ok_walk(1) one_block_reachable trsf_ok_shift run scope]
  have "s_names moved_block = s_names one_block" by blast
  moreover have "map (\<lambda>(e, rec). (e, map skey (ent_shapes rec))) (alive (live_registry moved_block)) =
     [(1, [SKey 100 1]), (2, [SKey 102 1]), (3, [SKey 104 1]), (4, [SKey 105 1]), (5, [SKey 106 1])]"
    by code_simp
  ultimately show ?thesis by blast
qed

end
