(* ===== verification/QueryProps.thy ===== *)
theory QueryProps
  imports Model
begin

text \<open>
  The queries and resolvers of a session that satisfies the invariant: the checks for a registry
  that has diverged from the root never fire, and each answer is the one the entity records give.
\<close>

section \<open>Resolving entities to bodies\<close>

lemma emplace_all:
  "map_of (fold (\<lambda>sub m. emplace (skey sub) b m) subs m) k =
     (case map_of m k of Some v \<Rightarrow> Some v | None \<Rightarrow> if k \<in> skey ` set subs then Some b else None)"
  by (induction subs arbitrary: m) (auto simp: map_of_emplace split: option.splits)

text \<open>The body of a sub-shape is the first body of the root that has it.\<close>

lemma body_of_subshape_spec:
  "map_of (body_of_subshape oc s) k =
     find (\<lambda>b. k \<in> root_keys oc b) (root_bodies (st_root (s_state s)))"
proof -
  have "map_of (fold (\<lambda>body m. fold (\<lambda>sub m. emplace (skey sub) body m)
        (registered_subshapes (map_shapes oc) body) m) bs m) k =
      (case map_of m k of Some v \<Rightarrow> Some v | None \<Rightarrow> find (\<lambda>b. k \<in> root_keys oc b) bs)"
    for bs and m :: "(shape_key \<times> shape) list"
    by (induction bs arbitrary: m) (auto simp: emplace_all root_keys_def split: option.splits)
  from this [of "root_bodies (st_root (s_state s))" "[]"] show ?thesis
    by (simp add: body_of_subshape_def)
qed

text \<open>In a session with the invariant every shape of a live entity has a body.\<close>

lemma live_shape_has_body:
  assumes oc: "occt_ok oc" and ok: "session_ok oc s"
    and rec: "map_of (alive (live_registry s)) e = Some rec" and sh: "sh \<in> set (ent_shapes rec)"
  shows "\<exists>b \<in> set (root_bodies (st_root (s_state s))).
    map_of (body_of_subshape oc s) (skey sh) = Some b \<and> skey sh \<in> root_keys oc b"
proof -
  have "e \<in> owners (live_registry s) (skey sh)" using rec sh by (auto simp: owners_def)
  then have "skey sh \<in> root_keys oc (st_root (s_state s))"
    using by_shape_key_iff [OF live_facts(2) [OF ok]] live_facts(3) [OF ok]
    by (auto simp: root_keys_def)
  then obtain b where "b \<in> set (root_bodies (st_root (s_state s)))" "skey sh \<in> root_keys oc b"
    using root_keys_bodies [OF oc, of "st_root (s_state s)"] ok
    by (auto simp: session_ok_def state_ok_def)
  then obtain b' where "find (\<lambda>b. skey sh \<in> root_keys oc b) (root_bodies (st_root (s_state s))) = Some b'"
    by (cases "find (\<lambda>b. skey sh \<in> root_keys oc b) (root_bodies (st_root (s_state s)))")
      (auto simp: find_None_iff)
  then show ?thesis
    unfolding body_of_subshape_spec by (auto simp: find_Some_iff)
qed

text \<open>The loop over the shapes of one entity, and the one over the entities.\<close>

lemma owner_loop:
  assumes "\<forall>sh \<in> set shs. map_of tbl (skey sh) \<noteq> None"
  shows "loop (\<lambda>sh acc. case map_of tbl (skey sh) of None \<Rightarrow> Inl (ForeignEntity e)
      | Some body \<Rightarrow> Inr (append_unique acc body)) shs acc =
    Inr (append_all acc (map (\<lambda>sh. the (map_of tbl (skey sh))) shs))"
  using assms by (induction shs arbitrary: acc) auto

lemma owners_loop:
  assumes "session_ok oc s"
    and "\<forall>e \<in> set ids. \<exists>rec. map_of (alive (live_registry s)) e = Some rec \<and>
      (\<forall>sh \<in> set (ent_shapes rec). map_of tbl (skey sh) \<noteq> None)"
  shows "loop (add_owners tbl s) ids acc = Inr (append_all acc
    (concat (map (\<lambda>e. map (\<lambda>sh. the (map_of tbl (skey sh)))
       (ent_shapes (the (map_of (alive (live_registry s)) e)))) ids)))"
  using assms(2)
proof (induction ids arbitrary: acc)
  case (Cons e ids)
  then obtain rec where rec: "map_of (alive (live_registry s)) e = Some rec"
    and shs: "\<forall>sh \<in> set (ent_shapes rec). map_of tbl (skey sh) \<noteq> None" by auto
  have "require_alive s e = Inr rec" using require_alive_iff [OF assms(1)] rec by blast
  then have "add_owners tbl s e acc =
      Inr (append_all acc (map (\<lambda>sh. the (map_of tbl (skey sh))) (ent_shapes rec)))"
    by (simp add: add_owners_def owner_loop [OF shs])
  with Cons rec show ?case by (simp add: append_all_def)
qed simp

text \<open>
  Naming live entities always finds their bodies: \<^verbatim>\<open>owner_bodies\<close> fails on an empty list
  only, never on a body that is missing from the root; it gives bodies of the root, each once,
  and each is the first body of the root that has some shape of a named entity.
\<close>

theorem owner_bodies_total:
  assumes "occt_ok oc" and "reachable oc v s"
    and "\<forall>e \<in> set ids. e \<in> live_ids (live_registry s)" and "ids \<noteq> []"
  shows "\<exists>bodies. owner_bodies oc s ids = Inr bodies \<and> bodies \<noteq> [] \<and> distinct (map skey bodies) \<and>
    set bodies \<subseteq> {b. \<exists>e \<in> set ids. \<exists>rec. map_of (alive (live_registry s)) e = Some rec \<and>
      (\<exists>sh \<in> set (ent_shapes rec).
         find (\<lambda>b. skey sh \<in> root_keys oc b) (root_bodies (st_root (s_state s))) = Some b)}"
proof -
  note ok = reachable_session_ok [OF assms(1,2)]
  let ?tbl = "body_of_subshape oc s"
  let ?rec = "\<lambda>e. the (map_of (alive (live_registry s)) e)"
  have rec: "map_of (alive (live_registry s)) e = Some (?rec e)" if "e \<in> set ids" for e
    using assms(3) that by (auto simp: live_ids_dom domIff)
  have body: "map_of ?tbl (skey sh) \<noteq> None" if "e \<in> set ids" "sh \<in> set (ent_shapes (?rec e))" for e sh
    using live_shape_has_body [OF assms(1) ok rec [OF that(1)] that(2)] by auto
  let ?bs = "concat (map (\<lambda>e. map (\<lambda>sh. the (map_of ?tbl (skey sh))) (ent_shapes (?rec e))) ids)"
  have run: "owner_bodies oc s ids = Inr (append_all [] ?bs)"
    unfolding owner_bodies_def using assms(4)
    by (simp, intro owners_loop [OF ok]) (use rec body in blast)
  obtain e0 where e0: "e0 \<in> set ids" using assms(4) by (cases ids) auto
  then have "ent_shapes (?rec e0) \<noteq> []" using live_record(1) [OF ok rec] by blast
  then have ne: "append_all [] ?bs \<noteq> []" using e0 by auto
  have "set (append_all [] ?bs) \<subseteq> set ?bs" using set_append_all_subset [of "[]"] by fastforce
  also have "\<dots> \<subseteq> {b. \<exists>e \<in> set ids. \<exists>rec. map_of (alive (live_registry s)) e = Some rec \<and>
      (\<exists>sh \<in> set (ent_shapes rec).
         find (\<lambda>b. skey sh \<in> root_keys oc b) (root_bodies (st_root (s_state s))) = Some b)}"
    using rec body unfolding body_of_subshape_spec by fastforce
  finally show ?thesis using run ne append_all_distinct [of "[]" ?bs] by auto
qed

lemma owner_bodies_total_witness:
  "owner_bodies walk_occt one_block [3, 2] = Inr [block_at 100] \<and>
   (\<exists>bodies. owner_bodies walk_occt one_block [3, 2] = Inr bodies \<and> bodies \<noteq> [])"
proof -
  have "\<forall>e \<in> set [3, 2]. e \<in> live_ids (live_registry one_block)" by code_simp
  from owner_bodies_total [OF occt_ok_walk(1) one_block_reachable this]
  have "\<exists>bodies. owner_bodies walk_occt one_block [3, 2] = Inr bodies \<and> bodies \<noteq> []" by auto
  moreover have "owner_bodies walk_occt one_block [3, 2] = Inr [block_at 100]" by code_simp
  ultimately show ?thesis by blast
qed

section \<open>Labels\<close>

text \<open>
  Every shape of the root has a label, the lowest of its ids: \<^verbatim>\<open>label_of\<close> never reports a
  registry that has diverged, and \<^verbatim>\<open>entities\<close> of one of the four kinds with \<^verbatim>\<open>distinct\<close> lists
  the labels of the root's shapes of that kind, in ascending order, each once.
\<close>

theorem labels_are_total:
  assumes "occt_ok oc" and "reachable oc v s" and "k \<in> set kEntityKinds"
  shows "(\<forall>sh \<in> set (map_shapes oc (st_root (s_state s)) k).
      label_of s sh = Inr (Min (owners (live_registry s) (skey sh)))) \<and>
    entities oc s (kind_name k) True = Inr (sorted_list_of_set
      ((\<lambda>sh. Min (owners (live_registry s) (skey sh))) ` set (map_shapes oc (st_root (s_state s)) k)))"
proof -
  note ok = reachable_session_ok [OF assms(1,2)]
  let ?shapes = "map_shapes oc (st_root (s_state s)) k"
  have label: "label_of s sh = Inr (Min (owners (live_registry s) (skey sh)))" if "sh \<in> set ?shapes" for sh
  proof -
    have key: "skey sh \<in> fst ` set (by_shape (live_registry s))"
      using that assms(3) ok map_shapes_registered [of "st_root (s_state s)" k sh oc] live_facts(3) [OF ok]
      by (auto simp: session_ok_def state_ok_def root_keys_def)
    then have ne: "owners (live_registry s) (skey sh) \<noteq> {}"
      using by_shape_key_iff [OF live_facts(2) [OF ok]] by blast
    have fin: "finite (owners (live_registry s) (skey sh))"
      using live_facts(4) [OF ok] owners_subset_live by (meson finite_atLeastLessThan_int finite_subset)
    have row: "map_of (by_shape (live_registry s)) (skey sh) = Some (id_row (live_registry s) (skey sh))"
      using id_row_key [OF live_facts(1) [OF ok]] key by simp
    obtain x xs where xs: "id_row (live_registry s) (skey sh) = x # xs"
      using ne set_id_row [of "live_registry s" "skey sh"] by (cases "id_row (live_registry s) (skey sh)") auto
    have "x = Min (owners (live_registry s) (skey sh))"
      using sorted_id_row [of "live_registry s" "skey sh"] set_id_row [of "live_registry s" "skey sh"]
      by (intro Min_eqI [symmetric] fin) (auto simp: xs)
    then show ?thesis using row xs by (simp add: label_of_def)
  qed
  then have "each (label_of s) ?shapes = Inr (map (\<lambda>sh. Min (owners (live_registry s) (skey sh))) ?shapes)"
    by (simp add: each_Inr_iff list_all2_conv_all_nth)
  moreover have "kind_of_name (kind_name k) = Inr k"
    using kind_from_name_kind_name [OF assms(3)] by (simp add: kind_of_name_def)
  ultimately show ?thesis using label
    by (auto simp: entities_def tidy_eq_sorted_list_of_set)
qed

lemma labels_are_total_witness:
  "entities walk_occt one_block ''VERTEX'' True = Inr [4, 5] \<and>
   label_of one_block (vertex_at 105) = Inr (Min (owners (live_registry one_block) (SKey 105 0)))"
proof -
  have "VERTEX \<in> set kEntityKinds" by (simp add: kEntityKinds_def)
  note claim = labels_are_total [OF occt_ok_walk(1) one_block_reachable this]
  have "vertex_at 105 \<in> set (map_shapes walk_occt (st_root (s_state one_block)) VERTEX)" by code_simp
  with claim have "label_of one_block (vertex_at 105) =
      Inr (Min (owners (live_registry one_block) (skey (vertex_at 105))))" by blast
  moreover have "skey (vertex_at 105) = SKey 105 0" by code_simp
  moreover have "entities walk_occt one_block ''VERTEX'' True = Inr [4, 5]" by code_simp
  ultimately show ?thesis by simp
qed

section \<open>The root's own copy of a face or an edge\<close>

text \<open>
  \<^verbatim>\<open>sole_face\<close> and \<^verbatim>\<open>sole_edge\<close> of a live entity answer by the entity alone: another kind
  and a split entity are refused, and else the answer is the root's own copy of the one shape the
  entity denotes. The check for a live entity that is not in the root never fires, as long as a
  shape of the root under the entity's keys has the entity's kind.
\<close>

theorem sole_shape_is_in_root:
  assumes "occt_ok oc" and "reachable oc v s" and "k \<in> set kEntityKinds"
    and "map_of (alive (live_registry s)) e = Some rec"
    and "\<forall>x \<in> set (registered_subshapes (map_shapes oc) (st_root (s_state s))).
      skey x \<in> skey ` set (ent_shapes rec) \<longrightarrow> shape_type x = ent_kind rec"
  shows "if ent_kind rec \<noteq> k then sole_of oc s k e = Inl (WrongKind e (ent_kind rec) k)
    else if length (ent_shapes rec) \<noteq> 1 then sole_of oc s k e = Inl (WasSplit e (length (ent_shapes rec)))
    else \<exists>x \<in> set (map_shapes oc (st_root (s_state s)) k).
      sole_of oc s k e = Inr x \<and> is_same x (hd (ent_shapes rec))"
proof -
  note ok = reachable_session_ok [OF assms(1,2)]
  have alive: "require_alive s e = Inr rec" using require_alive_iff [OF ok] assms(4) by blast
  consider "ent_kind rec \<noteq> k" | "ent_kind rec = k" "length (ent_shapes rec) \<noteq> 1"
    | sh where "ent_kind rec = k" "ent_shapes rec = [sh]"
    by (cases "ent_shapes rec" rule: remdups_adj.cases) auto
  then show ?thesis
  proof cases
    case 2
    then have "sole_shape s k e = Inl (WasSplit e (length (ent_shapes rec)))"
      using alive live_record(1) [OF ok assms(4)]
      by (cases "ent_shapes rec" rule: remdups_adj.cases) (simp_all add: sole_shape_def)
    with 2 show ?thesis by (simp add: sole_of_def)
  next
    case 3
    have "skey sh \<in> root_keys oc (st_root (s_state s))"
    proof -
      have "e \<in> owners (live_registry s) (skey sh)" using 3(2) assms(4) by (auto simp: owners_def)
      then show ?thesis using by_shape_key_iff [OF live_facts(2) [OF ok]] live_facts(3) [OF ok]
        by (auto simp: root_keys_def)
    qed
    then obtain k' x where x: "x \<in> set (map_shapes oc (st_root (s_state s)) k')" "skey x = skey sh"
        "x \<in> set (registered_subshapes (map_shapes oc) (st_root (s_state s)))"
      by (auto simp: root_keys_def registered_subshapes_def split: if_splits) metis
    have "k' = k" using assms(5) x 3 map_shapes_kind [OF assms(1) x(1)] by auto
    with x have "find_key (map_shapes oc (st_root (s_state s)) k) sh \<noteq> None"
      by (auto simp: find_key_def find_None_iff is_same_def)
    then obtain y where y: "find_key (map_shapes oc (st_root (s_state s)) k) sh = Some y" by blast
    then have "y \<in> set (map_shapes oc (st_root (s_state s)) k) \<and> is_same y sh"
      by (auto simp: find_key_def find_Some_iff)
    with y 3 alive show ?thesis by (auto simp: sole_of_def sole_shape_def)
  qed (simp add: sole_of_def sole_shape_def alive)
qed

lemma sole_shape_is_in_root_witness:
  "sole_face walk_occt one_block 2 = Inr (face_at 102) \<and>
   sole_edge walk_occt one_block 2 = Inl (WrongKind 2 FACE EDGE)"
proof -
  have rec: "map_of (alive (live_registry one_block)) 2 = Some (issued_to (face_at 102))" by code_simp
  have typed: "\<forall>x \<in> set (registered_subshapes (map_shapes walk_occt) (st_root (s_state one_block))).
      skey x \<in> skey ` set (ent_shapes (issued_to (face_at 102))) \<longrightarrow>
      shape_type x = ent_kind (issued_to (face_at 102))" by code_simp
  have "sole_of walk_occt one_block EDGE 2 = Inl (WrongKind 2 FACE EDGE)"
    using sole_shape_is_in_root [OF occt_ok_walk(1) one_block_reachable _ rec typed, of EDGE]
    by (simp add: kEntityKinds_def issued_to_def face_at_def)
  moreover have "sole_face walk_occt one_block 2 = Inr (face_at 102)" by code_simp
  ultimately show ?thesis by (simp add: sole_edge_def)
qed

section \<open>Hash tables\<close>

text \<open>
  C15. The outcome of an operation does not depend on the order in which the registry's hash
  table lists its entries: two tables with the same entries carry to the same registry, the same
  delta, the same counters and the same names.
\<close>

theorem carry_ignores_hash_order:
  assumes "mset (alive r) = mset (alive r')" and "distinct (map fst (alive r))"
  shows "carry_registry new_order hist op pieces r next_id origins names =
    carry_registry new_order hist op pieces r' next_id origins names"
proof -
  have "map_of (alive r) = map_of (alive r')" using assms by (rule map_of_perm)
  then have "carry_id hist ms pieces r = carry_id hist ms pieces r'" for ms
    by (simp add: fun_eq_iff carry_id_def)
  then have "carry_ids hist ms pieces r = carry_ids hist ms pieces r'" for ms
    using sorted_keys_perm [OF assms(1)] by (simp add: carry_ids_def)
  then show ?thesis by (simp add: carry_registry_def)
qed

lemma carry_ignores_hash_order_witness:
  "carry_registry [cut_solid] (Some cut_history) 2 KeepId
     (live_registry one_block\<lparr>alive := rev (alive (live_registry one_block))\<rparr>) 6 Map.empty Map.empty =
   carry_registry [cut_solid] (Some cut_history) 2 KeepId (live_registry one_block) 6 Map.empty Map.empty"
proof -
  have "distinct (map fst (rev (alive (live_registry one_block))))" by code_simp
  then show ?thesis
    by (intro carry_ignores_hash_order) simp_all
qed

end
