(* ===== verification/SketchTables.thy ===== *)
theory SketchTables
  imports Doubles
begin

text \<open>
  The flat arrays a sketch arrives in (\<^verbatim>\<open>sketch.cpp\<close>, "The input arrays"): the kind codes,
  the \<^verbatim>\<open>Tables\<close> of the caller's arrays, and the reading of the NumPy arguments into them.
\<close>

section \<open>Codes\<close>

definition kEntityColumns :: nat where "kEntityColumns = 8"
definition kConstraintColumns :: nat where "kConstraintColumns = 5"

text \<open>
  \<^verbatim>\<open>enum EntityKind\<close>, \<^verbatim>\<open>ConstraintKind\<close> and \<^verbatim>\<open>InternalRole\<close>; the arrays hold the codes,
  and a code outside these is no kind at all.
\<close>

datatype sketch_entity = Point | Line | Circle | Arc | Ellipse | EllipticArc | BSpline

definition entity_kinds :: "(int \<times> sketch_entity) list" where
  "entity_kinds = [(1, Point), (2, Line), (3, Circle), (4, Arc), (5, Ellipse), (6, EllipticArc),
     (7, BSpline)]"

datatype constraint_kind = Coincident | Tangent | Parallel | Perpendicular | Horizontal | Vertical
  | Equal | Collinear | Midpoint | Rigid | Length | Angle | Radius | InternalCoincident
  | Distance | Symmetric

definition constraint_kinds :: "(int \<times> constraint_kind) list" where
  "constraint_kinds = [(1, Coincident), (2, Tangent), (3, Parallel), (4, Perpendicular),
     (5, Horizontal), (6, Vertical), (7, Equal), (8, Collinear), (9, Midpoint), (10, Rigid),
     (11, Length), (12, Angle), (13, Radius), (14, InternalCoincident), (15, Distance),
     (16, Symmetric)]"

definition kMajorPositive :: int where "kMajorPositive = 1"
definition kMajorNegative :: int where "kMajorNegative = 2"
definition kMinorPositive :: int where "kMinorPositive = 3"
definition kMinorNegative :: int where "kMinorNegative = 4"
definition kFocus2 :: int where "kFocus2 = 5"
definition kPole :: int where "kPole = 6"
definition kKnot :: int where "kKnot = 7"

lemmas role_codes = kMajorPositive_def kMajorNegative_def kMinorPositive_def kMinorNegative_def
  kFocus2_def kPole_def kKnot_def

fun entity_name :: "sketch_entity option \<Rightarrow> string" where
  "entity_name (Some Point) = ''POINT''"
| "entity_name (Some Line) = ''LINE''"
| "entity_name (Some Circle) = ''CIRCLE''"
| "entity_name (Some Arc) = ''ARC''"
| "entity_name (Some Ellipse) = ''ELLIPSE''"
| "entity_name (Some EllipticArc) = ''ELLIPTIC_ARC''"
| "entity_name (Some BSpline) = ''BSPLINE''"
| "entity_name None = ''an unknown kind''"

fun constraint_name :: "constraint_kind option \<Rightarrow> string" where
  "constraint_name (Some Coincident) = ''COINCIDENT''"
| "constraint_name (Some Tangent) = ''TANGENT''"
| "constraint_name (Some Parallel) = ''PARALLEL''"
| "constraint_name (Some Perpendicular) = ''PERPENDICULAR''"
| "constraint_name (Some Horizontal) = ''HORIZONTAL''"
| "constraint_name (Some Vertical) = ''VERTICAL''"
| "constraint_name (Some Equal) = ''EQUAL''"
| "constraint_name (Some Collinear) = ''COLLINEAR''"
| "constraint_name (Some Midpoint) = ''MIDPOINT''"
| "constraint_name (Some Rigid) = ''RIGID''"
| "constraint_name (Some Length) = ''LENGTH''"
| "constraint_name (Some Angle) = ''ANGLE''"
| "constraint_name (Some Radius) = ''RADIUS''"
| "constraint_name (Some InternalCoincident) = ''INTERNAL_COINCIDENT''"
| "constraint_name (Some Distance) = ''DISTANCE''"
| "constraint_name (Some Symmetric) = ''SYMMETRIC''"
| "constraint_name None = ''an unknown kind''"

definition is_dimensional :: "constraint_kind option \<Rightarrow> bool" where
  "is_dimensional k = (k = Some Length \<or> k = Some Angle \<or> k = Some Radius \<or> k = Some Distance)"

section \<open>Tables\<close>

record tables =
  t_params :: "f64 list"
  t_entities :: "int list"
  t_constraints :: "int list"
  t_values :: "f64 list"
  t_fixed :: "bool list"
  t_offsets :: "int list"
  t_indices :: "int list"

definition n_params :: "tables \<Rightarrow> nat" where
  "n_params t = length (t_params t)"

definition n_entities :: "tables \<Rightarrow> nat" where
  "n_entities t = length (t_entities t) div kEntityColumns"

definition n_constraints :: "tables \<Rightarrow> nat" where
  "n_constraints t = length (t_constraints t) div kConstraintColumns"

definition ent :: "tables \<Rightarrow> nat \<Rightarrow> nat \<Rightarrow> int" where
  "ent t row col = t_entities t ! (row * kEntityColumns + col)"

definition con :: "tables \<Rightarrow> nat \<Rightarrow> nat \<Rightarrow> int" where
  "con t row col = t_constraints t ! (row * kConstraintColumns + col)"

text \<open>The kind of a row, from its code; \<open>kind_of t e\<close> takes the row as the arrays hold it.\<close>

definition ent_kind_at :: "tables \<Rightarrow> nat \<Rightarrow> sketch_entity option" where
  "ent_kind_at t row = map_of entity_kinds (ent t row 0)"

definition con_kind_at :: "tables \<Rightarrow> nat \<Rightarrow> constraint_kind option" where
  "con_kind_at t row = map_of constraint_kinds (con t row 0)"

definition kind_of :: "tables \<Rightarrow> int \<Rightarrow> sketch_entity option" where
  "kind_of t e = ent_kind_at t (nat e)"

text \<open>Indices inside the arrays: a parameter, a row, and a point row whose coordinates are.\<close>

definition is_param :: "tables \<Rightarrow> int \<Rightarrow> bool" where
  "is_param t i = (0 \<le> i \<and> nat i < n_params t)"

definition is_row :: "tables \<Rightarrow> int \<Rightarrow> bool" where
  "is_row t r = (0 \<le> r \<and> nat r < n_entities t)"

definition coords_in :: "tables \<Rightarrow> int \<Rightarrow> bool" where
  "coords_in t p = (is_row t p \<and> is_param t (ent t (nat p) 1) \<and> is_param t (ent t (nat p) 2))"

text \<open>What the reading of the arguments gives: as many values and flags as rows and parameters.\<close>

definition tables_ok :: "tables \<Rightarrow> bool" where
  "tables_ok t = (length (t_entities t) mod kEntityColumns = 0 \<and>
     length (t_constraints t) mod kConstraintColumns = 0 \<and>
     length (t_values t) = n_constraints t \<and> length (t_fixed t) = n_params t \<and>
     list_all is_finite (t_params t))"

section \<open>Reading the arguments\<close>

text \<open>
  A Python argument: \<^verbatim>\<open>None\<close>, an object that is no array, or an array with its dtype kind, its
  item size, its shape and its items in C order.
\<close>

datatype items = F64s "f64 list" | I64s "int list" | Bools "bool list" | OtherItems

record ndarray =
  nd_kind :: char
  nd_itemsize :: int
  nd_shape :: "int list"
  nd_items :: items

datatype pyarg = PyNone | PyOther | PyArray ndarray

datatype arg_error =
    BadMaxIterations int
  | BadTolerance f64
  | NotAnArray string
  | WrongDtype string
  | WrongShape string "int list"
  | ParamNotFinite nat f64
  | SplineArraysApart
  | NoOffsets

definition typed_array :: "pyarg \<Rightarrow> string \<Rightarrow> char \<Rightarrow> int \<Rightarrow> (arg_error, ndarray) result" where
  "typed_array obj name kind itemsize =
     (case obj of
        PyArray a \<Rightarrow> if nd_kind a \<noteq> kind \<or> nd_itemsize a \<noteq> itemsize then Inl (WrongDtype name) else Inr a
      | _ \<Rightarrow> Inl (NotAnArray name))"

definition f64_items :: "ndarray \<Rightarrow> f64 list" where
  "f64_items a = (case nd_items a of F64s xs \<Rightarrow> xs | _ \<Rightarrow> [])"

definition i64_items :: "ndarray \<Rightarrow> int list" where
  "i64_items a = (case nd_items a of I64s xs \<Rightarrow> xs | _ \<Rightarrow> [])"

definition bool_items :: "ndarray \<Rightarrow> bool list" where
  "bool_items a = (case nd_items a of Bools xs \<Rightarrow> xs | _ \<Rightarrow> [])"

text \<open>\<open>len\<close> is -1 for any length.\<close>

definition read_f64 :: "pyarg \<Rightarrow> string \<Rightarrow> int \<Rightarrow> (arg_error, f64 list) result" where
  "read_f64 obj name len = bind_result (typed_array obj name CHR ''f'' 8) (\<lambda>a.
     if length (nd_shape a) \<noteq> 1 \<or> (0 \<le> len \<and> hd (nd_shape a) \<noteq> len)
     then Inl (WrongShape name (nd_shape a)) else Inr (f64_items a))"

definition read_i64 :: "pyarg \<Rightarrow> string \<Rightarrow> nat \<Rightarrow> (arg_error, int list) result" where
  "read_i64 obj name columns = bind_result (typed_array obj name CHR ''i'' 8) (\<lambda>a.
     if (if columns = 0 then length (nd_shape a) = 1
         else length (nd_shape a) = 2 \<and> nd_shape a ! 1 = int columns)
     then Inr (i64_items a) else Inl (WrongShape name (nd_shape a)))"

definition read_fixed :: "pyarg \<Rightarrow> nat \<Rightarrow> (arg_error, bool list) result" where
  "read_fixed obj n =
     (if obj = PyNone then Inr (replicate n False)
      else bind_result (typed_array obj ''fixed'' CHR ''b'' 1) (\<lambda>a.
        if length (nd_shape a) \<noteq> 1 \<or> hd (nd_shape a) \<noteq> int n
        then Inl (WrongShape ''fixed'' (nd_shape a)) else Inr (bool_items a)))"

definition read_splines :: "pyarg \<Rightarrow> pyarg \<Rightarrow> (arg_error, int list \<times> int list) result" where
  "read_splines offsets_obj indices_obj =
     (if (offsets_obj = PyNone) \<noteq> (indices_obj = PyNone) then Inl SplineArraysApart
      else if offsets_obj = PyNone then Inr ([], [])
      else bind_result (read_i64 offsets_obj ''spline_offsets'' 0) (\<lambda>offsets.
        bind_result (read_i64 indices_obj ''spline_indices'' 0) (\<lambda>indices.
          if offsets = [] then Inl NoOffsets else Inr (offsets, indices))))"

definition check_finite :: "f64 list \<Rightarrow> (arg_error, unit) result" where
  "check_finite ps = loop (\<lambda>i _. if is_finite (ps ! i) then Inr () else Inl (ParamNotFinite i (ps ! i)))
     [0..<length ps] ()"

text \<open>The argument checks of \<^verbatim>\<open>sketch_solve\<close>, up to the tables.\<close>

definition read_tables ::
  "pyarg \<Rightarrow> pyarg \<Rightarrow> pyarg \<Rightarrow> pyarg \<Rightarrow> pyarg \<Rightarrow> pyarg \<Rightarrow> pyarg \<Rightarrow> int \<Rightarrow> f64 \<Rightarrow>
   (arg_error, tables) result" where
  "read_tables params_obj entities_obj constraints_obj values_obj fixed_obj offsets_obj indices_obj
     max_iterations tolerance =
     (if max_iterations < 1 then Inl (BadMaxIterations max_iterations)
      else if \<not> is_finite tolerance \<or> \<not> fless f0 tolerance then Inl (BadTolerance tolerance)
      else
        bind_result (read_f64 params_obj ''params'' (-1)) (\<lambda>params.
        bind_result (check_finite params) (\<lambda>_.
        bind_result (read_i64 entities_obj ''entities'' kEntityColumns) (\<lambda>es.
        bind_result (read_i64 constraints_obj ''constraints'' kConstraintColumns) (\<lambda>cs.
        bind_result (read_f64 values_obj ''values'' (int (length cs div kConstraintColumns))) (\<lambda>vs.
        bind_result (read_fixed fixed_obj (length params)) (\<lambda>flags.
        bind_result (read_splines offsets_obj indices_obj) (\<lambda>(offsets, indices).
          Inr \<lparr>t_params = params, t_entities = es, t_constraints = cs, t_values = vs,
               t_fixed = flags, t_offsets = offsets, t_indices = indices\<rparr>))))))))"

end
