(* ===== verification/SketchCheck.thy ===== *)
theory SketchCheck
  imports SketchTables
begin

text \<open>
  The checks of the entity rows (\<^verbatim>\<open>Sketch::check_entities\<close> and \<^verbatim>\<open>check_splines\<close>): every
  index in range and of the right kind, the initial guess usable, and the B-spline slots
  resolved. The checks write two tables, the role of each parameter and the B-spline of each row,
  which are threaded through.
\<close>

section \<open>Errors\<close>

text \<open>
  One constructor for each \<^verbatim>\<open>refuse\<close> of the unit, with the numbers its message names, by the
  kind of row it is about. \<open>OutOfRange\<close> is no refusal of the code: it is a read past the end of
  an array.
\<close>

datatype entity_error =
    ParamRange nat int
  | EntityRange nat int
  | EntityKind nat int sketch_entity
  | UnusedEntityColumn nat int
  | ZeroLengthLine int int
  | ArcPointsNotDistinct int int int
  | RadiusNotPositive int f64
  | EllipticEndsNotDistinct int int
  | FocusAtCenter int int
  | MinorRadiusNotPositive int f64
  | NoEntityKind int

datatype spline_error =
    SlotRange int nat
  | SlotTaken int int
  | BadDegree int
  | BadPeriodic int
  | BadSlotLength int int int
  | PoleNotPoint int int
  | SplineParamRange int int
  | SharedKnotParam int int
  | WeightNotPositive int int f64
  | BadMultiplicity int int
  | CurveRefused string

datatype offsets_error =
    SplineWithoutOffsets nat
  | IndicesWithoutOffsets nat
  | OffsetsEnds int int nat
  | OffsetsDecrease nat int int
  | SlotUnnamed nat

datatype row_error =
    UnusedConstraintColumn nat int
  | OperandRange nat int
  | OptionalNotPoint nat int
  | SameOperand int
  | OperandKind nat int
  | NotFinite f64
  | NotPositive f64
  | NegativeDistance f64
  | ValueNotNan f64
  | NoConstraintKind int

datatype pair_error =
    PointOperand
  | TangentLines
  | PerpendicularRounds
  | NeedsPoint
  | NoPointOperand
  | OnePoint
  | EqualKinds
  | OneLine
  | DistanceKinds

datatype curve_error =
    SplineDirection int int
  | AngleOrder f64 f64
  | EllipseRole int int
  | SplineRole int int
  | InternalCurve int

datatype sketch_error =
    AtEntity nat entity_error
  | AtSpline nat spline_error
  | InOffsets offsets_error
  | AtRow nat row_error
  | AtPair nat int int pair_error
  | AtCurve nat curve_error
  | OutOfRange
  | GcsFailed string

type_synonym 'a checked = "(sketch_error, 'a) result"

section \<open>B-splines\<close>

text \<open>
  One B-spline row's slot, resolved (\<^verbatim>\<open>struct Spline\<close>), and OCCT's
  \<^verbatim>\<open>Geom2d_BSplineCurve\<close>: what its constructor is given, whether the constructor accepts it
  (or the text of the failure it throws), and the operations the projection of a point uses.
\<close>

record curve2d =
  cv_poles :: "(f64 \<times> f64) list"
  cv_weights :: "f64 list"
  cv_knots :: "f64 list"
  cv_mults :: "int list"
  cv_degree :: int
  cv_periodic :: bool

record spline =
  sp_poles :: "int list"
  sp_weights :: "int list"
  sp_knots :: "int list"
  sp_mults :: "int list"
  sp_degree :: int
  sp_periodic :: bool
  sp_occt :: curve2d

record occt2d =
  curve_refusal :: "curve2d \<Rightarrow> string option"
  first_parameter :: "curve2d \<Rightarrow> f64"
  last_parameter :: "curve2d \<Rightarrow> f64"
  distance_to :: "f64 \<times> f64 \<Rightarrow> curve2d \<Rightarrow> f64 \<Rightarrow> f64"
  projection :: "f64 \<times> f64 \<Rightarrow> curve2d \<Rightarrow> (f64 \<times> f64) option"

section \<open>Reads\<close>

text \<open>
  A \<^verbatim>\<open>std::vector\<close> indexed past its end is no refusal: the code reads or writes other memory. The
  indices a step uses are checked here before it, so such an access is the outcome
  \<open>OutOfRange\<close>.
\<close>

definition indexing :: "bool \<Rightarrow> 'a checked \<Rightarrow> 'a checked" where
  "indexing ok r = (if ok then r else Inl OutOfRange)"

section \<open>One entity row\<close>

text \<open>The roles: 0 unused, 1 moves, 2 knot.\<close>

definition param_at :: "tables \<Rightarrow> nat \<Rightarrow> nat \<Rightarrow> nat list \<Rightarrow> (int \<times> nat list) checked" where
  "param_at t row col roles =
     indexing (row < n_entities t)
       (let i = ent t row col in
        if i < 0 \<or> n_params t \<le> nat i then Inl (AtEntity row (ParamRange col i))
        else indexing (0 \<le> i \<and> nat i < length roles) (Inr (i, roles[nat i := 1])))"

definition entity_at :: "tables \<Rightarrow> nat \<Rightarrow> nat \<Rightarrow> sketch_entity \<Rightarrow> int checked" where
  "entity_at t row col want =
     indexing (row < n_entities t)
       (let r = ent t row col in
        if r < 0 \<or> n_entities t \<le> nat r then Inl (AtEntity row (EntityRange col r))
        else indexing (is_row t r)
          (if kind_of t r \<noteq> Some want then Inl (AtEntity row (EntityKind col r want)) else Inr r))"

definition unused_entity_columns :: "tables \<Rightarrow> nat \<Rightarrow> nat \<Rightarrow> unit checked" where
  "unused_entity_columns t row start =
     indexing (row < n_entities t)
       (loop (\<lambda>col _. if ent t row col \<noteq> -1 then Inl (AtEntity row (UnusedEntityColumn col (ent t row col))) else Inr ())
         [start..<kEntityColumns] ())"

definition same_point :: "tables \<Rightarrow> int \<Rightarrow> int \<Rightarrow> bool" where
  "same_point t a b =
     (a = b \<or> (ent t (nat a) 1 = ent t (nat b) 1 \<and> ent t (nat a) 2 = ent t (nat b) 2))"

definition param :: "tables \<Rightarrow> int \<Rightarrow> f64" where
  "param t i = t_params t ! nat i"

definition x_of :: "tables \<Rightarrow> int \<Rightarrow> f64" where
  "x_of t p = param t (ent t (nat p) 1)"

definition y_of :: "tables \<Rightarrow> int \<Rightarrow> f64" where
  "y_of t p = param t (ent t (nat p) 2)"

definition same_place :: "tables \<Rightarrow> int \<Rightarrow> int \<Rightarrow> bool" where
  "same_place t a b = (feq (x_of t a) (x_of t b) \<and> feq (y_of t a) (y_of t b))"

definition check_point :: "tables \<Rightarrow> nat \<Rightarrow> nat list \<Rightarrow> nat list checked" where
  "check_point t row roles =
     indexing (row < n_entities t)
       (if ent_kind_at t row \<noteq> Some Point then Inr roles
        else bind_result (param_at t row 1 roles) (\<lambda>(_, roles).
          bind_result (param_at t row 2 roles) (\<lambda>(_, roles).
            bind_result (unused_entity_columns t row 3) (\<lambda>_. Inr roles))))"

definition check_line :: "tables \<Rightarrow> nat \<Rightarrow> nat list \<Rightarrow> nat list checked" where
  "check_line t row roles =
     bind_result (entity_at t row 1 Point) (\<lambda>p1.
     bind_result (entity_at t row 2 Point) (\<lambda>p2.
     bind_result (unused_entity_columns t row 3) (\<lambda>_.
       indexing (coords_in t p1 \<and> coords_in t p2)
         (if same_place t p1 p2 then Inl (AtEntity row (ZeroLengthLine p1 p2)) else Inr roles))))"

definition check_radius :: "tables \<Rightarrow> nat \<Rightarrow> nat \<Rightarrow> nat list \<Rightarrow> nat list checked" where
  "check_radius t row col roles =
     bind_result (param_at t row col roles) (\<lambda>(r, roles).
       indexing (is_param t r)
         (if \<not> fless f0 (param t r) then Inl (AtEntity row (RadiusNotPositive r (param t r))) else Inr roles))"

definition check_circle :: "tables \<Rightarrow> nat \<Rightarrow> nat list \<Rightarrow> nat list checked" where
  "check_circle t row roles =
     bind_result (entity_at t row 1 Point) (\<lambda>_.
     bind_result (unused_entity_columns t row 3) (\<lambda>_. check_radius t row 2 roles))"

definition check_arc :: "tables \<Rightarrow> nat \<Rightarrow> nat list \<Rightarrow> nat list checked" where
  "check_arc t row roles =
     bind_result (entity_at t row 1 Point) (\<lambda>c.
     bind_result (entity_at t row 2 Point) (\<lambda>a.
     bind_result (entity_at t row 3 Point) (\<lambda>b.
       indexing (is_row t a \<and> is_row t b \<and> is_row t c)
         (if same_point t a b \<or> same_point t c a \<or> same_point t c b
          then Inl (AtEntity row (ArcPointsNotDistinct c a b))
          else bind_result (param_at t row 5 roles) (\<lambda>(_, roles).
            bind_result (param_at t row 6 roles) (\<lambda>(_, roles).
            bind_result (unused_entity_columns t row 7) (\<lambda>_. check_radius t row 4 roles)))))))"

definition check_oval :: "tables \<Rightarrow> nat \<Rightarrow> int \<Rightarrow> int \<Rightarrow> nat \<Rightarrow> nat list \<Rightarrow> nat list checked" where
  "check_oval t row c f col roles =
     indexing (coords_in t c \<and> coords_in t f)
       (if same_place t c f then Inl (AtEntity row (FocusAtCenter f c))
        else bind_result (param_at t row col roles) (\<lambda>(r, roles).
          indexing (is_param t r)
            (if \<not> fless f0 (param t r) then Inl (AtEntity row (MinorRadiusNotPositive r (param t r))) else Inr roles)))"

definition check_ellipse :: "tables \<Rightarrow> nat \<Rightarrow> nat list \<Rightarrow> nat list checked" where
  "check_ellipse t row roles =
     bind_result (entity_at t row 1 Point) (\<lambda>c.
     bind_result (entity_at t row 2 Point) (\<lambda>f.
     bind_result (unused_entity_columns t row 4) (\<lambda>_. check_oval t row c f 3 roles)))"

definition check_elliptic_arc :: "tables \<Rightarrow> nat \<Rightarrow> nat list \<Rightarrow> nat list checked" where
  "check_elliptic_arc t row roles =
     bind_result (entity_at t row 1 Point) (\<lambda>c.
     bind_result (entity_at t row 2 Point) (\<lambda>f.
     bind_result (entity_at t row 3 Point) (\<lambda>a.
     bind_result (entity_at t row 4 Point) (\<lambda>b.
       indexing (is_row t a \<and> is_row t b)
         (if same_point t a b then Inl (AtEntity row (EllipticEndsNotDistinct a b))
          else bind_result (param_at t row 6 roles) (\<lambda>(_, roles).
            bind_result (param_at t row 7 roles) (\<lambda>(_, roles). check_oval t row c f 5 roles)))))))"

definition check_entity :: "tables \<Rightarrow> nat \<Rightarrow> nat list \<Rightarrow> nat list checked" where
  "check_entity t row roles =
     indexing (row < n_entities t)
       (case ent_kind_at t row of
          None \<Rightarrow> Inl (AtEntity row (NoEntityKind (ent t row 0)))
        | Some Point \<Rightarrow> Inr roles
        | Some Line \<Rightarrow> check_line t row roles
        | Some Circle \<Rightarrow> check_circle t row roles
        | Some Arc \<Rightarrow> check_arc t row roles
        | Some Ellipse \<Rightarrow> check_ellipse t row roles
        | Some EllipticArc \<Rightarrow> check_elliptic_arc t row roles
        | Some BSpline \<Rightarrow> bind_result (unused_entity_columns t row 5) (\<lambda>_. Inr roles))"

section \<open>The slots\<close>

text \<open>\<^verbatim>\<open>std::int64_t\<close> arithmetic wraps in practice; the code's sums and products are read so.\<close>

definition wrap64 :: "int \<Rightarrow> int" where
  "wrap64 x = signed_take_bit 63 x"

definition spline_rows :: "tables \<Rightarrow> nat list" where
  "spline_rows t = filter (\<lambda>row. ent_kind_at t row = Some BSpline) [0..<n_entities t]"

definition check_offsets :: "tables \<Rightarrow> unit checked" where
  "check_offsets t =
     (let off = t_offsets t; idx = t_indices t in
      indexing (off \<noteq> [])
        (if hd off \<noteq> 0 \<or> last off \<noteq> int (length idx) then Inl (InOffsets (OffsetsEnds (hd off) (last off) (length idx)))
         else loop (\<lambda>k _. indexing (1 \<le> k \<and> k < length off)
             (if off ! k < off ! (k - 1) then Inl (InOffsets (OffsetsDecrease (k - 1) (off ! (k - 1)) (off ! k)))
              else Inr ())) [1..<length off] ()))"

text \<open>C's \<^verbatim>\<open>%\<close> truncates; only whether the remainder is zero matters here.\<close>

definition slot_length_ok :: "int \<Rightarrow> int \<Rightarrow> bool" where
  "slot_length_ok n len =
     (\<not> (n < 2 \<or> len \<le> wrap64 (2 * n) \<or> wrap64 (len - wrap64 (2 * n)) mod 2 \<noteq> 0))"

text \<open>The number of knots of a slot: half of what the poles and the weights leave.\<close>

definition knot_count :: "int \<Rightarrow> int \<Rightarrow> int" where
  "knot_count n len =
     (let d = wrap64 (len - wrap64 (2 * n)) in if d < 0 then - ((- d) div 2) else d div 2)"

text \<open>\<open>at(k)\<close> reads \<open>idx[begin + k]\<close>; a read past the end is \<open>OutOfRange\<close>.\<close>

definition slot_at :: "tables \<Rightarrow> int \<Rightarrow> int \<Rightarrow> int checked" where
  "slot_at t begin_at k =
     (if 0 \<le> begin_at + k \<and> begin_at + k < int (length (t_indices t))
      then Inr (t_indices t ! nat (begin_at + k)) else Inl OutOfRange)"

definition pole_of :: "tables \<Rightarrow> nat \<Rightarrow> int \<Rightarrow> int \<Rightarrow> int list \<Rightarrow> int list checked" where
  "pole_of t row begin_at k poles = bind_result (slot_at t begin_at k) (\<lambda>r.
     if r < 0 \<or> n_entities t \<le> nat r then Inl (AtSpline row (PoleNotPoint k r))
     else indexing (is_row t r)
       (if kind_of t r \<noteq> Some Point then Inl (AtSpline row (PoleNotPoint k r)) else Inr (poles @ [r])))"

definition param_of :: "tables \<Rightarrow> nat \<Rightarrow> int \<Rightarrow> int \<Rightarrow> nat \<Rightarrow> nat list \<Rightarrow> (int \<times> nat list) checked" where
  "param_of t row begin_at k rl roles = bind_result (slot_at t begin_at k) (\<lambda>i.
     if i < 0 \<or> n_params t \<le> nat i then Inl (AtSpline row (SplineParamRange k i))
     else indexing (0 \<le> i \<and> nat i < length roles)
       (if roles ! nat i \<noteq> 0 \<and> roles ! nat i \<noteq> rl then Inl (AtSpline row (SharedKnotParam k i))
        else Inr (i, roles[nat i := rl])))"

definition weight_of ::
  "tables \<Rightarrow> nat \<Rightarrow> int \<Rightarrow> int \<Rightarrow> int \<Rightarrow> int list \<times> nat list \<Rightarrow> (int list \<times> nat list) checked" where
  "weight_of t row begin_at n k acc =
     bind_result (param_of t row begin_at (n + k) 1 (snd acc)) (\<lambda>(i, roles).
       indexing (is_param t i)
         (if \<not> fless f0 (param t i) then Inl (AtSpline row (WeightNotPositive k i (param t i)))
          else Inr (fst acc @ [i], roles)))"

definition knot_of ::
  "tables \<Rightarrow> nat \<Rightarrow> int \<Rightarrow> int \<Rightarrow> int \<Rightarrow> int list \<times> nat list \<Rightarrow> (int list \<times> nat list) checked" where
  "knot_of t row begin_at n k acc =
     bind_result (param_of t row begin_at (2 * n + k) 2 (snd acc)) (\<lambda>(i, roles).
       Inr (fst acc @ [i], roles))"

definition mult_of :: "tables \<Rightarrow> nat \<Rightarrow> int \<Rightarrow> int \<Rightarrow> int \<Rightarrow> int \<Rightarrow> int list \<Rightarrow> int list checked" where
  "mult_of t row begin_at start degree k mults =
     bind_result (slot_at t begin_at (start + k)) (\<lambda>mult.
       if mult < 1 \<or> degree + 1 < mult then Inl (AtSpline row (BadMultiplicity k mult)) else Inr (mults @ [mult]))"

text \<open>
  One B-spline row, once its slot is known to be its own: the definition read from the slot and
  offered to OCCT.
\<close>

definition curve_of :: "tables \<Rightarrow> int list \<Rightarrow> int list \<Rightarrow> int list \<Rightarrow> int list \<Rightarrow> int \<Rightarrow> bool \<Rightarrow> curve2d" where
  "curve_of t poles weights knots mults degree periodic =
     \<lparr>cv_poles = map (\<lambda>p. (x_of t p, y_of t p)) poles, cv_weights = map (param t) weights,
      cv_knots = map (param t) knots, cv_mults = mults, cv_degree = degree, cv_periodic = periodic\<rparr>"

definition read_slot ::
  "occt2d \<Rightarrow> tables \<Rightarrow> nat \<Rightarrow> int \<Rightarrow> int \<Rightarrow> nat list \<Rightarrow> (spline \<times> nat list) checked" where
  "read_slot oc t row begin_at len roles =
     (let degree = ent t row 2; periodic = (ent t row 3 = 1); n = ent t row 4; m = knot_count n len in
      if \<not> slot_length_ok n len then Inl (AtSpline row (BadSlotLength (ent t row 1) len n))
      else
        bind_result (loop (pole_of t row begin_at) [0..n - 1] []) (\<lambda>poles.
        bind_result (loop (weight_of t row begin_at n) [0..n - 1] ([], roles)) (\<lambda>(weights, roles).
        bind_result (loop (knot_of t row begin_at n) [0..m - 1] ([], roles)) (\<lambda>(knots, roles).
        bind_result (loop (mult_of t row begin_at (2 * n + m) degree) [0..m - 1] []) (\<lambda>mults.
          indexing (list_all (coords_in t) poles \<and> list_all (is_param t) weights \<and> list_all (is_param t) knots)
            (let curve = curve_of t poles weights knots mults degree periodic in
             case curve_refusal oc curve of
               Some msg \<Rightarrow> Inl (AtSpline row (CurveRefused msg))
             | None \<Rightarrow> Inr (\<lparr>sp_poles = poles, sp_weights = weights, sp_knots = knots, sp_mults = mults,
                             sp_degree = degree, sp_periodic = periodic, sp_occt = curve\<rparr>, roles)))))))"

text \<open>The tables the loop over the B-spline rows fills: the owners of the slots, the B-splines.\<close>

record slots =
  sl_owner :: "int list"
  sl_roles :: "nat list"
  sl_splines :: "nat \<rightharpoonup> spline"

definition check_spline :: "occt2d \<Rightarrow> tables \<Rightarrow> nat \<Rightarrow> slots \<Rightarrow> slots checked" where
  "check_spline oc t row s =
     indexing (row < n_entities t)
       (let slot = ent t row 1; off = t_offsets t in
        if slot < 0 \<or> length (sl_owner s) \<le> nat slot then Inl (AtSpline row (SlotRange slot (length (sl_owner s))))
        else indexing (0 \<le> slot \<and> nat slot < length (sl_owner s) \<and> nat slot + 1 < length off)
          (if 0 \<le> sl_owner s ! nat slot then Inl (AtSpline row (SlotTaken (sl_owner s ! nat slot) slot))
           else if ent t row 2 < 1 \<or> 25 < ent t row 2 then Inl (AtSpline row (BadDegree (ent t row 2)))
           else if ent t row 3 \<noteq> 0 \<and> ent t row 3 \<noteq> 1 then Inl (AtSpline row (BadPeriodic (ent t row 3)))
           else bind_result (read_slot oc t row (off ! nat slot) (off ! (nat slot + 1) - off ! nat slot)
                               (sl_roles s))
                  (\<lambda>(sp, roles). Inr \<lparr>sl_owner = (sl_owner s)[nat slot := int row], sl_roles = roles,
                                       sl_splines = (sl_splines s)(row \<mapsto> sp)\<rparr>)))"

definition check_splines :: "occt2d \<Rightarrow> tables \<Rightarrow> nat list \<Rightarrow> (nat list \<times> (nat \<rightharpoonup> spline)) checked" where
  "check_splines oc t roles =
     (let rows = spline_rows t in
      if t_offsets t = [] then
        (if rows \<noteq> [] then Inl (InOffsets (SplineWithoutOffsets (hd rows)))
         else if t_indices t \<noteq> [] then Inl (InOffsets (IndicesWithoutOffsets (length (t_indices t))))
         else Inr (roles, Map.empty))
      else
        bind_result (check_offsets t) (\<lambda>_.
        bind_result (loop (check_spline oc t) rows
            \<lparr>sl_owner = replicate (length (t_offsets t) - 1) (-1), sl_roles = roles,
             sl_splines = Map.empty\<rparr>) (\<lambda>s.
        bind_result (loop (\<lambda>k _. indexing (k < length (sl_owner s))
              (if sl_owner s ! k < 0 then Inl (InOffsets (SlotUnnamed k)) else Inr ()))
            [0..<length (sl_owner s)] ()) (\<lambda>_.
          Inr (sl_roles s, sl_splines s)))))"

section \<open>All rows\<close>

definition check_entities :: "occt2d \<Rightarrow> tables \<Rightarrow> (nat list \<times> (nat \<rightharpoonup> spline)) checked" where
  "check_entities oc t =
     bind_result (loop (check_point t) [0..<n_entities t] (replicate (n_params t) 0)) (\<lambda>roles.
     bind_result (loop (check_entity t) [0..<n_entities t] roles) (\<lambda>roles.
       check_splines oc t roles))"

end
