(* ===== verification/SketchPlan.thy ===== *)
theory SketchPlan
  imports SketchCheck
begin

text \<open>
  The checks of the constraint rows (\<^verbatim>\<open>Sketch::plan_row\<close>, \<^verbatim>\<open>plan_curves\<close>,
  \<^verbatim>\<open>plan_rigid\<close>): each row becomes a plan, which names its operands in a fixed order, how it
  maps to PlaneGCS constraints, and how many auxiliary scalars it takes. \<open>splines\<close> is the table
  \<^verbatim>\<open>check_splines\<close> filled.
\<close>

section \<open>Plans\<close>

datatype mapping = PointPoint | PointLine | PointCircle | PointArc | PointEllipse | PointBSpline
  | LineCircle | CircleCircle | LineEllipse | AngleViaPoint | LineLine | CenterOnLine | Direct
  | EqualLength | EqualRadius | EqualRadii | CollinearPoints | MidpointLine | MidpointArc
  | RigidParams | InternalEllipse | InternalPole | InternalKnot | PointPointDistance
  | PointLineDistance

record plan =
  pl_kind :: "constraint_kind"
  pl_map :: mapping
  pl_a :: int
  pl_b :: int
  pl_p :: int
  pl_end_a :: int
  pl_end_b :: int
  pl_role :: int
  pl_index :: int
  pl_on_first :: bool
  pl_on_second :: bool
  pl_rigid :: "nat list"
  pl_aux :: nat
  pl_aux_count :: nat

definition new_plan :: "constraint_kind \<Rightarrow> plan" where
  "new_plan k = \<lparr>pl_kind = k, pl_map = Direct, pl_a = -1, pl_b = -1, pl_p = -1, pl_end_a = -1,
     pl_end_b = -1, pl_role = -1, pl_index = -1, pl_on_first = False, pl_on_second = False,
     pl_rigid = [], pl_aux = 0, pl_aux_count = 0\<rparr>"

section \<open>Operands\<close>

definition unused_constraint_columns :: "tables \<Rightarrow> nat \<Rightarrow> nat \<Rightarrow> unit checked" where
  "unused_constraint_columns t row start =
     indexing (row < n_constraints t)
       (loop (\<lambda>col _. if con t row col \<noteq> -1
               then Inl (AtRow row (UnusedConstraintColumn col (con t row col))) else Inr ())
         [start..<kConstraintColumns] ())"

definition operand :: "tables \<Rightarrow> nat \<Rightarrow> nat \<Rightarrow> int checked" where
  "operand t row col =
     indexing (row < n_constraints t)
       (let r = con t row col in
        if r < 0 \<or> n_entities t \<le> nat r then Inl (AtRow row (OperandRange col r)) else Inr r)"

definition optional_point :: "tables \<Rightarrow> nat \<Rightarrow> nat \<Rightarrow> int checked" where
  "optional_point t row col =
     indexing (row < n_constraints t)
       (if con t row col = -1 then Inr (-1)
        else bind_result (operand t row col) (\<lambda>p.
          indexing (is_row t p)
            (if kind_of t p \<noteq> Some Point then Inl (AtRow row (OptionalNotPoint col p)) else Inr p)))"

text \<open>\<^verbatim>\<open>need\<close>: the operand has one of the kinds.\<close>

definition need :: "tables \<Rightarrow> nat \<Rightarrow> int \<Rightarrow> nat \<Rightarrow> sketch_entity list \<Rightarrow> unit checked" where
  "need t row e col kinds =
     indexing (is_row t e)
       (if kind_of t e \<in> Some ` set kinds then Inr () else Inl (AtRow row (OperandKind col e)))"

text \<open>\<^verbatim>\<open>two\<close>: two different entity rows.\<close>

definition two :: "tables \<Rightarrow> nat \<Rightarrow> (int \<times> int) checked" where
  "two t row =
     bind_result (operand t row 1) (\<lambda>a.
     bind_result (operand t row 2) (\<lambda>b.
       if a = b then Inl (AtRow row (SameOperand a)) else Inr (a, b)))"

definition spline_of :: "(nat \<rightharpoonup> spline) \<Rightarrow> int \<Rightarrow> spline checked" where
  "spline_of splines e = (case splines (nat e) of None \<Rightarrow> Inl OutOfRange | Some sp \<Rightarrow> Inr sp)"

definition spline_end :: "tables \<Rightarrow> spline \<Rightarrow> int \<Rightarrow> int" where
  "spline_end t sp point =
     (if same_point t point (hd (sp_poles sp)) then 0
      else if same_point t point (last (sp_poles sp)) then 1 else -1)"

text \<open>Whether the rows of the end poles can be read.\<close>

definition ends_in :: "tables \<Rightarrow> spline \<Rightarrow> bool" where
  "ends_in t sp = (sp_poles sp \<noteq> [] \<and> is_row t (hd (sp_poles sp)) \<and> is_row t (last (sp_poles sp)))"

definition is_round :: "sketch_entity option \<Rightarrow> bool" where
  "is_round k = (k = Some Circle \<or> k = Some Arc)"

definition is_oval :: "sketch_entity option \<Rightarrow> bool" where
  "is_oval k = (k = Some Ellipse \<or> k = Some EllipticArc)"

section \<open>Tangent and perpendicular\<close>

text \<open>
  One side of the pair: the kind the operand stands for, and the end of the B-spline when it is
  one. A B-spline stands for the line of its end segment.
\<close>

definition clamped :: "spline \<Rightarrow> bool" where
  "clamped sp = (\<not> sp_periodic sp \<and> sp_degree sp < hd (sp_mults sp) \<and> sp_degree sp < last (sp_mults sp))"

definition curve_side ::
  "tables \<Rightarrow> (nat \<rightharpoonup> spline) \<Rightarrow> nat \<Rightarrow> int \<Rightarrow> int \<Rightarrow> (sketch_entity option \<times> int) checked" where
  "curve_side t splines row p e =
     indexing (is_row t e)
       (if kind_of t e \<noteq> Some BSpline then Inr (kind_of t e, -1)
        else bind_result (spline_of splines e) (\<lambda>sp.
          indexing (sp_mults sp \<noteq> [] \<and> (0 \<le> p \<longrightarrow> is_row t p \<and> ends_in t sp))
            (let at_end = (if 0 \<le> p then spline_end t sp p else -1) in
             if \<not> clamped sp \<or> at_end < 0 then Inl (AtCurve row (SplineDirection e p))
             else Inr (Some Line, at_end))))"

text \<open>The mapping of a pair of kinds: \<open>tangent\<close>, whether there is a point, and the ends.\<close>

definition curves_map ::
  "bool \<Rightarrow> bool \<Rightarrow> sketch_entity option \<Rightarrow> int \<Rightarrow> sketch_entity option \<Rightarrow> int \<Rightarrow> mapping option" where
  "curves_map tangent has_point ka end_a kb end_b =
     (let line_round = (ka = Some Line \<and> is_round kb) \<or> (is_round ka \<and> kb = Some Line);
          line_oval = (ka = Some Line \<and> is_oval kb) \<or> (is_oval ka \<and> kb = Some Line);
          full_circle = ka = Some Circle \<or> kb = Some Circle
      in if 0 \<le> end_a \<or> 0 \<le> end_b then Some AngleViaPoint
         else if \<not> tangent \<and> ka = Some Line \<and> kb = Some Line then Some LineLine
         else if \<not> tangent \<and> line_round then Some CenterOnLine
         else if tangent \<and> line_round \<and> (\<not> has_point \<or> full_circle) then Some LineCircle
         else if tangent \<and> is_round ka \<and> is_round kb \<and> \<not> has_point then Some CircleCircle
         else if tangent \<and> line_oval \<and> \<not> has_point then Some LineEllipse
         else if has_point then Some AngleViaPoint
         else None)"

text \<open>The refusals of a pair of curves, before any B-spline stands for a line.\<close>

definition curves_refused ::
  "tables \<Rightarrow> bool \<Rightarrow> nat \<Rightarrow> int \<Rightarrow> int \<Rightarrow> sketch_error option" where
  "curves_refused t tangent row a b =
     (let ka = kind_of t a; kb = kind_of t b in
      if a = b then Some (AtRow row (SameOperand a))
      else if ka = Some Point \<or> kb = Some Point then Some (AtPair row a b PointOperand)
      else if tangent \<and> ka = Some Line \<and> kb = Some Line then Some (AtPair row a b TangentLines)
      else if \<not> tangent \<and> is_round ka \<and> is_round kb then Some (AtPair row a b PerpendicularRounds)
      else None)"

definition plan_curves ::
  "tables \<Rightarrow> (nat \<rightharpoonup> spline) \<Rightarrow> nat \<Rightarrow> bool \<Rightarrow> plan \<Rightarrow> plan checked" where
  "plan_curves t splines row tangent pl =
     bind_result (operand t row 1) (\<lambda>a.
     bind_result (operand t row 2) (\<lambda>b.
     bind_result (optional_point t row 3) (\<lambda>p.
     bind_result (unused_constraint_columns t row 4) (\<lambda>_.
     indexing (is_row t a \<and> is_row t b)
       (case curves_refused t tangent row a b of
          Some e \<Rightarrow> Inl e
        | None \<Rightarrow>
            bind_result (curve_side t splines row p a) (\<lambda>(ka, end_a).
            bind_result (curve_side t splines row p b) (\<lambda>(kb, end_b).
              case curves_map tangent (0 \<le> p) ka end_a kb end_b of
                None \<Rightarrow> Inl (AtPair row a b NeedsPoint)
              | Some m \<Rightarrow> Inr (pl\<lparr>pl_a := a, pl_b := b, pl_p := p, pl_end_a := end_a, pl_end_b := end_b,
                  pl_map := m, pl_aux_count := (if m = AngleViaPoint then 1 else 0)\<rparr>))))))))"

section \<open>Rigid\<close>

definition point_params :: "tables \<Rightarrow> int \<Rightarrow> int list" where
  "point_params t p = [ent t (nat p) 1, ent t (nat p) 2]"

definition points_params :: "tables \<Rightarrow> int list \<Rightarrow> int list checked" where
  "points_params t ps = indexing (list_all (is_row t) ps) (Inr (concat (map (point_params t) ps)))"

definition entity_params :: "tables \<Rightarrow> (nat \<rightharpoonup> spline) \<Rightarrow> int \<Rightarrow> int list checked" where
  "entity_params t splines a =
     indexing (is_row t a)
       (let e = nat a in
        case ent_kind_at t e of
          None \<Rightarrow> Inr []
        | Some Point \<Rightarrow> points_params t [a]
        | Some Line \<Rightarrow> points_params t [ent t e 1, ent t e 2]
        | Some Circle \<Rightarrow> bind_result (points_params t [ent t e 1]) (\<lambda>ps. Inr (ps @ [ent t e 2]))
        | Some Arc \<Rightarrow> bind_result (points_params t [ent t e 1]) (\<lambda>ps.
            Inr (ps @ [ent t e 4, ent t e 5, ent t e 6]))
        | Some Ellipse \<Rightarrow> bind_result (points_params t [ent t e 1, ent t e 2]) (\<lambda>ps. Inr (ps @ [ent t e 3]))
        | Some EllipticArc \<Rightarrow> bind_result (points_params t [ent t e 1, ent t e 2]) (\<lambda>ps.
            Inr (ps @ [ent t e 5, ent t e 6, ent t e 7]))
        | Some BSpline \<Rightarrow> bind_result (spline_of splines a) (\<lambda>sp. points_params t (sp_poles sp)))"

definition add_rigid :: "tables \<Rightarrow> int \<Rightarrow> nat list \<Rightarrow> nat list" where
  "add_rigid t i held =
     (if \<not> t_fixed t ! nat i \<and> nat i \<notin> set held then held @ [nat i] else held)"

definition plan_rigid :: "tables \<Rightarrow> (nat \<rightharpoonup> spline) \<Rightarrow> nat \<Rightarrow> plan \<Rightarrow> plan checked" where
  "plan_rigid t splines row pl =
     bind_result (operand t row 1) (\<lambda>a.
     bind_result (unused_constraint_columns t row 2) (\<lambda>_.
     bind_result (entity_params t splines a) (\<lambda>ps.
       indexing (list_all (\<lambda>i. 0 \<le> i \<and> nat i < length (t_fixed t)) ps)
         (let held = fold (add_rigid t) ps [] in
          Inr (pl\<lparr>pl_a := a, pl_rigid := held, pl_aux_count := length held, pl_map := RigidParams\<rparr>)))))"

section \<open>The kinds\<close>

text \<open>The dimension of a row: finite and in range for a dimensional kind, NaN for the others.\<close>

definition check_value :: "nat \<Rightarrow> constraint_kind \<Rightarrow> f64 \<Rightarrow> unit checked" where
  "check_value row k v =
     (if is_dimensional (Some k) then
        (if \<not> is_finite v then Inl (AtRow row (NotFinite v))
         else if (k = Length \<or> k = Radius) \<and> \<not> fless f0 v then Inl (AtRow row (NotPositive v))
         else if k = Distance \<and> fless v f0 then Inl (AtRow row (NegativeDistance v))
         else Inr ())
      else if \<not> is_nan v then Inl (AtRow row (ValueNotNan v)) else Inr ())"

text \<open>The point of a pair comes first: \<^verbatim>\<open>std::swap\<close> when the first operand is no point.\<close>

definition point_first :: "tables \<Rightarrow> int \<times> int \<Rightarrow> int \<times> int" where
  "point_first t ab = (if kind_of t (fst ab) \<noteq> Some Point then (snd ab, fst ab) else ab)"

fun coincident_map :: "sketch_entity option \<Rightarrow> mapping" where
  "coincident_map (Some Point) = PointPoint"
| "coincident_map (Some Line) = PointLine"
| "coincident_map (Some Circle) = PointCircle"
| "coincident_map (Some Arc) = PointArc"
| "coincident_map (Some Ellipse) = PointEllipse"
| "coincident_map (Some EllipticArc) = PointEllipse"
| "coincident_map _ = PointBSpline"

definition plan_coincident :: "tables \<Rightarrow> nat \<Rightarrow> plan \<Rightarrow> plan checked" where
  "plan_coincident t row pl =
     bind_result (two t row) (\<lambda>ab.
     bind_result (unused_constraint_columns t row 3) (\<lambda>_.
       indexing (is_row t (fst ab) \<and> is_row t (snd ab))
         (let (a, b) = point_first t ab; m = coincident_map (kind_of t b) in
          if kind_of t a \<noteq> Some Point then Inl (AtPair row (fst ab) (snd ab) NoPointOperand)
          else if kind_of t b = Some Point \<and> same_point t a b then Inl (AtPair row a b OnePoint)
          else Inr (pl\<lparr>pl_a := a, pl_b := b, pl_map := m,
                 pl_aux_count := (if m = PointBSpline then 1 else 0)\<rparr>))))"

definition plan_two_lines :: "tables \<Rightarrow> nat \<Rightarrow> plan \<Rightarrow> plan checked" where
  "plan_two_lines t row pl =
     bind_result (two t row) (\<lambda>(a, b).
     bind_result (unused_constraint_columns t row 3) (\<lambda>_.
     bind_result (need t row a 1 [Line]) (\<lambda>_.
     bind_result (need t row b 2 [Line]) (\<lambda>_. Inr (pl\<lparr>pl_a := a, pl_b := b\<rparr>)))))"

definition plan_one :: "tables \<Rightarrow> nat \<Rightarrow> sketch_entity list \<Rightarrow> plan \<Rightarrow> plan checked" where
  "plan_one t row kinds pl =
     bind_result (operand t row 1) (\<lambda>a.
     bind_result (unused_constraint_columns t row 2) (\<lambda>_.
     bind_result (need t row a 1 kinds) (\<lambda>_. Inr (pl\<lparr>pl_a := a\<rparr>))))"

definition plan_equal :: "tables \<Rightarrow> nat \<Rightarrow> plan \<Rightarrow> plan checked" where
  "plan_equal t row pl =
     bind_result (two t row) (\<lambda>(a, b).
     bind_result (unused_constraint_columns t row 3) (\<lambda>_.
       indexing (is_row t a \<and> is_row t b)
         (let ka = kind_of t a; kb = kind_of t b; pl' = pl\<lparr>pl_a := a, pl_b := b\<rparr> in
          if ka = Some Line \<and> kb = Some Line then Inr (pl'\<lparr>pl_map := EqualLength\<rparr>)
          else if is_round ka \<and> is_round kb then Inr (pl'\<lparr>pl_map := EqualRadius\<rparr>)
          else if is_oval ka \<and> is_oval kb then Inr (pl'\<lparr>pl_map := EqualRadii\<rparr>)
          else Inl (AtPair row a b EqualKinds))))"

definition on_line :: "tables \<Rightarrow> int \<Rightarrow> int \<Rightarrow> bool" where
  "on_line t a p = (same_point t p (ent t (nat a) 1) \<or> same_point t p (ent t (nat a) 2))"

definition plan_collinear :: "tables \<Rightarrow> nat \<Rightarrow> plan \<Rightarrow> plan checked" where
  "plan_collinear t row pl =
     bind_result (two t row) (\<lambda>(a, b).
     bind_result (unused_constraint_columns t row 3) (\<lambda>_.
     bind_result (need t row a 1 [Line]) (\<lambda>_.
     bind_result (need t row b 2 [Line]) (\<lambda>_.
       indexing (list_all (is_row t) [a, b] \<and>
           list_all (is_row t) [ent t (nat a) 1, ent t (nat a) 2, ent t (nat b) 1, ent t (nat b) 2])
         (let on_first = \<not> on_line t a (ent t (nat b) 1); on_second = \<not> on_line t a (ent t (nat b) 2) in
          if \<not> on_first \<and> \<not> on_second then Inl (AtPair row a b OneLine)
          else Inr (pl\<lparr>pl_a := a, pl_b := b, pl_map := CollinearPoints, pl_on_first := on_first,
                 pl_on_second := on_second\<rparr>))))))"

definition plan_midpoint :: "tables \<Rightarrow> nat \<Rightarrow> plan \<Rightarrow> plan checked" where
  "plan_midpoint t row pl =
     bind_result (operand t row 1) (\<lambda>a.
     bind_result (operand t row 2) (\<lambda>b.
     bind_result (unused_constraint_columns t row 3) (\<lambda>_.
     bind_result (need t row a 1 [Point]) (\<lambda>_.
     bind_result (need t row b 2 [Line, Arc, EllipticArc]) (\<lambda>_.
       let pl' = pl\<lparr>pl_a := a, pl_b := b\<rparr> in
       if kind_of t b = Some Line then Inr (pl'\<lparr>pl_map := MidpointLine\<rparr>)
       else
         let i0 = ent t (nat b) (if kind_of t b = Some Arc then 5 else 6);
             i1 = ent t (nat b) (if kind_of t b = Some Arc then 6 else 7)
         in indexing (is_param t i0 \<and> is_param t i1)
           (if \<not> fless (param t i0) (param t i1) then Inl (AtCurve row (AngleOrder (param t i1) (param t i0)))
            else Inr (pl'\<lparr>pl_map := MidpointArc, pl_aux_count := 2\<rparr>)))))))"

definition plan_internal :: "tables \<Rightarrow> (nat \<rightharpoonup> spline) \<Rightarrow> nat \<Rightarrow> plan \<Rightarrow> plan checked" where
  "plan_internal t splines row pl =
     bind_result (operand t row 1) (\<lambda>a.
     bind_result (operand t row 2) (\<lambda>b.
     bind_result (need t row b 2 [Point]) (\<lambda>_.
       indexing (row < n_constraints t \<and> is_row t a)
       (let rl = con t row 3; index = con t row 4; ka = kind_of t a;
           pl' = pl\<lparr>pl_a := a, pl_b := b, pl_role := rl, pl_index := index\<rparr>
       in if is_oval ka then
            (if rl < kMajorPositive \<or> kFocus2 < rl \<or> index \<noteq> -1
             then Inl (AtCurve row (EllipseRole rl index)) else Inr (pl'\<lparr>pl_map := InternalEllipse\<rparr>))
          else if ka = Some BSpline then
            bind_result (spline_of splines a) (\<lambda>sp.
              let count = (if rl = kPole then length (sp_poles sp) else length (sp_knots sp)) in
              if (rl \<noteq> kPole \<and> rl \<noteq> kKnot) \<or> index < 0 \<or> int count \<le> index
              then Inl (AtCurve row (SplineRole rl index))
              else Inr (pl'\<lparr>pl_map := (if rl = kPole then InternalPole else InternalKnot)\<rparr>))
          else Inl (AtCurve row (InternalCurve a))))))"

definition plan_distance :: "tables \<Rightarrow> nat \<Rightarrow> plan \<Rightarrow> plan checked" where
  "plan_distance t row pl =
     bind_result (two t row) (\<lambda>ab.
     bind_result (unused_constraint_columns t row 3) (\<lambda>_.
       indexing (is_row t (fst ab) \<and> is_row t (snd ab) \<and> row < length (t_values t))
         (let (a, b) = point_first t ab; kb = kind_of t b; v = t_values t ! row in
          if kind_of t a \<noteq> Some Point \<or> (kb \<noteq> Some Point \<and> kb \<noteq> Some Line)
          then Inl (AtPair row (fst ab) (snd ab) DistanceKinds)
          else if kb = Some Point \<and> same_point t a b then Inl (AtPair row a b OnePoint)
          else Inr (pl\<lparr>pl_a := a, pl_b := b, pl_map :=
                 (if feq v f0 then (if kb = Some Point then PointPoint else PointLine)
                  else (if kb = Some Point then PointPointDistance else PointLineDistance))\<rparr>))))"

definition plan_symmetric :: "tables \<Rightarrow> nat \<Rightarrow> plan \<Rightarrow> plan checked" where
  "plan_symmetric t row pl =
     bind_result (two t row) (\<lambda>(a, b).
     bind_result (operand t row 3) (\<lambda>p.
     bind_result (unused_constraint_columns t row 4) (\<lambda>_.
     bind_result (need t row a 1 [Point]) (\<lambda>_.
     bind_result (need t row b 2 [Point]) (\<lambda>_.
     bind_result (need t row p 3 [Line]) (\<lambda>_.
       indexing (is_row t a \<and> is_row t b)
         (if same_point t a b then Inl (AtPair row a b OnePoint)
          else Inr (pl\<lparr>pl_a := a, pl_b := b, pl_p := p\<rparr>))))))))"

definition plan_kind ::
  "tables \<Rightarrow> (nat \<rightharpoonup> spline) \<Rightarrow> nat \<Rightarrow> constraint_kind \<Rightarrow> plan checked" where
  "plan_kind t splines row k =
     (let pl = new_plan k in
      case k of
        Coincident \<Rightarrow> plan_coincident t row pl
      | Tangent \<Rightarrow> plan_curves t splines row True pl
      | Perpendicular \<Rightarrow> plan_curves t splines row False pl
      | Parallel \<Rightarrow> plan_two_lines t row pl
      | Angle \<Rightarrow> plan_two_lines t row pl
      | Horizontal \<Rightarrow> plan_one t row [Line] pl
      | Vertical \<Rightarrow> plan_one t row [Line] pl
      | Length \<Rightarrow> plan_one t row [Line] pl
      | Radius \<Rightarrow> plan_one t row [Circle, Arc] pl
      | Equal \<Rightarrow> plan_equal t row pl
      | Collinear \<Rightarrow> plan_collinear t row pl
      | Midpoint \<Rightarrow> plan_midpoint t row pl
      | Rigid \<Rightarrow> plan_rigid t splines row pl
      | InternalCoincident \<Rightarrow> plan_internal t splines row pl
      | Distance \<Rightarrow> plan_distance t row pl
      | Symmetric \<Rightarrow> plan_symmetric t row pl)"

definition plan_row :: "tables \<Rightarrow> (nat \<rightharpoonup> spline) \<Rightarrow> nat \<Rightarrow> plan checked" where
  "plan_row t splines row =
     indexing (row < n_constraints t \<and> row < length (t_values t))
       (case con_kind_at t row of
          None \<Rightarrow> Inl (AtRow row (NoConstraintKind (con t row 0)))
        | Some k \<Rightarrow> bind_result (check_value row k (t_values t ! row)) (\<lambda>_. plan_kind t splines row k))"

definition check_constraints :: "tables \<Rightarrow> (nat \<rightharpoonup> spline) \<Rightarrow> plan list checked" where
  "check_constraints t splines = each (plan_row t splines) [0..<n_constraints t]"

end
