(* ===== verification/SketchBuild.thy ===== *)
theory SketchBuild
  imports SketchPlan
begin

text \<open>
  Building the PlaneGCS system (\<^verbatim>\<open>Sketch::build_geometry\<close>, \<^verbatim>\<open>add_entity_rules\<close>,
  \<^verbatim>\<open>add_row\<close>): the geometry of every entity row over the buffer of scalars, and the calls of
  \<^verbatim>\<open>GCS::System\<close> that each constraint row becomes. PlaneGCS is not modelled: a call is a value
  that records what the code passed, and its scalars are indices of the buffer.
\<close>

section \<open>Geometry\<close>

text \<open>A \<^verbatim>\<open>double*\<close> into the buffer; \<open>None\<close> is the null pointer of a default-made member.\<close>

type_synonym ptr = "nat option"

datatype gpoint = GPt ptr ptr

datatype gline = GLn gpoint gpoint

datatype gcurve =
    CLine gline
  | CCircle gpoint ptr
  | CArc gpoint gpoint gpoint ptr ptr ptr
  | CEllipse gpoint gpoint ptr
  | CEllipticArc gpoint gpoint gpoint gpoint ptr ptr ptr
  | CBSpline "gpoint list" "ptr list" "ptr list" "int list" int bool
  | CNone

datatype geometry = GeoPoint gpoint | GeoCurve gcurve

definition scalar :: "int \<Rightarrow> ptr" where
  "scalar i = Some (nat i)"

definition geo_point :: "tables \<Rightarrow> int \<Rightarrow> gpoint" where
  "geo_point t row = GPt (scalar (ent t (nat row) 1)) (scalar (ent t (nat row) 2))"

text \<open>\<^verbatim>\<open>pt(row)\<close>: the point member, set on POINT rows only.\<close>

definition pt :: "tables \<Rightarrow> int \<Rightarrow> gpoint" where
  "pt t row = (if kind_of t row = Some Point then geo_point t row else GPt None None)"

definition build_curve :: "tables \<Rightarrow> (nat \<rightharpoonup> spline) \<Rightarrow> nat \<Rightarrow> gcurve" where
  "build_curve t splines row =
     (case ent_kind_at t row of
        Some Line \<Rightarrow> CLine (GLn (pt t (ent t row 1)) (pt t (ent t row 2)))
      | Some Circle \<Rightarrow> CCircle (pt t (ent t row 1)) (scalar (ent t row 2))
      | Some Arc \<Rightarrow> CArc (pt t (ent t row 1)) (pt t (ent t row 2)) (pt t (ent t row 3))
          (scalar (ent t row 4)) (scalar (ent t row 5)) (scalar (ent t row 6))
      | Some Ellipse \<Rightarrow> CEllipse (pt t (ent t row 1)) (pt t (ent t row 2)) (scalar (ent t row 3))
      | Some EllipticArc \<Rightarrow> CEllipticArc (pt t (ent t row 1)) (pt t (ent t row 2)) (pt t (ent t row 3))
          (pt t (ent t row 4)) (scalar (ent t row 5)) (scalar (ent t row 6)) (scalar (ent t row 7))
      | Some BSpline \<Rightarrow>
          (case splines row of
             None \<Rightarrow> CNone
           | Some sp \<Rightarrow> CBSpline (map (pt t) (sp_poles sp)) (map scalar (sp_weights sp))
               (map scalar (sp_knots sp)) (sp_mults sp) (sp_degree sp) (sp_periodic sp))
      | _ \<Rightarrow> CNone)"

definition build_geometry :: "tables \<Rightarrow> (nat \<rightharpoonup> spline) \<Rightarrow> geometry list" where
  "build_geometry t splines =
     map (\<lambda>row. if ent_kind_at t row = Some Point then GeoPoint (geo_point t (int row))
                else GeoCurve (build_curve t splines row)) [0..<n_entities t]"

text \<open>The members of a row's geometry; a member of another kind is the default-made one.\<close>

definition point_at :: "geometry list \<Rightarrow> int \<Rightarrow> gpoint" where
  "point_at geo row = (case geo ! nat row of GeoPoint p \<Rightarrow> p | _ \<Rightarrow> GPt None None)"

definition curve_at :: "geometry list \<Rightarrow> int \<Rightarrow> gcurve" where
  "curve_at geo row = (case geo ! nat row of GeoCurve c \<Rightarrow> c | _ \<Rightarrow> CNone)"

fun as_line :: "gcurve \<Rightarrow> gline" where
  "as_line (CLine l) = l"
| "as_line _ = GLn (GPt None None) (GPt None None)"

text \<open>The circle part of a circle or an arc.\<close>

fun round_center :: "gcurve \<Rightarrow> gpoint" where
  "round_center (CCircle c r) = c"
| "round_center (CArc c a b r sa ea) = c"
| "round_center _ = GPt None None"

fun round_radius :: "gcurve \<Rightarrow> ptr" where
  "round_radius (CCircle c r) = r"
| "round_radius (CArc c a b r sa ea) = r"
| "round_radius _ = None"

fun arc_angles :: "gcurve \<Rightarrow> ptr \<times> ptr" where
  "arc_angles (CArc c a b r sa ea) = (sa, ea)"
| "arc_angles (CEllipticArc c f a b r sa ea) = (sa, ea)"
| "arc_angles _ = (None, None)"

fun bspline_poles :: "gcurve \<Rightarrow> gpoint list" where
  "bspline_poles (CBSpline poles ws ks ms d p) = poles"
| "bspline_poles _ = []"

section \<open>Calls\<close>

datatype gcs_call =
    P2PDistance gpoint gpoint ptr
  | P2PAngle gpoint gpoint ptr
  | ArcOfEllipseRules gcurve
  | P2PCoincident gpoint gpoint
  | PointOnLine gpoint gline
  | PointOnCurve gpoint gcurve
  | PointOnBSpline gpoint gcurve ptr
  | P2LDistance gpoint gline ptr
  | LinePair constraint_kind gline gline
  | LineOnly constraint_kind gline
  | TangentLineCurve gline gcurve
  | TangentCircumf gpoint gpoint ptr ptr bool
  | AngleVia gcurve gcurve gpoint ptr
  | EqualScalars ptr ptr
  | AlignScalars ptr ptr
  | EqualEllipses gcurve gcurve
  | PointOnPerpBisector gpoint gline
  | CurveValue gpoint gcurve ptr
  | DifferenceOf ptr ptr ptr
  | L2LAngle gline gline ptr
  | RadiusOf gcurve ptr
  | EllipseFocus2 gcurve gpoint
  | Point2Ellipse gcurve gpoint int
  | KnotPoint gcurve gpoint nat
  | P2PSymmetric gpoint gpoint gline

record build =
  b_store :: "f64 list"
  b_calls :: "(gcs_call \<times> int) list"
  b_aux_unknowns :: "nat list"
  b_added :: nat

text \<open>What the rows use of PlaneGCS before it solves, of OCCT and of the machine's arithmetic.\<close>

record tools =
  angle_via_point :: "gcurve \<Rightarrow> gcurve \<Rightarrow> gpoint \<Rightarrow> f64 list \<Rightarrow> f64"
  geom2d :: occt2d
  rounded :: rounding
  square_root :: "f64 \<Rightarrow> f64"

definition emit :: "int \<Rightarrow> gcs_call list \<Rightarrow> nat \<Rightarrow> build \<Rightarrow> build" where
  "emit tag calls k b =
     b\<lparr>b_calls := b_calls b @ map (\<lambda>c. (c, tag)) calls, b_added := b_added b + k\<rparr>"

definition put :: "nat \<Rightarrow> f64 \<Rightarrow> build \<Rightarrow> build" where
  "put i v b = b\<lparr>b_store := (b_store b)[i := v]\<rparr>"

definition unknown :: "nat \<Rightarrow> build \<Rightarrow> build" where
  "unknown i b = b\<lparr>b_aux_unknowns := b_aux_unknowns b @ [i]\<rparr>"

definition deref :: "build \<Rightarrow> ptr \<Rightarrow> f64" where
  "deref b p = (case p of None \<Rightarrow> NaN | Some i \<Rightarrow> b_store b ! i)"

section \<open>Entity rules\<close>

definition add_rules :: "geometry \<Rightarrow> build \<Rightarrow> build" where
  "add_rules g b =
     (case g of
        GeoCurve (CArc c s e r sa ea) \<Rightarrow>
          emit 0 [P2PDistance c s r, P2PDistance c e r, P2PAngle c s sa, P2PAngle c e ea] 4 b
      | GeoCurve (CEllipticArc c f s e r sa ea) \<Rightarrow>
          emit 0 [ArcOfEllipseRules (CEllipticArc c f s e r sa ea)] 4 b
      | _ \<Rightarrow> b)"

definition add_entity_rules :: "geometry list \<Rightarrow> build \<Rightarrow> build" where
  "add_entity_rules geo b = fold add_rules geo b"

section \<open>Constraint rows\<close>

definition half_pi :: f64 where
  "half_pi = Fin (884279719003555 / 562949953421312)"

definition two_pi :: f64 where
  "two_pi = Fin (884279719003555 / 140737488355328)"

text \<open>The parameter of the point of a B-spline nearest to a point, in the initial guess.\<close>

definition nearest_parameter :: "tools \<Rightarrow> tables \<Rightarrow> spline \<Rightarrow> int \<Rightarrow> f64" where
  "nearest_parameter tk t sp point_row =
     (let oc = geom2d tk; curve = sp_occt sp; point = (x_of t point_row, y_of t point_row);
          start = first_parameter oc curve; start_distance = distance_to oc point curve start;
          stop = last_parameter oc curve; stop_distance = distance_to oc point curve stop;
          (best, best_distance) = (if fless stop_distance start_distance then (stop, stop_distance)
                                   else (start, start_distance))
      in case projection oc point curve of
           None \<Rightarrow> best
         | Some (d, u) \<Rightarrow> if fless d best_distance then u else best)"

definition operand_curve :: "geometry list \<Rightarrow> int \<Rightarrow> int \<Rightarrow> gcurve" where
  "operand_curve geo row at_end =
     (if at_end < 0 then curve_at geo row
      else
        let poles = bspline_poles (curve_at geo row)
        in CLine (if at_end = 0 then GLn (poles ! 0) (poles ! 1)
                  else GLn (poles ! (length poles - 2)) (poles ! (length poles - 1))))"

definition add_coincident ::
  "tools \<Rightarrow> tables \<Rightarrow> (nat \<rightharpoonup> spline) \<Rightarrow> geometry list \<Rightarrow> nat \<Rightarrow> int \<Rightarrow> plan \<Rightarrow> build \<Rightarrow> build" where
  "add_coincident tk t splines geo row tag pl b =
     (let pa = point_at geo (pl_a pl); pb = point_at geo (pl_b pl); cb = curve_at geo (pl_b pl);
          v = Some (n_params t + row)
      in case pl_map pl of
           PointPoint \<Rightarrow> emit tag [P2PCoincident pa pb] 2 b
         | PointLine \<Rightarrow> emit tag [PointOnLine pa (as_line cb)] 1 b
         | PointCircle \<Rightarrow> emit tag [PointOnCurve pa cb] 1 b
         | PointArc \<Rightarrow> emit tag [PointOnCurve pa cb] 1 b
         | PointEllipse \<Rightarrow> emit tag [PointOnCurve pa cb] 1 b
         | PointBSpline \<Rightarrow>
             (case splines (nat (pl_b pl)) of
                None \<Rightarrow> b
              | Some sp \<Rightarrow>
                  emit tag [PointOnBSpline pa cb (Some (pl_aux pl))] 2
                    (unknown (pl_aux pl) (put (pl_aux pl) (nearest_parameter tk t sp (pl_a pl)) b)))
         | PointPointDistance \<Rightarrow> emit tag [P2PDistance pa pb v] 1 b
         | PointLineDistance \<Rightarrow> emit tag [P2LDistance pa (as_line cb) v] 1 b
         | _ \<Rightarrow> b)"

text \<open>Internal tangency: the centers are nearer than either radius in the initial guess.\<close>

definition is_internal :: "tools \<Rightarrow> gcurve \<Rightarrow> gcurve \<Rightarrow> build \<Rightarrow> bool" where
  "is_internal tk c1 c2 b =
     (case (round_center c1, round_center c2) of
        (GPt x1 y1, GPt x2 y2) \<Rightarrow>
          (let rnd = rounded tk;
               dx = fsub rnd (deref b x2) (deref b x1);
               dy = fsub rnd (deref b y2) (deref b y1);
               d = square_root tk (fadd rnd (fmul rnd dx dx) (fmul rnd dy dy))
           in fless d (deref b (round_radius c1)) \<or> fless d (deref b (round_radius c2))))"

text \<open>The angle the curves make, brought to [-pi, pi], picks one of two values.\<close>

definition angle_value :: "tools \<Rightarrow> bool \<Rightarrow> f64 \<Rightarrow> f64" where
  "angle_value tk tangent angle =
     (let a1 = (if fless kPi angle then fsub (rounded tk) angle two_pi else angle);
          a2 = (if fless a1 (fneg kPi) then fadd (rounded tk) a1 two_pi else a1)
      in if tangent then (if fle (fabs a2) half_pi then f0 else kPi)
         else (if fle f0 a2 then half_pi else fneg half_pi))"

definition add_curves :: "tools \<Rightarrow> tables \<Rightarrow> geometry list \<Rightarrow> int \<Rightarrow> plan \<Rightarrow> build \<Rightarrow> build" where
  "add_curves tk t geo tag pl b =
     (let ca = curve_at geo (pl_a pl); cb = curve_at geo (pl_b pl);
          a_is_line = (kind_of t (pl_a pl) = Some Line);
          ln = as_line (if a_is_line then ca else cb);
          other = (if a_is_line then cb else ca)
      in case pl_map pl of
           LineLine \<Rightarrow> emit tag [LinePair Perpendicular (as_line ca) (as_line cb)] 1 b
         | CenterOnLine \<Rightarrow> emit tag [PointOnLine (round_center other) ln] 1 b
         | LineCircle \<Rightarrow> emit tag [TangentLineCurve ln other] 1 b
         | CircleCircle \<Rightarrow>
             emit tag [TangentCircumf (round_center ca) (round_center cb) (round_radius ca)
               (round_radius cb) (is_internal tk ca cb b)] 1 b
         | LineEllipse \<Rightarrow> emit tag [TangentLineCurve ln other] 1 b
         | AngleViaPoint \<Rightarrow>
             (let c1 = operand_curve geo (pl_a pl) (pl_end_a pl);
                  c2 = operand_curve geo (pl_b pl) (pl_end_b pl);
                  p = point_at geo (pl_p pl);
                  angle = angle_via_point tk c1 c2 p (b_store b)
              in emit tag [AngleVia c1 c2 p (Some (pl_aux pl))] 1
                   (put (pl_aux pl) (angle_value tk (pl_kind pl = Tangent) angle) b))
         | _ \<Rightarrow> b)"

definition add_equal :: "geometry list \<Rightarrow> int \<Rightarrow> plan \<Rightarrow> build \<Rightarrow> build" where
  "add_equal geo tag pl b =
     (let ca = curve_at geo (pl_a pl); cb = curve_at geo (pl_b pl)
      in if pl_map pl = EqualLength then emit tag [LinePair Equal (as_line ca) (as_line cb)] 1 b
         else if pl_map pl = EqualRadius then emit tag [EqualScalars (round_radius ca) (round_radius cb)] 1 b
         else emit tag [EqualEllipses ca cb] 2 b)"

definition add_collinear :: "geometry list \<Rightarrow> int \<Rightarrow> plan \<Rightarrow> build \<Rightarrow> build" where
  "add_collinear geo tag pl b =
     (case as_line (curve_at geo (pl_b pl)) of
        GLn p1 p2 \<Rightarrow>
          (let la = as_line (curve_at geo (pl_a pl));
               b1 = (if pl_on_first pl then emit tag [PointOnLine p1 la] 1 b else b)
           in if pl_on_second pl then emit tag [PointOnLine p2 la] 1 b1 else b1))"

definition add_midpoint :: "tools \<Rightarrow> geometry list \<Rightarrow> int \<Rightarrow> plan \<Rightarrow> build \<Rightarrow> build" where
  "add_midpoint tk geo tag pl b =
     (let pa = point_at geo (pl_a pl); cb = curve_at geo (pl_b pl)
      in if pl_map pl = MidpointLine
         then emit tag [PointOnLine pa (as_line cb), PointOnPerpBisector pa (as_line cb)] 2 b
         else
           let (a0, a1) = arc_angles cb; rnd = rounded tk; half = Fin (1 / 2);
               u = pl_aux pl; diff = pl_aux pl + 1;
               mean = fmul rnd (fadd rnd (deref b a0) (deref b a1)) half;
               sweep = fmul rnd (fsub rnd (deref b a1) (deref b a0)) half
           in emit tag [CurveValue pa cb (Some u), DifferenceOf a0 (Some u) (Some diff),
                        DifferenceOf (Some u) a1 (Some diff)] 4
                (unknown diff (unknown u (put diff sweep (put u mean b)))))"

definition hold_param :: "int \<Rightarrow> nat \<times> nat \<Rightarrow> build \<Rightarrow> build" where
  "hold_param tag ai b =
     emit tag [EqualScalars (Some (fst ai)) (Some (snd ai))] 1 (put (fst ai) (b_store b ! snd ai) b)"

definition add_rigid_row :: "int \<Rightarrow> plan \<Rightarrow> build \<Rightarrow> build" where
  "add_rigid_row tag pl b =
     fold (hold_param tag) (zip [pl_aux pl..<pl_aux pl + length (pl_rigid pl)] (pl_rigid pl)) b"

definition alignment_of :: "int \<Rightarrow> int" where
  "alignment_of rl = (if rl = kMajorPositive then 0 else if rl = kMajorNegative then 2
     else if rl = kMinorPositive then 4 else 6)"

definition add_internal :: "geometry list \<Rightarrow> int \<Rightarrow> plan \<Rightarrow> build \<Rightarrow> build" where
  "add_internal geo tag pl b =
     (let ca = curve_at geo (pl_a pl); p = point_at geo (pl_b pl)
      in if pl_map pl = InternalEllipse then
           (if pl_role pl = kFocus2 then emit tag [EllipseFocus2 ca p] 2 b
            else emit tag [Point2Ellipse ca p (alignment_of (pl_role pl)),
                           Point2Ellipse ca p (alignment_of (pl_role pl) + 1)] 2 b)
         else if pl_map pl = InternalPole then
           (case (bspline_poles ca ! nat (pl_index pl), p) of
              (GPt x y, GPt px py) \<Rightarrow> emit tag [AlignScalars x px, AlignScalars y py] 2 b)
         else emit tag [KnotPoint ca p (nat (pl_index pl))] 1 b)"

definition add_row ::
  "tools \<Rightarrow> tables \<Rightarrow> (nat \<rightharpoonup> spline) \<Rightarrow> geometry list \<Rightarrow> nat \<times> plan \<Rightarrow> build \<Rightarrow> build" where
  "add_row tk t splines geo rp b =
     (let row = fst rp; pl = snd rp; tag = int row + 1; v = Some (n_params t + row);
          la = as_line (curve_at geo (pl_a pl)); lb = as_line (curve_at geo (pl_b pl))
      in case pl_kind pl of
           Coincident \<Rightarrow> add_coincident tk t splines geo row tag pl b
         | Distance \<Rightarrow> add_coincident tk t splines geo row tag pl b
         | Tangent \<Rightarrow> add_curves tk t geo tag pl b
         | Perpendicular \<Rightarrow> add_curves tk t geo tag pl b
         | Parallel \<Rightarrow> emit tag [LinePair Parallel la lb] 1 b
         | Horizontal \<Rightarrow> emit tag [LineOnly Horizontal la] 1 b
         | Vertical \<Rightarrow> emit tag [LineOnly Vertical la] 1 b
         | Equal \<Rightarrow> add_equal geo tag pl b
         | Collinear \<Rightarrow> add_collinear geo tag pl b
         | Midpoint \<Rightarrow> add_midpoint tk geo tag pl b
         | Rigid \<Rightarrow> add_rigid_row tag pl b
         | Length \<Rightarrow> (case la of GLn p1 p2 \<Rightarrow> emit tag [P2PDistance p1 p2 v] 1 b)
         | Angle \<Rightarrow> emit tag [L2LAngle la lb v] 1 b
         | Radius \<Rightarrow> emit tag [RadiusOf (curve_at geo (pl_a pl)) v] 1 b
         | InternalCoincident \<Rightarrow> add_internal geo tag pl b
         | Symmetric \<Rightarrow> emit tag [P2PSymmetric (point_at geo (pl_a pl)) (point_at geo (pl_b pl))
             (as_line (curve_at geo (pl_p pl)))] 2 b)"

definition add_rows ::
  "tools \<Rightarrow> tables \<Rightarrow> (nat \<rightharpoonup> spline) \<Rightarrow> geometry list \<Rightarrow> plan list \<Rightarrow> build \<Rightarrow> build" where
  "add_rows tk t splines geo plans b =
     fold (add_row tk t splines geo) (zip [0..<length plans] plans) b"

end
