(* ===== verification/SketchSolve.thy ===== *)
theory SketchSolve
  imports SketchBuild
begin

text \<open>
  Solving the system (\<^verbatim>\<open>Sketch::solve\<close> and \<^verbatim>\<open>sketch_solve\<close>): the buffer laid out, the
  unknowns listed, and the three algorithms tried in turn. \<^verbatim>\<open>GCS::System\<close> is an argument: its
  state type, its diagnosis, its solvers, its reports and what \<^verbatim>\<open>applySolution\<close> leaves in the
  buffer.
\<close>

section \<open>The solver\<close>

datatype algorithm = BFGS | LevenbergMarquardt | DogLeg

datatype solve_status = Success | Converged | Failed | SuccessfulSolutionInvalid

record settings =
  st_max_iterations :: int
  st_tolerance :: f64

text \<open>\<open>'g\<close> is the state of a \<^verbatim>\<open>GCS::System\<close> that has its constraints and its unknowns.\<close>

record 'g gcs =
  gcs_tools :: tools
  error_by_tag :: "settings \<Rightarrow> build \<Rightarrow> int \<Rightarrow> f64"
  declare_unknowns :: "settings \<Rightarrow> build \<Rightarrow> nat list \<Rightarrow> 'g"
  diagnose :: "algorithm \<Rightarrow> 'g \<Rightarrow> string + int \<times> 'g"
  solve_with :: "algorithm \<Rightarrow> 'g \<Rightarrow> string + solve_status \<times> 'g"
  get_conflicting :: "'g \<Rightarrow> int list"
  get_redundant :: "'g \<Rightarrow> int list"
  get_partially_redundant :: "'g \<Rightarrow> int list"
  applied_store :: "'g \<Rightarrow> f64 list"

datatype status = SOLVED | UNDER_CONSTRAINED | OVER_CONSTRAINED | FAILED

record sketch_outcome =
  so_params :: "f64 list"
  so_status :: status
  so_dof :: int
  so_conflicting :: "int list"
  so_redundant :: "int list"
  so_partially_redundant :: "int list"

definition rows_of :: "int list \<Rightarrow> int list" where
  "rows_of tags = tidy (map (\<lambda>tag. tag - 1) (filter (\<lambda>tag. 0 < tag) tags))"

definition unsolved_outcome :: "tables \<Rightarrow> status \<Rightarrow> int \<Rightarrow> sketch_outcome" where
  "unsolved_outcome t st dof = \<lparr>so_params = t_params t, so_status = st, so_dof = dof,
     so_conflicting = [], so_redundant = [], so_partially_redundant = []\<rparr>"

section \<open>Laying out the buffer\<close>

text \<open>Each plan gets its first auxiliary scalar; the buffer ends after the last.\<close>

fun assign_aux :: "nat \<Rightarrow> plan list \<Rightarrow> plan list \<times> nat" where
  "assign_aux aux [] = ([], aux)"
| "assign_aux aux (pl # plans) =
     (let (rest, end_aux) = assign_aux (aux + pl_aux_count pl) plans
      in (pl\<lparr>pl_aux := aux\<rparr> # rest, end_aux))"

definition start_store :: "tables \<Rightarrow> nat \<Rightarrow> f64 list" where
  "start_store t store_size = t_params t @ t_values t @ replicate (store_size - n_params t - n_constraints t) f0"

definition build_system ::
  "tools \<Rightarrow> tables \<Rightarrow> (nat \<rightharpoonup> spline) \<Rightarrow> plan list \<Rightarrow> build" where
  "build_system tk t splines plans =
     (let (plans', store_size) = assign_aux (n_params t + n_constraints t) plans;
          geo = build_geometry t splines;
          b0 = \<lparr>b_store = start_store t store_size, b_calls = [], b_aux_unknowns = [], b_added = 0\<rparr>
      in add_rows tk t splines geo plans' (add_entity_rules geo b0))"

definition unknowns_of :: "tables \<Rightarrow> nat list \<Rightarrow> build \<Rightarrow> nat list" where
  "unknowns_of t roles b =
     filter (\<lambda>i. roles ! i = 1 \<and> \<not> t_fixed t ! i) [0..<n_params t] @ sort (b_aux_unknowns b)"

section \<open>Solving\<close>

text \<open>Nothing moves: each row holds or conflicts as it stands.\<close>

definition too_large :: "settings \<Rightarrow> f64 \<Rightarrow> bool" where
  "too_large st err = (is_finite err \<and> fless (st_tolerance st) (fabs err))"

definition solve_rigid :: "'g gcs \<Rightarrow> settings \<Rightarrow> tables \<Rightarrow> build \<Rightarrow> sketch_outcome" where
  "solve_rigid g st t b =
     (let conflicting = map int (filter (\<lambda>row. too_large st (error_by_tag g st b (int row + 1)))
            [0..<n_constraints t]);
          out = unsolved_outcome t SOLVED 0
      in if conflicting \<noteq> []
         then out\<lparr>so_conflicting := conflicting, so_status := OVER_CONSTRAINED\<rparr>
         else if too_large st (error_by_tag g st b 0) then out\<lparr>so_status := FAILED\<rparr> else out)"

text \<open>Diagnose, then solve with the same algorithm.\<close>

definition attempt :: "'g gcs \<Rightarrow> algorithm \<Rightarrow> 'g \<Rightarrow> (int \<times> solve_status \<times> 'g) checked" where
  "attempt g alg s =
     (case diagnose g alg s of
        Inl msg \<Rightarrow> Inl (GcsFailed msg)
      | Inr (dof, s1) \<Rightarrow>
          (case solve_with g alg s1 of
             Inl msg \<Rightarrow> Inl (GcsFailed msg) | Inr (r, s2) \<Rightarrow> Inr (dof, r, s2)))"

fun attempts :: "'g gcs \<Rightarrow> algorithm list \<Rightarrow> int \<times> solve_status \<times> 'g \<Rightarrow> (int \<times> solve_status \<times> 'g) checked" where
  "attempts g [] r = Inr r"
| "attempts g (alg # algs) (dof, r, s) =
     (if r \<noteq> Failed then Inr (dof, r, s)
      else bind_result (attempt g alg s) (attempts g algs))"

definition run_solver :: "'g gcs \<Rightarrow> 'g \<Rightarrow> (int \<times> solve_status \<times> 'g) checked" where
  "run_solver g s = bind_result (attempt g DogLeg s) (attempts g [LevenbergMarquardt, BFGS])"

definition solved_outcome :: "'g gcs \<Rightarrow> tables \<Rightarrow> int \<times> solve_status \<times> 'g \<Rightarrow> sketch_outcome" where
  "solved_outcome g t run =
     (let (dof, r, s) = run;
          out = \<lparr>so_params = t_params t, so_status = FAILED, so_dof = dof,
            so_conflicting = rows_of (get_conflicting g s), so_redundant = rows_of (get_redundant g s),
            so_partially_redundant = rows_of (get_partially_redundant g s)\<rparr>
      in if so_conflicting out \<noteq> [] then out\<lparr>so_status := OVER_CONSTRAINED\<rparr>
         else if r = Success then out\<lparr>so_status := (if dof = 0 then SOLVED else UNDER_CONSTRAINED),
                so_params := take (n_params t) (applied_store g s)\<rparr>
         else out)"

definition solve :: "'g gcs \<Rightarrow> settings \<Rightarrow> tables \<Rightarrow> sketch_outcome checked" where
  "solve g st t =
     bind_result (check_entities (geom2d (gcs_tools g)) t) (\<lambda>(roles, splines).
     bind_result (check_constraints t splines) (\<lambda>plans.
       let b = build_system (gcs_tools g) t splines plans;
           unknowns = unknowns_of t roles b
       in if b_added b = 0
          then Inr (unsolved_outcome t (if unknowns = [] then SOLVED else UNDER_CONSTRAINED)
                 (int (length unknowns)))
          else if unknowns = [] then Inr (solve_rigid g st t b)
          else bind_result (run_solver g (declare_unknowns g st b unknowns)) (\<lambda>run.
                 Inr (solved_outcome g t run))))"

section \<open>The binding\<close>

datatype solve_error = BadArgument arg_error | BadSketch sketch_error

definition sketch_solve ::
  "'g gcs \<Rightarrow> pyarg \<Rightarrow> pyarg \<Rightarrow> pyarg \<Rightarrow> pyarg \<Rightarrow> pyarg \<Rightarrow> pyarg \<Rightarrow> pyarg \<Rightarrow> int \<Rightarrow> f64 \<Rightarrow>
   (solve_error, sketch_outcome) result" where
  "sketch_solve g params_obj entities_obj constraints_obj values_obj fixed_obj offsets_obj indices_obj
     max_iterations tolerance =
     (case read_tables params_obj entities_obj constraints_obj values_obj fixed_obj offsets_obj
             indices_obj max_iterations tolerance of
        Inl e \<Rightarrow> Inl (BadArgument e)
      | Inr t \<Rightarrow>
          (case solve g \<lparr>st_max_iterations = max_iterations, st_tolerance = tolerance\<rparr> t of
             Inl e \<Rightarrow> Inl (BadSketch e) | Inr out \<Rightarrow> Inr out))"

end
