(* ===== verification/SketchFacts.thy ===== *)
theory SketchFacts
  imports SketchSolve
begin

text \<open>
  What the checks of a sketch establish: every index of an accepted sketch is in range and of
  the right kind, and the role table says exactly which parameters move and which are knots.
\<close>

section \<open>Single checks\<close>

definition is_point :: "tables \<Rightarrow> int \<Rightarrow> bool" where
  "is_point t r = (is_row t r \<and> kind_of t r = Some Point)"

named_theorems check_simps \<open>when a check of the sketch accepts\<close>

lemma indexing_Inr [check_simps]: "indexing ok r = Inr y \<longleftrightarrow> ok \<and> r = Inr y"
  by (simp add: indexing_def)

lemma param_at_Inr [check_simps]:
  "param_at t row col roles = Inr (i, roles') \<longleftrightarrow> row < n_entities t \<and>
     i = ent t row col \<and> is_param t i \<and> nat i < length roles \<and> roles' = roles[nat i := 1]"
  by (auto simp: param_at_def indexing_def is_param_def Let_def)

lemma entity_at_Inr [check_simps]:
  "entity_at t row col want = Inr r \<longleftrightarrow> row < n_entities t \<and>
     r = ent t row col \<and> is_row t r \<and> kind_of t r = Some want"
  by (auto simp: entity_at_def indexing_def is_row_def Let_def)

lemma loop_unit_iff: "loop f xs () = Inr u \<longleftrightarrow> (\<forall>x \<in> set xs. f x () = Inr ())"
  by (induction xs) (auto split: sum.splits)

lemma unused_entity_columns_Inr [check_simps]:
  "unused_entity_columns t row start = Inr u \<longleftrightarrow> row < n_entities t \<and>
     (\<forall>col \<in> {start..<kEntityColumns}. ent t row col = -1)"
  by (auto simp: unused_entity_columns_def indexing_def loop_unit_iff split: if_splits)

lemma bind_checked_Inr [check_simps]:
  "bind_result r f = Inr y \<longleftrightarrow> (\<exists>x. r = Inr x \<and> f x = Inr y)"
  by (rule bind_result_Inr_iff)

section \<open>The role table\<close>

text \<open>The parameters \<open>M\<close> move, the parameters \<open>K\<close> are knots, and no parameter is both.\<close>

definition role_table :: "nat \<Rightarrow> nat set \<Rightarrow> nat set \<Rightarrow> nat list \<Rightarrow> bool" where
  "role_table n M K roles =
     (length roles = n \<and> M \<subseteq> {..<n} \<and> K \<subseteq> {..<n} \<and> M \<inter> K = {} \<and>
      (\<forall>i < n. roles ! i = (if i \<in> M then 1 else if i \<in> K then 2 else 0)))"

lemma role_table_start: "role_table n {} {} (replicate n 0)"
  by (simp add: role_table_def)

lemma role_table_move:
  "role_table n M {} roles \<Longrightarrow> i < n \<Longrightarrow> role_table n (insert i M) {} (roles[i := 1])"
  by (auto simp: role_table_def nth_list_update)

lemma role_table_weight:
  "role_table n M K roles \<Longrightarrow> i < n \<Longrightarrow> roles ! i = 0 \<or> roles ! i = 1 \<Longrightarrow>
   role_table n (insert i M) K (roles[i := 1])"
  by (auto simp: role_table_def nth_list_update split: if_splits)

lemma role_table_knot:
  "role_table n M K roles \<Longrightarrow> i < n \<Longrightarrow> roles ! i = 0 \<or> roles ! i = 2 \<Longrightarrow>
   role_table n M (insert i K) (roles[i := 2])"
  by (auto simp: role_table_def nth_list_update split: if_splits)

text \<open>Up to three parameters marked in a row, as the checks of one entity do.\<close>

lemma role_table_marks:
  assumes "role_table (n_params t) M {} roles"
  shows "is_param t a \<Longrightarrow> M' = insert (nat a) M \<Longrightarrow> role_table (n_params t) M' {} (roles[nat a := Suc 0])"
    and "is_param t a \<Longrightarrow> is_param t b \<Longrightarrow> M' = insert (nat a) (insert (nat b) M) \<Longrightarrow>
      role_table (n_params t) M' {} (roles[nat a := Suc 0, nat b := Suc 0])"
    and "is_param t a \<Longrightarrow> is_param t b \<Longrightarrow> is_param t c \<Longrightarrow>
      M' = insert (nat a) (insert (nat b) (insert (nat c) M)) \<Longrightarrow>
      role_table (n_params t) M' {} (roles[nat a := Suc 0, nat b := Suc 0, nat c := Suc 0])"
  using assms by (auto simp: role_table_def is_param_def nth_list_update)

section \<open>Entity rows\<close>

text \<open>The parameters an entity row moves, in the order the code reads them.\<close>

definition row_params :: "tables \<Rightarrow> nat \<Rightarrow> int list" where
  "row_params t row =
     (case ent_kind_at t row of
        Some Point \<Rightarrow> [ent t row 1, ent t row 2]
      | Some Circle \<Rightarrow> [ent t row 2]
      | Some Arc \<Rightarrow> [ent t row 5, ent t row 6, ent t row 4]
      | Some Ellipse \<Rightarrow> [ent t row 3]
      | Some EllipticArc \<Rightarrow> [ent t row 6, ent t row 7, ent t row 5]
      | _ \<Rightarrow> [])"

text \<open>The point rows an entity row names.\<close>

definition row_points :: "tables \<Rightarrow> nat \<Rightarrow> int list" where
  "row_points t row =
     (case ent_kind_at t row of
        Some Line \<Rightarrow> [ent t row 1, ent t row 2]
      | Some Circle \<Rightarrow> [ent t row 1]
      | Some Arc \<Rightarrow> [ent t row 1, ent t row 2, ent t row 3]
      | Some Ellipse \<Rightarrow> [ent t row 1, ent t row 2]
      | Some EllipticArc \<Rightarrow> [ent t row 1, ent t row 2, ent t row 3, ent t row 4]
      | _ \<Rightarrow> [])"

definition row_ok :: "tables \<Rightarrow> nat \<Rightarrow> bool" where
  "row_ok t row = (ent_kind_at t row \<noteq> None \<and> (\<forall>i \<in> set (row_params t row). is_param t i) \<and>
     (\<forall>p \<in> set (row_points t row). is_point t p))"

definition moves :: "tables \<Rightarrow> nat \<Rightarrow> nat set" where
  "moves t row = nat ` set (row_params t row)"

lemma check_point_ok:
  assumes "check_point t row roles = Inr roles'" and "role_table (n_params t) M {} roles"
  shows "role_table (n_params t) (M \<union> (if ent_kind_at t row = Some Point then moves t row else {})) {} roles'"
    and "ent_kind_at t row = Some Point \<Longrightarrow> row_ok t row"
  using assms
  by (auto simp: check_point_def check_simps moves_def row_params_def row_points_def row_ok_def
      intro: role_table_marks split: if_splits)

lemmas check_row_defs = check_line_def check_circle_def check_arc_def check_ellipse_def
  check_elliptic_arc_def check_oval_def check_radius_def

lemmas row_defs = moves_def row_params_def row_points_def row_ok_def is_point_def

lemma check_entity_ok:
  assumes "check_entity t row roles = Inr roles'" and "role_table (n_params t) M {} roles"
    and "ent_kind_at t row \<noteq> Some Point"
  shows "role_table (n_params t) (M \<union> moves t row) {} roles' \<and> row_ok t row"
proof -
  note marks = role_table_marks [OF assms(2)]
  show ?thesis
  proof (cases "ent_kind_at t row")
    case None
    with assms show ?thesis by (simp add: check_entity_def check_simps)
  next
    case (Some k)
    with assms show ?thesis
      by (cases k) (auto simp: check_entity_def check_row_defs check_simps row_defs
          split: if_splits intro!: marks)
  qed
qed

section \<open>B-splines\<close>

definition spline_ok :: "tables \<Rightarrow> spline \<Rightarrow> bool" where
  "spline_ok t sp =
     (2 \<le> length (sp_poles sp) \<and> length (sp_weights sp) = length (sp_poles sp) \<and>
      length (sp_mults sp) = length (sp_knots sp) \<and>
      (\<forall>p \<in> set (sp_poles sp). is_point t p) \<and> (\<forall>i \<in> set (sp_weights sp). is_param t i) \<and>
      (\<forall>i \<in> set (sp_knots sp). is_param t i) \<and>
      (\<forall>m \<in> set (sp_mults sp). 1 \<le> m \<and> m \<le> sp_degree sp + 1))"

lemma loop_Cons_Inr:
  "loop f (x # xs) s = Inr s' \<longleftrightarrow> (\<exists>t. f x s = Inr t \<and> loop f xs t = Inr s')"
  by (auto split: sum.splits)

lemma pole_of_Inr:
  "pole_of t row b k acc = Inr acc' \<Longrightarrow> \<exists>r. is_point t r \<and> acc' = acc @ [r]"
  by (auto simp: pole_of_def check_simps is_point_def is_row_def split: if_splits)

lemma param_of_ok:
  assumes "param_of t row b k rl roles = Inr (i, roles')"
  shows "is_param t i \<and> roles' = roles[nat i := rl] \<and> (roles ! nat i = 0 \<or> roles ! nat i = rl)"
  using assms by (auto simp: param_of_def check_simps is_param_def split: if_splits)

lemma weight_of_Inr:
  "weight_of t row b n k (ws, roles) = Inr acc' \<Longrightarrow>
   \<exists>i. is_param t i \<and> (roles ! nat i = 0 \<or> roles ! nat i = 1) \<and> acc' = (ws @ [i], roles[nat i := 1])"
  by (auto simp: weight_of_def check_simps dest!: param_of_ok split: if_splits)

lemma knot_of_Inr:
  "knot_of t row b n k (ns, roles) = Inr acc' \<Longrightarrow>
   \<exists>i. is_param t i \<and> (roles ! nat i = 0 \<or> roles ! nat i = 2) \<and> acc' = (ns @ [i], roles[nat i := 2])"
  by (auto simp: knot_of_def check_simps dest!: param_of_ok)

lemma mult_of_Inr:
  "mult_of t row b st d k ms = Inr ms' \<Longrightarrow> \<exists>m. 1 \<le> m \<and> m \<le> d + 1 \<and> ms' = ms @ [m]"
  by (auto simp: mult_of_def check_simps split: if_splits)

lemma pole_loop:
  "loop (pole_of t row b) ks acc = Inr poles \<Longrightarrow>
   \<exists>ps. poles = acc @ ps \<and> length ps = length ks \<and> (\<forall>p \<in> set ps. is_point t p)"
proof (induction ks arbitrary: acc)
  case (Cons k ks)
  from Cons.prems obtain r where r: "is_point t r" and rest: "loop (pole_of t row b) ks (acc @ [r]) = Inr poles"
    unfolding loop_Cons_Inr using pole_of_Inr by blast
  from Cons.IH [OF rest] obtain ps where "poles = (acc @ [r]) @ ps" "length ps = length ks"
    "\<forall>p \<in> set ps. is_point t p" by blast
  with r show ?case by (intro exI [of _ "r # ps"]) simp
qed simp

lemma weight_loop:
  "loop (weight_of t row b n) ks (ws, roles) = Inr (ws', roles') \<Longrightarrow>
   role_table (n_params t) M K roles \<Longrightarrow>
   \<exists>new. ws' = ws @ new \<and> length new = length ks \<and> (\<forall>i \<in> set new. is_param t i) \<and>
     role_table (n_params t) (M \<union> nat ` set new) K roles'"
proof (induction ks arbitrary: ws roles M)
  case (Cons k ks)
  from Cons.prems(1) obtain i where ok: "is_param t i" "roles ! nat i = 0 \<or> roles ! nat i = 1"
    and rest: "loop (weight_of t row b n) ks (ws @ [i], roles[nat i := 1]) = Inr (ws', roles')"
    unfolding loop_Cons_Inr using weight_of_Inr by blast
  have "role_table (n_params t) (insert (nat i) M) K (roles[nat i := 1])"
    using ok role_table_weight [OF Cons.prems(2), of "nat i"] by (simp add: is_param_def)
  from Cons.IH [OF rest this] obtain new where "ws' = (ws @ [i]) @ new" "length new = length ks"
    "\<forall>i \<in> set new. is_param t i" "role_table (n_params t) (insert (nat i) M \<union> nat ` set new) K roles'"
    by blast
  with ok show ?case by (intro exI [of _ "i # new"]) simp
qed simp

lemma knot_loop:
  "loop (knot_of t row b n) ks (ns, roles) = Inr (ns', roles') \<Longrightarrow>
   role_table (n_params t) M K roles \<Longrightarrow>
   \<exists>new. ns' = ns @ new \<and> length new = length ks \<and> (\<forall>i \<in> set new. is_param t i) \<and>
     role_table (n_params t) M (K \<union> nat ` set new) roles'"
proof (induction ks arbitrary: ns roles K)
  case (Cons k ks)
  from Cons.prems(1) obtain i where ok: "is_param t i" "roles ! nat i = 0 \<or> roles ! nat i = 2"
    and rest: "loop (knot_of t row b n) ks (ns @ [i], roles[nat i := 2]) = Inr (ns', roles')"
    unfolding loop_Cons_Inr using knot_of_Inr by blast
  have "role_table (n_params t) M (insert (nat i) K) (roles[nat i := 2])"
    using ok role_table_knot [OF Cons.prems(2), of "nat i"] by (simp add: is_param_def)
  from Cons.IH [OF rest this] obtain new where "ns' = (ns @ [i]) @ new" "length new = length ks"
    "\<forall>i \<in> set new. is_param t i" "role_table (n_params t) M (insert (nat i) K \<union> nat ` set new) roles'"
    by blast
  with ok show ?case by (intro exI [of _ "i # new"]) simp
qed simp

lemma mult_loop:
  "loop (mult_of t row b st d) ks ms = Inr ms' \<Longrightarrow>
   \<exists>new. ms' = ms @ new \<and> length new = length ks \<and> (\<forall>m \<in> set new. 1 \<le> m \<and> m \<le> d + 1)"
proof (induction ks arbitrary: ms)
  case (Cons k ks)
  from Cons.prems obtain m where m: "1 \<le> m" "m \<le> d + 1"
    and rest: "loop (mult_of t row b st d) ks (ms @ [m]) = Inr ms'"
    unfolding loop_Cons_Inr using mult_of_Inr by blast
  from Cons.IH [OF rest] obtain new where "ms' = (ms @ [m]) @ new" "length new = length ks"
    "\<forall>m \<in> set new. 1 \<le> m \<and> m \<le> d + 1" by blast
  with m show ?case by (intro exI [of _ "m # new"]) simp
qed simp

lemma read_slot_ok:
  assumes "read_slot oc t row b len roles = Inr (sp, roles')" and "role_table (n_params t) M K roles"
  shows "spline_ok t sp \<and> role_table (n_params t) (M \<union> nat ` set (sp_weights sp))
    (K \<union> nat ` set (sp_knots sp)) roles' \<and>
    curve_refusal oc (sp_occt sp) = None \<and> sp_degree sp = ent t row 2"
proof -
  let ?n = "ent t row 4" and ?m = "knot_count (ent t row 4) len"
  from assms(1) obtain poles weights r1 knots r2 mults where n: "2 \<le> ?n"
    and poles: "loop (pole_of t row b) [0..?n - 1] [] = Inr poles"
    and weights: "loop (weight_of t row b ?n) [0..?n - 1] ([], roles) = Inr (weights, r1)"
    and knots: "loop (knot_of t row b ?n) [0..?m - 1] ([], r1) = Inr (knots, r2)"
    and mults: "loop (mult_of t row b (2 * ?n + ?m) (ent t row 2)) [0..?m - 1] [] = Inr mults"
    and accepted: "curve_refusal oc (curve_of t poles weights knots mults (ent t row 2) (ent t row 3 = 1)) = None"
    and out: "roles' = r2" "sp = \<lparr>sp_poles = poles, sp_weights = weights, sp_knots = knots, sp_mults = mults,
        sp_degree = ent t row 2, sp_periodic = (ent t row 3 = 1),
        sp_occt = curve_of t poles weights knots mults (ent t row 2) (ent t row 3 = 1)\<rparr>"
    by (auto simp: read_slot_def Let_def check_simps slot_length_ok_def split: if_splits option.splits)
  from pole_loop [OF poles] have "length poles = nat ?n" "\<forall>p \<in> set poles. is_point t p" by auto
  moreover obtain "length weights = nat ?n" "\<forall>i \<in> set weights. is_param t i"
    "role_table (n_params t) (M \<union> nat ` set weights) K r1"
    using weight_loop [OF weights assms(2)] by auto
  moreover obtain "length knots = nat ?m" "\<forall>i \<in> set knots. is_param t i"
    "role_table (n_params t) (M \<union> nat ` set weights) (K \<union> nat ` set knots) r2"
    using knot_loop [OF knots calculation(5)] by auto
  moreover from mult_loop [OF mults] have "length mults = nat ?m"
    "\<forall>m \<in> set mults. 1 \<le> m \<and> m \<le> ent t row 2 + 1" by auto
  ultimately show ?thesis using n accepted by (simp add: out spline_ok_def)
qed

text \<open>The state of the loop over the B-spline rows, after the rows \<open>done\<close>.\<close>

definition weights_of :: "(nat \<rightharpoonup> spline) \<Rightarrow> nat set" where
  "weights_of splines = (\<Union>sp \<in> ran splines. nat ` set (sp_weights sp))"

definition knots_of :: "(nat \<rightharpoonup> spline) \<Rightarrow> nat set" where
  "knots_of splines = (\<Union>sp \<in> ran splines. nat ` set (sp_knots sp))"

definition slots_ok :: "tables \<Rightarrow> nat set \<Rightarrow> nat set \<Rightarrow> slots \<Rightarrow> bool" where
  "slots_ok t M rows s =
     (dom (sl_splines s) = rows \<and> (\<forall>sp \<in> ran (sl_splines s). spline_ok t sp) \<and>
      role_table (n_params t) (M \<union> weights_of (sl_splines s)) (knots_of (sl_splines s)) (sl_roles s) \<and>
      (\<forall>k < length (sl_owner s). sl_owner s ! k = -1 \<or>
         (\<exists>row \<in> rows. sl_owner s ! k = int row \<and> ent t row 1 = int k)) \<and>
      (\<forall>row \<in> rows. 0 \<le> ent t row 1 \<and> nat (ent t row 1) < length (sl_owner s) \<and>
         sl_owner s ! nat (ent t row 1) = int row))"

lemma check_spline_ok:
  assumes run: "check_spline oc t row s = Inr s'" and ok: "slots_ok t M rows s" and new: "row \<notin> rows"
  shows "slots_ok t M (insert row rows) s' \<and> length (sl_owner s') = length (sl_owner s)"
proof -
  let ?slot = "nat (ent t row 1)"
  from run obtain b len sp roles where
    slot: "0 \<le> ent t row 1" "?slot < length (sl_owner s)" "sl_owner s ! ?slot < 0"
    and sp: "read_slot oc t row b len (sl_roles s) = Inr (sp, roles)"
    and s': "s' = \<lparr>sl_owner = (sl_owner s)[?slot := int row], sl_roles = roles,
        sl_splines = (sl_splines s)(row \<mapsto> sp)\<rparr>"
    by (auto simp: check_spline_def Let_def check_simps split: if_splits)
  have fresh: "sl_splines s row = None" using ok new by (auto simp: slots_ok_def)
  have ran: "ran ((sl_splines s)(row \<mapsto> sp)) = insert sp (ran (sl_splines s))"
    using fresh by (rule ran_map_upd)
  have rt: "role_table (n_params t) (M \<union> weights_of (sl_splines s)) (knots_of (sl_splines s)) (sl_roles s)"
    using ok by (simp add: slots_ok_def)
  have "role_table (n_params t) (M \<union> weights_of (sl_splines s')) (knots_of (sl_splines s')) roles"
    using read_slot_ok [OF sp rt] by (simp add: s' weights_of_def knots_of_def ran Un_ac)
  moreover have "ent t row' 1 \<noteq> ent t row 1" if "row' \<in> rows" for row'
  proof
    assume "ent t row' 1 = ent t row 1"
    moreover have "sl_owner s ! nat (ent t row' 1) = int row'"
      using ok that unfolding slots_ok_def by blast
    ultimately show False using slot(3) by simp
  qed
  ultimately show ?thesis
    using ok read_slot_ok [OF sp rt] slot
    by (auto simp: slots_ok_def s' ran nth_list_update nat_eq_iff2)
qed

lemma check_splines_loop:
  "loop (check_spline oc t) rows s = Inr s' \<Longrightarrow> slots_ok t M seen s \<Longrightarrow>
   distinct rows \<Longrightarrow> set rows \<inter> seen = {} \<Longrightarrow>
   slots_ok t M (set rows \<union> seen) s' \<and> length (sl_owner s') = length (sl_owner s)"
proof (induction rows arbitrary: s seen)
  case (Cons row rows)
  from Cons.prems(1) obtain s1 where s1: "check_spline oc t row s = Inr s1"
    and rest: "loop (check_spline oc t) rows s1 = Inr s'"
    by (auto simp del: loop.simps simp: loop_Cons_Inr)
  have "slots_ok t M (insert row seen) s1 \<and> length (sl_owner s1) = length (sl_owner s)"
    using Cons.prems(4) by (intro check_spline_ok [OF s1 Cons.prems(2)]) auto
  with Cons.IH [OF rest, of "insert row seen"] Cons.prems show ?case by auto
qed simp

section \<open>All rows\<close>

definition moving :: "tables \<Rightarrow> (nat \<rightharpoonup> spline) \<Rightarrow> nat set" where
  "moving t splines = (\<Union>row < n_entities t. moves t row) \<union> weights_of splines"

text \<open>What the checks of the entity rows establish.\<close>

definition sketch_ok :: "tables \<Rightarrow> nat list \<Rightarrow> (nat \<rightharpoonup> spline) \<Rightarrow> bool" where
  "sketch_ok t roles splines =
     ((\<forall>row < n_entities t. row_ok t row) \<and> dom splines = set (spline_rows t) \<and>
      (\<forall>sp \<in> ran splines. spline_ok t sp) \<and>
      role_table (n_params t) (moving t splines) (knots_of splines) roles)"

lemma check_points_loop:
  "loop (check_point t) rows roles = Inr roles' \<Longrightarrow> role_table (n_params t) M {} roles \<Longrightarrow>
   role_table (n_params t)
     (M \<union> (\<Union>row \<in> {row \<in> set rows. ent_kind_at t row = Some Point}. moves t row)) {} roles' \<and>
   (\<forall>row \<in> set rows. ent_kind_at t row = Some Point \<longrightarrow> row_ok t row)"
proof (induction rows arbitrary: roles M)
  case (Cons row rows)
  from Cons.prems(1) obtain r where r: "check_point t row roles = Inr r"
    and rest: "loop (check_point t) rows r = Inr roles'"
    unfolding loop_Cons_Inr by blast
  let ?M = "M \<union> (if ent_kind_at t row = Some Point then moves t row else {})"
  note step = check_point_ok [OF r Cons.prems(2)]
  have "M \<union> (\<Union>row \<in> {x \<in> set (row # rows). ent_kind_at t x = Some Point}. moves t row) =
      ?M \<union> (\<Union>row \<in> {x \<in> set rows. ent_kind_at t x = Some Point}. moves t row)"
    by auto
  with Cons.IH [OF rest step(1)] step(2) show ?case by (simp only:) auto
qed simp

lemma check_entities_loop:
  "loop (check_entity t) rows roles = Inr roles' \<Longrightarrow> role_table (n_params t) M {} roles \<Longrightarrow>
   role_table (n_params t)
     (M \<union> (\<Union>row \<in> {row \<in> set rows. ent_kind_at t row \<noteq> Some Point}. moves t row)) {} roles' \<and>
   (\<forall>row \<in> set rows. ent_kind_at t row \<noteq> Some Point \<longrightarrow> row_ok t row)"
proof (induction rows arbitrary: roles M)
  case (Cons row rows)
  from Cons.prems(1) obtain r where r: "check_entity t row roles = Inr r"
    and rest: "loop (check_entity t) rows r = Inr roles'"
    unfolding loop_Cons_Inr by blast
  let ?M = "M \<union> (if ent_kind_at t row \<noteq> Some Point then moves t row else {})"
  have step: "role_table (n_params t) ?M {} r \<and> (ent_kind_at t row \<noteq> Some Point \<longrightarrow> row_ok t row)"
    using check_entity_ok [OF r Cons.prems(2)] Cons.prems(2) r by (auto simp: check_entity_def check_simps)
  have "M \<union> (\<Union>row \<in> {x \<in> set (row # rows). ent_kind_at t x \<noteq> Some Point}. moves t row) =
      ?M \<union> (\<Union>row \<in> {x \<in> set rows. ent_kind_at t x \<noteq> Some Point}. moves t row)"
    by auto
  with Cons.IH [OF rest conjunct1 [OF step]] step show ?case by (simp only:) auto
qed simp

lemma check_splines_ok:
  assumes "check_splines oc t roles = Inr (roles', splines)" and "role_table (n_params t) M {} roles"
  shows "dom splines = set (spline_rows t) \<and> (\<forall>sp \<in> ran splines. spline_ok t sp) \<and>
    role_table (n_params t) (M \<union> weights_of splines) (knots_of splines) roles'"
proof (cases "t_offsets t = []")
  case True
  with assms show ?thesis
    by (auto simp: check_splines_def Let_def weights_of_def knots_of_def split: if_splits)
next
  case False
  let ?s0 = "\<lparr>sl_owner = replicate (length (t_offsets t) - 1) (-1), sl_roles = roles,
      sl_splines = Map.empty\<rparr>"
  from assms(1) False obtain s where s: "loop (check_spline oc t) (spline_rows t) ?s0 = Inr s"
    and out: "roles' = sl_roles s" "splines = sl_splines s"
    by (auto simp: check_splines_def Let_def check_simps)
  have "slots_ok t M {} ?s0"
    using assms(2) by (simp add: slots_ok_def weights_of_def knots_of_def)
  moreover have "distinct (spline_rows t)" by (simp add: spline_rows_def)
  ultimately have "slots_ok t M (set (spline_rows t)) s"
    using check_splines_loop [OF s] by fastforce
  then show ?thesis by (simp add: slots_ok_def out)
qed

lemma check_entities_ok:
  assumes "check_entities oc t = Inr (roles, splines)"
  shows "sketch_ok t roles splines"
proof -
  from assms obtain r1 r2 where
    r1: "loop (check_point t) [0..<n_entities t] (replicate (n_params t) 0) = Inr r1"
    and r2: "loop (check_entity t) [0..<n_entities t] r1 = Inr r2"
    and rest: "check_splines oc t r2 = Inr (roles, splines)"
    by (auto simp: check_entities_def check_simps)
  note p = check_points_loop [OF r1 role_table_start]
  note e = check_entities_loop [OF r2 conjunct1 [OF p]]
  let ?rows = "set [0..<n_entities t]"
  have "{} \<union> (\<Union>row \<in> {row \<in> ?rows. ent_kind_at t row = Some Point}. moves t row) \<union>
      (\<Union>row \<in> {row \<in> ?rows. ent_kind_at t row \<noteq> Some Point}. moves t row) =
    (\<Union>row < n_entities t. moves t row)"
    by auto
  then have "role_table (n_params t) (\<Union>row < n_entities t. moves t row) {} r2"
    using e by (simp only:)
  from check_splines_ok [OF rest this] p e show ?thesis
    unfolding sketch_ok_def moving_def by fastforce
qed

text \<open>Reading the facts back.\<close>

lemma sketch_ok_row: "sketch_ok t roles splines \<Longrightarrow> is_row t r \<Longrightarrow> row_ok t (nat r)"
  by (simp add: sketch_ok_def is_row_def)

lemma sketch_ok_spline:
  assumes "sketch_ok t roles splines" and "is_row t r" and "kind_of t r = Some BSpline"
  shows "\<exists>sp. splines (nat r) = Some sp \<and> spline_ok t sp"
proof -
  have "nat r \<in> dom splines"
    using assms by (simp add: sketch_ok_def spline_rows_def kind_of_def is_row_def)
  then obtain sp where "splines (nat r) = Some sp" by blast
  moreover from this have "spline_ok t sp" using assms(1) by (auto simp: sketch_ok_def intro: ranI)
  ultimately show ?thesis by blast
qed

end
