(* ===== verification/SketchPlanFacts.thy ===== *)
theory SketchPlanFacts
  imports SketchFacts
begin

text \<open>
  What an accepted constraint row promises: its operands are rows in range and of the kinds its
  mapping needs, and its auxiliary scalars are as many as the mapping takes.
\<close>

section \<open>Operands\<close>

lemma operand_Inr [check_simps]:
  "operand t row col = Inr r \<longleftrightarrow> row < n_constraints t \<and> r = con t row col \<and> is_row t r"
  by (auto simp: operand_def indexing_def is_row_def Let_def)

lemma optional_point_Inr [check_simps]:
  "optional_point t row col = Inr p \<longleftrightarrow> row < n_constraints t \<and> p = con t row col \<and> (p = -1 \<or> is_point t p)"
  by (auto simp: optional_point_def check_simps is_point_def)

lemma need_Inr [check_simps]:
  "need t row e col kinds = Inr u \<longleftrightarrow> is_row t e \<and> kind_of t e \<in> Some ` set kinds"
  by (simp add: need_def check_simps)

lemma two_Inr [check_simps]:
  "two t row = Inr ab \<longleftrightarrow> row < n_constraints t \<and> ab = (con t row 1, con t row 2) \<and> is_row t (con t row 1) \<and>
     is_row t (con t row 2) \<and> con t row 1 \<noteq> con t row 2"
  by (auto simp: two_def check_simps)

lemma unused_constraint_columns_Inr [check_simps]:
  "unused_constraint_columns t row start = Inr u \<longleftrightarrow> row < n_constraints t \<and> (\<forall>col \<in> {start..<kConstraintColumns}. con t row col = -1)"
  by (auto simp: unused_constraint_columns_def indexing_def loop_unit_iff split: if_splits)

lemma spline_of_Inr [check_simps]: "spline_of splines e = Inr sp \<longleftrightarrow> splines (nat e) = Some sp"
  by (simp add: spline_of_def split: option.splits)

section \<open>Well-formed plans\<close>

definition curves_ok :: "tables \<Rightarrow> plan \<Rightarrow> bool" where
  "curves_ok t pl =
     (let a = pl_a pl; b = pl_b pl; ka = kind_of t a; kb = kind_of t b in
      is_row t a \<and> is_row t b \<and> ka \<noteq> Some Point \<and> kb \<noteq> Some Point \<and>
      (case pl_map pl of
         LineLine \<Rightarrow> ka = Some Line \<and> kb = Some Line
       | CenterOnLine \<Rightarrow> (ka = Some Line \<and> is_round kb) \<or> (is_round ka \<and> kb = Some Line)
       | LineCircle \<Rightarrow> (ka = Some Line \<and> is_round kb) \<or> (is_round ka \<and> kb = Some Line)
       | CircleCircle \<Rightarrow> is_round ka \<and> is_round kb
       | LineEllipse \<Rightarrow> (ka = Some Line \<and> is_oval kb) \<or> (is_oval ka \<and> kb = Some Line)
       | AngleViaPoint \<Rightarrow> is_point t (pl_p pl) \<and>
           (0 \<le> pl_end_a pl \<longrightarrow> ka = Some BSpline) \<and> (0 \<le> pl_end_b pl \<longrightarrow> kb = Some BSpline)
       | _ \<Rightarrow> False))"

definition two_lines_ok :: "tables \<Rightarrow> plan \<Rightarrow> bool" where
  "two_lines_ok t pl = (is_row t (pl_a pl) \<and> is_row t (pl_b pl) \<and>
     kind_of t (pl_a pl) = Some Line \<and> kind_of t (pl_b pl) = Some Line)"

definition plan_ok :: "tables \<Rightarrow> (nat \<rightharpoonup> spline) \<Rightarrow> plan \<Rightarrow> bool" where
  "plan_ok t splines pl =
     (let a = pl_a pl; b = pl_b pl; p = pl_p pl; m = pl_map pl; ka = kind_of t a; kb = kind_of t b in
      case pl_kind pl of
        Coincident \<Rightarrow> is_point t a \<and> is_row t b \<and> m = coincident_map kb
      | Distance \<Rightarrow> is_point t a \<and> is_row t b \<and>
          ((kb = Some Point \<and> m \<in> {PointPoint, PointPointDistance}) \<or>
           (kb = Some Line \<and> m \<in> {PointLine, PointLineDistance}))
      | Tangent \<Rightarrow> curves_ok t pl
      | Perpendicular \<Rightarrow> curves_ok t pl
      | Parallel \<Rightarrow> two_lines_ok t pl \<and> m = Direct
      | Angle \<Rightarrow> two_lines_ok t pl \<and> m = Direct
      | Horizontal \<Rightarrow> is_row t a \<and> ka = Some Line \<and> m = Direct
      | Vertical \<Rightarrow> is_row t a \<and> ka = Some Line \<and> m = Direct
      | Length \<Rightarrow> is_row t a \<and> ka = Some Line \<and> m = Direct
      | Radius \<Rightarrow> is_row t a \<and> is_round ka \<and> m = Direct
      | Equal \<Rightarrow> is_row t a \<and> is_row t b \<and>
          ((m = EqualLength \<and> ka = Some Line \<and> kb = Some Line) \<or>
           (m = EqualRadius \<and> is_round ka \<and> is_round kb) \<or> (m = EqualRadii \<and> is_oval ka \<and> is_oval kb))
      | Collinear \<Rightarrow> two_lines_ok t pl \<and> m = CollinearPoints \<and> (pl_on_first pl \<or> pl_on_second pl)
      | Midpoint \<Rightarrow> is_point t a \<and> is_row t b \<and>
          ((m = MidpointLine \<and> kb = Some Line) \<or>
           (m = MidpointArc \<and> (kb = Some Arc \<or> kb = Some EllipticArc)))
      | Rigid \<Rightarrow> is_row t a \<and> m = RigidParams \<and> (\<forall>i \<in> set (pl_rigid pl). i < n_params t)
      | InternalCoincident \<Rightarrow> is_row t a \<and> is_point t b \<and>
          ((m = InternalEllipse \<and> is_oval ka) \<or>
           (ka = Some BSpline \<and> 0 \<le> pl_index pl \<and>
            (\<exists>sp. splines (nat a) = Some sp \<and>
               ((m = InternalPole \<and> nat (pl_index pl) < length (sp_poles sp)) \<or>
                (m = InternalKnot \<and> nat (pl_index pl) < length (sp_knots sp))))))
      | Symmetric \<Rightarrow> is_point t a \<and> is_point t b \<and> is_row t p \<and> kind_of t p = Some Line \<and> m = Direct)"

text \<open>How many auxiliary scalars a plan takes, and which of them are unknowns.\<close>

definition aux_needed :: "plan \<Rightarrow> nat" where
  "aux_needed pl = (case pl_map pl of PointBSpline \<Rightarrow> 1 | AngleViaPoint \<Rightarrow> 1 | MidpointArc \<Rightarrow> 2
     | RigidParams \<Rightarrow> length (pl_rigid pl) | _ \<Rightarrow> 0)"

definition plan_unknowns :: "plan \<Rightarrow> nat list" where
  "plan_unknowns pl = (case pl_map pl of PointBSpline \<Rightarrow> [pl_aux pl]
     | MidpointArc \<Rightarrow> [pl_aux pl, pl_aux pl + 1] | _ \<Rightarrow> [])"

lemma new_plan_simps [simp]:
  "pl_kind (new_plan k) = k" "pl_map (new_plan k) = Direct" "pl_aux_count (new_plan k) = 0"
  "pl_rigid (new_plan k) = []"
  by (simp_all add: new_plan_def)

definition good :: "tables \<Rightarrow> (nat \<rightharpoonup> spline) \<Rightarrow> constraint_kind \<Rightarrow> plan \<Rightarrow> bool" where
  "good t splines k pl = (pl_kind pl = k \<and> plan_ok t splines pl \<and> pl_aux_count pl = aux_needed pl)"

lemmas good_defs = good_def plan_ok_def aux_needed_def Let_def two_lines_ok_def

lemma coincident_aux:
  "pl_map pl = coincident_map k \<Longrightarrow> aux_needed pl = (if coincident_map k = PointBSpline then 1 else 0)"
  by (cases k rule: coincident_map.cases) (simp_all add: aux_needed_def)

lemma plan_coincident_good:
  assumes "plan_coincident t row (new_plan Coincident) = Inr pl"
  shows "good t splines Coincident pl"
proof -
  obtain a b where ab: "point_first t (con t row 1, con t row 2) = (a, b)" by fastforce
  then have rows: "is_row t (con t row 1) \<Longrightarrow> is_row t (con t row 2) \<Longrightarrow> is_row t a \<and> is_row t b"
    by (auto simp: point_first_def split: if_splits)
  let ?m = "coincident_map (kind_of t b)"
  have "is_point t a \<and> is_row t b \<and> pl = (new_plan Coincident)\<lparr>pl_a := a, pl_b := b, pl_map := ?m,
      pl_aux_count := (if ?m = PointBSpline then 1 else 0)\<rparr>"
    using assms rows
    by (simp add: plan_coincident_def check_simps ab [simplified] Let_def is_point_def
        split: if_split_asm)
  moreover from this have "aux_needed pl = (if ?m = PointBSpline then 1 else 0)"
    by (intro coincident_aux) simp
  ultimately show ?thesis by (simp add: good_def plan_ok_def Let_def)
qed

lemma plan_distance_good:
  "plan_distance t row (new_plan Distance) = Inr pl \<Longrightarrow> good t splines Distance pl"
  by (auto simp: plan_distance_def check_simps point_first_def Let_def good_def plan_ok_def aux_needed_def
      is_point_def split: if_splits)

lemma plan_two_lines_good:
  "plan_two_lines t row (new_plan k) = Inr pl \<Longrightarrow> k = Parallel \<or> k = Angle \<Longrightarrow> good t splines k pl"
  by (auto simp: plan_two_lines_def check_simps good_defs split: prod.splits)

lemma plan_one_good:
  "plan_one t row kinds (new_plan k) = Inr pl \<Longrightarrow>
   (k \<in> {Horizontal, Vertical, Length} \<and> kinds = [Line]) \<or> (k = Radius \<and> kinds = [Circle, Arc]) \<Longrightarrow>
   good t splines k pl"
  by (auto simp: plan_one_def check_simps good_defs is_round_def)

lemma plan_equal_good: "plan_equal t row (new_plan Equal) = Inr pl \<Longrightarrow> good t splines Equal pl"
  by (auto simp: plan_equal_def check_simps good_defs split: if_splits prod.splits)

lemma plan_collinear_good:
  "plan_collinear t row (new_plan Collinear) = Inr pl \<Longrightarrow> good t splines Collinear pl"
  by (auto simp: plan_collinear_def check_simps good_defs split: if_splits prod.splits)

lemma plan_midpoint_good:
  "plan_midpoint t row (new_plan Midpoint) = Inr pl \<Longrightarrow> good t splines Midpoint pl"
  by (auto simp: plan_midpoint_def check_simps good_defs is_point_def split: if_splits)

lemma plan_internal_good:
  "plan_internal t splines row (new_plan InternalCoincident) = Inr pl \<Longrightarrow>
   good t splines InternalCoincident pl"
  by (auto simp: plan_internal_def check_simps good_defs is_point_def split: if_splits)

lemma plan_symmetric_good:
  "plan_symmetric t row (new_plan Symmetric) = Inr pl \<Longrightarrow> good t splines Symmetric pl"
  by (auto simp: plan_symmetric_def check_simps good_defs is_point_def split: if_splits prod.splits)

lemma bind_pair_Inr:
  "bind_result r (\<lambda>(x, y). f x y) = Inr z \<longleftrightarrow> (\<exists>x y. r = Inr (x, y) \<and> f x y = Inr z)"
  by (auto simp: bind_checked_Inr)

text \<open>A side of a tangency that ends in a B-spline has a point and a clamped end.\<close>

lemma curve_side_Inr:
  "curve_side t splines row p e = Inr (k, at_end) \<Longrightarrow>
   (kind_of t e \<noteq> Some BSpline \<and> k = kind_of t e \<and> at_end = -1) \<or>
   (kind_of t e = Some BSpline \<and> k = Some Line \<and> 0 \<le> at_end \<and> 0 \<le> p)"
  by (auto simp: curve_side_def check_simps Let_def split: if_splits)

lemma curves_map_ok:
  assumes "curves_map tangent has_point ka end_a kb end_b = Some m"
    and "0 \<le> end_a \<or> 0 \<le> end_b \<Longrightarrow> has_point"
  shows "(m = AngleViaPoint \<and> has_point) \<or> (end_a < 0 \<and> end_b < 0 \<and>
    ((m = LineLine \<and> ka = Some Line \<and> kb = Some Line) \<or>
     (m \<in> {CenterOnLine, LineCircle} \<and> ((ka = Some Line \<and> is_round kb) \<or> (is_round ka \<and> kb = Some Line))) \<or>
     (m = CircleCircle \<and> is_round ka \<and> is_round kb) \<or>
     (m = LineEllipse \<and> ((ka = Some Line \<and> is_oval kb) \<or> (is_oval ka \<and> kb = Some Line)))))"
  using assms by (auto simp: curves_map_def Let_def split: if_split_asm)

text \<open>The plan of a tangency, once its parts are known.\<close>

definition curves_plan :: "tables \<Rightarrow> nat \<Rightarrow> int \<Rightarrow> int \<Rightarrow> mapping \<Rightarrow> plan \<Rightarrow> plan" where
  "curves_plan t row ea eb m pl = pl\<lparr>pl_a := con t row 1, pl_b := con t row 2, pl_p := con t row 3,
     pl_end_a := ea, pl_end_b := eb, pl_map := m, pl_aux_count := (if m = AngleViaPoint then 1 else 0)\<rparr>"

lemma plan_curves_Inr:
  "plan_curves t splines row tangent pl0 = Inr pl \<longleftrightarrow> row < n_constraints t \<and>
   is_row t (con t row 1) \<and> is_row t (con t row 2) \<and> (con t row 3 = -1 \<or> is_point t (con t row 3)) \<and>
   (\<forall>col \<in> {4..<kConstraintColumns}. con t row col = -1) \<and>
   curves_refused t tangent row (con t row 1) (con t row 2) = None \<and>
   (\<exists>ka ea kb eb m. curve_side t splines row (con t row 3) (con t row 1) = Inr (ka, ea) \<and>
      curve_side t splines row (con t row 3) (con t row 2) = Inr (kb, eb) \<and>
      curves_map tangent (0 \<le> con t row 3) ka ea kb eb = Some m \<and> pl = curves_plan t row ea eb m pl0)"
  (is "?run \<longleftrightarrow> ?parts")
proof -
  let ?a = "con t row 1" and ?b = "con t row 2" and ?p = "con t row 3"
  let ?rest = "(case curves_refused t tangent row ?a ?b of Some e \<Rightarrow> Inl e
      | None \<Rightarrow> bind_result (curve_side t splines row ?p ?a) (\<lambda>(ka, ea).
          bind_result (curve_side t splines row ?p ?b) (\<lambda>(kb, eb).
            case curves_map tangent (0 \<le> ?p) ka ea kb eb of None \<Rightarrow> Inl (AtPair row ?a ?b NeedsPoint)
            | Some m \<Rightarrow> Inr (curves_plan t row ea eb m pl0))))"
  have "?run \<longleftrightarrow> row < n_constraints t \<and> is_row t ?a \<and> is_row t ?b \<and> (?p = -1 \<or> is_point t ?p) \<and>
      (\<forall>col \<in> {4..<kConstraintColumns}. con t row col = -1) \<and> ?rest = Inr pl"
    unfolding plan_curves_def bind_checked_Inr operand_Inr optional_point_Inr
      unused_constraint_columns_Inr indexing_Inr curves_plan_def by (auto simp del: One_nat_def)
  also have "?rest = Inr pl \<longleftrightarrow> curves_refused t tangent row ?a ?b = None \<and>
      (\<exists>ka ea kb eb m. curve_side t splines row ?p ?a = Inr (ka, ea) \<and>
        curve_side t splines row ?p ?b = Inr (kb, eb) \<and>
        curves_map tangent (0 \<le> ?p) ka ea kb eb = Some m \<and> pl = curves_plan t row ea eb m pl0)"
  proof (cases "curves_refused t tangent row ?a ?b")
    case None
    have some: "(case m of None \<Rightarrow> Inl e | Some m \<Rightarrow> Inr (f m)) = Inr pl \<longleftrightarrow> (\<exists>m'. m = Some m' \<and> pl = f m')"
      for m e f by (auto split: option.splits)
    show ?thesis unfolding None option.case bind_pair_Inr some by blast
  qed simp
  finally show ?thesis .
qed

lemma plan_curves_good:
  assumes run: "plan_curves t splines row tangent (new_plan k) = Inr pl"
    and k: "k = (if tangent then Tangent else Perpendicular)"
  shows "good t splines k pl"
proof -
  let ?a = "con t row 1" and ?b = "con t row 2" and ?p = "con t row 3"
  from run obtain ka ea kb eb m where rows: "is_row t ?a" "is_row t ?b"
    and p: "?p = -1 \<or> is_point t ?p" and free: "curves_refused t tangent row ?a ?b = None"
    and sa: "curve_side t splines row ?p ?a = Inr (ka, ea)"
    and sb: "curve_side t splines row ?p ?b = Inr (kb, eb)"
    and m: "curves_map tangent (0 \<le> ?p) ka ea kb eb = Some m"
    and pl: "pl = curves_plan t row ea eb m (new_plan k)"
    unfolding plan_curves_Inr by blast
  note pl = pl [unfolded curves_plan_def]
  note ends = curve_side_Inr [OF sa] curve_side_Inr [OF sb]
  have kinds: "kind_of t ?a \<noteq> Some Point" "kind_of t ?b \<noteq> Some Point"
    using free by (auto simp: curves_refused_def Let_def split: if_splits)
  have "0 \<le> ea \<or> 0 \<le> eb \<Longrightarrow> 0 \<le> ?p" using ends by auto
  note shape = curves_map_ok [OF m this]
  have point: "0 \<le> ?p \<Longrightarrow> is_point t ?p" using p by auto
  have sides: "ea < 0 \<Longrightarrow> ka = kind_of t ?a" "eb < 0 \<Longrightarrow> kb = kind_of t ?b"
    "0 \<le> ea \<Longrightarrow> kind_of t ?a = Some BSpline" "0 \<le> eb \<Longrightarrow> kind_of t ?b = Some BSpline"
    using ends by auto
  have "curves_ok t pl"
  proof (cases "m = AngleViaPoint")
    case True
    with shape have "0 \<le> ?p" by auto
    with True point sides rows kinds show ?thesis by (simp add: pl curves_ok_def)
  next
    case False
    with shape have free_ends: "ea < 0" "eb < 0" by blast+
    show ?thesis using shape False rows kinds sides(1) [OF free_ends(1)] sides(2) [OF free_ends(2)]
      by (auto simp: pl curves_ok_def)
  qed
  moreover have "pl_aux_count pl = aux_needed pl"
    using shape by (auto simp: pl aux_needed_def)
  moreover have "pl_kind pl = k" by (simp add: pl)
  ultimately show ?thesis using k by (cases tangent) (simp_all add: good_def plan_ok_def Let_def)
qed

lemma points_params_Inr [check_simps]:
  "points_params t ps = Inr is \<longleftrightarrow> list_all (is_row t) ps \<and> is = concat (map (point_params t) ps)"
  by (auto simp: points_params_def check_simps)

lemma entity_params_ok:
  assumes "entity_params t splines a = Inr ps" and ok: "sketch_ok t roles splines" and a: "is_row t a"
  shows "\<forall>i \<in> set ps. is_param t i"
proof -
  have point: "\<forall>i \<in> set (point_params t p). is_param t i" if "is_point t p" for p
    using sketch_ok_row [OF ok, of p] that
    by (auto simp: point_params_def row_ok_def row_params_def is_point_def kind_of_def)
  have row: "row_ok t (nat a)" using ok a by (rule sketch_ok_row)
  show ?thesis
  proof (cases "ent_kind_at t (nat a)")
    case None
    with row show ?thesis by (simp add: row_ok_def)
  next
    case (Some k)
    show ?thesis
    proof (cases "k = BSpline")
      case True
      with Some assms(1) obtain sp where sp: "splines (nat a) = Some sp"
        "ps = concat (map (point_params t) (sp_poles sp))"
        by (auto simp: entity_params_def check_simps)
      then have "spline_ok t sp" using ok by (auto simp: sketch_ok_def intro: ranI)
      with sp point show ?thesis by (auto simp: spline_ok_def)
    next
      case False
      note pts = point [of "ent t (nat a) 1"] point [of "ent t (nat a) 2"] point [of a]
      show ?thesis using Some False assms(1) row pts a
        by (cases k) (auto simp: entity_params_def check_simps Let_def row_ok_def row_params_def row_points_def
            is_point_def kind_of_def)
    qed
  qed
qed

lemma add_rigid_fold:
  "set (fold (add_rigid t) ps held) \<subseteq> set held \<union> nat ` set ps"
proof (induction ps arbitrary: held)
  case (Cons i ps)
  have "set (add_rigid t i held) \<subseteq> set held \<union> {nat i}" by (auto simp: add_rigid_def)
  with Cons.IH [of "add_rigid t i held"] show ?case by auto
qed simp

lemma plan_rigid_good:
  assumes "plan_rigid t splines row (new_plan Rigid) = Inr pl" and "sketch_ok t roles splines"
  shows "good t splines Rigid pl"
proof -
  from assms(1) obtain ps where a: "is_row t (con t row 1)"
    and ps: "entity_params t splines (con t row 1) = Inr ps"
    and pl: "pl = (new_plan Rigid)\<lparr>pl_a := con t row 1, pl_rigid := fold (add_rigid t) ps [],
        pl_aux_count := length (fold (add_rigid t) ps []), pl_map := RigidParams\<rparr>"
    by (auto simp: plan_rigid_def check_simps Let_def)
  have "\<forall>i \<in> set (fold (add_rigid t) ps []). i < n_params t"
    using add_rigid_fold [of t ps "[]"] entity_params_ok [OF ps assms(2) a] by (auto simp: is_param_def)
  with a show ?thesis by (simp add: good_defs pl)
qed

lemma plan_kind_good:
  assumes "plan_kind t splines row k = Inr pl" and "sketch_ok t roles splines"
  shows "good t splines k pl"
  using assms
  by (cases k)
    (auto simp: plan_kind_def Let_def intro: plan_coincident_good plan_distance_good plan_two_lines_good
      plan_one_good plan_equal_good plan_collinear_good plan_midpoint_good plan_internal_good
      plan_symmetric_good plan_curves_good plan_rigid_good)

lemma plan_row_good:
  assumes "plan_row t splines row = Inr pl" and "sketch_ok t roles splines"
  shows "con_kind_at t row = Some (pl_kind pl)" and "plan_ok t splines pl"
    and "pl_aux_count pl = aux_needed pl"
proof -
  from assms(1) obtain k where k: "con_kind_at t row = Some k" and "plan_kind t splines row k = Inr pl"
    by (auto simp: plan_row_def check_simps split: option.splits)
  from plan_kind_good [OF this(2) assms(2)] k
  show "con_kind_at t row = Some (pl_kind pl)" and "plan_ok t splines pl"
    and "pl_aux_count pl = aux_needed pl"
    by (auto simp: good_def)
qed

text \<open>The whole table of constraints.\<close>

lemma check_constraints_good:
  assumes "check_constraints t splines = Inr plans" and "sketch_ok t roles splines"
  shows "length plans = n_constraints t \<and> (\<forall>row < n_constraints t.
    con_kind_at t row = Some (pl_kind (plans ! row)) \<and> plan_ok t splines (plans ! row) \<and>
    pl_aux_count (plans ! row) = aux_needed (plans ! row))"
proof -
  from assms(1) have plans: "list_all2 (\<lambda>row pl. plan_row t splines row = Inr pl) [0..<n_constraints t] plans"
    by (simp add: check_constraints_def each_Inr_iff)
  then have "length plans = n_constraints t" by (auto dest: list_all2_lengthD)
  moreover from plans have "plan_row t splines row = Inr (plans ! row)" if "row < n_constraints t" for row
    using that by (auto simp: list_all2_conv_all_nth)
  ultimately show ?thesis using plan_row_good [OF _ assms(2)] by blast
qed

end
