(* ===== verification/SketchBuildFacts.thy ===== *)
theory SketchBuildFacts
  imports SketchPlanFacts
begin

text \<open>
  What an accepted sketch is built into: every scalar a PlaneGCS call points at is in the buffer,
  a row writes and declares its own auxiliary scalars only, and every call carries the tag of its
  row.
\<close>

section \<open>Pointers\<close>

fun point_ptrs :: "gpoint \<Rightarrow> ptr list" where
  "point_ptrs (GPt x y) = [x, y]"

fun line_ptrs :: "gline \<Rightarrow> ptr list" where
  "line_ptrs (GLn p q) = point_ptrs p @ point_ptrs q"

fun curve_ptrs :: "gcurve \<Rightarrow> ptr list" where
  "curve_ptrs (CLine l) = line_ptrs l"
| "curve_ptrs (CCircle c r) = point_ptrs c @ [r]"
| "curve_ptrs (CArc c s e r sa ea) = point_ptrs c @ point_ptrs s @ point_ptrs e @ [r, sa, ea]"
| "curve_ptrs (CEllipse c f r) = point_ptrs c @ point_ptrs f @ [r]"
| "curve_ptrs (CEllipticArc c f s e r sa ea) =
     point_ptrs c @ point_ptrs f @ point_ptrs s @ point_ptrs e @ [r, sa, ea]"
| "curve_ptrs (CBSpline poles ws ks ms d p) = concat (map point_ptrs poles) @ ws @ ks"
| "curve_ptrs CNone = [None]"

fun call_ptrs :: "gcs_call \<Rightarrow> ptr list" where
  "call_ptrs (P2PDistance p q d) = point_ptrs p @ point_ptrs q @ [d]"
| "call_ptrs (P2PAngle p q a) = point_ptrs p @ point_ptrs q @ [a]"
| "call_ptrs (ArcOfEllipseRules c) = curve_ptrs c"
| "call_ptrs (P2PCoincident p q) = point_ptrs p @ point_ptrs q"
| "call_ptrs (PointOnLine p l) = point_ptrs p @ line_ptrs l"
| "call_ptrs (PointOnCurve p c) = point_ptrs p @ curve_ptrs c"
| "call_ptrs (PointOnBSpline p c u) = point_ptrs p @ curve_ptrs c @ [u]"
| "call_ptrs (P2LDistance p l d) = point_ptrs p @ line_ptrs l @ [d]"
| "call_ptrs (LinePair k l m) = line_ptrs l @ line_ptrs m"
| "call_ptrs (LineOnly k l) = line_ptrs l"
| "call_ptrs (TangentLineCurve l c) = line_ptrs l @ curve_ptrs c"
| "call_ptrs (TangentCircumf p q r s i) = point_ptrs p @ point_ptrs q @ [r, s]"
| "call_ptrs (AngleVia c d p a) = curve_ptrs c @ curve_ptrs d @ point_ptrs p @ [a]"
| "call_ptrs (EqualScalars x y) = [x, y]"
| "call_ptrs (AlignScalars x y) = [x, y]"
| "call_ptrs (EqualEllipses c d) = curve_ptrs c @ curve_ptrs d"
| "call_ptrs (PointOnPerpBisector p l) = point_ptrs p @ line_ptrs l"
| "call_ptrs (CurveValue p c u) = point_ptrs p @ curve_ptrs c @ [u]"
| "call_ptrs (DifferenceOf x y z) = [x, y, z]"
| "call_ptrs (L2LAngle l m a) = line_ptrs l @ line_ptrs m @ [a]"
| "call_ptrs (RadiusOf c r) = curve_ptrs c @ [r]"
| "call_ptrs (EllipseFocus2 c p) = curve_ptrs c @ point_ptrs p"
| "call_ptrs (Point2Ellipse c p a) = curve_ptrs c @ point_ptrs p"
| "call_ptrs (KnotPoint c p k) = curve_ptrs c @ point_ptrs p"
| "call_ptrs (P2PSymmetric p q l) = point_ptrs p @ point_ptrs q @ line_ptrs l"

definition in_store :: "nat \<Rightarrow> ptr list \<Rightarrow> bool" where
  "in_store N ps = (\<forall>p \<in> set ps. \<exists>i < N. p = Some i)"

lemma in_store_simps [simp]:
  "in_store N []" "in_store N (p # ps) = ((\<exists>i < N. p = Some i) \<and> in_store N ps)"
  "in_store N (ps @ qs) = (in_store N ps \<and> in_store N qs)"
  by (auto simp: in_store_def)

lemma in_store_concat: "in_store N (concat pss) = (\<forall>ps \<in> set pss. in_store N ps)"
  by (auto simp: in_store_def)

lemma in_store_mono: "in_store n ps \<Longrightarrow> n \<le> N \<Longrightarrow> in_store N ps"
  unfolding in_store_def by (meson order_less_le_trans)

section \<open>Geometry\<close>

lemma scalar_in: "is_param t i \<Longrightarrow> in_store (n_params t) [scalar i]"
  by (simp add: scalar_def is_param_def)

lemma pt_in:
  assumes "sketch_ok t roles splines" and "is_point t r"
  shows "in_store (n_params t) (point_ptrs (pt t r))"
proof -
  have "row_ok t (nat r)" using sketch_ok_row [OF assms(1)] assms(2) by (simp add: is_point_def)
  with assms(2) have "is_param t (ent t (nat r) 1) \<and> is_param t (ent t (nat r) 2)"
    by (auto simp: row_ok_def row_params_def is_point_def kind_of_def)
  with assms(2) show ?thesis
    by (auto simp: pt_def geo_point_def is_point_def scalar_def is_param_def)
qed

lemma build_curve_in:
  assumes ok: "sketch_ok t roles splines" and row: "row < n_entities t"
    and kind: "ent_kind_at t row \<noteq> Some Point"
  shows "in_store (n_params t) (curve_ptrs (build_curve t splines row))"
proof -
  have rok: "row_ok t row" using ok row by (simp add: sketch_ok_def)
  have pts: "in_store (n_params t) (point_ptrs (pt t p))" if "p \<in> set (row_points t row)" for p
    using rok that pt_in [OF ok] by (simp add: row_ok_def)
  have prs: "in_store (n_params t) [scalar i]" if "i \<in> set (row_params t row)" for i
    using rok that scalar_in by (simp add: row_ok_def)
  show ?thesis
  proof (cases "ent_kind_at t row")
    case None
    with rok show ?thesis by (simp add: row_ok_def)
  next
    case (Some k)
    show ?thesis
    proof (cases "k = BSpline")
      case True
      have "is_row t (int row)" "kind_of t (int row) = Some BSpline"
        using row Some True by (simp_all add: is_row_def kind_of_def)
      from sketch_ok_spline [OF ok this] obtain sp where sp: "splines row = Some sp" "spline_ok t sp"
        by auto
      then show ?thesis using Some True pt_in [OF ok] scalar_in
        by (fastforce simp: build_curve_def in_store_concat spline_ok_def in_store_def)
    next
      case False
      with Some kind pts prs show ?thesis
        by (cases k) (simp_all add: build_curve_def row_points_def row_params_def)
    qed
  qed
qed

lemma geo_nth:
  "row < n_entities t \<Longrightarrow> build_geometry t splines ! row =
     (if ent_kind_at t row = Some Point then GeoPoint (geo_point t (int row))
      else GeoCurve (build_curve t splines row))"
  by (simp add: build_geometry_def)

lemma point_at_geo: "is_point t r \<Longrightarrow> point_at (build_geometry t splines) r = pt t r"
  by (auto simp: point_at_def is_point_def is_row_def geo_nth kind_of_def pt_def geo_point_def)

lemma curve_at_geo:
  "is_row t r \<Longrightarrow> kind_of t r \<noteq> Some Point \<Longrightarrow>
   curve_at (build_geometry t splines) r = build_curve t splines (nat r)"
  by (auto simp: curve_at_def is_row_def geo_nth kind_of_def)

text \<open>The shape of the curve of a row, by the row's kind.\<close>

lemma curve_shape:
  assumes "sketch_ok t roles splines" and "is_row t r" and "kind_of t r = Some k" and "k \<noteq> Point"
  shows "curve_at (build_geometry t splines) r = build_curve t splines (nat r)"
    and "in_store (n_params t) (curve_ptrs (build_curve t splines (nat r)))"
  using assms build_curve_in [OF assms(1), of "nat r"]
  by (auto simp: curve_at_geo is_row_def kind_of_def)

lemma line_shape:
  assumes "sketch_ok t roles splines" and "is_row t r" and "kind_of t r = Some Line"
  shows "in_store (n_params t) (line_ptrs (as_line (curve_at (build_geometry t splines) r)))"
  using curve_shape [OF assms(1-3)] assms(3) by (simp add: build_curve_def kind_of_def)

lemma round_shape:
  assumes "sketch_ok t roles splines" and "is_row t r" and "is_round (kind_of t r)"
  shows "in_store (n_params t) (point_ptrs (round_center (curve_at (build_geometry t splines) r)))"
    and "in_store (n_params t) [round_radius (curve_at (build_geometry t splines) r)]"
proof -
  obtain k where k: "kind_of t r = Some k" "k \<noteq> Point" "k = Circle \<or> k = Arc"
    using assms(3) by (auto simp: is_round_def)
  from curve_shape [OF assms(1,2) k(1,2)] k
  show "in_store (n_params t) (point_ptrs (round_center (curve_at (build_geometry t splines) r)))"
    and "in_store (n_params t) [round_radius (curve_at (build_geometry t splines) r)]"
    by (auto simp: build_curve_def kind_of_def)
qed

lemma arc_shape:
  assumes "sketch_ok t roles splines" and "is_row t r"
    and "kind_of t r = Some Arc \<or> kind_of t r = Some EllipticArc"
  shows "in_store (n_params t) [fst (arc_angles (curve_at (build_geometry t splines) r)),
    snd (arc_angles (curve_at (build_geometry t splines) r))]"
proof -
  obtain k where k: "kind_of t r = Some k" "k \<noteq> Point" "k = Arc \<or> k = EllipticArc"
    using assms(3) by auto
  from curve_shape [OF assms(1,2) k(1,2)] k show ?thesis
    by (auto simp: build_curve_def kind_of_def)
qed

lemma poles_shape:
  assumes "sketch_ok t roles splines" and "is_row t r" and "splines (nat r) = Some sp"
    and "kind_of t r = Some BSpline"
  shows "bspline_poles (curve_at (build_geometry t splines) r) = map (pt t) (sp_poles sp)"
  using curve_shape(1) [OF assms(1,2,4)] assms(3,4) by (simp add: build_curve_def kind_of_def)

lemma end_segment_in:
  assumes ok: "sketch_ok t roles splines" and "is_row t r" and "kind_of t r = Some BSpline" and "0 \<le> e"
  shows "in_store (n_params t) (curve_ptrs (operand_curve (build_geometry t splines) r e))"
proof -
  obtain sp where sp: "splines (nat r) = Some sp" "spline_ok t sp"
    using sketch_ok_spline [OF assms(1-3)] by blast
  have poles: "in_store (n_params t) (point_ptrs (map (pt t) (sp_poles sp) ! i))"
    if "i < length (sp_poles sp)" for i
    using that sp(2) pt_in [OF ok] by (simp add: spline_ok_def)
  have len: "2 \<le> length (sp_poles sp)" "0 < length (sp_poles sp)" using sp(2) by (auto simp: spline_ok_def)
  have "in_store (n_params t) (point_ptrs (map (pt t) (sp_poles sp) ! 0))"
    and "in_store (n_params t) (point_ptrs (map (pt t) (sp_poles sp) ! 1))"
    and "in_store (n_params t) (point_ptrs (map (pt t) (sp_poles sp) ! (length (sp_poles sp) - 2)))"
    and "in_store (n_params t) (point_ptrs (map (pt t) (sp_poles sp) ! (length (sp_poles sp) - 1)))"
    using len by (intro poles; simp)+
  with assms(4) show ?thesis
    by (simp add: operand_curve_def Let_def poles_shape [OF assms(1,2) sp(1) assms(3)] del: nth_map)
qed

section \<open>The effect of a row\<close>

text \<open>
  From \<open>b\<close> to \<open>b'\<close>: the buffer keeps its length and every scalar outside the row's own
  auxiliary ones, the new calls carry the tag and point into a buffer of \<open>N\<close> scalars, \<open>us\<close> are
  the unknowns declared, and constraints are counted exactly when there is a call.
\<close>

definition row_effect :: "nat \<Rightarrow> nat set \<Rightarrow> int \<Rightarrow> nat list \<Rightarrow> build \<Rightarrow> build \<Rightarrow> bool" where
  "row_effect N own tag us b b' =
     (length (b_store b') = length (b_store b) \<and>
      (\<forall>i. i \<notin> own \<longrightarrow> b_store b' ! i = b_store b ! i) \<and>
      b_aux_unknowns b' = b_aux_unknowns b @ us \<and>
      (\<exists>calls. b_calls b' = b_calls b @ map (\<lambda>c. (c, tag)) calls \<and>
         (\<forall>c \<in> set calls. in_store N (call_ptrs c)) \<and>
         (if calls = [] then b_added b' = b_added b else b_added b < b_added b')))"

lemma row_effect_refl [intro, simp]: "row_effect N own tag [] b b"
  by (auto simp: row_effect_def)

lemma row_effect_trans:
  assumes "row_effect N own tag us b b1" and "row_effect N own tag vs b1 b2"
  shows "row_effect N own tag (us @ vs) b b2"
proof -
  from assms obtain c1 c2 where
    "b_calls b1 = b_calls b @ map (\<lambda>c. (c, tag)) c1" "\<forall>c \<in> set c1. in_store N (call_ptrs c)"
    "if c1 = [] then b_added b1 = b_added b else b_added b < b_added b1"
    "b_calls b2 = b_calls b1 @ map (\<lambda>c. (c, tag)) c2" "\<forall>c \<in> set c2. in_store N (call_ptrs c)"
    "if c2 = [] then b_added b2 = b_added b1 else b_added b1 < b_added b2"
    unfolding row_effect_def by blast
  then have "\<exists>calls. b_calls b2 = b_calls b @ map (\<lambda>c. (c, tag)) calls \<and>
      (\<forall>c \<in> set calls. in_store N (call_ptrs c)) \<and>
      (if calls = [] then b_added b2 = b_added b else b_added b < b_added b2)"
    by (intro exI [of _ "c1 @ c2"]) (auto split: if_splits)
  with assms show ?thesis by (simp add: row_effect_def)
qed

lemma row_effect_emit [intro]:
  "calls \<noteq> [] \<Longrightarrow> 0 < k \<Longrightarrow> (\<And>c. c \<in> set calls \<Longrightarrow> in_store N (call_ptrs c)) \<Longrightarrow>
   row_effect N own tag [] b (emit tag calls k b)"
  by (auto simp: row_effect_def emit_def)

lemma row_effect_put [intro]: "i \<in> own \<Longrightarrow> row_effect N own tag [] b (put i v b)"
  unfolding row_effect_def put_def by (auto intro!: nth_list_update_neq)

lemma row_effect_unknown [intro]: "row_effect N own tag [i] b (unknown i b)"
  by (auto simp: row_effect_def unknown_def)

lemma row_effect_then_emit:
  "row_effect N own tag us b b1 \<Longrightarrow> calls \<noteq> [] \<Longrightarrow> 0 < k \<Longrightarrow>
   (\<And>c. c \<in> set calls \<Longrightarrow> in_store N (call_ptrs c)) \<Longrightarrow>
   row_effect N own tag us b (emit tag calls k b1)"
  using row_effect_trans [OF _ row_effect_emit, of N own tag us b b1 calls k] by simp

lemma row_effect_then_put:
  "row_effect N own tag us b b1 \<Longrightarrow> i \<in> own \<Longrightarrow> row_effect N own tag us b (put i v b1)"
  using row_effect_trans [OF _ row_effect_put, of N own tag us b b1 i v] by simp

lemma row_effect_then_unknown:
  "row_effect N own tag us b b1 \<Longrightarrow> row_effect N own tag (us @ [i]) b (unknown i b1)"
  by (rule row_effect_trans [OF _ row_effect_unknown])

lemma row_effect_then_unknowns:
  "row_effect N own tag [] b b1 \<Longrightarrow> row_effect N own tag [i] b (unknown i b1)"
  "row_effect N own tag [i] b b1 \<Longrightarrow> row_effect N own tag [i, j] b (unknown j b1)"
  using row_effect_then_unknown [of N own tag "[]" b b1] row_effect_then_unknown [of N own tag "[i]" b b1]
  by simp_all

lemmas row_effects = row_effect_then_emit row_effect_then_put row_effect_then_unknowns row_effect_refl

section \<open>The rows\<close>

text \<open>The geometry of the rows, seen from a buffer of at least the parameters.\<close>

lemma geometry_in:
  assumes ok: "sketch_ok t roles splines" and N: "n_params t \<le> N"
  shows "is_point t r \<Longrightarrow> in_store N (point_ptrs (point_at (build_geometry t splines) r))"
    and "is_row t r \<Longrightarrow> kind_of t r \<noteq> Some Point \<Longrightarrow>
      in_store N (curve_ptrs (curve_at (build_geometry t splines) r))"
    and "is_row t r \<Longrightarrow> kind_of t r = Some Line \<Longrightarrow>
      in_store N (line_ptrs (as_line (curve_at (build_geometry t splines) r)))"
    and "is_row t r \<Longrightarrow> is_round (kind_of t r) \<Longrightarrow>
      in_store N (point_ptrs (round_center (curve_at (build_geometry t splines) r)))"
    and "is_row t r \<Longrightarrow> is_round (kind_of t r) \<Longrightarrow>
      in_store N [round_radius (curve_at (build_geometry t splines) r)]"
    and "is_row t r \<Longrightarrow> kind_of t r = Some Arc \<or> kind_of t r = Some EllipticArc \<Longrightarrow>
      in_store N [fst (arc_angles (curve_at (build_geometry t splines) r)),
        snd (arc_angles (curve_at (build_geometry t splines) r))]"
    and "is_row t r \<Longrightarrow> kind_of t r \<noteq> Some Point \<Longrightarrow> (0 \<le> e \<Longrightarrow> kind_of t r = Some BSpline) \<Longrightarrow>
      in_store N (curve_ptrs (operand_curve (build_geometry t splines) r e))"
proof -
  note up = in_store_mono [OF _ N]
  show curve: "is_row t r \<Longrightarrow> kind_of t r \<noteq> Some Point \<Longrightarrow>
      in_store N (curve_ptrs (curve_at (build_geometry t splines) r))"
    using build_curve_in [OF ok, of "nat r"] by (intro up) (auto simp: curve_at_geo is_row_def kind_of_def)
  show "is_point t r \<Longrightarrow> in_store N (point_ptrs (point_at (build_geometry t splines) r))"
    using pt_in [OF ok, of r] by (intro up) (simp add: point_at_geo)
  show "is_row t r \<Longrightarrow> kind_of t r = Some Line \<Longrightarrow>
      in_store N (line_ptrs (as_line (curve_at (build_geometry t splines) r)))"
    using line_shape [OF ok, of r] by (intro up)
  show "is_row t r \<Longrightarrow> is_round (kind_of t r) \<Longrightarrow>
      in_store N (point_ptrs (round_center (curve_at (build_geometry t splines) r)))"
    using round_shape(1) [OF ok, of r] by (intro up)
  show "is_row t r \<Longrightarrow> is_round (kind_of t r) \<Longrightarrow>
      in_store N [round_radius (curve_at (build_geometry t splines) r)]"
    using round_shape(2) [OF ok, of r] by (intro up)
  show "is_row t r \<Longrightarrow> kind_of t r = Some Arc \<or> kind_of t r = Some EllipticArc \<Longrightarrow>
      in_store N [fst (arc_angles (curve_at (build_geometry t splines) r)),
        snd (arc_angles (curve_at (build_geometry t splines) r))]"
    using arc_shape [OF ok, of r] by (intro up)
  show "is_row t r \<Longrightarrow> kind_of t r \<noteq> Some Point \<Longrightarrow> (0 \<le> e \<Longrightarrow> kind_of t r = Some BSpline) \<Longrightarrow>
      in_store N (curve_ptrs (operand_curve (build_geometry t splines) r e))"
    using end_segment_in [OF ok, of r e] curve up by (cases "0 \<le> e") (auto simp: operand_curve_def)
qed

definition own_aux :: "plan \<Rightarrow> nat set" where
  "own_aux pl = {pl_aux pl..<pl_aux pl + aux_needed pl}"

lemma add_coincident_effect:
  assumes ok: "sketch_ok t roles splines" and N: "n_params t + n_constraints t \<le> N"
    and row: "row < n_constraints t" and pl: "plan_ok t splines pl"
    and kind: "pl_kind pl = Coincident \<or> pl_kind pl = Distance"
    and aux: "pl_aux pl + aux_needed pl \<le> N"
  shows "row_effect N (own_aux pl) tag (plan_unknowns pl) b
    (add_coincident tk t splines (build_geometry t splines) row tag pl b)"
proof -
  have NP: "n_params t \<le> N" using N by simp
  note geo = geometry_in [OF ok NP]
  have v: "\<exists>i < N. Some (n_params t + row) = Some i" using N row by auto
  have ab: "is_point t (pl_a pl)" "is_row t (pl_b pl)"
    using pl kind by (auto simp: plan_ok_def Let_def)
  have some: "kind_of t (pl_b pl) \<noteq> None"
    using sketch_ok_row [OF ok ab(2)] by (simp add: row_ok_def kind_of_def)
  show ?thesis
  proof (cases "kind_of t (pl_b pl) = Some BSpline")
    case True
    with sketch_ok_spline [OF ok ab(2)] obtain sp where "splines (nat (pl_b pl)) = Some sp" by blast
    with True pl kind ab geo(1) [of "pl_a pl"] geo(2) [of "pl_b pl"] aux show ?thesis
      by (auto simp: add_coincident_def Let_def plan_ok_def plan_unknowns_def own_aux_def aux_needed_def
          intro!: row_effects)
  next
    case False
    obtain k where k: "kind_of t (pl_b pl) = Some k" "k \<noteq> BSpline" using some False by auto
    have b_point: "k = Point \<Longrightarrow> is_point t (pl_b pl)" using k ab by (simp add: is_point_def)
    from k pl kind ab b_point geo(1) [of "pl_a pl"] geo(1-3) [of "pl_b pl"] v show ?thesis
      by (cases k) (auto simp: add_coincident_def Let_def plan_ok_def plan_unknowns_def intro!: row_effects)
  qed
qed

lemma add_curves_effect:
  assumes ok: "sketch_ok t roles splines" and NP: "n_params t \<le> N" and pl: "curves_ok t pl"
    and aux: "pl_aux pl + aux_needed pl \<le> N"
  shows "row_effect N (own_aux pl) tag (plan_unknowns pl) b
    (add_curves tk t (build_geometry t splines) tag pl b)"
proof -
  note geo = geometry_in [OF ok NP]
  have ab: "is_row t (pl_a pl)" "is_row t (pl_b pl)" "kind_of t (pl_a pl) \<noteq> Some Point"
    "kind_of t (pl_b pl) \<noteq> Some Point"
    using pl by (auto simp: curves_ok_def Let_def)
  note curves = geo(2) [OF ab(1,3)] geo(2) [OF ab(2,4)]
  note parts = geo(3,4,5) [OF ab(1)] geo(3,4,5) [OF ab(2)]
  have not_line: "is_round (Some Line) = False" "is_oval (Some Line) = False"
    by (simp_all add: is_round_def is_oval_def)
  show ?thesis
  proof (cases "pl_map pl = AngleViaPoint")
    case True
    with pl geo(1) [of "pl_p pl"] geo(7) [OF ab(1,3), of "pl_end_a pl"] geo(7) [OF ab(2,4), of "pl_end_b pl"] aux
    show ?thesis
      by (auto simp: add_curves_def Let_def curves_ok_def plan_unknowns_def own_aux_def aux_needed_def
          intro!: row_effects)
  next
    case False
    with pl curves parts not_line show ?thesis
      by (cases "pl_map pl")
        (auto simp: add_curves_def Let_def curves_ok_def plan_unknowns_def intro!: row_effects)
  qed
qed

lemma curve_kinds: "is_oval k \<Longrightarrow> k \<noteq> Some Point" "is_round k \<Longrightarrow> k \<noteq> Some Point"
  by (auto simp: is_oval_def is_round_def)

lemma add_equal_effect:
  assumes ok: "sketch_ok t roles splines" and NP: "n_params t \<le> N" and pl: "plan_ok t splines pl"
    and kind: "pl_kind pl = Equal"
  shows "row_effect N (own_aux pl) tag (plan_unknowns pl) b (add_equal (build_geometry t splines) tag pl b)"
proof -
  note geo = geometry_in [OF ok NP]
  have ab: "is_row t (pl_a pl)" "is_row t (pl_b pl)" using pl kind by (auto simp: plan_ok_def Let_def)
  from pl kind geo(2,3,5) [OF ab(1)] geo(2,3,5) [OF ab(2)] show ?thesis
    by (auto simp: add_equal_def Let_def plan_ok_def plan_unknowns_def curve_kinds intro!: row_effects)
qed

lemma add_collinear_effect:
  assumes ok: "sketch_ok t roles splines" and NP: "n_params t \<le> N" and pl: "plan_ok t splines pl"
    and kind: "pl_kind pl = Collinear"
  shows "row_effect N (own_aux pl) tag (plan_unknowns pl) b (add_collinear (build_geometry t splines) tag pl b)"
proof -
  note geo = geometry_in [OF ok NP]
  have ab: "is_row t (pl_a pl)" "is_row t (pl_b pl)" "kind_of t (pl_a pl) = Some Line"
    "kind_of t (pl_b pl) = Some Line"
    using pl kind by (auto simp: plan_ok_def two_lines_ok_def Let_def)
  obtain p1 p2 where "as_line (curve_at (build_geometry t splines) (pl_b pl)) = GLn p1 p2"
    by (cases "as_line (curve_at (build_geometry t splines) (pl_b pl))") auto
  with pl kind geo(3) [OF ab(1,3)] geo(3) [OF ab(2,4)] show ?thesis
    by (auto simp: add_collinear_def Let_def plan_ok_def plan_unknowns_def intro!: row_effects)
qed

lemma add_midpoint_effect:
  assumes ok: "sketch_ok t roles splines" and NP: "n_params t \<le> N" and pl: "plan_ok t splines pl"
    and kind: "pl_kind pl = Midpoint" and aux: "pl_aux pl + aux_needed pl \<le> N"
  shows "row_effect N (own_aux pl) tag (plan_unknowns pl) b (add_midpoint tk (build_geometry t splines) tag pl b)"
proof -
  note geo = geometry_in [OF ok NP]
  have ab: "is_point t (pl_a pl)" "is_row t (pl_b pl)" using pl kind by (auto simp: plan_ok_def Let_def)
  obtain a0 a1 where angles: "arc_angles (curve_at (build_geometry t splines) (pl_b pl)) = (a0, a1)"
    by fastforce
  show ?thesis
  proof (cases "pl_map pl = MidpointLine")
    case True
    with pl kind geo(1) [OF ab(1)] geo(3) [OF ab(2)] show ?thesis
      by (auto simp: add_midpoint_def Let_def plan_ok_def plan_unknowns_def intro!: row_effects)
  next
    case False
    with pl kind have arc: "pl_map pl = MidpointArc" "kind_of t (pl_b pl) = Some Arc \<or> kind_of t (pl_b pl) = Some EllipticArc"
      by (auto simp: plan_ok_def Let_def)
    with geo(1) [OF ab(1)] geo(2) [OF ab(2)] geo(6) [OF ab(2)] aux show ?thesis
      by (auto simp: add_midpoint_def Let_def angles plan_unknowns_def own_aux_def aux_needed_def
          intro!: row_effects)
  qed
qed

lemma hold_params_effect:
  "(\<forall>(a, i) \<in> set ais. a \<in> own \<and> a < N \<and> i < N) \<Longrightarrow> row_effect N own tag us b0 b \<Longrightarrow>
   row_effect N own tag us b0 (fold (hold_param tag) ais b)"
proof (induction ais arbitrary: b)
  case (Cons ai ais)
  then have "row_effect N own tag us b0 (hold_param tag ai b)"
    by (auto simp: hold_param_def intro!: row_effects)
  with Cons show ?case by simp
qed simp

lemma add_rigid_effect:
  assumes NP: "n_params t \<le> N" and pl: "plan_ok t splines pl"
    and kind: "pl_kind pl = Rigid" and aux: "pl_aux pl + aux_needed pl \<le> N"
  shows "row_effect N (own_aux pl) tag (plan_unknowns pl) b (add_rigid_row tag pl b)"
proof -
  have own: "pl_map pl = RigidParams" "\<forall>i \<in> set (pl_rigid pl). i < n_params t"
    using pl kind by (auto simp: plan_ok_def Let_def)
  have "a \<in> own_aux pl \<and> a < N \<and> i < N"
    if "(a, i) \<in> set (zip [pl_aux pl..<pl_aux pl + length (pl_rigid pl)] (pl_rigid pl))" for a i
    using set_zip_leftD [OF that] set_zip_rightD [OF that] own NP aux
    by (auto simp: own_aux_def aux_needed_def intro: order_less_le_trans)
  then show ?thesis using own(1)
    unfolding add_rigid_row_def by (intro hold_params_effect) (auto simp: plan_unknowns_def)
qed

lemma add_internal_effect:
  assumes ok: "sketch_ok t roles splines" and NP: "n_params t \<le> N" and pl: "plan_ok t splines pl"
    and kind: "pl_kind pl = InternalCoincident"
  shows "row_effect N (own_aux pl) tag (plan_unknowns pl) b (add_internal (build_geometry t splines) tag pl b)"
proof -
  note geo = geometry_in [OF ok NP]
  have ab: "is_row t (pl_a pl)" "is_point t (pl_b pl)" using pl kind by (auto simp: plan_ok_def Let_def)
  note p = geo(1) [OF ab(2)]
  show ?thesis
  proof (cases "pl_map pl = InternalEllipse")
    case True
    then have "kind_of t (pl_a pl) \<noteq> Some Point"
      using pl kind by (auto simp: plan_ok_def Let_def is_oval_def)
    with True p geo(2) [OF ab(1)] show ?thesis
      by (auto simp: add_internal_def Let_def plan_unknowns_def intro!: row_effects)
  next
    case False
    with pl kind obtain sp where spl: "kind_of t (pl_a pl) = Some BSpline" "splines (nat (pl_a pl)) = Some sp"
      and m: "(pl_map pl = InternalPole \<and> nat (pl_index pl) < length (sp_poles sp)) \<or> pl_map pl = InternalKnot"
      by (auto simp: plan_ok_def Let_def)
    have sp: "spline_ok t sp" using sketch_ok_spline [OF ok ab(1) spl(1)] spl(2) by simp
    have pole: "in_store N (point_ptrs (map (pt t) (sp_poles sp) ! nat (pl_index pl)))"
      if "nat (pl_index pl) < length (sp_poles sp)"
      using that sp in_store_mono [OF pt_in [OF ok] NP] by (simp add: spline_ok_def)
    obtain px py where xy: "point_at (build_geometry t splines) (pl_b pl) = GPt px py"
      by (cases "point_at (build_geometry t splines) (pl_b pl)") auto
    obtain x y where pole_xy: "map (pt t) (sp_poles sp) ! nat (pl_index pl) = GPt x y"
      by (cases "map (pt t) (sp_poles sp) ! nat (pl_index pl)") auto
    from m False spl p pole geo(2) [OF ab(1)] show ?thesis
      by (auto simp: add_internal_def Let_def poles_shape [OF ok ab(1) spl(2,1)] xy pole_xy plan_unknowns_def
          simp del: nth_map intro!: row_effects)
  qed
qed

lemma add_row_effect:
  assumes ok: "sketch_ok t roles splines" and N: "n_params t + n_constraints t \<le> N"
    and row: "row < n_constraints t" and pl: "plan_ok t splines pl"
    and aux: "pl_aux pl + aux_needed pl \<le> N"
  shows "row_effect N (own_aux pl) (int row + 1) (plan_unknowns pl) b
    (add_row tk t splines (build_geometry t splines) (row, pl) b)"
proof -
  have NP: "n_params t \<le> N" using N by simp
  have v: "\<exists>i < N. Some (n_params t + row) = Some i" using N row by auto
  note geo = geometry_in [OF ok NP]
  obtain p1 p2 where la: "as_line (curve_at (build_geometry t splines) (pl_a pl)) = GLn p1 p2"
    by (cases "as_line (curve_at (build_geometry t splines) (pl_a pl))") auto
  note lines = geo(3) [of "pl_a pl"] geo(3) [of "pl_b pl"] geo(3) [of "pl_p pl"] geo(2) [of "pl_a pl"]
    geo(1) [of "pl_a pl"] geo(1) [of "pl_b pl"]
  show ?thesis
    using pl add_coincident_effect [OF ok N row pl _ aux] add_curves_effect [OF ok NP _ aux]
      add_equal_effect [OF ok NP pl] add_collinear_effect [OF ok NP pl] add_midpoint_effect [OF ok NP pl _ aux]
      add_rigid_effect [OF NP pl _ aux] add_internal_effect [OF ok NP pl]
  proof (cases "pl_kind pl")
  qed (use pl lines v la curve_kinds in \<open>auto simp: add_row_def Let_def plan_ok_def two_lines_ok_def plan_unknowns_def intro!: row_effects\<close>)
qed

end
