(* ===== verification/SketchSystem.thy ===== *)
theory SketchSystem
  imports SketchBuildFacts
begin

text \<open>
  The system built from an accepted sketch: the layout of the buffer, the calls of all rows and
  the list of unknowns.
\<close>

section \<open>Layout\<close>

lemma aux_needed_aux [simp]: "aux_needed (pl\<lparr>pl_aux := a\<rparr>) = aux_needed pl"
  by (cases pl, hypsubst, unfold aux_needed_def plan.select_convs plan.update_convs, rule refl)

lemma plan_ok_aux [simp]: "plan_ok t splines (pl\<lparr>pl_aux := a\<rparr>) = plan_ok t splines pl"
  by (cases pl, hypsubst, unfold plan_ok_def curves_ok_def two_lines_ok_def Let_def plan.select_convs
      plan.update_convs, rule refl)

lemma own_aux_aux [simp]: "own_aux (pl\<lparr>pl_aux := a\<rparr>) = {a..<a + aux_needed pl}"
  by (simp add: own_aux_def)

lemma assign_aux_Cons [simp]:
  "fst (assign_aux a (pl # plans)) = pl\<lparr>pl_aux := a\<rparr> # fst (assign_aux (a + pl_aux_count pl) plans)"
  "snd (assign_aux a (pl # plans)) = snd (assign_aux (a + pl_aux_count pl) plans)"
  by (simp_all add: Let_def split: prod.splits)

declare assign_aux.simps(2) [simp del]

lemma assign_aux_end [simp]: "snd (assign_aux a plans) = a + sum_list (map pl_aux_count plans)"
  by (induction plans arbitrary: a) auto

lemma length_assign_aux [simp]: "length (fst (assign_aux a plans)) = length plans"
  by (induction plans arbitrary: a) auto

text \<open>The auxiliary scalars of the plans follow one another.\<close>

fun stacked :: "nat \<Rightarrow> plan list \<Rightarrow> bool" where
  "stacked a [] = True"
| "stacked a (pl # plans) = (pl_aux pl = a \<and> stacked (a + aux_needed pl) plans)"

lemma stacked_assign_aux:
  "map pl_aux_count plans = map aux_needed plans \<Longrightarrow> stacked a (fst (assign_aux a plans))"
  by (induction plans arbitrary: a) auto

lemma assign_aux_mem:
  "pl \<in> set (fst (assign_aux a plans)) \<Longrightarrow> \<exists>pl0 \<in> set plans. \<exists>x. pl = pl0\<lparr>pl_aux := x\<rparr>"
proof (induction plans arbitrary: a)
  case (Cons p plans)
  from Cons.prems consider "pl = p\<lparr>pl_aux := a\<rparr>"
    | "pl \<in> set (fst (assign_aux (a + pl_aux_count p) plans))" by auto
  then show ?case
  proof cases
    case 1
    then show ?thesis by (intro bexI [of _ p] exI [of _ a]) simp_all
  next
    case 2
    from Cons.IH [OF this] obtain pl0 x where "pl0 \<in> set plans" "pl = pl0\<lparr>pl_aux := x\<rparr>" by blast
    then show ?thesis by (intro bexI [of _ pl0] exI [of _ x]) simp_all
  qed
qed simp

lemma assign_aux_nth:
  "i < length plans \<Longrightarrow> fst (assign_aux a plans) ! i =
     (plans ! i)\<lparr>pl_aux := a + sum_list (map pl_aux_count (take i plans))\<rparr>"
proof (induction plans arbitrary: a i)
  case (Cons p plans)
  show ?case
  proof (cases i)
    case (Suc j)
    then show ?thesis using Cons.IH [of j "a + pl_aux_count p"] Cons.prems by (simp add: add.assoc)
  qed simp
qed simp

lemma stacked_bounds:
  "stacked a plans \<Longrightarrow> pl \<in> set plans \<Longrightarrow>
   a \<le> pl_aux pl \<and> pl_aux pl + aux_needed pl \<le> a + sum_list (map aux_needed plans)"
proof (induction plans arbitrary: a)
  case (Cons p plans)
  have "stacked (a + aux_needed p) plans" "pl_aux p = a" using Cons.prems by auto
  with Cons.IH [OF this(1)] Cons.prems(2) show ?case by (cases "pl = p") auto
qed simp

text \<open>The unknowns the plans declare are ascending and lie in the stack.\<close>

definition plans_unknowns :: "plan list \<Rightarrow> nat list" where
  "plans_unknowns plans = concat (map plan_unknowns plans)"

lemma plan_unknowns_own: "set (plan_unknowns pl) \<subseteq> own_aux pl"
  by (auto simp: plan_unknowns_def own_aux_def aux_needed_def split: mapping.splits)

lemma plan_unknowns_sorted: "sorted_wrt (<) (plan_unknowns pl)"
  by (auto simp: plan_unknowns_def split: mapping.splits)

lemma plans_unknowns_stacked:
  "stacked a plans \<Longrightarrow> sorted_wrt (<) (plans_unknowns plans) \<and>
   set (plans_unknowns plans) \<subseteq> {a..<a + sum_list (map aux_needed plans)}"
proof (induction plans arbitrary: a)
  case (Cons pl plans)
  let ?rest = "plans_unknowns plans" and ?top = "a + aux_needed pl + sum_list (map aux_needed plans)"
  from Cons have sorted: "sorted_wrt (<) ?rest" and rest: "set ?rest \<subseteq> {a + aux_needed pl..<?top}"
    by auto
  have own: "set (plan_unknowns pl) \<subseteq> {a..<a + aux_needed pl}"
    using plan_unknowns_own [of pl] Cons.prems by (simp add: own_aux_def)
  have "x < y" if "x \<in> set (plan_unknowns pl)" "y \<in> set ?rest" for x y
    using subsetD [OF own that(1)] subsetD [OF rest that(2)] by simp
  then have "sorted_wrt (<) (plan_unknowns pl @ ?rest)"
    using sorted plan_unknowns_sorted [of pl] by (simp add: sorted_wrt_append)
  moreover have "set (plan_unknowns pl @ ?rest) \<subseteq> {a..<?top}"
    using order_trans [OF own, of "{a..<?top}"] order_trans [OF rest, of "{a..<?top}"] by simp
  ultimately show ?case by (simp add: plans_unknowns_def add.assoc)
qed (simp add: plans_unknowns_def)

section \<open>Effects of many steps\<close>

definition effect :: "nat \<Rightarrow> nat set \<Rightarrow> int set \<Rightarrow> nat list \<Rightarrow> build \<Rightarrow> build \<Rightarrow> bool" where
  "effect N own tags us b b' =
     (length (b_store b') = length (b_store b) \<and>
      (\<forall>i. i \<notin> own \<longrightarrow> b_store b' ! i = b_store b ! i) \<and>
      b_aux_unknowns b' = b_aux_unknowns b @ us \<and>
      (\<exists>calls. b_calls b' = b_calls b @ calls \<and>
         (\<forall>(c, tag) \<in> set calls. in_store N (call_ptrs c) \<and> tag \<in> tags) \<and>
         (if calls = [] then b_added b' = b_added b else b_added b < b_added b')))"

lemma effect_refl [simp]: "effect N own tags [] b b"
  by (auto simp: effect_def)

lemma row_effect_effect: "row_effect N own tag us b b' \<Longrightarrow> effect N own {tag} us b b'"
  unfolding row_effect_def effect_def by (elim conjE exE, intro conjI exI, assumption+) (auto split: if_splits)

lemma effect_trans:
  assumes "effect N own1 tags1 us b b1" and "effect N own2 tags2 vs b1 b2"
  shows "effect N (own1 \<union> own2) (tags1 \<union> tags2) (us @ vs) b b2"
proof -
  from assms obtain c1 c2 where
    "b_calls b1 = b_calls b @ c1" "\<forall>(c, tag) \<in> set c1. in_store N (call_ptrs c) \<and> tag \<in> tags1"
    "if c1 = [] then b_added b1 = b_added b else b_added b < b_added b1"
    "b_calls b2 = b_calls b1 @ c2" "\<forall>(c, tag) \<in> set c2. in_store N (call_ptrs c) \<and> tag \<in> tags2"
    "if c2 = [] then b_added b2 = b_added b1 else b_added b1 < b_added b2"
    unfolding effect_def by blast
  then have "\<exists>calls. b_calls b2 = b_calls b @ calls \<and>
      (\<forall>(c, tag) \<in> set calls. in_store N (call_ptrs c) \<and> tag \<in> tags1 \<union> tags2) \<and>
      (if calls = [] then b_added b2 = b_added b else b_added b < b_added b2)"
    by (intro exI [of _ "c1 @ c2"]) (auto split: if_splits)
  with assms show ?thesis by (simp add: effect_def)
qed

lemma effect_mono:
  assumes "effect N own tags us b b'" and "own \<subseteq> own'" and "tags \<subseteq> tags'"
  shows "effect N own' tags' us b b'"
  using assms unfolding effect_def by blast

lemma add_rules_effect:
  assumes "\<And>c. g = GeoCurve c \<Longrightarrow> in_store N (curve_ptrs c)"
  shows "effect N {} {0} [] b (add_rules g b)"
proof (cases g)
  case (GeoCurve c)
  with assms have "in_store N (curve_ptrs c)" by blast
  then have "row_effect N {} 0 [] b (add_rules g b)"
    by (cases c) (auto simp: GeoCurve add_rules_def intro!: row_effects)
  then show ?thesis by (rule row_effect_effect)
qed (simp add: add_rules_def)

lemma add_entity_rules_effect:
  assumes ok: "sketch_ok t roles splines" and N: "n_params t \<le> N"
  shows "effect N {} {0} [] b (add_entity_rules (build_geometry t splines) b)"
proof -
  have curves: "in_store N (curve_ptrs c)" if "GeoCurve c \<in> set (build_geometry t splines)" for c
    using that in_store_mono [OF build_curve_in [OF ok] N]
    by (auto simp: build_geometry_def split: if_splits)
  have "effect N {} {0} [] b (fold add_rules geo b)" if "set geo \<subseteq> set (build_geometry t splines)" for geo
    using that
  proof (induction geo arbitrary: b)
    case (Cons g geo)
    have "effect N {} {0} [] b (add_rules g b)"
      using Cons.prems curves by (intro add_rules_effect) auto
    from effect_trans [OF this Cons.IH] Cons.prems show ?case by simp
  qed simp
  then show ?thesis by (simp add: add_entity_rules_def)
qed

lemma add_rows_effect:
  assumes ok: "sketch_ok t roles splines" and N: "n_params t + n_constraints t \<le> N"
  shows "\<forall>(row, pl) \<in> set rps. row < n_constraints t \<and> plan_ok t splines pl \<and> pl_aux pl + aux_needed pl \<le> N \<Longrightarrow>
    effect N (\<Union>(row, pl) \<in> set rps. own_aux pl) ((\<lambda>(row, pl). int row + 1) ` set rps)
      (plans_unknowns (map snd rps)) b (fold (add_row tk t splines (build_geometry t splines)) rps b)"
proof (induction rps arbitrary: b)
  case (Cons rp rps)
  obtain row pl where rp: "rp = (row, pl)" by (cases rp)
  let ?b = "add_row tk t splines (build_geometry t splines) (row, pl) b"
  have "effect N (own_aux pl) {int row + 1} (plan_unknowns pl) b ?b"
    using Cons.prems by (intro row_effect_effect add_row_effect [OF ok N]) (auto simp: rp)
  from effect_trans [OF this Cons.IH] Cons.prems show ?case
    by (simp add: rp plans_unknowns_def)
qed (simp add: plans_unknowns_def)

section \<open>The system of a sketch\<close>

text \<open>The checks of the sketch, as the solver runs them.\<close>

definition accepted :: "occt2d \<Rightarrow> tables \<Rightarrow> nat list \<Rightarrow> (nat \<rightharpoonup> spline) \<Rightarrow> plan list \<Rightarrow> bool" where
  "accepted oc t roles splines plans =
     (check_entities oc t = Inr (roles, splines) \<and> check_constraints t splines = Inr plans)"

definition laid_out :: "tables \<Rightarrow> plan list \<Rightarrow> plan list" where
  "laid_out t plans = fst (assign_aux (n_params t + n_constraints t) plans)"

definition scalars :: "tables \<Rightarrow> plan list \<Rightarrow> nat" where
  "scalars t plans = n_params t + n_constraints t + sum_list (map aux_needed plans)"

lemma accepted_facts:
  assumes "accepted oc t roles splines plans"
  shows "sketch_ok t roles splines" and "length plans = n_constraints t"
    and "map pl_aux_count plans = map aux_needed plans"
    and "\<And>row. row < n_constraints t \<Longrightarrow> plan_ok t splines (plans ! row)"
    and "\<And>row. row < n_constraints t \<Longrightarrow> con_kind_at t row = Some (pl_kind (plans ! row))"
proof -
  from assms show ok: "sketch_ok t roles splines" by (auto simp: accepted_def intro: check_entities_ok)
  from assms have "check_constraints t splines = Inr plans" by (simp add: accepted_def)
  note good = check_constraints_good [OF this ok]
  from good show len: "length plans = n_constraints t" by blast
  from good show "map pl_aux_count plans = map aux_needed plans"
    by (intro nth_equalityI) (auto simp: len)
  from good show "\<And>row. row < n_constraints t \<Longrightarrow> plan_ok t splines (plans ! row)"
    and "\<And>row. row < n_constraints t \<Longrightarrow> con_kind_at t row = Some (pl_kind (plans ! row))"
    by blast+
qed

lemma laid_out_facts:
  assumes "accepted oc t roles splines plans"
  shows "stacked (n_params t + n_constraints t) (laid_out t plans)"
    and "length (laid_out t plans) = n_constraints t"
    and "map aux_needed (laid_out t plans) = map aux_needed plans"
    and "row < n_constraints t \<Longrightarrow> laid_out t plans ! row =
      (plans ! row)\<lparr>pl_aux := n_params t + n_constraints t + sum_list (map aux_needed (take row plans))\<rparr>"
proof -
  note facts = accepted_facts [OF assms]
  show "stacked (n_params t + n_constraints t) (laid_out t plans)"
    using facts(3) unfolding laid_out_def by (rule stacked_assign_aux)
  show len: "length (laid_out t plans) = n_constraints t" by (simp add: laid_out_def facts(2))
  show nth: "laid_out t plans ! row =
      (plans ! row)\<lparr>pl_aux := n_params t + n_constraints t + sum_list (map aux_needed (take row plans))\<rparr>"
    if "row < n_constraints t" for row
  proof -
    have "map pl_aux_count (take row plans) = map aux_needed (take row plans)"
      using arg_cong [OF facts(3), of "take row"] by (simp only: take_map)
    with assign_aux_nth [of row plans] that facts(2) show ?thesis
      by (simp add: laid_out_def del: map_eq_conv)
  qed
  show "map aux_needed (laid_out t plans) = map aux_needed plans"
    using nth by (intro nth_equalityI) (auto simp: len facts(2))
qed

lemma build_system_effect:
  assumes "accepted oc t roles splines plans" and vals: "length (t_values t) = n_constraints t"
  shows "\<exists>b0. b_store b0 = t_params t @ t_values t @ replicate (sum_list (map aux_needed plans)) f0 \<and>
      b_calls b0 = [] \<and> b_aux_unknowns b0 = [] \<and> b_added b0 = 0 \<and>
      effect (scalars t plans) {n_params t + n_constraints t..<scalars t plans}
        ({0} \<union> {1..int (n_constraints t)}) (plans_unknowns (laid_out t plans)) b0
        (build_system tk t splines plans)"
proof -
  note facts = accepted_facts [OF assms(1)]
  note out = laid_out_facts [OF assms(1)]
  let ?N = "scalars t plans" and ?ps = "laid_out t plans" and ?geo = "build_geometry t splines"
  let ?rps = "zip [0..<length ?ps] ?ps"
  let ?b0 = "\<lparr>b_store = start_store t ?N, b_calls = [], b_aux_unknowns = [], b_added = 0\<rparr>"
  let ?b1 = "add_entity_rules ?geo ?b0"
  have split: "assign_aux (n_params t + n_constraints t) plans = (?ps, ?N)"
    using assign_aux_end [of "n_params t + n_constraints t" plans] facts(3)
    by (simp add: laid_out_def scalars_def prod_eq_iff del: map_eq_conv)
  have built: "build_system tk t splines plans = fold (add_row tk t splines ?geo) ?rps ?b1"
    by (simp add: build_system_def split add_rows_def Let_def)
  have N: "n_params t + n_constraints t \<le> ?N" "n_params t \<le> ?N" by (simp_all add: scalars_def)
  have inside: "n_params t + n_constraints t \<le> pl_aux pl \<and> pl_aux pl + aux_needed pl \<le> ?N"
    if "pl \<in> set ?ps" for pl
    using stacked_bounds [OF out(1) that] out(3) by (simp add: scalars_def)
  have rows: "row < n_constraints t \<and> plan_ok t splines pl \<and> pl \<in> set ?ps" if "(row, pl) \<in> set ?rps" for row pl
    using that facts(4) out(2,4) set_zip_rightD [OF that] by (auto simp: set_zip)
  have e1: "effect ?N {} {0} [] ?b0 ?b1" by (rule add_entity_rules_effect [OF facts(1) N(2)])
  have e2: "effect ?N (\<Union>(row, pl) \<in> set ?rps. own_aux pl) ((\<lambda>(row, pl). int row + 1) ` set ?rps)
      (plans_unknowns (map snd ?rps)) ?b1 (build_system tk t splines plans)"
    unfolding built using rows inside by (intro add_rows_effect [OF facts(1) N(1)]) auto
  have own: "(\<Union>(row, pl) \<in> set ?rps. own_aux pl) \<subseteq> {n_params t + n_constraints t..<?N}"
    using rows inside by (fastforce simp: own_aux_def)
  have tags: "(\<lambda>(row, pl). int row + 1) ` set ?rps \<subseteq> {1..int (n_constraints t)}"
    using rows by fastforce
  have snds: "map snd ?rps = ?ps" by simp
  have "effect ?N {n_params t + n_constraints t..<?N} ({0} \<union> {1..int (n_constraints t)})
      ([] @ plans_unknowns ?ps) ?b0 (build_system tk t splines plans)"
    using own tags
    by (intro effect_mono [OF effect_trans [OF e1 e2 [unfolded snds]]] Un_mono) simp_all
  then show ?thesis
    by (intro exI [of _ ?b0]) (simp add: start_store_def scalars_def)
qed

lemma build_system_facts:
  assumes "accepted oc t roles splines plans" and vals: "length (t_values t) = n_constraints t"
    and b: "b = build_system tk t splines plans"
  shows "length (b_store b) = scalars t plans"
    and "take (n_params t + n_constraints t) (b_store b) = t_params t @ t_values t"
    and "\<forall>(c, tag) \<in> set (b_calls b). in_store (scalars t plans) (call_ptrs c) \<and>
      0 \<le> tag \<and> tag \<le> int (n_constraints t)"
    and "b_aux_unknowns b = plans_unknowns (laid_out t plans)"
    and "b_added b = 0 \<longleftrightarrow> b_calls b = []"
proof -
  let ?N = "scalars t plans" and ?M = "n_params t + n_constraints t"
  from build_system_effect [OF assms(1,2), where tk = tk] obtain b0 where
    b0: "b_store b0 = t_params t @ t_values t @ replicate (sum_list (map aux_needed plans)) f0"
      "b_calls b0 = []" "b_aux_unknowns b0 = []" "b_added b0 = 0"
    and e: "effect ?N {?M..<?N} ({0} \<union> {1..int (n_constraints t)}) (plans_unknowns (laid_out t plans)) b0 b"
    unfolding b by blast
  have len0: "length (b_store b0) = ?N" using vals by (simp add: b0 scalars_def n_params_def)
  from e have e': "length (b_store b) = length (b_store b0)"
    "\<And>i. i \<notin> {?M..<?N} \<Longrightarrow> b_store b ! i = b_store b0 ! i"
    "b_aux_unknowns b = b_aux_unknowns b0 @ plans_unknowns (laid_out t plans)"
    and "\<exists>calls. b_calls b = b_calls b0 @ calls \<and>
      (\<forall>(c, tag) \<in> set calls. in_store ?N (call_ptrs c) \<and> tag \<in> {0} \<union> {1..int (n_constraints t)}) \<and>
      (if calls = [] then b_added b = b_added b0 else b_added b0 < b_added b)"
    unfolding effect_def by blast+
  then obtain calls where calls: "b_calls b = calls"
    "\<forall>(c, tag) \<in> set calls. in_store ?N (call_ptrs c) \<and> tag \<in> {0} \<union> {1..int (n_constraints t)}"
    "if calls = [] then b_added b = 0 else 0 < b_added b"
    unfolding b0(2,4) append_Nil by blast
  from e'(1) show "length (b_store b) = ?N" by (simp only: len0)
  have head: "take ?M (b_store b0) = t_params t @ t_values t"
    using vals by (simp add: b0 n_params_def)
  have "take ?M (b_store b) = take ?M (b_store b0)"
    using e'(1,2) by (intro nth_take_lemma) (simp_all add: len0 scalars_def)
  then show "take ?M (b_store b) = t_params t @ t_values t" by (simp only: head)
  show "\<forall>(c, tag) \<in> set (b_calls b). in_store ?N (call_ptrs c) \<and> 0 \<le> tag \<and> tag \<le> int (n_constraints t)"
    using calls(2) by (fastforce simp: calls(1))
  show "b_aux_unknowns b = plans_unknowns (laid_out t plans)" using e'(3) b0(3) by simp
  show "b_added b = 0 \<longleftrightarrow> b_calls b = []" using calls(1,3) by (auto split: if_splits)
qed

lemma laid_out_unknowns:
  assumes "accepted oc t roles splines plans"
  shows "sorted_wrt (<) (plans_unknowns (laid_out t plans))"
    and "set (plans_unknowns (laid_out t plans)) \<subseteq> {n_params t + n_constraints t..<scalars t plans}"
  using plans_unknowns_stacked [OF laid_out_facts(1) [OF assms]] laid_out_facts(3) [OF assms]
  by (simp_all add: scalars_def)

lemma sort_ascending: "sorted_wrt (<) (xs :: nat list) \<Longrightarrow> sort xs = xs"
  by (simp add: sorted_sort_id strict_sorted_iff)

lemma unknowns_of_accepted:
  assumes "accepted oc t roles splines plans" and "length (t_values t) = n_constraints t"
    and "b = build_system tk t splines plans"
  shows "unknowns_of t roles b =
    filter (\<lambda>i. i \<in> moving t splines \<and> \<not> t_fixed t ! i) [0..<n_params t] @ plans_unknowns (laid_out t plans)"
proof -
  have rt: "role_table (n_params t) (moving t splines) (knots_of splines) roles"
    using accepted_facts(1) [OF assms(1)] by (simp add: sketch_ok_def)
  then have "roles ! i = 1 \<longleftrightarrow> i \<in> moving t splines" if "i < n_params t" for i
    using that by (auto simp: role_table_def)
  then have "filter (\<lambda>i. roles ! i = 1 \<and> \<not> t_fixed t ! i) [0..<n_params t] =
      filter (\<lambda>i. i \<in> moving t splines \<and> \<not> t_fixed t ! i) [0..<n_params t]"
    by (intro filter_cong) auto
  then show ?thesis
    using build_system_facts(4) [OF assms] sort_ascending [OF laid_out_unknowns(1) [OF assms(1)]]
    by (simp add: unknowns_of_def)
qed

section \<open>Rows that reach the solver\<close>

lemma added_simps [simp]:
  "b_added (emit tag calls k b) = b_added b + k" "b_added (put i v b) = b_added b"
  "b_added (unknown i b) = b_added b"
  by (simp_all add: emit_def put_def unknown_def)

lemma added_hold_params [simp]:
  "b_added (fold (hold_param tag) ais b) = b_added b + length ais"
  by (induction ais arbitrary: b) (simp_all add: hold_param_def)

text \<open>A row counts a constraint, unless it holds an entity whose parameters are all fixed.\<close>

definition speaks :: "plan \<Rightarrow> bool" where
  "speaks pl = (pl_map pl \<noteq> RigidParams \<or> pl_rigid pl \<noteq> [])"

lemma add_row_counts:
  assumes ok: "sketch_ok t roles splines" and pl: "plan_ok t splines pl" and "speaks pl"
  shows "b_added b < b_added (add_row tk t splines geo (row, pl) b)"
proof (cases "pl_kind pl = Coincident \<or> pl_kind pl = Distance")
  case True
  then have b: "is_row t (pl_b pl)" using pl by (auto simp: plan_ok_def Let_def)
  have "kind_of t (pl_b pl) \<noteq> None" using sketch_ok_row [OF ok b] by (simp add: row_ok_def kind_of_def)
  then obtain k where k: "kind_of t (pl_b pl) = Some k" by blast
  show ?thesis
  proof (cases "k = BSpline")
    case spl: True
    then show ?thesis using sketch_ok_spline [OF ok b] k True pl
      by (auto simp: add_row_def add_coincident_def Let_def plan_ok_def)
  next
    case False
    then show ?thesis using k True pl
      by (cases k) (auto simp: add_row_def add_coincident_def Let_def plan_ok_def)
  qed
next
  case False
  show ?thesis
  proof (cases "pl_kind pl = Tangent \<or> pl_kind pl = Perpendicular")
    case True
    then have "curves_ok t pl" using pl by (auto simp: plan_ok_def Let_def)
    with True show ?thesis
      by (cases "pl_map pl") (auto simp: add_row_def add_curves_def Let_def curves_ok_def)
  next
    case other: False
    then show ?thesis using False pl \<open>speaks pl\<close>
      by (cases "pl_kind pl")
        (auto simp: add_row_def plan_ok_def Let_def add_equal_def add_collinear_def add_midpoint_def
          add_rigid_row_def add_internal_def speaks_def split: gline.split gpoint.split prod.split)
  qed
qed

lemma row_effect_speaks:
  assumes "row_effect N own tag us b b'" and "b_added b < b_added b'"
  shows "\<exists>c. (c, tag) \<in> set (b_calls b')"
proof -
  from assms(1) obtain calls where calls: "b_calls b' = b_calls b @ map (\<lambda>c. (c, tag)) calls"
    and count: "if calls = [] then b_added b' = b_added b else b_added b < b_added b'"
    unfolding row_effect_def by blast
  have "calls \<noteq> []" using count assms(2) by (cases "calls = []") simp_all
  then have "hd calls \<in> set calls" by simp
  then show ?thesis by (intro exI [of _ "hd calls"]) (simp add: calls)
qed

lemma effect_calls: "effect N own tags us b b' \<Longrightarrow> set (b_calls b) \<subseteq> set (b_calls b')"
  by (auto simp: effect_def)

lemma rows_speak:
  assumes ok: "sketch_ok t roles splines" and N: "n_params t + n_constraints t \<le> N"
  shows "\<forall>(row, pl) \<in> set rps. row < n_constraints t \<and> plan_ok t splines pl \<and> pl_aux pl + aux_needed pl \<le> N \<Longrightarrow>
    (row, pl) \<in> set rps \<Longrightarrow> speaks pl \<Longrightarrow>
    \<exists>c. (c, int row + 1) \<in> set (b_calls (fold (add_row tk t splines (build_geometry t splines)) rps b))"
proof (induction rps arbitrary: b)
  case (Cons rp rps)
  let ?f = "add_row tk t splines (build_geometry t splines)"
  show ?case
  proof (cases "rp = (row, pl)")
    case True
    then have now: "row < n_constraints t" "plan_ok t splines pl" "pl_aux pl + aux_needed pl \<le> N"
      using Cons.prems(1) by auto
    from row_effect_speaks [OF add_row_effect [OF ok N now] add_row_counts [OF ok now(2) Cons.prems(3)]]
    obtain c where "(c, int row + 1) \<in> set (b_calls (?f rp b))" unfolding True by blast
    moreover have "effect N (\<Union>(row, pl) \<in> set rps. own_aux pl) ((\<lambda>(row, pl). int row + 1) ` set rps)
        (plans_unknowns (map snd rps)) (?f rp b) (fold ?f rps (?f rp b))"
      using Cons.prems(1) by (intro add_rows_effect [OF ok N]) simp
    ultimately show ?thesis using effect_calls by fastforce
  next
    case False
    then have "(row, pl) \<in> set rps" using Cons.prems(2) by auto
    from Cons.IH [OF _ this Cons.prems(3), of "?f rp b"] Cons.prems(1) show ?thesis by simp
  qed
qed simp

lemma system_speaks:
  assumes acc: "accepted oc t roles splines plans"
    and row: "row < n_constraints t" and speaks: "speaks (plans ! row)"
  shows "\<exists>c. (c, int row + 1) \<in> set (b_calls (build_system tk t splines plans))"
proof -
  note facts = accepted_facts [OF acc]
  note out = laid_out_facts [OF acc]
  let ?N = "scalars t plans" and ?ps = "laid_out t plans"
  have split: "assign_aux (n_params t + n_constraints t) plans = (?ps, ?N)"
    using assign_aux_end [of "n_params t + n_constraints t" plans] facts(3)
    by (simp add: laid_out_def scalars_def prod_eq_iff del: map_eq_conv)
  have N: "n_params t + n_constraints t \<le> ?N" by (simp add: scalars_def)
  have inside: "pl_aux pl + aux_needed pl \<le> ?N" if "pl \<in> set ?ps" for pl
    using stacked_bounds [OF out(1) that] out(3) by (simp add: scalars_def)
  have rows: "row' < n_constraints t \<and> plan_ok t splines pl \<and> pl_aux pl + aux_needed pl \<le> ?N"
    if "(row', pl) \<in> set (zip [0..<length ?ps] ?ps)" for row' pl
    using that facts(4) out(2,4) inside [OF set_zip_rightD [OF that]] by (auto simp: set_zip)
  have "(row, ?ps ! row) \<in> set (zip [0..<length ?ps] ?ps)"
    using row out(2) by (auto simp: set_zip intro!: exI [of _ row])
  moreover have "speaks (?ps ! row)" using speaks out(4) [OF row] by (simp add: speaks_def)
  moreover have "\<forall>(row', pl) \<in> set (zip [0..<length ?ps] ?ps). row' < n_constraints t \<and>
      plan_ok t splines pl \<and> pl_aux pl + aux_needed pl \<le> ?N"
    using rows by blast
  ultimately show ?thesis
    unfolding build_system_def split add_rows_def Let_def prod.case by (intro rows_speak [OF facts(1) N])
qed

end
