(* ===== verification/SketchModel.thy ===== *)
theory SketchModel
  imports SketchSystem
begin

text \<open>
  A sample sketch, on which the properties of the sketch are evaluated: three points, a line, a
  B-spline of two poles, and four constraint rows.
\<close>

definition sample :: tables where
  "sample = \<lparr>t_params = [Fin 0, Fin 0, Fin 1, Fin 0, Fin 2, Fin 1, Fin 1, Fin 1, Fin 0, Fin 1],
     t_entities =
       [1, 0, 1, -1, -1, -1, -1, -1,
        1, 2, 3, -1, -1, -1, -1, -1,
        1, 4, 5, -1, -1, -1, -1, -1,
        2, 0, 1, -1, -1, -1, -1, -1,
        7, 0, 1, 0, 2, -1, -1, -1],
     t_constraints =
       [5, 3, -1, -1, -1,
        11, 3, -1, -1, -1,
        1, 4, 1, -1, -1,
        10, 0, -1, -1, -1],
     t_values = [NaN, Fin 1, NaN, NaN],
     t_fixed = [True, False, False, False, False, False, False, False, False, False],
     t_offsets = [0, 8],
     t_indices = [0, 2, 6, 7, 8, 9, 2, 2]\<rparr>"

definition plain_occt :: occt2d where
  "plain_occt = \<lparr>curve_refusal = (\<lambda>_. None), first_parameter = (\<lambda>_. Fin 0),
     last_parameter = (\<lambda>_. Fin 1), distance_to = (\<lambda>_ _ _. Fin 1), projection = (\<lambda>_ _. None)\<rparr>"

definition plain_tools :: tools where
  "plain_tools = \<lparr>angle_via_point = (\<lambda>_ _ _ _. Fin 0), geom2d = plain_occt, rounded = Fin,
     square_root = (\<lambda>x. x)\<rparr>"

definition sample_splines :: "nat \<rightharpoonup> spline" where
  "sample_splines = (case check_entities plain_occt sample of Inl _ \<Rightarrow> Map.empty | Inr r \<Rightarrow> snd r)"

definition sample_roles :: "nat list" where
  "sample_roles = (case check_entities plain_occt sample of Inl _ \<Rightarrow> [] | Inr r \<Rightarrow> fst r)"

definition sample_plans :: "plan list" where
  "sample_plans = (case check_constraints sample sample_splines of Inl _ \<Rightarrow> [] | Inr ps \<Rightarrow> ps)"

text \<open>
  A stand-in for \<^verbatim>\<open>GCS::System\<close>, whose state is the buffer and the tags of the calls: it sets
  each unknown and reports every tag as redundant.
\<close>

definition shift_at :: "nat list \<Rightarrow> f64 list \<Rightarrow> f64 list" where
  "shift_at us store = fold (\<lambda>i xs. xs[i := Fin 7]) us store"

definition plain_gcs :: "(f64 list \<times> int list) gcs" where
  "plain_gcs = \<lparr>gcs_tools = plain_tools, error_by_tag = (\<lambda>_ _ _. Fin 0),
     declare_unknowns = (\<lambda>_ b us. (shift_at us (b_store b), map snd (b_calls b))),
     diagnose = (\<lambda>_ s. Inr (2, s)), solve_with = (\<lambda>_ s. Inr (Success, s)),
     get_conflicting = (\<lambda>_. []), get_redundant = snd, get_partially_redundant = (\<lambda>_. []),
     applied_store = fst\<rparr>"

definition plain_settings :: settings where
  "plain_settings = \<lparr>st_max_iterations = 100, st_tolerance = Fin (1 / 1000000)\<rparr>"

lemma sample_checks: "\<not> isl (check_entities plain_occt sample)"
  by code_simp

lemma sample_accepts: "\<not> isl (check_constraints sample sample_splines)"
  by code_simp

lemma sample_accepted: "accepted plain_occt sample sample_roles sample_splines sample_plans"
  using sample_checks sample_accepts
  by (auto simp: accepted_def sample_roles_def sample_splines_def sample_plans_def split: sum.splits)

lemma sample_values: "length (t_values sample) = n_constraints sample"
  by code_simp

end
