(* ===== verification/SketchProps.thy ===== *)
theory SketchProps
  imports SketchModel
begin

text \<open>
  The properties of the sketch solver: the system handed to PlaneGCS is well formed, the unknowns
  are the parameters that move, and the outcome means what its status says.
\<close>

section \<open>The system\<close>

text \<open>
  C16. Every scalar a PlaneGCS call of an accepted sketch points at lies in the buffer, each call
  carries the tag of a row or 0, and the rows that are built never overwrite the caller's
  parameters and values.
\<close>

theorem calls_point_into_buffer:
  assumes "accepted oc t roles splines plans" and "length (t_values t) = n_constraints t"
  shows "let b = build_system tk t splines plans in
    length (b_store b) = scalars t plans \<and>
    list_all (\<lambda>(c, tag). in_store (length (b_store b)) (call_ptrs c) \<and>
      0 \<le> tag \<and> tag \<le> int (n_constraints t)) (b_calls b) \<and>
    take (n_params t + n_constraints t) (b_store b) = t_params t @ t_values t"
  using build_system_facts [OF assms refl, where tk = tk] by (simp add: Let_def list_all_iff)

lemma calls_point_into_buffer_witness:
  "let b = build_system plain_tools sample sample_splines sample_plans in
    length (b_store b) = scalars sample sample_plans \<and>
    list_all (\<lambda>(c, tag). in_store (length (b_store b)) (call_ptrs c) \<and>
      0 \<le> tag \<and> tag \<le> int (n_constraints sample)) (b_calls b) \<and>
    take (n_params sample + n_constraints sample) (b_store b) = t_params sample @ t_values sample"
  by (rule calls_point_into_buffer [OF sample_accepted sample_values])

text \<open>
  C17. The unknowns are listed in ascending order with no repetition, and they are exactly the
  parameters that an entity moves and the caller does not fix, and the auxiliary unknowns of the
  rows, which lie after every parameter and every value. No knot and no fixed parameter is one.
\<close>

theorem unknowns_are_what_moves:
  assumes "accepted oc t roles splines plans" and "length (t_values t) = n_constraints t"
  shows "let us = unknowns_of t roles (build_system tk t splines plans) in
    sorted_wrt (<) us \<and>
    set us \<inter> {..<n_params t} = {i. i < n_params t \<and> i \<in> moving t splines \<and> \<not> t_fixed t ! i} \<and>
    set us - {..<n_params t} = set (plans_unknowns (laid_out t plans)) \<and>
    set (plans_unknowns (laid_out t plans)) \<subseteq> {n_params t + n_constraints t..<scalars t plans} \<and>
    set us \<inter> knots_of splines = {}"
proof -
  let ?aux = "plans_unknowns (laid_out t plans)"
  let ?mv = "filter (\<lambda>i. i \<in> moving t splines \<and> \<not> t_fixed t ! i) [0..<n_params t]"
  have us: "unknowns_of t roles (build_system tk t splines plans) = ?mv @ ?aux"
    using unknowns_of_accepted [OF assms refl] .
  note aux = laid_out_unknowns [OF assms(1)]
  have rt: "role_table (n_params t) (moving t splines) (knots_of splines) roles"
    using accepted_facts(1) [OF assms(1)] by (simp add: sketch_ok_def)
  have far: "n_params t \<le> i" if "i \<in> set ?aux" for i using subsetD [OF aux(2) that] by simp
  have "sorted_wrt (<) (?mv @ ?aux)"
    using aux(1) far by (auto simp: sorted_wrt_append sorted_wrt_filter intro: order_less_le_trans)
  moreover have "set (?mv @ ?aux) \<inter> knots_of splines = {}"
    using rt far by (fastforce simp: role_table_def)
  moreover have "set (?mv @ ?aux) - {..<n_params t} = set ?aux" using far by fastforce
  moreover have "set (?mv @ ?aux) \<inter> {..<n_params t} =
      {i. i < n_params t \<and> i \<in> moving t splines \<and> \<not> t_fixed t ! i}" using far by fastforce
  ultimately show ?thesis using aux(2) by (simp only: us Let_def simp_thms)
qed

lemma unknowns_are_what_moves_witness:
  "let us = unknowns_of sample sample_roles (build_system plain_tools sample sample_splines sample_plans) in
    sorted_wrt (<) us \<and>
    set us \<inter> {..<n_params sample} =
      {i. i < n_params sample \<and> i \<in> moving sample sample_splines \<and> \<not> t_fixed sample ! i} \<and>
    set us - {..<n_params sample} = set (plans_unknowns (laid_out sample sample_plans)) \<and>
    set (plans_unknowns (laid_out sample sample_plans)) \<subseteq>
      {n_params sample + n_constraints sample..<scalars sample sample_plans} \<and>
    set us \<inter> knots_of sample_splines = {}"
  by (rule unknowns_are_what_moves [OF sample_accepted sample_values])

text \<open>
  C18. Every accepted row reaches the solver under its own tag: unless it is a RIGID row whose
  parameters are all fixed, at least one call of the system carries the row's number plus one.
\<close>

theorem rows_reach_the_solver:
  assumes "accepted oc t roles splines plans" and "row < n_constraints t"
    and "pl_kind (plans ! row) = Rigid \<Longrightarrow> pl_rigid (plans ! row) \<noteq> []"
  shows "int row + 1 \<in> snd ` set (b_calls (build_system tk t splines plans))"
proof -
  have "speaks (plans ! row)"
    using accepted_facts(4) [OF assms(1,2)] assms(3)
    by (cases "pl_kind (plans ! row)") (auto simp: speaks_def plan_ok_def curves_ok_def Let_def
        elim: coincident_map.elims)
  from system_speaks [OF assms(1,2) this, of tk] show ?thesis by force
qed

lemma rows_reach_the_solver_witness:
  "int 2 + 1 \<in> snd ` set (b_calls (build_system plain_tools sample sample_splines sample_plans))"
proof (rule rows_reach_the_solver [OF sample_accepted])
  show "2 < n_constraints sample" by code_simp
  have "pl_kind (sample_plans ! 2) \<noteq> Rigid" by code_simp
  then show "pl_kind (sample_plans ! 2) = Rigid \<Longrightarrow> pl_rigid (sample_plans ! 2) \<noteq> []" by simp
qed

section \<open>The outcome\<close>

lemma solve_cases:
  assumes "solve g st t = Inr out"
  obtains roles splines plans b where
      "accepted (geom2d (gcs_tools g)) t roles splines plans" "b = build_system (gcs_tools g) t splines plans"
      "b_added b = 0" "out = unsolved_outcome t (if unknowns_of t roles b = [] then SOLVED else UNDER_CONSTRAINED)
        (int (length (unknowns_of t roles b)))"
  | roles splines plans b where
      "accepted (geom2d (gcs_tools g)) t roles splines plans" "b = build_system (gcs_tools g) t splines plans"
      "b_added b \<noteq> 0" "unknowns_of t roles b = []" "out = solve_rigid g st t b"
  | roles splines plans b run where
      "accepted (geom2d (gcs_tools g)) t roles splines plans" "b = build_system (gcs_tools g) t splines plans"
      "b_added b \<noteq> 0" "run_solver g (declare_unknowns g st b (unknowns_of t roles b)) = Inr run"
      "out = solved_outcome g t run"
proof -
  from assms obtain roles splines where e: "check_entities (geom2d (gcs_tools g)) t = Inr (roles, splines)"
    by (auto simp: solve_def check_simps)
  with assms obtain plans where c: "check_constraints t splines = Inr plans"
    by (auto simp: solve_def check_simps)
  have acc: "accepted (geom2d (gcs_tools g)) t roles splines plans" using e c by (simp add: accepted_def)
  let ?b = "build_system (gcs_tools g) t splines plans"
  let ?us = "unknowns_of t roles ?b"
  have rest: "(if b_added ?b = 0 then Inr (unsolved_outcome t (if ?us = [] then SOLVED else UNDER_CONSTRAINED)
        (int (length ?us)))
      else if ?us = [] then Inr (solve_rigid g st t ?b)
      else bind_result (run_solver g (declare_unknowns g st ?b ?us)) (\<lambda>run. Inr (solved_outcome g t run))) = Inr out"
    using assms by (simp add: solve_def e c Let_def)
  show thesis
  proof (cases "b_added ?b = 0")
    case True
    with rest show ?thesis by (intro that(1) [OF acc refl]) auto
  next
    case False
    show ?thesis
    proof (cases "?us = []")
      case True
      with rest False show ?thesis by (intro that(2) [OF acc refl]) auto
    next
      case us: False
      with rest False obtain run where "run_solver g (declare_unknowns g st ?b ?us) = Inr run"
        "out = solved_outcome g t run" by (auto simp: check_simps)
      with False show ?thesis by (intro that(3) [OF acc refl]) auto
    qed
  qed
qed

lemma unsolved_outcome_simps [simp]:
  "so_params (unsolved_outcome t s d) = t_params t" "so_status (unsolved_outcome t s d) = s"
  "so_dof (unsolved_outcome t s d) = d" "so_conflicting (unsolved_outcome t s d) = []"
  by (simp_all add: unsolved_outcome_def)

definition outcome_agrees :: "tables \<Rightarrow> sketch_outcome \<Rightarrow> bool" where
  "outcome_agrees t out =
     (case so_status out of
        SOLVED \<Rightarrow> so_dof out = 0 \<and> so_conflicting out = []
      | UNDER_CONSTRAINED \<Rightarrow> so_dof out \<noteq> 0 \<and> so_conflicting out = []
      | OVER_CONSTRAINED \<Rightarrow> so_conflicting out \<noteq> [] \<and> so_params out = t_params t
      | FAILED \<Rightarrow> so_conflicting out = [] \<and> so_params out = t_params t)"

text \<open>
  The status says what came out: OVER_CONSTRAINED exactly when conflicting rows are named,
  SOLVED with no degree of freedom left, UNDER_CONSTRAINED with some; a sketch that is not solved
  comes back with the parameters it came with.
\<close>

theorem status_means_what_it_says:
  assumes "solve g st t = Inr out"
  shows "outcome_agrees t out"
  using assms
proof (cases rule: solve_cases)
  case 1
  then show ?thesis by (simp add: outcome_agrees_def)
next
  case 2
  then show ?thesis by (simp add: outcome_agrees_def solve_rigid_def Let_def)
next
  case (3 roles splines plans b run)
  then show ?thesis by (simp add: outcome_agrees_def solved_outcome_def Let_def split: prod.split)
qed

lemma sample_solved: "\<not> isl (solve plain_gcs plain_settings sample)"
  by code_simp

definition sample_outcome :: sketch_outcome where
  "sample_outcome = (case solve plain_gcs plain_settings sample of Inr out \<Rightarrow> out
     | Inl _ \<Rightarrow> unsolved_outcome sample FAILED 0)"

lemma sample_outcome: "solve plain_gcs plain_settings sample = Inr sample_outcome"
  using sample_solved
  by (cases "solve plain_gcs plain_settings sample") (simp_all add: sample_outcome_def)

lemma status_means_what_it_says_witness: "outcome_agrees sample sample_outcome"
  by (rule status_means_what_it_says [OF sample_outcome])

text \<open>What \<^verbatim>\<open>applySolution\<close> does: it writes the unknowns it was given, and nothing else.\<close>

definition writes_unknowns_only :: "'g gcs \<Rightarrow> bool" where
  "writes_unknowns_only g = (\<forall>st b us dof r s.
     run_solver g (declare_unknowns g st b us) = Inr (dof, r, s) \<longrightarrow>
       length (applied_store g s) = length (b_store b) \<and>
       (\<forall>i. i \<notin> set us \<longrightarrow> applied_store g s ! i = b_store b ! i))"

text \<open>
  Solving moves nothing it should not: the parameters come back as many as they came, and a
  parameter that the caller fixes, that is a knot, or that no entity uses comes back as it was.
\<close>

theorem fixed_and_knots_stay:
  assumes run: "solve g st t = Inr out" and vals: "length (t_values t) = n_constraints t"
    and gcs: "writes_unknowns_only g"
  shows "length (so_params out) = n_params t \<and>
    (\<exists>roles splines. check_entities (geom2d (gcs_tools g)) t = Inr (roles, splines) \<and>
      (\<forall>i < n_params t. t_fixed t ! i \<or> i \<in> knots_of splines \<or> roles ! i = 0 \<longrightarrow>
        so_params out ! i = t_params t ! i))"
  using run
proof (cases rule: solve_cases)
  case 1
  then show ?thesis by (auto simp: accepted_def n_params_def)
next
  case 2
  then show ?thesis by (auto simp: accepted_def n_params_def solve_rigid_def Let_def)
next
  case (3 roles splines plans b run)
  obtain dof r s where run: "run = (dof, r, s)" by (cases run)
  have app: "length (applied_store g s) = length (b_store b)"
    "\<And>i. i \<notin> set (unknowns_of t roles b) \<Longrightarrow> applied_store g s ! i = b_store b ! i"
    using gcs 3(4) unfolding writes_unknowns_only_def run by blast+
  note facts = build_system_facts [OF 3(1) vals 3(2)]
  have us: "unknowns_of t roles b = filter (\<lambda>i. i \<in> moving t splines \<and> \<not> t_fixed t ! i) [0..<n_params t] @
      plans_unknowns (laid_out t plans)" by (rule unknowns_of_accepted [OF 3(1) vals 3(2)])
  have rt: "role_table (n_params t) (moving t splines) (knots_of splines) roles"
    using accepted_facts(1) [OF 3(1)] by (simp add: sketch_ok_def)
  have far: "n_params t \<le> i" if "i \<in> set (plans_unknowns (laid_out t plans))" for i
    using subsetD [OF laid_out_unknowns(2) [OF 3(1)] that] by simp
  have stay: "applied_store g s ! i = t_params t ! i"
    if "i < n_params t" "t_fixed t ! i \<or> i \<in> knots_of splines \<or> roles ! i = 0" for i
  proof -
    have "i \<notin> set (unknowns_of t roles b)"
      using that far [of i] rt by (auto simp: us role_table_def split: if_splits)
    then have "applied_store g s ! i = b_store b ! i" by (rule app(2))
    also have "\<dots> = (t_params t @ t_values t) ! i"
      using that(1) by (simp flip: facts(2))
    finally show ?thesis using that(1) by (simp add: nth_append n_params_def)
  qed
  have "length (so_params out) = n_params t" using app(1) facts(1)
    by (simp add: 3(5) run solved_outcome_def Let_def scalars_def n_params_def)
  moreover have "so_params out ! i = t_params t ! i"
    if "i < n_params t" "t_fixed t ! i \<or> i \<in> knots_of splines \<or> roles ! i = 0" for i
    using stay [OF that] that(1) by (simp add: 3(5) run solved_outcome_def Let_def)
  ultimately show ?thesis using 3(1) by (auto simp: accepted_def)
qed

lemma shift_at_nth:
  "length (shift_at us xs) = length xs \<and> (i \<notin> set us \<longrightarrow> shift_at us xs ! i = xs ! i)"
  by (induction us arbitrary: xs) (simp_all add: shift_at_def)

lemma plain_gcs_writes: "writes_unknowns_only plain_gcs"
  using shift_at_nth
  by (auto simp: writes_unknowns_only_def plain_gcs_def run_solver_def attempt_def bind_result_def
      split: sum.splits)

lemma fixed_and_knots_stay_witness:
  "length (so_params sample_outcome) = n_params sample \<and> so_params sample_outcome ! 0 = Fin 0 \<and>
   so_params sample_outcome ! 8 = Fin 0 \<and> so_params sample_outcome ! 9 = Fin 1"
proof -
  from fixed_and_knots_stay [OF sample_outcome sample_values plain_gcs_writes] obtain roles splines
    where len: "length (so_params sample_outcome) = n_params sample"
    and chk: "check_entities (geom2d (gcs_tools plain_gcs)) sample = Inr (roles, splines)"
    and stay: "\<forall>i < n_params sample. t_fixed sample ! i \<or> i \<in> knots_of splines \<or> roles ! i = 0 \<longrightarrow>
      so_params sample_outcome ! i = t_params sample ! i" by blast
  have "geom2d (gcs_tools plain_gcs) = plain_occt" by (simp add: plain_gcs_def plain_tools_def)
  with chk sample_accepted have "splines = sample_splines" by (simp add: accepted_def)
  moreover have "sample_splines 4 = Some (the (sample_splines 4))"
    "8 \<in> nat ` set (sp_knots (the (sample_splines 4)))" "9 \<in> nat ` set (sp_knots (the (sample_splines 4)))"
    by code_simp+
  ultimately have "8 \<in> knots_of splines" "9 \<in> knots_of splines"
    unfolding knots_of_def by (blast intro: ranI)+
  moreover have "t_fixed sample ! 0" "n_params sample = 10" "t_params sample ! 0 = Fin 0"
    "t_params sample ! 8 = Fin 0" "t_params sample ! 9 = Fin 1" by code_simp+
  ultimately show ?thesis using len stay by auto
qed

text \<open>What the reports of \<^verbatim>\<open>GCS::System\<close> hold: tags it was given.\<close>

definition reports_given_tags :: "'g gcs \<Rightarrow> bool" where
  "reports_given_tags g = (\<forall>st b us dof r s.
     run_solver g (declare_unknowns g st b us) = Inr (dof, r, s) \<longrightarrow>
       set (get_conflicting g s) \<union> set (get_redundant g s) \<union> set (get_partially_redundant g s)
         \<subseteq> snd ` set (b_calls b))"

definition row_list :: "tables \<Rightarrow> int list \<Rightarrow> bool" where
  "row_list t rows = (sorted_wrt (<) rows \<and> set rows \<subseteq> {0..<int (n_constraints t)})"

lemma row_list_Nil [simp]: "row_list t []"
  by (simp add: row_list_def)

lemma rows_of_row_list:
  assumes "set tags \<subseteq> {..int (n_constraints t)}"
  shows "row_list t (rows_of tags)"
  using assms strict_tidy by (auto simp: row_list_def rows_of_def)

text \<open>
  The rows named as conflicting, redundant and partially redundant are rows of the caller's
  table, each named once and in ascending order, whichever way the sketch was solved.
\<close>

theorem reported_rows_are_rows:
  assumes run: "solve g st t = Inr out" and vals: "length (t_values t) = n_constraints t"
    and gcs: "reports_given_tags g"
  shows "row_list t (so_conflicting out) \<and> row_list t (so_redundant out) \<and>
    row_list t (so_partially_redundant out)"
  using run
proof (cases rule: solve_cases)
  case 1
  then show ?thesis by (simp add: row_list_def unsolved_outcome_def)
next
  case (2 roles splines plans b)
  have "row_list t (map int (filter P [0..<n_constraints t]))" for P
    by (auto simp: row_list_def sorted_wrt_map sorted_wrt_filter)
  then show ?thesis by (simp add: 2 solve_rigid_def Let_def unsolved_outcome_def row_list_def)
next
  case (3 roles splines plans b run)
  obtain dof r s where run: "run = (dof, r, s)" by (cases run)
  have "set (get_conflicting g s) \<union> set (get_redundant g s) \<union> set (get_partially_redundant g s)
      \<subseteq> snd ` set (b_calls b)"
    using gcs 3(4) unfolding reports_given_tags_def run by blast
  also have "\<dots> \<subseteq> {..int (n_constraints t)}"
    using build_system_facts(3) [OF 3(1) vals 3(2)] by fastforce
  finally have "row_list t (rows_of (get_conflicting g s))" "row_list t (rows_of (get_redundant g s))"
    "row_list t (rows_of (get_partially_redundant g s))"
    by (simp_all add: rows_of_row_list)
  then show ?thesis by (simp add: 3(5) run solved_outcome_def Let_def split: if_splits)
qed

lemma plain_gcs_reports: "reports_given_tags plain_gcs"
  by (auto simp: reports_given_tags_def plain_gcs_def run_solver_def attempt_def bind_result_def
      split: sum.splits)

lemma reported_rows_are_rows_witness:
  "row_list sample (so_conflicting sample_outcome) \<and> row_list sample (so_redundant sample_outcome) \<and>
    row_list sample (so_partially_redundant sample_outcome)"
  by (rule reported_rows_are_rows [OF sample_outcome sample_values plain_gcs_reports])

section \<open>Constraint rows\<close>

text \<open>
  A zero distance is a coincidence: a DISTANCE row whose value is zero is planned and built
  exactly as the COINCIDENT row of the same operands, call by call.
\<close>

theorem zero_distance_is_coincident:
  assumes "plan_distance t row (new_plan Distance) = Inr pl" and "feq (t_values t ! row) f0"
  shows "plan_coincident t row (new_plan Coincident) = Inr (pl\<lparr>pl_kind := Coincident\<rparr>) \<and>
    add_row tk t splines geo (row, pl) b = add_row tk t splines geo (row, pl\<lparr>pl_kind := Coincident\<rparr>) b"
proof -
  obtain a c where ab: "point_first t (con t row 1, con t row 2) = (a, c)" by fastforce
  let ?m = "if kind_of t c = Some Point then PointPoint else PointLine"
  from assms have head: "row < n_constraints t" "is_row t (con t row 1)" "is_row t (con t row 2)" "con t row 1 \<noteq> con t row 2"
      "\<forall>col \<in> {3..<kConstraintColumns}. con t row col = -1"
    and kinds: "kind_of t a = Some Point" "kind_of t c = Some Point \<or> kind_of t c = Some Line"
      "\<not> (kind_of t c = Some Point \<and> same_point t a c)"
    and pl: "pl = (new_plan Distance)\<lparr>pl_a := a, pl_b := c, pl_map := ?m\<rparr>"
    by (auto simp: plan_distance_def check_simps ab [simplified] Let_def split: if_split_asm)
  have m: "coincident_map (kind_of t c) = ?m" "?m \<noteq> PointBSpline" using kinds by auto
  have "plan_coincident t row (new_plan Coincident) = Inr ((new_plan Coincident)\<lparr>pl_a := a, pl_b := c,
      pl_map := ?m, pl_aux_count := 0\<rparr>)"
    using head kinds m
    by (simp add: plan_coincident_def check_simps ab [simplified] Let_def del: if_split)
  moreover have "pl\<lparr>pl_kind := Coincident\<rparr> = (new_plan Coincident)\<lparr>pl_a := a, pl_b := c, pl_map := ?m,
      pl_aux_count := 0\<rparr>"
    by (simp add: pl new_plan_def)
  moreover have "add_row tk t splines geo (row, pl) b =
      add_row tk t splines geo (row, pl\<lparr>pl_kind := Coincident\<rparr>) b"
    by (simp add: add_row_def add_coincident_def pl Let_def)
  ultimately show ?thesis by simp
qed

definition zero_sample :: tables where
  "zero_sample = sample\<lparr>t_constraints := [15, 3, 2, -1, -1], t_values := [Fin 0]\<rparr>"

definition zero_plan :: plan where
  "zero_plan = (new_plan Distance)\<lparr>pl_a := 2, pl_b := 3, pl_map := PointLine\<rparr>"

definition no_calls :: build where
  "no_calls = \<lparr>b_store = replicate 20 f0, b_calls = [], b_aux_unknowns = [], b_added = 0\<rparr>"

lemma zero_distance_is_coincident_witness:
  "plan_coincident zero_sample 0 (new_plan Coincident) = Inr (zero_plan\<lparr>pl_kind := Coincident\<rparr>) \<and>
    add_row plain_tools zero_sample Map.empty (build_geometry zero_sample Map.empty) (0, zero_plan) no_calls =
    add_row plain_tools zero_sample Map.empty (build_geometry zero_sample Map.empty)
      (0, zero_plan\<lparr>pl_kind := Coincident\<rparr>) no_calls"
proof -
  have "plan_distance zero_sample 0 (new_plan Distance) = Inr zero_plan" by code_simp
  moreover have "feq (t_values zero_sample ! 0) f0" by code_simp
  ultimately show ?thesis
    using zero_distance_is_coincident by blast
qed

lemma add_rigid_set:
  "set (fold (add_rigid t) ps held) = set held \<union> {nat i | i. i \<in> set ps \<and> \<not> t_fixed t ! nat i}"
  by (induction ps arbitrary: held) (auto simp: add_rigid_def)

lemma add_rigid_distinct: "distinct held \<Longrightarrow> distinct (fold (add_rigid t) ps held)"
  by (induction ps arbitrary: held) (auto simp: add_rigid_def)

lemma hold_params_calls:
  "distinct (map fst ais) \<Longrightarrow> fst ` set ais \<inter> snd ` set ais = {} \<Longrightarrow>
   \<forall>(a, i) \<in> set ais. a < length (b_store b) \<Longrightarrow>
   b_calls (fold (hold_param tag) ais b) =
     b_calls b @ map (\<lambda>(a, i). (EqualScalars (Some a) (Some i), tag)) ais \<and>
   (\<forall>(a, i) \<in> set ais. b_store (fold (hold_param tag) ais b) ! a = b_store b ! i) \<and>
   (\<forall>k. k \<notin> fst ` set ais \<longrightarrow> b_store (fold (hold_param tag) ais b) ! k = b_store b ! k)"
proof (induction ais arbitrary: b)
  case (Cons ai ais)
  obtain a i where ai: "ai = (a, i)" by (cases ai)
  let ?b = "hold_param tag (a, i) b"
  have store: "b_store ?b = (b_store b)[a := b_store b ! i]"
    by (simp add: hold_param_def emit_def put_def ai)
  have calls: "b_calls ?b = b_calls b @ [(EqualScalars (Some a) (Some i), tag)]"
    by (simp add: hold_param_def emit_def put_def ai)
  have "\<forall>(a, i) \<in> set ais. a < length (b_store ?b)" using Cons.prems(3) by (auto simp: store)
  with Cons.IH [of ?b] Cons.prems(1,2) have IH:
    "b_calls (fold (hold_param tag) ais ?b) =
       b_calls ?b @ map (\<lambda>(a, i). (EqualScalars (Some a) (Some i), tag)) ais"
    "\<forall>(a, i) \<in> set ais. b_store (fold (hold_param tag) ais ?b) ! a = b_store ?b ! i"
    "\<And>k. k \<notin> fst ` set ais \<Longrightarrow> b_store (fold (hold_param tag) ais ?b) ! k = b_store ?b ! k"
    by (auto simp: ai)
  have old: "b_store ?b ! k = b_store b ! k" if "k \<noteq> a" for k using that by (simp add: store)
  have "a \<notin> fst ` set ais" "a \<noteq> i" using Cons.prems(1,2) by (auto simp: ai)
  then have "b_store (fold (hold_param tag) ais ?b) ! a = b_store b ! i"
    using IH(3) [of a] Cons.prems(3) by (simp add: store ai)
  moreover have "\<forall>(a', j) \<in> set ais. b_store (fold (hold_param tag) ais ?b) ! a' = b_store b ! j"
  proof clarify
    fix a' j assume mem: "(a', j) \<in> set ais"
    have "j \<noteq> a" using Cons.prems(2) mem by (auto simp: ai intro: rev_image_eqI)
    with IH(2) mem old show "b_store (fold (hold_param tag) ais ?b) ! a' = b_store b ! j" by auto
  qed
  moreover have "b_store (fold (hold_param tag) ais ?b) ! k = b_store b ! k"
    if "k \<notin> fst ` set (ai # ais)" for k
    using that IH(3) [of k] old [of k] by (simp add: ai)
  ultimately show ?case using IH(1) by (simp add: calls ai)
qed simp

text \<open>
  A RIGID row holds every parameter of its entity that the caller does not fix, each once: one
  equality per parameter, to an auxiliary scalar of the row's own that copies the initial value,
  and no equality for a fixed parameter, which cannot move.
\<close>

theorem rigid_holds_each_parameter_once:
  assumes plan: "plan_rigid t splines row (new_plan Rigid) = Inr pl0"
    and ps: "entity_params t splines (con t row 1) = Inr ps"
    and ok: "check_entities oc t = Inr (roles, splines)"
    and pl: "pl = pl0\<lparr>pl_aux := aux\<rparr>" and aux: "n_params t \<le> aux"
    and len: "aux + length (pl_rigid pl) \<le> length (b_store b)"
  shows "distinct (pl_rigid pl) \<and>
    set (pl_rigid pl) = {nat i | i. i \<in> set ps \<and> \<not> t_fixed t ! nat i} \<and>
    b_calls (add_rigid_row tag pl b) =
      b_calls b @ map (\<lambda>k. (EqualScalars (Some (aux + k)) (Some (pl_rigid pl ! k)), tag)) [0..<length (pl_rigid pl)] \<and>
    (\<forall>k < length (pl_rigid pl). b_store (add_rigid_row tag pl b) ! (aux + k) = b_store b ! (pl_rigid pl ! k))"
proof -
  from plan ps have held: "is_row t (con t row 1)" "pl_rigid pl = fold (add_rigid t) ps []" "pl_aux pl = aux"
    by (auto simp: plan_rigid_def check_simps pl Let_def)
  have dist: "distinct (pl_rigid pl)" by (simp add: held add_rigid_distinct)
  have eq: "set (pl_rigid pl) = {nat i | i. i \<in> set ps \<and> \<not> t_fixed t ! nat i}"
    by (simp add: held add_rigid_set)
  have low: "i < n_params t" if "i \<in> set (pl_rigid pl)" for i
    using that entity_params_ok [OF ps check_entities_ok [OF ok] held(1)] by (auto simp: eq is_param_def)
  let ?n = "length (pl_rigid pl)"
  let ?ais = "zip [aux..<aux + ?n] (pl_rigid pl)"
  have ais: "?ais = map (\<lambda>k. (aux + k, pl_rigid pl ! k)) [0..<?n]"
    by (rule nth_equalityI) auto
  have fst: "map fst ?ais = [aux..<aux + ?n]" and snd: "map snd ?ais = pl_rigid pl" by simp_all
  have apart: "fst ` set ?ais \<inter> snd ` set ?ais = {}"
    using low aux by (force dest: set_zip_leftD set_zip_rightD)
  have room: "\<forall>(a, i) \<in> set ?ais. a < length (b_store b)" using len by (auto dest: set_zip_leftD)
  have built: "add_rigid_row tag pl b = fold (hold_param tag) ?ais b"
    by (simp add: add_rigid_row_def held(3))
  note holds = hold_params_calls [of ?ais b tag, unfolded fst, OF distinct_upt apart room]
  have "b_store (add_rigid_row tag pl b) ! (aux + k) = b_store b ! (pl_rigid pl ! k)" if "k < ?n" for k
  proof -
    have "(aux + k, pl_rigid pl ! k) \<in> set ?ais" using that by (auto simp: ais)
    with holds show ?thesis unfolding built by blast
  qed
  moreover have "b_calls (add_rigid_row tag pl b) =
      b_calls b @ map (\<lambda>k. (EqualScalars (Some (aux + k)) (Some (pl_rigid pl ! k)), tag)) [0..<?n]"
    using holds by (simp add: built ais comp_def)
  ultimately show ?thesis using dist eq by blast
qed

lemma rigid_holds_each_parameter_once_witness:
  "let pl = (sample_plans ! 3)\<lparr>pl_aux := 14\<rparr> in
    distinct (pl_rigid pl) \<and> set (pl_rigid pl) = {nat i | i. i \<in> set [0, 1] \<and> \<not> t_fixed sample ! nat i} \<and>
    b_calls (add_rigid_row 4 pl no_calls) =
      b_calls no_calls @ map (\<lambda>k. (EqualScalars (Some (14 + k)) (Some (pl_rigid pl ! k)), 4)) [0..<length (pl_rigid pl)] \<and>
    b_store (add_rigid_row 4 pl no_calls) ! 14 = b_store no_calls ! 1"
proof -
  have "plan_rigid sample sample_splines 3 (new_plan Rigid) = Inr (sample_plans ! 3)" by code_simp
  moreover have "entity_params sample sample_splines (con sample 3 1) = Inr [0, 1]" by code_simp
  moreover have "check_entities plain_occt sample = Inr (sample_roles, sample_splines)"
    using sample_accepted by (simp add: accepted_def)
  moreover have "n_params sample \<le> 14" by code_simp
  moreover have "14 + length (pl_rigid ((sample_plans ! 3)\<lparr>pl_aux := 14\<rparr>)) \<le> length (b_store no_calls)"
    by code_simp
  moreover have "pl_rigid ((sample_plans ! 3)\<lparr>pl_aux := 14\<rparr>) = [1]" by code_simp
  ultimately show ?thesis
    using rigid_holds_each_parameter_once [of sample sample_splines 3 "sample_plans ! 3" "[0, 1]" plain_occt
        sample_roles "(sample_plans ! 3)\<lparr>pl_aux := 14\<rparr>" 14 no_calls 4]
    unfolding Let_def by simp
qed

end
