(* ===== verification/SketchRows.thy ===== *)
theory SketchRows
  imports SketchModel
begin

text \<open>
  Properties of the argument and row checks: the order of a row's operands, the arrays the tables
  are read from, and the reading of the B-spline slots.
\<close>

section \<open>The order of the operands\<close>

text \<open>The table with the first two operands of a row exchanged.\<close>

definition swap_operands :: "tables \<Rightarrow> nat \<Rightarrow> tables" where
  "swap_operands t row = t\<lparr>t_constraints := (t_constraints t)
     [row * kConstraintColumns + 1 := con t row 2, row * kConstraintColumns + 2 := con t row 1]\<rparr>"

definition mirror :: "plan \<Rightarrow> plan" where
  "mirror pl = pl\<lparr>pl_a := pl_b pl, pl_b := pl_a pl, pl_end_a := pl_end_b pl, pl_end_b := pl_end_a pl\<rparr>"

lemma swap_con:
  assumes "row < n_constraints t"
  shows "con (swap_operands t row) row 0 = con t row 0" "con (swap_operands t row) row 1 = con t row 2"
    "con (swap_operands t row) row 2 = con t row 1"
    "3 \<le> col \<Longrightarrow> con (swap_operands t row) row col = con t row col"
proof -
  have "row * 5 + 5 \<le> length (t_constraints t)"
    using assms by (simp add: n_constraints_def kConstraintColumns_def)
  then show "con (swap_operands t row) row 0 = con t row 0" "con (swap_operands t row) row 1 = con t row 2"
    "con (swap_operands t row) row 2 = con t row 1"
    "3 \<le> col \<Longrightarrow> con (swap_operands t row) row col = con t row col"
    by (simp_all add: con_def swap_operands_def kConstraintColumns_def nth_list_update)
qed

lemmas swap_cons = swap_con [unfolded One_nat_def]

lemma swap_other [simp]:
  "ent (swap_operands t row) = ent t" "n_entities (swap_operands t row) = n_entities t"
  "t_values (swap_operands t row) = t_values t" "kind_of (swap_operands t row) = kind_of t"
  "ent_kind_at (swap_operands t row) = ent_kind_at t" "n_constraints (swap_operands t row) = n_constraints t"
  by (auto simp: ent_def n_entities_def n_constraints_def swap_operands_def kind_of_def ent_kind_at_def fun_eq_iff)

lemma swap_rows [simp]:
  "is_row (swap_operands t row) = is_row t" "is_point (swap_operands t row) = is_point t"
  "same_point (swap_operands t row) = same_point t" "ends_in (swap_operands t row) = ends_in t"
  by (auto simp: is_row_def is_point_def same_point_def ends_in_def fun_eq_iff)

lemma swap_side [simp]: "curve_side (swap_operands t row) = curve_side t"
proof -
  have same_end: "spline_end (swap_operands t row) = spline_end t"
    by (simp add: spline_end_def fun_eq_iff)
  show ?thesis by (intro ext) (simp only: curve_side_def same_end swap_other swap_rows)
qed

lemma same_point_sym: "same_point t a b = same_point t b a"
  by (auto simp: same_point_def)

lemma swap_kind: "row < n_constraints t \<Longrightarrow> con_kind_at (swap_operands t row) row = con_kind_at t row"
  by (simp add: con_kind_at_def swap_con)

lemma curves_refused_swap:
  "curves_refused t tangent row a b = None \<Longrightarrow> curves_refused (swap_operands t row') tangent row b a = None"
  by (auto simp: curves_refused_def Let_def split: if_splits)

lemma curves_map_swap:
  "curves_map tangent has_point ka ea kb eb = curves_map tangent has_point kb eb ka ea"
  by (simp only: curves_map_def Let_def conj_ac disj_ac)

lemma plan_curves_swap:
  assumes row: "row < n_constraints t" and run: "plan_curves t splines row tangent (new_plan k) = Inr pl"
  shows "plan_curves (swap_operands t row) splines row tangent (new_plan k) = Inr (mirror pl)"
proof -
  from run obtain ka ea kb eb m where parts: "is_row t (con t row 1)" "is_row t (con t row 2)"
    "con t row 3 = -1 \<or> is_point t (con t row 3)" "\<forall>col \<in> {4..<kConstraintColumns}. con t row col = -1"
    "curves_refused t tangent row (con t row 1) (con t row 2) = None"
    and sa: "curve_side t splines row (con t row 3) (con t row 1) = Inr (ka, ea)"
    and sb: "curve_side t splines row (con t row 3) (con t row 2) = Inr (kb, eb)"
    and m: "curves_map tangent (0 \<le> con t row 3) ka ea kb eb = Some m"
    and pl: "pl = curves_plan t row ea eb m (new_plan k)"
    unfolding plan_curves_Inr by blast
  have "mirror pl = curves_plan (swap_operands t row) row eb ea m (new_plan k)"
    using row by (simp add: pl mirror_def curves_plan_def swap_con new_plan_def del: One_nat_def)
  then show ?thesis
    using parts sa sb m [unfolded curves_map_swap [of tangent _ ka]] row curves_refused_swap [OF parts(5)]
    unfolding plan_curves_Inr by (simp add: swap_con del: One_nat_def)
qed

lemma plan_coincident_swap:
  assumes row: "row < n_constraints t" and run: "plan_coincident t row (new_plan Coincident) = Inr pl"
  shows "plan_coincident (swap_operands t row) row (new_plan Coincident) =
    Inr (if kind_of t (pl_b pl) = Some Point then mirror pl else pl)"
proof (cases "kind_of t (con t row 1) = Some Point \<and> kind_of t (con t row 2) = Some Point")
  case True
  with run row show ?thesis
    by (auto simp: plan_coincident_def check_simps point_first_def Let_def swap_cons mirror_def new_plan_def
        same_point_sym split: if_split_asm)
next
  case False
  with run row show ?thesis
    by (auto simp: plan_coincident_def check_simps point_first_def Let_def swap_cons split: if_split_asm)
qed

lemma plan_distance_swap:
  assumes row: "row < n_constraints t" and run: "plan_distance t row (new_plan Distance) = Inr pl"
  shows "plan_distance (swap_operands t row) row (new_plan Distance) =
    Inr (if kind_of t (pl_b pl) = Some Point then mirror pl else pl)"
proof (cases "kind_of t (con t row 1) = Some Point \<and> kind_of t (con t row 2) = Some Point")
  case True
  with run row show ?thesis
    by (auto simp: plan_distance_def check_simps point_first_def Let_def swap_cons mirror_def new_plan_def
        same_point_sym split: if_split_asm)
next
  case False
  with run row show ?thesis
    by (auto simp: plan_distance_def check_simps point_first_def Let_def swap_cons split: if_split_asm)
qed

lemma plan_equal_swap:
  assumes row: "row < n_constraints t" and run: "plan_equal t row (new_plan k) = Inr pl"
  shows "plan_equal (swap_operands t row) row (new_plan k) = Inr (mirror pl)"
proof -
  let ?ka = "kind_of t (con t row 1)" and ?kb = "kind_of t (con t row 2)"
  have lines: "is_round (Some Line) = False" "is_oval (Some Line) = False"
    by (simp_all add: is_round_def is_oval_def)
  consider "?ka = Some Line \<and> ?kb = Some Line"
    | "\<not> (?ka = Some Line \<and> ?kb = Some Line)" "is_round ?ka \<and> is_round ?kb"
    | "\<not> (?ka = Some Line \<and> ?kb = Some Line)" "\<not> (is_round ?ka \<and> is_round ?kb)" by blast
  then show ?thesis
  proof cases
    case 3
    then have "is_oval ?ka \<and> is_oval ?kb"
      using run by (simp add: plan_equal_def check_simps Let_def split: if_split_asm)
    with 3 run row show ?thesis
      by (simp add: plan_equal_def check_simps Let_def swap_cons mirror_def new_plan_def) auto
  qed (use run row in \<open>auto simp: plan_equal_def check_simps Let_def swap_cons mirror_def new_plan_def lines\<close>)
qed

lemma plan_two_lines_swap:
  assumes "row < n_constraints t" and "plan_two_lines t row (new_plan k) = Inr pl"
  shows "plan_two_lines (swap_operands t row) row (new_plan k) = Inr (mirror pl)"
  using assms by (auto simp: plan_two_lines_def check_simps swap_cons mirror_def new_plan_def)

lemma plan_symmetric_swap:
  assumes "row < n_constraints t" and "plan_symmetric t row (new_plan k) = Inr pl"
  shows "plan_symmetric (swap_operands t row) row (new_plan k) = Inr (mirror pl)"
  using assms
  by (auto simp: plan_symmetric_def check_simps swap_cons mirror_def new_plan_def same_point_sym
      split: if_split_asm)

text \<open>
  The order of a row's two operands does not matter: with the operands exchanged, a COINCIDENT
  or DISTANCE row of a point and a curve gives the very same plan, and a pair of two points, a
  tangency, a perpendicularity, a parallelism, an equality or a symmetry gives the same mapping
  with the sides exchanged.
\<close>

theorem operand_order_does_not_matter:
  assumes row: "row < n_constraints t" and kind: "con_kind_at t row = Some k"
    and pair: "k \<in> {Coincident, Distance, Tangent, Perpendicular, Parallel, Equal, Symmetric}"
    and run: "plan_row t splines row = Inr pl"
  shows "plan_row (swap_operands t row) splines row =
    Inr (if k \<in> {Coincident, Distance} \<and> kind_of t (pl_b pl) \<noteq> Some Point then pl else mirror pl)"
proof -
  from run kind have "plan_kind t splines row k = Inr pl" and v: "check_value row k (t_values t ! row) = Inr ()"
    and read: "row < length (t_values t)"
    by (auto simp: plan_row_def check_simps)
  then have "plan_kind (swap_operands t row) splines row k =
      Inr (if k \<in> {Coincident, Distance} \<and> kind_of t (pl_b pl) \<noteq> Some Point then pl else mirror pl)"
    using pair row
    by (auto simp: plan_kind_def plan_coincident_swap plan_distance_swap plan_curves_swap plan_two_lines_swap
        plan_equal_swap plan_symmetric_swap)
  with v kind row read show ?thesis by (simp add: plan_row_def swap_kind bind_result_def indexing_def)
qed

lemma operand_order_does_not_matter_witness:
  "plan_row (swap_operands sample 2) sample_splines 2 =
    Inr (if Coincident \<in> {Coincident, Distance} \<and> kind_of sample (pl_b (sample_plans ! 2)) \<noteq> Some Point
      then sample_plans ! 2 else mirror (sample_plans ! 2))"
proof (rule operand_order_does_not_matter)
  show "2 < n_constraints sample" "con_kind_at sample 2 = Some Coincident"
    "plan_row sample sample_splines 2 = Inr (sample_plans ! 2)"
    by code_simp+
qed simp

section \<open>The slots of the B-splines\<close>

lemma slots_ok_after:
  assumes run: "check_splines oc t roles = Inr (roles', splines)" and off: "t_offsets t \<noteq> []"
    and rt: "role_table (n_params t) M {} roles"
  obtains s where "slots_ok t M (set (spline_rows t)) s" "length (sl_owner s) = length (t_offsets t) - 1"
    "\<forall>k < length (sl_owner s). 0 \<le> sl_owner s ! k"
proof -
  let ?s0 = "\<lparr>sl_owner = replicate (length (t_offsets t) - 1) (-1), sl_roles = roles,
      sl_splines = Map.empty\<rparr>"
  from run off obtain s where s: "loop (check_spline oc t) (spline_rows t) ?s0 = Inr s"
    and named: "\<forall>k < length (sl_owner s). 0 \<le> sl_owner s ! k"
    by (auto simp: check_splines_def Let_def check_simps loop_unit_iff not_less split: if_split_asm)
  have "slots_ok t M {} ?s0" using rt by (simp add: slots_ok_def weights_of_def knots_of_def)
  moreover have "distinct (spline_rows t)" by (simp add: spline_rows_def)
  ultimately have "slots_ok t M (set (spline_rows t)) s \<and> length (sl_owner s) = length (t_offsets t) - 1"
    using check_splines_loop [OF s, of M "{}"] by simp
  with named show ?thesis by (intro that) auto
qed

text \<open>
  Every slot of an accepted sketch belongs to exactly one B-spline row and every B-spline row
  has a slot of its own: the slot column is a bijection from the B-spline rows onto the slots.
\<close>

theorem slots_belong_to_one_row:
  assumes "check_entities oc t = Inr (roles, splines)" and "t_offsets t \<noteq> []"
  shows "bij_betw (\<lambda>row. nat (ent t row 1)) (set (spline_rows t)) {..<length (t_offsets t) - 1}"
proof -
  from assms(1) obtain r1 r2 where
    r1: "loop (check_point t) [0..<n_entities t] (replicate (n_params t) 0) = Inr r1"
    and r2: "loop (check_entity t) [0..<n_entities t] r1 = Inr r2"
    and rest: "check_splines oc t r2 = Inr (roles, splines)"
    by (auto simp: check_entities_def check_simps)
  have "\<exists>M. role_table (n_params t) M {} r2"
    using check_entities_loop [OF r2 conjunct1 [OF check_points_loop [OF r1 role_table_start]]] by blast
  then obtain M where "role_table (n_params t) M {} r2" by blast
  from slots_ok_after [OF rest assms(2) this] obtain s where s: "slots_ok t M (set (spline_rows t)) s"
    and len: "length (sl_owner s) = length (t_offsets t) - 1"
    and named: "\<forall>k < length (sl_owner s). 0 \<le> sl_owner s ! k" .
  let ?rows = "set (spline_rows t)"
  have own: "0 \<le> ent t row 1 \<and> nat (ent t row 1) < length (sl_owner s) \<and>
      sl_owner s ! nat (ent t row 1) = int row" if "row \<in> ?rows" for row
    using s that unfolding slots_ok_def by blast
  have owner: "sl_owner s ! k = -1 \<or> (\<exists>row \<in> ?rows. sl_owner s ! k = int row \<and> ent t row 1 = int k)"
    if "k < length (sl_owner s)" for k
    using s that unfolding slots_ok_def by blast
  have "inj_on (\<lambda>row. nat (ent t row 1)) ?rows"
    by (rule inj_onI) (metis own of_nat_eq_iff)
  moreover have "(\<lambda>row. nat (ent t row 1)) ` ?rows \<subseteq> {..<length (sl_owner s)}" using own by auto
  moreover have "k \<in> (\<lambda>row. nat (ent t row 1)) ` ?rows" if "k < length (sl_owner s)" for k
  proof -
    from owner [OF that] named that obtain row where "row \<in> ?rows" "ent t row 1 = int k" by force
    then show ?thesis by (auto intro!: image_eqI [of _ _ row])
  qed
  ultimately show ?thesis by (auto simp: bij_betw_def len)
qed

lemma slots_belong_to_one_row_witness:
  "bij_betw (\<lambda>row. nat (ent sample row 1)) (set (spline_rows sample)) {..<length (t_offsets sample) - 1}"
proof (rule slots_belong_to_one_row)
  show "check_entities plain_occt sample = Inr (sample_roles, sample_splines)"
    using sample_accepted by (simp add: accepted_def)
  show "t_offsets sample \<noteq> []" by code_simp
qed

section \<open>The arguments\<close>

text \<open>An array as NumPy makes it: its items are those its dtype and its shape say.\<close>

definition array_ok :: "ndarray \<Rightarrow> bool" where
  "array_ok a =
     (list_all (\<lambda>d. 0 \<le> d) (nd_shape a) \<and>
      (case nd_items a of
         F64s xs \<Rightarrow> nd_kind a = CHR ''f'' \<and> nd_itemsize a = 8 \<and> int (length xs) = prod_list (nd_shape a)
       | I64s xs \<Rightarrow> nd_kind a = CHR ''i'' \<and> nd_itemsize a = 8 \<and> int (length xs) = prod_list (nd_shape a)
       | Bools xs \<Rightarrow> nd_kind a = CHR ''b'' \<and> nd_itemsize a = 1 \<and> int (length xs) = prod_list (nd_shape a)
       | OtherItems \<Rightarrow> (nd_kind a, nd_itemsize a) \<notin> {(CHR ''f'', 8), (CHR ''i'', 8), (CHR ''b'', 1)}))"

definition arg_ok :: "pyarg \<Rightarrow> bool" where
  "arg_ok obj = (case obj of PyArray a \<Rightarrow> array_ok a | _ \<Rightarrow> True)"

lemma typed_array_Inr: "typed_array obj name k n = Inr a \<longleftrightarrow> obj = PyArray a \<and> nd_kind a = k \<and> nd_itemsize a = n"
  by (auto simp: typed_array_def split: pyarg.splits if_splits)

lemma prod_list_one: "length ds = Suc 0 \<Longrightarrow> prod_list ds = (hd ds :: int)"
  by (cases ds) auto

lemma prod_list_two: "length ds = 2 \<Longrightarrow> prod_list ds = (ds ! 0 * ds ! Suc 0 :: int)"
  by (auto simp: numeral_2_eq_2 length_Suc_conv)

lemma read_f64_length:
  "arg_ok obj \<Longrightarrow> read_f64 obj name len = Inr xs \<Longrightarrow> 0 \<le> len \<Longrightarrow> int (length xs) = len"
  by (auto simp: read_f64_def bind_result_Inr_iff typed_array_Inr arg_ok_def array_ok_def f64_items_def
      prod_list_one split: if_splits items.splits)

lemma read_i64_rows:
  "arg_ok obj \<Longrightarrow> read_i64 obj name (Suc c) = Inr xs \<Longrightarrow> length xs mod Suc c = 0"
proof -
  assume arg: "arg_ok obj" and run: "read_i64 obj name (Suc c) = Inr xs"
  then obtain a where a: "obj = PyArray a" "nd_kind a = CHR ''i''" "nd_itemsize a = 8" "xs = i64_items a"
    and shape: "length (nd_shape a) = 2" "nd_shape a ! 1 = int (Suc c)"
    by (auto simp: read_i64_def bind_result_Inr_iff typed_array_Inr split: if_split_asm)
  have "int (length xs) = prod_list (nd_shape a)"
    using arg a by (auto simp: arg_ok_def array_ok_def i64_items_def split: items.splits)
  with shape have "int (length xs) = nd_shape a ! 0 * int (Suc c)" by (simp add: prod_list_two)
  then have "int (length xs) mod int (Suc c) = 0" by simp
  then show ?thesis by (metis of_nat_0 of_nat_eq_iff of_nat_mod)
qed

lemma read_fixed_length: "arg_ok obj \<Longrightarrow> read_fixed obj n = Inr flags \<Longrightarrow> length flags = n"
  by (auto simp: read_fixed_def bind_result_Inr_iff typed_array_Inr arg_ok_def array_ok_def bool_items_def
      prod_list_one split: if_splits items.splits)

lemma check_finite_Inr: "check_finite ps = Inr u \<longleftrightarrow> list_all is_finite ps"
  by (auto simp: check_finite_def loop_unit_iff list_all_length split: if_splits)

text \<open>
  C28. The arguments that are accepted make tables the rest of the code can index: whole rows in
  both tables, one value per constraint row, one flag per parameter, finite parameters, an iteration
  limit of at least one and a tolerance above zero; spline slots come together or not at all.
\<close>

theorem arguments_make_tables:
  assumes "list_all arg_ok [params_obj, entities_obj, constraints_obj, values_obj, fixed_obj, offsets_obj, indices_obj]"
    and run: "read_tables params_obj entities_obj constraints_obj values_obj fixed_obj offsets_obj indices_obj
      max_iterations tolerance = Inr t"
  shows "tables_ok t \<and> 1 \<le> max_iterations \<and> is_finite tolerance \<and> fless f0 tolerance \<and>
    (t_offsets t = []) = (offsets_obj = PyNone) \<and> (offsets_obj = PyNone) = (indices_obj = PyNone) \<and>
    (t_offsets t = [] \<longrightarrow> t_indices t = [])"
proof -
  from run have limits: "1 \<le> max_iterations" "is_finite tolerance" "fless f0 tolerance"
    by (auto simp: read_tables_def split: if_split_asm)
  with run obtain ps es cs vs flags offs idx where
    ps: "read_f64 params_obj ''params'' (-1) = Inr ps" and fin: "check_finite ps = Inr ()"
    and es: "read_i64 entities_obj ''entities'' kEntityColumns = Inr es"
    and cs: "read_i64 constraints_obj ''constraints'' kConstraintColumns = Inr cs"
    and vs: "read_f64 values_obj ''values'' (int (length cs div kConstraintColumns)) = Inr vs"
    and flags: "read_fixed fixed_obj (length ps) = Inr flags"
    and splines: "read_splines offsets_obj indices_obj = Inr (offs, idx)"
    and t: "t = \<lparr>t_params = ps, t_entities = es, t_constraints = cs, t_values = vs, t_fixed = flags,
        t_offsets = offs, t_indices = idx\<rparr>"
    by (fastforce simp: read_tables_def bind_result_Inr_iff)
  have args: "arg_ok entities_obj" "arg_ok constraints_obj" "arg_ok values_obj" "arg_ok fixed_obj"
    using assms(1) by simp_all
  have "length es mod kEntityColumns = 0"
    using read_i64_rows [of entities_obj _ 7] args(1) es by (simp add: kEntityColumns_def)
  moreover have "length cs mod kConstraintColumns = 0"
    using read_i64_rows [of constraints_obj _ 4] args(2) cs by (simp add: kConstraintColumns_def)
  moreover have "length vs = length cs div kConstraintColumns"
    using read_f64_length [OF args(3) vs] by simp
  moreover have "length flags = length ps" by (rule read_fixed_length [OF args(4) flags])
  moreover have "list_all is_finite ps" using fin by (simp add: check_finite_Inr)
  ultimately have "tables_ok t" by (simp add: tables_ok_def t n_constraints_def n_params_def)
  moreover have "(offs = []) = (offsets_obj = PyNone) \<and> (offsets_obj = PyNone) = (indices_obj = PyNone) \<and>
      (offs = [] \<longrightarrow> idx = [])"
    using splines by (auto simp: read_splines_def bind_result_Inr_iff split: if_split_asm)
  ultimately show ?thesis using limits by (simp add: t)
qed

definition f64_array :: "f64 list \<Rightarrow> pyarg" where
  "f64_array xs = PyArray \<lparr>nd_kind = CHR ''f'', nd_itemsize = 8, nd_shape = [int (length xs)], nd_items = F64s xs\<rparr>"

definition i64_array :: "int list \<Rightarrow> int list \<Rightarrow> pyarg" where
  "i64_array sh xs = PyArray \<lparr>nd_kind = CHR ''i'', nd_itemsize = 8, nd_shape = sh, nd_items = I64s xs\<rparr>"

lemma arguments_make_tables_witness:
  "tables_ok (sample\<lparr>t_fixed := replicate 10 False\<rparr>) \<and>
    (i64_array [2] (t_offsets sample) = PyNone) = (i64_array [8] (t_indices sample) = PyNone)"
proof -
  have "list_all arg_ok [f64_array (t_params sample), i64_array [5, 8] (t_entities sample),
      i64_array [4, 5] (t_constraints sample), f64_array (t_values sample), PyNone,
      i64_array [2] (t_offsets sample), i64_array [8] (t_indices sample)]"
    by code_simp
  moreover have "read_tables (f64_array (t_params sample)) (i64_array [5, 8] (t_entities sample))
      (i64_array [4, 5] (t_constraints sample)) (f64_array (t_values sample)) PyNone
      (i64_array [2] (t_offsets sample)) (i64_array [8] (t_indices sample)) 100 (Fin (1 / 10)) =
    Inr (sample\<lparr>t_fixed := replicate 10 False\<rparr>)"
    by code_simp
  ultimately show ?thesis using arguments_make_tables by blast
qed

end
