(* ===== verification/SketchBounds.thy ===== *)
theory SketchBounds
  imports SketchModel
begin

text \<open>
  No access of the sketch's checks and plans runs past an array, as long as the 64-bit arithmetic of
  the slot lengths does not wrap, and the slot that makes it wrap.
\<close>

section \<open>Results that stay in bounds\<close>

definition in_bounds :: "'a checked \<Rightarrow> bool" where
  "in_bounds r = (r \<noteq> Inl OutOfRange)"

lemma in_bounds_simps [simp]:
  "in_bounds (Inr x)" "in_bounds (Inl (AtEntity row e))" "in_bounds (Inl (AtSpline row s))"
  "in_bounds (Inl (InOffsets oe))" "in_bounds (Inl (AtRow row re))" "in_bounds (Inl (AtPair row a b pe))"
  "in_bounds (Inl (AtCurve row ce))" "in_bounds (Inl (GcsFailed msg))"
  by (simp_all add: in_bounds_def)

lemma in_bounds_bind [intro!]:
  "in_bounds r \<Longrightarrow> (\<And>x. r = Inr x \<Longrightarrow> in_bounds (f x)) \<Longrightarrow> in_bounds (bind_result r f)"
  by (cases r) (auto simp: in_bounds_def)

lemma in_bounds_pair [intro!]: "(\<And>a b. x = (a, b) \<Longrightarrow> in_bounds (f a b)) \<Longrightarrow> in_bounds (case x of (a, b) \<Rightarrow> f a b)"
  by (cases x) simp

lemma in_bounds_loop:
  "(\<And>x s. x \<in> set xs \<Longrightarrow> in_bounds (f x s)) \<Longrightarrow> in_bounds (loop f xs s)"
proof (induction xs arbitrary: s)
  case (Cons x xs)
  then have "in_bounds (f x s)" "\<And>s. in_bounds (loop f xs s)" by auto
  then show ?case by (cases "f x s") (auto simp: in_bounds_def)
qed simp

lemma in_bounds_each: "(\<And>x. x \<in> set xs \<Longrightarrow> in_bounds (f x)) \<Longrightarrow> in_bounds (each f xs)"
proof (induction xs)
  case (Cons x xs)
  then have "in_bounds (f x)" "in_bounds (each f xs)" by auto
  then show ?case by (cases "f x"; cases "each f xs") (auto simp: in_bounds_def)
qed simp

lemma in_bounds_indexing: "ok \<Longrightarrow> in_bounds r \<Longrightarrow> in_bounds (indexing ok r)"
  by (simp add: indexing_def)

lemma in_bounds_loop_keeping:
  assumes "\<And>x s. x \<in> set xs \<Longrightarrow> P s \<Longrightarrow> in_bounds (f x s)"
    and "\<And>x s s'. x \<in> set xs \<Longrightarrow> P s \<Longrightarrow> f x s = Inr s' \<Longrightarrow> P s'"
  shows "P s \<Longrightarrow> in_bounds (loop f xs s)"
  using assms
proof (induction xs arbitrary: s)
  case (Cons x xs)
  then have "in_bounds (f x s)" by simp
  moreover have "in_bounds (loop f xs s')" if "f x s = Inr s'" for s'
    using Cons.IH [of s'] Cons.prems that by (meson list.set_intros)
  ultimately show ?case by (cases "f x s") (auto simp: in_bounds_def)
qed simp

section \<open>Entity rows\<close>

text \<open>The points a row names have their coordinates in range once the point rows are checked.\<close>

definition points_in :: "tables \<Rightarrow> bool" where
  "points_in t = (\<forall>p. is_point t p \<longrightarrow> coords_in t p)"

lemma in_bounds_columns: "row < n_entities t \<Longrightarrow> in_bounds (unused_entity_columns t row start)"
  by (auto simp: unused_entity_columns_def intro!: in_bounds_indexing in_bounds_loop)

lemma in_bounds_param_at:
  "row < n_entities t \<Longrightarrow> length roles = n_params t \<Longrightarrow> in_bounds (param_at t row col roles)"
  by (auto simp: param_at_def Let_def intro!: in_bounds_indexing)

lemma in_bounds_entity_at: "row < n_entities t \<Longrightarrow> in_bounds (entity_at t row col want)"
  by (auto simp: entity_at_def Let_def is_row_def intro!: in_bounds_indexing)

lemmas in_bounds_row = in_bounds_columns in_bounds_param_at in_bounds_entity_at in_bounds_indexing

lemma in_bounds_point: "row < n_entities t \<Longrightarrow> length roles = n_params t \<Longrightarrow> in_bounds (check_point t row roles)"
  by (auto simp: check_point_def check_simps intro!: in_bounds_row)

lemma in_bounds_radius:
  "row < n_entities t \<Longrightarrow> length roles = n_params t \<Longrightarrow> in_bounds (check_radius t row col roles)"
  by (auto simp: check_radius_def check_simps intro!: in_bounds_row)

lemma in_bounds_oval:
  "row < n_entities t \<Longrightarrow> length roles = n_params t \<Longrightarrow> coords_in t c \<Longrightarrow> coords_in t f \<Longrightarrow>
   in_bounds (check_oval t row c f col roles)"
  by (auto simp: check_oval_def check_simps intro!: in_bounds_row)

lemma in_bounds_curves:
  assumes "points_in t" and "row < n_entities t" and "length roles = n_params t"
  shows "in_bounds (check_line t row roles)" "in_bounds (check_circle t row roles)"
    "in_bounds (check_arc t row roles)" "in_bounds (check_ellipse t row roles)"
    "in_bounds (check_elliptic_arc t row roles)"
proof -
  have point: "is_row t p \<Longrightarrow> kind_of t p = Some Point \<Longrightarrow> coords_in t p" for p
    using assms(1) by (simp add: points_in_def is_point_def)
  show "in_bounds (check_line t row roles)" "in_bounds (check_circle t row roles)"
    "in_bounds (check_arc t row roles)" "in_bounds (check_ellipse t row roles)"
    "in_bounds (check_elliptic_arc t row roles)"
    unfolding check_line_def check_circle_def check_arc_def check_ellipse_def check_elliptic_arc_def
    using assms(2,3) point
    by (auto simp: check_simps intro!: in_bounds_row in_bounds_radius in_bounds_oval)
qed

lemma in_bounds_entity:
  "points_in t \<Longrightarrow> row < n_entities t \<Longrightarrow> length roles = n_params t \<Longrightarrow> in_bounds (check_entity t row roles)"
  by (auto simp: check_entity_def in_bounds_curves intro!: in_bounds_row
      split: option.splits sketch_entity.splits)

text \<open>The checks keep the length of the role table.\<close>

lemma check_point_roles: "check_point t row roles = Inr roles' \<Longrightarrow> length roles' = length roles"
  by (auto simp: check_point_def check_simps split: if_splits)

lemma check_entity_roles: "check_entity t row roles = Inr roles' \<Longrightarrow> length roles' = length roles"
  by (cases "ent_kind_at t row" rule: entity_name.cases)
    (auto simp: check_entity_def check_row_defs check_simps split: if_splits)

lemma check_points_in:
  assumes "loop (check_point t) [0..<n_entities t] (replicate (n_params t) 0) = Inr roles"
  shows "points_in t" and "length roles = n_params t"
proof -
  have "row_ok t row" if "row < n_entities t" "ent_kind_at t row = Some Point" for row
    using check_points_loop [OF assms role_table_start] that by simp
  then show "points_in t"
    by (auto simp: points_in_def coords_in_def is_point_def is_row_def kind_of_def row_ok_def row_params_def)
  show "length roles = n_params t"
    by (rule loop_invariant [OF assms, where P = "\<lambda>r. length r = n_params t"]) (auto dest: check_point_roles)
qed

section \<open>Slots\<close>

text \<open>The sizes that keep the arithmetic of a slot inside 64 bits.\<close>

definition small_slots :: "tables \<Rightarrow> bool" where
  "small_slots t = (length (t_indices t) < 2 ^ 62 \<and>
     (\<forall>row < n_entities t. ent_kind_at t row = Some BSpline \<longrightarrow> ent t row 4 < 2 ^ 62))"

lemma wrap64_id: "- (2 ^ 63) \<le> x \<Longrightarrow> x < 2 ^ 63 \<Longrightarrow> wrap64 x = x"
  by (simp add: wrap64_def signed_take_bit_int_eq_self)

lemma slot_parts:
  assumes "slot_length_ok n len" and n: "n < 2 ^ 62" and len: "0 \<le> len" "len < 2 ^ 62"
  shows "2 \<le> n \<and> 0 < knot_count n len \<and> 2 * n + 2 * knot_count n len = len"
proof -
  have n2: "2 \<le> n" using assms(1) by (auto simp: slot_length_ok_def)
  have w: "wrap64 (2 * n) = 2 * n" using n n2 by (intro wrap64_id) simp_all
  have d: "wrap64 (len - 2 * n) = len - 2 * n" using n n2 len by (intro wrap64_id) simp_all
  from assms(1) have "2 * n < len" "(len - 2 * n) mod 2 = 0" by (auto simp: slot_length_ok_def w d)
  then show ?thesis using n2 by (auto simp: knot_count_def w d Let_def)
qed

lemma in_bounds_slot_at:
  "0 \<le> b + k \<Longrightarrow> b + k < int (length (t_indices t)) \<Longrightarrow> in_bounds (slot_at t b k)"
  by (simp add: slot_at_def)

lemma in_bounds_reads_of:
  assumes at: "in_bounds (slot_at t b k)"
  shows "in_bounds (pole_of t row b k acc)"
    and "length roles = n_params t \<Longrightarrow> in_bounds (param_of t row b k rl roles)"
    and "start + j = k \<Longrightarrow> in_bounds (mult_of t row b start degree j ms)"
    and "n + j = k \<Longrightarrow> length (snd ws) = n_params t \<Longrightarrow> in_bounds (weight_of t row b n j ws)"
    and "2 * n + j = k \<Longrightarrow> length (snd ws) = n_params t \<Longrightarrow> in_bounds (knot_of t row b n j ws)"
proof -
  show "in_bounds (pole_of t row b k acc)"
    using at by (auto simp: pole_of_def is_row_def intro!: in_bounds_indexing)
  show param: "length roles = n_params t \<Longrightarrow> in_bounds (param_of t row b k rl roles)" for rl roles
    using at by (auto simp: param_of_def intro!: in_bounds_indexing)
  show "start + j = k \<Longrightarrow> in_bounds (mult_of t row b start degree j ms)" using at by (auto simp: mult_of_def)
  show "n + j = k \<Longrightarrow> length (snd ws) = n_params t \<Longrightarrow> in_bounds (weight_of t row b n j ws)"
    using param by (auto simp: weight_of_def dest!: param_of_ok intro!: in_bounds_indexing)
  show "2 * n + j = k \<Longrightarrow> length (snd ws) = n_params t \<Longrightarrow> in_bounds (knot_of t row b n j ws)"
    using param by (auto simp: knot_of_def)
qed

text \<open>What the loops over a slot collect.\<close>

definition params_in :: "tables \<Rightarrow> int list \<times> nat list \<Rightarrow> bool" where
  "params_in t acc = (list_all (is_param t) (fst acc) \<and> length (snd acc) = n_params t)"

lemma weight_of_keeps: "weight_of t row b n k acc = Inr acc' \<Longrightarrow> params_in t acc \<Longrightarrow> params_in t acc'"
  by (cases acc) (auto simp: params_in_def dest!: weight_of_Inr)

lemma knot_of_keeps: "knot_of t row b n k acc = Inr acc' \<Longrightarrow> params_in t acc \<Longrightarrow> params_in t acc'"
  by (cases acc) (auto simp: params_in_def dest!: knot_of_Inr)

lemma in_bounds_read_slot:
  assumes n: "ent t row 4 < 2 ^ 62" and len: "0 \<le> len" "len < 2 ^ 62"
    and b: "0 \<le> b" "b + len \<le> int (length (t_indices t))"
    and points: "points_in t" and roles: "length roles = n_params t"
  shows "in_bounds (read_slot oc t row b len roles)"
proof (cases "slot_length_ok (ent t row 4) len")
  case True
  let ?n = "ent t row 4"
  let ?m = "knot_count ?n len"
  have parts: "2 \<le> ?n" "0 < ?m" "2 * ?n + 2 * ?m = len" using slot_parts [OF True n len] by auto
  have at: "in_bounds (slot_at t b k)" if "0 \<le> k" "k < len" for k
    using that b by (intro in_bounds_slot_at) simp_all
  have poles: "in_bounds (loop (pole_of t row b) [0..?n - 1] acc)" for acc
    using parts by (intro in_bounds_loop in_bounds_reads_of at) auto
  have weights: "in_bounds (loop (weight_of t row b ?n) [0..?n - 1] acc)" if "params_in t acc" for acc
    using parts that
    by (intro in_bounds_loop_keeping [where P = "params_in t"] in_bounds_reads_of(4) [OF at])
      (auto simp: params_in_def dest: weight_of_keeps [unfolded params_in_def])
  have knots: "in_bounds (loop (knot_of t row b ?n) [0..?m - 1] acc)" if "params_in t acc" for acc
    using parts that
    by (intro in_bounds_loop_keeping [where P = "params_in t"] in_bounds_reads_of(5) [OF at])
      (auto simp: params_in_def dest: knot_of_keeps [unfolded params_in_def])
  have mults: "in_bounds (loop (mult_of t row b (2 * ?n + ?m) d) [0..?m - 1] acc)" for d acc
    using parts by (intro in_bounds_loop in_bounds_reads_of(3) [OF at]) auto
  have pole_rows: "list_all (coords_in t) ps" if "loop (pole_of t row b) ks [] = Inr ps" for ks ps
    using pole_loop [OF that] points by (auto simp: points_in_def list_all_iff)
  have start: "params_in t ([], roles)" using roles by (simp add: params_in_def)
  have weights_in: "params_in t acc" if "loop (weight_of t row b ?n) ks ([], roles) = Inr acc" for ks acc
    by (rule loop_invariant [OF that, where P = "params_in t"]) (use start in \<open>auto dest: weight_of_keeps\<close>)
  have knots_in: "params_in t acc"
    if "loop (knot_of t row b ?n) ks ([], r) = Inr acc" "length r = n_params t" for ks r acc
    by (rule loop_invariant [OF that(1), where P = "params_in t"])
      (use that(2) in \<open>auto simp: params_in_def dest: knot_of_keeps [unfolded params_in_def]\<close>)
  have rest: "in_bounds (case curve_refusal oc c of Some msg \<Rightarrow> Inl (AtSpline row (CurveRefused msg))
      | None \<Rightarrow> Inr x)" for c and x :: "spline \<times> nat list"
    by (simp split: option.split)
  show ?thesis unfolding read_slot_def Let_def
    using True poles weights [OF start] mults pole_rows rest
    by (auto simp: params_in_def intro!: in_bounds_indexing knots
        dest!: weights_in [unfolded params_in_def] knots_in [unfolded params_in_def])
qed (simp add: read_slot_def Let_def)

text \<open>The offsets of a slot, once they are checked.\<close>

lemma check_offsets_Inr:
  assumes "check_offsets t = Inr u" and "t_offsets t \<noteq> []"
  shows "sorted (t_offsets t) \<and> hd (t_offsets t) = 0 \<and> last (t_offsets t) = int (length (t_indices t))"
proof -
  from assms have ends: "hd (t_offsets t) = 0" "last (t_offsets t) = int (length (t_indices t))"
    and steps: "\<forall>k \<in> {1..<length (t_offsets t)}. t_offsets t ! (k - 1) \<le> t_offsets t ! k"
    by (auto simp: check_offsets_def check_simps Let_def loop_unit_iff split: if_split_asm)
  have "t_offsets t ! i \<le> t_offsets t ! Suc i" if "Suc i < length (t_offsets t)" for i
    using bspec [OF steps, of "Suc i"] that by simp
  then have "sorted (t_offsets t)" by (simp add: sorted_iff_nth_Suc)
  with ends show ?thesis by simp
qed

lemma slot_range:
  assumes "sorted off" and "hd off = 0" and "last off = int n" and "Suc i < length (off :: int list)"
  shows "0 \<le> off ! i \<and> off ! i \<le> off ! Suc i \<and> off ! Suc i \<le> int n"
proof -
  have "off \<noteq> []" using assms(4) by auto
  then have "off ! 0 = 0" "off ! (length off - 1) = int n"
    using assms(2,3) by (simp_all add: hd_conv_nth last_conv_nth)
  moreover have "off ! 0 \<le> off ! i" "off ! i \<le> off ! Suc i" "off ! Suc i \<le> off ! (length off - 1)"
    using assms(4) by (auto intro!: sorted_nth_mono [OF assms(1)])
  ultimately show ?thesis by simp
qed

lemma slot_owned_range:
  assumes ok: "sorted (t_offsets t) \<and> hd (t_offsets t) = 0 \<and> last (t_offsets t) = int (length (t_indices t))"
    and small: "small_slots t" and row: "row \<in> set (spline_rows t)" and i: "Suc i < length (t_offsets t)"
  shows "ent t row 4 < 2 ^ 62 \<and> 0 \<le> t_offsets t ! i \<and>
    0 \<le> t_offsets t ! Suc i - t_offsets t ! i \<and> t_offsets t ! Suc i - t_offsets t ! i < 2 ^ 62 \<and>
    t_offsets t ! Suc i \<le> int (length (t_indices t))"
proof -
  have "ent t row 4 < 2 ^ 62" and "int (length (t_indices t)) < 2 ^ 62"
    using small row by (auto simp: small_slots_def spline_rows_def)
  moreover have "0 \<le> t_offsets t ! i" "t_offsets t ! i \<le> t_offsets t ! Suc i"
    "t_offsets t ! Suc i \<le> int (length (t_indices t))"
    using slot_range [OF _ _ _ i] ok by auto
  ultimately show ?thesis by simp
qed

lemma in_bounds_check_spline:
  assumes ok: "sorted (t_offsets t) \<and> hd (t_offsets t) = 0 \<and> last (t_offsets t) = int (length (t_indices t))"
    and small: "small_slots t" and row: "row \<in> set (spline_rows t)"
    and len: "length (sl_owner s) = length (t_offsets t) - 1"
    and points: "points_in t" and roles: "length (sl_roles s) = n_params t"
  shows "in_bounds (check_spline oc t row s)"
proof -
  let ?i = "nat (ent t row 1)"
  have "in_bounds (read_slot oc t row (t_offsets t ! ?i) (t_offsets t ! Suc ?i - t_offsets t ! ?i) (sl_roles s))"
    if "?i < length (sl_owner s)"
  proof -
    have "Suc ?i < length (t_offsets t)" using that len by simp
    from slot_owned_range [OF ok small row this] show ?thesis
      by (intro in_bounds_read_slot points roles) simp_all
  qed
  moreover have "row < n_entities t" using row by (simp add: spline_rows_def)
  ultimately show ?thesis using len by (auto simp: check_spline_def Let_def intro!: in_bounds_indexing)
qed

lemma read_slot_roles:
  assumes "read_slot oc t row b len roles = Inr (sp, roles')" and "length roles = n_params t"
  shows "length roles' = n_params t"
proof -
  from assms(1) obtain ks weights r1 js knots where
    "loop (weight_of t row b (ent t row 4)) ks ([], roles) = Inr (weights, r1)"
    and knots: "loop (knot_of t row b (ent t row 4)) js ([], r1) = Inr (knots, roles')"
    by (auto simp: read_slot_def Let_def check_simps split: if_splits option.splits)
  from loop_invariant [OF this(1), where P = "params_in t"] assms(2) have "length r1 = n_params t"
    by (auto simp: params_in_def dest: weight_of_keeps [unfolded params_in_def])
  with loop_invariant [OF knots, where P = "params_in t"] show ?thesis
    by (auto simp: params_in_def dest: knot_of_keeps [unfolded params_in_def])
qed

lemma check_spline_keeps:
  assumes "check_spline oc t row s = Inr s'"
  shows "length (sl_owner s') = length (sl_owner s)"
    and "length (sl_roles s) = n_params t \<Longrightarrow> length (sl_roles s') = n_params t"
  using assms by (auto simp: check_spline_def Let_def check_simps dest: read_slot_roles split: if_split_asm)

text \<open>A slot whose length is accepted leaves at least one knot, so at least one multiplicity.\<close>

lemma read_slot_mults:
  assumes "read_slot oc t row b len roles = Inr (sp, roles')" and "ent t row 4 < 2 ^ 62" "0 \<le> len" "len < 2 ^ 62"
  shows "sp_mults sp \<noteq> []"
proof -
  let ?m = "knot_count (ent t row 4) len"
  from assms(1) obtain st d where len: "slot_length_ok (ent t row 4) len"
    and mults: "loop (mult_of t row b st d) [0..?m - 1] [] = Inr (sp_mults sp)"
    by (auto simp: read_slot_def Let_def check_simps split: if_splits option.splits)
  have "0 < ?m" using slot_parts [OF len assms(2-4)] by simp
  with mult_loop [OF mults] show ?thesis by auto
qed

lemma check_spline_mults:
  assumes ok: "sorted (t_offsets t) \<and> hd (t_offsets t) = 0 \<and> last (t_offsets t) = int (length (t_indices t))"
    and small: "small_slots t" and row: "row \<in> set (spline_rows t)"
    and run: "check_spline oc t row s = Inr s'" and before: "\<forall>k sp. sl_splines s k = Some sp \<longrightarrow> sp_mults sp \<noteq> []"
  shows "\<forall>k sp. sl_splines s' k = Some sp \<longrightarrow> sp_mults sp \<noteq> []"
proof -
  let ?i = "nat (ent t row 1)"
  from run obtain sp roles where i: "Suc ?i < length (t_offsets t)"
    and read: "read_slot oc t row (t_offsets t ! ?i) (t_offsets t ! Suc ?i - t_offsets t ! ?i) (sl_roles s) =
      Inr (sp, roles)"
    and s': "sl_splines s' = (sl_splines s)(row \<mapsto> sp)"
    by (auto simp: check_spline_def Let_def check_simps split: if_splits)
  have "sp_mults sp \<noteq> []" using slot_owned_range [OF ok small row i] by (intro read_slot_mults [OF read]) auto
  with before show ?thesis by (simp add: s')
qed

lemma check_entities_knots:
  assumes small: "small_slots t" and run: "check_entities oc t = Inr (roles, splines)"
  shows "\<forall>sp \<in> ran splines. sp_mults sp \<noteq> []"
proof -
  from run obtain r2 where rest: "check_splines oc t r2 = Inr (roles, splines)"
    by (auto simp: check_entities_def check_simps)
  have "\<forall>k sp. splines k = Some sp \<longrightarrow> sp_mults sp \<noteq> []"
  proof (cases "t_offsets t = []")
    case True
    with rest show ?thesis by (auto simp: check_splines_def Let_def split: if_splits)
  next
    case False
    with rest obtain u s where off: "check_offsets t = Inr u"
      and run: "loop (check_spline oc t) (spline_rows t)
        \<lparr>sl_owner = replicate (length (t_offsets t) - 1) (-1), sl_roles = r2, sl_splines = Map.empty\<rparr> = Inr s"
      and out: "splines = sl_splines s"
      by (auto simp: check_splines_def Let_def check_simps)
    show ?thesis unfolding out
      by (rule loop_invariant [OF run, where P = "\<lambda>s. \<forall>k sp. sl_splines s k = Some sp \<longrightarrow> sp_mults sp \<noteq> []"])
        (use check_spline_mults [OF check_offsets_Inr [OF off False] small] in \<open>simp | blast\<close>)+
  qed
  then show ?thesis by (auto simp: ran_def)
qed

lemma in_bounds_spline_loop:
  assumes ok: "sorted (t_offsets t) \<and> hd (t_offsets t) = 0 \<and> last (t_offsets t) = int (length (t_indices t))"
    and small: "small_slots t" and points: "points_in t"
  shows "set rows \<subseteq> set (spline_rows t) \<Longrightarrow>
    length (sl_owner s) = length (t_offsets t) - 1 \<and> length (sl_roles s) = n_params t \<Longrightarrow>
    in_bounds (loop (check_spline oc t) rows s)"
  by (rule in_bounds_loop_keeping
      [where P = "\<lambda>s. length (sl_owner s) = length (t_offsets t) - 1 \<and> length (sl_roles s) = n_params t"])
    (auto intro!: in_bounds_check_spline [OF ok small] points dest: check_spline_keeps)

lemma in_bounds_check_splines:
  assumes small: "small_slots t" and points: "points_in t" and roles: "length roles = n_params t"
  shows "in_bounds (check_splines oc t roles)"
proof (cases "t_offsets t = []")
  case False
  have "in_bounds (check_offsets t)"
    using False by (auto simp: check_offsets_def Let_def intro!: in_bounds_indexing in_bounds_loop)
  moreover have "in_bounds (loop (check_spline oc t) (spline_rows t)
      \<lparr>sl_owner = replicate (length (t_offsets t) - 1) (-1), sl_roles = roles, sl_splines = Map.empty\<rparr>)"
    if "check_offsets t = Inr u" for u
    using check_offsets_Inr [OF that False] roles by (intro in_bounds_spline_loop small points) auto
  moreover have "in_bounds (loop (\<lambda>k _. indexing (k < length (sl_owner s))
      (if sl_owner s ! k < 0 then Inl (InOffsets (SlotUnnamed k)) else Inr ())) [0..<length (sl_owner s)] u)"
    for s u by (intro in_bounds_loop in_bounds_indexing) simp_all
  ultimately show ?thesis using False by (auto simp: check_splines_def Let_def)
qed (simp add: check_splines_def Let_def)

lemma in_bounds_check_entities:
  assumes small: "small_slots t"
  shows "in_bounds (check_entities oc t)"
  unfolding check_entities_def
proof (intro in_bounds_bind)
  show "in_bounds (loop (check_point t) [0..<n_entities t] (replicate (n_params t) 0))"
    by (rule in_bounds_loop_keeping [where P = "\<lambda>r. length r = n_params t"])
      (auto intro: in_bounds_point dest: check_point_roles)
next
  fix r1 assume r1: "loop (check_point t) [0..<n_entities t] (replicate (n_params t) 0) = Inr r1"
  note points = check_points_in [OF r1]
  show "in_bounds (loop (check_entity t) [0..<n_entities t] r1)"
    by (rule in_bounds_loop_keeping [where P = "\<lambda>r. length r = n_params t"])
      (use points in \<open>auto intro: in_bounds_entity dest: check_entity_roles\<close>)
  fix r2 assume r2: "loop (check_entity t) [0..<n_entities t] r1 = Inr r2"
  have "length r2 = n_params t"
    by (rule loop_invariant [OF r2, where P = "\<lambda>r. length r = n_params t"])
      (use points in \<open>auto dest: check_entity_roles\<close>)
  then show "in_bounds (check_splines oc t r2)" by (rule in_bounds_check_splines [OF small points(1)])
qed

section \<open>Constraint rows\<close>

lemma in_bounds_operands:
  assumes "row < n_constraints t"
  shows "in_bounds (operand t row col)" "in_bounds (optional_point t row col)" "in_bounds (two t row)"
    "in_bounds (unused_constraint_columns t row start)" "is_row t e \<Longrightarrow> in_bounds (need t row e col kinds)"
proof -
  show op: "in_bounds (operand t row col)" for col
    using assms by (auto simp: operand_def Let_def intro!: in_bounds_indexing)
  show "in_bounds (optional_point t row col)"
    using assms op by (auto simp: optional_point_def check_simps intro!: in_bounds_indexing)
  show "in_bounds (two t row)" using op by (auto simp: two_def)
  show "in_bounds (unused_constraint_columns t row start)"
    using assms by (auto simp: unused_constraint_columns_def intro!: in_bounds_indexing in_bounds_loop)
  show "is_row t e \<Longrightarrow> in_bounds (need t row e col kinds)"
    by (auto simp: need_def intro!: in_bounds_indexing)
qed

lemma in_bounds_spline_of:
  assumes "sketch_ok t roles splines" and "is_row t e" and "kind_of t e = Some BSpline"
  shows "in_bounds (spline_of splines e)"
  using sketch_ok_spline [OF assms] by (auto simp: spline_of_def)

lemma spline_ok_ends:
  assumes "spline_ok t sp"
  shows "ends_in t sp" and "\<forall>p \<in> set (sp_poles sp). is_row t p"
proof -
  have "sp_poles sp \<noteq> []" and "\<forall>p \<in> set (sp_poles sp). is_row t p"
    using assms by (auto simp: spline_ok_def is_point_def)
  moreover from this(1) have "hd (sp_poles sp) \<in> set (sp_poles sp)" "last (sp_poles sp) \<in> set (sp_poles sp)"
    by simp_all
  ultimately show "ends_in t sp" and "\<forall>p \<in> set (sp_poles sp). is_row t p" by (auto simp: ends_in_def)
qed

lemma in_bounds_side:
  assumes ok: "sketch_ok t roles splines" and "is_row t e" and "p = -1 \<or> is_point t p"
    and knots: "\<forall>sp \<in> ran splines. sp_mults sp \<noteq> []"
  shows "in_bounds (curve_side t splines row p e)"
proof -
  have "sp_mults sp \<noteq> [] \<and> (0 \<le> p \<longrightarrow> is_row t p \<and> ends_in t sp)"
    if "splines (nat e) = Some sp" for sp
    using that ok knots assms(3) by (auto simp: sketch_ok_def is_point_def intro: ranI spline_ok_ends)
  then show ?thesis using assms(2)
    by (auto simp: curve_side_def Let_def check_simps intro!: in_bounds_indexing in_bounds_spline_of [OF ok])
qed

lemma curves_refused_bounds: "curves_refused t tangent row a b = Some e \<Longrightarrow> e \<noteq> OutOfRange"
  by (auto simp: curves_refused_def Let_def split: if_split_asm)

lemma in_bounds_plan_curves:
  assumes ok: "sketch_ok t roles splines" and row: "row < n_constraints t"
    and knots: "\<forall>sp \<in> ran splines. sp_mults sp \<noteq> []"
  shows "in_bounds (plan_curves t splines row tangent pl)"
proof -
  have "in_bounds (case curves_map tangent hp ka ea kb eb of None \<Rightarrow> Inl (AtPair row a b NeedsPoint)
      | Some m \<Rightarrow> Inr (f m))" for hp ka ea kb eb a b f
    by (simp split: option.split)
  then show ?thesis
    by (auto simp: plan_curves_def check_simps in_bounds_operands [OF row] in_bounds_side [OF ok _ _ knots]
        in_bounds_def [of "Inl _"] intro!: in_bounds_indexing dest: curves_refused_bounds split: option.split)
qed

lemma in_bounds_points_params: "list_all (is_row t) ps \<Longrightarrow> in_bounds (points_params t ps)"
  by (simp add: points_params_def in_bounds_indexing)

lemma in_bounds_entity_params:
  assumes ok: "sketch_ok t roles splines" and a: "is_row t a"
  shows "in_bounds (entity_params t splines a)"
proof -
  have row: "row_ok t (nat a)" using ok a by (rule sketch_ok_row)
  have spline: "list_all (is_row t) (sp_poles sp)" if "splines (nat a) = Some sp" for sp
  proof -
    have "spline_ok t sp" using that ok by (auto simp: sketch_ok_def intro: ranI)
    then show ?thesis using spline_ok_ends(2) by (simp add: list_all_iff)
  qed
  show ?thesis
    by (cases "ent_kind_at t (nat a)" rule: entity_name.cases)
      (use a row spline in \<open>auto simp: entity_params_def Let_def kind_of_def row_ok_def row_points_def is_point_def
        check_simps intro!: in_bounds_indexing in_bounds_points_params in_bounds_spline_of [OF ok]\<close>)
qed

lemma in_bounds_plan_rigid:
  assumes ok: "sketch_ok t roles splines" and row: "row < n_constraints t" and "length (t_fixed t) = n_params t"
  shows "in_bounds (plan_rigid t splines row pl)"
proof -
  have "list_all (\<lambda>i. 0 \<le> i \<and> nat i < length (t_fixed t)) ps"
    if "entity_params t splines a = Inr ps" "is_row t a" for a ps
    using entity_params_ok [OF that(1) ok that(2)] assms(3) by (auto simp: list_all_iff is_param_def)
  then show ?thesis
    by (auto simp: plan_rigid_def Let_def check_simps in_bounds_operands [OF row] in_bounds_entity_params [OF ok]
        intro!: in_bounds_indexing)
qed

lemma in_bounds_plan_internal:
  assumes ok: "sketch_ok t roles splines" and row: "row < n_constraints t"
  shows "in_bounds (plan_internal t splines row pl)"
  using in_bounds_spline_of [OF ok] row
  by (auto simp: plan_internal_def Let_def check_simps in_bounds_operands [OF row] intro!: in_bounds_indexing)

lemma in_bounds_plan_midpoint:
  assumes ok: "sketch_ok t roles splines" and row: "row < n_constraints t"
  shows "in_bounds (plan_midpoint t row pl)"
proof -
  have "is_param t (ent t (nat b) (if kind_of t b = Some Arc then 5 else 6)) \<and>
      is_param t (ent t (nat b) (if kind_of t b = Some Arc then 6 else 7))"
    if "is_row t b" "kind_of t b = Some Arc \<or> kind_of t b = Some EllipticArc" for b
    using sketch_ok_row [OF ok that(1)] that(2) by (auto simp: row_ok_def row_params_def kind_of_def)
  from this [of "con t row 2"] show ?thesis
    by (auto simp: plan_midpoint_def Let_def check_simps in_bounds_operands [OF row] intro!: in_bounds_indexing)
qed

lemma in_bounds_plan_collinear:
  assumes ok: "sketch_ok t roles splines" and row: "row < n_constraints t"
  shows "in_bounds (plan_collinear t row pl)"
proof -
  have "is_row t (ent t (nat a) 1) \<and> is_row t (ent t (nat a) 2)"
    if "is_row t a" "kind_of t a = Some Line" for a
    using sketch_ok_row [OF ok that(1)] that(2) by (auto simp: row_ok_def row_points_def kind_of_def is_point_def)
  then show ?thesis
    by (auto simp: plan_collinear_def Let_def check_simps in_bounds_operands [OF row] intro!: in_bounds_indexing)
qed

lemma in_bounds_plans:
  assumes row: "row < n_constraints t"
  shows "in_bounds (plan_coincident t row pl)" "in_bounds (plan_two_lines t row pl)"
    "in_bounds (plan_one t row kinds pl)" "in_bounds (plan_equal t row pl)"
    "row < length (t_values t) \<Longrightarrow> in_bounds (plan_distance t row pl)" "in_bounds (plan_symmetric t row pl)"
  using row
  by (auto simp: plan_coincident_def plan_two_lines_def plan_one_def plan_equal_def
      plan_distance_def plan_symmetric_def Let_def check_simps in_bounds_operands [OF row] intro!: in_bounds_indexing)

lemma in_bounds_check_constraints:
  assumes ok: "sketch_ok t roles splines" and tables: "tables_ok t"
    and knots: "\<forall>sp \<in> ran splines. sp_mults sp \<noteq> []"
  shows "in_bounds (check_constraints t splines)"
proof -
  have lengths: "length (t_values t) = n_constraints t" "length (t_fixed t) = n_params t"
    using tables by (simp_all add: tables_ok_def)
  have "in_bounds (plan_kind t splines row k)" if "row < n_constraints t" for row k
    using that lengths
    by (cases k) (simp_all add: plan_kind_def Let_def in_bounds_plan_curves [OF ok _ knots] in_bounds_plan_rigid [OF ok]
        in_bounds_plan_internal [OF ok] in_bounds_plan_midpoint [OF ok] in_bounds_plan_collinear [OF ok] in_bounds_plans)
  moreover have "in_bounds (check_value row k v)" for row k v by (auto simp: check_value_def)
  ultimately have "in_bounds (plan_row t splines row)" if "row < n_constraints t" for row
    using that lengths by (auto simp: plan_row_def intro!: in_bounds_indexing split: option.split)
  then show ?thesis unfolding check_constraints_def by (intro in_bounds_each) simp
qed

lemma in_bounds_run_solver: "in_bounds (run_solver g s)"
proof -
  have attempt: "in_bounds (attempt g alg s)" for alg s
    by (auto simp: attempt_def split: sum.split)
  have "in_bounds (attempts g algs r)" for algs r
  proof (induction algs arbitrary: r)
    case (Cons alg algs)
    then show ?case using attempt by (cases r) auto
  qed simp
  with attempt show ?thesis by (auto simp: run_solver_def)
qed

text \<open>
  C25. No access of the checks and the plans of a sketch runs past an array. For tables as the
  argument checks make them, whatever they hold, every index the code uses is inside its array when
  it uses it: rows and columns of the entities and the constraints, parameters, roles, values, fixed
  flags, slot offsets and indices, slot owners, B-splines of rows, their end poles and end
  multiplicities; so no run of the solver ends in \<open>OutOfRange\<close>. The bound on the sizes of the
  slots, two to the 62, is needed: the code's own check of a slot's length wraps beyond it.
\<close>

theorem reads_stay_in_bounds:
  assumes "tables_ok t" and "small_slots t"
  shows "check_entities oc t \<noteq> Inl OutOfRange \<and>
    (\<forall>roles splines. check_entities oc t = Inr (roles, splines) \<longrightarrow>
       check_constraints t splines \<noteq> Inl OutOfRange) \<and>
    solve g st t \<noteq> Inl OutOfRange"
proof -
  have plans: "in_bounds (check_constraints t splines)" if "check_entities oc t = Inr (roles, splines)" for oc roles splines
    using that by (intro in_bounds_check_constraints [OF _ assms(1)] check_entities_ok check_entities_knots [OF assms(2)])
  then have "in_bounds (solve g st t)"
    using in_bounds_check_entities [OF assms(2)] in_bounds_run_solver
    by (auto simp: solve_def Let_def)
  then show ?thesis using in_bounds_check_entities [OF assms(2), of oc] plans by (auto simp: in_bounds_def)
qed

lemma reads_stay_in_bounds_witness: "solve plain_gcs plain_settings sample \<noteq> Inl OutOfRange"
proof -
  have "tables_ok sample"
    and "list_all (\<lambda>row. ent_kind_at sample row = Some BSpline \<longrightarrow> ent sample row 4 < 10) [0..<n_entities sample]"
    and "length (t_indices sample) = 8"
    by code_simp+
  moreover from this have "small_slots sample" by (fastforce simp: small_slots_def list_all_iff)
  ultimately show ?thesis using reads_stay_in_bounds by blast
qed

text \<open>
  Without that bound the check of a slot's length does not hold: a B-spline row that asks for
  two to the 62 poles passes it although its slot is empty, because twice that count wraps to a
  negative number, and the next read is past the end of the array.
\<close>

definition wrapped :: tables where
  "wrapped = \<lparr>t_params = [], t_entities = [7, 0, 1, 0, 2 ^ 62, -1, -1, -1], t_constraints = [],
     t_values = [], t_fixed = [], t_offsets = [0, 0], t_indices = []\<rparr>"

theorem slot_length_wraps:
  "tables_ok wrapped \<and> slot_length_ok (ent wrapped 0 4) 0 \<and> solve g st wrapped = Inl OutOfRange"
proof -
  have tables: "tables_ok wrapped" and len: "slot_length_ok (ent wrapped 0 4) 0" by code_simp+
  have facts: "n_params wrapped = 0" "n_entities wrapped = 1" "ent_kind_at wrapped 0 = Some BSpline"
    "spline_rows wrapped = [0]" "t_offsets wrapped = [0, 0]" "ent wrapped 0 (Suc 0) = 0" "ent wrapped 0 2 = 1"
    "ent wrapped 0 3 = 0" "ent wrapped 0 4 = 2 ^ 62" "check_offsets wrapped = Inr ()"
    "unused_entity_columns wrapped 0 5 = Inr ()" "slot_at wrapped 0 0 = Inl OutOfRange"
    by code_simp+
  have poles: "loop (pole_of wrapped 0 0) [0..2 ^ 62 - 1] [] = Inl OutOfRange"
    by (subst upto_rec1) (simp_all add: pole_of_def facts)
  have "read_slot oc wrapped 0 0 0 [] = Inl OutOfRange" for oc
    using len by (simp add: read_slot_def Let_def facts poles [simplified])
  then have "check_spline oc wrapped 0 s = Inl OutOfRange" if "sl_owner s = [-1]" "sl_roles s = []" for oc s
    using that by (simp add: check_spline_def Let_def facts indexing_def)
  then have "check_entities oc wrapped = Inl OutOfRange" for oc
    by (simp add: check_entities_def check_splines_def check_point_def check_entity_def facts Let_def indexing_def)
  then show ?thesis using tables len by (simp add: solve_def)
qed

end
