(* ===== verification/HistoryProps.thy ===== *)
theory HistoryProps
  imports Histories Model
begin

text \<open>
  What the composed history of several OCCT runs says, against the composition of the runs.
\<close>

text \<open>
  C29. The history \<^verbatim>\<open>compose_histories\<close> fills refines the composition of the steps: for a
  sub-shape of the input its Modified calls name, up to \<^verbatim>\<open>IsSame\<close>, exactly the shapes of its kind
  the steps make of it (and none when they leave it the only image of itself), and its Generated
  calls exactly what some step generates from it and the later steps make of that, less its images
  and itself; and every shape named is one the steps really made.
\<close>

theorem composed_history_refines_the_steps:
  assumes "steps_ok steps" and "maps_ok M input"
    and "k \<in> set kEntityKinds" and "s \<in> set (M input k)" and "same_kinds steps s"
  shows "represents (modified_in (compose_histories M input steps) s) (spec_modified steps s) \<and>
    represents (generated_in (compose_histories M input steps) s) (spec_generated steps s)"
proof -
  from assms(2,4) have "shape_type s = k" by (simp add: maps_ok_def)
  then show ?thesis
    unfolding calls_of_shape [OF assms(2,4,3)] using compose_shape_calls [OF assms(1,5)] by simp
qed

text \<open>
  Two runs with a null history between them: the first cuts the block's face in two, the second
  replaces one half and makes an edge from it.
\<close>

definition mend_history :: history where
  "mend_history = \<lparr>hist_modified = (\<lambda>s. if tshape s = 202 then [face_at 402] else []),
     hist_generated = (\<lambda>s. if tshape s = 202 then [edge_at 500] else []), hist_removed = (\<lambda>_. False)\<rparr>"

definition two_runs :: "history option list" where
  "two_runs = [Some cut_history, None, Some mend_history]"

lemma two_runs_ok: "steps_ok two_runs" "maps_ok walk_map (block_at 100)" "face_at 102 \<in> set (walk_map (block_at 100) FACE)"
  "same_kinds two_runs (face_at 102)"
proof -
  show "steps_ok two_runs"
    by (auto simp: two_runs_def hist_ok_def is_same_def skey_def cut_history_def mend_history_def steps_ok_def)
  show "maps_ok walk_map (block_at 100)"
    using walk_map_ok by (simp add: maps_ok_def)
  show "face_at 102 \<in> set (walk_map (block_at 100) FACE)"
    by (simp add: walk_map_def block_defs append_unique_def)
  show "same_kinds two_runs (face_at 102)"
    by (auto simp: same_kinds_def two_runs_def moves_to_def cut_history_def mend_history_def cut_face_def block_defs)
qed

text \<open>The calls of the face: both halves, the first as the second run leaves it, and the new edge.\<close>

lemma two_runs_calls:
  "modified_in (compose_shape two_runs FACE (face_at 102)) (face_at 102) = {face_at 402, face_at 302}"
  "generated_in (compose_shape two_runs FACE (face_at 102)) (face_at 102) = {edge_at 500}"
  by (auto simp: modified_in_def generated_in_def compose_shape_def images_def compose_step_def two_runs_def
      through_def cut_history_def mend_history_def cut_face_def block_defs append_unique_def append_all_def
      is_same_def skey_def)

theorem composed_history_witness:
  "represents {face_at 402, face_at 302} (spec_modified two_runs (face_at 102)) \<and>
   represents {edge_at 500} (spec_generated two_runs (face_at 102))"
proof -
  have k: "FACE \<in> set kEntityKinds" by (simp add: kEntityKinds_def)
  from composed_history_refines_the_steps [OF two_runs_ok(1,2) k two_runs_ok(3,4)]
  show ?thesis unfolding calls_of_shape [OF two_runs_ok(2,3) k] two_runs_calls .
qed

end
