(* ===== verification/BlockFacts.thy ===== *)
theory BlockFacts
  imports BlockCheck
begin

text \<open>
  What the table of the relations holds, what the searches make of it, and when the check says
  that the blocks are glued and connected.
\<close>

section \<open>The relation table\<close>

lemma if_either: "(if P then c else if Q then c else x) = (if P \<or> Q then c else x)"
  by simp

lemma set_relation_eq:
  assumes "set_relation n i j c R = Inr R'"
  shows "i \<in> {1..n} \<and> j \<in> {1..n}"
    and "R' = (\<lambda>a b. if (a = i \<and> b = j) \<or> (a = j \<and> b = i) then c else R a b)"
proof -
  from assms have ij: "i \<in> {1..n} \<and> j \<in> {1..n}" by (simp add: set_relation_def split: if_splits)
  with assms have "Inr (set_value j i c (set_value i j c R)) = (Inr R' :: (block_stop, relations) result)"
    unfolding set_relation_def if_P [OF ij] by simp
  then have "R' = set_value j i c (set_value i j c R)" by simp
  also have "\<dots> = (\<lambda>a b. if (a = i \<and> b = j) \<or> (a = j \<and> b = i) then c else R a b)"
    unfolding set_value_def if_either by (simp only: disj_ac)
  finally show "R' = (\<lambda>a b. if (a = i \<and> b = j) \<or> (a = j \<and> b = i) then c else R a b)" .
  show "i \<in> {1..n} \<and> j \<in> {1..n}" by (rule ij)
qed

lemma set_relation_stop: "set_relation n i j c R \<noteq> Inl OutOfFuel"
  by (simp add: set_relation_def)

text \<open>The indices of neighbours in the list of a face's blocks, either way round.\<close>

fun linked :: "shape list \<Rightarrow> shape list \<Rightarrow> nat \<times> nat \<Rightarrow> bool" where
  "linked keys (a # b # bs) ij =
     (ij = (index_in keys a, index_in keys b) \<or> ij = (index_in keys b, index_in keys a) \<or>
      linked keys (b # bs) ij)"
| "linked keys _ ij = False"

lemma glue_row_eq:
  "glue_row n keys bs R = Inr R' \<Longrightarrow>
     R' = (\<lambda>a b. if linked keys bs (a, b) then REL_OK else R a b)"
proof (induction bs arbitrary: R rule: induct_list012)
  case (3 a b bs)
  from 3(3) obtain R1 where R1: "set_relation n (index_in keys a) (index_in keys b) REL_OK R = Inr R1"
    and rest: "glue_row n keys (b # bs) R1 = Inr R'" by (auto split: sum.splits)
  show ?case unfolding 3(2) [OF rest] set_relation_eq(2) [OF R1] linked.simps prod.inject if_either
    by (simp only: disj_ac)
qed simp_all

lemma glued_relations_eq:
  assumes "glued_relations n keys faces = Inr R"
  shows "R = (\<lambda>a b. if \<exists>(f, bs) \<in> set faces. linked keys bs (a, b) then REL_OK else REL_NOT_CONNECTED)"
proof -
  have "R' = (\<lambda>a b. if \<exists>(f, bs) \<in> set faces. linked keys bs (a, b) then REL_OK else R0 a b)"
    if "loop (\<lambda>(f, bs). glue_row n keys bs) faces R0 = Inr R'" for faces R0 R'
    using that
  proof (induction faces arbitrary: R0)
    case (Cons x faces)
    obtain f bs where x: "x = (f, bs)" by (cases x)
    with Cons.prems obtain R1 where R1: "glue_row n keys bs R0 = Inr R1"
      and rest: "loop (\<lambda>(f, bs). glue_row n keys bs) faces R1 = Inr R'" by (auto split: sum.splits)
    show ?case unfolding Cons.IH [OF rest] glue_row_eq [OF R1] x by (auto simp: fun_eq_iff)
  qed simp
  from this [OF assms [unfolded glued_relations_def]] show ?thesis unfolding rel_init_def .
qed

lemma unglued_relations_eq:
  assumes "unglued_relations n keys pairs R = Inr R'"
  shows "R' = (\<lambda>a b. if \<exists>(p, q) \<in> set pairs. (a, b) = (index_in keys p, index_in keys q) \<or>
      (a, b) = (index_in keys q, index_in keys p) then bc_error_code NOT_GLUED else R a b)"
  using assms unfolding unglued_relations_def
proof (induction pairs arbitrary: R)
  case (Cons x pairs)
  obtain p q where x: "x = (p, q)" by (cases x)
  with Cons.prems obtain R1 where
    step: "set_relation n (index_in keys p) (index_in keys q) (bc_error_code NOT_GLUED) R = Inr R1"
    and rest: "loop (\<lambda>(a, b). set_relation n (index_in keys a) (index_in keys b) (bc_error_code NOT_GLUED)) pairs R1 = Inr R'"
    by (auto split: sum.splits)
  show ?case unfolding Cons.IH [OF rest] set_relation_eq(2) [OF step] x list.set bex_simps prod.case prod.inject if_either
    by (simp only: disj_ac)
qed simp

lemma linked_sym: "linked keys bs (a, b) = linked keys bs (b, a)"
  by (induction bs rule: induct_list012) auto

lemma glued_symmetric: "glued_relations n keys faces = Inr R \<Longrightarrow> symmetric R"
  using linked_sym [of keys] unfolding symmetric_def by (drule_tac glued_relations_eq) simp

lemma unglued_symmetric: "unglued_relations n keys pairs R = Inr R' \<Longrightarrow> symmetric R \<Longrightarrow> symmetric R'"
  unfolding symmetric_def by (drule_tac unglued_relations_eq) (auto simp: disj_commute)

section \<open>Sharing faces\<close>

text \<open>Blocks joined by a face: the face lists them both.\<close>

definition sharing :: "nat \<Rightarrow> shape list \<Rightarrow> ancestors \<Rightarrow> nat rel" where
  "sharing n keys faces = {(i, j). i \<in> {1..n} \<and> j \<in> {1..n} \<and>
     (\<exists>(f, bs) \<in> set faces. i \<in> index_in keys ` set bs \<and> j \<in> index_in keys ` set bs)}"

lemma linked_set: "linked keys bs (i, j) \<Longrightarrow> i \<in> index_in keys ` set bs \<and> j \<in> index_in keys ` set bs"
  by (induction bs rule: induct_list012) auto

text \<open>The neighbours of a list chain all of it.\<close>

lemma linked_chain:
  "a \<in> set bs \<Longrightarrow> b \<in> set bs \<Longrightarrow>
   (index_in keys a, index_in keys b) \<in> {(i, j). linked keys bs (i, j)}\<^sup>*"
proof (induction bs arbitrary: a b)
  case (Cons x bs)
  let ?L = "\<lambda>bs. {(i, j). linked keys bs (i, j)}"
  show ?case
  proof (cases bs)
    case (Cons y ys)
    have sub: "?L bs \<subseteq> ?L (x # bs)" by (auto simp: Cons)
    have tail: "(index_in keys c, index_in keys d) \<in> (?L (x # bs))\<^sup>*" if "c \<in> set bs" "d \<in> set bs" for c d
      using Cons.IH [OF that] rtrancl_mono [OF sub] by blast
    have "(index_in keys x, index_in keys y) \<in> ?L (x # bs)" "(index_in keys y, index_in keys x) \<in> ?L (x # bs)"
      by (simp_all add: Cons)
    then have "(index_in keys c, index_in keys y) \<in> (?L (x # bs))\<^sup>* \<and>
        (index_in keys y, index_in keys c) \<in> (?L (x # bs))\<^sup>*" if "c \<in> set (x # bs)" for c
      using that tail [of c y] tail [of y c] by (auto simp: Cons)
    with Cons.prems show ?thesis by (meson rtrancl_trans)
  qed (use Cons.prems in simp)
qed simp

lemma glue_row_bounds: "glue_row n keys bs R = Inr R' \<Longrightarrow> linked keys bs (i, j) \<Longrightarrow> i \<in> {1..n} \<and> j \<in> {1..n}"
proof (induction bs arbitrary: R rule: induct_list012)
  case (3 a b bs)
  from 3(3) obtain R1 where R1: "set_relation n (index_in keys a) (index_in keys b) REL_OK R = Inr R1"
    and rest: "glue_row n keys (b # bs) R1 = Inr R'" by (auto split: sum.splits)
  from set_relation_eq(1) [OF R1] 3(2) [OF rest] 3(4) show ?case by auto
qed simp_all

lemma glued_bounds:
  assumes "glued_relations n keys faces = Inr R" and "(f, bs) \<in> set faces" and "linked keys bs (i, j)"
  shows "i \<in> {1..n} \<and> j \<in> {1..n}"
proof -
  have "i \<in> {1..n} \<and> j \<in> {1..n}"
    if "loop (\<lambda>(f, bs). glue_row n keys bs) faces R0 = Inr R" "(f, bs) \<in> set faces" for R0
    using that
  proof (induction faces arbitrary: R0)
    case (Cons x faces)
    obtain f' bs' where x: "x = (f', bs')" by (cases x)
    with Cons.prems(1) obtain R1 where R1: "glue_row n keys bs' R0 = Inr R1"
      and rest: "loop (\<lambda>(f, bs). glue_row n keys bs) faces R1 = Inr R" by (auto split: sum.splits)
    show ?case using Cons.IH [OF rest] Cons.prems(2) glue_row_bounds [OF R1] assms(3) x by auto
  qed simp
  from this [OF assms(1) [unfolded glued_relations_def] assms(2)] show ?thesis .
qed

lemma joined_sharing:
  assumes R: "glued_relations n keys faces = Inr R"
  shows "(joined R n)\<^sup>* = (sharing n keys faces)\<^sup>*"
proof (rule antisym)
  have joined: "(i, j) \<in> joined R n \<longleftrightarrow> i \<in> {1..n} \<and> j \<in> {1..n} \<and> (\<exists>(f, bs) \<in> set faces. linked keys bs (i, j))" for i j
    unfolding joined_def glued_relations_eq [OF R] by auto
  have "joined R n \<subseteq> sharing n keys faces"
    using joined linked_set unfolding sharing_def by fastforce
  then show "(joined R n)\<^sup>* \<subseteq> (sharing n keys faces)\<^sup>*" by (rule rtrancl_mono)
  have "sharing n keys faces \<subseteq> (joined R n)\<^sup>*"
  proof (rule subrelI)
    fix i j assume "(i, j) \<in> sharing n keys faces"
    then obtain f bs a b where fb: "(f, bs) \<in> set faces" "a \<in> set bs" "b \<in> set bs"
      "i = index_in keys a" "j = index_in keys b" by (auto simp: sharing_def)
    have "{(i, j). linked keys bs (i, j)} \<subseteq> joined R n"
      using joined glued_bounds [OF R fb(1)] fb(1) by blast
    then show "(i, j) \<in> (joined R n)\<^sup>*"
      using linked_chain [OF fb(2,3), of keys] fb(4,5) rtrancl_mono by blast
  qed
  then show "(sharing n keys faces)\<^sup>* \<subseteq> (joined R n)\<^sup>*" by (simp add: rtrancl_subset_rtrancl)
qed

text \<open>With nothing to glue every relation is one of the joined ones.\<close>

lemma related_joined: "glued_relations n keys faces = Inr R \<Longrightarrow> related R n = joined R n"
  unfolding related_def joined_def by (drule glued_relations_eq) auto

section \<open>The report\<close>

definition block_keys :: "shape list \<Rightarrow> shape list" where
  "block_keys blocks = append_all [] blocks"

definition block_faces :: "occt \<Rightarrow> block_tools \<Rightarrow> nat \<Rightarrow> shape list \<Rightarrow> ancestors" where
  "block_faces oc bt addr blocks = map_ancestors oc bt (make_root addr blocks) FACE SOLID"

text \<open>Every block is reached from every other through shared faces.\<close>

definition all_connected :: "occt \<Rightarrow> block_tools \<Rightarrow> nat \<Rightarrow> shape list \<Rightarrow> bool" where
  "all_connected oc bt addr blocks =
     ({1..length blocks} \<times> {1..length blocks} \<subseteq>
      (sharing (length blocks) (block_keys blocks) (block_faces oc bt addr blocks))\<^sup>*)"

text \<open>The rows no relation joins to a set, and the errors the check reports for a table.\<close>

definition unrelated_rows :: "relations \<Rightarrow> nat \<Rightarrow> nat set \<Rightarrow> nat list" where
  "unrelated_rows R n W = filter (\<lambda>i. i \<notin> W \<and> (related R n)\<^sup>* `` {i} \<inter> W = {}) [1..<Suc n]"

definition report_of_table ::
  "relations \<Rightarrow> shape list \<Rightarrow> nat \<Rightarrow> (shape \<times> shape) list \<Rightarrow> nat \<Rightarrow> bc_error list" where
  "report_of_table R keys n pairs m =
     (let rows = unrelated_rows R n (component R n m)
      in map (\<lambda>(a, b). \<lparr>be_error = NOT_GLUED, be_incriminated = [a, b]\<rparr>) pairs @
         (if rows = [] then []
          else [\<lparr>be_error = NOT_CONNECTED, be_incriminated = map (\<lambda>i. keys ! (i - 1)) rows\<rparr>]))"

definition largest_row :: "relations \<Rightarrow> nat \<Rightarrow> nat \<Rightarrow> bool" where
  "largest_row R n m = (m \<in> {1..n} \<and> (\<forall>i \<in> {1..n}. card (component R n i) \<le> card (component R n m)))"

lemma each_map: "each f xs = Inr ys \<Longrightarrow> (\<And>x y. f x = Inr y \<Longrightarrow> y = g x) \<Longrightarrow> ys = map g xs"
  by (auto simp: each_Inr_iff list_all2_conv_all_nth intro: nth_equalityI)

lemma isolated_rows_eq: "isolated_rows R n W = Inr (unrelated_rows R n W)"
  unfolding unrelated_rows_def by (rule isolated_rows_unrelated)

lemma check_relations_report:
  assumes run: "check_relations oc bt addr blocks = Inr (ok, errors, None)" and n: "1 \<le> length blocks"
  obtains R R' pairs m where
    "glue_analysis bt blocks = Inr (0, pairs)"
    "glued_relations (length blocks) (block_keys blocks) (block_faces oc bt addr blocks) = Inr R"
    "unglued_relations (length blocks) (block_keys blocks) pairs R = Inr R'"
    "largest_row R' (length blocks) m"
    "errors = report_of_table R' (block_keys blocks) (length blocks) pairs m"
    "ok \<longleftrightarrow> pairs = [] \<and> unrelated_rows R' (length blocks) (component R' (length blocks) m) = []"
proof -
  let ?n = "length blocks" and ?keys = "block_keys blocks"
  note run' = run [unfolded check_relations_def Let_def, folded block_keys_def block_faces_def]
  from run' obtain R pairs where R: "glued_relations ?n ?keys (block_faces oc bt addr blocks) = Inr R"
    and pairs: "glue_analysis bt blocks = Inr (0, pairs)"
    by (auto simp: bind_result_Inr_iff thrown_def split: if_splits sum.splits)
  from run' R pairs obtain R' where R': "unglued_relations ?n ?keys pairs R = Inr R'"
    by (auto simp: bind_result_Inr_iff)
  from largest_set_component [OF unglued_symmetric [OF R' glued_symmetric [OF R]] n] obtain m where
    m: "largest_set R' ?n = Inr (component R' ?n m)" "largest_row R' ?n m" by (auto simp: largest_row_def)
  let ?rows = "unrelated_rows R' ?n (component R' ?n m)"
  from run' R pairs R' m(1) obtain isolated where
    iso: "each (\<lambda>i. if i \<le> length ?keys then Inr (?keys ! (i - 1)) else Inl OutOfRange) ?rows = Inr isolated"
    and out: "ok = (pairs = [] \<and> isolated = [])"
      "errors = map (\<lambda>(a, b). \<lparr>be_error = NOT_GLUED, be_incriminated = [a, b]\<rparr>) pairs @
        (if isolated = [] then [] else [\<lparr>be_error = NOT_CONNECTED, be_incriminated = isolated\<rparr>])"
    by (auto simp: bind_result_Inr_iff isolated_rows_eq)
  have "isolated = map (\<lambda>i. ?keys ! (i - 1)) ?rows"
    by (rule each_map [OF iso]) (simp split: if_splits)
  with out have "errors = report_of_table R' ?keys ?n pairs m" "ok \<longleftrightarrow> pairs = [] \<and> ?rows = []"
    by (simp_all add: report_of_table_def)
  then show ?thesis using that [OF pairs R R' m(2)] by blast
qed

text \<open>With nothing to glue, no row is unrelated to the largest set exactly when all are joined.\<close>

lemma unrelated_none:
  assumes R: "symmetric R" and same: "related R n = joined R n" and m: "m \<in> {1..n}"
  shows "unrelated_rows R n (component R n m) = [] \<longleftrightarrow> {1..n} \<times> {1..n} \<subseteq> (joined R n)\<^sup>*"
proof -
  have "i \<in> component R n m \<or> component R n i \<inter> component R n m \<noteq> {} \<longleftrightarrow> i \<in> component R n m" for i
    using component_eq [OF R] component_self by blast
  then have "unrelated_rows R n (component R n m) = [] \<longleftrightarrow> {1..n} \<subseteq> component R n m"
    unfolding unrelated_rows_def filter_empty_conv table_rows same component_def [symmetric] by blast
  also have "\<dots> \<longleftrightarrow> {1..n} \<times> {1..n} \<subseteq> (joined R n)\<^sup>*"
  proof
    assume all: "{1..n} \<subseteq> component R n m"
    have "(i, j) \<in> (joined R n)\<^sup>*" if "i \<in> {1..n}" "j \<in> {1..n}" for i j
    proof -
      from all that component_eq [OF R, of i n m] have "j \<in> component R n i" by blast
      then show ?thesis by (simp add: component_def)
    qed
    then show "{1..n} \<times> {1..n} \<subseteq> (joined R n)\<^sup>*" by blast
  qed (use m in \<open>auto simp: component_def\<close>)
  finally show ?thesis .
qed

lemma glued_and_connected:
  assumes run: "check_relations oc bt addr blocks = Inr (ok, errors, None)" and n: "1 \<le> length blocks"
  shows "(ok \<longleftrightarrow> glue_analysis bt blocks = Inr (0, []) \<and> all_connected oc bt addr blocks) \<and>
    (ok \<longleftrightarrow> errors = [])"
proof -
  let ?n = "length blocks" and ?keys = "block_keys blocks"
  from check_relations_report [OF run n] obtain R R' pairs m where
    r: "glue_analysis bt blocks = Inr (0, pairs)"
    "glued_relations ?n ?keys (block_faces oc bt addr blocks) = Inr R"
    "unglued_relations ?n ?keys pairs R = Inr R'" "largest_row R' ?n m"
    "errors = report_of_table R' ?keys ?n pairs m"
    "ok \<longleftrightarrow> pairs = [] \<and> unrelated_rows R' ?n (component R' ?n m) = []" .
  have "ok \<longleftrightarrow> errors = []" using r(5,6) by (auto simp: report_of_table_def Let_def)
  moreover have "ok \<longleftrightarrow> pairs = [] \<and> all_connected oc bt addr blocks"
  proof (cases "pairs = []")
    case True
    with r(3) have "R' = R" by (simp add: unglued_relations_def)
    with unrelated_none [OF glued_symmetric [OF r(2)] related_joined [OF r(2)], of m] r(4,6) True
    show ?thesis by (auto simp: all_connected_def joined_sharing [OF r(2)] largest_row_def)
  qed (use r(6) in simp)
  ultimately show ?thesis using r(1) by simp
qed

end
