(* ===== verification/BlockLeaves.thy ===== *)
theory BlockLeaves
  imports BlockFacts
begin

text \<open>
  What \<^verbatim>\<open>AddBlocksFrom\<close> sorts the leaves of a compound into, and the condition the whole check
  decides.
\<close>

section \<open>Leaves\<close>

text \<open>The shapes below the compounds and compsolids of a shape, in order.\<close>

fun leaves :: "shape \<Rightarrow> shape list" and leaves_each :: "shape list \<Rightarrow> shape list" where
  "leaves (Shape t l r k cs) =
     (if k = COMPOUND \<or> k = COMPSOLID then leaves_each cs else [Shape t l r k cs])"
| "leaves_each [] = []"
| "leaves_each (c # cs) = leaves c @ leaves_each cs"

lemma leaves_each_concat: "leaves_each cs = concat (map leaves cs)"
  by (induction cs) simp_all

datatype leaf_class = BlockLeaf | ExtLeaf | NotLeaf | FaceLeaf

text \<open>The class of a leaf: a block has six faces, each a quadrangle, and no seam.\<close>

definition quads_of :: "occt \<Rightarrow> block_tools \<Rightarrow> f64 \<Rightarrow> shape \<Rightarrow> (block_stop, bool list) result" where
  "quads_of oc bt tol s = each (is_quadrangle oc bt tol) (append_all [] (explore oc s FACE))"

definition class_of :: "occt \<Rightarrow> block_tools \<Rightarrow> f64 \<Rightarrow> shape \<Rightarrow> (block_stop, leaf_class) result" where
  "class_of oc bt tol s =
     (if shape_type s = SOLID
      then bind_result (thrown (possible_blocks bt s tol)) (\<lambda>n.
             if 0 < n then Inr ExtLeaf
             else bind_result (quads_of oc bt tol s) (\<lambda>qs.
               Inr (if length qs = 6 \<and> list_all (\<lambda>q. q) qs then BlockLeaf else NotLeaf)))
      else if shape_type s = SHELL \<or> shape_type s = FACE
           then bind_result (quads_of oc bt tol s) (\<lambda>_. Inr FaceLeaf)
      else Inr NotLeaf)"

abbreviation "is_class oc bt tol c s \<equiv> class_of oc bt tol s = Inr c"

lemma check_faces_eq:
  "check_faces oc bt tol s bl = Inr (nb, non_quad, b) \<Longrightarrow>
     \<exists>qs noq. quads_of oc bt tol s = Inr qs \<and> nb = length qs \<and> non_quad = (\<not> list_all (\<lambda>q. q) qs) \<and>
       b = bl\<lparr>bl_noq := noq\<rparr>"
proof -
  let ?f = "\<lambda>f st. bind_result (is_quadrangle oc bt tol f) (\<lambda>quad.
             let (nb, non_quad, b) = st
             in Inr (if quad then (nb + 1, non_quad, b)
                     else (nb + 1, True, b\<lparr>bl_noq := bl_noq b @ [f]\<rparr>)))"
  have "\<exists>qs noq. each (is_quadrangle oc bt tol) fs = Inr qs \<and> nb' = nb0 + length qs \<and>
      nq' = (nq0 \<or> \<not> list_all (\<lambda>q. q) qs) \<and> b' = b0\<lparr>bl_noq := noq\<rparr>"
    if "loop ?f fs (nb0, nq0, b0) = Inr (nb', nq', b')" for fs nb0 nq0 b0 nb' nq' b'
    using that
  proof (induction fs arbitrary: nb0 nq0 b0)
    case Nil
    then show ?case by (auto intro: exI [of _ "bl_noq b0"])
  next
    case (Cons f fs)
    then obtain q where q: "is_quadrangle oc bt tol f = Inr q" by (cases "is_quadrangle oc bt tol f") auto
    show ?case
    proof (cases q)
      case True
      with Cons.prems q have "loop ?f fs (nb0 + 1, nq0, b0) = Inr (nb', nq', b')" by simp
      from Cons.IH [OF this] obtain qs noq where "each (is_quadrangle oc bt tol) fs = Inr qs"
        "nb' = nb0 + 1 + length qs" "nq' = (nq0 \<or> \<not> list_all (\<lambda>q. q) qs)" "b' = b0\<lparr>bl_noq := noq\<rparr>" by blast
      then show ?thesis using q True by (intro exI [of _ "True # qs"] exI [of _ noq]) simp
    next
      case False
      with Cons.prems q have "loop ?f fs (nb0 + 1, True, b0\<lparr>bl_noq := bl_noq b0 @ [f]\<rparr>) = Inr (nb', nq', b')"
        by simp
      from Cons.IH [OF this] obtain qs noq where "each (is_quadrangle oc bt tol) fs = Inr qs"
        "nb' = nb0 + 1 + length qs" "nq'" "b' = b0\<lparr>bl_noq := noq\<rparr>" by auto
      then show ?thesis using q False by (intro exI [of _ "False # qs"] exI [of _ noq]) simp
    qed
  qed
  moreover assume "check_faces oc bt tol s bl = Inr (nb, non_quad, b)"
  ultimately show ?thesis by (fastforce simp: check_faces_def quads_of_def Let_def)
qed

text \<open>The lists hold, after what they held, the leaves of each class in order.\<close>

definition sorted_into :: "occt \<Rightarrow> block_tools \<Rightarrow> f64 \<Rightarrow> shape list \<Rightarrow> block_lists \<Rightarrow> block_lists \<Rightarrow> bool" where
  "sorted_into oc bt tol ls bl bl' =
     ((\<forall>x \<in> set ls. \<exists>c. is_class oc bt tol c x) \<and>
      bl_blocks bl' = bl_blocks bl @ filter (is_class oc bt tol BlockLeaf) ls \<and>
      bl_ext bl' = bl_ext bl @ filter (is_class oc bt tol ExtLeaf) ls \<and>
      bl_not bl' = bl_not bl @ filter (is_class oc bt tol NotLeaf) ls)"

lemma sorted_into_Nil [simp]: "sorted_into oc bt tol [] bl bl"
  by (simp add: sorted_into_def)

lemma sorted_into_append:
  "sorted_into oc bt tol xs bl bl' \<Longrightarrow> sorted_into oc bt tol ys bl' bl'' \<Longrightarrow> sorted_into oc bt tol (xs @ ys) bl bl''"
  by (auto simp: sorted_into_def)

lemma check_faces_sorted:
  assumes "check_faces oc bt tol s bl = Inr (nb, non_quad, b)" and "shape_type s = SHELL \<or> shape_type s = FACE"
  shows "sorted_into oc bt tol [s] bl b"
proof -
  from check_faces_eq [OF assms(1)] obtain qs noq where "quads_of oc bt tol s = Inr qs" "b = bl\<lparr>bl_noq := noq\<rparr>" by blast
  with assms(2) show ?thesis by (auto simp: sorted_into_def class_of_def)
qed

lemma add_solid_sorted:
  assumes "add_solid oc bt tol s bl = Inr bl'" and "shape_type s = SOLID"
  shows "sorted_into oc bt tol [s] bl bl'"
proof -
  from assms(1) obtain n where n: "possible_blocks bt s tol = Inr n"
    by (auto simp: add_solid_def bind_result_Inr_iff thrown_def split: sum.splits)
  show ?thesis
  proof (cases "0 < n")
    case True
    with assms n show ?thesis by (auto simp: add_solid_def sorted_into_def class_of_def)
  next
    case False
    with assms(1) n obtain nb non_quad b where
      b: "check_faces oc bt tol s bl = Inr (nb, non_quad, b)"
      "bl' = (if nb = 6 \<and> \<not> non_quad then b\<lparr>bl_blocks := bl_blocks b @ [s]\<rparr> else b\<lparr>bl_not := bl_not b @ [s]\<rparr>)"
      by (auto simp: add_solid_def bind_result_Inr_iff)
    from check_faces_eq [OF b(1)] obtain qs noq where "quads_of oc bt tol s = Inr qs" "nb = length qs"
      "non_quad = (\<not> list_all (\<lambda>q. q) qs)" "b = bl\<lparr>bl_noq := noq\<rparr>" by blast
    with b(2) assms(2) n False show ?thesis by (auto simp: sorted_into_def class_of_def)
  qed
qed

lemma add_blocks_sorted:
  "add_blocks_from oc bt tol s bl = Inr bl' \<Longrightarrow> sorted_into oc bt tol (leaves s) bl bl'"
  "add_blocks_from_each oc bt tol cs bl = Inr bl' \<Longrightarrow> sorted_into oc bt tol (leaves_each cs) bl bl'"
proof (induction oc bt tol s bl and oc bt tol cs bl arbitrary: bl' and bl'
    rule: add_blocks_from_add_blocks_from_each.induct)
  case (1 oc bt tol t l r k cs bl)
  consider "k = COMPOUND \<or> k = COMPSOLID" | "k = SOLID" | "k = SHELL \<or> k = FACE"
    | "k \<notin> {COMPOUND, COMPSOLID, SOLID, SHELL, FACE}" by blast
  then show ?case
  proof cases
    case 1
    with "1.IH" [OF refl 1] "1.prems" show ?thesis by auto
  next
    case 2
    with "1.prems" show ?thesis by (auto intro: add_solid_sorted)
  next
    case 3
    with "1.prems" obtain nb nq where "check_faces oc bt tol (Shape t l r k cs) bl = Inr (nb, nq, bl')"
      by (auto simp: bind_result_Inr_iff)
    from check_faces_sorted [OF this] 3 show ?thesis by auto
  next
    case 4
    with "1.prems" show ?thesis by (auto simp: sorted_into_def class_of_def)
  qed
next
  case (3 oc bt tol c cs bl)
  from "3.prems" obtain b where b: "add_blocks_from oc bt tol c bl = Inr b"
    "add_blocks_from_each oc bt tol cs b = Inr bl'" by (auto split: sum.splits)
  from sorted_into_append [OF "3.IH"(1) [OF b(1)] "3.IH"(2) [OF b]] show ?case by simp
qed simp

text \<open>Without a cancellation the loop is over all the children.\<close>

lemma add_children_sorted:
  "add_children oc bt tol (\<lambda>_. True) i cs bl = Inr (i', bl') \<Longrightarrow> sorted_into oc bt tol (leaves_each cs) bl bl'"
proof (induction cs arbitrary: i bl)
  case (Cons c cs)
  then obtain b where "add_blocks_from oc bt tol c bl = Inr b"
    "add_children oc bt tol (\<lambda>_. True) (Suc i) cs b = Inr (i', bl')" by (auto simp: bind_result_Inr_iff)
  from sorted_into_append [OF add_blocks_sorted(1) [OF this(1)] Cons.IH [OF this(2)]] show ?case by simp
qed simp

section \<open>A compound of blocks\<close>

definition compound_of_blocks :: "occt \<Rightarrow> block_tools \<Rightarrow> f64 \<Rightarrow> nat \<Rightarrow> shape \<Rightarrow> bool" where
  "compound_of_blocks oc bt tol addr s =
     (let ls = leaves_each (children s); blocks = filter (is_class oc bt tol BlockLeaf) ls
      in blocks \<noteq> [] \<and> list_all (\<lambda>x. is_class oc bt tol BlockLeaf x \<or> is_class oc bt tol FaceLeaf x) ls \<and>
         (length blocks = 1 \<or>
          (glue_analysis bt blocks = Inr (0, []) \<and> all_connected oc bt addr blocks)))"

text \<open>The failure is the analyser's error status.\<close>

lemma check_relations_failure:
  assumes "check_relations oc bt addr blocks = Inr (ok, errors, Some f)"
  shows "\<exists>status pairs. glue_analysis bt blocks = Inr (status, pairs) \<and> status \<noteq> 0"
  using assms by (auto simp: check_relations_def Let_def bind_result_Inr_iff thrown_def isolated_rows_eq
      split: if_splits sum.splits)

lemma leaf_classes_partition:
  assumes "\<forall>x \<in> set ls. \<exists>c. is_class oc bt tol c x"
  shows "filter (is_class oc bt tol NotLeaf) ls = [] \<and> filter (is_class oc bt tol ExtLeaf) ls = [] \<longleftrightarrow>
    list_all (\<lambda>x. is_class oc bt tol BlockLeaf x \<or> is_class oc bt tol FaceLeaf x) ls"
proof -
  have "c = NotLeaf \<or> c = ExtLeaf \<or> c = BlockLeaf \<or> c = FaceLeaf" for c by (cases c) simp_all
  with assms show ?thesis by (fastforce simp: filter_empty_conv list_all_iff)
qed

lemma is_compound_iff:
  assumes run: "is_compound_of_blocks oc bt tol addr s = Inr b"
  shows "b \<longleftrightarrow> compound_of_blocks oc bt tol addr s"
proof -
  let ?ls = "leaves_each (children s)"
  let ?blocks = "filter (is_class oc bt tol BlockLeaf) ?ls"
  let ?good = "list_all (\<lambda>x. is_class oc bt tol BlockLeaf x \<or> is_class oc bt tol FaceLeaf x) ?ls"
  from run obtain ok errors failure where check: "check_compound oc bt tol (\<lambda>_. True) addr s = Inr (ok, errors, failure)"
    and b: "b = (ok \<and> failure = None)" by (auto simp: is_compound_of_blocks_def bind_result_Inr_iff)
  from check obtain i bl where bl: "add_children oc bt tol (\<lambda>_. True) 0 (children s) no_blocks = Inr (i, bl)"
    by (auto simp: check_compound_def bind_result_Inr_iff)
  from add_children_sorted [OF bl] have lists: "\<forall>x \<in> set ?ls. \<exists>c. is_class oc bt tol c x" "bl_blocks bl = ?blocks"
    "bl_ext bl = filter (is_class oc bt tol ExtLeaf) ?ls" "bl_not bl = filter (is_class oc bt tol NotLeaf) ?ls"
    by (simp_all add: sorted_into_def no_blocks_def)
  have good: "bl_not bl = [] \<and> bl_ext bl = [] \<longleftrightarrow> ?good"
    unfolding lists(3,4) by (rule leaf_classes_partition [OF lists(1)])
  show ?thesis
  proof (cases "1 < length ?blocks")
    case False
    with check bl lists(2) have "b \<longleftrightarrow> bl_not bl = [] \<and> bl_ext bl = [] \<and> ?blocks \<noteq> []"
      using b by (simp add: check_compound_def)
    with good False show ?thesis unfolding compound_of_blocks_def Let_def
      by (cases "length ?blocks") auto
  next
    case True
    with check bl lists(2) obtain ok' errors' where
      rel: "check_relations oc bt addr ?blocks = Inr (ok', errors', failure)"
      and ok: "ok \<longleftrightarrow> ?good \<and> ok'"
      using good by (auto simp: check_compound_def bind_result_Inr_iff)
    have "b \<longleftrightarrow> ?good \<and> glue_analysis bt ?blocks = Inr (0, []) \<and> all_connected oc bt addr ?blocks"
    proof (cases failure)
      case None
      with glued_and_connected [of oc bt addr ?blocks ok' errors'] rel True ok b show ?thesis by auto
    next
      case (Some f)
      with check_relations_failure [of oc bt addr ?blocks ok' errors' f] rel b show ?thesis by auto
    qed
    with True show ?thesis unfolding compound_of_blocks_def Let_def by auto
  qed
qed

end
