(* ===== verification/BlockProps.thy ===== *)
theory BlockProps
  imports BlockLeaves Model
begin

text \<open>
  The properties of the check of a compound of blocks, and the concrete blocks they are applied to.
\<close>

section \<open>The check ends\<close>

definition ends :: "(block_stop, 'a) result \<Rightarrow> bool" where
  "ends r = (r \<noteq> Inl OutOfFuel)"

lemma ends_Inr [simp]: "ends (Inr x)"
  by (simp add: ends_def)

lemma ends_thrown [simp]: "ends (thrown r)"
  by (simp add: ends_def thrown_def split: sum.splits)

lemma ends_bind: "ends r \<Longrightarrow> (\<And>x. r = Inr x \<Longrightarrow> ends (f x)) \<Longrightarrow> ends (bind_result r f)"
  by (cases r) (simp_all add: ends_def)

lemma ends_loop: "(\<And>x s. ends (f x s)) \<Longrightarrow> ends (loop f xs s)"
proof (induction xs arbitrary: s)
  case (Cons x xs)
  then show ?case by (cases "f x s") (auto simp: ends_def)
qed simp

lemma ends_each: "(\<And>x. ends (f x)) \<Longrightarrow> ends (each f xs)"
proof (induction xs)
  case (Cons x xs)
  then show ?case by (cases "f x"; cases "each f xs") (auto simp: ends_def dest: spec [of _ x])
qed simp

lemmas ends_intros = ends_bind ends_loop ends_each

lemma ends_four_corners: "ends (four_corners bt tol e es corners)"
  by (induction es arbitrary: e corners) (auto intro!: ends_bind simp: Let_def split: option.splits)

lemma ends_quadrangle: "ends (is_quadrangle oc bt tol f)"
  unfolding is_quadrangle_def Let_def
  by (auto intro!: ends_bind ends_four_corners split: list.splits)

lemma ends_check_faces: "ends (check_faces oc bt tol s bl)"
  unfolding check_faces_def Let_def by (auto intro!: ends_bind ends_loop ends_quadrangle split: prod.splits)

lemma ends_add_blocks: "ends (add_blocks_from oc bt tol s bl)" "ends (add_blocks_from_each oc bt tol cs bl)"
proof (induction oc bt tol s bl and oc bt tol cs bl rule: add_blocks_from_add_blocks_from_each.induct)
  case (1 oc bt tol t l r k cs bl)
  then show ?case
    by (auto intro!: ends_bind ends_check_faces simp: Let_def add_solid_def split: prod.splits)
next
  case (3 oc bt tol c cs bl)
  then show ?case by (cases "add_blocks_from oc bt tol c bl") (auto simp: ends_def)
qed simp

lemma ends_add_children: "ends (add_children oc bt tol going i cs bl)"
  by (induction cs arbitrary: i bl) (auto intro!: ends_bind ends_add_blocks)

lemma ends_set_relation: "ends (set_relation n i j c R)"
  by (simp add: set_relation_def ends_def)

lemma ends_glue_row: "ends (glue_row n keys bs R)"
proof (induction bs arbitrary: R rule: induct_list012)
  case (3 a b bs)
  then show ?case
    using ends_set_relation [of n "index_in keys a" "index_in keys b" REL_OK R]
    by (auto simp: ends_def split: sum.splits)
qed simp_all

lemma ends_relations: "ends (glued_relations n keys faces)" "ends (unglued_relations n keys pairs R)"
  unfolding glued_relations_def unglued_relations_def
  by (auto intro!: ends_loop ends_glue_row ends_set_relation split: prod.splits)

lemma ends_check_relations:
  assumes "1 \<le> length blocks"
  shows "ends (check_relations oc bt addr blocks)"
proof -
  have largest: "ends (largest_set R' n)"
    if "glued_relations n keys faces = Inr R" "unglued_relations n keys pairs R = Inr R'" "1 \<le> n"
    for n keys faces pairs R R'
    using largest_set_component [OF unglued_symmetric [OF that(2) glued_symmetric [OF that(1)]] that(3)] by auto
  have key: "ends (if i \<le> length keys then Inr (keys ! (i - 1)) else Inl OutOfRange)" for i and keys :: "shape list"
    by (simp add: ends_def)
  show ?thesis unfolding check_relations_def Let_def isolated_rows_eq using assms
    by (auto intro!: ends_bind ends_relations ends_each key split: prod.splits intro: largest [unfolded One_nat_def])
qed

text \<open>
  C30. The check of a compound ends for every shape, every OCCT and every progress: the searches'
  recursion is never deeper than the number of blocks, so the depth counter the model gives them
  is never used up.
\<close>

theorem block_check_ends: "check_compound oc bt tol going addr cmp \<noteq> Inl OutOfFuel"
proof -
  have "ends (check_compound oc bt tol going addr cmp)"
    unfolding check_compound_def Let_def
    by (auto intro!: ends_bind ends_add_children ends_check_relations split: prod.splits)
  then show ?thesis by (simp add: ends_def)
qed

text \<open>
  C31. \<^verbatim>\<open>is_compound_of_blocks\<close> decides what a compound of blocks is: every leaf of the compound is a
  hexahedron of six quadrangles without a seam, or a face or a shell, one of them at least is a
  block, and, when there are several, the analyser finds no two to glue and every block is
  reached from every other through faces that the faces' lists of blocks share.
\<close>

theorem is_compound_of_blocks_decides:
  assumes "is_compound_of_blocks oc bt tol addr s = Inr b"
  shows "b \<longleftrightarrow> compound_of_blocks oc bt tol addr s"
  by (rule is_compound_iff [OF assms])

text \<open>Two hexahedra with one face in common.\<close>

definition quad_at :: "nat \<Rightarrow> shape" where
  "quad_at t = Shape t 0 FORWARD FACE [Shape (t + 1) 0 FORWARD WIRE
     (map (\<lambda>k. Shape (t + k) 0 FORWARD EDGE []) [2, 3, 4, 5])]"

definition hexa_at :: "nat \<Rightarrow> nat list \<Rightarrow> shape" where
  "hexa_at t fs = Shape t 0 FORWARD SOLID [Shape (t + 1) 0 FORWARD SHELL (map quad_at fs)]"

definition two_hexas :: shape where
  "two_hexas = make_root 1 [hexa_at 200 [10, 20, 30, 40, 50, 60], hexa_at 300 [60, 70, 80, 90, 100, 110]]"

definition plain_blocks :: "(shape \<times> shape) list \<Rightarrow> block_tools" where
  "plain_blocks pairs = \<lparr>wire_edges = (\<lambda>_ _. Inr []), degenerated = (\<lambda>_. False), common_vertex = (\<lambda>_ _. Inr None),
     tangent = (\<lambda>_ _. Inr (f0, f0, f0)), vec_angle = (\<lambda>_ _. Inr f0), possible_blocks = (\<lambda>_ _. Inr 0),
     explore_avoiding = (\<lambda>_ _ _. []), glue_analysis = (\<lambda>_. Inr (0, pairs))\<rparr>"

lemma two_hexas_run: "is_compound_of_blocks walk_occt (plain_blocks []) f0 2 two_hexas = Inr True"
  by code_simp

theorem is_compound_of_blocks_witness: "compound_of_blocks walk_occt (plain_blocks []) f0 2 two_hexas"
  using is_compound_of_blocks_decides [OF two_hexas_run] by simp

section \<open>The verdict of the session's method\<close>

lemma check_compound_errors:
  assumes "check_compound oc bt tol going addr cmp = Inr (ok, errors, None)"
  obtains i bl where "add_children oc bt tol going 0 (children cmp) no_blocks = Inr (i, bl)"
    and "ok \<longleftrightarrow> errors = [] \<and> bl_blocks bl \<noteq> []"
proof -
  from assms obtain i bl where bl: "add_children oc bt tol going 0 (children cmp) no_blocks = Inr (i, bl)"
    by (auto simp: check_compound_def bind_result_Inr_iff)
  have "ok \<longleftrightarrow> errors = [] \<and> bl_blocks bl \<noteq> []"
  proof (cases "1 < length (bl_blocks bl) \<and> going i")
    case True
    with assms bl obtain ok' errors' where
      rel: "check_relations oc bt addr (bl_blocks bl) = Inr (ok', errors', None)"
      and out: "ok = (bl_not bl = [] \<and> bl_ext bl = [] \<and> bl_blocks bl \<noteq> [] \<and> ok')"
        "errors = solid_errors bl @ errors'"
      by (auto simp: check_compound_def bind_result_Inr_iff)
    have "1 \<le> length (bl_blocks bl)" using True by simp
    with glued_and_connected [OF rel] have "ok' \<longleftrightarrow> errors' = []" by blast
    with out show ?thesis by (auto simp: solid_errors_def)
  next
    case False
    with assms bl show ?thesis by (auto simp: check_compound_def solid_errors_def)
  qed
  with bl show ?thesis by (rule that)
qed

text \<open>
  C32. \<^verbatim>\<open>check_blocks\<close>, not cancelled, says its bodies are a compound of blocks exactly when it
  reports no finding and one leaf at least is a block: an empty report alone is not the verdict.
  Every finding names its entities once each, in order.
\<close>

theorem check_blocks_verdict:
  assumes "check_blocks oc bt ids tol (Inr h) s = Inr (ok, findings)"
    and "checked_bodies oc ids s = Inr bodies" and "pr_more h = (\<lambda>_. True)"
  shows "(ok \<longleftrightarrow> findings = [] \<and> filter (is_class oc bt tol BlockLeaf) (leaves_each bodies) \<noteq> []) \<and>
    list_all (\<lambda>(kind, es). sorted_wrt (<) es) findings"
proof -
  from assms obtain errors where
    run: "check_compound oc bt tol (\<lambda>_. True) (Suc (s_heap s)) (make_root (s_heap s) bodies) = Inr (ok, errors, None)"
    and findings: "findings = map (finding_of oc s) errors"
    by (auto simp: check_blocks_def bind_result_Inr_iff Let_def split: if_splits sum.splits option.splits)
  from check_compound_errors [OF run] obtain i bl where
    bl: "add_children oc bt tol (\<lambda>_. True) 0 bodies no_blocks = Inr (i, bl)"
    and ok: "ok \<longleftrightarrow> errors = [] \<and> bl_blocks bl \<noteq> []" by (auto simp: make_root_def)
  from add_children_sorted [OF bl] have "bl_blocks bl = filter (is_class oc bt tol BlockLeaf) (leaves_each bodies)"
    by (simp add: sorted_into_def no_blocks_def)
  with ok findings show ?thesis by (auto simp: list_all_iff finding_of_def strict_tidy)
qed

text \<open>A session of one block that has one face only: it is no hexahedron.\<close>

definition run_hooks :: progress where
  "run_hooks = \<lparr>pr_more = (\<lambda>_. True), pr_cancelled = False\<rparr>"

lemma one_block_checked:
  "check_blocks walk_occt (plain_blocks []) None f0 (Inr run_hooks) one_block = Inr (False, [(''NOT_BLOCK'', [1])])"
  by code_simp

theorem check_blocks_witness:
  "check_blocks walk_occt (plain_blocks []) None f0 (Inr run_hooks) one_block = Inr (False, [(''NOT_BLOCK'', [1])]) \<and>
   list_all (\<lambda>(kind, es). sorted_wrt (<) es) [(''NOT_BLOCK'', [1 :: entity_id])]"
proof -
  have "checked_bodies walk_occt None one_block = Inr [block_at 100]" by code_simp
  from check_blocks_verdict [OF one_block_checked this] one_block_checked show ?thesis by (simp add: run_hooks_def)
qed

section \<open>Blocks not glued\<close>

text \<open>
  A pair of blocks that the glue analyser reports is given the code of the error
  \<^verbatim>\<open>NOT_GLUED\<close>, 4: the search for the largest set, which follows the codes 1 and 2 only, does not
  go from one to the other, even when they share a face, while the search for any connection does.
\<close>

theorem unglued_pairs_do_not_join:
  assumes "unglued_relations n keys pairs R = Inr R'" and "(a, b) \<in> set pairs"
  shows "(index_in keys a, index_in keys b) \<notin> joined R' n \<and> (index_in keys a, index_in keys b) \<in> related R' n"
proof -
  have "R' (index_in keys a) (index_in keys b) = 4"
    using assms(2) unfolding unglued_relations_eq [OF assms(1)] by (auto simp: bc_error_code_def)
  moreover have "index_in keys a \<in> {1..n} \<and> index_in keys b \<in> {1..n}"
    using assms unfolding unglued_relations_def
  proof (induction pairs arbitrary: R)
    case (Cons x pairs)
    obtain p q where x: "x = (p, q)" by (cases x)
    with Cons.prems(1) obtain R1 where
      step: "set_relation n (index_in keys p) (index_in keys q) (bc_error_code NOT_GLUED) R = Inr R1"
      and rest: "loop (\<lambda>(a, b). set_relation n (index_in keys a) (index_in keys b) (bc_error_code NOT_GLUED)) pairs R1 = Inr R'"
      by (auto split: sum.splits)
    from set_relation_eq(1) [OF step] Cons.IH [OF rest] Cons.prems(2) x show ?case by auto
  qed simp
  ultimately show ?thesis by (auto simp: joined_def related_def)
qed

text \<open>
  Five blocks: 1 and 2 share a face, 4 and 5 share one, and 3 is to be glued to 4. The largest set
  kept is of the first two, and the other three are reported as isolated; with the code 2 in the
  table it would be the last three.
\<close>

definition lone_solid :: "nat \<Rightarrow> shape" where
  "lone_solid i = Shape (100 * i) 0 FORWARD SOLID []"

definition five_solids :: "shape list" where
  "five_solids = map lone_solid [1, 2, 3, 4, 5]"

definition five_table :: "int \<Rightarrow> relations" where
  "five_table code = (\<lambda>i j. if (i, j) \<in> {(1, 2), (2, 1), (4, 5), (5, 4)} then REL_OK
     else if (i, j) \<in> {(3, 4), (4, 3)} then code else REL_NOT_CONNECTED)"

lemma five_largest:
  "largest_set (five_table 4) 5 = Inr {1, 2}" "isolated_rows (five_table 4) 5 {1, 2} = Inr [3, 4, 5]"
  "largest_set (five_table 2) 5 = Inr {3, 4, 5}" "isolated_rows (five_table 2) 5 {3, 4, 5} = Inr [1, 2]"
  by code_simp+

lemma five_unglued:
  "unglued_relations 5 five_solids [(lone_solid 3, lone_solid 4)] (five_table 0) = Inr (five_table 4)"
  by (auto simp: unglued_relations_def five_solids_def lone_solid_def index_in_def is_same_def skey_def
      set_relation_def set_value_def five_table_def bc_error_code_def fun_eq_iff)

theorem unglued_pairs_witness:
  "(3, 4) \<notin> joined (five_table 4) 5 \<and> (3, 4) \<in> related (five_table 4) 5 \<and>
   largest_set (five_table 4) 5 = Inr {1, 2} \<and> largest_set (five_table 2) 5 = Inr {3, 4, 5}"
proof -
  have "index_in five_solids (lone_solid 3) = 3" "index_in five_solids (lone_solid 4) = 4" by code_simp+
  with unglued_pairs_do_not_join [OF five_unglued, of "lone_solid 3" "lone_solid 4"] five_largest
  show ?thesis by simp
qed

end
