(* ===== verification/ChainProps.thy ===== *)
theory ChainProps
  imports BlockChains BlockFacts Model
begin

text \<open>
  The properties of the propagation chains: a chain is the edges reached through opposite edges,
  the chains of a model are a partition of its edges, and building them ends.
\<close>

section \<open>One chain\<close>

lemma card_keys: "card (keys_of mew) \<le> length mew"
  unfolding keys_of_def using card_image_le [of "set mew" "skey \<circ> fst"] card_length [of mew] by simp

lemma build_chain_ends: "build_chain ct mew e accepted \<noteq> Inl OutOfFuel"
proof -
  have "card (keys_of mew - skey ` set (accepted @ [e])) \<le> length mew"
    using card_keys [of mew] card_mono [of "keys_of mew" "keys_of mew - skey ` set (accepted @ [e])"] by simp
  then show ?thesis unfolding build_chain_def by (intro grow_chain_ends) simp
qed

lemma closed_reach: "E `` A \<subseteq> A \<Longrightarrow> X \<subseteq> A \<Longrightarrow> E\<^sup>* `` X \<subseteq> A"
proof
  fix j assume "E `` A \<subseteq> A" "X \<subseteq> A" "j \<in> E\<^sup>* `` X"
  then obtain i where "i \<in> A" "(i, j) \<in> E\<^sup>*" by blast
  from this(2,1) show "j \<in> A" by induction (use \<open>E `` A \<subseteq> A\<close> in auto)
qed

lemma insert_apart: "K \<inter> insert a A = {} \<Longrightarrow> K \<subseteq> R \<Longrightarrow> a \<in> R \<Longrightarrow> a \<notin> A \<Longrightarrow> insert a K \<subseteq> R - A"
  by blast

lemma apart_eq: "C \<subseteq> R - A \<Longrightarrow> R \<subseteq> B \<Longrightarrow> B = A \<union> C \<Longrightarrow> C = R - A"
  by blast

lemma build_chain_reaches:
  assumes run: "build_chain ct mew e accepted = Inr (chain, accepted')"
    and closed: "opposite ct mew `` (skey ` set accepted) \<subseteq> skey ` set accepted"
    and new: "skey e \<notin> skey ` set accepted"
  shows "distinct (map skey chain) \<and> accepted' = accepted @ chain \<and> chain \<noteq> [] \<and>
    skey ` set chain = (opposite ct mew)\<^sup>* `` {skey e} - skey ` set accepted \<and>
    opposite ct mew `` (skey ` set accepted') \<subseteq> skey ` set accepted'"
proof -
  let ?O = "opposite ct mew" and ?A = "skey ` set accepted"
  have "?O `` (skey ` set (accepted @ [e]) - skey ` set [e]) \<subseteq> skey ` set (accepted @ [e])"
    using closed new by auto
  from grow_chain_reaches [OF run [unfolded build_chain_def] this] obtain rest where
    r: "chain = [e] @ rest" "accepted' = (accepted @ [e]) @ rest" "distinct (map skey rest)"
    "skey ` set rest \<inter> skey ` set (accepted @ [e]) = {}" "skey ` set rest \<subseteq> ?O\<^sup>* `` (skey ` set [e])"
    "?O `` (skey ` set accepted') \<subseteq> skey ` set accepted'" by (elim exE conjE) (rule that)
  have keys: "skey ` set chain = insert (skey e) (skey ` set rest)" by (simp add: r(1))
  have fresh: "skey ` set rest \<inter> insert (skey e) ?A = {}" using r(4) by simp
  have reached: "skey ` set rest \<subseteq> ?O\<^sup>* `` {skey e}" using r(5) by simp
  have inside: "skey ` set chain \<subseteq> ?O\<^sup>* `` {skey e} - ?A" unfolding keys
    by (rule insert_apart [OF fresh reached _ new]) simp
  have closed': "?O\<^sup>* `` {skey e} \<subseteq> skey ` set accepted'"
    by (rule closed_reach [OF r(6)]) (simp add: r(2))
  have "skey ` set accepted' = ?A \<union> skey ` set chain" by (simp add: r(1,2) image_Un)
  with inside closed' have "skey ` set chain = ?O\<^sup>* `` {skey e} - ?A" by (rule apart_eq)
  moreover have "distinct (map skey chain)" using r(1,3) fresh by simp
  ultimately show ?thesis using r(1,2,6) by simp
qed

text \<open>What \<^verbatim>\<open>GEOMUtils::SortShapes\<close> is relied on for: it only reorders.\<close>

definition sorts :: "chain_tools \<Rightarrow> bool" where
  "sorts ct = (\<forall>xs. mset (sort_shapes ct xs) = mset xs)"

lemma sorts_simps:
  assumes "sorts ct"
  shows "set (sort_shapes ct xs) = set xs" "distinct (map skey (sort_shapes ct xs)) = distinct (map skey xs)"
    "sort_shapes ct xs = [] \<longleftrightarrow> xs = []"
proof -
  from assms have m: "mset (sort_shapes ct xs) = mset xs" by (simp add: sorts_def)
  then show "set (sort_shapes ct xs) = set xs" by (rule mset_eq_setD)
  from m have "mset (map skey (sort_shapes ct xs)) = mset (map skey xs)" by simp
  then show "distinct (map skey (sort_shapes ct xs)) = distinct (map skey xs)" by (rule mset_eq_imp_distinct_iff)
  from m show "sort_shapes ct xs = [] \<longleftrightarrow> xs = []" by (metis mset_zero_iff)
qed

lemma accepted_iff: "list_ex (\<lambda>y. is_same y e) xs = (skey e \<in> skey ` set xs)"
  by (auto simp: list_ex_iff is_same_def intro: rev_image_eqI)

lemma update_new: "k \<notin> fst ` set al \<Longrightarrow> AList.update k v al = al @ [(k, v)]"
  by (induction al) auto

section \<open>All the chains\<close>

text \<open>
  The chains a model should have, as sets of keys: from each key in turn that no earlier chain
  holds, everything reached from it that no earlier chain holds.
\<close>

fun chains_from :: "'k rel \<Rightarrow> 'k set \<Rightarrow> 'k list \<Rightarrow> 'k set list" where
  "chains_from E A [] = []"
| "chains_from E A (k # ks) =
     (if k \<in> A then chains_from E A ks else (E\<^sup>* `` {k} - A) # chains_from E (A \<union> E\<^sup>* `` {k}) ks)"

text \<open>Where being opposite goes both ways, these are the classes of the keys that reach each other.\<close>

lemma reach_apart: "sym E \<Longrightarrow> E `` A \<subseteq> A \<Longrightarrow> k \<notin> A \<Longrightarrow> E\<^sup>* `` {k} \<inter> A = {}"
proof (rule ccontr)
  assume E: "sym E" "E `` A \<subseteq> A" and k: "k \<notin> A" and "E\<^sup>* `` {k} \<inter> A \<noteq> {}"
  then obtain j where "j \<in> A" "(k, j) \<in> E\<^sup>*" by blast
  then have "k \<in> E\<^sup>* `` A" using symD [OF sym_rtrancl [OF E(1)]] by blast
  with closed_reach [OF E(2), of A] k show False by blast
qed

lemma reach_class: "sym E \<Longrightarrow> j \<in> E\<^sup>* `` {k} \<Longrightarrow> E\<^sup>* `` {j} = E\<^sup>* `` {k}"
  using sym_rtrancl [of E] by (auto dest: symD intro: rtrancl_trans)

lemma closed_Un_reach: "E `` A \<subseteq> A \<Longrightarrow> E `` (A \<union> E\<^sup>* `` {k}) \<subseteq> A \<union> E\<^sup>* `` {k}"
  by (auto intro: rtrancl_into_rtrancl)

lemma chains_from_classes:
  "sym E \<Longrightarrow> E `` A \<subseteq> A \<Longrightarrow> C \<in> set (chains_from E A ks) \<Longrightarrow> j \<in> C \<Longrightarrow> C = E\<^sup>* `` {j}"
proof (induction ks arbitrary: A)
  case (Cons k ks)
  note closed = closed_Un_reach [OF Cons.prems(2), of k]
  show ?case
  proof (cases "k \<in> A \<or> C \<noteq> E\<^sup>* `` {k} - A")
    case True
    then show ?thesis using Cons.IH [OF Cons.prems(1) _ _ Cons.prems(4)] Cons.prems(2,3) closed
      by (auto split: if_split_asm)
  next
    case False
    then have "C = E\<^sup>* `` {k}" using reach_apart [OF Cons.prems(1,2), of k] by blast
    with reach_class [OF Cons.prems(1), of j k] Cons.prems(4) show ?thesis by simp
  qed
qed simp

text \<open>The chains found so far: disjoint, each under its first edge, holding what was accepted.\<close>

definition chains_ok :: "chain_tools \<Rightarrow> ancestors \<Rightarrow> chains_state \<Rightarrow> bool" where
  "chains_ok ct mew st = (let (firsts, bound, accepted) = st in
     map fst bound = map skey firsts \<and> distinct (map skey (concat (map snd bound))) \<and>
     list_all (\<lambda>(k, chain). chain \<noteq> [] \<and> k = skey (hd chain)) bound \<and>
     skey ` set (concat (map snd bound)) = skey ` set accepted \<and>
     opposite ct mew `` (skey ` set accepted) \<subseteq> skey ` set accepted)"

definition chain_keys :: "chains_state \<Rightarrow> shape_key set list" where
  "chain_keys st = map (\<lambda>chain. skey ` set chain) (map snd (fst (snd st)))"

lemma chains_ok_start: "chains_ok ct mew ([], [], [])"
  by (simp add: chains_ok_def)

lemma chains_ok_keys:
  assumes "chains_ok ct mew (firsts, bound, accepted)"
  shows "fst ` set bound \<subseteq> skey ` set accepted"
proof
  fix k assume "k \<in> fst ` set bound"
  then obtain chain where kc: "(k, chain) \<in> set bound" by auto
  with assms have "chain \<noteq> []" "k = skey (hd chain)" by (auto simp: chains_ok_def list_all_iff)
  with kc have "hd chain \<in> set (concat (map snd bound))" by force
  with \<open>k = skey (hd chain)\<close> have "k \<in> skey ` set (concat (map snd bound))" by simp
  with assms show "k \<in> skey ` set accepted" by (simp add: chains_ok_def)
qed

lemma add_chain_ok:
  assumes ct: "sorts ct" and ok: "chains_ok ct mew (firsts, bound, accepted)"
    and run: "add_chain ct mew e (firsts, bound, accepted) = Inr (firsts', bound', accepted')"
  shows "chains_ok ct mew (firsts', bound', accepted') \<and>
    skey ` set accepted' = skey ` set accepted \<union> (opposite ct mew)\<^sup>* `` {skey e} \<and>
    chain_keys (firsts', bound', accepted') = chain_keys (firsts, bound, accepted) @
      (if skey e \<in> skey ` set accepted then [] else [(opposite ct mew)\<^sup>* `` {skey e} - skey ` set accepted])"
proof (cases "skey e \<in> skey ` set accepted")
  case True
  with run have "(firsts', bound', accepted') = (firsts, bound, accepted)"
    by (simp add: add_chain_def accepted_iff)
  moreover have "(opposite ct mew)\<^sup>* `` {skey e} \<subseteq> skey ` set accepted"
    using ok True by (intro closed_reach) (auto simp: chains_ok_def)
  ultimately show ?thesis using ok True by auto
next
  case False
  with run obtain chain where b: "build_chain ct mew e accepted = Inr (chain, accepted')"
    and out: "firsts' = firsts @ [hd (sort_shapes ct chain)]"
      "bound' = AList.update (skey (hd (sort_shapes ct chain))) (sort_shapes ct chain) bound"
    by (auto simp: add_chain_def accepted_iff bind_result_Inr_iff Let_def)
  let ?s = "sort_shapes ct chain"
  from ok have "opposite ct mew `` (skey ` set accepted) \<subseteq> skey ` set accepted" by (simp add: chains_ok_def)
  note reaches = build_chain_reaches [OF b this False]
  from reaches have c: "distinct (map skey chain)" "accepted' = accepted @ chain"
    "chain \<noteq> []" "skey ` set chain = (opposite ct mew)\<^sup>* `` {skey e} - skey ` set accepted"
    "opposite ct mew `` (skey ` set accepted') \<subseteq> skey ` set accepted'" by - (elim conjE, assumption)+
  have s: "set ?s = set chain" "distinct (map skey ?s)" "?s \<noteq> []"
    using sorts_simps [OF ct, of chain] c(1,3) by simp_all
  have apart: "skey ` set ?s \<inter> skey ` set accepted = {}" using c(4) s(1) by auto
  have "hd ?s \<in> set ?s" using s(3) by simp
  with apart have "skey (hd ?s) \<notin> skey ` set accepted" by blast
  with chains_ok_keys [OF ok] have "skey (hd ?s) \<notin> fst ` set bound" by blast
  from update_new [OF this] out have bound': "bound' = bound @ [(skey (hd ?s), ?s)]" by simp
  have disjoint: "skey ` set (concat (map snd bound)) \<inter> skey ` set ?s = {}"
    using ok apart by (auto simp: chains_ok_def)
  have "distinct (map skey (concat (map snd bound')))"
    using ok s(2) disjoint unfolding bound' by (auto simp: chains_ok_def)
  moreover have "skey ` set (concat (map snd bound')) = skey ` set accepted'"
    using ok s(1) c(2) unfolding bound' by (simp add: chains_ok_def image_Un)
  ultimately have "chains_ok ct mew (firsts', bound', accepted')"
    using ok s(3) c(5) out(1) unfolding bound' by (simp add: chains_ok_def sup_commute)
  moreover have "skey ` set accepted' = skey ` set accepted \<union> (opposite ct mew)\<^sup>* `` {skey e}"
    using c(2,4) by (auto simp: image_Un)
  moreover have "chain_keys (firsts', bound', accepted') =
      chain_keys (firsts, bound, accepted) @ [(opposite ct mew)\<^sup>* `` {skey e} - skey ` set accepted]"
    using c(4) s(1) by (simp add: chain_keys_def bound')
  ultimately show ?thesis using False by simp
qed

text \<open>The chains handed out are those found, in the order of their first edges.\<close>

lemma chains_out:
  assumes ct: "sorts ct" and ok: "chains_ok ct mew (firsts, bound, accepted)"
    and out: "each (\<lambda>f. case map_of bound (skey f) of None \<Rightarrow> Inl OutOfRange | Some chain \<Rightarrow> Inr chain)
      (sort_shapes ct firsts) = Inr result"
  shows "mset result = mset (map snd bound)"
proof -
  have keys: "distinct (map fst bound)"
  proof -
    have "list_all (\<lambda>(k, chain). chain \<noteq> [] \<and> k = skey (hd chain)) al \<Longrightarrow>
        distinct (map skey (concat (map snd al))) \<Longrightarrow> distinct (map fst al)" for al
    proof (induction al)
      case (Cons x al)
      obtain k chain where x: "x = (k, chain)" by (cases x)
      have "k \<noteq> k'" if kc: "(k', chain') \<in> set al" for k' chain'
      proof
        assume "k = k'"
        from Cons.prems(1) x kc have "chain \<noteq> []" "k = skey (hd chain)" "chain' \<noteq> []" "k' = skey (hd chain')"
          by (auto simp: list_all_iff)
        with kc have "skey (hd chain) \<in> skey ` set (concat (map snd al))" "skey (hd chain) \<in> skey ` set chain"
          using \<open>k = k'\<close> by (force, simp)
        with Cons.prems(2) x show False by auto
      qed
      then have "k \<noteq> fst y" if "y \<in> set al" for y using that by (cases y) simp
      then have "k \<notin> fst ` set al" by blast
      with Cons x show ?case by simp
    qed simp
    with ok show ?thesis unfolding chains_ok_def Let_def prod.case by blast
  qed
  have "result = map (\<lambda>f. the (map_of bound (skey f))) (sort_shapes ct firsts)"
    by (rule each_map [OF out]) (simp split: option.splits)
  then have "mset result = image_mset (\<lambda>f. the (map_of bound (skey f))) (mset firsts)"
    using ct by (simp add: sorts_def)
  also have "\<dots> = mset (map (\<lambda>k. the (map_of bound k)) (map fst bound))"
    using ok by (simp add: chains_ok_def image_mset.comp multiset.map_comp comp_def)
  also have "map (\<lambda>k. the (map_of bound k)) (map fst bound) = map snd bound"
  proof -
    have "the (map_of bound (fst x)) = snd x" if "x \<in> set bound" for x
      using keys that by (cases x) simp
    then show ?thesis by (simp cong: map_cong)
  qed
  finally show ?thesis .
qed

lemma add_chains_ok:
  assumes ct: "sorts ct"
  shows "loop (add_chain ct mew) es st = Inr st' \<Longrightarrow> chains_ok ct mew st \<Longrightarrow>
    chains_ok ct mew st' \<and> skey ` set (snd (snd st)) \<union> skey ` set es \<subseteq> skey ` set (snd (snd st')) \<and>
    chain_keys st' = chain_keys st @ chains_from (opposite ct mew) (skey ` set (snd (snd st))) (map skey es)"
proof (induction es arbitrary: st)
  case (Cons e es)
  obtain firsts bound accepted where st: "st = (firsts, bound, accepted)" by (cases st)
  from Cons.prems(1) obtain st1 where st1: "add_chain ct mew e st = Inr st1" "loop (add_chain ct mew) es st1 = Inr st'"
    by (auto split: sum.splits)
  obtain firsts1 bound1 accepted1 where eq: "st1 = (firsts1, bound1, accepted1)" by (cases st1)
  let ?O = "opposite ct mew" and ?A = "skey ` set accepted"
  note added = add_chain_ok [OF ct Cons.prems(2) [unfolded st] st1(1) [unfolded st eq]]
  have ok: "chains_ok ct mew st1" and A1: "skey ` set accepted1 = ?A \<union> ?O\<^sup>* `` {skey e}"
    and keys: "chain_keys st1 = chain_keys st @ (if skey e \<in> ?A then [] else [?O\<^sup>* `` {skey e} - ?A])"
    using added unfolding st eq by blast+
  have held: "?A \<union> ?O\<^sup>* `` {skey e} = ?A" if "skey e \<in> ?A"
    using Cons.prems(2) that closed_reach [of ?O ?A "{skey e}"] by (auto simp: st chains_ok_def)
  from Cons.IH [OF st1(2) ok] have rest: "chains_ok ct mew st'"
    "skey ` set accepted1 \<union> skey ` set es \<subseteq> skey ` set (snd (snd st'))"
    "chain_keys st' = chain_keys st1 @ chains_from ?O (?A \<union> ?O\<^sup>* `` {skey e}) (map skey es)"
    by (simp_all add: eq A1)
  have "chain_keys st' = chain_keys st @ chains_from ?O ?A (map skey (e # es))"
    unfolding rest(3) keys using held by (cases "skey e \<in> ?A") simp_all
  with rest(1,2) A1 show ?case by (auto simp: st)
qed simp

lemma each_set: "each f xs = Inr ys \<Longrightarrow> set ys = {y. \<exists>x \<in> set xs. f x = Inr y}"
  by (induction xs arbitrary: ys) (auto split: sum.splits)

lemma mset_concat_perm: "mset xss = mset yss \<Longrightarrow> mset (concat xss) = mset (concat yss)"
  by (simp add: mset_concat flip: sum_mset_sum_list)

section \<open>The properties\<close>

definition edge_wires :: "occt \<Rightarrow> block_tools \<Rightarrow> shape \<Rightarrow> ancestors" where
  "edge_wires oc bt s = map_ancestors oc bt s EDGE WIRE"

text \<open>
  C34. The chain of an edge is what is reached from it by going to the opposite edge of a wire of
  four edges: \<^verbatim>\<open>propagation_chain\<close> returns the labels of exactly those edges, each once, in order.
\<close>

theorem propagation_chain_is_reachable:
  assumes "propagation_chain oc bt ct s eid = Inr ids" and "sole_edge oc s eid = Inr edge" and "sorts ct"
  shows "sorted_wrt (<) ids \<and>
    set ids = {i. \<exists>sh. skey sh \<in> (opposite ct (edge_wires oc bt (st_root (s_state s))))\<^sup>* `` {skey edge} \<and>
      label_of s sh = Inr i}"
proof -
  let ?mew = "edge_wires oc bt (st_root (s_state s))"
  from assms(1,2) obtain chain rest labels where
    run: "propagation_chains oc bt ct (st_root (s_state s)) (Some edge) = Inr (chain # rest)"
    and labels: "each (label_of s) chain = Inr labels" and ids: "ids = tidy labels"
    by (auto simp: propagation_chain_def in_session_def bind_result_Inr_iff split: sum.splits list.splits)
  have none: "sort_shapes ct [] = []" using sorts_simps(3) [OF assms(3), of "[]"] by simp
  from run obtain x firsts bound accepted where
    x: "find_key (map fst ?mew) edge = Some x" "add_chain ct ?mew x ([], [], []) = Inr (firsts, bound, accepted)"
    and out: "each (\<lambda>f. case map_of bound (skey f) of None \<Rightarrow> Inl OutOfRange | Some chain \<Rightarrow> Inr chain)
      (sort_shapes ct firsts) = Inr (chain # rest)"
    by (auto simp: propagation_chains_def edge_wires_def Let_def bind_result_Inr_iff none
        split: if_splits option.splits)
  from x(1) have same: "skey x = skey edge" by (auto simp: find_key_def is_same_def dest: find_SomeD)
  from add_chain_ok [OF assms(3) chains_ok_start x(2)] same have
    ok: "chains_ok ct ?mew (firsts, bound, accepted)"
    and keys: "skey ` set accepted = (opposite ct ?mew)\<^sup>* `` {skey edge}" by simp_all
  from x(2) have "length bound = 1"
    by (auto simp: add_chain_def bind_result_Inr_iff Let_def)
  with chains_out [OF assms(3) ok out] have "bound = [(fst (hd bound), chain)]"
    by (cases bound) (auto simp: Let_def)
  with ok keys have chain: "skey ` set chain = (opposite ct ?mew)\<^sup>* `` {skey edge}"
    by (cases bound) (auto simp: chains_ok_def)
  have label: "label_of s a = Inr i \<Longrightarrow> skey a = skey b \<Longrightarrow> label_of s b = Inr i" for a b i
    by (auto simp: label_of_def split: option.splits list.splits)
  have "set labels = {i. \<exists>sh \<in> set chain. label_of s sh = Inr i}"
    by (rule each_set [OF labels])
  also have "\<dots> = {i. \<exists>sh. skey sh \<in> skey ` set chain \<and> label_of s sh = Inr i}"
  proof -
    have "(\<exists>sh \<in> set chain. label_of s sh = Inr i) = (\<exists>sh. skey sh \<in> skey ` set chain \<and> label_of s sh = Inr i)" for i
      using label by (metis image_iff)
    then show ?thesis by simp
  qed
  finally show ?thesis by (simp add: ids strict_tidy chain)
qed

text \<open>Two quadrangles side by side: the edge 4 leads to 6, which they share, and that to 9.\<close>

definition rung :: "nat \<Rightarrow> shape" where
  "rung t = Shape t 0 FORWARD EDGE []"

definition ladder_body :: shape where
  "ladder_body = Shape 50 0 FORWARD SOLID [Shape 51 0 FORWARD SHELL
     [Shape 52 0 FORWARD FACE [Shape 53 0 FORWARD WIRE (map rung [11, 12, 13, 14])],
      Shape 54 0 FORWARD FACE [Shape 55 0 FORWARD WIRE (map rung [13, 15, 16, 17])]]]"

definition ladder :: session where
  "ladder = snd (commit walk_occt
     \<lparr>ca_bodies = [ladder_body], ca_history = None, ca_op_name = ''make'', ca_built = ladder_body,
      ca_mode = Strict, ca_warnings = [], ca_pieces = KeepId\<rparr> (new_session False))"

definition plain_map :: block_tools where
  "plain_map = \<lparr>wire_edges = (\<lambda>_ _. Inr []), degenerated = (\<lambda>_. False), common_vertex = (\<lambda>_ _. Inr None),
     tangent = (\<lambda>_ _. Inr (f0, f0, f0)), vec_angle = (\<lambda>_ _. Inr f0), possible_blocks = (\<lambda>_ _. Inr 0),
     explore_avoiding = (\<lambda>_ _ _. []), glue_analysis = (\<lambda>_. Inr (0, []))\<rparr>"

definition plain_chains :: chain_tools where
  "plain_chains = \<lparr>walk_wire = children, sort_shapes = (\<lambda>xs. xs)\<rparr>"

lemma sorts_plain: "sorts plain_chains"
  by (simp add: sorts_def plain_chains_def)

lemma ladder_run:
  "propagation_chain walk_occt plain_map plain_chains ladder 4 = Inr [4, 6, 9]"
  "sole_edge walk_occt ladder 4 = Inr (rung 11)"
  by code_simp+

theorem propagation_chain_witness:
  "sorted_wrt (<) [4, 6, 9 :: entity_id] \<and>
   set [4, 6, 9] = {i. \<exists>sh. skey sh \<in> (opposite plain_chains (edge_wires walk_occt plain_map
      (st_root (s_state ladder))))\<^sup>* `` {skey (rung 11)} \<and> label_of ladder sh = Inr i}"
  by (rule propagation_chain_is_reachable [OF ladder_run sorts_plain])

text \<open>The pairs of opposite edges of a map, one by one.\<close>

definition opposite_pairs :: "chain_tools \<Rightarrow> ancestors \<Rightarrow> (shape_key \<times> shape_key) list" where
  "opposite_pairs ct mew = concat (map (\<lambda>(e, _). case ancestors_of mew e of Inl stop \<Rightarrow> []
     | Inr wires \<Rightarrow> concat (map (\<lambda>w. case opposite_edge (walk_wire ct w) e of None \<Rightarrow> []
         | Some x \<Rightarrow> [(skey e, skey x)]) wires)) mew)"

lemma set_opposite_pairs: "set (opposite_pairs ct mew) = opposite ct mew"
proof -
  have wires: "set (concat (map (\<lambda>w. case opposite_edge (walk_wire ct w) e of None \<Rightarrow> []
      | Some x \<Rightarrow> [(skey e, skey x)]) ws)) =
    {skey e} \<times> {skey x | x. \<exists>w \<in> set ws. opposite_edge (walk_wire ct w) e = Some x}" for e ws
    by (induction ws) (auto split: option.splits)
  have "set (case ancestors_of mew e of Inl stop \<Rightarrow> []
     | Inr wires \<Rightarrow> concat (map (\<lambda>w. case opposite_edge (walk_wire ct w) e of None \<Rightarrow> []
         | Some x \<Rightarrow> [(skey e, skey x)]) wires)) = {skey e} \<times> opposites_of ct mew e" for e
    by (cases "ancestors_of mew e") (simp_all only: opposites_of_def sum.case wires, simp)
  then have pairs: "set (opposite_pairs ct mew) = (\<Union>(e, ws) \<in> set mew. {skey e} \<times> opposites_of ct mew e)"
    by (simp add: opposite_pairs_def case_prod_unfold)
  have key: "\<exists>e' ws. (e', ws) \<in> set mew \<and> is_same e' e" if "k \<in> opposites_of ct mew e" for e k
    using that by (auto simp: opposites_of_def ancestors_of_def dest!: find_SomeD split: sum.splits option.splits)
  show ?thesis unfolding pairs
  proof (rule equalityI; rule subsetI)
    fix p assume "p \<in> opposite ct mew"
    then obtain e k where p: "p = (skey e, k)" "k \<in> opposites_of ct mew e" by (auto simp: opposite_def)
    from key [OF p(2)] obtain e' ws where e': "(e', ws) \<in> set mew" "is_same e' e" by blast
    with p opposites_of_same [of e' e ct mew] have "p \<in> {skey e'} \<times> opposites_of ct mew e'"
      by (simp add: is_same_def)
    then have "p \<in> (case (e', ws) of (e, ws) \<Rightarrow> {skey e} \<times> opposites_of ct mew e)" by (simp only: prod.case)
    with e'(1) show "p \<in> (\<Union>(e, ws) \<in> set mew. {skey e} \<times> opposites_of ct mew e)" by (rule UN_I)
  qed (auto simp: opposite_def)
qed

text \<open>
  C35. The chains of a model are a partition of its edges into what is reached through opposite
  edges. No edge is in two chains or twice in one, no chain is empty, and every edge of the model
  is in one. Each chain is complete: going over the edges in the order of the map, from each one
  that no earlier chain holds, a chain is exactly the edges reached from it by going to the opposite
  edge of a wire of four edges any number of times, less those of the earlier chains; and there is no
  other chain. So where being opposite goes both ways, each chain is what is reached from
  any one of its edges. \<^verbatim>\<open>SortShapes\<close>, which orders the chains and each chain's edges, is relied on
  to reorder only (\<open>sorts\<close>).
\<close>

theorem propagation_chains_partition:
  assumes "propagation_chains oc bt ct s None = Inr result" and "sorts ct"
  shows "distinct (map skey (concat result)) \<and> [] \<notin> set result \<and>
    keys_of (edge_wires oc bt s) \<subseteq> skey ` set (concat result) \<and>
    mset (map (\<lambda>chain. skey ` set chain) result) =
      mset (chains_from (opposite ct (edge_wires oc bt s)) {} (map (skey \<circ> fst) (edge_wires oc bt s))) \<and>
    (sym (opposite ct (edge_wires oc bt s)) \<longrightarrow>
       (\<forall>chain \<in> set result. \<forall>e \<in> set chain.
          skey ` set chain = (opposite ct (edge_wires oc bt s))\<^sup>* `` {skey e}))"
proof -
  let ?mew = "edge_wires oc bt s"
  let ?O = "opposite ct ?mew"
  from assms(1) obtain firsts bound accepted where
    run: "loop (add_chain ct ?mew) (map fst ?mew) ([], [], []) = Inr (firsts, bound, accepted)"
    and out: "each (\<lambda>f. case map_of bound (skey f) of None \<Rightarrow> Inl OutOfRange | Some chain \<Rightarrow> Inr chain)
      (sort_shapes ct firsts) = Inr result"
    by (auto simp: propagation_chains_def edge_wires_def Let_def bind_result_Inr_iff)
  from add_chains_ok [OF assms(2) run chains_ok_start] have
    ok: "chains_ok ct ?mew (firsts, bound, accepted)" and all: "keys_of ?mew \<subseteq> skey ` set accepted"
    and found: "map (\<lambda>chain. skey ` set chain) (map snd bound) = chains_from ?O {} (map (skey \<circ> fst) ?mew)"
    by (simp_all add: keys_of_def image_comp chain_keys_def)
  from chains_out [OF assms(2) ok out] have perm: "mset result = mset (map snd bound)" .
  from mset_concat_perm [OF this]
  have "mset (map skey (concat result)) = mset (map skey (concat (map snd bound)))"
    by (simp only: mset_map [of skey])
  from mset_eq_imp_distinct_iff [OF this] mset_eq_setD [OF this]
  have "distinct (map skey (concat result))" and "keys_of ?mew \<subseteq> skey ` set (concat result)"
    using ok all by (simp_all only: set_map chains_ok_def Let_def prod.case)
  moreover have "[] \<notin> set result"
    using mset_eq_setD [OF perm] ok by (auto simp: chains_ok_def list_all_iff)
  moreover have chains: "mset (map (\<lambda>chain. skey ` set chain) result) = mset (chains_from ?O {} (map (skey \<circ> fst) ?mew))"
    unfolding found [symmetric] using perm by (simp only: mset_map)
  moreover have "skey ` set chain = ?O\<^sup>* `` {skey e}" if "sym ?O" "chain \<in> set result" "e \<in> set chain" for chain e
  proof (rule chains_from_classes [OF that(1)])
    show "skey ` set chain \<in> set (chains_from ?O {} (map (skey \<circ> fst) ?mew))"
      using imageI [OF that(2), of "\<lambda>chain. skey ` set chain"]
      unfolding mset_eq_setD [OF chains, symmetric] set_map .
  qed (use that(3) in simp_all)
  ultimately show ?thesis by blast
qed

lemma ladder_chains:
  "propagation_chains walk_occt plain_map plain_chains ladder_body None =
     Inr [map rung [11, 13, 16], map rung [12, 14], map rung [15, 17]]"
  by code_simp

lemma ladder_opposites:
  "list_all (\<lambda>(a, b). list_ex (\<lambda>p. p = (b, a)) (opposite_pairs plain_chains (edge_wires walk_occt plain_map ladder_body)))
     (opposite_pairs plain_chains (edge_wires walk_occt plain_map ladder_body))"
  by code_simp

theorem propagation_chains_witness:
  "keys_of (edge_wires walk_occt plain_map ladder_body) \<subseteq> skey ` set (map rung [11, 13, 16, 12, 14, 15, 17]) \<and>
   skey ` set (map rung [11, 13, 16]) =
     (opposite plain_chains (edge_wires walk_occt plain_map ladder_body))\<^sup>* `` {skey (rung 13)}"
proof -
  have sym: "sym (opposite plain_chains (edge_wires walk_occt plain_map ladder_body))"
    unfolding set_opposite_pairs [symmetric] using ladder_opposites by (auto intro!: symI simp: list_all_iff list_ex_iff)
  note classes = propagation_chains_partition [OF ladder_chains sorts_plain, THEN conjunct2, THEN conjunct2]
  have "map rung [11, 13, 16] \<in> set [map rung [11, 13, 16], map rung [12, 14], map rung [15, 17]]"
    and "rung 13 \<in> set (map rung [11, 13, 16])" by simp_all
  with classes [THEN conjunct2, THEN conjunct2] sym have "skey ` set (map rung [11, 13, 16]) =
     (opposite plain_chains (edge_wires walk_occt plain_map ladder_body))\<^sup>* `` {skey (rung 13)}"
    by blast
  with classes [THEN conjunct1] show ?thesis by simp
qed

text \<open>
  Building the chains ends, for every shape and every OCCT: each pass over the edges accepts
  keys of the map that were not accepted before, so the passes are at most as many as the edges,
  and one.
\<close>

lemma propagation_ends: "propagation_chains oc bt ct s start \<noteq> Inl OutOfFuel"
proof -
  have add: "add_chain ct mew e st \<noteq> Inl OutOfFuel" for mew e st
    using build_chain_ends by (auto simp: add_chain_def bind_result_def Let_def split: sum.splits prod.splits)
  have all: "loop (add_chain ct mew) es st \<noteq> Inl OutOfFuel" for mew es st
    using add by (induction es arbitrary: st) (auto split: sum.splits)
  have out: "each (\<lambda>f. case map_of bound (skey f) of None \<Rightarrow> Inl OutOfRange | Some chain \<Rightarrow> Inr chain) fs \<noteq> Inl OutOfFuel"
    for bound :: "(shape_key \<times> shape list) list" and fs
    by (induction fs) (auto split: sum.splits option.splits)
  show ?thesis using all add out
    by (auto simp: propagation_chains_def Let_def bind_result_def split: sum.splits option.splits prod.splits)
qed

end
