(* ===== verification/Ancestors.thy ===== *)
theory Ancestors
  imports BlockChains
begin

text \<open>
  What the map of sub-shapes and ancestors holds: the list of a sub-shape is the ancestors of the
  kind it is under, in the order of their exploration.
\<close>

section \<open>Lookup\<close>

text \<open>The list of a shape in the map, empty for a key the map does not have.\<close>

definition listed :: "ancestors \<Rightarrow> shape \<Rightarrow> shape list" where
  "listed m s = (case find (\<lambda>(k, ancs). is_same k s) m of None \<Rightarrow> [] | Some (k, ancs) \<Rightarrow> ancs)"

definition is_listed :: "ancestors \<Rightarrow> shape \<Rightarrow> bool" where
  "is_listed m s = list_ex (\<lambda>(k, ancs). is_same k s) m"

lemma listed_simps [simp]:
  "listed [] s = []"
  "listed ((k, ancs) # m) s = (if is_same k s then ancs else listed m s)"
  "is_listed [] s = False"
  "is_listed ((k, ancs) # m) s = (is_same k s \<or> is_listed m s)"
  by (simp_all add: listed_def is_listed_def)

lemma ancestors_of_listed:
  "ancestors_of m s = (if is_listed m s then Inr (listed m s) else Inl OutOfRange)"
  by (induction m) (auto simp: ancestors_of_def split: option.splits)

section \<open>Filling the map\<close>

lemma add_ancestor_listed:
  "listed (add_ancestor anc x m) s = listed m s @ (if is_same x s then [anc] else [])"
  "is_listed (add_ancestor anc x m) s = (is_listed m s \<or> is_same x s)"
proof (induction m)
  case (Cons kv m)
  obtain k ancs where kv: "kv = (k, ancs)" by (cases kv)
  have "is_same k x \<Longrightarrow> is_same x s = is_same k s" by (simp add: is_same_def)
  with Cons show "listed (add_ancestor anc x (kv # m)) s = listed (kv # m) s @ (if is_same x s then [anc] else [])"
    "is_listed (add_ancestor anc x (kv # m)) s = (is_listed (kv # m) s \<or> is_same x s)"
    by (auto simp: kv is_same_def)
qed simp_all

definition has_sub :: "shape list \<Rightarrow> shape \<Rightarrow> bool" where
  "has_sub xs s = list_ex (\<lambda>x. is_same x s) xs"

lemma has_sub_simps [simp]: "has_sub [] s = False" "has_sub (x # xs) s = (is_same x s \<or> has_sub xs s)"
  by (simp_all add: has_sub_def)

lemma has_sub_iff: "has_sub xs s = (skey s \<in> skey ` set xs)"
  by (auto simp: has_sub_def list_ex_iff is_same_def intro: rev_image_eqI)

lemma has_sub_append_all [simp]: "has_sub (append_all [] xs) s = has_sub xs s"
  by (simp add: has_sub_iff)

interpretation incidence: multimap listed "\<lambda>x anc. add_ancestor anc x" skey
  by unfold_locales (simp add: add_ancestor_listed is_same_def)

lemma add_ancestors_is_listed: "is_listed (fold (add_ancestor anc) xs m) s = (is_listed m s \<or> has_sub xs s)"
  by (induction xs arbitrary: m) (simp_all add: add_ancestor_listed)

lemma ancestors_listed:
  "listed (fold (\<lambda>anc m. fold (add_ancestor anc) (append_all [] (explore oc anc ts)) m) ancs m) s =
     listed m s @ filter (\<lambda>anc. has_sub (explore oc anc ts) s) ancs"
  "is_listed (fold (\<lambda>anc m. fold (add_ancestor anc) (append_all [] (explore oc anc ts)) m) ancs m) s =
     (is_listed m s \<or> (\<exists>anc \<in> set ancs. has_sub (explore oc anc ts) s))"
proof -
  have "distinct (map skey (append_all [] (explore oc anc ts)))" for anc by (rule append_all_distinct) simp
  from incidence.look_rows [of "\<lambda>anc. append_all [] (explore oc anc ts)", OF this] show
    "listed (fold (\<lambda>anc m. fold (add_ancestor anc) (append_all [] (explore oc anc ts)) m) ancs m) s =
       listed m s @ filter (\<lambda>anc. has_sub (explore oc anc ts) s) ancs"
    by (simp add: has_sub_iff)
  show "is_listed (fold (\<lambda>anc m. fold (add_ancestor anc) (append_all [] (explore oc anc ts)) m) ancs m) s =
     (is_listed m s \<or> (\<exists>anc \<in> set ancs. has_sub (explore oc anc ts) s))"
    by (induction ancs arbitrary: m) (auto simp: add_ancestors_is_listed)
qed

text \<open>The second loop: a key of its own for a sub-shape under no ancestor.\<close>

definition add_free :: "shape \<Rightarrow> ancestors \<Rightarrow> ancestors" where
  "add_free x m = (if list_ex (\<lambda>(k, ancs). is_same k x) m then m else m @ [(x, [])])"

lemma listed_snoc:
  "listed (m @ [(x, [])]) s = listed m s"
  "is_listed (m @ [(x, [])]) s = (is_listed m s \<or> is_same x s)"
proof (induction m)
  case (Cons kv m)
  obtain k ancs where "kv = (k, ancs)" by (cases kv)
  with Cons show "listed ((kv # m) @ [(x, [])]) s = listed (kv # m) s"
    "is_listed ((kv # m) @ [(x, [])]) s = (is_listed (kv # m) s \<or> is_same x s)"
    by simp_all
qed simp_all

lemma is_listed_same: "is_same x s \<Longrightarrow> is_listed m x = is_listed m s"
  by (simp add: is_listed_def is_same_def)

lemma add_free_step:
  "listed (add_free x m) s = listed m s" "is_listed (add_free x m) s = (is_listed m s \<or> is_same x s)"
proof -
  have free: "add_free x m = (if is_listed m x then m else m @ [(x, [])])" by (simp add: add_free_def is_listed_def)
  show "listed (add_free x m) s = listed m s" by (simp add: free listed_snoc)
  show "is_listed (add_free x m) s = (is_listed m s \<or> is_same x s)"
    using is_listed_same [of x s m] by (auto simp: free listed_snoc)
qed

lemma add_free_listed:
  "listed (fold add_free xs m) s = listed m s" "is_listed (fold add_free xs m) s = (is_listed m s \<or> has_sub xs s)"
proof (induction xs arbitrary: m)
  case (Cons x xs)
  case 1 show ?case by (simp add: Cons.IH(1) add_free_step(1))
  case 2 show ?case by (simp add: Cons.IH(2) add_free_step(2) disj_assoc)
qed simp_all

section \<open>The map of a shape\<close>

text \<open>The ancestors of the kind that hold the sub-shape, each once.\<close>

definition holders :: "occt \<Rightarrow> shape \<Rightarrow> shape_enum \<Rightarrow> shape_enum \<Rightarrow> shape \<Rightarrow> shape list" where
  "holders oc s ts ta x = filter (\<lambda>anc. has_sub (explore oc anc ts) x) (append_all [] (explore oc s ta))"

lemma map_ancestors_listed:
  "listed (map_ancestors oc bt s ts ta) x = holders oc s ts ta x"
  "is_listed (map_ancestors oc bt s ts ta) x =
     (holders oc s ts ta x \<noteq> [] \<or> has_sub (explore_avoiding bt s ts ta) x)"
  unfolding map_ancestors_def Let_def add_free_def [symmetric] add_free_listed ancestors_listed holders_def
  by (auto simp: filter_empty_conv)

lemma ancestors_of_map:
  "ancestors_of (map_ancestors oc bt s ts ta) x =
     (if holders oc s ts ta x \<noteq> [] \<or> has_sub (explore_avoiding bt s ts ta) x
      then Inr (holders oc s ts ta x) else Inl OutOfRange)"
  unfolding ancestors_of_listed map_ancestors_listed ..

text \<open>
  What \<^verbatim>\<open>TopExp_Explorer (s, kind, avoid)\<close> promises: every sub-shape is under an ancestor of
  the avoided kind or is met.
\<close>

definition meets_the_rest :: "occt \<Rightarrow> block_tools \<Rightarrow> shape \<Rightarrow> shape_enum \<Rightarrow> shape_enum \<Rightarrow> bool" where
  "meets_the_rest oc bt s ts ta =
     list_all (\<lambda>x. holders oc s ts ta x \<noteq> [] \<or> has_sub (explore_avoiding bt s ts ta) x) (map_shapes oc s ts)"

lemma holders_distinct: "distinct (map skey (holders oc s ts ta x))"
  unfolding holders_def by (rule distinct_map_filter) (rule append_all_distinct, simp)

end
