(* ===== verification/Block6Facts.thy ===== *)
theory Block6Facts
  imports Block6
begin

text \<open>
  The explorer's tables are those of one hexahedron, and on a block that is a hexahedron the
  initialisation finds its faces, edges and vertices under their numbers.
\<close>

section \<open>Incidence\<close>

definition ends_of_edge :: "nat \<Rightarrow> nat list" where
  "ends_of_edge k = [vertex_id_edge k 1, vertex_id_edge k 2]"

definition edges_of_face :: "nat \<Rightarrow> nat list" where
  "edges_of_face f = map (edge_id f) [1, 2, 3, 4]"

definition edges_at :: "nat \<Rightarrow> nat list" where
  "edges_at v = filter (\<lambda>k. v \<in> set (ends_of_edge k)) [1..<13]"

definition faces_at :: "nat \<Rightarrow> nat list" where
  "faces_at k = filter (\<lambda>f. k \<in> set (edges_of_face f)) [1..<7]"

definition shared :: "nat list \<Rightarrow> nat list \<Rightarrow> nat list" where
  "shared xs ys = filter (\<lambda>x. x \<in> set ys) xs"

text \<open>The one number in both lists, or 0.\<close>

definition only_shared :: "nat list \<Rightarrow> nat list \<Rightarrow> nat" where
  "only_shared xs ys = (case shared xs ys of [x] \<Rightarrow> x | _ \<Rightarrow> 0)"

lemma step_facts:
  "list_all (\<lambda>i. filter (\<lambda>k. k \<notin> {1, 2, 3, 4}) (edges_at i) = [8 + i] \<and> side_edge_id i = 8 + i \<and>
     vertex_id 1 i = i \<and> vertex_id 2 i = 4 + i \<and> ends_of_edge (8 + i) = [i, 4 + i]) [1, 2, 3, 4]"
  "list_all (\<lambda>i. shared (edges_at (vertex_id 2 i)) (edges_at (vertex_id 2 (nat (mod4 (int i + 1))))) = [edge_id 2 i])
     [1, 2, 3, 4]"
  "list_all (\<lambda>f. shared (faces_at (edge_id f 1)) (faces_at (edge_id f 2)) = [f]) [2, 3, 4, 5, 6]"
  by code_simp+

section \<open>Hexahedra\<close>

record hexahedron =
  h_face :: "nat \<Rightarrow> shape_key"
  h_edge :: "nat \<Rightarrow> shape_key"
  h_vertex :: "nat \<Rightarrow> shape_key"

text \<open>A shape with a key, to look a map up at.\<close>

definition at_key :: "shape_key \<Rightarrow> shape" where
  "at_key k = Shape (key_tshape k) (key_location k) FORWARD SHAPE []"

lemma skey_at_key [simp]: "skey (at_key k) = k"
  by (simp add: at_key_def skey_def)

definition lists_at :: "ancestors \<Rightarrow> (nat \<Rightarrow> shape_key) \<Rightarrow> (nat \<Rightarrow> shape_key) \<Rightarrow> (nat \<Rightarrow> nat list) \<Rightarrow> nat list \<Rightarrow> bool" where
  "lists_at m key value near ns =
     list_all (\<lambda>n. case ancestors_of m (at_key (key n)) of
        Inl stop \<Rightarrow> False | Inr ss \<Rightarrow> set (map skey ss) = set (map value (near n))) ns"

text \<open>
  A block is the hexahedron H when the maps of its vertices, edges and faces are those of H, an
  edge ends where the edge of H does, and the first face has the first four edges.
\<close>

definition block_is ::
  "occt \<Rightarrow> block_tools \<Rightarrow> block_geometry \<Rightarrow> hexahedron \<Rightarrow> shape \<Rightarrow> bool" where
  "block_is oc bt bg H block =
     (let mb = map_ancestors oc bt block VERTEX EDGE; mbe = map_ancestors oc bt block EDGE FACE
      in length mb = NBVERTS \<and> length mbe = NBEDGES \<and>
         distinct (map (h_vertex H) [1..<9]) \<and> distinct (map (h_edge H) [1..<13]) \<and> distinct (map (h_face H) [1..<7]) \<and>
         lists_at mb (h_vertex H) (h_edge H) edges_at [1..<9] \<and>
         lists_at mbe (h_edge H) (h_face H) faces_at [1..<13])"

text \<open>An edge of the block with the key of an edge of H ends in the keys of its ends.\<close>

definition ends_are :: "block_geometry \<Rightarrow> hexahedron \<Rightarrow> bool" where
  "ends_are bg H = (\<forall>e k. k \<in> {1..12} \<and> skey e = h_edge H k \<longrightarrow>
     (let (u, v) = edge_ends bg e in (skey u, skey v) \<in>
        {(h_vertex H (vertex_id_edge k 1), h_vertex H (vertex_id_edge k 2)),
         (h_vertex H (vertex_id_edge k 2), h_vertex H (vertex_id_edge k 1))}))"

lemma lists_atE:
  assumes "lists_at m key value near ns" and "n \<in> set ns" and "skey s = key n"
  obtains ss where "ancestors_of m s = Inr ss" and "skey ` set ss = value ` set (near n)"
proof -
  have "ancestors_of m s = ancestors_of m (at_key (key n))"
    by (rule ancestors_of_same) (simp add: is_same_def assms(3))
  moreover from assms(1,2) have "case ancestors_of m (at_key (key n)) of
      Inl stop \<Rightarrow> False | Inr ss \<Rightarrow> set (map skey ss) = set (map value (near n))"
    unfolding lists_at_def list_all_iff by (rule bspec)
  ultimately show ?thesis using that by (cases "ancestors_of m (at_key (key n))") auto
qed

lemma first_common_key:
  assumes "skey ` set xs = value ` set ks" and "skey ` set ys = value ` set ls"
    and "inj_on value D" and "set ks \<subseteq> D" and "set ls \<subseteq> D" and "shared ks ls = [j]"
  shows "\<exists>x. first_common xs ys = Some x \<and> skey x = value j"
proof -
  have j: "set ks \<inter> set ls = {j}"
  proof -
    have "set (shared ks ls) = set ks \<inter> set ls" by (auto simp: shared_def)
    with assms(6) show ?thesis by simp
  qed
  have test: "list_ex (is_same x) ys \<longleftrightarrow> skey x \<in> value ` set ls" for x
    using assms(2) by (auto simp: list_ex_iff is_same_def intro: rev_image_eqI)
  from j assms(1) obtain x0 where "x0 \<in> set xs" "skey x0 = value j" by (metis Int_iff image_iff insertI1)
  with j test have "find (\<lambda>x. list_ex (is_same x) ys) xs \<noteq> None" by (auto simp: find_None_iff)
  then obtain x where x: "first_common xs ys = Some x" by (auto simp: first_common_def)
  then have "x \<in> set xs" "skey x \<in> value ` set ls"
    using test by (auto simp: first_common_def dest!: find_SomeD)
  with assms(1) have "skey x \<in> value ` set ks" by blast
  with \<open>skey x \<in> value ` set ls\<close> obtain k l where
    kl: "k \<in> set ks" "l \<in> set ls" "skey x = value k" "skey x = value l" by blast
  with assms(3-5) have "k = l" by (metis inj_onD subsetD)
  with kl j have "k = j" by blast
  with x kl show ?thesis by blast
qed

lemma find_outside:
  assumes ss: "skey ` set ss = value ` set ks" and known: "skey ` set known = value ` D0"
    and inj: "inj_on value D" and D: "set ks \<subseteq> D" "D0 \<subseteq> D" and j: "filter (\<lambda>k. k \<notin> D0) ks = [j]"
  shows "\<exists>e. find (\<lambda>e. \<not> list_ex (\<lambda>k. is_same k e) known) ss = Some e \<and> skey e = value j"
proof -
  have out: "\<not> list_ex (\<lambda>k. is_same k e) known \<longleftrightarrow> skey e \<notin> value ` D0" for e
    unfolding known [symmetric] by (auto simp: list_ex_iff is_same_def intro: rev_image_eqI)
  have "set (filter (\<lambda>k. k \<notin> D0) ks) = set ks - D0" by auto
  with j have rest: "set ks - D0 = {j}" by simp
  have apart: "value k \<in> value ` D0 \<longleftrightarrow> k \<in> D0" if "k \<in> set ks" for k
    using inj_on_image_mem_iff [OF inj subsetD [OF D(1) that] D(2)] .
  from rest have "j \<in> set ks" "value j \<notin> value ` D0" using apart by blast+
  with ss obtain e0 where "e0 \<in> set ss" "skey e0 = value j" by (metis imageE imageI)
  with out \<open>value j \<notin> value ` D0\<close> have "find (\<lambda>e. \<not> list_ex (\<lambda>k. is_same k e) known) ss \<noteq> None"
    unfolding find_None_iff by metis
  then obtain e where e: "find (\<lambda>e. \<not> list_ex (\<lambda>k. is_same k e) known) ss = Some e" by blast
  from find_SomeD [OF e] out have mem: "e \<in> set ss" "skey e \<notin> value ` D0" by blast+
  from mem(1) ss have "skey e \<in> value ` set ks" by blast
  then obtain k where k: "k \<in> set ks" "skey e = value k" by (rule imageE)
  with mem(2) apart have "k \<in> set ks - D0" by simp
  with rest k(2) e show ?thesis by simp
qed

text \<open>What is known of the arrays: the numbers under which they hold the keys of H.\<close>

definition agrees :: "hexahedron \<Rightarrow> nat set \<Rightarrow> nat set \<Rightarrow> nat set \<Rightarrow> explorer \<Rightarrow> bool" where
  "agrees H fs es vs x = ((\<forall>f \<in> fs. skey (x_faces x f) = h_face H f) \<and>
     (\<forall>k \<in> es. skey (x_edges x k) = h_edge H k) \<and> (\<forall>v \<in> vs. skey (x_vertices x v) = h_vertex H v))"

text \<open>An array of shapes by number: writing a number changes that number alone.\<close>

locale numbered_store =
  fixes get :: "'s \<Rightarrow> nat \<Rightarrow> shape" and put :: "nat \<Rightarrow> shape \<Rightarrow> 's \<Rightarrow> 's"
  assumes get_put: "get (put i v s) j = (if j = i then v else get s j)"
begin

lemma labels_put:
  "\<forall>k \<in> K. skey (get s k) = label k \<Longrightarrow> skey v = label i \<Longrightarrow> \<forall>k \<in> insert i K. skey (get (put i v s) k) = label k"
  by (simp add: get_put)

end

interpretation faces: numbered_store x_faces set_face
  by unfold_locales (simp add: set_face_def)

interpretation edges: numbered_store x_edges set_edge
  by unfold_locales (simp add: set_edge_def)

interpretation vertices: numbered_store x_vertices set_vertex
  by unfold_locales (simp add: set_vertex_def)

lemma set_frames [simp]:
  "x_edges (set_face i s x) = x_edges x" "x_vertices (set_face i s x) = x_vertices x"
  "x_faces (set_edge i s x) = x_faces x" "x_vertices (set_edge i s x) = x_vertices x"
  "x_faces (set_vertex i s x) = x_faces x" "x_edges (set_vertex i s x) = x_edges x"
  by (simp_all add: set_face_def set_edge_def set_vertex_def)

lemma agrees_set:
  "agrees H fs es vs x \<Longrightarrow> skey s = h_face H i \<Longrightarrow> agrees H (insert i fs) es vs (set_face i s x)"
  "agrees H fs es vs x \<Longrightarrow> skey s = h_edge H i \<Longrightarrow> agrees H fs (insert i es) vs (set_edge i s x)"
  "agrees H fs es vs x \<Longrightarrow> skey s = h_vertex H i \<Longrightarrow> agrees H fs es (insert i vs) (set_vertex i s x)"
  unfolding agrees_def set_frames
  by (elim conjE; intro conjI faces.labels_put edges.labels_put vertices.labels_put; assumption)+

section \<open>The steps of the initialisation\<close>

lemma in_four: "i \<in> {1, 2, 3, 4} \<longleftrightarrow> i \<in> set [1, 2, 3, 4 :: nat]"
  by simp

lemma inj_labels:
  assumes "block_is oc bt bg H block"
  shows "inj_on (h_vertex H) {1..8}" "inj_on (h_edge H) {1..12}" "inj_on (h_face H) {1..6}"
proof -
  have s: "set [1..<9] = {1..8 :: nat}" "set [1..<13] = {1..12 :: nat}" "set [1..<7] = {1..6 :: nat}" by auto
  from assms show "inj_on (h_vertex H) {1..8}" "inj_on (h_edge H) {1..12}" "inj_on (h_face H) {1..6}"
    unfolding block_is_def Let_def distinct_map s by simp_all
qed

lemma edges_at_range: "set (edges_at v) \<subseteq> {1..12}" "set (faces_at k) \<subseteq> {1..6}"
  by (auto simp: edges_at_def faces_at_def)

lemma other_end_key:
  assumes "ends_are bg H" and "k \<in> {1..12}" and "skey e = h_edge H k" and "ends_of_edge k = [a, b]"
    and "skey v = h_vertex H a" and "h_vertex H a \<noteq> h_vertex H b"
  shows "skey (other_end bg e v) = h_vertex H b"
proof -
  obtain u w where uw: "edge_ends bg e = (u, w)" by (cases "edge_ends bg e")
  have "vertex_id_edge k 1 = a" "vertex_id_edge k 2 = b" using assms(4) by (simp_all add: ends_of_edge_def)
  with assms(1-3) uw have "(skey u, skey w) \<in> {(h_vertex H a, h_vertex H b), (h_vertex H b, h_vertex H a)}"
    unfolding ends_are_def by fastforce
  with assms(5,6) show ?thesis by (auto simp: other_end_def uw is_same_def)
qed

lemma link_vertex_agrees:
  assumes block: "block_is oc bt bg H block" and ends: "ends_are bg H" and i: "i \<in> {1, 2, 3, 4}"
    and face: "skey ` set face_edges = h_edge H ` {1, 2, 3, 4}"
    and x: "agrees H fs es vs x" and v: "i \<in> vs"
  shows "\<exists>x'. link_vertex bg (map_ancestors oc bt block VERTEX EDGE) face_edges i x = Inr x' \<and>
    agrees H fs (insert (8 + i) es) (insert (4 + i) vs) x'"
proof -
  let ?mb = "map_ancestors oc bt block VERTEX EDGE"
  from step_facts(1) i have t: "filter (\<lambda>k. k \<notin> {1, 2, 3, 4}) (edges_at i) = [8 + i]" "side_edge_id i = 8 + i"
    "vertex_id 1 i = i" "vertex_id 2 i = 4 + i" "ends_of_edge (8 + i) = [i, 4 + i]"
    unfolding in_four list_all_iff by blast+
  let ?vi = "x_vertices x i"
  from x v have vi: "skey ?vi = h_vertex H i" by (simp add: agrees_def)
  have lists: "lists_at ?mb (h_vertex H) (h_edge H) edges_at [1..<9]" using block by (simp add: block_is_def Let_def)
  have "i \<in> set [1..<9]" using i by auto
  from lists_atE [OF lists this vi] obtain ss where ss: "ancestors_of ?mb ?vi = Inr ss"
    "skey ` set ss = h_edge H ` set (edges_at i)" .
  have known: "list_ex (\<lambda>(k, es). is_same k ?vi) ?mb"
    using ss(1) by (auto simp: ancestors_of_def list_ex_iff dest!: find_SomeD split: option.splits)
  have "{1, 2, 3, 4} \<subseteq> {1..12 :: nat}" by auto
  from find_outside [OF ss(2) face inj_labels(2) [OF block] edges_at_range(1) this t(1)] obtain e where
    e: "find (\<lambda>e. \<not> list_ex (\<lambda>k. is_same k e) face_edges) ss = Some e" and key: "skey e = h_edge H (8 + i)" by blast
  have "h_vertex H i \<noteq> h_vertex H (4 + i)"
    using inj_onD [OF inj_labels(1) [OF block], of i "4 + i"] i by auto
  then have "skey (other_end bg e ?vi) = h_vertex H (4 + i)"
    using other_end_key [OF ends _ key t(5) vi] i by auto
  then have "agrees H fs (insert (8 + i) es) (insert (4 + i) vs)
      (set_vertex (4 + i) (other_end bg e ?vi) (set_edge (8 + i) e x))"
    by (intro agrees_set x key)
  then show ?thesis unfolding link_vertex_def Let_def t(2-4) stop_unless_def using ss(1) known e by simp
qed

lemma second_face_edge_agrees:
  assumes block: "block_is oc bt bg H block" and i: "i \<in> {1, 2, 3, 4}"
    and x: "agrees H fs es vs x" and vs: "{5, 6, 7, 8} \<subseteq> vs"
  shows "\<exists>x'. second_face_edge (map_ancestors oc bt block VERTEX EDGE) i x = Inr x' \<and>
    agrees H fs (insert (edge_id 2 i) es) vs x'"
proof -
  let ?mb = "map_ancestors oc bt block VERTEX EDGE"
  let ?u = "vertex_id 2 i" and ?w = "vertex_id 2 (nat (mod4 (int i + 1)))"
  have "list_all (\<lambda>i. vertex_id 2 i \<in> {5, 6, 7, 8} \<and> vertex_id 2 (nat (mod4 (int i + 1))) \<in> {5, 6, 7, 8}) [1, 2, 3, 4]"
    by code_simp
  with i have uw: "?u \<in> {5, 6, 7, 8}" "?w \<in> {5, 6, 7, 8}" unfolding in_four list_all_iff by blast+
  have lists: "lists_at ?mb (h_vertex H) (h_edge H) edges_at [1..<9]" using block by (simp add: block_is_def Let_def)
  have "?u \<in> set [1..<9]" "?w \<in> set [1..<9]" using uw by auto
  have keys: "skey (x_vertices x ?u) = h_vertex H ?u" "skey (x_vertices x ?w) = h_vertex H ?w"
    using x uw vs unfolding agrees_def by blast+
  from lists_atE [OF lists \<open>?u \<in> set [1..<9]\<close> keys(1)] obtain ss where
    ss: "ancestors_of ?mb (x_vertices x ?u) = Inr ss" "skey ` set ss = h_edge H ` set (edges_at ?u)" .
  from lists_atE [OF lists \<open>?w \<in> set [1..<9]\<close> keys(2)] obtain ts where
    ts: "ancestors_of ?mb (x_vertices x ?w) = Inr ts" "skey ` set ts = h_edge H ` set (edges_at ?w)" .
  have "shared (edges_at ?u) (edges_at ?w) = [edge_id 2 i]"
    using step_facts(2) i unfolding in_four list_all_iff by blast
  from first_common_key [OF ss(2) ts(2) inj_labels(2) [OF block] edges_at_range(1) edges_at_range(1) this] obtain e where
    e: "first_common ss ts = Some e" "skey e = h_edge H (edge_id 2 i)" by blast
  from agrees_set(2) [OF x e(2)] show ?thesis
    unfolding second_face_edge_def Let_def using ss(1) ts(1) e(1) by simp
qed

lemma face_of_edges_agrees:
  assumes block: "block_is oc bt bg H block" and f: "f \<in> {2, 3, 4, 5, 6}"
    and x: "agrees H fs es vs x" and es: "{1..12} \<subseteq> es"
  shows "\<exists>x'. face_of_edges (map_ancestors oc bt block EDGE FACE) f x = Inr x' \<and> agrees H (insert f fs) es vs x'"
proof -
  let ?mbe = "map_ancestors oc bt block EDGE FACE"
  let ?k = "edge_id f 1" and ?l = "edge_id f 2"
  have five: "f \<in> set [2, 3, 4, 5, 6]" using f by simp
  have "list_all (\<lambda>f. edge_id f 1 \<in> set [1..<13] \<and> edge_id f 2 \<in> set [1..<13]) [2, 3, 4, 5, 6]" by code_simp
  with five have kl: "?k \<in> set [1..<13]" "?l \<in> set [1..<13]" unfolding list_all_iff by blast+
  have lists: "lists_at ?mbe (h_edge H) (h_face H) faces_at [1..<13]" using block by (simp add: block_is_def Let_def)
  have "set [1..<13] = {1..12 :: nat}" by auto
  with kl es have "?k \<in> es" "?l \<in> es" by blast+
  with x have keys: "skey (x_edges x ?k) = h_edge H ?k" "skey (x_edges x ?l) = h_edge H ?l" unfolding agrees_def by blast+
  from lists_atE [OF lists kl(1) keys(1)] obtain ss where
    ss: "ancestors_of ?mbe (x_edges x ?k) = Inr ss" "skey ` set ss = h_face H ` set (faces_at ?k)" .
  from lists_atE [OF lists kl(2) keys(2)] obtain ts where
    ts: "ancestors_of ?mbe (x_edges x ?l) = Inr ts" "skey ` set ts = h_face H ` set (faces_at ?l)" .
  have "shared (faces_at ?k) (faces_at ?l) = [f]"
    using step_facts(3) five unfolding list_all_iff by blast
  from first_common_key [OF ss(2) ts(2) inj_labels(3) [OF block] edges_at_range(2) edges_at_range(2) this] obtain g where
    g: "first_common ss ts = Some g" "skey g = h_face H f" by blast
  from agrees_set(1) [OF x g(2)] show ?thesis
    unfolding face_of_edges_def Let_def using ss(1) ts(1) g(1) by simp
qed

lemma loop_agrees:
  assumes "\<And>i x fs es vs. i \<in> set ns \<Longrightarrow> P fs es vs \<Longrightarrow> agrees H fs es vs x \<Longrightarrow>
      \<exists>x'. f i x = Inr x' \<and> agrees H (fs \<union> A i) (es \<union> B i) (vs \<union> C i) x' \<and> P (fs \<union> A i) (es \<union> B i) (vs \<union> C i)"
    and "agrees H fs es vs x" and "P fs es vs"
  shows "\<exists>x'. loop f ns x = Inr x' \<and>
    agrees H (fs \<union> (\<Union>i \<in> set ns. A i)) (es \<union> (\<Union>i \<in> set ns. B i)) (vs \<union> (\<Union>i \<in> set ns. C i)) x'"
  using assms
proof (induction ns arbitrary: x fs es vs)
  case (Cons i ns)
  from Cons.prems(1) [of i fs es vs x] Cons.prems(2,3) obtain x1 where
    x1: "f i x = Inr x1" "agrees H (fs \<union> A i) (es \<union> B i) (vs \<union> C i) x1" "P (fs \<union> A i) (es \<union> B i) (vs \<union> C i)"
    by auto
  have "\<exists>x'. loop f ns x1 = Inr x' \<and> agrees H (fs \<union> A i \<union> (\<Union>i \<in> set ns. A i)) (es \<union> B i \<union> (\<Union>i \<in> set ns. B i))
      (vs \<union> C i \<union> (\<Union>i \<in> set ns. C i)) x'"
    by (rule Cons.IH [OF _ x1(2,3)]) (use Cons.prems(1) in auto)
  then show ?case using x1(1) by (simp add: Un_assoc)
qed simp


lemma agrees_sets: "agrees H fs es vs x \<Longrightarrow> fs = fs' \<Longrightarrow> es = es' \<Longrightarrow> vs = vs' \<Longrightarrow> agrees H fs' es' vs' x"
  by simp

text \<open>One of the three loops that finish the arrays, from the facts on its step.\<close>

lemma links_agree:
  assumes block: "block_is oc bt bg H block" and ends: "ends_are bg H"
    and face: "skey ` set face_edges = h_edge H ` {1, 2, 3, 4}"
    and x: "agrees H fs es vs x" and vs: "{1, 2, 3, 4} \<subseteq> vs"
  shows "\<exists>x'. loop (link_vertex bg (map_ancestors oc bt block VERTEX EDGE) face_edges) [1, 2, 3, 4] x = Inr x' \<and>
    agrees H fs (es \<union> {9, 10, 11, 12}) (vs \<union> {5, 6, 7, 8}) x'"
proof -
  have step: "\<exists>x'. link_vertex bg (map_ancestors oc bt block VERTEX EDGE) face_edges i x = Inr x' \<and>
      agrees H (fs \<union> {}) (es \<union> {8 + i}) (vs \<union> {4 + i}) x' \<and> {1, 2, 3, 4} \<subseteq> vs \<union> {4 + i}"
    if i: "i \<in> set [1, 2, 3, 4]" and vs: "{1, 2, 3, 4} \<subseteq> vs" and x: "agrees H fs es vs x" for i x fs es vs
    using link_vertex_agrees [OF block ends _ face x, of i] i vs by auto
  from loop_agrees [where P = "\<lambda>fs es vs. {1, 2, 3, 4} \<subseteq> vs" and A = "\<lambda>_. {}" and B = "\<lambda>i. {8 + i}" and C = "\<lambda>i. {4 + i}"
      and f = "link_vertex bg (map_ancestors oc bt block VERTEX EDGE) face_edges" and ns = "[1, 2, 3, 4]", OF step x vs]
  obtain x' where x': "loop (link_vertex bg (map_ancestors oc bt block VERTEX EDGE) face_edges) [1, 2, 3, 4] x = Inr x'"
    "agrees H (fs \<union> (\<Union>i \<in> set [1, 2, 3, 4 :: nat]. {})) (es \<union> (\<Union>i \<in> set [1, 2, 3, 4]. {8 + i}))
       (vs \<union> (\<Union>i \<in> set [1, 2, 3, 4]. {4 + i})) x'" by blast
  have "agrees H fs (es \<union> {9, 10, 11, 12}) (vs \<union> {5, 6, 7, 8}) x'" by (rule agrees_sets [OF x'(2)]) (simp_all add: insert_commute)
  with x'(1) show ?thesis by blast
qed

lemma second_face_agrees:
  assumes block: "block_is oc bt bg H block" and x: "agrees H fs es vs x" and vs: "{5, 6, 7, 8} \<subseteq> vs"
  shows "\<exists>x'. loop (second_face_edge (map_ancestors oc bt block VERTEX EDGE)) [1, 2, 3, 4] x = Inr x' \<and>
    agrees H fs (es \<union> {5, 6, 7, 8}) vs x'"
proof -
  have ids: "edge_id 2 1 = 5" "edge_id 2 2 = 6" "edge_id 2 3 = 7" "edge_id 2 4 = 8" by code_simp+
  have step: "\<exists>x'. second_face_edge (map_ancestors oc bt block VERTEX EDGE) i x = Inr x' \<and>
      agrees H (fs \<union> {}) (es \<union> {edge_id 2 i}) (vs \<union> {}) x' \<and> {5, 6, 7, 8} \<subseteq> vs \<union> {}"
    if i: "i \<in> set [1, 2, 3, 4]" and vs: "{5, 6, 7, 8} \<subseteq> vs" and x: "agrees H fs es vs x" for i x fs es vs
    using second_face_edge_agrees [OF block _ x vs, of i] i vs by auto
  from loop_agrees [where P = "\<lambda>fs es vs. {5, 6, 7, 8} \<subseteq> vs" and A = "\<lambda>_. {}" and B = "\<lambda>i. {edge_id 2 i}" and C = "\<lambda>_. {}"
      and f = "second_face_edge (map_ancestors oc bt block VERTEX EDGE)" and ns = "[1, 2, 3, 4]", OF step x vs]
  obtain x' where x': "loop (second_face_edge (map_ancestors oc bt block VERTEX EDGE)) [1, 2, 3, 4] x = Inr x'"
    "agrees H (fs \<union> (\<Union>i \<in> set [1, 2, 3, 4 :: nat]. {})) (es \<union> (\<Union>i \<in> set [1, 2, 3, 4]. {edge_id 2 i}))
       (vs \<union> (\<Union>i \<in> set [1, 2, 3, 4 :: nat]. {})) x'" by blast
  have "agrees H fs (es \<union> {5, 6, 7, 8}) vs x'"
    by (rule agrees_sets [OF x'(2)]) (simp_all add: ids ids(1) [unfolded One_nat_def] insert_commute)
  with x'(1) show ?thesis by blast
qed

lemma faces_agree:
  assumes block: "block_is oc bt bg H block" and x: "agrees H fs es vs x" and es: "{1..12} \<subseteq> es"
  shows "\<exists>x'. loop (face_of_edges (map_ancestors oc bt block EDGE FACE)) [2, 3, 4, 5, 6] x = Inr x' \<and>
    agrees H (fs \<union> {2, 3, 4, 5, 6}) es vs x'"
proof -
  have step: "\<exists>x'. face_of_edges (map_ancestors oc bt block EDGE FACE) f x = Inr x' \<and>
      agrees H (fs \<union> {f}) (es \<union> {}) (vs \<union> {}) x' \<and> {1..12} \<subseteq> es \<union> {}"
    if f: "f \<in> set [2, 3, 4, 5, 6]" and es: "{1..12} \<subseteq> es" and x: "agrees H fs es vs x" for f x fs es vs
    using face_of_edges_agrees [OF block _ x es, of f] f es by auto
  from loop_agrees [where P = "\<lambda>fs es vs. {1..12} \<subseteq> es" and A = "\<lambda>f. {f}" and B = "\<lambda>_. {}" and C = "\<lambda>_. {}"
      and f = "face_of_edges (map_ancestors oc bt block EDGE FACE)" and ns = "[2, 3, 4, 5, 6]", OF step x es]
  obtain x' where x': "loop (face_of_edges (map_ancestors oc bt block EDGE FACE)) [2, 3, 4, 5, 6] x = Inr x'"
    "agrees H (fs \<union> (\<Union>f \<in> set [2, 3, 4, 5, 6]. {f})) (es \<union> (\<Union>f \<in> set [2, 3, 4, 5, 6 :: nat]. {}))
       (vs \<union> (\<Union>f \<in> set [2, 3, 4, 5, 6 :: nat]. {})) x'" by blast
  have "agrees H (fs \<union> {2, 3, 4, 5, 6}) es vs x'" by (rule agrees_sets [OF x'(2)]) (simp_all add: insert_commute)
  with x'(1) show ?thesis by blast
qed

lemma rest_of_block_agrees:
  assumes block: "block_is oc bt bg H block" and ends: "ends_are bg H"
    and face: "skey ` set (map_shapes oc (x_faces x 1) EDGE) = h_edge H ` {1, 2, 3, 4}"
    and x: "agrees H {1} {1, 2, 3, 4} {1, 2, 3, 4} x"
  shows "\<exists>x'. rest_of_block oc bt bg block x = Inr x' \<and> agrees H {1..6} {1..12} {1..8} x'"
proof -
  let ?mb = "map_ancestors oc bt block VERTEX EDGE" and ?mbe = "map_ancestors oc bt block EDGE FACE"
  from links_agree [OF block ends face x] obtain x2 where
    x2: "loop (link_vertex bg ?mb (map_shapes oc (x_faces x 1) EDGE)) [1, 2, 3, 4] x = Inr x2"
      "agrees H {1} ({1, 2, 3, 4} \<union> {9, 10, 11, 12}) ({1, 2, 3, 4} \<union> {5, 6, 7, 8}) x2" by blast
  from second_face_agrees [OF block x2(2)] obtain x3 where
    x3: "loop (second_face_edge ?mb) [1, 2, 3, 4] x2 = Inr x3"
      "agrees H {1} ({1, 2, 3, 4} \<union> {9, 10, 11, 12} \<union> {5, 6, 7, 8}) ({1, 2, 3, 4} \<union> {5, 6, 7, 8}) x3" by blast
  have numbers: "{1} \<union> {2, 3, 4, 5, 6} = {1..6 :: nat}" "{1, 2, 3, 4} \<union> {5, 6, 7, 8} = {1..8 :: nat}"
    "{1, 2, 3, 4} \<union> {9, 10, 11, 12} \<union> {5, 6, 7, 8} = {1..12 :: nat}" by code_simp+
  then have twelve: "{1..12} \<subseteq> {1, 2, 3, 4} \<union> {9, 10, 11, 12} \<union> {5, 6, 7, 8 :: nat}" by simp
  from faces_agree [OF block x3(2) twelve] obtain x4 where
    x4: "loop (face_of_edges ?mbe) [2, 3, 4, 5, 6] x3 = Inr x4"
      "agrees H ({1} \<union> {2, 3, 4, 5, 6}) ({1, 2, 3, 4} \<union> {9, 10, 11, 12} \<union> {5, 6, 7, 8})
        ({1, 2, 3, 4} \<union> {5, 6, 7, 8}) x4" by blast
  have "agrees H {1..6} {1..12} {1..8} x4"
    by (rule agrees_sets [OF x4(2) numbers(1,3,2)])
  moreover from block have "length ?mb = NBVERTS" "length ?mbe = NBEDGES" by (simp_all add: block_is_def Let_def)
  ultimately show ?thesis unfolding rest_of_block_def Let_def stop_unless_def using x2(1) x3(1) x4(1) by simp
qed

section \<open>From a face\<close>

text \<open>
  The wire of the first face goes round its edges in the order of the numbers: the explorer is on
  the edge \<open>n\<close> with the vertex \<open>n\<close> at the n-th step.
\<close>

definition walks_round :: "hexahedron \<Rightarrow> (shape \<times> shape) list \<Rightarrow> bool" where
  "walks_round H steps = (map (map_prod skey skey) steps = map (\<lambda>n. (h_edge H n, h_vertex H n)) [1, 2, 3, 4])"

lemma walks_roundE:
  assumes "walks_round H steps"
  obtains e1 v1 e2 v2 e3 v3 e4 v4 where "steps = [(e1, v1), (e2, v2), (e3, v3), (e4, v4)]"
    "skey e1 = h_edge H 1" "skey v1 = h_vertex H 1" "skey e2 = h_edge H 2" "skey v2 = h_vertex H 2"
    "skey e3 = h_edge H 3" "skey v3 = h_vertex H 3" "skey e4 = h_edge H 4" "skey v4 = h_vertex H 4"
  using assms unfolding walks_round_def by (auto simp: map_eq_Cons_conv)

lemma fill_agrees:
  assumes "walks_round H steps" and "agrees H {1} {} {} x"
  shows "\<exists>x'. fill_first_face 1 steps x = Inr (5, x') \<and> agrees H {1} {1, 2, 3, 4} {1, 2, 3, 4} x' \<and> x_faces x' = x_faces x"
proof -
  have ids: "vertex_id 1 1 = 1" "vertex_id 1 2 = 2" "vertex_id 1 3 = 3" "vertex_id 1 4 = 4"
    "edge_id 1 1 = 1" "edge_id 1 2 = 2" "edge_id 1 3 = 3" "edge_id 1 4 = 4" by code_simp+
  from assms(1) obtain e1 v1 e2 v2 e3 v3 e4 v4 where steps: "steps = [(e1, v1), (e2, v2), (e3, v3), (e4, v4)]"
    "skey e1 = h_edge H 1" "skey v1 = h_vertex H 1" "skey e2 = h_edge H 2" "skey v2 = h_vertex H 2"
    "skey e3 = h_edge H 3" "skey v3 = h_vertex H 3" "skey e4 = h_edge H 4" "skey v4 = h_vertex H 4"
    by (rule walks_roundE)
  let ?x' = "set_vertex 4 v4 (set_edge 4 e4 (set_vertex 3 v3 (set_edge 3 e3
    (set_vertex 2 v2 (set_edge 2 e2 (set_vertex 1 v1 (set_edge 1 e1 x)))))))"
  have "fill_first_face 1 steps x = Inr (5, ?x')" unfolding steps(1) by (simp add: ids del: One_nat_def)
  moreover have "agrees H {1} {4, 3, 2, 1} {4, 3, 2, 1} ?x'"
    by (intro agrees_set assms(2) steps(2-))
  then have "agrees H {1} {1, 2, 3, 4} {1, 2, 3, 4} ?x'" by (rule agrees_sets) auto
  ultimately show ?thesis by (auto simp: set_vertex_def set_edge_def)
qed

text \<open>What \<^verbatim>\<open>InitByBlockAndFace\<close> makes of a block that is a hexahedron, from a face of it.\<close>

definition face_is :: "occt \<Rightarrow> block_geometry \<Rightarrow> hexahedron \<Rightarrow> shape \<Rightarrow> bool" where
  "face_is oc bg H face =
     (\<not> is_null face \<and> skey face = h_face H 1 \<and>
      (case explore oc face WIRE of [w] \<Rightarrow> walks_round H (wire_steps bg w face) | _ \<Rightarrow> False) \<and>
      set (map skey (map_shapes oc face EDGE)) = set (map (h_edge H) [1, 2, 3, 4]))"

lemma init_by_block_and_face_agrees:
  assumes block: "block_is oc bt bg H block" and ends: "ends_are bg H" and face: "face_is oc bg H face"
  shows "\<exists>x. init_by_block_and_face oc bt bg block face new_explorer = Inr x \<and> agrees H {1..6} {1..12} {1..8} x"
proof -
  from face obtain w where w: "explore oc face WIRE = [w]" "walks_round H (wire_steps bg w face)"
    unfolding face_is_def by (cases "explore oc face WIRE"; cases "tl (explore oc face WIRE)") auto
  have "agrees H {1} {} {} (set_face 1 face new_explorer)"
    using face by (simp add: face_is_def agrees_def set_face_def)
  from fill_agrees [OF w(2) this] obtain x1 where
    x1: "fill_first_face 1 (wire_steps bg w face) (set_face 1 face new_explorer) = Inr (5, x1)"
      "agrees H {1} {1, 2, 3, 4} {1, 2, 3, 4} x1" "x_faces x1 1 = face" by (auto simp: set_face_def)
  from face have "\<not> is_null face" "skey ` set (map_shapes oc face EDGE) = h_edge H ` {1, 2, 3, 4}"
    by (simp_all add: face_is_def)
  from this(2) have "skey ` set (map_shapes oc (x_faces x1 1) EDGE) = h_edge H ` {1, 2, 3, 4}" unfolding x1(3) .
  from rest_of_block_agrees [OF block ends this x1(2)]
  have "\<exists>x'. rest_of_block oc bt bg block x1 = Inr x' \<and> agrees H {1..6} {1..12} {1..8} x'" .
  then show ?thesis
    unfolding init_by_block_and_face_def w(1) init_by_block_and_vertices_def stop_unless_def
    using x1(1,3) \<open>\<not> is_null face\<close> by simp
qed

end
