(* ===== verification/BlockQueryFacts.thy ===== *)
theory BlockQueryFacts
  imports BlockQueries Ancestors Block6Facts
begin

text \<open>
  What the queries about blocks compute: the faces two edges share, and the block the search near a
  point settles on, against a reference definition of each.
\<close>

section \<open>The faces of two edges\<close>

lemma common_inner:
  "fold (\<lambda>f2 found. if is_same f1 f2 then append_unique found f1 else found) fs2 found =
     (if has_sub fs2 f1 then append_unique found f1 else found)"
proof (induction fs2 arbitrary: found)
  case (Cons f2 fs2)
  have "append_unique (append_unique found f1) f1 = append_unique found f1" by (simp add: append_unique_alt)
  with Cons show ?case by (simp add: is_same_def)
qed simp

lemma common_outer:
  assumes "distinct (map skey (found @ fs1))"
  shows "fold (\<lambda>f1 found. if has_sub fs2 f1 then append_unique found f1 else found) fs1 found =
    found @ filter (has_sub fs2) fs1"
  using assms
proof (induction fs1 arbitrary: found)
  case (Cons f1 fs1)
  then have "append_unique found f1 = found @ [f1]" by (intro append_unique_new) simp
  with Cons show ?case by simp
qed simp

lemma common_faces_filter:
  "distinct (map skey fs1) \<Longrightarrow> common_faces fs1 fs2 = filter (has_sub fs2) fs1"
  unfolding common_faces_def common_inner using common_outer [of "[]" fs1 fs2] by simp

text \<open>The faces of a shape that have both edges among their own.\<close>

definition faces_with_both :: "occt \<Rightarrow> shape \<Rightarrow> shape \<Rightarrow> shape \<Rightarrow> shape list" where
  "faces_with_both oc s e1 e2 =
     filter (\<lambda>f. has_sub (explore oc f EDGE) e1 \<and> has_sub (explore oc f EDGE) e2)
       (append_all [] (explore oc s FACE))"

lemma has_sub_filter:
  assumes "distinct (map skey xs)" and "x \<in> set xs"
  shows "has_sub (filter P xs) x = P x"
proof -
  from assms(1) have "inj_on skey (set xs)" by (simp add: distinct_map)
  with assms(2) have "y \<in> set xs \<Longrightarrow> skey y = skey x \<Longrightarrow> y = x" for y by (auto dest: inj_onD)
  with assms(2) show ?thesis unfolding has_sub_def list_ex_iff is_same_def by auto
qed

lemma common_holders:
  "common_faces (holders oc s EDGE FACE e1) (holders oc s EDGE FACE e2) = faces_with_both oc s e1 e2"
proof -
  let ?all = "append_all [] (explore oc s FACE)"
  have d: "distinct (map skey ?all)" by (rule append_all_distinct) simp
  have "common_faces (holders oc s EDGE FACE e1) (holders oc s EDGE FACE e2) =
      filter (has_sub (holders oc s EDGE FACE e2)) (holders oc s EDGE FACE e1)"
    by (rule common_faces_filter [OF holders_distinct])
  also have "\<dots> = filter (\<lambda>f. has_sub (explore oc f EDGE) e1 \<and> has_sub (holders oc s EDGE FACE e2) f) ?all"
    unfolding holders_def [of oc s EDGE FACE e1] filter_filter ..
  also have "\<dots> = faces_with_both oc s e1 e2"
    unfolding faces_with_both_def holders_def using has_sub_filter [OF d] by (intro filter_cong refl) simp
  finally show ?thesis .
qed

lemma sole_of_mapped:
  assumes "sole_of oc s k eid = Inr x"
  shows "x \<in> set (map_shapes oc (st_root (s_state s)) k)"
proof -
  from assms obtain sh where "find_key (map_shapes oc (st_root (s_state s)) k) sh = Some x"
    unfolding sole_of_def bind_result_Inr_iff by (metis Inl_Inr_False Inr_inject option.case_eq_if option.collapse)
  then show ?thesis unfolding find_key_def by (rule find_SomeD [THEN conjunct1])
qed

lemma ancestors_of_mapped:
  assumes "meets_the_rest oc bt s ts ta" and "x \<in> set (map_shapes oc s ts)"
  shows "ancestors_of (map_ancestors oc bt s ts ta) x = Inr (holders oc s ts ta x)"
  using assms by (simp add: ancestors_of_map meets_the_rest_def list_all_iff)

section \<open>The block near a point\<close>

text \<open>
  The reference: the first block the point is inside of; else the blocks it is on the boundary of;
  else the first of those no other is nearer than.
\<close>

definition nearest_blocks :: "(shape \<Rightarrow> int) \<Rightarrow> (shape \<Rightarrow> f64) \<Rightarrow> shape list \<Rightarrow> shape list" where
  "nearest_blocks d far bs =
     (case filter (\<lambda>b. d b = -1) bs of
        b # _ \<Rightarrow> [b]
      | [] \<Rightarrow> (case filter (\<lambda>b. d b = 0) bs of
                 b # on \<Rightarrow> b # on
               | [] \<Rightarrow> take 1 (filter (\<lambda>b. list_all (\<lambda>c. \<not> fless (far c) (far b)) bs) bs)))"

lemma fless_trans': "\<not> fless b a \<Longrightarrow> fless b c \<Longrightarrow> a \<noteq> NaN \<Longrightarrow> fless a c"
  by (cases a; cases b; cases c) auto

lemma fless_trans'': "fless a b \<Longrightarrow> \<not> fless c b \<Longrightarrow> c \<noteq> NaN \<Longrightarrow> fless a c"
  by (cases a; cases b; cases c) auto

lemma fless_not_NaN: "fless a b \<Longrightarrow> a \<noteq> NaN \<and> b \<noteq> NaN"
  by (cases a; cases b) auto

text \<open>The first of the least of a list, one more shape at a time.\<close>

definition least_of :: "(shape \<Rightarrow> f64) \<Rightarrow> shape list \<Rightarrow> shape list" where
  "least_of far bs = filter (\<lambda>b. list_all (\<lambda>c. \<not> fless (far c) (far b)) bs) bs"

lemma least_of_nearer:
  assumes "fless (far b) (far a)"
  shows "least_of far (a # b # bs) = least_of far (b # bs)"
proof -
  have "(\<not> fless (far a) (far x) \<and> list_all (\<lambda>c. \<not> fless (far c) (far x)) (b # bs)) =
      list_all (\<lambda>c. \<not> fless (far c) (far x)) (b # bs)" for x
    using fless_trans [OF assms] by auto
  with assms show ?thesis unfolding least_of_def by simp
qed

lemma least_of_farther:
  assumes "\<not> fless (far b) (far a)" and "far a \<noteq> NaN" and "far b \<noteq> NaN"
  shows "hd (least_of far (a # b # bs)) = hd (least_of far (a # bs))"
proof (cases "list_all (\<lambda>c. \<not> fless (far c) (far a)) bs")
  case True
  with assms(1) show ?thesis by (simp add: least_of_def)
next
  case False
  then obtain c where c: "c \<in> set bs" "fless (far c) (far a)" by (auto simp: list_all_iff)
  from fless_trans'' [OF c(2) assms(1,3)] have "\<not> list_all (\<lambda>c. \<not> fless (far c) (far b)) bs"
    using c(1) by (auto simp: list_all_iff)
  moreover have "(\<not> fless (far a) (far x) \<and> \<not> fless (far b) (far x) \<and> list_all (\<lambda>c. \<not> fless (far c) (far x)) bs) =
      (\<not> fless (far a) (far x) \<and> list_all (\<lambda>c. \<not> fless (far c) (far x)) bs)" for x
    using fless_trans' [OF assms(1) _ assms(2), of "far x"] by auto
  ultimately show ?thesis using False by (simp add: least_of_def)
qed

lemma nearest_of_least:
  assumes "list_all (\<lambda>b. dt b = Inr (Some (far b)) \<and> far b \<noteq> NaN) bs" and "far best \<noteq> NaN"
  shows "nearest_of dt (map (\<lambda>b. (b, 1)) bs) (best, far best) = Inr (hd (least_of far (best # bs)))"
  using assms
proof (induction bs arbitrary: best)
  case (Cons b bs)
  then have "nearest_of dt (map (\<lambda>b. (b, 1)) (b # bs)) (best, far best) =
      Inr (hd (least_of far ((if fless (far b) (far best) then b else best) # bs)))" by auto
  then show ?case
    using Cons.prems least_of_nearer [of far b best bs] least_of_farther [of far b best bs] by auto
qed (simp add: least_of_def)

lemma nearest_of_first:
  assumes "list_all (\<lambda>b. dt b = Inr (Some (far b)) \<and> fless (far b) real_last) (b # bs)"
  shows "nearest_of dt (map (\<lambda>b. (b, 1)) (b # bs)) (b, real_last) = Inr (hd (least_of far (b # bs)))"
proof -
  have "list_all (\<lambda>b. dt b = Inr (Some (far b)) \<and> far b \<noteq> NaN) bs" "far b \<noteq> NaN"
    using assms by (auto simp: list_all_iff dest: fless_not_NaN)
  from nearest_of_least [OF this] show ?thesis using assms by simp
qed

section \<open>The scan of the blocks\<close>

text \<open>What the search holds after some blocks, none with the point inside.\<close>

definition sums_up :: "(shape \<Rightarrow> int) \<Rightarrow> shape list \<Rightarrow> search \<Rightarrow> bool" where
  "sums_up d bs st =
     (sr_places st = map (\<lambda>b. (b, d b)) bs \<and> sr_found st = length (filter (\<lambda>b. d b = sr_nearest st) bs) \<and>
      (if bs = [] then sr_nearest st = 2
       else sr_nearest st = Min (d ` set bs) \<and> sr_shape st = hd (filter (\<lambda>b. d b = sr_nearest st) bs)))"

lemma sums_up_start: "sums_up d [] no_search"
  by (simp add: sums_up_def no_search_def)

text \<open>One more block.\<close>

definition next_search :: "int \<Rightarrow> shape \<Rightarrow> search \<Rightarrow> search" where
  "next_search v b st =
     (let st' = (if v < sr_nearest st then st\<lparr>sr_shape := b, sr_nearest := v, sr_found := 1\<rparr>
                 else if v = sr_nearest st then st\<lparr>sr_found := sr_found st + 1\<rparr> else st)
      in st'\<lparr>sr_places := sr_places st' @ [(b, v)]\<rparr>)"

lemma filter_below_Min:
  fixes d :: "shape \<Rightarrow> int"
  assumes "v < Min (d ` set bs)"
  shows "filter (\<lambda>b. d b = v) bs = []"
proof -
  have "v < d b" if "b \<in> set bs" for b
    by (rule less_le_trans [OF assms Min_le]) (simp_all add: that)
  then show ?thesis by (force simp: filter_empty_conv)
qed

lemma filter_at_Min:
  fixes d :: "shape \<Rightarrow> int"
  assumes "bs \<noteq> []"
  shows "filter (\<lambda>b. d b = Min (d ` set bs)) bs \<noteq> []"
proof -
  have "Min (d ` set bs) \<in> d ` set bs" by (rule Min_in) (simp_all add: assms)
  then obtain b where "b \<in> set bs" "d b = Min (d ` set bs)" by (metis imageE)
  then show ?thesis by (auto simp: filter_empty_conv)
qed

lemma sums_up_step:
  fixes d :: "shape \<Rightarrow> int"
  assumes "sums_up d bs st" and "d b < 2"
  shows "sums_up d (bs @ [b]) (next_search (d b) b st)"
proof (cases "bs = []")
  case True
  with assms show ?thesis by (simp add: sums_up_def next_search_def)
next
  case False
  let ?m = "Min (d ` set bs)"
  have m: "Min (d ` set (bs @ [b])) = min (d b) ?m" using False by (simp add: min.commute)
  note old = assms(1) [unfolded sums_up_def if_not_P [OF False]]
  consider "d b < ?m" | "d b = ?m" | "?m < d b" by linarith
  then show ?thesis
  proof cases
    case 1
    with old m filter_below_Min [OF 1] show ?thesis by (simp add: sums_up_def next_search_def)
  next
    case 2
    with old m filter_at_Min [OF False, of d] show ?thesis by (simp add: sums_up_def next_search_def)
  next
    case 3
    with old m filter_at_Min [OF False, of d] show ?thesis by (simp add: sums_up_def next_search_def)
  qed
qed

lemma scan_outside:
  assumes "list_all (\<lambda>b. place b = Inr (d b) \<and> d b \<in> {0, 1}) bs" and "sums_up d pre st"
  shows "\<exists>st'. sums_up d (pre @ bs) st' \<and> scan_blocks place (bs @ rest) st = scan_blocks place rest st'"
  using assms
proof (induction bs arbitrary: pre st)
  case (Cons b bs)
  from Cons.prems have b: "place b = Inr (d b)" "d b \<noteq> -1" "d b < 2" by auto
  from Cons.IH [OF _ sums_up_step [OF Cons.prems(2) b(3)]] Cons.prems(1) obtain st' where
    st': "sums_up d ((pre @ [b]) @ bs) st'"
      "scan_blocks place (bs @ rest) (next_search (d b) b st) = scan_blocks place rest st'" by auto
  moreover have "scan_blocks place ((b # bs) @ rest) st = scan_blocks place (bs @ rest) (next_search (d b) b st)"
    using b(1,2) by (simp add: next_search_def Let_def)
  ultimately show ?case by auto
qed auto

lemma scan_inside:
  assumes "sums_up d pre st" and "list_all (\<lambda>b. d b \<in> {0, 1}) pre" and "place b = Inr (-1)"
  shows "\<exists>st'. scan_blocks place (b # rest) st = Inr st' \<and> sr_nearest st' = -1 \<and> sr_shape st' = b \<and> sr_found st' = 1"
proof -
  have "-1 < sr_nearest st"
  proof (cases "pre = []")
    case True
    with assms(1) show ?thesis by (simp add: sums_up_def)
  next
    case False
    then have "Min (d ` set pre) \<in> d ` set pre" by (intro Min_in) auto
    then have "0 \<le> Min (d ` set pre)" using assms(2) by (auto simp: list_all_iff)
    then have "-1 < Min (d ` set pre)" by (rule less_le_trans [rotated]) simp
    with assms(1) False show ?thesis unfolding sums_up_def by simp
  qed
  with assms(3) show ?thesis by simp
qed

section \<open>What the search settles on\<close>

lemma settle_inside: "sr_nearest st = -1 \<Longrightarrow> settle nt p st = Inr (sr_shape st)"
  by (simp add: settle_def)

lemma sums_up_on:
  assumes "sums_up d bs st" and "list_all (\<lambda>b. d b \<in> {0, 1}) bs" and "filter (\<lambda>b. d b = 0) bs = b # on"
  shows "sr_nearest st = 0 \<and> sr_found st = Suc (length on) \<and> settle nt p st = Inr b \<and>
    map fst (filter (\<lambda>(b, v). v = 0) (sr_places st)) = b # on"
proof -
  from assms(3) have b: "b \<in> set bs" "d b = 0" by (auto dest: filter_eq_ConsD)
  then have "bs \<noteq> []" by auto
  have "Min (d ` set bs) \<le> 0" using b by (intro Min_le) auto
  moreover have "0 \<le> Min (d ` set bs)" using assms(2) \<open>bs \<noteq> []\<close> by (auto simp: list_all_iff)
  ultimately have "Min (d ` set bs) = 0" by (rule antisym)
  moreover have "map fst (filter (\<lambda>(b, v). v = 0) (map (\<lambda>b. (b, d b)) bs)) = filter (\<lambda>b. d b = 0) bs"
    by (induction bs) auto
  ultimately show ?thesis using assms(1,3) \<open>bs \<noteq> []\<close> by (simp add: sums_up_def settle_def)
qed

lemma sums_up_out:
  assumes "sums_up d (b # bs) st" and "list_all (\<lambda>b. d b = 1) (b # bs)"
    and "list_all (\<lambda>b. distance_to nt p b = Inr (Some (far b)) \<and> fless (far b) real_last) (b # bs)"
  shows "sr_nearest st = 1 \<and> sr_found st = Suc (length bs) \<and> settle nt p st = Inr (hd (least_of far (b # bs)))"
proof -
  have img: "d ` set (b # bs) = {1}" using assms(2) by (auto simp: list_all_iff)
  have min: "Min (d ` set (b # bs)) = 1" unfolding img by simp
  have all: "filter (\<lambda>b. d b = 1) (b # bs) = b # bs" using assms(2) by (simp add: filter_id_conv list_all_iff)
  have places: "map (\<lambda>b. (b, d b)) (b # bs) = map (\<lambda>b. (b, 1)) (b # bs)" using assms(2) by (auto simp: list_all_iff)
  from assms(1) min all places have st: "sr_nearest st = 1" "sr_found st = Suc (length bs)" "sr_shape st = b"
    "sr_places st = map (\<lambda>b. (b, 1)) (b # bs)" by (simp_all add: sums_up_def)
  show ?thesis
  proof (cases "bs = []")
    case True
    with st show ?thesis by (simp add: settle_def least_of_def)
  next
    case False
    with st nearest_of_first [OF assms(3)] show ?thesis by (simp add: settle_def)
  qed
qed

lemma least_of_Cons: "list_all (\<lambda>b. far b \<noteq> NaN) (b # bs) \<Longrightarrow> least_of far (b # bs) \<noteq> []"
proof (induction bs arbitrary: b)
  case (Cons c bs)
  show ?case
  proof (cases "fless (far c) (far b)")
    case True
    with Cons show ?thesis by (simp add: least_of_nearer)
  next
    case False
    from Cons have "least_of far (b # bs) \<noteq> []" by simp
    then obtain x where x: "x \<in> set (b # bs)" "list_all (\<lambda>y. \<not> fless (far y) (far x)) (b # bs)"
      unfolding least_of_def filter_empty_conv by blast
    then have "\<not> fless (far b) (far x)" by simp
    from fless_trans'' [OF _ this, of "far c"] False Cons.prems have "\<not> fless (far c) (far x)" by auto
    with x show ?thesis by (auto simp: least_of_def filter_empty_conv)
  qed
qed (simp add: least_of_def)

end
