(* ===== verification/Block6Props.thy ===== *)
theory Block6Props
  imports Block6Facts
begin

text \<open>The numbering of the hexahedron's faces, edges and vertices is consistent.\<close>

section \<open>The tables\<close>

definition vertices_of_face :: "nat \<Rightarrow> nat list" where
  "vertices_of_face f = map (vertex_id f) [1, 2, 3, 4]"

text \<open>A table of pairs gives the one element the two share, and 0 for a pair that shares none.\<close>

definition shares_by :: "(nat \<Rightarrow> nat \<Rightarrow> nat) \<Rightarrow> (nat \<Rightarrow> nat list) \<Rightarrow> nat list \<Rightarrow> bool" where
  "shares_by table near ns =
     list_all (\<lambda>i. list_all (\<lambda>j. table i j = (if i = j then 0 else only_shared (near i) (near j))) ns) ns"

text \<open>The n-th vertex of a face is where its n-th edge meets the edge before it.\<close>

definition corners_of :: "nat \<Rightarrow> bool" where
  "corners_of f = list_all (\<lambda>n. shared (ends_of_edge (edge_id f (nat (mod4 (int n - 1))))) (ends_of_edge (edge_id f n)) =
     [vertex_id f n]) [1, 2, 3, 4]"

text \<open>Opposite faces share no vertex; any other two faces share two, the ends of an edge.\<close>

definition opposes :: "nat \<Rightarrow> nat \<Rightarrow> bool" where
  "opposes f g = (if g = opp_face_id f then shared (vertices_of_face f) (vertices_of_face g) = []
     else f = g \<or> (length (shared (vertices_of_face f) (vertices_of_face g)) = 2 \<and> edge_id_faces f g \<noteq> 0))"

text \<open>
  The explorer's eight tables are those of one hexahedron: the edge between two vertices, the
  edge between two faces and the face of two edges are the ones the other tables imply, for every
  pair; the vertices of a face are the corners of its edges in order; the edge from a vertex of the
  first face is the one that leads to the vertex of the second face of the same place; the opposite
  face is the one with no vertex in common; three edges meet at a vertex and two faces at an edge.
\<close>

theorem block6_tables_agree:
  "shares_by edge_id_vertices edges_at [1..<9] \<and> shares_by face_id_edges faces_at [1..<13] \<and>
   shares_by edge_id_faces edges_of_face [1..<7] \<and> list_all corners_of [1..<7] \<and>
   list_all (\<lambda>i. set (ends_of_edge (side_edge_id i)) = {vertex_id 1 i, vertex_id 2 i} \<and> side_edge_id i = 8 + i) [1, 2, 3, 4] \<and>
   list_all (\<lambda>f. list_all (opposes f) [1..<7] \<and> opp_face_id (opp_face_id f) = f) [1..<7] \<and>
   list_all (\<lambda>v. length (edges_at v) = 3) [1..<9] \<and> list_all (\<lambda>k. length (faces_at k) = 2) [1..<13]"
proof (intro conjI)
  show "shares_by edge_id_vertices edges_at [1..<9]" by code_simp
  show "shares_by face_id_edges faces_at [1..<13]" by code_simp
  show "shares_by edge_id_faces edges_of_face [1..<7]" by code_simp
qed code_simp+

end
