(* ===== verification/BlockQueryProps.thy ===== *)
theory BlockQueryProps
  imports BlockQueryFacts Block6Props Model
begin

text \<open>The queries about blocks: the opposite face, the face of two edges, the block near a point.\<close>

section \<open>The opposite face\<close>

text \<open>
  C37. On a block that is a hexahedron, in the sense that OCCT's maps of its vertices, edges and
  faces are those of the explorer's numbering and the explored face is the first,
  \<^verbatim>\<open>InitByBlockAndFace\<close> finds all twenty-six elements under their numbers, and \<^verbatim>\<open>opposite_face\<close>
  gives the label of the face with no edge and no vertex of the explored one.
\<close>

theorem opposite_face_of_a_hexahedron:
  assumes "require_alive s block_id = Inr rec" and "ent_kind rec = SOLID" and "ent_shapes rec = [block]"
    and "sole_face oc s face_id = Inr face" and "find_key (map_shapes oc block FACE) face = Some f"
    and "block_is oc bt bg H block" and "ends_are bg H" and "face_is oc bg H f"
    and "key_tshape (h_face H 2) \<noteq> 0" and "label_of s (at_key (h_face H 2)) = Inr opposite_id"
  shows "opposite_face oc bt bg s block_id face_id = Inr opposite_id \<and>
    (\<exists>x. init_by_block_and_face oc bt bg block f new_explorer = Inr x \<and> agrees H {1..6} {1..12} {1..8} x)"
proof -
  from init_by_block_and_face_agrees [OF assms(6-8)] obtain x where
    x: "init_by_block_and_face oc bt bg block f new_explorer = Inr x" "agrees H {1..6} {1..12} {1..8} x" by blast
  then have key: "skey (x_faces x 2) = h_face H 2" by (simp add: agrees_def)
  have "key_tshape (skey (x_faces x 2)) \<noteq> 0" unfolding key by (rule assms(9))
  then have "\<not> is_null (x_faces x 2)" by (simp add: is_null_def skey_def)
  moreover have "label_of s (x_faces x 2) = Inr opposite_id"
    using assms(10) by (auto simp: label_of_def key split: option.splits list.splits)
  ultimately show ?thesis using x assms(1-5)
    by (simp add: opposite_face_def get_face_def)
qed

section \<open>The face of two edges\<close>

text \<open>
  C38. \<^verbatim>\<open>face_by_edges\<close> of two edges of the model answers by the faces of the model that have both
  among their edges: its label when there is one, and an error that lists all of them when there
  are several or says that there is none. It never runs into the map's missing key, since OCCT's
  explorer meets every edge.
\<close>

theorem face_by_edges_is_the_common_face:
  assumes "sole_edge oc s edge_a = Inr e1" and "sole_edge oc s edge_b = Inr e2"
    and "meets_the_rest oc bt (st_root (s_state s)) EDGE FACE"
  shows "face_by_edges oc bt s edge_a edge_b =
    (case faces_with_both oc (st_root (s_state s)) e1 e2 of
       [] \<Rightarrow> Inl (NoCommonFace edge_a edge_b)
     | [f] \<Rightarrow> querying (label_of s f)
     | fs \<Rightarrow> bind_result (querying (each (label_of s) fs)) (\<lambda>ids. Inl (SeveralCommonFaces edge_a edge_b ids)))"
proof -
  from assms(1,2) have "e1 \<in> set (map_shapes oc (st_root (s_state s)) EDGE)"
    "e2 \<in> set (map_shapes oc (st_root (s_state s)) EDGE)"
    unfolding sole_edge_def by (blast dest: sole_of_mapped)+
  from this [THEN ancestors_of_mapped [OF assms(3)]] show ?thesis
    unfolding face_by_edges_def Let_def using assms(1,2) by (simp add: common_holders)
qed

section \<open>The block near a point\<close>

lemma find_block_near_summed:
  assumes "vec_finite p" and "scan_blocks (place_of nt p) (append_all [] (explore oc (st_root (s_state s)) SOLID)) no_search = Inr st"
  shows "find_block_near oc nt s p =
    (case settle nt p st of
       Inl t \<Rightarrow> Inl (SearchFailed t)
     | Inr b \<Rightarrow>
         if sr_found st = 0 then Inl NoSolid
         else if 1 < sr_found st \<and> sr_nearest st = 0
         then bind_result (querying (each (label_of s) (map fst (filter (\<lambda>(b, d). d = 0) (sr_places st)))))
                (\<lambda>ids. Inl (OnSeveralBoundaries (sr_found st) ids))
         else querying (label_of s b))"
  using assms by (auto simp: find_block_near_def require_def vec_finite_def split: prod.splits)

text \<open>A point inside of a solid.\<close>

lemma find_block_near_inside:
  assumes p: "vec_finite p" and bs: "bs = append_all [] (explore oc (st_root (s_state s)) SOLID)"
    and known: "\<And>b. b \<in> set bs \<Longrightarrow> place_of nt p b = Inr (d b) \<and> d b \<in> {-1, 0, 1}"
    and inside: "filter (\<lambda>b. d b = -1) bs = b # others"
  shows "find_block_near oc nt s p = querying (label_of s b)"
proof -
  let ?place = "place_of nt p"
  from inside obtain us vs where split: "bs = us @ b # vs" "\<forall>u \<in> set us. d u \<noteq> -1" "d b = -1"
    unfolding filter_eq_Cons_iff by blast
  then have us: "list_all (\<lambda>b. ?place b = Inr (d b) \<and> d b \<in> {0, 1}) us" "?place b = Inr (-1)"
    using known by (auto simp: list_all_iff)
  from scan_outside [OF us(1) sums_up_start] obtain st1 where
    st1: "sums_up d us st1" "scan_blocks ?place bs no_search = scan_blocks ?place (b # vs) st1"
    unfolding split(1) append_Nil by blast
  from us(1) have "list_all (\<lambda>b. d b \<in> {0, 1}) us" by (simp add: list_all_iff)
  from scan_inside [where place = ?place, OF st1(1) this us(2)] obtain st where
    st: "scan_blocks ?place bs no_search = Inr st" "sr_nearest st = -1" "sr_shape st = b" "sr_found st = 1"
    unfolding st1(2) by blast
  from find_block_near_summed [OF p st(1) [unfolded bs]] settle_inside [OF st(2)] st(2-4) show ?thesis by simp
qed

text \<open>A point outside of every solid: the least distance decides.\<close>

lemma outside_is_nearest:
  assumes "list_all (\<lambda>b. d b = 1) bs" and "bs = b # rest" and far: "list_all (\<lambda>b. far b \<noteq> NaN) bs"
  shows "nearest_blocks d far bs = [hd (least_of far bs)]"
proof -
  from least_of_Cons [OF far [unfolded assms(2)]] have "take 1 (least_of far bs) = [hd (least_of far bs)]"
    unfolding assms(2) by (cases "least_of far (b # rest)") simp_all
  moreover have "filter (\<lambda>b. d b = -1) bs = []" "filter (\<lambda>b. d b = 0) bs = []"
    using assms(1) by (auto simp: list_all_iff filter_empty_conv)
  ultimately show ?thesis by (simp add: nearest_blocks_def least_of_def)
qed

text \<open>
  C39. When OCCT answers for every solid of the model, \<^verbatim>\<open>find_block_near\<close> gives the label of the
  first solid the point is inside of; else of the only one it is on the boundary of, and an error
  that names them all when there are several; else of the first solid at the least distance. An
  empty model is an error.
\<close>

theorem find_block_near_is_nearest:
  assumes "vec_finite p" and "bs = append_all [] (explore oc (st_root (s_state s)) SOLID)"
    and "list_all (\<lambda>b. place_of nt p b = Inr (d b) \<and> d b \<in> {-1, 0, 1}) bs"
    and "list_all (\<lambda>b. distance_to nt p b = Inr (Some (far b)) \<and> fless (far b) real_last) bs"
  shows "find_block_near oc nt s p =
    (case nearest_blocks d far bs of
       [] \<Rightarrow> Inl NoSolid
     | [b] \<Rightarrow> querying (label_of s b)
     | on \<Rightarrow> bind_result (querying (each (label_of s) on)) (\<lambda>ids. Inl (OnSeveralBoundaries (length on) ids)))"
proof (cases "filter (\<lambda>b. d b = -1) bs")
  case (Cons b others)
  have "find_block_near oc nt s p = querying (label_of s b)"
    by (rule find_block_near_inside [OF assms(1,2) _ Cons]) (use assms(3) in \<open>simp add: list_all_iff\<close>)
  then show ?thesis by (simp add: Cons nearest_blocks_def)
next
  case Nil
  then have out: "list_all (\<lambda>b. place_of nt p b = Inr (d b) \<and> d b \<in> {0, 1}) bs" "list_all (\<lambda>b. d b \<in> {0, 1}) bs"
    using assms(3) by (auto simp: list_all_iff filter_empty_conv)
  from scan_outside [OF out(1) sums_up_start, of "[]"] obtain st where
    st: "sums_up d bs st" "scan_blocks (place_of nt p) bs no_search = Inr st" by auto
  note run = find_block_near_summed [OF assms(1) st(2) [unfolded assms(2)]]
  show ?thesis
  proof (cases "filter (\<lambda>b. d b = 0) bs")
    case (Cons b on)
    from sums_up_on [OF st(1) out(2) Cons] show ?thesis
      unfolding run nearest_blocks_def Nil Cons by (cases on) auto
  next
    case on: Nil
    then have one: "list_all (\<lambda>b. d b = 1) bs" using out(2) by (auto simp: list_all_iff filter_empty_conv)
    show ?thesis
    proof (cases bs)
      case bs: Nil
      with st(1) show ?thesis unfolding run by (simp add: sums_up_def settle_def nearest_blocks_def)
    next
      case bs: (Cons b rest)
      have "list_all (\<lambda>b. far b \<noteq> NaN) bs" using assms(4) fless_not_NaN by (auto simp: list_all_iff)
      from outside_is_nearest [OF one bs this]
        sums_up_out [OF st(1) [unfolded bs] one [unfolded bs] assms(4) [unfolded bs]] show ?thesis
        unfolding run by (simp add: bs)
    qed
  qed
qed

section \<open>A cube\<close>

definition cube_vertex :: "nat \<Rightarrow> shape" where
  "cube_vertex v = Shape v 0 FORWARD VERTEX []"

definition cube_edge :: "nat \<Rightarrow> shape" where
  "cube_edge k = Shape (10 + k) 0 FORWARD EDGE (map cube_vertex (ends_of_edge k))"

definition cube_face :: "nat \<Rightarrow> shape" where
  "cube_face f = Shape (30 + f) 0 FORWARD FACE [Shape (40 + f) 0 FORWARD WIRE (map cube_edge (edges_of_face f))]"

definition cube :: shape where
  "cube = Shape 50 0 FORWARD SOLID [Shape 51 0 FORWARD SHELL (map cube_face [1, 2, 3, 4, 5, 6])]"

definition cube_session :: session where
  "cube_session = snd (commit walk_occt
     \<lparr>ca_bodies = [cube], ca_history = None, ca_op_name = ''make'', ca_built = cube,
      ca_mode = Strict, ca_warnings = [], ca_pieces = KeepId\<rparr> (new_session False))"

definition cube_geometry :: block_geometry where
  "cube_geometry = \<lparr>wire_steps = (\<lambda>_ _. map (\<lambda>n. (cube_edge n, cube_vertex n)) [1, 2, 3, 4]),
     edge_ends = (\<lambda>e. (cube_vertex (vertex_id_edge (tshape e - 10) 1), cube_vertex (vertex_id_edge (tshape e - 10) 2)))\<rparr>"

definition cube_numbers :: hexahedron where
  "cube_numbers = \<lparr>h_face = (\<lambda>f. SKey (30 + f) 0), h_edge = (\<lambda>k. SKey (10 + k) 0), h_vertex = (\<lambda>v. SKey v 0)\<rparr>"

definition plain_tools :: block_tools where
  "plain_tools = \<lparr>wire_edges = (\<lambda>_ _. Inr []), degenerated = (\<lambda>_. False), common_vertex = (\<lambda>_ _. Inr None),
     tangent = (\<lambda>_ _. Inr (f0, f0, f0)), vec_angle = (\<lambda>_ _. Inr f0), possible_blocks = (\<lambda>_ _. Inr 0),
     explore_avoiding = (\<lambda>_ _ _. []), glue_analysis = (\<lambda>_. Inr (0, []))\<rparr>"

lemma cube_is: "block_is walk_occt plain_tools cube_geometry cube_numbers cube"
  by code_simp

lemma cube_ends: "ends_are cube_geometry cube_numbers"
  by (auto simp: ends_are_def cube_geometry_def cube_numbers_def cube_vertex_def skey_def)

lemma cube_face_is: "face_is walk_occt cube_geometry cube_numbers (cube_face 1)"
  by code_simp

lemma cube_session_facts:
  "require_alive cube_session 1 = Inr \<lparr>ent_shapes = [cube], ent_kind = SOLID\<rparr>"
  "sole_face walk_occt cube_session 2 = Inr (cube_face 1)"
  "find_key (map_shapes walk_occt cube FACE) (cube_face 1) = Some (cube_face 1)"
  "key_tshape (h_face cube_numbers 2) \<noteq> 0"
  "label_of cube_session (at_key (h_face cube_numbers 2)) = Inr 3"
  by code_simp+

theorem opposite_face_witness:
  "opposite_face walk_occt plain_tools cube_geometry cube_session 1 2 = Inr 3"
  by (rule conjunct1 [OF opposite_face_of_a_hexahedron [OF cube_session_facts(1) _ _ cube_session_facts(2,3)
        cube_is cube_ends cube_face_is cube_session_facts(4,5)]]) simp_all

lemma cube_edges:
  "sole_edge walk_occt cube_session 8 = Inr (cube_edge 1)" "sole_edge walk_occt cube_session 9 = Inr (cube_edge 2)"
  "meets_the_rest walk_occt plain_tools (st_root (s_state cube_session)) EDGE FACE"
  "faces_with_both walk_occt (st_root (s_state cube_session)) (cube_edge 1) (cube_edge 2) = [cube_face 1]"
  "label_of cube_session (cube_face 1) = Inr 2"
  by code_simp+

theorem face_by_edges_witness: "face_by_edges walk_occt plain_tools cube_session 8 9 = Inr 2"
  unfolding face_by_edges_is_the_common_face [OF cube_edges(1-3)] cube_edges(4) list.case cube_edges(5) by simp

text \<open>A point outside of the cube's box, two blocks at one distance in the model.\<close>

definition two_cubes :: session where
  "two_cubes = snd (commit walk_occt
     \<lparr>ca_bodies = [block_at 100, block_at 200], ca_history = None, ca_op_name = ''make'', ca_built = block_at 100,
      ca_mode = Strict, ca_warnings = [], ca_pieces = KeepId\<rparr> (new_session False))"

definition far_tools :: near_tools where
  "far_tools = \<lparr>solid_box = (\<lambda>_. Inr ((f0, f0, f0), (f0, f0, f0))), classify = (\<lambda>_ _. Inr ON),
     distance_to = (\<lambda>_ b. Inr (Some (Fin (if tshape b = 100 then 3 else 2))))\<rparr>"

lemma below_real_last:
  assumes "x \<le> 2 ^ 1022"
  shows "fless (Fin x) real_last"
proof -
  have "(2 :: rat) ^ 1022 < 1 * 2 ^ 1023" by simp
  also have "\<dots> \<le> (2 - 1 / 2 ^ 52) * 2 ^ 1023" by (rule mult_right_mono) simp_all
  finally show ?thesis using assms by (simp add: real_last_def)
qed

abbreviation "outside \<equiv> (Fin 1, f0, f0) :: vec"
abbreviation "far_from b \<equiv> Fin (if tshape b = 100 then 3 else 2)"

lemma two_cubes_facts:
  "append_all [] (explore walk_occt (st_root (s_state two_cubes)) SOLID) = [block_at 100, block_at 200]"
  "label_of two_cubes (block_at 200) = Inr 2"
  "list_all (\<lambda>b. place_of far_tools outside b = Inr 1) [block_at 100, block_at 200]"
  "nearest_blocks (\<lambda>_. 1) (\<lambda>b. far_from b) [block_at 100, block_at 200] = [block_at 200]"
  by code_simp+

theorem find_block_near_witness: "find_block_near walk_occt far_tools two_cubes outside = Inr 2"
proof -
  let ?bs = "[block_at 100, block_at 200]"
  have "list_all (\<lambda>b. place_of far_tools outside b = Inr 1 \<and> (1 :: int) \<in> {-1, 0, 1}) ?bs"
    using two_cubes_facts(3) by simp
  moreover have "(3 :: rat) \<le> 2 ^ 1022" "(2 :: rat) \<le> 2 ^ 1022" by simp_all
  then have "list_all (\<lambda>b. distance_to far_tools outside b = Inr (Some (far_from b)) \<and> fless (far_from b) real_last) ?bs"
    by (simp add: far_tools_def below_real_last)
  moreover have "vec_finite outside" by (simp add: vec_finite_def)
  ultimately have "find_block_near walk_occt far_tools two_cubes outside =
      (case nearest_blocks (\<lambda>_. 1) (\<lambda>b. far_from b) ?bs of
         [] \<Rightarrow> Inl NoSolid
       | [b] \<Rightarrow> querying (label_of two_cubes b)
       | on \<Rightarrow> bind_result (querying (each (label_of two_cubes) on)) (\<lambda>ids. Inl (OnSeveralBoundaries (length on) ids)))"
    by (intro find_block_near_is_nearest) (simp_all only: two_cubes_facts(1))
  then show ?thesis unfolding two_cubes_facts(4) list.case two_cubes_facts(2) by simp
qed

end
