(* ===== verification/ArrayProps.thy ===== *)
theory ArrayProps
  imports BlockArrays SessionFacts Model
begin

text \<open>
  What \<^verbatim>\<open>multi_transform\<close> builds: a copy at every place of the array but the first, and a history
  that gives each sub-shape of a copy to the one of the block at the same place.
\<close>

section \<open>The copies of an array\<close>

text \<open>The places of the array in the order of the loops, without the block's own.\<close>

definition places_of_row :: "int \<Rightarrow> int list \<Rightarrow> (int \<times> int) list" where
  "places_of_row j is = filter (\<lambda>p. p \<noteq> (0, 0)) (map (\<lambda>i. (i, j)) is)"

definition array_places :: "int list \<Rightarrow> int list \<Rightarrow> (int \<times> int) list" where
  "array_places is js = concat (map (\<lambda>j. places_of_row j is) js)"

text \<open>The n-th copy, moved to a place.\<close>

definition copy_at :: "array_tools \<Rightarrow> rounding \<Rightarrow> vec list \<Rightarrow> shape \<Rightarrow> nat \<times> int \<times> int \<Rightarrow> shape" where
  "copy_at tools rnd vectors body np =
     (case np of (n, i, j) \<Rightarrow>
        (case copier tools n body of Inl t \<Rightarrow> null_shape | Inr (twin, put) \<Rightarrow> translated tools (shift_of rnd vectors i j) twin))"

text \<open>The calls that give a copy's sub-shapes to those of the block.\<close>

definition calls_of :: "occt \<Rightarrow> shape \<Rightarrow> shape \<Rightarrow> history_call list" where
  "calls_of oc body copy =
     map2 AddGenerated (registered_subshapes (map_shapes oc) body) (registered_subshapes (map_shapes oc) copy)"

definition grown_by ::
  "occt \<Rightarrow> array_tools \<Rightarrow> rounding \<Rightarrow> vec list \<Rightarrow> shape \<Rightarrow> (int \<times> int) list \<Rightarrow> copies \<Rightarrow> copies \<Rightarrow> bool" where
  "grown_by oc tools rnd vectors body ps cp cp' =
     (let new = map (copy_at tools rnd vectors body) (enumerate (cp_runs cp) ps)
      in cp_runs cp' = cp_runs cp + length ps \<and> cp_blocks cp' = cp_blocks cp @ new \<and>
         cp_calls cp' = cp_calls cp @ concat (map (calls_of oc body) new) \<and>
         list_all (\<lambda>b. length (registered_subshapes (map_shapes oc) b) = length (registered_subshapes (map_shapes oc) body)) new)"

lemma grown_by_Nil: "grown_by oc tools rnd vectors body [] cp cp"
  by (simp add: grown_by_def)

lemma grown_by_append:
  "grown_by oc tools rnd vectors body ps cp cp1 \<Longrightarrow> grown_by oc tools rnd vectors body qs cp1 cp2 \<Longrightarrow>
   grown_by oc tools rnd vectors body (ps @ qs) cp cp2"
  by (simp add: grown_by_def Let_def enumerate_append_eq)

lemma pair_places_none:
  assumes "cp_failure (pair_places put ps cp) = None"
  shows "cp_failure cp = None \<and> pair_places put ps cp = cp\<lparr>cp_calls := cp_calls cp @ map (\<lambda>(o1, p). AddGenerated o1 p) ps\<rparr>"
  using assms
proof (induction ps arbitrary: cp)
  case (Cons op ps)
  obtain o1 p where op: "op = (o1, p)" by (cases op)
  with Cons.prems have "tshape p = put o1" by (auto split: if_splits)
  with Cons.prems Cons.IH [of "cp\<lparr>cp_calls := cp_calls cp @ [AddGenerated o1 p]\<rparr>"] show ?case by (simp add: op)
qed simp

lemma pair_places_frame:
  "cp_blocks (pair_places put ps cp) = cp_blocks cp" "cp_runs (pair_places put ps cp) = cp_runs cp"
  by (induction ps arbitrary: cp) (auto split: prod.splits)

lemma copy_row_grows:
  assumes "copy_row oc tools rnd vectors body j is cp = Inr cp'" and "cp_failure cp' = None"
  shows "cp_failure cp = None \<and> grown_by oc tools rnd vectors body (places_of_row j is) cp cp'"
  using assms(1)
proof (induction "is" arbitrary: cp)
  case Nil
  with assms(2) show ?case by (simp add: places_of_row_def grown_by_Nil)
next
  case (Cons i "is")
  let ?subs = "registered_subshapes (map_shapes oc)"
  show ?case
  proof (cases "i = 0 \<and> j = 0")
    case True
    with Cons show ?thesis by (simp add: places_of_row_def)
  next
    case False
    with Cons.prems obtain twin put where twin: "copier tools (cp_runs cp) body = Inr (twin, put)"
      by (cases "copier tools (cp_runs cp) body") auto
    let ?m = "translated tools (shift_of rnd vectors i j) twin"
    let ?cp1 = "cp\<lparr>cp_runs := cp_runs cp + 1\<rparr>"
    let ?cp2 = "pair_places put (zip (?subs body) (?subs ?m)) ?cp1"
    have len: "length (?subs ?m) = length (?subs body)"
    proof (rule ccontr)
      assume "length (?subs ?m) \<noteq> length (?subs body)"
      with False Cons.prems twin assms(2) show False by (auto simp: Let_def)
    qed
    from Cons.prems False twin len have
      "copy_row oc tools rnd vectors body j is (?cp2\<lparr>cp_blocks := cp_blocks ?cp2 @ [?m]\<rparr>) = Inr cp'"
      by (simp add: Let_def)
    from Cons.IH [OF this] have none: "cp_failure ?cp2 = None"
      and rest: "grown_by oc tools rnd vectors body (places_of_row j is) (?cp2\<lparr>cp_blocks := cp_blocks ?cp2 @ [?m]\<rparr>) cp'"
      by simp_all
    from pair_places_none [OF none] have cp2: "cp_failure cp = None"
      "?cp2 = ?cp1\<lparr>cp_calls := cp_calls cp @ map (\<lambda>(o1, p). AddGenerated o1 p) (zip (?subs body) (?subs ?m))\<rparr>" by simp_all
    have "grown_by oc tools rnd vectors body [(i, j)] cp (?cp2\<lparr>cp_blocks := cp_blocks ?cp2 @ [?m]\<rparr>)"
      unfolding cp2(2) using len by (simp add: grown_by_def copy_at_def twin calls_of_def)
    from grown_by_append [OF this rest] False cp2(1) show ?thesis by (simp add: places_of_row_def)
  qed
qed

lemma copy_rows_grow:
  assumes "copy_rows oc tools rnd vectors body is js cp = Inr cp'" and "cp_failure cp' = None"
  shows "cp_failure cp = None \<and> grown_by oc tools rnd vectors body (array_places is js) cp cp'"
  using assms(1)
proof (induction js arbitrary: cp)
  case Nil
  with assms(2) show ?case by (simp add: array_places_def grown_by_Nil)
next
  case (Cons j js)
  from Cons.prems obtain cp1 where cp1: "copy_row oc tools rnd vectors body j is cp = Inr cp1"
    "copy_rows oc tools rnd vectors body is js cp1 = Inr cp'" by (auto split: sum.splits)
  from Cons.IH [OF cp1(2)] have "cp_failure cp1 = None"
    and rest: "grown_by oc tools rnd vectors body (array_places is js) cp1 cp'" by simp_all
  from copy_row_grows [OF cp1(1) this(1)] grown_by_append [OF _ rest] show ?case
    by (simp add: array_places_def)
qed

section \<open>How many\<close>

lemma array_places_filter:
  "array_places is js = filter (\<lambda>p. p \<noteq> (0, 0)) (map prod.swap (List.product js is))"
  by (induction js) (simp_all add: array_places_def places_of_row_def filter_map comp_def)

lemma length_filter_but_one: "distinct xs \<Longrightarrow> x \<in> set xs \<Longrightarrow> length (filter (\<lambda>y. y \<noteq> x) xs) + 1 = length xs"
proof (induction xs)
  case (Cons y xs)
  show ?case
  proof (cases "y = x")
    case True
    with Cons.prems have "filter (\<lambda>y. y \<noteq> x) xs = xs" by (auto simp: filter_id_conv)
    with True show ?thesis by simp
  next
    case False
    with Cons show ?thesis by simp
  qed
qed simp

lemma length_array_places:
  assumes "1 \<le> n1" and "1 \<le> n2"
  shows "int (length (array_places [0..n1 - 1] [0..n2 - 1])) = n1 * n2 - 1"
proof -
  let ?all = "map prod.swap (List.product [0..n2 - 1] [0..n1 - 1])"
  have d: "distinct ?all" by (simp add: distinct_map distinct_product)
  have len: "int (length ?all) = n1 * n2" using assms by simp
  have "(0, 0) \<in> set ?all" using assms by force
  from length_filter_but_one [OF d this] len show ?thesis unfolding array_places_filter by linarith
qed

text \<open>Accepted arguments: one count or two, each at least 1.\<close>

lemma count_blocks_positive: "count_blocks k cs tot = Inr n \<Longrightarrow> list_all (\<lambda>c. 1 \<le> c) cs"
  by (induction cs arbitrary: k tot) (auto split: if_splits)

lemma array_counts_positive:
  assumes "check_array tools vectors counts = Inr ()" and "array_counts counts = (n1, n2)"
  shows "1 \<le> n1 \<and> 1 \<le> n2"
proof -
  from assms(1) obtain tot where tot: "count_blocks 0 counts 1 = Inr tot" and len: "length counts = length vectors"
    "vectors \<noteq> []" "\<not> 2 < length vectors"
    by (auto simp: check_array_def bind_result_Inr_iff require_def split: if_splits)
  from count_blocks_positive [OF tot] len assms(2) show ?thesis
    by (cases counts) (auto simp: array_counts_def list_all_length split: if_splits)
qed

lemma array_counts_product:
  "check_array tools vectors counts = Inr () \<Longrightarrow> array_counts counts = (n1, n2) \<Longrightarrow> n1 * n2 = prod_list counts"
  by (cases counts; cases "tl counts"; cases "tl (tl counts)")
    (auto simp: check_array_def bind_result_Inr_iff require_def array_counts_def split: if_splits)

section \<open>The operation\<close>

text \<open>Entities are resolved by the state alone.\<close>

lemma sole_body_in_op [simp]: "sole_body oc (s\<lparr>s_in_op := b\<rparr>) ids = sole_body oc s ids"
proof -
  have alive: "require_alive (s\<lparr>s_in_op := b\<rparr>) eid = require_alive s eid" for eid
    by (simp add: require_alive_def require_issued_def)
  have "add_owners tbl (s\<lparr>s_in_op := b\<rparr>) = add_owners tbl s" for tbl
    by (intro ext) (simp add: add_owners_def alive)
  moreover have "body_of_subshape oc (s\<lparr>s_in_op := b\<rparr>) = body_of_subshape oc s" by (simp add: body_of_subshape_def)
  ultimately show ?thesis by (simp add: sole_body_def owner_bodies_def)
qed

text \<open>
  C40. A \<^verbatim>\<open>multi_transform\<close> that returns has made an array of exactly the product of the counts: the
  block and, in the order of the loops, one fresh copy of it moved by \<open>i v1 + j v2\<close> for every other
  place (i, j). The history handed to the glue gives every registered sub-shape of a copy, and
  nothing else, as generated from the block's sub-shape at the same place, and the outcome is what
  \<^verbatim>\<open>commit\<close> made of the glued shape.
\<close>

theorem multi_transform_copies:
  assumes "multi_transform oc tools rnd block_id vectors counts s = (Inr rep, s')"
  shows "\<exists>body cp n1 n2 result hist. sole_body oc s [block_id] = Inr body \<and>
    make_copies oc tools rnd vectors counts body = Inr cp \<and> array_counts counts = (n1, n2) \<and>
    cp_blocks cp = body # map (copy_at tools rnd vectors body) (enumerate 0 (array_places [0..n1 - 1] [0..n2 - 1])) \<and>
    int (length (cp_blocks cp)) = prod_list counts \<and>
    cp_calls cp = concat (map (calls_of oc body) (tl (cp_blocks cp))) \<and>
    glue_copies tools (make_root (s_heap s) (cp_blocks cp)) (block_tolerance oc tools body) (cp_calls cp) = Inr (result, hist) \<and>
    fst (commit oc \<lparr>ca_bodies = concat_bodies (bodies_excluding s [body]) result, ca_history = Some hist,
      ca_op_name = ''multi_transform'', ca_built = result, ca_mode = Strict, ca_warnings = [],
      ca_pieces = KeepId\<rparr> (s\<lparr>s_in_op := True, s_heap := s_heap s + 1\<rparr>)) = Inr rep"
proof -
  let ?s = "s\<lparr>s_in_op := True\<rparr>"
  from assms have body: "fst (array_body oc tools rnd block_id vectors counts ?s) = Inr rep"
    by (auto simp: multi_transform_def split: if_splits prod.splits)
  then obtain b where b: "check_array tools vectors counts = Inr ()" "sole_body oc s [block_id] = Inr b"
    by (auto simp: array_body_def bind_result_Inr_iff in_array_def split: sum.splits)
  with body obtain result hist where run: "array_of oc tools rnd vectors counts b (s_heap s) = Inr (result, hist)"
    by (cases "array_of oc tools rnd vectors counts b (s_heap s)") (auto simp: array_body_def Let_def)
  let ?args = "\<lparr>ca_bodies = concat_bodies (bodies_excluding s [b]) result, ca_history = Some hist,
      ca_op_name = ''multi_transform'', ca_built = result, ca_mode = Strict, ca_warnings = [], ca_pieces = KeepId\<rparr>"
  have "bodies_excluding ?s [b] = bodies_excluding s [b]" by (simp add: bodies_excluding_def)
  with body b run have "in_array (fst (commit oc ?args (s\<lparr>s_in_op := True, s_heap := s_heap s + 1\<rparr>))) = Inr rep"
    by (auto simp: array_body_def Let_def split: prod.splits)
  then have commit: "fst (commit oc ?args (s\<lparr>s_in_op := True, s_heap := s_heap s + 1\<rparr>)) = Inr rep"
    by (auto simp: in_array_def split: sum.splits)
  from run obtain cp where cp: "make_copies oc tools rnd vectors counts b = Inr cp" "cp_failure cp = None"
    "glue_copies tools (make_root (s_heap s) (cp_blocks cp)) (block_tolerance oc tools b) (cp_calls cp) = Inr (result, hist)"
    by (auto simp: array_of_def split: sum.splits option.splits)
  obtain n1 n2 where n: "array_counts counts = (n1, n2)" by (cases "array_counts counts")
  from copy_rows_grow [OF cp(1) [unfolded make_copies_def n Let_def case_prod_conv] cp(2)]
  have blocks: "cp_blocks cp = b # map (copy_at tools rnd vectors b) (enumerate 0 (array_places [0..n1 - 1] [0..n2 - 1]))"
    and calls: "cp_calls cp = concat (map (calls_of oc b) (tl (cp_blocks cp)))"
    by (simp_all add: grown_by_def Let_def)
  from length_array_places [of n1 n2] array_counts_positive [OF b(1) n] array_counts_product [OF b(1) n]
  have "int (length (cp_blocks cp)) = prod_list counts" by (simp add: blocks)
  with b(2) cp(1,3) n blocks calls commit show ?thesis by blast
qed

section \<open>The product of the counts\<close>

text \<open>
  The product is kept in 32 bits: it is exact below 2^31, and 65536 by 65536 blocks count as none,
  which the check reports as one block.
\<close>

lemma count_blocks_exact:
  "list_all (\<lambda>c. 1 \<le> c) cs \<Longrightarrow> 1 \<le> tot \<Longrightarrow> tot * prod_list cs < 2 ^ 31 \<Longrightarrow> count_blocks k cs tot = Inr (tot * prod_list cs)"
proof (induction cs arbitrary: k tot)
  case (Cons c cs)
  have "0 < prod_list cs" using Cons.prems(1) by (induction cs) simp_all
  then have "1 \<le> prod_list cs" by simp
  have "0 < tot * c" using Cons.prems(1,2) by simp
  with \<open>1 \<le> prod_list cs\<close> have "tot * c \<le> tot * c * prod_list cs" by (simp add: mult_le_cancel_left1)
  then have "tot * c < 2 ^ 31" by (rule le_less_trans) (use Cons.prems(3) in \<open>simp add: mult.assoc\<close>)
  then have "to_int32 (tot * c) = tot * c" unfolding to_int32_def
    using \<open>0 < tot * c\<close> by (intro signed_take_bit_int_eq_self) simp_all
  moreover have "count_blocks (k + 1) cs (tot * c) = Inr (tot * c * prod_list cs)"
  proof (rule Cons.IH)
    show "1 \<le> tot * c" using \<open>0 < tot * c\<close> by linarith
  qed (use Cons.prems in \<open>simp_all add: mult.assoc\<close>)
  ultimately show ?case using Cons.prems by (simp add: mult.assoc)
qed simp

theorem array_count_wraps:
  "check_array tools [u, v] [65536, 65536] = Inl OneBlock"
  by (simp add: check_array_def require_def to_int32_def signed_take_bit_int_eq_self_iff)

section \<open>An array\<close>

text \<open>Two blocks in a row, with a copier that makes new TShapes and a gluer that finds nothing to glue.\<close>

fun retag :: "nat \<Rightarrow> shape \<Rightarrow> shape" where
  "retag n (Shape t l d k cs) = Shape (t + n) l d k (map (retag n) cs)"

definition no_history :: history where
  "no_history = \<lparr>hist_modified = (\<lambda>_. []), hist_generated = (\<lambda>_. []), hist_removed = (\<lambda>_. False)\<rparr>"

definition array_here :: array_tools where
  "array_here = \<lparr>vertex_tolerance = (\<lambda>_. confusion),
     copier = (\<lambda>n body. Inr (retag (1000 * (n + 1)) body, \<lambda>x. tshape x + 1000 * (n + 1))),
     translated = (\<lambda>_ x. x), magnitude = (\<lambda>_. Fin 1), history_of = (\<lambda>_. no_history),
     gluer = (\<lambda>_ _. Inr \<lparr>gl_detect_error = 0, gl_detect_warning = 0, gl_error = 0, gl_warning = 1,
       gl_shape = null_shape, gl_merged = (\<lambda>_. no_history)\<rparr>)\<rparr>"

abbreviation "two_in_a_row \<equiv> multi_transform walk_occt array_here Fin 1 [(Fin 5, f0, f0)] [2] one_block"

lemma copies_made:
  "check_array array_here [(Fin 5, f0, f0)] [2] = Inr ()"
  "sole_body walk_occt one_block [1] = Inr (block_at 100)"
  "case make_copies walk_occt array_here Fin [(Fin 5, f0, f0)] [2] (block_at 100) of
     Inl t \<Rightarrow> False | Inr cp \<Rightarrow> cp_failure cp = None"
  "s_in_op one_block = False"
  by code_simp+

lemma two_in_a_row_runs: "\<exists>rep. fst two_in_a_row = Inr rep"
proof -
  from copies_made(3) obtain cp where
    cp: "make_copies walk_occt array_here Fin [(Fin 5, f0, f0)] [2] (block_at 100) = Inr cp" "cp_failure cp = None"
    by (cases "make_copies walk_occt array_here Fin [(Fin 5, f0, f0)] [2] (block_at 100)") simp_all
  have "glue_copies array_here x tol calls = Inr (x, no_history)" for x tol calls
    by (simp add: glue_copies_def array_here_def)
  with cp have "array_of walk_occt array_here Fin [(Fin 5, f0, f0)] [2] (block_at 100) addr =
      Inr (make_root addr (cp_blocks cp), no_history)" for addr by (simp add: array_of_def)
  moreover have "\<exists>rep. fst (commit walk_occt a s) = Inr rep" for a s
    by (simp add: commit_def commit_verdict_def walk_occt_def Let_def)
  ultimately show ?thesis using copies_made(1,2,4)
    by (auto simp: multi_transform_def vec_finite_def array_body_def Let_def in_array_def split: prod.splits sum.splits)
      (metis fst_conv sum.distinct(1))
qed

theorem multi_transform_witness:
  "\<exists>cp. make_copies walk_occt array_here Fin [(Fin 5, f0, f0)] [2] (block_at 100) = Inr cp \<and> length (cp_blocks cp) = 2"
proof -
  from two_in_a_row_runs obtain rep where "two_in_a_row = (Inr rep, snd two_in_a_row)" by (metis prod.collapse)
  from multi_transform_copies [OF this] show ?thesis by (auto simp: copies_made(2))
qed

end
