(* ===== verification/Tessellate.thy ===== *)
theory Tessellate
  imports Commit BlockCheck
begin

text \<open>
  The render mesh of a session (\<^verbatim>\<open>session_tessellate.cpp\<close>): the faces' triangulations laid out one
  after the other in one node array, the polylines of the edges as pairs of nodes, and the set of
  faces that differ from the previous call. The mesher and what it left on the shapes are
  arguments: a \<^verbatim>\<open>Poly_Triangulation\<close> is its address with its nodes, and a null handle is \<open>None\<close>.
  An array is the map its writes fill; a place that nothing writes stays undefined.
\<close>

section \<open>What the mesher leaves on the shapes\<close>

text \<open>Nodes with their UV, when it has UV nodes, and triangles; indices count from 1.\<close>

record triangulation =
  tri_addr :: nat
  tri_nodes :: "vec list"
  tri_uvs :: "(f64 \<times> f64) list option"
  tri_triangles :: "(int \<times> int \<times> int) list"

text \<open>
  \<^verbatim>\<open>BRep_Tool::Triangulation\<close> with the Location it gives, \<^verbatim>\<open>PolygonOnTriangulation\<close> and
  \<^verbatim>\<open>Polygon3D\<close> as their nodes, \<^verbatim>\<open>gp_Pnt::Transform\<close> by a Location, the surface's normal at a UV when
  it is defined, the transform of a direction by the surface's Location, \<^verbatim>\<open>BRep_Tool::Pnt\<close>, and the
  faces of an edge in \<^verbatim>\<open>TopExp::MapShapesAndAncestors\<close>, empty for an edge it does not have.
\<close>

record mesh_tools =
  face_mesh :: "shape \<Rightarrow> triangulation option \<times> nat"
  polygon_on :: "shape \<Rightarrow> triangulation \<Rightarrow> nat \<Rightarrow> int list option"
  polygon_3d :: "shape \<Rightarrow> (vec list \<times> nat) option"
  at_location :: "nat \<Rightarrow> vec \<Rightarrow> vec"
  surface_normal :: "shape \<Rightarrow> f64 \<times> f64 \<Rightarrow> vec option"
  turned :: "shape \<Rightarrow> vec \<Rightarrow> vec"
  vertex_point :: "shape \<Rightarrow> vec"
  faces_of_edge :: "shape \<Rightarrow> shape \<Rightarrow> shape list"

datatype mesh_error =
    MeshArgNotFinite string
  | MeshBusy
  | DeflectionTooSmall
  | AngleOutOfRange
  | MeshHooksRefused string
  | MesherThrew string
  | MeshCancelled
  | MeshRefused session_error
  | UndefinedRead

definition meshing :: "'a outcome \<Rightarrow> (mesh_error, 'a) result" where
  "meshing r = (case r of Inl e \<Rightarrow> Inl (MeshRefused e) | Inr x \<Rightarrow> Inr x)"

lemma meshing_simps [simp, result_simps]:
  "meshing (Inl e) = Inl (MeshRefused e)" "meshing (Inr x) = Inr x"
  by (simp_all add: meshing_def)

section \<open>The faces\<close>

text \<open>\<^verbatim>\<open>FaceBlock\<close>: a face's range of nodes and of triangles.\<close>

record face_block =
  fb_face :: shape
  fb_mesh :: "triangulation option"
  fb_location :: nat
  fb_id :: entity_id
  fb_nodes :: "int \<times> int"
  fb_tris :: "int \<times> int"

definition fb_reversed :: "face_block \<Rightarrow> bool" where
  "fb_reversed b = (orient (fb_face b) = REVERSED)"

definition nb_nodes :: "triangulation option \<Rightarrow> int" where
  "nb_nodes m = (case m of None \<Rightarrow> 0 | Some t \<Rightarrow> int (length (tri_nodes t)))"

definition nb_triangles :: "triangulation option \<Rightarrow> int" where
  "nb_triangles m = (case m of None \<Rightarrow> 0 | Some t \<Rightarrow> int (length (tri_triangles t)))"

text \<open>The loop over the root's faces, with \<^verbatim>\<open>total_nodes\<close> and \<^verbatim>\<open>total_tris\<close>.\<close>

fun face_blocks ::
  "mesh_tools \<Rightarrow> session \<Rightarrow> shape list \<Rightarrow> int \<Rightarrow> int \<Rightarrow> (face_block list \<times> int \<times> int) outcome" where
  "face_blocks mt s [] n t = Inr ([], n, t)"
| "face_blocks mt s (f # fs) n t =
     (let (m, loc) = face_mesh mt f
      in bind_result (label_of s f) (\<lambda>fid.
         bind_result (face_blocks mt s fs (n + nb_nodes m) (t + nb_triangles m)) (\<lambda>(bs, n', t').
           Inr (\<lparr>fb_face = f, fb_mesh = m, fb_location = loc, fb_id = fid,
                 fb_nodes = (n, n + nb_nodes m), fb_tris = (t, t + nb_triangles m)\<rparr> # bs, n', t'))))"

section \<open>What changed\<close>

text \<open>\<^verbatim>\<open>EmittedFace\<close>; the record of the previous call is keyed by the TShape.\<close>

record emitted_face =
  em_mesh :: "nat option"
  em_location :: nat

type_synonym emitted = "(nat \<times> emitted_face) list"

definition mesh_addr :: "face_block \<Rightarrow> nat option" where
  "mesh_addr b = map_option tri_addr (fb_mesh b)"

text \<open>
  One face of the delta: (retriangulated, changed, now). When the record has no entry and the face
  has no triangulation, both handles are null and \<^verbatim>\<open>it->second\<close> is read through \<^verbatim>\<open>end ()\<close>.
\<close>

definition emit_face ::
  "emitted \<Rightarrow> face_block \<Rightarrow> entity_id list \<times> entity_id list \<times> emitted \<Rightarrow>
   (mesh_error, entity_id list \<times> entity_id list \<times> emitted) result" where
  "emit_face old b acc =
     (let (retri, chg, now) = acc;
          key = tshape (fb_face b);
          it = map_of old key;
          now' = emplace key \<lparr>em_mesh = mesh_addr b, em_location = fb_location b\<rparr> now
      in if (case it of None \<Rightarrow> None | Some e \<Rightarrow> em_mesh e) \<noteq> mesh_addr b
         then Inr (retri @ [fb_id b], chg @ [fb_id b], now')
         else case it of
                None \<Rightarrow> Inl UndefinedRead
              | Some e \<Rightarrow> Inr (retri, if fb_location b \<noteq> em_location e then chg @ [fb_id b] else chg, now'))"

definition face_delta ::
  "emitted \<Rightarrow> face_block list \<Rightarrow> (mesh_error, entity_id list \<times> entity_id list \<times> emitted) result" where
  "face_delta old bs =
     bind_result (loop (emit_face old) bs ([], [], [])) (\<lambda>(retri, chg, now). Inr (tidy retri, tidy chg, now))"

section \<open>The edges\<close>

text \<open>The first face of the edge that carries a polygon of two nodes or more for it.\<close>

fun face_polygon :: "mesh_tools \<Rightarrow> face_block list \<Rightarrow> shape \<Rightarrow> shape list \<Rightarrow> (face_block \<times> int list) option" where
  "face_polygon mt bs e [] = None"
| "face_polygon mt bs e (f # fs) =
     (case find (\<lambda>b. is_same (fb_face b) f) bs of
        None \<Rightarrow> face_polygon mt bs e fs
      | Some b \<Rightarrow>
          (case fb_mesh b of
             None \<Rightarrow> face_polygon mt bs e fs
           | Some t \<Rightarrow>
               (case polygon_on mt e t (fb_location b) of
                  None \<Rightarrow> face_polygon mt bs e fs
                | Some ns \<Rightarrow> if length ns < 2 then face_polygon mt bs e fs else Some (b, ns))))"

text \<open>\<^verbatim>\<open>EdgeSegment\<close>: two nodes and the edge's id. The segments of consecutive nodes.\<close>

type_synonym segment = "int \<times> int \<times> entity_id"

definition polyline :: "int list \<Rightarrow> entity_id \<Rightarrow> segment list" where
  "polyline ns eid = map (\<lambda>(a, b). (a, b, eid)) (zip ns (tl ns))"

definition edge_segments ::
  "mesh_tools \<Rightarrow> session \<Rightarrow> shape \<Rightarrow> face_block list \<Rightarrow> int \<Rightarrow> shape \<Rightarrow> segment list \<times> vec list \<Rightarrow>
   (segment list \<times> vec list) outcome" where
  "edge_segments mt s model bs total_nodes e acc =
     (let (segments, free) = acc
      in bind_result (label_of s e) (\<lambda>eid.
         case face_polygon mt bs e (faces_of_edge mt model e) of
           Some (b, ns) \<Rightarrow> Inr (segments @ polyline (map (\<lambda>n. fst (fb_nodes b) + n - 1) ns) eid, free)
         | None \<Rightarrow>
             (case polygon_3d mt e of
                None \<Rightarrow> Inr (segments, free)
              | Some (pts, loc) \<Rightarrow>
                  if length pts < 2 then Inr (segments, free)
                  else let first = total_nodes + int (length free)
                       in Inr (segments @ polyline (map (\<lambda>k. first + int k) [0..<length pts]) eid,
                               free @ map (at_location mt loc) pts))))"

section \<open>The arrays\<close>

definition fill_at :: "(int \<times> 'a) list \<Rightarrow> (int \<rightharpoonup> 'a) \<Rightarrow> (int \<rightharpoonup> 'a)" where
  "fill_at ws arr = fold (\<lambda>(i, v) m. m(i \<mapsto> v)) ws arr"

text \<open>What one face writes, with the global index of each entry.\<close>

definition block_nodes :: "mesh_tools \<Rightarrow> face_block \<Rightarrow> (int \<times> vec) list" where
  "block_nodes mt b = (case fb_mesh b of None \<Rightarrow> []
     | Some t \<Rightarrow> map (\<lambda>(i, p). (fst (fb_nodes b) + int i, at_location mt (fb_location b) p)) (enumerate 0 (tri_nodes t)))"

definition block_normals :: "mesh_tools \<Rightarrow> face_block \<Rightarrow> (int \<times> vec) list" where
  "block_normals mt b = (case fb_mesh b of None \<Rightarrow> []
     | Some t \<Rightarrow>
         (case tri_uvs t of None \<Rightarrow> []
          | Some uvs \<Rightarrow> concat (map (\<lambda>(i, uv). case surface_normal mt (fb_face b) uv of None \<Rightarrow> []
              | Some n \<Rightarrow> [(fst (fb_nodes b) + int i,
                            turned mt (fb_face b) (if fb_reversed b then vec_reversed n else n))]) (enumerate 0 uvs))))"

text \<open>The last two corners are swapped for a reversed face.\<close>

definition block_tris :: "face_block \<Rightarrow> (int \<times> int \<times> int \<times> int) list" where
  "block_tris b = (case fb_mesh b of None \<Rightarrow> []
     | Some t \<Rightarrow> map (\<lambda>(k, (p, q, r)).
         (let at1 = (\<lambda>n. to_int32 (fst (fb_nodes b) + n - 1))
          in (fst (fb_tris b) + int k, at1 p, at1 (if fb_reversed b then r else q), at1 (if fb_reversed b then q else r))))
         (enumerate 0 (tri_triangles t)))"

definition block_tri_ids :: "face_block \<Rightarrow> (int \<times> entity_id) list" where
  "block_tri_ids b = map (\<lambda>(row, _). (row, fb_id b)) (block_tris b)"

record render_mesh =
  rm_nodes :: "int \<rightharpoonup> vec"
  rm_normals :: "int \<rightharpoonup> vec"
  rm_node_count :: int
  rm_tris :: "int \<rightharpoonup> int \<times> int \<times> int"
  rm_tri_face_id :: "int \<rightharpoonup> entity_id"
  rm_tri_count :: int
  rm_edge_lines :: "(int \<times> int) list"
  rm_edge_id :: "entity_id list"
  rm_vertex_xyz :: "vec list"
  rm_vertex_id :: "entity_id list"
  rm_face_id :: "entity_id list"
  rm_face_node_range :: "(int \<times> int) list"
  rm_face_tri_range :: "(int \<times> int) list"
  rm_retriangulated :: "entity_id list"
  rm_changed :: "entity_id list"

definition fill_mesh ::
  "mesh_tools \<Rightarrow> face_block list \<Rightarrow> int \<Rightarrow> int \<Rightarrow> segment list \<Rightarrow> vec list \<Rightarrow> shape list \<Rightarrow> entity_id list \<Rightarrow>
   entity_id list \<Rightarrow> entity_id list \<Rightarrow> render_mesh" where
  "fill_mesh mt bs total_nodes total_tris segments free vertices vids retri chg =
     (let node_count = total_nodes + int (length free)
      in \<lparr>rm_nodes = fill_at (concat (map (block_nodes mt) bs) @ map (\<lambda>(i, p). (total_nodes + int i, p)) (enumerate 0 free)) Map.empty,
          rm_normals = fill_at (map (\<lambda>i. (i, (f0, f0, f0))) [0..node_count - 1] @ concat (map (block_normals mt) bs)) Map.empty,
          rm_node_count = node_count,
          rm_tris = fill_at (concat (map block_tris bs)) Map.empty,
          rm_tri_face_id = fill_at (concat (map block_tri_ids bs)) Map.empty,
          rm_tri_count = total_tris,
          rm_edge_lines = map (\<lambda>(a, b, eid). (to_int32 a, to_int32 b)) segments,
          rm_edge_id = map (\<lambda>(a, b, eid). eid) segments,
          rm_vertex_xyz = map (vertex_point mt) vertices, rm_vertex_id = vids, rm_face_id = map fb_id bs,
          rm_face_node_range = map (\<lambda>b. (to_int32 (fst (fb_nodes b)), to_int32 (snd (fb_nodes b)))) bs,
          rm_face_tri_range = map (\<lambda>b. (to_int32 (fst (fb_tris b)), to_int32 (snd (fb_tris b)))) bs,
          rm_retriangulated = retri, rm_changed = chg\<rparr>)"

section \<open>The method\<close>

record mesh_args =
  ma_deflection :: f64
  ma_angle :: f64
  ma_relative :: bool
  ma_parallel :: bool
  ma_incremental :: bool

text \<open>\<^verbatim>\<open>Precision::Angular ()\<close>, the double nearest to 1e-12.\<close>

definition angular :: f64 where
  "angular = Fin (4951760157141521 / 2 ^ 92)"

definition check_mesh_args :: "mesh_args \<Rightarrow> (mesh_error, unit) result" where
  "check_mesh_args a =
     bind_result (require (fle confusion (ma_deflection a)) DeflectionTooSmall) (\<lambda>_.
       require (\<not> (\<not> fle angular (ma_angle a) \<or> \<not> fless (ma_angle a) kPi)) AngleOutOfRange)"

text \<open>
  A run of the mesher on the root: what refuses the hooks, what it throws, what a hook raised, found
  by \<^verbatim>\<open>finish ()\<close>, whether it was cancelled, and what it leaves.
\<close>

record mesh_run =
  mr_hooks :: "string option"
  mr_threw :: "string option"
  mr_raised :: "string option"
  mr_cancelled :: bool
  mr_tools :: mesh_tools

definition run_stop :: "mesh_run \<Rightarrow> mesh_error option" where
  "run_stop r =
     (case (mr_hooks r, mr_threw r, mr_raised r) of
        (Some t, _, _) \<Rightarrow> Some (MeshHooksRefused t)
      | (None, Some t, _) \<Rightarrow> Some (MesherThrew t)
      | (None, None, Some t) \<Rightarrow> Some (MeshHooksRefused t)
      | (None, None, None) \<Rightarrow> if mr_cancelled r then Some MeshCancelled else None)"

text \<open>From the faces to the arrays; the record of what was emitted is replaced before the edges.\<close>

definition render ::
  "occt \<Rightarrow> mesh_tools \<Rightarrow> session \<Rightarrow> emitted \<Rightarrow> (mesh_error, render_mesh) result \<times> emitted" where
  "render oc mt s old =
     (let model = st_root (s_state s)
      in case bind_result (meshing (face_blocks mt s (map_shapes oc model FACE) 0 0)) (\<lambda>(bs, n, t).
                bind_result (face_delta old bs) (\<lambda>(retri, chg, now). Inr (bs, n, t, retri, chg, now))) of
           Inl e \<Rightarrow> (Inl e, old)
         | Inr (bs, n, t, retri, chg, now) \<Rightarrow>
             (meshing (bind_result (loop (edge_segments mt s model bs n) (map_shapes oc model EDGE) ([], [])) (\<lambda>(segments, free).
                bind_result (each (label_of s) (map_shapes oc model VERTEX)) (\<lambda>vids.
                  Inr (fill_mesh mt bs n t segments free (map_shapes oc model VERTEX) vids retri chg)))), now))"

definition tessellate ::
  "occt \<Rightarrow> (mesh_args \<Rightarrow> shape \<Rightarrow> mesh_run) \<Rightarrow> mesh_args \<Rightarrow> session \<Rightarrow> emitted \<Rightarrow>
   (mesh_error, render_mesh) result \<times> emitted" where
  "tessellate oc perform a s old =
     (if \<not> is_finite (ma_deflection a) then (Inl (MeshArgNotFinite ''deflection''), old)
      else if \<not> is_finite (ma_angle a) then (Inl (MeshArgNotFinite ''angle_rad''), old)
      else if s_in_op s then (Inl MeshBusy, old)
      else case check_mesh_args a of
             Inl e \<Rightarrow> (Inl e, old)
           | Inr () \<Rightarrow>
               (let kept = (if ma_incremental a then old else []);
                    run = perform a (st_root (s_state s))
                in case run_stop run of
                     Some e \<Rightarrow> (Inl e, kept)
                   | None \<Rightarrow> render oc (mr_tools run) s kept))"

end
