(* ===== verification/TessellateFacts.thy ===== *)
theory TessellateFacts
  imports Tessellate SessionFacts
begin

text \<open>
  How the render arrays are laid out: the ranges of the faces follow one another, every entry of an
  array is written, and every index points at a node.
\<close>

section \<open>Arrays filled by writes\<close>

lemma fill_at_simps [simp]:
  "fill_at [] arr = arr" "fill_at ((i, v) # ws) arr = fill_at ws (arr(i \<mapsto> v))"
  "fill_at (ws @ vs) arr = fill_at vs (fill_at ws arr)"
  by (simp_all add: fill_at_def)

lemma dom_fill_at: "dom (fill_at ws arr) = dom arr \<union> set (map fst ws)"
proof (induction ws arbitrary: arr)
  case (Cons w ws)
  obtain i v where w: "w = (i, v)" by (cases w)
  have "dom (arr(i \<mapsto> v)) = insert i (dom arr)" by simp
  then show ?case unfolding w fill_at_simps(2) Cons.IH by simp
qed simp

lemma fill_at_apply:
  "distinct (map fst ws) \<Longrightarrow> fill_at ws arr i = (case map_of ws i of None \<Rightarrow> arr i | Some v \<Rightarrow> Some v)"
proof (induction ws arbitrary: arr)
  case (Cons w ws)
  obtain j v where w: "w = (j, v)" by (cases w)
  with Cons.prems have "map_of ws j = None" by (simp add: map_of_eq_None_iff)
  with Cons show ?case by (auto simp: w split: option.splits)
qed simp

lemma fill_at_some:
  assumes "distinct (map fst ws)"
  shows "(fill_at ws Map.empty i = Some v) = ((i, v) \<in> set ws)"
proof -
  have "fill_at ws Map.empty i = map_of ws i" by (simp add: fill_at_apply [OF assms] split: option.split)
  then show ?thesis using map_of_eq_Some_iff [OF assms] by simp
qed

text \<open>The entries of consecutive places.\<close>

lemma enumerate_upto:
  "map (\<lambda>(i, x). n + int i) (enumerate j xs) = [n + int j..n + int j + int (length xs) - 1]"
proof (induction xs arbitrary: j)
  case (Cons x xs)
  have "[n + int j..n + int j + int (length (x # xs)) - 1] =
      (n + int j) # [n + int (Suc j)..n + int (Suc j) + int (length xs) - 1]"
    by (simp add: upto_rec1 algebra_simps)
  with Cons.IH [of "Suc j"] show ?case by simp
qed simp

section \<open>The ranges of the faces\<close>

text \<open>The blocks from the node \<open>n\<close> and the triangle \<open>t\<close> on, up to \<open>n'\<close> and \<open>t'\<close>.\<close>

fun laid_out :: "mesh_tools \<Rightarrow> session \<Rightarrow> face_block list \<Rightarrow> int \<times> int \<Rightarrow> int \<times> int \<Rightarrow> bool" where
  "laid_out mt s [] start end1 = (start = end1)"
| "laid_out mt s (b # bs) (n, t) end1 =
     (fb_nodes b = (n, n + nb_nodes (fb_mesh b)) \<and> fb_tris b = (t, t + nb_triangles (fb_mesh b)) \<and>
      face_mesh mt (fb_face b) = (fb_mesh b, fb_location b) \<and> label_of s (fb_face b) = Inr (fb_id b) \<and>
      laid_out mt s bs (n + nb_nodes (fb_mesh b), t + nb_triangles (fb_mesh b)) end1)"

lemma face_blocks_laid_out:
  "face_blocks mt s fs n t = Inr (bs, n', t') \<Longrightarrow> map fb_face bs = fs \<and> laid_out mt s bs (n, t) (n', t')"
  by (induction fs arbitrary: n t bs) (auto simp: bind_result_Inr_iff Let_def split: prod.splits)

lemma counts_nonneg [simp]: "0 \<le> nb_nodes m" "0 \<le> nb_triangles m"
  by (simp_all add: nb_nodes_def nb_triangles_def split: option.split)

lemma laid_out_mono: "laid_out mt s bs (n, t) (n', t') \<Longrightarrow> n \<le> n' \<and> t \<le> t'"
proof (induction bs arbitrary: n t)
  case (Cons b bs)
  from Cons.prems have "laid_out mt s bs (n + nb_nodes (fb_mesh b), t + nb_triangles (fb_mesh b)) (n', t')" by simp
  from Cons.IH [OF this] have "n + nb_nodes (fb_mesh b) \<le> n' \<and> t + nb_triangles (fb_mesh b) \<le> t'" .
  with counts_nonneg [of "fb_mesh b"] show ?case by linarith
qed simp

lemma laid_out_block:
  "laid_out mt s bs (n, t) (n', t') \<Longrightarrow> b \<in> set bs \<Longrightarrow>
     n \<le> fst (fb_nodes b) \<and> snd (fb_nodes b) \<le> n' \<and> t \<le> fst (fb_tris b) \<and> snd (fb_tris b) \<le> t' \<and>
     snd (fb_nodes b) = fst (fb_nodes b) + nb_nodes (fb_mesh b) \<and> snd (fb_tris b) = fst (fb_tris b) + nb_triangles (fb_mesh b) \<and>
     face_mesh mt (fb_face b) = (fb_mesh b, fb_location b) \<and> label_of s (fb_face b) = Inr (fb_id b)"
proof (induction bs arbitrary: n t)
  case (Cons c bs)
  from Cons.prems(1) have rest: "laid_out mt s bs (n + nb_nodes (fb_mesh c), t + nb_triangles (fb_mesh c)) (n', t')" by simp
  note pos = counts_nonneg [of "fb_mesh c"]
  show ?case
  proof (cases "b = c")
    case True
    with Cons.prems(1) laid_out_mono [OF rest] show ?thesis by simp
  next
    case False
    with Cons.prems(2) have "b \<in> set bs" by simp
    from Cons.IH [OF rest this] pos show ?thesis by linarith
  qed
qed simp

section \<open>Every place is written\<close>

lemma block_nodes_places: "map fst (block_nodes mt b) = [fst (fb_nodes b)..fst (fb_nodes b) + nb_nodes (fb_mesh b) - 1]"
  using enumerate_upto [of "fst (fb_nodes b)" 0]
  by (auto simp: block_nodes_def nb_nodes_def comp_def case_prod_unfold split: option.split)

lemma block_tris_places: "map fst (block_tris b) = [fst (fb_tris b)..fst (fb_tris b) + nb_triangles (fb_mesh b) - 1]"
  using enumerate_upto [of "fst (fb_tris b)" 0]
  by (auto simp: block_tris_def nb_triangles_def comp_def case_prod_unfold Let_def split: option.split)

lemma block_tri_ids_places: "map fst (block_tri_ids b) = map fst (block_tris b)"
  by (simp add: block_tri_ids_def comp_def case_prod_unfold)

lemma laid_out_places:
  "laid_out mt s bs (n, t) (n', t') \<Longrightarrow>
     map fst (concat (map (block_nodes mt) bs)) = [n..n' - 1] \<and> map fst (concat (map block_tris bs)) = [t..t' - 1]"
proof (induction bs arbitrary: n t)
  case (Cons b bs)
  from Cons.prems have rest: "laid_out mt s bs (n + nb_nodes (fb_mesh b), t + nb_triangles (fb_mesh b)) (n', t')"
    and b: "fst (fb_nodes b) = n" "fst (fb_tris b) = t" by simp_all
  from laid_out_mono [OF rest] have le: "n + nb_nodes (fb_mesh b) \<le> n'" "t + nb_triangles (fb_mesh b) \<le> t'" by simp_all
  note up = upto_append [of n "n + nb_nodes (fb_mesh b)" "n'"] upto_append [of t "t + nb_triangles (fb_mesh b)" "t'"]
  from Cons.IH [OF rest] up le show ?case
    by (simp add: block_nodes_places block_tris_places b)
qed simp

end
