(* ===== verification/TessellateProps.thy ===== *)
theory TessellateProps
  imports TessellateFacts Model
begin

text \<open>What a consumer of the render mesh may rely on: its indices, and its delta.\<close>

section \<open>The indices\<close>

text \<open>
  What OCCT promises of a face's mesh: its triangles and the polygons of its edges name nodes from 1
  on, and there is a UV for every node or for none.
\<close>

definition meshes_ok :: "mesh_tools \<Rightarrow> bool" where
  "meshes_ok mt = (\<forall>f t loc. face_mesh mt f = (Some t, loc) \<longrightarrow>
     list_all (\<lambda>(a, b, c). {a, b, c} \<subseteq> {1..int (length (tri_nodes t))}) (tri_triangles t) \<and>
     (\<forall>uvs. tri_uvs t = Some uvs \<longrightarrow> length uvs = length (tri_nodes t)) \<and>
     (\<forall>e ns. polygon_on mt e t loc = Some ns \<longrightarrow> list_all (\<lambda>n. n \<in> {1..int (length (tri_nodes t))}) ns))"

lemma to_int32_small: "0 \<le> n \<Longrightarrow> n < 2 ^ 31 \<Longrightarrow> to_int32 n = n"
  unfolding to_int32_def by (rule signed_take_bit_int_eq_self) simp_all

lemma polyline_ends: "(a, b, i) \<in> set (polyline ns eid) \<Longrightarrow> a \<in> set ns \<and> b \<in> set ns \<and> i = eid"
  by (auto simp: polyline_def dest: set_zip_leftD set_zip_rightD list.set_sel(2) [rotated])
    (metis list.sel(2) list.set_sel(2) set_zip_rightD)

lemma face_polygon_found:
  "face_polygon mt bs e fs = Some (b, ns) \<Longrightarrow>
     b \<in> set bs \<and> (\<exists>t. fb_mesh b = Some t \<and> polygon_on mt e t (fb_location b) = Some ns)"
proof (induction fs)
  case (Cons f fs)
  then show ?case
    by (cases "find (\<lambda>b. is_same (fb_face b) f) bs")
      (auto simp: find_Some_iff split: option.splits if_splits)
qed simp

text \<open>The segments name nodes of the faces, or free nodes.\<close>

definition ends_below :: "int \<Rightarrow> segment list \<Rightarrow> bool" where
  "ends_below n segments = list_all (\<lambda>(a, b, i). {a, b} \<subseteq> {0..<n}) segments"

lemma ends_below_append [simp]: "ends_below n (xs @ ys) = (ends_below n xs \<and> ends_below n ys)"
  by (simp add: ends_below_def)

lemma edge_segments_range:
  assumes ok: "meshes_ok mt" and laid: "laid_out mt s bs (0, 0) (n, t)"
    and step: "edge_segments mt s model bs n e (segments, free) = Inr (segments', free')"
    and old: "ends_below (n + int (length free)) segments"
  shows "ends_below (n + int (length free')) segments'"
proof -
  from step obtain eid where eid: "label_of s e = Inr eid"
    by (auto simp: edge_segments_def bind_result_Inr_iff)
  show ?thesis
  proof (cases "face_polygon mt bs e (faces_of_edge mt model e)")
    case (Some bns)
    obtain b ns where bns: "bns = (b, ns)" by (cases bns)
    from face_polygon_found [OF Some [unfolded bns]] obtain t' where
      b: "b \<in> set bs" "fb_mesh b = Some t'" "polygon_on mt e t' (fb_location b) = Some ns" by blast
    note range = laid_out_block [OF laid b(1)]
    have "list_all (\<lambda>n. n \<in> {1..int (length (tri_nodes t'))}) ns"
      using ok range b(2,3) unfolding meshes_ok_def by metis
    moreover have "nb_nodes (fb_mesh b) = int (length (tri_nodes t'))" by (simp add: b(2) nb_nodes_def)
    ultimately have "set (map (\<lambda>k. fst (fb_nodes b) + k - 1) ns) \<subseteq> {0..<n}"
      using range by (force simp: list_all_iff)
    then have "ends_below (n + int (length free)) (polyline (map (\<lambda>k. fst (fb_nodes b) + k - 1) ns) eid)"
      by (fastforce simp: ends_below_def list_all_iff dest: polyline_ends)
    with old step Some eid show ?thesis by (auto simp: edge_segments_def bns)
  next
    case None
    show ?thesis
    proof (cases "polygon_3d mt e")
      case p3: (Some pl)
      obtain pts loc where pl: "pl = (pts, loc)" by (cases pl)
      let ?new = "polyline (map (\<lambda>k. n + int (length free) + int k) [0..<length pts]) eid"
      have new: "ends_below (n + int (length free) + int (length pts)) ?new"
        using laid_out_mono [OF laid] by (fastforce simp: ends_below_def list_all_iff dest: polyline_ends)
      have "ends_below (n + int (length free) + int (length pts)) segments"
        using old by (force simp: ends_below_def list_all_iff)
      with new old step None p3 eid show ?thesis
        by (auto simp: edge_segments_def pl Let_def algebra_simps split: if_splits)
    qed (use old step None eid in \<open>auto simp: edge_segments_def\<close>)
  qed
qed

lemma loop_segments_range:
  assumes "meshes_ok mt" and "laid_out mt s bs (0, 0) (n, t)"
    and "loop (edge_segments mt s model bs n) es ([], []) = Inr (segments, free)"
  shows "ends_below (n + int (length free)) segments"
proof -
  have "ends_below (n + int (length (snd (segments, free)))) (fst (segments, free))"
  proof (rule loop_invariant [where P = "\<lambda>st. ends_below (n + int (length (snd st))) (fst st)", OF assms(3)])
    show "ends_below (n + int (length (snd st'))) (fst st')"
      if "ends_below (n + int (length (snd st))) (fst st)" and "edge_segments mt s model bs n e st = Inr st'" for e st st'
      using edge_segments_range [OF assms(1,2), of model e "fst st" "snd st" "fst st'" "snd st'"] that by simp
  qed (simp add: ends_below_def)
  then show ?thesis by simp
qed

text \<open>A row of the triangles is one of a block, with its corners in the range of the block's nodes.\<close>

lemma block_tris_range:
  assumes ok: "meshes_ok mt" and laid: "laid_out mt s bs (0, 0) (n, t)" and b: "b \<in> set bs"
    and small: "n < 2 ^ 31" and row: "(r, p, q, w) \<in> set (block_tris b)"
  shows "r \<in> {fst (fb_tris b)..<snd (fb_tris b)} \<and> {p, q, w} \<subseteq> {fst (fb_nodes b)..<snd (fb_nodes b)}"
proof -
  from row obtain m where m: "fb_mesh b = Some m" by (cases "fb_mesh b") (auto simp: block_tris_def)
  note range = laid_out_block [OF laid b]
  have count: "nb_nodes (fb_mesh b) = int (length (tri_nodes m))" by (simp add: m nb_nodes_def)
  have "list_all (\<lambda>(a, b, c). {a, b, c} \<subseteq> {1..int (length (tri_nodes m))}) (tri_triangles m)"
    using ok range m unfolding meshes_ok_def by metis
  then have corner: "to_int32 (fst (fb_nodes b) + k - 1) \<in> {fst (fb_nodes b)..<snd (fb_nodes b)}"
    if "k \<in> {x, y, z}" and "(x, y, z) \<in> set (tri_triangles m)" for k x y z
  proof -
    assume "list_all (\<lambda>(a, b, c). {a, b, c} \<subseteq> {1..int (length (tri_nodes m))}) (tri_triangles m)"
    with that have "k \<in> {1..int (length (tri_nodes m))}" by (fastforce simp: list_all_iff)
    with range count small have "0 \<le> fst (fb_nodes b) + k - 1" "fst (fb_nodes b) + k - 1 < snd (fb_nodes b)"
      "fst (fb_nodes b) + k - 1 < 2 ^ 31" "fst (fb_nodes b) \<le> fst (fb_nodes b) + k - 1" by simp_all
    then show ?thesis by (simp add: to_int32_small)
  qed
  have "r \<in> set (map fst (block_tris b))" using row by force
  with range have "r \<in> {fst (fb_tris b)..<snd (fb_tris b)}" unfolding block_tris_places by simp
  moreover from row obtain k x y z where kxyz: "(k, x, y, z) \<in> set (enumerate 0 (tri_triangles m))"
    "p = to_int32 (fst (fb_nodes b) + x - 1)"
    "q = to_int32 (fst (fb_nodes b) + (if fb_reversed b then z else y) - 1)"
    "w = to_int32 (fst (fb_nodes b) + (if fb_reversed b then y else z) - 1)"
    by (auto simp: block_tris_def m Let_def)
  then have "(x, y, z) \<in> set (tri_triangles m)" by (auto simp: in_set_enumerate_eq) (metis nth_mem)
  with corner kxyz(2-4) have "{p, q, w} \<subseteq> {fst (fb_nodes b)..<snd (fb_nodes b)}" by auto
  ultimately show ?thesis by simp
qed

text \<open>A mesh that is returned went through every stage.\<close>

lemma tessellate_render:
  assumes "tessellate oc perform a s old = (Inr rm, now)"
  shows "render oc (mr_tools (perform a (st_root (s_state s)))) s (if ma_incremental a then old else []) = (Inr rm, now)"
  using assms by (auto simp: tessellate_def Let_def split: if_splits sum.splits option.splits unit.splits)

lemma renderE:
  assumes "render oc mt s old = (Inr rm, now)"
  obtains bs n t retri chg segments free vids where
    "map fb_face bs = map_shapes oc (st_root (s_state s)) FACE" "laid_out mt s bs (0, 0) (n, t)"
    "face_delta old bs = Inr (retri, chg, now)"
    "loop (edge_segments mt s (st_root (s_state s)) bs n) (map_shapes oc (st_root (s_state s)) EDGE) ([], []) = Inr (segments, free)"
    "rm = fill_mesh mt bs n t segments free (map_shapes oc (st_root (s_state s)) VERTEX) vids retri chg"
proof -
  from assms obtain bs n t retri chg segments free vids where
    run: "face_blocks mt s (map_shapes oc (st_root (s_state s)) FACE) 0 0 = Inr (bs, n, t)"
      "face_delta old bs = Inr (retri, chg, now)"
      "loop (edge_segments mt s (st_root (s_state s)) bs n) (map_shapes oc (st_root (s_state s)) EDGE) ([], []) = Inr (segments, free)"
      "rm = fill_mesh mt bs n t segments free (map_shapes oc (st_root (s_state s)) VERTEX) vids retri chg"
    by (auto simp: render_def Let_def bind_result_Inr_iff meshing_def split: sum.splits)
  from face_blocks_laid_out [OF run(1)] that run(2-4) show ?thesis by blast
qed

lemma block_normals_places:
  assumes "meshes_ok mt" and "laid_out mt s bs (0, 0) (n, t)" and "b \<in> set bs"
  shows "fst ` set (block_normals mt b) \<subseteq> {0..<n}"
proof
  fix g assume "g \<in> fst ` set (block_normals mt b)"
  then obtain m uvs i uv where g: "fb_mesh b = Some m" "tri_uvs m = Some uvs" "(i, uv) \<in> set (enumerate 0 uvs)"
    "g = fst (fb_nodes b) + int i"
    by (cases "fb_mesh b"; cases "tri_uvs (the (fb_mesh b))") (auto simp: block_normals_def split: option.splits)
  note range = laid_out_block [OF assms(2,3)]
  have "length uvs = length (tri_nodes m)" using assms(1) range g(1,2) unfolding meshes_ok_def by metis
  with g range show "g \<in> {0..<n}" by (auto simp: in_set_enumerate_eq nb_nodes_def)
qed

lemma upto_from_0: "set [0..n - 1] = {0..<n :: int}"
  by auto

text \<open>Every place of the four arrays is written, and no other.\<close>

lemma filled_nodes:
  assumes "laid_out mt s bs (0, 0) (n, t)"
  shows "dom (rm_nodes (fill_mesh mt bs n t segments free vs vids retri chg)) = {0..<n + int (length free)}"
proof -
  have "map fst (concat (map (block_nodes mt) bs) @ map (\<lambda>(i, p). (n + int i, p)) (enumerate 0 free)) =
      [0..n - 1] @ [n..n + int (length free) - 1]"
    using laid_out_places [OF assms] enumerate_upto [of n 0 free] by (simp add: comp_def case_prod_unfold)
  also have "\<dots> = [0..n + int (length free) - 1]"
    using laid_out_mono [OF assms] by (intro upto_append) simp_all
  finally have "set (map fst (concat (map (block_nodes mt) bs) @ map (\<lambda>(i, p). (n + int i, p)) (enumerate 0 free))) =
      {0..<n + int (length free)}" by (simp only: upto_from_0)
  then show ?thesis by (simp only: fill_mesh_def Let_def dom_fill_at render_mesh.simps dom_empty Un_empty_left)
qed

lemma filled_normals:
  assumes "meshes_ok mt" and "laid_out mt s bs (0, 0) (n, t)"
  shows "dom (rm_normals (fill_mesh mt bs n t segments free vs vids retri chg)) = {0..<n + int (length free)}"
proof -
  let ?nc = "n + int (length free)"
  have "dom (rm_normals (fill_mesh mt bs n t segments free vs vids retri chg)) =
      set [0..?nc - 1] \<union> (\<Union>b \<in> set bs. fst ` set (block_normals mt b))"
    by (simp add: fill_mesh_def Let_def dom_fill_at comp_def image_UN)
  moreover have "(\<Union>b \<in> set bs. fst ` set (block_normals mt b)) \<subseteq> {0..<?nc}"
  proof (rule UN_least)
    show "fst ` set (block_normals mt b) \<subseteq> {0..<?nc}" if "b \<in> set bs" for b
      by (rule order_trans [OF block_normals_places [OF assms that]]) simp
  qed
  ultimately show ?thesis unfolding upto_from_0 by (simp only: Un_absorb2)
qed

lemma triangle_keys:
  assumes "laid_out mt s bs (0, 0) (n, t)"
  shows "map fst (concat (map block_tris bs)) = [0..t - 1]" "map fst (concat (map block_tri_ids bs)) = [0..t - 1]"
  using laid_out_places [OF assms] by (simp_all add: map_concat comp_def block_tri_ids_places)

lemma filled_tris:
  assumes "laid_out mt s bs (0, 0) (n, t)"
  shows "dom (rm_tris (fill_mesh mt bs n t segments free vs vids retri chg)) = {0..<t}"
    "dom (rm_tri_face_id (fill_mesh mt bs n t segments free vs vids retri chg)) = {0..<t}"
  by (simp_all only: fill_mesh_def Let_def dom_fill_at render_mesh.simps dom_empty Un_empty_left
      triangle_keys [OF assms] upto_from_0)

text \<open>A row of the triangle arrays is one face's, in its ranges.\<close>

lemma filled_row:
  assumes ok: "meshes_ok mt" and bs: "laid_out mt s bs (0, 0) (n, t)" and small: "n < 2 ^ 31" "t < 2 ^ 31"
    and rm: "rm = fill_mesh mt bs n t segments free vs vids retri chg" and r: "rm_tris rm r = Some (p, q, w)"
  shows "\<exists>i < length (rm_face_id rm). r \<in> {fst (rm_face_tri_range rm ! i)..<snd (rm_face_tri_range rm ! i)} \<and>
       {p, q, w} \<subseteq> {fst (rm_face_node_range rm ! i)..<snd (rm_face_node_range rm ! i)} \<and>
       rm_tri_face_id rm r = Some (rm_face_id rm ! i)"
proof -
  note keys = triangle_keys [OF bs]
  from r keys(1) have "(r, p, q, w) \<in> set (concat (map block_tris bs))"
    by (simp add: rm fill_mesh_def Let_def fill_at_some)
  then obtain b where b: "b \<in> set bs" "(r, p, q, w) \<in> set (block_tris b)" by auto
  then obtain i where i: "i < length bs" "bs ! i = b" by (auto simp: in_set_conv_nth)
  note range = laid_out_block [OF bs b(1)]
  have le: "fst (fb_nodes b) \<le> snd (fb_nodes b)" "fst (fb_tris b) \<le> snd (fb_tris b)" using range by simp_all
  have exact: "to_int32 (fst (fb_nodes b)) = fst (fb_nodes b)" "to_int32 (snd (fb_nodes b)) = snd (fb_nodes b)"
    "to_int32 (fst (fb_tris b)) = fst (fb_tris b)" "to_int32 (snd (fb_tris b)) = snd (fb_tris b)"
    by (rule to_int32_small; use range le small in linarith)+
  have "(r, fb_id b) \<in> set (concat (map block_tri_ids bs))" using b by (force simp: block_tri_ids_def)
  with keys(2) have "rm_tri_face_id rm r = Some (fb_id b)" by (simp add: rm fill_mesh_def Let_def fill_at_some)
  with block_tris_range [OF ok bs b(1) small(1) b(2)] i exact show ?thesis
    by (intro exI [of _ i]) (simp add: rm fill_mesh_def Let_def)
qed

text \<open>
  C22. In a render mesh of fewer than 2^31 nodes and triangles, every node, normal, triangle and
  triangle id is written; a triangle lies in the range of one face, carries that face's id, and has
  its three corners in that face's range of nodes, so that no triangle spans two faces; and both ends
  of every edge segment are nodes of the mesh.
\<close>

theorem render_mesh_is_laid_out:
  assumes "tessellate oc perform a s old = (Inr rm, now)"
    and "meshes_ok (mr_tools (perform a (st_root (s_state s))))"
    and "rm_node_count rm < 2 ^ 31" and "rm_tri_count rm < 2 ^ 31"
  shows "dom (rm_nodes rm) = {0..<rm_node_count rm} \<and> dom (rm_normals rm) = {0..<rm_node_count rm} \<and>
    dom (rm_tris rm) = {0..<rm_tri_count rm} \<and> dom (rm_tri_face_id rm) = {0..<rm_tri_count rm} \<and>
    (\<forall>r p q w. rm_tris rm r = Some (p, q, w) \<longrightarrow> (\<exists>i < length (rm_face_id rm).
       r \<in> {fst (rm_face_tri_range rm ! i)..<snd (rm_face_tri_range rm ! i)} \<and>
       {p, q, w} \<subseteq> {fst (rm_face_node_range rm ! i)..<snd (rm_face_node_range rm ! i)} \<and>
       rm_tri_face_id rm r = Some (rm_face_id rm ! i))) \<and>
    list_all (\<lambda>(p, q). {p, q} \<subseteq> {0..<rm_node_count rm}) (rm_edge_lines rm) \<and>
    length (rm_edge_id rm) = length (rm_edge_lines rm)"
proof -
  let ?mt = "mr_tools (perform a (st_root (s_state s)))"
  from tessellate_render [OF assms(1)] obtain bs n t retri chg segments free vids where
    bs: "laid_out ?mt s bs (0, 0) (n, t)"
    and segs: "loop (edge_segments ?mt s (st_root (s_state s)) bs n) (map_shapes oc (st_root (s_state s)) EDGE) ([], []) = Inr (segments, free)"
    and rm: "rm = fill_mesh ?mt bs n t segments free (map_shapes oc (st_root (s_state s)) VERTEX) vids retri chg"
    by (rule renderE)
  let ?nc = "n + int (length free)"
  have nc: "rm_node_count rm = ?nc" "rm_tri_count rm = t" by (simp_all add: rm fill_mesh_def Let_def)
  have small: "n < 2 ^ 31" "t < 2 ^ 31" using assms(3,4) nc by simp_all
  have "ends_below ?nc segments" by (rule loop_segments_range [OF assms(2) bs segs])
  then have "list_all (\<lambda>(p, q). {p, q} \<subseteq> {0..<?nc}) (rm_edge_lines rm)"
    using assms(3) by (fastforce simp: rm fill_mesh_def Let_def ends_below_def list_all_iff to_int32_small)
  moreover have "length (rm_edge_id rm) = length (rm_edge_lines rm)" by (simp add: rm fill_mesh_def Let_def)
  ultimately show ?thesis
    using filled_row [OF assms(2) bs small rm]
    unfolding nc by (simp add: rm filled_nodes [OF bs] filled_normals [OF assms(2) bs] filled_tris [OF bs])
qed

section \<open>The delta\<close>

text \<open>What a face emits: its TShape, its triangulation and its Location.\<close>

definition emission :: "mesh_tools \<Rightarrow> shape \<Rightarrow> nat \<times> nat option \<times> nat" where
  "emission mt f = (tshape f, map_option tri_addr (fst (face_mesh mt f)), snd (face_mesh mt f))"

text \<open>The record holds, for the TShapes it has, what their faces emitted.\<close>

definition recorded :: "emitted \<Rightarrow> (nat \<times> nat option \<times> nat) set" where
  "recorded em = {(k, em_mesh e, em_location e) | k e. map_of em k = Some e}"

definition block_emission :: "face_block \<Rightarrow> nat \<times> nat option \<times> nat" where
  "block_emission b = (tshape (fb_face b), mesh_addr b, fb_location b)"

lemma block_emission_face: "laid_out mt s bs (n, t) (n', t') \<Longrightarrow> b \<in> set bs \<Longrightarrow> block_emission b = emission mt (fb_face b)"
  by (drule (1) laid_out_block) (simp add: block_emission_def emission_def mesh_addr_def)

text \<open>A face is reported as changed unless the record has exactly its emission.\<close>

lemma emit_face_step:
  assumes "emit_face old b (retri, chg, now) = Inr (retri', chg', now')"
  shows "now' = emplace (tshape (fb_face b)) \<lparr>em_mesh = mesh_addr b, em_location = fb_location b\<rparr> now \<and>
    chg' = (if block_emission b \<in> recorded old then chg else chg @ [fb_id b]) \<and>
    retri' = (if (\<exists>loc. (tshape (fb_face b), mesh_addr b, loc) \<in> recorded old) then retri else retri @ [fb_id b])"
  using assms
  by (cases "map_of old (tshape (fb_face b))")
    (auto simp: emit_face_def Let_def recorded_def block_emission_def split: if_splits)

lemma emit_faces:
  "loop (emit_face old) bs (retri, chg, now) = Inr (retri', chg', now') \<Longrightarrow>
     now' = fold (\<lambda>b. emplace (tshape (fb_face b)) \<lparr>em_mesh = mesh_addr b, em_location = fb_location b\<rparr>) bs now \<and>
     chg' = chg @ map fb_id (filter (\<lambda>b. block_emission b \<notin> recorded old) bs) \<and>
     retri' = retri @ map fb_id (filter (\<lambda>b. \<nexists>loc. (tshape (fb_face b), mesh_addr b, loc) \<in> recorded old) bs)"
proof (induction bs arbitrary: retri chg now)
  case (Cons b bs)
  from Cons.prems obtain r c m where step: "emit_face old b (retri, chg, now) = Inr (r, c, m)"
    and rest: "loop (emit_face old) bs (r, c, m) = Inr (retri', chg', now')"
    by (auto split: sum.splits)
  from emit_face_step [OF step] Cons.IH [OF rest] show ?case by simp
qed simp

text \<open>With one face for a TShape, the record of a call is what its faces emitted.\<close>

lemma emplace_distinct:
  "distinct (map key bs) \<Longrightarrow> \<forall>b \<in> set bs. map_of now (key b) = None \<Longrightarrow>
     map_of (fold (\<lambda>b. emplace (key b) (val b)) bs now) k =
       (case map_of now k of Some v \<Rightarrow> Some v | None \<Rightarrow> map_of (map (\<lambda>b. (key b, val b)) bs) k)"
proof (induction bs arbitrary: now)
  case (Cons b bs)
  have "key b \<notin> key ` set bs" using Cons.prems(1) by simp
  then have "key c \<noteq> key b" if "c \<in> set bs" for c using that by (metis imageI)
  then have "\<forall>c \<in> set bs. map_of (emplace (key b) (val b) now) (key c) = None"
    using Cons.prems(2) by (simp add: map_of_emplace)
  with Cons show ?case by (auto simp: map_of_emplace split: option.splits)
qed (simp split: option.split)

lemma recorded_emissions:
  assumes "distinct (map (\<lambda>b. tshape (fb_face b)) bs)"
  shows "recorded (fold (\<lambda>b. emplace (tshape (fb_face b)) \<lparr>em_mesh = mesh_addr b, em_location = fb_location b\<rparr>) bs []) =
    block_emission ` set bs"
proof -
  let ?key = "\<lambda>b. tshape (fb_face b)" and ?val = "\<lambda>b. \<lparr>em_mesh = mesh_addr b, em_location = fb_location b\<rparr>"
  have look: "map_of (fold (\<lambda>b. emplace (?key b) (?val b)) bs []) k = map_of (map (\<lambda>b. (?key b, ?val b)) bs) k" for k
    using emplace_distinct [of ?key bs "[]" ?val k] assms by simp
  have "map_of (map (\<lambda>b. (?key b, ?val b)) bs) k = Some e \<longleftrightarrow> (\<exists>b \<in> set bs. k = ?key b \<and> e = ?val b)" for k e
    using assms by (subst map_of_eq_Some_iff) (auto simp: comp_def)
  then show ?thesis unfolding recorded_def look block_emission_def by (force simp: image_def)
qed

text \<open>What a call reports and records, over its faces.\<close>

lemma delta_of_call:
  assumes "render oc mt s old = (Inr rm, now)" and "fs = map_shapes oc (st_root (s_state s)) FACE"
  shows "set (rm_changed rm) = {i. \<exists>f \<in> set fs. label_of s f = Inr i \<and> emission mt f \<notin> recorded old}"
    and "set (rm_retriangulated rm) = {i. \<exists>f \<in> set fs. label_of s f = Inr i \<and>
      (\<nexists>loc. (tshape f, fst (snd (emission mt f)), loc) \<in> recorded old)}"
    and "sorted_wrt (<) (rm_changed rm) \<and> sorted_wrt (<) (rm_retriangulated rm)"
    and "distinct (map tshape fs) \<Longrightarrow> recorded now = emission mt ` set fs"
proof -
  from assms(1) obtain bs n t retri chg segments free vids where
    faces: "map fb_face bs = fs" and laid: "laid_out mt s bs (0, 0) (n, t)"
    and delta: "face_delta old bs = Inr (retri, chg, now)"
    and rm: "rm = fill_mesh mt bs n t segments free (map_shapes oc (st_root (s_state s)) VERTEX) vids retri chg"
    unfolding assms(2) by (rule renderE)
  from delta obtain r c where run: "loop (emit_face old) bs ([], [], []) = Inr (r, c, now)"
    and out: "retri = tidy r" "chg = tidy c"
    by (auto simp: face_delta_def bind_result_Inr_iff)
  note made = emit_faces [OF run]
  have block: "block_emission b = emission mt (fb_face b)" "label_of s (fb_face b) = Inr (fb_id b)" if "b \<in> set bs" for b
    using block_emission_face [OF laid that] laid_out_block [OF laid that] by simp_all
  have ids: "fb_id ` {b \<in> set bs. P (block_emission b)} = {i. \<exists>f \<in> set fs. label_of s f = Inr i \<and> P (emission mt f)}" for P
    unfolding faces [symmetric] using block by force
  show "set (rm_changed rm) = {i. \<exists>f \<in> set fs. label_of s f = Inr i \<and> emission mt f \<notin> recorded old}"
    using made ids [of "\<lambda>x. x \<notin> recorded old"] by (simp add: rm fill_mesh_def Let_def out)
  show "set (rm_retriangulated rm) = {i. \<exists>f \<in> set fs. label_of s f = Inr i \<and>
      (\<nexists>loc. (tshape f, fst (snd (emission mt f)), loc) \<in> recorded old)}"
    using made ids [of "\<lambda>x. \<nexists>loc. (fst x, fst (snd x), loc) \<in> recorded old"]
    by (simp add: rm fill_mesh_def Let_def out block_emission_def) (simp add: emission_def)
  show "sorted_wrt (<) (rm_changed rm) \<and> sorted_wrt (<) (rm_retriangulated rm)"
    by (simp add: rm fill_mesh_def Let_def out strict_tidy)
  show "recorded now = emission mt ` set fs" if "distinct (map tshape fs)"
  proof -
    have "distinct (map (\<lambda>b. tshape (fb_face b)) bs)" using that unfolding faces [symmetric] by (simp add: comp_def)
    from recorded_emissions [OF this] made have "recorded now = block_emission ` set bs" by simp
    also have "\<dots> = emission mt ` set fs" unfolding faces [symmetric] set_map image_image using block(1) by (intro image_cong refl)
    finally show ?thesis .
  qed
qed

text \<open>
  C14. The delta of an incremental call is exact: when no two faces of the first call's model share
  a TShape, the faces reported as changed are those that emit something else than any face of the
  first call did, and those reported as retriangulated are those of a new TShape or triangulation.
  So a consumer may keep what it has of every other face.
\<close>

theorem mesh_delta_is_exact:
  assumes "tessellate oc perform1 a1 s1 old = (Inr rm1, em)" and "tessellate oc perform2 a2 s2 em = (Inr rm2, em2)"
    and "ma_incremental a2" and "distinct (map tshape (map_shapes oc (st_root (s_state s1)) FACE))"
    and "mt1 = mr_tools (perform1 a1 (st_root (s_state s1)))" and "mt2 = mr_tools (perform2 a2 (st_root (s_state s2)))"
  shows "set (rm_changed rm2) = {i. \<exists>f \<in> set (map_shapes oc (st_root (s_state s2)) FACE).
      label_of s2 f = Inr i \<and> emission mt2 f \<notin> emission mt1 ` set (map_shapes oc (st_root (s_state s1)) FACE)} \<and>
    set (rm_retriangulated rm2) = {i. \<exists>f \<in> set (map_shapes oc (st_root (s_state s2)) FACE). label_of s2 f = Inr i \<and>
      (\<forall>g \<in> set (map_shapes oc (st_root (s_state s1)) FACE). (tshape g, fst (snd (emission mt1 g))) \<noteq> (tshape f, fst (snd (emission mt2 f))))} \<and>
    sorted_wrt (<) (rm_changed rm2) \<and> sorted_wrt (<) (rm_retriangulated rm2)"
proof -
  from tessellate_render [OF assms(1)] have "render oc mt1 s1 (if ma_incremental a1 then old else []) = (Inr rm1, em)"
    unfolding assms(5) .
  from delta_of_call(4) [OF this refl assms(4)]
  have em: "recorded em = emission mt1 ` set (map_shapes oc (st_root (s_state s1)) FACE)" .
  from tessellate_render [OF assms(2)] assms(3) have "render oc mt2 s2 em = (Inr rm2, em2)"
    unfolding assms(6) by simp
  note call = delta_of_call [OF this refl, unfolded em]
  have "(\<nexists>loc. (tshape f, fst (snd (emission mt2 f)), loc) \<in> emission mt1 ` F) =
      (\<forall>g \<in> F. (tshape g, fst (snd (emission mt1 g))) \<noteq> (tshape f, fst (snd (emission mt2 f))))" for f F
    by (simp add: emission_def image_iff) metis
  with call(1-3) show ?thesis by simp
qed

section \<open>Calls on the block\<close>

text \<open>One triangle on the block's face, its edge on two of the nodes; the address tells meshes apart.\<close>

definition one_mesh :: "nat \<Rightarrow> mesh_tools" where
  "one_mesh addr = \<lparr>
     face_mesh = (\<lambda>f. (Some \<lparr>tri_addr = addr, tri_nodes = [(f0, f0, f0), (Fin 1, f0, f0), (f0, Fin 1, f0)],
        tri_uvs = None, tri_triangles = [(1, 2, 3)]\<rparr>, location f)),
     polygon_on = (\<lambda>_ _ _. Some [1, 2]), polygon_3d = (\<lambda>_. None), at_location = (\<lambda>_ p. p),
     surface_normal = (\<lambda>_ _. None), turned = (\<lambda>_ v. v), vertex_point = (\<lambda>_. (f0, f0, f0)),
     faces_of_edge = (\<lambda>_ _. [face_at 102])\<rparr>"

definition meshed_by :: "mesh_tools \<Rightarrow> mesh_args \<Rightarrow> shape \<Rightarrow> mesh_run" where
  "meshed_by mt a s = \<lparr>mr_hooks = None, mr_threw = None, mr_raised = None, mr_cancelled = False, mr_tools = mt\<rparr>"

definition fine :: mesh_args where
  "fine = \<lparr>ma_deflection = Fin (1 / 10), ma_angle = Fin (1 / 2), ma_relative = False, ma_parallel = False,
     ma_incremental = True\<rparr>"

definition first_call :: "(mesh_error, render_mesh) result \<times> emitted" where
  "first_call = tessellate walk_occt (meshed_by (one_mesh 900)) fine one_block []"

definition second_call :: "(mesh_error, render_mesh) result \<times> emitted" where
  "second_call = tessellate walk_occt (meshed_by (one_mesh 901)) fine one_block (snd first_call)"

lemma meshes_ok_one: "meshes_ok (one_mesh addr)"
  by (auto simp: meshes_ok_def one_mesh_def)

lemma calls_return:
  "isl (fst first_call) = False" "isl (fst second_call) = False"
  "rm_node_count (projr (fst first_call)) = 3" "rm_tri_count (projr (fst first_call)) = 1"
  by code_simp+

lemma returned: "isl (fst r) = False \<Longrightarrow> r = (Inr (projr (fst r)), snd r)"
  by (cases r; cases "fst r") simp_all

lemma calls:
  "tessellate walk_occt (meshed_by (one_mesh 900)) fine one_block [] = (Inr (projr (fst first_call)), snd first_call)"
  "tessellate walk_occt (meshed_by (one_mesh 901)) fine one_block (snd first_call) = (Inr (projr (fst second_call)), snd second_call)"
  unfolding first_call_def [symmetric] second_call_def [symmetric]
  using returned [OF calls_return(1)] returned [OF calls_return(2)] by simp_all

theorem render_mesh_witness: "dom (rm_nodes (projr (fst first_call))) = {0..<3}"
proof -
  have "rm_node_count (projr (fst first_call)) < 2 ^ 31" "rm_tri_count (projr (fst first_call)) < 2 ^ 31"
    by (simp_all add: calls_return)
  from render_mesh_is_laid_out [OF calls(1) _ this] meshes_ok_one show ?thesis
    by (simp add: meshed_by_def calls_return)
qed

lemma one_face:
  "map_shapes walk_occt (st_root (s_state one_block)) FACE = [face_at 102]" "label_of one_block (face_at 102) = Inr 2"
  by code_simp+

theorem mesh_delta_witness: "set (rm_changed (projr (fst second_call))) = {2}"
proof -
  have "distinct (map tshape (map_shapes walk_occt (st_root (s_state one_block)) FACE))" by (simp add: one_face)
  from conjunct1 [OF mesh_delta_is_exact [OF calls _ this refl refl]] show ?thesis
    by (simp add: fine_def one_face emission_def meshed_by_def one_mesh_def)
qed

section \<open>Where the record falls short\<close>

text \<open>
  A face that the mesher could not triangulate and that no record has is compared through the end of
  the table: the two null handles are equal, and the entry's Location is read.
\<close>

lemma untriangulated_face_reads_end:
  "map_of old (tshape (fb_face b)) = None \<Longrightarrow> fb_mesh b = None \<Longrightarrow> emit_face old b acc = Inl UndefinedRead"
  by (simp add: emit_face_def mesh_addr_def Let_def split: prod.splits)

definition bare_mesh :: mesh_tools where
  "bare_mesh = one_mesh 900\<lparr>face_mesh := (\<lambda>f. (None, location f))\<rparr>"

lemma first_call_on_untriangulated:
  "case fst (tessellate walk_occt (meshed_by bare_mesh) fine one_block []) of Inl UndefinedRead \<Rightarrow> True | _ \<Rightarrow> False"
  by code_simp

text \<open>
  Two faces of one TShape at two places share an entry, which keeps the first. When the first moves
  away and the second takes its place, the second is not reported, though its nodes moved.
\<close>

definition instance_at :: "nat \<Rightarrow> entity_id \<Rightarrow> face_block" where
  "instance_at loc i = \<lparr>fb_face = Shape 7 loc FORWARD FACE [],
     fb_mesh = Some \<lparr>tri_addr = 900, tri_nodes = [], tri_uvs = None, tri_triangles = []\<rparr>,
     fb_location = loc, fb_id = i, fb_nodes = (0, 0), fb_tris = (0, 0)\<rparr>"

lemma moved_instance_is_missed:
  "face_delta (snd (snd (projr (face_delta [] [instance_at 1 10, instance_at 2 11])))) [instance_at 3 10, instance_at 1 11] =
     Inr ([], [10], [(7, \<lparr>em_mesh = Some 900, em_location = 3\<rparr>)])"
  by code_simp

end
