(* ===== verification/RangeSet.thy ===== *)
theory RangeSet
  imports Prelude
begin

text \<open>
  \<^verbatim>\<open>_RangeSet\<close> of the mesh's element factory (\<^verbatim>\<open>SMDS_ElementFactory.hxx\<close>): the value of an attribute
  at every place of a chunk, kept as a sorted set of ranges of equal value. A range is the pair of
  its first place and its value, the \<^verbatim>\<open>flat_set\<close> is the list of its ranges, and an iterator is a
  position in it.
\<close>

section \<open>The data\<close>

text \<open>\<^verbatim>\<open>theChunkSize\<close>.\<close>

definition chunk_size :: int where
  "chunk_size = 1024"

type_synonym 'a range_set = "(int \<times> 'a) list"

text \<open>The constructor; \<open>v\<close> is the attribute's 0.\<close>

definition new_ranges :: "'a \<Rightarrow> 'a range_set" where
  "new_ranges v = [(0, v)]"

text \<open>\<^verbatim>\<open>Size (rangePtr)\<close>: up to the next range, or to the end of the chunk.\<close>

definition range_size :: "'a range_set \<Rightarrow> nat \<Rightarrow> int" where
  "range_size rs r = (if Suc r = length rs then chunk_size else fst (rs ! Suc r)) - fst (rs ! r)"

text \<open>\<^verbatim>\<open>flat_set::upper_bound\<close>: the first range that begins beyond the place.\<close>

definition upper_bound :: "'a range_set \<Rightarrow> int \<Rightarrow> nat" where
  "upper_bound rs i = length (takeWhile (\<lambda>(f, v). f \<le> i) rs)"

definition get_attr :: "'a range_set \<Rightarrow> int \<Rightarrow> 'a" where
  "get_attr rs i = snd (rs ! (upper_bound rs i - 1))"

text \<open>The range of a place; the last one is tried first.\<close>

definition range_of :: "'a range_set \<Rightarrow> int \<Rightarrow> nat" where
  "range_of rs i = (if i < fst (last rs) then upper_bound rs i else length rs) - 1"

text \<open>\<^verbatim>\<open>SetValue\<close>, with the value it replaces.\<close>

definition set_attr :: "int \<Rightarrow> 'a \<Rightarrow> 'a range_set \<Rightarrow> 'a range_set \<times> 'a" where
  "set_attr i v rs =
     (let r = range_of rs i;
          (f, w) = rs ! r;
          joins_next = (Suc r < length rs \<and> snd (rs ! Suc r) = v);
          joins_prev = (0 < f \<and> snd (rs ! (r - 1)) = v)
      in if w = v then (rs, w)
         else if f = i then
           (if range_size rs r = 1 then
              if joins_prev then
                if joins_next then (take r rs @ drop (Suc (Suc r)) rs, w) else (take r rs @ drop (Suc r) rs, w)
              else if joins_next then (take r rs @ (fst (rs ! Suc r) - 1, snd (rs ! Suc r)) # drop (Suc (Suc r)) rs, w)
              else (take r rs @ (f, v) # drop (Suc r) rs, w)
            else if joins_prev then (take r rs @ (f + 1, w) # drop (Suc r) rs, w)
            else (take r rs @ (f, v) # (i + 1, w) # drop (Suc r) rs, w))
         else if f + range_size rs r - 1 = i then
           (if joins_next then (take (Suc r) rs @ (fst (rs ! Suc r) - 1, snd (rs ! Suc r)) # drop (Suc (Suc r)) rs, w)
            else (take (Suc r) rs @ (i, v) # drop (Suc r) rs, w))
         else (take (Suc r) rs @ (i, v) # (i + 1, w) # drop (Suc r) rs, w))"

text \<open>
  \<^verbatim>\<open>GetIndices\<close>: the ranges of a value, as (from, to). A range that matches is followed by one
  that does not, and the loop skips it.
\<close>

fun get_indices :: "'a \<Rightarrow> 'a range_set \<Rightarrow> (int \<times> int) list" where
  "get_indices v [] = []"
| "get_indices v [(f, w)] = (if w = v then [(f, chunk_size)] else [])"
| "get_indices v ((f, w) # (g, u) # rs) =
     (if w = v then (f, g) # get_indices v rs else get_indices v ((g, u) # rs))"

section \<open>The invariant\<close>

text \<open>
  The ranges are ascending, begin at 0 and stay in the chunk, and two neighbours differ.
\<close>

definition ranges_ok :: "'a range_set \<Rightarrow> bool" where
  "ranges_ok rs = (rs \<noteq> [] \<and> fst (hd rs) = 0 \<and> sorted_wrt (<) (map fst rs) \<and>
     list_all (\<lambda>f. f < chunk_size) (map fst rs) \<and> distinct_adj (map snd rs))"

lemma ranges_ok_new: "ranges_ok (new_ranges v)"
  by (simp add: ranges_ok_def new_ranges_def chunk_size_def)

text \<open>The value at a place, by recursion; \<open>d\<close> is that of the range before.\<close>

fun value_at :: "'a \<Rightarrow> 'a range_set \<Rightarrow> int \<Rightarrow> 'a" where
  "value_at d [] i = d"
| "value_at d ((f, w) # rs) i = (if f \<le> i then value_at w rs i else d)"

lemma value_at_append:
  "sorted_wrt (<) (map fst (xs @ (f, w) # ys)) \<Longrightarrow>
     value_at d (xs @ (f, w) # ys) i = (if f \<le> i then value_at w ys i else value_at d xs i)"
  by (induction xs arbitrary: d) force+

lemma value_at_before: "list_all (\<lambda>f. i < f) (map fst ys) \<Longrightarrow> value_at d ys i = d"
  by (cases ys) auto

text \<open>A place splits the ranges: its own, those before and those beyond.\<close>

lemma ranges_split:
  assumes "ranges_ok rs" and "0 \<le> i"
  obtains xs f w ys where "rs = xs @ (f, w) # ys" "f \<le> i" "list_all (\<lambda>g. i < g) (map fst ys)"
proof -
  let ?P = "\<lambda>(f, v). f \<le> i"
  let ?front = "takeWhile ?P rs"
  have "?front \<noteq> []"
    using assms by (cases rs) (auto simp: ranges_ok_def)
  then obtain xs r where front: "?front = xs @ [r]" by (metis rev_exhaust)
  obtain f w where r: "r = (f, w)" by (cases r)
  have "?P r" using set_takeWhileD [of r ?P rs] front by simp
  then have "f \<le> i" by (simp add: r)
  obtain ys where ys: "ys = dropWhile ?P rs" by simp
  have rs: "rs = xs @ (f, w) # ys"
    using takeWhile_dropWhile_id [of ?P rs] front by (simp add: r ys)
  have "sorted_wrt (<) (map fst (xs @ (f, w) # ys))"
    using assms(1) rs by (simp only: ranges_ok_def)
  then have sorted: "sorted_wrt (<) (map fst ys)" by (simp add: sorted_wrt_append)
  have "list_all (\<lambda>g. i < g) (map fst ys)"
  proof (cases ys)
    case (Cons a as)
    then have "\<not> ?P a" using hd_dropWhile [of ?P rs] by (simp flip: ys)
    then have "i < fst a" by (cases a) simp
    with sorted show ?thesis by (force simp: Cons list_all_iff)
  qed simp
  with rs \<open>f \<le> i\<close> show ?thesis by (rule that)
qed

text \<open>What the functions see of a split.\<close>

lemma split_positions:
  assumes "ranges_ok rs" and "rs = xs @ (f, w) # ys" and "f \<le> i" and "list_all (\<lambda>g. i < g) (map fst ys)"
  shows "upper_bound rs i = Suc (length xs)" "range_of rs i = length xs" "get_attr rs i = w"
    "value_at d rs i = w"
proof -
  have le: "list_all (\<lambda>g. g \<le> i) (map fst xs)"
    using assms(1-3) by (force simp: ranges_ok_def sorted_wrt_append list_all_iff)
  have "takeWhile (\<lambda>(g, v). g \<le> i) ys = []"
    using assms(4) by (cases ys) auto
  moreover have "takeWhile (\<lambda>(g, v). g \<le> i) (xs @ (f, w) # ys) = xs @ takeWhile (\<lambda>(g, v). g \<le> i) ((f, w) # ys)"
    using le by (intro takeWhile_append2) (auto simp: list_all_iff)
  ultimately have "takeWhile (\<lambda>(g, v). g \<le> i) rs = xs @ [(f, w)]"
    using assms(2,3) by simp
  then show bound: "upper_bound rs i = Suc (length xs)" by (simp add: upper_bound_def)
  show "range_of rs i = length xs"
  proof (cases ys)
    case Nil
    then show ?thesis using assms(2,3) by (simp add: range_of_def)
  next
    case (Cons y zs)
    then have "i < fst (last rs)" using assms(2,4) by (auto simp: list_all_iff)
    then show ?thesis by (simp add: range_of_def bound)
  qed
  show "get_attr rs i = w" unfolding get_attr_def bound by (simp add: assms(2))
  show "value_at d rs i = w"
    using assms(1) value_at_append [of xs f w ys] value_at_before [OF assms(4)] assms(3)
    by (simp add: ranges_ok_def assms(2))
qed

lemma get_attr_at: "ranges_ok rs \<Longrightarrow> 0 \<le> i \<Longrightarrow> get_attr rs i = value_at d rs i"
  using split_positions(3,4) ranges_split by metis

lemma get_attr_new [simp]: "0 \<le> i \<Longrightarrow> get_attr (new_ranges v) i = v"
  by (simp add: get_attr_def upper_bound_def new_ranges_def)

section \<open>Setting a value\<close>

lemma split_size:
  "range_size (xs @ (f, w) # ys) (length xs) = (if ys = [] then chunk_size else fst (hd ys)) - f"
  by (cases ys) (simp_all add: range_size_def nth_append)

lemma nth_append_next: "(xs @ x # y # ys) ! Suc (length xs) = y"
  by (simp add: nth_append)

text \<open>The outcomes of \<^verbatim>\<open>SetValue\<close> on a split; \<open>e\<close> is the end of the place's range.\<close>

definition put_value :: "int \<Rightarrow> 'a \<Rightarrow> 'a range_set \<Rightarrow> int \<Rightarrow> 'a \<Rightarrow> 'a range_set \<Rightarrow> 'a range_set" where
  "put_value i v xs f w ys =
    (let e = (if ys = [] then chunk_size else fst (hd ys));
         joined = (if ys \<noteq> [] \<and> snd (hd ys) = v then tl ys else ys)
     in if f = i then
          if xs \<noteq> [] \<and> snd (last xs) = v then (if e = f + 1 then xs @ joined else xs @ (i + 1, w) # ys)
          else (if e = f + 1 then xs @ (i, v) # joined else xs @ (i, v) # (i + 1, w) # ys)
        else if e = i + 1 then xs @ (f, w) # (i, v) # joined
        else xs @ (f, w) # (i, v) # (i + 1, w) # ys)"

lemma set_attr_split:
  assumes ok: "ranges_ok rs" and split: "rs = xs @ (f, w) # ys" and f: "f \<le> i"
    and beyond: "list_all (\<lambda>g. i < g) (map fst ys)"
  shows "set_attr i v rs = (if w = v then rs else put_value i v xs f w ys, w)"
proof -
  note r = split_positions(2) [OF assms, unfolded split]
  have pos: "0 < f \<longleftrightarrow> xs \<noteq> []"
    using ok by (cases xs) (auto simp: ranges_ok_def split)
  have prev: "(0 < f \<and> snd ((xs @ (f, w) # ys) ! (length xs - 1)) = v) = (xs \<noteq> [] \<and> snd (last xs) = v)"
    unfolding pos by (cases xs rule: rev_cases) (simp_all add: nth_append)
  have nth: "(xs @ (f, w) # ys) ! length xs = (f, w)" by simp
  show ?thesis
  proof (cases ys)
    case Nil
    then show ?thesis
      unfolding set_attr_def split r Let_def nth prod.case prev split_size put_value_def by (simp add: Nil)
  next
    case (Cons y zs)
    obtain g u where y: "y = (g, u)" by (cases y)
    then show ?thesis
      unfolding set_attr_def split r Let_def nth prod.case prev split_size put_value_def
      by (simp add: Cons y nth_append_next)
  qed
qed

text \<open>The invariant around a range: what is before it, and what follows it.\<close>

fun linked :: "int \<Rightarrow> 'a \<Rightarrow> 'a range_set \<Rightarrow> bool" where
  "linked f w [] = (f < chunk_size)"
| "linked f w ((g, u) # rs) = (f < g \<and> w \<noteq> u \<and> linked g u rs)"

definition leads_to :: "'a range_set \<Rightarrow> int \<Rightarrow> 'a \<Rightarrow> bool" where
  "leads_to xs f w = (if xs = [] then f = 0 else ranges_ok xs \<and> fst (last xs) < f \<and> snd (last xs) \<noteq> w)"

lemma linked_iff:
  "linked f w rs = (sorted_wrt (<) (f # map fst rs) \<and> list_all (\<lambda>f. f < chunk_size) (f # map fst rs) \<and>
     distinct_adj (w # map snd rs))"
  by (induction f w rs rule: linked.induct) (auto simp: list_all_iff)

lemma ascending_append:
  "xs \<noteq> [] \<Longrightarrow> sorted_wrt (<) (xs @ y # ys) = (sorted_wrt (<) xs \<and> sorted_wrt (<) (y # ys) \<and> last xs < y)"
  for xs :: "int list"
proof (induction xs)
  case (Cons x xs)
  show ?case
  proof (cases "xs = []")
    case False
    then have "last xs \<in> set xs" by simp
    with Cons.IH [OF False] False show ?thesis by (auto; metis order.strict_trans)
  qed (auto intro: less_trans)
qed simp

lemma linked_earlier: "linked h v rs \<Longrightarrow> g \<le> h \<Longrightarrow> linked g v rs"
  by (cases rs) auto

lemma ranges_ok_around: "ranges_ok (xs @ (f, w) # ys) = (leads_to xs f w \<and> linked f w ys)"
proof (cases "xs = []")
  case True
  then show ?thesis by (auto simp: ranges_ok_def leads_to_def linked_iff)
next
  case False
  then have sorted: "sorted_wrt (<) (map fst (xs @ (f, w) # ys)) =
      (sorted_wrt (<) (map fst xs) \<and> sorted_wrt (<) (f # map fst ys) \<and> fst (last xs) < f)"
    using ascending_append [of "map fst xs" f "map fst ys"] by (simp add: last_map)
  have "distinct_adj (map snd (xs @ (f, w) # ys)) =
      (distinct_adj (map snd xs) \<and> distinct_adj (w # map snd ys) \<and> snd (last xs) \<noteq> w)"
    using False by (auto simp: distinct_adj_append_iff last_map)
  with sorted False show ?thesis
    unfolding ranges_ok_def leads_to_def linked_iff by (simp add: conj_ac)
qed

lemma ranges_ok_Nil [simp]: "\<not> ranges_ok []"
  by (simp add: ranges_ok_def)

lemma ranges_ok_Cons: "ranges_ok ((f, w) # ys) = (f = 0 \<and> linked f w ys)"
  using ranges_ok_around [of "[]"] by (simp add: leads_to_def)

lemma put_value_ok:
  assumes ok: "ranges_ok (xs @ (f, w) # ys)" and f: "f \<le> i" and beyond: "list_all (\<lambda>g. i < g) (map fst ys)"
    and i: "i < chunk_size" and new: "w \<noteq> v"
  shows "ranges_ok (put_value i v xs f w ys)"
proof -
  have tail: "linked h v zs" if "linked (i + 1) v zs" "h \<le> i" for h zs
    using that by (intro linked_earlier [of "i + 1" v zs h]) simp_all
  show ?thesis
  proof (cases xs rule: rev_cases)
    case Nil
    with assms tail show ?thesis
      by (cases ys) (auto simp: put_value_def Let_def ranges_ok_Cons)
  next
    case (snoc us u)
    obtain g t where u: "u = (g, t)" by (cases u)
    from assms tail show ?thesis
      unfolding snoc u by (cases ys) (auto simp: put_value_def Let_def ranges_ok_around leads_to_def)
  qed
qed

lemma value_at_append_all:
  "value_at d (xs @ ys) j =
     (if list_all (\<lambda>g. g \<le> j) (map fst xs) then value_at (last (d # map snd xs)) ys j else value_at d xs j)"
  by (induction xs arbitrary: d) auto

lemma linked_ahead: "linked g v rs \<Longrightarrow> j \<le> g \<Longrightarrow> value_at c rs j = c"
  by (cases rs) auto

lemma put_value_at:
  assumes ok: "ranges_ok (xs @ (f, w) # ys)" and f: "f \<le> i" and beyond: "list_all (\<lambda>g. i < g) (map fst ys)"
    and i: "i < chunk_size" and new: "w \<noteq> v" and j: "0 \<le> j" "j < chunk_size"
  shows "value_at d (put_value i v xs f w ys) j = (if j = i then v else value_at d (xs @ (f, w) # ys) j)"
proof -
  have all: "list_all (\<lambda>g. g \<le> k) (map fst xs)" if "f \<le> k" for k
    using ok that by (force simp: ranges_ok_def sorted_wrt_append list_all_iff)
  have ahead: "value_at c ys j = c" if "j \<le> i" for c
    using beyond that by (intro value_at_before) (force simp: list_all_iff)
  have linked: "linked f w ys" using ok by (simp add: ranges_ok_around)
  then have tail: "value_at c zs j = c" if "ys = (i + 1, u) # zs" "j \<le> i" for c u zs
    using that linked_ahead [of "i + 1" u zs j c] by simp
  show ?thesis
  proof (cases "f = i \<and> xs \<noteq> [] \<and> snd (last xs) = v")
    case True
    then obtain us g where xs: "xs = us @ [(g, v)]" by (cases xs rule: rev_cases) auto
    have "g < f" using ok by (simp add: ranges_ok_around leads_to_def xs)
    show ?thesis using True all [of i] all [of j] ahead tail \<open>g < f\<close> j
      by (cases ys) (auto simp: put_value_def Let_def xs value_at_append_all)
  next
    case False
    then show ?thesis using f all [of i] all [of j] ahead tail j new
      by (cases ys) (auto simp: put_value_def Let_def value_at_append_all)
  qed
qed
text \<open>\<^verbatim>\<open>SetValue\<close> changes the value at its place alone, and returns the one it replaced.\<close>

lemma set_attr_refines:
  assumes "ranges_ok rs" and "0 \<le> i" and "i < chunk_size"
  shows "ranges_ok (fst (set_attr i v rs))" and "snd (set_attr i v rs) = get_attr rs i"
    and "0 \<le> j \<Longrightarrow> j < chunk_size \<Longrightarrow> get_attr (fst (set_attr i v rs)) j = (if j = i then v else get_attr rs j)"
proof -
  obtain xs f w ys where s: "rs = xs @ (f, w) # ys" "f \<le> i" "list_all (\<lambda>g. i < g) (map fst ys)"
    using ranges_split [OF assms(1,2)] by metis
  note ok = assms(1) [unfolded s(1)]
  note set = set_attr_split [OF assms(1) s, of v]
  show new: "ranges_ok (fst (set_attr i v rs))"
    using put_value_ok [OF ok s(2,3) assms(3)] assms(1) by (cases "w = v") (simp_all add: set)
  show "snd (set_attr i v rs) = get_attr rs i"
    by (simp add: set split_positions(3) [OF assms(1) s])
  show "get_attr (fst (set_attr i v rs)) j = (if j = i then v else get_attr rs j)"
    if j: "0 \<le> j" "j < chunk_size"
  proof (cases "w = v")
    case True
    then show ?thesis using split_positions(3) [OF assms(1) s] by (simp add: set)
  next
    case False
    have "value_at v (put_value i v xs f w ys) j = (if j = i then v else value_at v rs j)"
      using put_value_at [OF ok s(2,3) assms(3) False j] by (simp add: s(1))
    with get_attr_at [OF new j(1), of v] get_attr_at [OF assms(1) j(1), of v] False show ?thesis
      by (simp add: set)
  qed
qed

section \<open>The places of a value\<close>

lemma get_indices_skip: "u \<noteq> v \<Longrightarrow> get_indices v ((g, u) # rs) = get_indices v rs"
  by (cases rs) auto

lemma linked_places:
  "linked f w rs \<Longrightarrow> concat (map (\<lambda>(a, b). [a..b - 1]) (get_indices v ((f, w) # rs))) =
     filter (\<lambda>i. value_at w rs i = v) [f..chunk_size - 1]"
proof (induction rs arbitrary: f w)
  case Nil
  then show ?case by (auto simp: filter_empty_conv intro: filter_True [symmetric])
next
  case (Cons r rs)
  obtain g u where r: "r = (g, u)" by (cases r)
  from Cons.prems have l: "f < g" "w \<noteq> u" "linked g u rs" by (simp_all add: r)
  have "g < chunk_size" using l(3) by (simp add: linked_iff)
  with l(1) have "[f..chunk_size - 1] = [f..g - 1] @ [g..chunk_size - 1]" by (intro upto_append [symmetric]) simp_all
  then have "filter (\<lambda>i. value_at w (r # rs) i = v) [f..chunk_size - 1] =
      (if w = v then [f..g - 1] else []) @ filter (\<lambda>i. value_at u rs i = v) [g..chunk_size - 1]"
    by (auto simp: r filter_empty_conv intro!: filter_cong filter_True)
  also have "\<dots> = concat (map (\<lambda>(a, b). [a..b - 1]) (get_indices v ((f, w) # r # rs)))"
    using Cons.IH [OF l(3)] l(2) get_indices_skip [of u v g rs] by (auto simp: r)
  finally show ?case by simp
qed

text \<open>\<^verbatim>\<open>GetIndices\<close> lists the places of a value, in order.\<close>

lemma get_indices_places:
  assumes "ranges_ok rs"
  shows "concat (map (\<lambda>(a, b). [a..b - 1]) (get_indices v rs)) = filter (\<lambda>i. get_attr rs i = v) [0..chunk_size - 1]"
proof -
  from assms obtain w rest where rs: "rs = (0, w) # rest" "linked 0 w rest"
    by (cases rs; cases "hd rs") (auto simp: ranges_ok_Cons)
  have "value_at w rest i = get_attr rs i" if "0 \<le> i" for i
    using get_attr_at [OF assms that, of w] that by (simp add: rs(1))
  with linked_places [OF rs(2), of v] show ?thesis by (auto simp: rs(1) intro: filter_cong)
qed

lemma get_indices_within:
  assumes "ranges_ok rs" and "(a, b) \<in> set (get_indices v rs)"
  shows "0 \<le> a \<and> a < b \<and> b \<le> chunk_size"
proof -
  have "linked f w rs \<Longrightarrow> (a, b) \<in> set (get_indices v ((f, w) # rs)) \<Longrightarrow> f \<le> a \<and> a < b \<and> b \<le> chunk_size" for f w rs
  proof (induction rs arbitrary: f w)
    case (Cons r rs)
    obtain g u where r: "r = (g, u)" by (cases r)
    from Cons.prems(1) have l: "f < g" "w \<noteq> u" "linked g u rs" "g < chunk_size" by (simp_all add: r linked_iff)
    from Cons.prems(2) l(2) get_indices_skip [of u v g rs] have "(a, b) = (f, g) \<or> (a, b) \<in> set (get_indices v ((g, u) # rs))"
      by (auto simp: r split: if_splits)
    with Cons.IH [OF l(3)] l(1,4) show ?case by auto
  qed (simp split: if_splits)
  then show ?thesis using assms by (cases rs) (auto simp: ranges_ok_Cons)
qed
end
