(* ===== verification/IdFactory.thy ===== *)
theory IdFactory
  imports RangeSet
begin

text \<open>
  \<^verbatim>\<open>SMDS_ElementFactory\<close> and its chunks (\<^verbatim>\<open>SMDS_ElementFactory.cxx\<close>): which ids of nodes or cells are
  in use, and the sub-shape each is assigned to. An element is its id; whether it is null is its
  \<^verbatim>\<open>myHolder\<close>. The chunks with unused elements are their positions, ascending. The VTK ids, the
  marks and the positions on shapes that a chunk also stores are left out.
\<close>

section \<open>The state\<close>

record chunk =
  first_id :: int
  held :: "int \<Rightarrow> bool"
  used_ranges :: "bool range_set"
  shape_ranges :: "int range_set"

record factory =
  chunks :: "chunk list"
  open_chunks :: "nat list"
  nb_used :: int

text \<open>A read outside the chunks, or through the holder of a null element.\<close>

datatype access_error = OutOfChunk | NullElement

definition new_factory :: factory where
  "new_factory = \<lparr>chunks = [], open_chunks = [], nb_used = 0\<rparr>"

text \<open>The chunk and the place of an id; for an id below 1 the index would be negative.\<close>

definition chunk_of :: "int \<Rightarrow> nat" where
  "chunk_of k = nat ((k - 1) div chunk_size)"

definition place_in :: "int \<Rightarrow> int" where
  "place_in k = (k - 1) mod chunk_size"

text \<open>The constructor of a chunk, pushed at the end of \<^verbatim>\<open>myChunks\<close>; it joins the open ones.\<close>

definition push_chunk :: "factory \<Rightarrow> factory" where
  "push_chunk f = f\<lparr>chunks := chunks f @ [\<lparr>first_id = int (length (chunks f)) * chunk_size + 1, held = (\<lambda>_. False),
       used_ranges = new_ranges False, shape_ranges = new_ranges 0\<rparr>],
     open_chunks := insort_insert (length (chunks f)) (open_chunks f)\<rparr>"

definition grow :: "nat \<Rightarrow> factory \<Rightarrow> factory" where
  "grow c f = (push_chunk ^^ (Suc c - length (chunks f))) f"

section \<open>The operations\<close>

definition find_element :: "int \<Rightarrow> factory \<Rightarrow> bool" where
  "find_element k f = (0 < k \<and> chunk_of k < length (chunks f) \<and> held (chunks f ! chunk_of k) (place_in k))"

text \<open>\<^verbatim>\<open>UseElement\<close>, with the holder that \<^verbatim>\<open>NewElement\<close> sets.\<close>

definition use_element :: "int \<Rightarrow> factory \<Rightarrow> factory" where
  "use_element k f =
     (let c = chunk_of k; i = place_in k; ch = chunks f ! c;
          rs = fst (set_attr i True (used_ranges ch))
      in f\<lparr>chunks := (chunks f)[c := ch\<lparr>used_ranges := rs, held := (held ch)(i := True)\<rparr>],
           open_chunks := (if length rs = 1 then remove1 c (open_chunks f) else open_chunks f),
           nb_used := nb_used f + 1\<rparr>)"

text \<open>\<^verbatim>\<open>NewElement\<close>: whether the id was free.\<close>

definition new_element :: "int \<Rightarrow> factory \<Rightarrow> (access_error, bool \<times> factory) result" where
  "new_element k f =
     (if k < 1 then Inl OutOfChunk
      else let g = grow (chunk_of k) f
           in if held (chunks g ! chunk_of k) (place_in k) then Inr (False, g) else Inr (True, use_element k g))"

definition get_shape_id :: "int \<Rightarrow> factory \<Rightarrow> int" where
  "get_shape_id k f = get_attr (shape_ranges (chunks f ! chunk_of k)) (place_in k)"

definition set_shape_id :: "int \<Rightarrow> int \<Rightarrow> factory \<Rightarrow> factory" where
  "set_shape_id k s f =
     (let c = chunk_of k; ch = chunks f ! c
      in f\<lparr>chunks := (chunks f)[c := ch\<lparr>shape_ranges := fst (set_attr (place_in k) s (shape_ranges ch))\<rparr>]\<rparr>)"

text \<open>\<^verbatim>\<open>Free\<close> of the factory and of the chunk.\<close>

definition free_element :: "int \<Rightarrow> factory \<Rightarrow> (access_error, factory) result" where
  "free_element k f =
     (if \<not> find_element k f then Inl NullElement
      else let c = chunk_of k; i = place_in k; ch = chunks f ! c;
               has_holes = (1 < length (used_ranges ch));
               rs = fst (set_attr i False (used_ranges ch));
               g = set_shape_id k 0 (f\<lparr>chunks := (chunks f)[c := ch\<lparr>used_ranges := rs, held := (held ch)(i := False)\<rparr>]\<rparr>)
           in Inr (g\<lparr>open_chunks := (if has_holes then open_chunks g else insort_insert c (open_chunks g)),
                     nb_used := nb_used g - 1\<rparr>))"

text \<open>\<^verbatim>\<open>GetUnusedID\<close>: the first range that is not used.\<close>

definition unused_id :: "chunk \<Rightarrow> (access_error, int) result" where
  "unused_id ch = (case find (\<lambda>(f, u). \<not> u) (used_ranges ch) of
     None \<Rightarrow> Inl OutOfChunk | Some (f, u) \<Rightarrow> Inr (first_id ch + f))"

definition get_free_id :: "factory \<Rightarrow> (access_error, int \<times> factory) result" where
  "get_free_id f =
     (let g = (if open_chunks f = [] then push_chunk f else f)
      in bind_result (unused_id (chunks g ! hd (open_chunks g))) (\<lambda>k. Inr (k, g)))"

text \<open>The last chunk with used elements gives the greatest id, the first one the least; 0 for none.\<close>

definition get_max_id :: "factory \<Rightarrow> int" where
  "get_max_id f = (case find (\<lambda>ch. get_indices True (used_ranges ch) \<noteq> []) (rev (chunks f)) of
     None \<Rightarrow> 0 | Some ch \<Rightarrow> first_id ch + (snd (last (get_indices True (used_ranges ch))) - 1))"

definition get_min_id :: "factory \<Rightarrow> int" where
  "get_min_id f = (case find (\<lambda>ch. get_indices True (used_ranges ch) \<noteq> []) (chunks f) of
     None \<Rightarrow> 0 | Some ch \<Rightarrow> first_id ch + fst (hd (get_indices True (used_ranges ch))))"

text \<open>
  \<^verbatim>\<open>_ChunkIterator\<close>: what it returns in turn, chunk by chunk and range by range, up to a limit.
\<close>

definition range_ids :: "(chunk \<Rightarrow> 'a range_set) \<Rightarrow> 'a \<Rightarrow> chunk \<Rightarrow> int list" where
  "range_ids ranges v ch = map (\<lambda>i. first_id ch + i) (concat (map (\<lambda>(a, b). [a..b - 1]) (get_indices v (ranges ch))))"

definition iterate_used :: "(int \<Rightarrow> bool) \<Rightarrow> nat option \<Rightarrow> factory \<Rightarrow> int list" where
  "iterate_used P limit f =
     (let ids = filter P (concat (map (range_ids used_ranges True) (chunks f)))
      in case limit of None \<Rightarrow> ids | Some n \<Rightarrow> take n ids)"

definition iterate_shape :: "int \<Rightarrow> nat \<Rightarrow> int option \<Rightarrow> factory \<Rightarrow> int list" where
  "iterate_shape s limit first f =
     (let from = (case first of None \<Rightarrow> 0 | Some k \<Rightarrow> chunk_of k)
      in take limit (filter (\<lambda>k. find_element k f) (concat (map (range_ids shape_ranges s) (drop from (chunks f))))))"

section \<open>Compaction\<close>

text \<open>One step of the loop over the old ids: (the count of new ids, the factory).\<close>

definition compact_step :: "int \<Rightarrow> int \<Rightarrow> int \<times> factory \<Rightarrow> (access_error, int \<times> factory) result" where
  "compact_step nb old st =
     (let (n, f) = st
      in if \<not> find_element old f then Inr (n, f)
         else let new = n + 1
              in if old = new then Inr (new, f)
                 else bind_result (if find_element new f then Inr f
                                   else bind_result (new_element new f) (\<lambda>(fresh, g). Inr g)) (\<lambda>g.
                        let h = set_shape_id new (get_shape_id old g) g
                        in if nb < old then bind_result (free_element old h) (\<lambda>j. Inr (new, j)) else Inr (new, h)))"

definition compact :: "factory \<Rightarrow> (access_error, factory) result" where
  "compact f =
     (let nb = nb_used f; max_id = get_max_id f;
          nb_chunks = nat (nb div chunk_size + (if nb mod chunk_size \<noteq> 0 then 1 else 0))
      in bind_result
           (if nb = 0 then Inr (f\<lparr>chunks := []\<rparr>)
            else if nb = max_id then Inr f
            else bind_result (loop (compact_step nb) [1..max_id] (0, f)) (\<lambda>(n, g). Inr g)) (\<lambda>g.
           let kept = take nb_chunks (chunks g)
           in Inr (g\<lparr>chunks := kept,
                     open_chunks := (if kept \<noteq> [] \<and> 1 < length (used_ranges (last kept)) then [length kept - 1] else [])\<rparr>)))"

definition compact_changes_ids :: "factory \<Rightarrow> bool" where
  "compact_changes_ids f = (nb_used f \<noteq> get_max_id f)"

end
