(* ===== verification/IdFactoryFacts.thy ===== *)
theory IdFactoryFacts
  imports IdFactory
begin

text \<open>
  The factory as a finite set of ids with a sub-shape for each: the invariant that ties the ranges,
  the holders and the list of open chunks together, and every operation read through it.
\<close>

section \<open>Ids and places\<close>

lemma place_in_range [simp]: "0 \<le> place_in k" "place_in k < chunk_size"
  by (simp_all add: place_in_def chunk_size_def)

lemma id_of_place: "0 < k \<Longrightarrow> int (chunk_of k) * chunk_size + 1 + place_in k = k"
  by (simp add: chunk_of_def place_in_def chunk_size_def pos_imp_zdiv_nonneg_iff)

lemma place_of_id:
  "0 \<le> i \<Longrightarrow> i < chunk_size \<Longrightarrow> chunk_of (int c * chunk_size + 1 + i) = c"
  "0 \<le> i \<Longrightarrow> i < chunk_size \<Longrightarrow> place_in (int c * chunk_size + 1 + i) = i"
  by (simp_all add: chunk_of_def place_in_def chunk_size_def div_pos_pos_trivial mod_pos_pos_trivial)

lemma id_eq_iff: "0 < k \<Longrightarrow> 0 < j \<Longrightarrow> chunk_of k = chunk_of j \<Longrightarrow> (place_in k = place_in j) = (k = j)"
  using id_of_place by metis

lemma chunk_of_less: "0 < k \<Longrightarrow> (chunk_of k < c) = (k \<le> int c * chunk_size)"
  by (simp add: chunk_of_def chunk_size_def nat_less_iff) linarith

section \<open>The invariant\<close>

definition chunk_ok :: "nat \<Rightarrow> chunk \<Rightarrow> bool" where
  "chunk_ok c ch = (first_id ch = int c * chunk_size + 1 \<and> ranges_ok (used_ranges ch) \<and> ranges_ok (shape_ranges ch) \<and>
     (\<forall>i \<in> {0..<chunk_size}. get_attr (used_ranges ch) i = held ch i))"

definition has_unused :: "chunk \<Rightarrow> bool" where
  "has_unused ch = (\<exists>i \<in> {0..<chunk_size}. \<not> held ch i)"

text \<open>A place that is not used is on no sub-shape.\<close>

definition idle_ok :: "chunk \<Rightarrow> bool" where
  "idle_ok ch = (\<forall>i \<in> {0..<chunk_size}. \<not> held ch i \<longrightarrow> get_attr (shape_ranges ch) i = 0)"

definition used :: "factory \<Rightarrow> int set" where
  "used f = {k. find_element k f}"

definition factory_ok :: "factory \<Rightarrow> bool" where
  "factory_ok f =
     ((\<forall>c < length (chunks f). chunk_ok c (chunks f ! c)) \<and>
      (\<forall>c < length (chunks f). idle_ok (chunks f ! c)) \<and>
      sorted_wrt (<) (open_chunks f) \<and>
      set (open_chunks f) = {c. c < length (chunks f) \<and> has_unused (chunks f ! c)} \<and>
      finite (used f) \<and> nb_used f = int (card (used f)))"

lemma factory_ok_new: "factory_ok new_factory" "used new_factory = {}"
  by (auto simp: factory_ok_def new_factory_def used_def find_element_def)

lemma used_pos: "k \<in> used f \<Longrightarrow> 0 < k"
  by (simp add: used_def find_element_def)

lemma single_range:
  assumes "ranges_ok rs"
  shows "(length rs = 1) = (\<forall>i \<in> {0..<chunk_size}. get_attr rs i = get_attr rs 0)"
proof -
  obtain w rest where rs: "rs = (0, w) # rest" and linked: "linked 0 w rest"
    using assms by (cases rs; cases "hd rs") (auto simp: ranges_ok_Cons)
  have val: "get_attr rs i = value_at w rest i" if "0 \<le> i" for i
    using get_attr_at [OF assms that, of w] that by (simp add: rs)
  show ?thesis
  proof (cases rest)
    case Nil
    then show ?thesis using val by (simp add: rs)
  next
    case (Cons r more1)
    obtain g u where r: "r = (g, u)" by (cases r)
    from linked have l: "0 < g" "w \<noteq> u" "linked g u more1" "g < chunk_size" by (simp_all add: Cons r linked_iff)
    have "get_attr rs g = u" "get_attr rs 0 = w"
      using val [of g] val [of 0] l linked_ahead [OF l(3), of g u] by (simp_all add: Cons r)
    with l(2) have "get_attr rs g \<noteq> get_attr rs 0" by simp
    moreover have "g \<in> {0..<chunk_size}" using l(1,4) by simp
    ultimately show ?thesis by (auto simp: rs Cons simp del: One_nat_def)
  qed
qed

lemma chunk_full:
  assumes "chunk_ok c ch" and "0 \<le> i" "i < chunk_size" "held ch i"
  shows "(length (used_ranges ch) = 1) = (\<not> has_unused ch)"
proof -
  have same: "get_attr (used_ranges ch) j = held ch j" if "j \<in> {0..<chunk_size}" for j
    using assms(1) that by (simp add: chunk_ok_def)
  note single = single_range [of "used_ranges ch"]
  have ok: "ranges_ok (used_ranges ch)" using assms(1) by (simp add: chunk_ok_def)
  have i: "i \<in> {0..<chunk_size}" "0 \<in> {0..<chunk_size}" using assms(2,3) by (simp_all add: chunk_size_def)
  show ?thesis
  proof (cases "has_unused ch")
    case True
    then obtain j where j: "j \<in> {0..<chunk_size}" "\<not> held ch j" by (auto simp: has_unused_def)
    have "get_attr (used_ranges ch) j \<noteq> get_attr (used_ranges ch) i"
      unfolding same [OF j(1)] same [OF i(1)] using j(2) assms(4) by simp
    then have "length (used_ranges ch) \<noteq> 1" using single [OF ok] i j(1) by metis
    with True show ?thesis by simp
  next
    case False
    then have all: "held ch j" if "j \<in> {0..<chunk_size}" for j using that unfolding has_unused_def by blast
    have "\<forall>j \<in> {0..<chunk_size}. get_attr (used_ranges ch) j = get_attr (used_ranges ch) 0"
    proof
      fix j assume j: "j \<in> {0..<chunk_size}"
      show "get_attr (used_ranges ch) j = get_attr (used_ranges ch) 0"
        unfolding same [OF j] same [OF i(2)] by (simp add: all [OF j] all [OF i(2)])
    qed
    then have "length (used_ranges ch) = 1" by (rule iffD2 [OF single [OF ok]])
    with False show ?thesis by simp
  qed
qed

lemma ascending_insert: "sorted_wrt (<) xs \<Longrightarrow> sorted_wrt (<) (insort_insert x xs)" for xs :: "'a :: linorder list"
  by (simp add: strict_sorted_iff sorted_insort_insert distinct_insort_insert)

section \<open>Chunks are pushed\<close>

lemma push_chunk_ok:
  assumes "factory_ok f"
  shows "factory_ok (push_chunk f)" "used (push_chunk f) = used f"
    "k \<in> used f \<Longrightarrow> get_shape_id k (push_chunk f) = get_shape_id k f"
proof -
  have find: "find_element k (push_chunk f) = find_element k f" for k
    by (auto simp: find_element_def push_chunk_def nth_append)
  then show used: "used (push_chunk f) = used f" by (simp add: used_def)
  have new: "chunk_ok (length (chunks f)) (last (chunks (push_chunk f)))" "has_unused (last (chunks (push_chunk f)))"
    "idle_ok (last (chunks (push_chunk f)))"
    by (auto simp: push_chunk_def chunk_ok_def has_unused_def idle_ok_def ranges_ok_new chunk_size_def)
  show "factory_ok (push_chunk f)"
    using assms new unfolding factory_ok_def used
    by (auto simp: push_chunk_def nth_append less_Suc_eq set_insort_insert ascending_insert)
  show "get_shape_id k (push_chunk f) = get_shape_id k f" if "k \<in> used f"
    using that by (simp add: get_shape_id_def push_chunk_def nth_append used_def find_element_def)
qed

lemma grow_ok:
  assumes "factory_ok f"
  shows "factory_ok (grow c f)" "used (grow c f) = used f" "c < length (chunks (grow c f))"
    "k \<in> used f \<Longrightarrow> get_shape_id k (grow c f) = get_shape_id k f"
proof -
  have "factory_ok ((push_chunk ^^ n) f) \<and> used ((push_chunk ^^ n) f) = used f \<and>
      length (chunks ((push_chunk ^^ n) f)) = length (chunks f) + n \<and>
      (\<forall>k \<in> used f. get_shape_id k ((push_chunk ^^ n) f) = get_shape_id k f)" for n
  proof (induction n)
    case (Suc n)
    then have ok: "factory_ok ((push_chunk ^^ n) f)" by simp
    have "length (chunks (push_chunk g)) = Suc (length (chunks g))" for g by (simp add: push_chunk_def)
    with Suc push_chunk_ok [OF ok] show ?case by simp
  qed (simp add: assms)
  from this [of "Suc c - length (chunks f)"] show
    "factory_ok (grow c f)" "used (grow c f) = used f" "c < length (chunks (grow c f))"
    "k \<in> used f \<Longrightarrow> get_shape_id k (grow c f) = get_shape_id k f"
    by (simp_all add: grow_def)
qed

section \<open>Changing one chunk\<close>

text \<open>An element of a chunk that is there is used or freed: what changes is its holder.\<close>

lemma find_element_update:
  assumes "0 < k" and "chunk_of k < length (chunks f)"
    and "chunks g = (chunks f)[chunk_of k := ch]" and "held ch = (held (chunks f ! chunk_of k))(place_in k := b)"
  shows "find_element j g = (if j = k then b else find_element j f)"
proof (cases "0 < j \<and> chunk_of j = chunk_of k")
  case True
  then have "(place_in j = place_in k) = (j = k)" using id_eq_iff assms(1) by blast
  with True assms show ?thesis by (auto simp: find_element_def)
next
  case False
  with assms show ?thesis by (auto simp: find_element_def)
qed

lemma chunk_ok_update:
  assumes "chunk_ok c ch" and "0 \<le> i" and "i < chunk_size"
  shows "chunk_ok c (ch\<lparr>used_ranges := fst (set_attr i b (used_ranges ch)), held := (held ch)(i := b)\<rparr>)"
    and "chunk_ok c (ch\<lparr>shape_ranges := fst (set_attr i s (shape_ranges ch))\<rparr>)"
  using assms by (simp_all add: chunk_ok_def set_attr_refines)

lemma used_element:
  assumes ok: "factory_ok f" and k: "0 < k" "chunk_of k < length (chunks f)" "k \<notin> used f"
  shows "factory_ok (use_element k f)" "used (use_element k f) = insert k (used f)"
    "j \<in> used f \<Longrightarrow> get_shape_id j (use_element k f) = get_shape_id j f"
proof -
  let ?c = "chunk_of k" and ?i = "place_in k"
  let ?ch = "chunks f ! ?c"
  let ?rs = "fst (set_attr ?i True (used_ranges ?ch))"
  let ?new = "?ch\<lparr>used_ranges := ?rs, held := (held ?ch)(?i := True)\<rparr>"
  have chunks: "chunks (use_element k f) = (chunks f)[?c := ?new]" by (simp add: use_element_def Let_def)
  have find: "find_element j (use_element k f) = (j = k \<or> find_element j f)" for j
    using find_element_update [OF k(1,2) chunks, of True j] by simp
  then show used: "used (use_element k f) = insert k (used f)" by (auto simp: used_def)
  have old: "chunk_ok ?c ?ch" using ok k(2) by (simp add: factory_ok_def)
  have new: "chunk_ok ?c ?new" using chunk_ok_update(1) [OF old] by simp
  have full: "(length ?rs = 1) = (\<not> has_unused ?new)" using chunk_full [OF new, of ?i] by simp
  have was: "has_unused ?ch"
    using k by (auto simp: has_unused_def used_def find_element_def intro!: bexI [of _ ?i])
  have opened: "set (open_chunks f) = {c. c < length (chunks f) \<and> has_unused (chunks f ! c)}" "sorted_wrt (<) (open_chunks f)"
    using ok by (simp_all add: factory_ok_def)
  have open_new: "open_chunks (use_element k f) = (if length ?rs = 1 then remove1 ?c (open_chunks f) else open_chunks f)"
    by (simp add: use_element_def Let_def)
  have nth: "chunks (use_element k f) ! c = (if c = ?c then ?new else chunks f ! c)" for c
    using k(2) by (simp add: chunks nth_list_update)
  have len: "length (chunks (use_element k f)) = length (chunks f)" by (simp add: chunks)
  have "set (open_chunks (use_element k f)) =
      {c. c < length (chunks (use_element k f)) \<and> has_unused (chunks (use_element k f) ! c)}"
  proof (cases "length ?rs = 1")
    case True
    have "distinct (open_chunks f)" using opened(2) by (simp add: strict_sorted_iff)
    then have "set (open_chunks (use_element k f)) = set (open_chunks f) - {?c}"
      unfolding open_new using True by simp
    with full True show ?thesis unfolding len nth opened(1) by auto
  next
    case False
    then have "set (open_chunks (use_element k f)) = set (open_chunks f)" unfolding open_new by simp
    with full was False show ?thesis unfolding len nth opened(1) by auto
  qed
  moreover have "sorted_wrt (<) (open_chunks (use_element k f))"
    using opened(2) by (simp add: open_new strict_sorted_iff sorted_remove1)
  moreover have "\<forall>c < length (chunks (use_element k f)). chunk_ok c (chunks (use_element k f) ! c)"
    using ok new unfolding len nth by (simp add: factory_ok_def)
  moreover have "\<forall>c < length (chunks (use_element k f)). idle_ok (chunks (use_element k f) ! c)"
    using ok unfolding len nth by (simp add: factory_ok_def idle_ok_def)
  moreover have "nb_used (use_element k f) = int (card (used (use_element k f)))" "finite (used (use_element k f))"
    using ok k(3) unfolding used by (simp_all add: factory_ok_def use_element_def Let_def)
  ultimately show "factory_ok (use_element k f)" by (simp add: factory_ok_def)
  show "get_shape_id j (use_element k f) = get_shape_id j f"
    by (simp add: get_shape_id_def chunks nth_list_update k(2))
qed

lemma unused_shape:
  assumes "factory_ok f" and "0 < k" and "chunk_of k < length (chunks f)" and "k \<notin> used f"
  shows "get_shape_id k f = 0"
  using assms by (simp add: factory_ok_def idle_ok_def get_shape_id_def used_def find_element_def)

section \<open>The operations\<close>

lemma new_element_refines:
  assumes ok: "factory_ok f" and k: "0 < k"
  obtains g where "new_element k f = Inr (k \<notin> used f, g)" "factory_ok g" "used g = insert k (used f)"
    "\<forall>j \<in> used f. get_shape_id j g = get_shape_id j f" "k \<notin> used f \<Longrightarrow> get_shape_id k g = 0"
proof -
  note grown = grow_ok [OF ok, where c = "chunk_of k"]
  have "held (chunks (grow (chunk_of k) f) ! chunk_of k) (place_in k) = (k \<in> used f)"
    using grown(2,3) k by (auto simp: used_def find_element_def)
  with k have new: "new_element k f =
      Inr (k \<notin> used f, if k \<in> used f then grow (chunk_of k) f else use_element k (grow (chunk_of k) f))"
    by (simp add: new_element_def Let_def)
  show ?thesis
  proof (cases "k \<in> used f")
    case True
    with grown new show ?thesis by (intro that [of "grow (chunk_of k) f"]) auto
  next
    case False
    with grown have "k \<notin> used (grow (chunk_of k) f)" by simp
    note made = used_element [OF grown(1) k grown(3) this]
    have "get_shape_id k (grow (chunk_of k) f) = 0" using unused_shape [OF grown(1) k grown(3)] grown(2) False by simp
    then have "get_shape_id k (use_element k (grow (chunk_of k) f)) = 0"
      using made(3) grown(3) by (simp add: get_shape_id_def use_element_def Let_def nth_list_update)
    with made grown new False show ?thesis by (intro that [of "use_element k (grow (chunk_of k) f)"]) auto
  qed
qed

text \<open>Assigning a sub-shape changes that id's alone.\<close>

lemma set_shape_id_ok:
  assumes ok: "factory_ok f" and k: "k \<in> used f"
  shows "factory_ok (set_shape_id k s f)" "used (set_shape_id k s f) = used f"
    "j \<in> used f \<Longrightarrow> get_shape_id j (set_shape_id k s f) = (if j = k then s else get_shape_id j f)"
proof -
  let ?c = "chunk_of k" and ?i = "place_in k"
  let ?ch = "chunks f ! ?c"
  let ?new = "?ch\<lparr>shape_ranges := fst (set_attr ?i s (shape_ranges ?ch))\<rparr>"
  have c: "0 < k" "?c < length (chunks f)" using k by (simp_all add: used_def find_element_def)
  have chunks: "chunks (set_shape_id k s f) = (chunks f)[?c := ?new]" and
    rest: "open_chunks (set_shape_id k s f) = open_chunks f" "nb_used (set_shape_id k s f) = nb_used f"
    by (simp_all add: set_shape_id_def Let_def)
  have nth: "chunks (set_shape_id k s f) ! c = (if c = ?c then ?new else chunks f ! c)" for c
    using c(2) by (simp add: chunks nth_list_update)
  have len: "length (chunks (set_shape_id k s f)) = length (chunks f)" by (simp add: chunks)
  show used: "used (set_shape_id k s f) = used f" by (auto simp: used_def find_element_def len nth)
  have old: "chunk_ok ?c ?ch" using ok c(2) by (simp add: factory_ok_def)
  then have "chunk_ok ?c ?new" by (rule chunk_ok_update(2)) simp_all
  moreover have "idle_ok ?new"
    using ok old k c(2) by (auto simp: factory_ok_def idle_ok_def chunk_ok_def set_attr_refines used_def find_element_def)
  moreover have "has_unused (chunks (set_shape_id k s f) ! c) = has_unused (chunks f ! c)" for c
    by (simp add: nth has_unused_def)
  ultimately show "factory_ok (set_shape_id k s f)"
    using ok unfolding factory_ok_def used len rest by (simp add: nth)
  show "get_shape_id j (set_shape_id k s f) = (if j = k then s else get_shape_id j f)" if j: "j \<in> used f"
  proof (cases "chunk_of j = ?c")
    case True
    have "get_attr (fst (set_attr ?i s (shape_ranges ?ch))) (place_in j) =
        (if place_in j = ?i then s else get_attr (shape_ranges ?ch) (place_in j))"
      using old by (intro set_attr_refines(3)) (simp_all add: chunk_ok_def)
    moreover have "(place_in j = ?i) = (j = k)" by (rule id_eq_iff [OF used_pos [OF j] c(1) True])
    ultimately show ?thesis by (simp add: get_shape_id_def nth True)
  qed (auto simp: get_shape_id_def nth)
qed

lemma free_element_refines:
  assumes ok: "factory_ok f" and k: "k \<in> used f"
  obtains g where "free_element k f = Inr g" "factory_ok g" "used g = used f - {k}"
    "\<forall>j \<in> used g. get_shape_id j g = get_shape_id j f"
proof -
  let ?c = "chunk_of k" and ?i = "place_in k"
  let ?ch = "chunks f ! ?c"
  let ?rs = "fst (set_attr ?i False (used_ranges ?ch))"
  let ?freed = "?ch\<lparr>used_ranges := ?rs, held := (held ?ch)(?i := False)\<rparr>"
  let ?new = "?freed\<lparr>shape_ranges := fst (set_attr ?i 0 (shape_ranges ?freed))\<rparr>"
  have c: "0 < k" "?c < length (chunks f)" "held ?ch ?i" using k by (simp_all add: used_def find_element_def)
  from k obtain g where run: "free_element k f = Inr g" by (simp add: free_element_def used_def Let_def)
  then have chunks: "chunks g = (chunks f)[?c := ?new]"
    and opened: "open_chunks g = (if 1 < length (used_ranges ?ch) then open_chunks f else insort_insert ?c (open_chunks f))"
    and nb: "nb_used g = nb_used f - 1"
    using k c(2) by (auto simp: free_element_def used_def Let_def set_shape_id_def)
  have find: "find_element j g = (j \<noteq> k \<and> find_element j f)" for j
    using find_element_update [OF c(1,2) chunks, of False j] by simp
  then have used: "used g = used f - {k}" by (auto simp: used_def)
  have nth: "chunks g ! c = (if c = ?c then ?new else chunks f ! c)" for c
    using c(2) by (simp add: chunks nth_list_update)
  have len: "length (chunks g) = length (chunks f)" by (simp add: chunks)
  have old: "chunk_ok ?c ?ch" using ok c(2) by (simp add: factory_ok_def)
  have new: "chunk_ok ?c ?new" by (intro chunk_ok_update old) simp_all
  have "get_attr (shape_ranges ?new) i = (if i = ?i then 0 else get_attr (shape_ranges ?ch) i)" if "i \<in> {0..<chunk_size}" for i
    using old that by (simp add: chunk_ok_def set_attr_refines)
  moreover have "idle_ok ?ch" using ok c(2) by (simp add: factory_ok_def)
  ultimately have idle: "idle_ok ?new" by (auto simp: idle_ok_def)
  have hole: "has_unused ?new" by (auto simp: has_unused_def intro: bexI [of _ ?i])
  have "used_ranges ?ch \<noteq> []" using old by (auto simp: chunk_ok_def)
  then have "(1 < length (used_ranges ?ch)) = has_unused ?ch"
    using chunk_full [OF old _ _ c(3)] by (cases "used_ranges ?ch") auto
  moreover have was: "set (open_chunks f) = {c. c < length (chunks f) \<and> has_unused (chunks f ! c)}" "sorted_wrt (<) (open_chunks f)"
    using ok by (simp_all add: factory_ok_def)
  ultimately have "set (open_chunks g) = insert ?c (set (open_chunks f))"
    unfolding opened using c(2) by (auto simp: set_insort_insert)
  then have "set (open_chunks g) = {c. c < length (chunks g) \<and> has_unused (chunks g ! c)}"
    unfolding len nth was(1) using hole c(2) by auto
  moreover have "sorted_wrt (<) (open_chunks g)" using was(2) by (simp add: opened ascending_insert)
  moreover have "\<forall>c < length (chunks g). chunk_ok c (chunks g ! c)" "\<forall>c < length (chunks g). idle_ok (chunks g ! c)"
    using ok new idle unfolding len nth by (simp_all add: factory_ok_def)
  moreover have fin: "finite (used f)" "nb_used f = int (card (used f))" using ok by (simp_all add: factory_ok_def)
  moreover have "0 < card (used f)" using fin(1) k by (auto simp: card_gt_0_iff)
  then have "nb_used g = int (card (used g))" unfolding used nb fin(2) using k fin(1) by simp
  ultimately have ok': "factory_ok g" by (simp add: factory_ok_def used)
  have "get_shape_id j g = get_shape_id j f" if j: "j \<in> used g" for j
  proof (cases "chunk_of j = ?c")
    case True
    have "j \<noteq> k" "0 < j" using j used used_pos [OF j] by auto
    then have "place_in j \<noteq> ?i" using id_eq_iff [of j k] c(1) True by simp
    then have "get_attr (fst (set_attr ?i 0 (shape_ranges ?ch))) (place_in j) = get_attr (shape_ranges ?ch) (place_in j)"
      using old set_attr_refines(3) [of "shape_ranges ?ch" ?i "place_in j" 0] by (simp add: chunk_ok_def)
    then show ?thesis by (simp add: get_shape_id_def nth True)
  qed (auto simp: get_shape_id_def nth)
  with run ok' used show ?thesis by (intro that) auto
qed

section \<open>The elements in order\<close>

lemma shifted_upto: "map (\<lambda>i. a + i) [0..n - 1] = [a..a + n - 1]" for a n :: int
proof (induction n rule: int_induct [where k = 0])
  case (step1 n)
  then show ?case using upto_rec2 [of 0 n] upto_rec2 [of a "a + n"] by (simp add: add.assoc)
next
  case (step2 n)
  then show ?case by simp
qed simp

text \<open>The ids of a chunk whose attribute has the value, in terms of the places.\<close>

lemma range_ids_filter:
  assumes "ranges_ok (ranges ch)" and "first_id ch = int c * chunk_size + 1"
  shows "range_ids ranges v ch =
    filter (\<lambda>k. get_attr (ranges ch) (place_in k) = v) [int c * chunk_size + 1..int (Suc c) * chunk_size]"
proof -
  have "[int c * chunk_size + 1..int (Suc c) * chunk_size] = map (\<lambda>i. int c * chunk_size + 1 + i) [0..chunk_size - 1]"
    unfolding shifted_upto by (simp add: algebra_simps)
  moreover have "filter (\<lambda>i. get_attr (ranges ch) i = v) [0..chunk_size - 1] =
      filter (\<lambda>i. get_attr (ranges ch) (place_in (int c * chunk_size + 1 + i)) = v) [0..chunk_size - 1]"
    by (intro filter_cong) (simp_all add: place_of_id)
  ultimately show ?thesis
    using get_indices_places [OF assms(1), of v] by (simp add: range_ids_def assms(2) filter_map comp_def)
qed

lemma chunk_of_within: "k \<in> set [int c * chunk_size + 1..int (Suc c) * chunk_size] \<Longrightarrow> 0 < k \<and> chunk_of k = c"
proof -
  assume k: "k \<in> set [int c * chunk_size + 1..int (Suc c) * chunk_size]"
  then have "k = int c * chunk_size + 1 + (k - (int c * chunk_size + 1))" "0 \<le> k - (int c * chunk_size + 1)"
    "k - (int c * chunk_size + 1) < chunk_size" by (simp_all add: algebra_simps)
  then show ?thesis using place_of_id(1) [of "k - (int c * chunk_size + 1)" c] by (simp add: chunk_size_def)
qed

lemma ids_in_order:
  assumes ok: "\<forall>c < length (chunks f). ranges_ok (ranges (chunks f ! c)) \<and> first_id (chunks f ! c) = int c * chunk_size + 1"
  shows "concat (map (range_ids ranges v) (chunks f)) =
    filter (\<lambda>k. get_attr (ranges (chunks f ! chunk_of k)) (place_in k) = v) [1..int (length (chunks f)) * chunk_size]"
proof -
  have "concat (map (range_ids ranges v) (take n (chunks f))) =
      filter (\<lambda>k. get_attr (ranges (chunks f ! chunk_of k)) (place_in k) = v) [1..int n * chunk_size]"
    if "n \<le> length (chunks f)" for n
    using that
  proof (induction n)
    case (Suc n)
    then have n: "n < length (chunks f)" by simp
    let ?ids = "[int n * chunk_size + 1..int (Suc n) * chunk_size]"
    have "range_ids ranges v (chunks f ! n) = filter (\<lambda>k. get_attr (ranges (chunks f ! n)) (place_in k) = v) ?ids"
      using ok n by (intro range_ids_filter) simp_all
    also have "\<dots> = filter (\<lambda>k. get_attr (ranges (chunks f ! chunk_of k)) (place_in k) = v) ?ids"
      using chunk_of_within [of _ n] by (intro filter_cong) simp_all
    finally have last: "range_ids ranges v (chunks f ! n) = \<dots>" .
    have "[1..int (Suc n) * chunk_size] = [1..int n * chunk_size] @ ?ids"
      using upto_append [of 1 "int n * chunk_size + 1" "int (Suc n) * chunk_size + 1"] by (simp add: chunk_size_def)
    then show ?case using Suc.IH n last by (simp add: take_Suc_conv_app_nth)
  qed simp
  from this [of "length (chunks f)"] show ?thesis by simp
qed

lemma all_ids:
  assumes "factory_ok f"
  shows "concat (map (range_ids used_ranges True) (chunks f)) =
    filter (\<lambda>k. find_element k f) [1..int (length (chunks f)) * chunk_size]"
proof -
  have "concat (map (range_ids used_ranges True) (chunks f)) =
      filter (\<lambda>k. get_attr (used_ranges (chunks f ! chunk_of k)) (place_in k) = True) [1..int (length (chunks f)) * chunk_size]"
    using assms by (intro ids_in_order) (simp add: factory_ok_def chunk_ok_def)
  also have "\<dots> = filter (\<lambda>k. find_element k f) [1..int (length (chunks f)) * chunk_size]"
  proof (rule filter_cong [OF refl])
    fix k assume "k \<in> set [1..int (length (chunks f)) * chunk_size]"
    then have k: "0 < k" "chunk_of k < length (chunks f)" by (simp_all add: chunk_of_less)
    then have "chunk_ok (chunk_of k) (chunks f ! chunk_of k)" using assms by (simp add: factory_ok_def)
    with k show "(get_attr (used_ranges (chunks f ! chunk_of k)) (place_in k) = True) = find_element k f"
      by (simp add: find_element_def chunk_ok_def)
  qed
  finally show ?thesis .
qed

lemma used_bounded: "k \<in> used f \<Longrightarrow> k \<in> {1..int (length (chunks f)) * chunk_size}"
  using chunk_of_less [of k "length (chunks f)"] by (auto simp: used_def find_element_def)

text \<open>The iterator returns the ids in use, ascending.\<close>

lemma bounded_used: "filter (\<lambda>k. find_element k f) [1..int (length (chunks f)) * chunk_size] = sorted_list_of_set (used f)"
proof -
  let ?ids = "filter (\<lambda>k. find_element k f) [1..int (length (chunks f)) * chunk_size]"
  have "set ?ids = used f" using used_bounded [of _ f] by (auto simp: used_def)
  moreover have "sorted_wrt (<) ?ids" by (intro sorted_wrt_filter sorted_wrt_upto)
  ultimately show ?thesis by (metis sorted_list_of_set.idem_if_sorted_distinct strict_sorted_iff)
qed

lemma iterate_used_sorted:
  assumes "factory_ok f"
  shows "iterate_used P None f = filter P (sorted_list_of_set (used f))"
    and "iterate_used P (Some n) f = take n (filter P (sorted_list_of_set (used f)))"
  by (simp_all add: iterate_used_def Let_def all_ids [OF assms] bounded_used)

text \<open>The elements of a sub-shape, ascending.\<close>

lemma iterate_shape_sorted:
  assumes "factory_ok f"
  shows "iterate_shape s n None f = take n (filter (\<lambda>k. get_shape_id k f = s) (sorted_list_of_set (used f)))"
proof -
  have "concat (map (range_ids shape_ranges s) (chunks f)) =
      filter (\<lambda>k. get_shape_id k f = s) [1..int (length (chunks f)) * chunk_size]"
    using assms unfolding get_shape_id_def by (intro ids_in_order) (simp add: factory_ok_def chunk_ok_def)
  then show ?thesis by (simp add: iterate_shape_def conj_commute flip: bounded_used)
qed

text \<open>\<^verbatim>\<open>GetFreeID\<close> gives the least id that is not in use.\<close>

lemma first_unused:
  assumes "chunk_ok c ch" and "has_unused ch"
  obtains i where "unused_id ch = Inr (int c * chunk_size + 1 + i)" "0 \<le> i" "i < chunk_size" "\<not> held ch i"
    "\<forall>j \<in> {0..<i}. held ch j"
proof -
  have ok: "ranges_ok (used_ranges ch)" and same: "\<forall>i \<in> {0..<chunk_size}. get_attr (used_ranges ch) i = held ch i"
    using assms(1) by (simp_all add: chunk_ok_def)
  obtain w rest where rs: "used_ranges ch = (0, w) # rest" and linked: "linked 0 w rest"
    using ok by (cases "used_ranges ch"; cases "hd (used_ranges ch)") (auto simp: ranges_ok_Cons)
  have held: "held ch i = value_at w rest i" if "0 \<le> i" "i < chunk_size" for i
    using same get_attr_at [OF ok that(1), of w] that by (simp add: rs)
  show ?thesis
  proof (cases w)
    case False
    then have "unused_id ch = Inr (int c * chunk_size + 1 + 0)"
      using assms(1) by (simp add: unused_id_def rs chunk_ok_def)
    moreover have "\<not> held ch 0" using held [of 0] linked linked_ahead [OF linked, of 0 w] False by (simp add: chunk_size_def)
    ultimately show ?thesis by (intro that [of 0]) (simp_all add: chunk_size_def)
  next
    case True
    show ?thesis
    proof (cases rest)
      case Nil
      then show ?thesis using assms(2) held True by (auto simp: has_unused_def)
    next
      case (Cons r more1)
      obtain g u where r: "r = (g, u)" by (cases r)
      from linked True have l: "0 < g" "\<not> u" "linked g u more1" "g < chunk_size" by (auto simp: Cons r linked_iff)
      have "unused_id ch = Inr (int c * chunk_size + 1 + g)"
        using assms(1) True l(2) by (simp add: unused_id_def rs Cons r chunk_ok_def)
      moreover have "\<not> held ch g" using held [of g] l linked_ahead [OF l(3), of g u] by (simp add: Cons r)
      moreover have "held ch j" if "j \<in> {0..<g}" for j
        using held [of j] that l(4) True by (simp add: Cons r)
      ultimately show ?thesis using l by (intro that [of g]) auto
    qed
  qed
qed

lemma open_chunks_iff:
  assumes "factory_ok f" and "0 < k"
  shows "k \<notin> used f \<Longrightarrow> chunk_of k < length (chunks f) \<Longrightarrow> chunk_of k \<in> set (open_chunks f)"
  using assms by (auto simp: factory_ok_def used_def find_element_def has_unused_def intro!: bexI [of _ "place_in k"])

lemma get_free_id_refines:
  assumes ok: "factory_ok f"
  obtains k g where "get_free_id f = Inr (k, g)" "factory_ok g" "used g = used f" "0 < k" "k \<notin> used f"
    "{1..<k} \<subseteq> used f" "\<forall>j \<in> used f. get_shape_id j g = get_shape_id j f"
proof -
  let ?g = "if open_chunks f = [] then push_chunk f else f"
  have g: "factory_ok ?g" "used ?g = used f" "\<forall>j \<in> used f. get_shape_id j ?g = get_shape_id j f"
    using push_chunk_ok [OF ok] ok by simp_all
  have "open_chunks ?g \<noteq> []" by (simp add: push_chunk_def insort_insert_key_def)
  then obtain c cs where c: "open_chunks ?g = c # cs" by (cases "open_chunks ?g") auto
  have opened: "set (open_chunks ?g) = {c. c < length (chunks ?g) \<and> has_unused (chunks ?g ! c)}" "sorted_wrt (<) (open_chunks ?g)"
    using g(1) unfolding factory_ok_def by blast+
  have least: "\<forall>d \<in> set (open_chunks ?g). c \<le> d" using opened(2) unfolding c by auto
  have "c \<in> set (open_chunks ?g)" unfolding c by simp
  then have "c < length (chunks ?g)" "has_unused (chunks ?g ! c)" unfolding opened(1) by simp_all
  moreover then have "chunk_ok c (chunks ?g ! c)" using g(1) unfolding factory_ok_def by blast
  ultimately obtain i where i: "unused_id (chunks ?g ! c) = Inr (int c * chunk_size + 1 + i)" "0 \<le> i" "i < chunk_size"
      "\<not> held (chunks ?g ! c) i" "\<forall>j \<in> {0..<i}. held (chunks ?g ! c) j"
    using first_unused by metis
  let ?k = "int c * chunk_size + 1 + i"
  have k: "chunk_of ?k = c" "place_in ?k = i" "0 < ?k"
    using place_of_id [OF i(2,3)] i(2) by (simp_all add: add_nonneg_pos chunk_size_def)
  have run: "get_free_id f = Inr (?k, ?g)"
    unfolding get_free_id_def Let_def c list.sel i(1) by simp
  have "?k \<notin> used ?g" using i(4) by (simp add: used_def find_element_def k)
  moreover have "j \<in> used ?g" if j: "j \<in> {1..<?k}" for j
  proof (rule ccontr)
    assume free: "j \<notin> used ?g"
    have "0 < j" "j < ?k" using j by simp_all
    then have "chunk_of j \<le> chunk_of ?k" unfolding chunk_of_def by (intro nat_mono zdiv_mono1) (simp_all add: chunk_size_def)
    then have le: "chunk_of j \<le> c" unfolding k(1) .
    with \<open>c < length (chunks ?g)\<close> have "chunk_of j < length (chunks ?g)" by simp
    from open_chunks_iff [OF g(1) \<open>0 < j\<close> free this] least le have same: "chunk_of j = c" by force
    then have "place_in j < i" using id_of_place [OF \<open>0 < j\<close>] \<open>j < ?k\<close> by simp
    then have "held (chunks ?g ! c) (place_in j)" using i(5) by simp
    with free \<open>0 < j\<close> same \<open>c < length (chunks ?g)\<close> show False by (simp add: used_def find_element_def)
  qed
  ultimately show ?thesis using g k(3) run by (intro that [of ?k ?g]) auto
qed

text \<open>The greatest id in use, and the least.\<close>

lemma concat_last_nonempty:
  "case find (\<lambda>x. g x \<noteq> []) (rev xs) of
     None \<Rightarrow> concat (map g xs) = []
   | Some x \<Rightarrow> x \<in> set xs \<and> g x \<noteq> [] \<and> concat (map g xs) \<noteq> [] \<and> last (concat (map g xs)) = last (g x)"
proof (induction xs rule: rev_induct)
  case (snoc x xs)
  then show ?case by (cases "g x = []") (auto split: option.splits)
qed simp

lemma concat_first_nonempty:
  "case find (\<lambda>x. g x \<noteq> []) xs of
     None \<Rightarrow> concat (map g xs) = []
   | Some x \<Rightarrow> x \<in> set xs \<and> g x \<noteq> [] \<and> concat (map g xs) \<noteq> [] \<and> hd (concat (map g xs)) = hd (g x)"
  by (induction xs) (auto split: option.splits)

lemma upto_ends: "a \<le> b \<Longrightarrow> [a..b] \<noteq> [] \<and> hd [a..b] = a \<and> last [a..b] = b"
  using upto_rec1 [of a b] upto_rec2 [of a b] by (metis last_snoc list.discI list.sel(1))

lemma range_ids_ends:
  assumes "ranges_ok (ranges ch)"
  shows "(range_ids ranges v ch = []) = (get_indices v (ranges ch) = [])"
    "get_indices v (ranges ch) \<noteq> [] \<Longrightarrow> last (range_ids ranges v ch) = first_id ch + (snd (last (get_indices v (ranges ch))) - 1)"
    "get_indices v (ranges ch) \<noteq> [] \<Longrightarrow> hd (range_ids ranges v ch) = first_id ch + fst (hd (get_indices v (ranges ch)))"
proof -
  let ?xs = "get_indices v (ranges ch)" and ?r = "\<lambda>(a, b). [a..b - 1]"
  have less: "a < b" if "(a, b) \<in> set ?xs" for a b using get_indices_within [OF assms that] by simp
  have nonempty: "?r x \<noteq> [] \<and> hd (?r x) = fst x \<and> last (?r x) = snd x - 1" if "x \<in> set ?xs" for x
    using less [of "fst x" "snd x"] that upto_ends [of "fst x" "snd x - 1"] by (simp add: case_prod_unfold)
  have "concat (map ?r ?xs) = [] \<longleftrightarrow> ?xs = []" using nonempty by (cases ?xs) auto
  then show empty: "(range_ids ranges v ch = []) = (?xs = [])" by (simp add: range_ids_def)
  show "last (range_ids ranges v ch) = first_id ch + (snd (last ?xs) - 1)" if some: "?xs \<noteq> []"
  proof -
    obtain ys y where ys: "?xs = ys @ [y]" using some by (metis rev_exhaust)
    then have y: "?r y \<noteq> []" "last (?r y) = snd y - 1" using nonempty [of y] by simp_all
    then show ?thesis by (simp add: range_ids_def ys last_map case_prod_unfold)
  qed
  show "hd (range_ids ranges v ch) = first_id ch + fst (hd ?xs)" if some: "?xs \<noteq> []"
  proof -
    obtain y ys where ys: "?xs = y # ys" using some by (cases ?xs) auto
    then have y: "?r y \<noteq> []" "hd (?r y) = fst y" using nonempty [of y] by simp_all
    then show ?thesis by (simp add: range_ids_def ys hd_map case_prod_unfold)
  qed
qed

lemma used_in_order:
  assumes "factory_ok f"
  shows "concat (map (range_ids used_ranges True) (chunks f)) = sorted_list_of_set (used f)"
  using iterate_used_sorted(1) [OF assms, of "\<lambda>k. True"] by (simp add: iterate_used_def)

lemma sorted_ends:
  assumes "sorted xs" and "xs \<noteq> []"
  shows "last xs = Max (set xs)" "hd xs = Min (set xs)"
proof -
  from assms(2) obtain ys y where ys: "xs = ys @ [y]" by (metis rev_exhaust)
  with assms(1) show "last xs = Max (set xs)" by (intro Max_eqI [symmetric]) (auto simp: sorted_append)
  from assms(2) obtain z zs where "xs = z # zs" by (cases xs) auto
  with assms(1) show "hd xs = Min (set xs)" by (intro Min_eqI [symmetric]) auto
qed

lemma get_max_id_refines:
  assumes "factory_ok f"
  shows "get_max_id f = (if used f = {} then 0 else Max (used f))"
    and "get_min_id f = (if used f = {} then 0 else Min (used f))"
proof -
  let ?g = "range_ids used_ranges True" and ?P = "\<lambda>ch. get_indices True (used_ranges ch) \<noteq> []"
  have ok: "ranges_ok (used_ranges ch)" if "ch \<in> set (chunks f)" for ch
    using assms that by (auto simp: factory_ok_def chunk_ok_def in_set_conv_nth)
  have same: "find ?P cs = find (\<lambda>ch. ?g ch \<noteq> []) cs" if "set cs \<subseteq> set (chunks f)" for cs
    using range_ids_ends(1) [OF ok] that by (intro find_cong) auto
  have fin: "finite (used f)" using assms by (simp add: factory_ok_def)
  note order = used_in_order [OF assms] and ends = sorted_ends [of "sorted_list_of_set (used f)"]
  show "get_max_id f = (if used f = {} then 0 else Max (used f))"
    using concat_last_nonempty [of ?g "chunks f"] ends(1) fin range_ids_ends [OF ok]
    by (auto simp: get_max_id_def same order split: option.splits)
  show "get_min_id f = (if used f = {} then 0 else Min (used f))"
    using concat_first_nonempty [of ?g "chunks f"] ends(2) fin range_ids_ends [OF ok]
    by (auto simp: get_min_id_def same order split: option.splits)
qed

end
