(* ===== verification/CompactFacts.thy ===== *)
theory CompactFacts
  imports IdFactoryFacts
begin

text \<open>
  Compaction: the elements keep their order and their sub-shapes, and their ids become 1 up to
  their number.
\<close>

section \<open>Ids below a bound\<close>

definition upto_id :: "int set \<Rightarrow> int \<Rightarrow> int set" where
  "upto_id A m = {k \<in> A. k \<le> m}"

lemma upto_id_step: "upto_id A (m + 1) = (if m + 1 \<in> A then insert (m + 1) (upto_id A m) else upto_id A m)"
proof -
  have "k \<le> m + 1 \<longleftrightarrow> k \<le> m \<or> k = m + 1" for k by arith
  then show ?thesis by (auto simp: upto_id_def)
qed

lemma card_upto_id_step: "finite A \<Longrightarrow> card (upto_id A (m + 1)) = card (upto_id A m) + (if m + 1 \<in> A then 1 else 0)"
  unfolding upto_id_step by (simp add: upto_id_def)

lemma card_upto_id_le: "finite A \<Longrightarrow> A \<subseteq> {0<..} \<Longrightarrow> 0 \<le> m \<Longrightarrow> int (card (upto_id A m)) \<le> m"
proof -
  assume A: "finite A" "A \<subseteq> {0<..}" "0 \<le> m"
  then have "upto_id A m \<subseteq> {1..m}" by (auto simp: upto_id_def)
  then have "card (upto_id A m) \<le> card {1..m}" by (intro card_mono) simp_all
  with A(3) show ?thesis by simp
qed

text \<open>The id after \<open>m\<close> has its number among the ids as its place in the order.\<close>

lemma nth_upto_id:
  assumes "finite A" and "m + 1 \<in> A"
  shows "sorted_list_of_set A ! card (upto_id A m) = m + 1" "card (upto_id A m) < card A"
proof -
  have split: "sorted_list_of_set A = sorted_list_of_set (upto_id A m) @ sorted_list_of_set {k \<in> A. m < k}"
    using assms(1) by (intro sorted_distinct_set_unique) (auto simp: sorted_append upto_id_def)
  have "Min {k \<in> A. m < k} = m + 1" using assms by (intro Min_eqI) auto
  moreover have "{k \<in> A. m < k} \<noteq> {}" using assms(2) by auto
  ultimately have "hd (sorted_list_of_set {k \<in> A. m < k}) = m + 1"
    using sorted_ends(2) [of "sorted_list_of_set {k \<in> A. m < k}"] assms(1) by simp
  then show "sorted_list_of_set A ! card (upto_id A m) = m + 1"
    using \<open>{k \<in> A. m < k} \<noteq> {}\<close> assms(1) by (simp add: split nth_append hd_conv_nth upto_id_def)
  have "m + 1 \<notin> upto_id A m" "upto_id A m \<subseteq> A" by (auto simp: upto_id_def)
  with assms(2) have "upto_id A m \<subset> A" by blast
  then show "card (upto_id A m) < card A" using assms(1) by (rule psubset_card_mono [rotated])
qed

section \<open>The loop\<close>

text \<open>What holds of the factory \<open>g\<close> when the ids of \<open>f\<close> up to \<open>m\<close> were renumbered.\<close>

definition compacted_to :: "factory \<Rightarrow> int \<Rightarrow> int \<Rightarrow> factory \<Rightarrow> bool" where
  "compacted_to f m n g =
     (factory_ok g \<and> n = int (card (upto_id (used f) m)) \<and>
      used g = {1..n} \<union> {k \<in> used f. m < k \<or> k \<le> nb_used f} \<and>
      (\<forall>j \<in> {1..n}. get_shape_id j g = get_shape_id (sorted_list_of_set (used f) ! nat (j - 1)) f) \<and>
      (\<forall>k \<in> used f. m < k \<longrightarrow> get_shape_id k g = get_shape_id k f))"

lemma compacted_to_facts:
  assumes ok: "factory_ok f" and m: "0 \<le> m" and before: "compacted_to f m n g"
  shows "finite (used f)" "n = int (card (upto_id (used f) m))" "n \<le> m" "0 \<le> n"
    and "find_element (m + 1) g = (m + 1 \<in> used f)"
proof -
  have fin: "finite (used f)" "used f \<subseteq> {0<..}" using ok used_pos by (auto simp: factory_ok_def)
  then show "finite (used f)" by blast
  show n: "n = int (card (upto_id (used f) m))" "n \<le> m" "0 \<le> n"
    using before card_upto_id_le [OF fin m] by (simp_all add: compacted_to_def)
  have "used g = {1..n} \<union> {k \<in> used f. m < k \<or> k \<le> nb_used f}"
    using before unfolding compacted_to_def by blast
  moreover have "find_element (m + 1) g = (m + 1 \<in> used g)" by (simp add: used_def)
  ultimately show "find_element (m + 1) g = (m + 1 \<in> used f)" using n(2) by auto
qed

lemma beyond_step: "(m < k) = (k = m + 1 \<or> m + 1 < k)" for k m :: int
  by arith

lemma ivl_step: "0 \<le> n \<Longrightarrow> {1..n + 1} = insert (n + 1) {1..n}" for n :: int
  by auto

text \<open>An id that is not in use: the loop goes on.\<close>

lemma compacted_to_skip:
  assumes "factory_ok f" and before: "compacted_to f m n g" and free: "m + 1 \<notin> used f"
  shows "compacted_to f (m + 1) n g"
proof -
  have fin: "finite (used f)" using assms(1) by (simp add: factory_ok_def)
  have "m + 1 < k \<longleftrightarrow> m < k" if "k \<in> used f" for k using that free by (metis beyond_step)
  then have "{k \<in> used f. m + 1 < k \<or> k \<le> nb_used f} = {k \<in> used f. m < k \<or> k \<le> nb_used f}" by blast
  with before card_upto_id_step [OF fin, of m] free show ?thesis by (simp add: compacted_to_def)
qed

text \<open>An id in use takes the next new id: what has to hold of the factory then.\<close>

lemma compacted_to_next:
  assumes ok: "factory_ok f" and m: "0 \<le> m" and before: "compacted_to f m n g" and here: "m + 1 \<in> used f"
    and h: "factory_ok h" "used h = {1..n + 1} \<union> {k \<in> used f. m + 1 < k \<or> k \<le> nb_used f}"
    and same: "\<forall>j \<in> {1..n}. get_shape_id j h = get_shape_id j g"
    and moved: "get_shape_id (n + 1) h = get_shape_id (m + 1) f"
    and kept: "\<forall>k \<in> used f. m + 1 < k \<longrightarrow> get_shape_id k h = get_shape_id k g"
  shows "compacted_to f (m + 1) (n + 1) h"
proof -
  note facts = compacted_to_facts [OF ok m before]
  have "n + 1 = int (card (upto_id (used f) (m + 1)))"
    using card_upto_id_step [OF facts(1), of m] here facts(2) by simp
  moreover have "get_shape_id (sorted_list_of_set (used f) ! nat (n + 1 - 1)) f = get_shape_id (m + 1) f"
    using nth_upto_id(1) [OF facts(1) here] facts(2) by simp
  with before same moved have "\<forall>j \<in> {1..n + 1}. get_shape_id j h = get_shape_id (sorted_list_of_set (used f) ! nat (j - 1)) f"
    unfolding ivl_step [OF facts(4)] compacted_to_def by simp
  moreover have "\<forall>k \<in> used f. m + 1 < k \<longrightarrow> get_shape_id k h = get_shape_id k f"
    using before kept unfolding compacted_to_def by simp
  ultimately show ?thesis using h by (simp add: compacted_to_def)
qed

text \<open>The new id's element: found, or made.\<close>

lemma make_element:
  assumes "factory_ok g" and "0 < k"
  obtains h where "(if find_element k g then Inr g else bind_result (new_element k g) (\<lambda>(fresh, h). Inr h)) = Inr h"
    "factory_ok h" "used h = insert k (used g)" "\<forall>j \<in> used g. get_shape_id j h = get_shape_id j g"
proof (cases "k \<in> used g")
  case True
  with assms(1) show ?thesis by (intro that [of g]) (auto simp: used_def)
next
  case False
  obtain h where "new_element k g = Inr (k \<notin> used g, h)" "factory_ok h" "used h = insert k (used g)"
      "\<forall>j \<in> used g. get_shape_id j h = get_shape_id j g"
    using new_element_refines [OF assms] by blast
  with False show ?thesis by (intro that [of h]) (auto simp: used_def)
qed

lemma compact_move:
  assumes ok: "factory_ok f" and m: "0 \<le> m" and before: "compacted_to f m n g" and here: "m + 1 \<in> used f"
    and less: "n < m"
  shows "\<exists>h. compact_step (nb_used f) (m + 1) (n, g) = Inr (n + 1, h) \<and> compacted_to f (m + 1) (n + 1) h"
proof -
  note facts = compacted_to_facts [OF ok m before]
  have g: "factory_ok g" "used g = {1..n} \<union> {k \<in> used f. m < k \<or> k \<le> nb_used f}"
    and shapes: "\<forall>k \<in> used f. m < k \<longrightarrow> get_shape_id k g = get_shape_id k f"
    using before unfolding compacted_to_def by blast+
  have "0 < n + 1" using facts(4) by simp
  obtain g1 where g1: "(if find_element (n + 1) g then Inr g else bind_result (new_element (n + 1) g) (\<lambda>(fresh, h). Inr h)) = Inr g1"
    "factory_ok g1" "used g1 = insert (n + 1) (used g)" "\<forall>j \<in> used g. get_shape_id j g1 = get_shape_id j g"
    using make_element [OF g(1) \<open>0 < n + 1\<close>] by blast
  let ?g2 = "set_shape_id (n + 1) (get_shape_id (m + 1) g1) g1"
  have "m + 1 \<in> used g" using here unfolding g(2) by simp
  then have old: "get_shape_id (m + 1) g1 = get_shape_id (m + 1) f" using g1(4) shapes here by simp
  have "n + 1 \<in> used g1" using g1(3) by simp
  note g2 = set_shape_id_ok [OF g1(2) this, where s = "get_shape_id (m + 1) g1"]
  have used2: "used ?g2 = {1..n + 1} \<union> {k \<in> used f. m < k \<or> k \<le> nb_used f}"
    unfolding g2(2) g1(3) g(2) ivl_step [OF facts(4)] by simp
  have moved: "get_shape_id (n + 1) ?g2 = get_shape_id (m + 1) f" using g2(3) [where j = "n + 1"] g1(3) old by simp
  have same: "get_shape_id j ?g2 = get_shape_id j g" if "j \<in> used g" "j \<noteq> n + 1" for j
    using g2(3) [where j = j] g1(3,4) that by simp
  have low: "\<forall>j \<in> {1..n}. get_shape_id j ?g2 = get_shape_id j g" using same g(2) by simp
  have high: "\<forall>k \<in> used f. m + 1 < k \<longrightarrow> get_shape_id k ?g2 = get_shape_id k g" using same g(2) less by simp
  note next_ok = compacted_to_next [OF ok m before here]
  have found: "find_element (m + 1) g" using facts(5) here by simp
  show ?thesis
  proof (cases "nb_used f < m + 1")
    case gone: True
    have in2: "m + 1 \<in> used ?g2" using \<open>m + 1 \<in> used g\<close> unfolding g2(2) g1(3) by simp
    obtain h where h: "free_element (m + 1) ?g2 = Inr h" "factory_ok h"
      "used h = used ?g2 - {m + 1}" "\<forall>j \<in> used h. get_shape_id j h = get_shape_id j ?g2"
      using free_element_refines [OF g2(1) in2] by metis
    have used_h: "used h = {1..n + 1} \<union> {k \<in> used f. m + 1 < k \<or> k \<le> nb_used f}"
      unfolding h(3) used2 using less gone by (auto simp: beyond_step [of m])
    have "n + 1 \<in> used h" using facts(4) unfolding used_h by simp
    then have "get_shape_id (n + 1) h = get_shape_id (m + 1) f" using h(4) moved by simp
    moreover have "\<forall>j \<in> {1..n}. get_shape_id j h = get_shape_id j g" using h(4) low unfolding used_h by simp
    moreover have "\<forall>k \<in> used f. m + 1 < k \<longrightarrow> get_shape_id k h = get_shape_id k g" using h(4) high unfolding used_h by simp
    ultimately have "compacted_to f (m + 1) (n + 1) h" using next_ok [OF h(2) used_h] by blast
    with h(1) found less g1(1) gone show ?thesis by (simp add: compact_step_def Let_def)
  next
    case False
    then have "used ?g2 = {1..n + 1} \<union> {k \<in> used f. m + 1 < k \<or> k \<le> nb_used f}"
      unfolding used2 using here by (auto simp: beyond_step [of m])
    with g2(1) low high moved have "compacted_to f (m + 1) (n + 1) ?g2" by (intro next_ok)
    with found less g1(1) False show ?thesis by (simp add: compact_step_def Let_def)
  qed
qed

lemma compact_step_ok:
  assumes ok: "factory_ok f" and m: "0 \<le> m" and before: "compacted_to f m n g"
  shows "\<exists>n' g'. compact_step (nb_used f) (m + 1) (n, g) = Inr (n', g') \<and> compacted_to f (m + 1) n' g'"
proof -
  note facts = compacted_to_facts [OF ok m before]
  consider "m + 1 \<notin> used f" | "m + 1 \<in> used f" "n = m" | "m + 1 \<in> used f" "n < m" using facts(3) by linarith
  then show ?thesis
  proof cases
    case 1
    with compacted_to_skip [OF ok before] facts(5) show ?thesis by (simp add: compact_step_def)
  next
    case 2
    have "used g = {1..n + 1} \<union> {k \<in> used f. m + 1 < k \<or> k \<le> nb_used f}"
      using before 2 unfolding compacted_to_def ivl_step [OF facts(4)] by (auto simp: beyond_step [of m])
    moreover have "factory_ok g" "get_shape_id (n + 1) g = get_shape_id (m + 1) f"
      using before 2 unfolding compacted_to_def by auto
    ultimately have "compacted_to f (m + 1) (n + 1) g" using compacted_to_next [OF ok m before 2(1)] by blast
    with facts(5) 2 show ?thesis by (simp add: compact_step_def Let_def)
  next
    case 3
    with compact_move [OF ok m before] show ?thesis by blast
  qed
qed

lemma compact_loop:
  assumes ok: "factory_ok f" and "0 \<le> m"
  shows "\<exists>n g. loop (compact_step (nb_used f)) [1..m] (0, f) = Inr (n, g) \<and> compacted_to f m n g"
  using assms(2)
proof (induction m rule: int_ge_induct)
  case base
  have none: "upto_id (used f) 0 = {}" and all: "{k \<in> used f. 0 < k \<or> k \<le> nb_used f} = used f"
    using used_pos [of _ f] by (fastforce simp: upto_id_def)+
  have "compacted_to f 0 0 f" unfolding compacted_to_def none all using ok by simp
  then show ?case by simp
next
  case (step m)
  then obtain n g where run: "loop (compact_step (nb_used f)) [1..m] (0, f) = Inr (n, g)" and "compacted_to f m n g"
    by blast
  from compact_step_ok [OF ok step.hyps this(2)] obtain n' g' where
    "compact_step (nb_used f) (m + 1) (n, g) = Inr (n', g')" "compacted_to f (m + 1) n' g'" by blast
  moreover have "[1..m + 1] = [1..m] @ [m + 1]" using step.hyps by (simp add: upto_rec2)
  ultimately show ?case using run by (simp add: loop_append)
qed

section \<open>The end of the compaction\<close>

text \<open>Once the ids are 1 up to their number, the chunks beyond it are dropped.\<close>

definition keep_chunks :: "nat \<Rightarrow> factory \<Rightarrow> factory" where
  "keep_chunks n g =
     (let kept = take n (chunks g)
      in g\<lparr>chunks := kept, open_chunks := (if kept \<noteq> [] \<and> 1 < length (used_ranges (last kept)) then [length kept - 1] else [])\<rparr>)"

definition chunks_for :: "int \<Rightarrow> nat" where
  "chunks_for nb = nat (nb div chunk_size + (if nb mod chunk_size \<noteq> 0 then 1 else 0))"

lemma chunks_for_iff: "0 < nb \<Longrightarrow> chunks_for nb = Suc (chunk_of nb)"
proof -
  assume "0 < nb"
  define q r where "q = (nb - 1) div 1024" and "r = (nb - 1) mod 1024"
  have nb: "nb = r + 1 + q * 1024" and r: "0 \<le> r" "r < 1024"
    using div_mult_mod_eq [of "nb - 1" 1024] by (simp_all add: q_def r_def)
  have "nb div chunk_size + (if nb mod chunk_size \<noteq> 0 then 1 else 0) = (nb - 1) div chunk_size + 1"
  proof (cases "r = 1023")
    case True
    then have "nb = (q + 1) * 1024" using nb by simp
    then show ?thesis by (simp add: chunk_size_def flip: q_def)
  next
    case False
    then have "(r + 1) div 1024 = 0" "(r + 1) mod 1024 = r + 1" using r by simp_all
    then have "nb div 1024 = q" "nb mod 1024 = r + 1" unfolding nb by simp_all
    with r show ?thesis by (simp add: chunk_size_def flip: q_def)
  qed
  with \<open>0 < nb\<close> show ?thesis by (simp add: chunks_for_def chunk_of_def chunk_size_def nat_add_distrib pos_imp_zdiv_nonneg_iff)
qed

lemma chunk_of_mono: "j \<le> k \<Longrightarrow> chunk_of j \<le> chunk_of k"
  unfolding chunk_of_def by (intro nat_mono zdiv_mono1) (simp_all add: chunk_size_def)

lemma full_below:
  assumes used: "used g = {1..nb}" and "c < chunk_of nb"
  shows "\<not> has_unused (chunks g ! c)"
proof
  assume "has_unused (chunks g ! c)"
  then obtain i where i: "0 \<le> i" "i < chunk_size" "\<not> held (chunks g ! c) i" by (auto simp: has_unused_def)
  let ?k = "int c * chunk_size + 1 + i"
  have k: "chunk_of ?k = c" "place_in ?k = i" "0 < ?k"
    using place_of_id [OF i(1,2)] i(1) by (simp_all add: add_nonneg_pos chunk_size_def)
  have "\<not> nb \<le> ?k" using chunk_of_mono [of nb ?k] assms(2) k(1) by auto
  then have "?k \<in> used g" using used k(3) by simp
  with i(3) show False unfolding used_def find_element_def mem_Collect_eq k(1,2) by simp
qed

lemma keep_chunks_ok:
  assumes ok: "factory_ok g" and used: "used g = {1..nb}" and nb: "0 < nb"
  shows "factory_ok (keep_chunks (chunks_for nb) g)" "used (keep_chunks (chunks_for nb) g) = {1..nb}"
    "j \<in> {1..nb} \<Longrightarrow> get_shape_id j (keep_chunks (chunks_for nb) g) = get_shape_id j g"
proof -
  let ?n = "chunks_for nb" and ?h = "keep_chunks (chunks_for nb) g"
  have n: "?n = Suc (chunk_of nb)" by (rule chunks_for_iff [OF nb])
  have "nb \<in> used g" using used nb by simp
  then have len: "?n \<le> length (chunks g)" unfolding n by (simp add: used_def find_element_def)
  have kept: "length (chunks ?h) = ?n" using len by (simp add: keep_chunks_def Let_def)
  have nth: "chunks ?h ! c = chunks g ! c" if "c < ?n" for c using that by (simp add: keep_chunks_def Let_def)
  have inside: "chunk_of k < ?n" if "k \<le> nb" for k using chunk_of_mono [OF that] by (simp add: n)
  have "find_element k ?h = (k \<in> {1..nb})" for k
  proof (cases "chunk_of k < ?n")
    case True
    then have "find_element k ?h = find_element k g" using len by (simp add: find_element_def kept nth)
    then show ?thesis using used by (auto simp: used_def)
  next
    case False
    then show ?thesis using inside [of k] by (auto simp: find_element_def kept)
  qed
  then show used': "used ?h = {1..nb}" by (simp only: used_def Collect_mem_eq)
  have chunk: "chunk_ok c (chunks g ! c)" "idle_ok (chunks g ! c)" if "c < ?n" for c
    using ok len that by (simp_all add: factory_ok_def)
  have full: "\<not> has_unused (chunks g ! c)" if "c < chunk_of nb" for c using full_below [OF used that] .
  have some: "chunks ?h \<noteq> []" using kept n by auto
  have last: "last (chunks ?h) = chunks g ! chunk_of nb"
    using last_conv_nth [OF some] kept nth [of "chunk_of nb"] by (simp add: n)
  have top: "held (chunks g ! chunk_of nb) (place_in nb)" using \<open>nb \<in> used g\<close> by (simp add: used_def find_element_def)
  have "used_ranges (chunks g ! chunk_of nb) \<noteq> []" using chunk(1) [of "chunk_of nb"] n by (auto simp: chunk_ok_def)
  then have "(1 < length (used_ranges (chunks g ! chunk_of nb))) = has_unused (chunks g ! chunk_of nb)"
    using chunk_full [OF chunk(1) _ _ top] n by (cases "used_ranges (chunks g ! chunk_of nb)") auto
  then have opened: "open_chunks ?h = (if has_unused (chunks g ! chunk_of nb) then [chunk_of nb] else [])"
    using last some kept n by (simp add: keep_chunks_def Let_def)
  have "set (open_chunks ?h) = {c. c < length (chunks ?h) \<and> has_unused (chunks ?h ! c)}"
    unfolding opened kept using full nth n by (auto simp: less_Suc_eq)
  moreover have "nb_used ?h = nb_used g" by (simp add: keep_chunks_def Let_def)
  ultimately show "factory_ok ?h"
    using ok chunk nth unfolding factory_ok_def kept used' used by (simp add: opened)
  show "get_shape_id j ?h = get_shape_id j g" if "j \<in> {1..nb}"
    using inside [of j] that by (simp add: get_shape_id_def nth)
qed

lemma renumbered:
  assumes ok: "factory_ok f" and some: "used f \<noteq> {}"
  shows "\<exists>g. (if int (card (used f)) = Max (used f) then Inr f
      else bind_result (loop (compact_step (int (card (used f)))) [1..Max (used f)] (0, f)) (\<lambda>(n, g). Inr g)) = Inr g \<and>
    factory_ok g \<and> used g = {1..int (card (used f))} \<and>
    (\<forall>j \<in> {1..int (card (used f))}. get_shape_id j g = get_shape_id (sorted_list_of_set (used f) ! nat (j - 1)) f)"
proof -
  let ?nb = "int (card (used f))"
  have fin: "finite (used f)" "nb_used f = ?nb" using ok by (simp_all add: factory_ok_def)
  have within: "used f \<subseteq> {1..Max (used f)}" using used_pos fin(1) by fastforce
  show ?thesis
  proof (cases "?nb = Max (used f)")
    case True
    then have all: "used f = {1..?nb}" using within by (intro card_subset_eq) simp_all
    have "sorted_list_of_set {1..?nb} = [1..?nb]" by (intro sorted_list_of_set_unique [THEN iffD1]) simp_all
    then have "sorted_list_of_set (used f) ! nat (j - 1) = j" if "j \<in> {1..?nb}" for j
      using that by (subst all) simp
    with True all ok show ?thesis by simp
  next
    case False
    have pos: "0 \<le> Max (used f)" using used_pos [of "Max (used f)" f] fin(1) some by simp
    have "upto_id (used f) (Max (used f)) = used f" using fin(1) by (auto simp: upto_id_def)
    with compact_loop [OF ok pos] fin(2) obtain g where run: "loop (compact_step ?nb) [1..Max (used f)] (0, f) = Inr (?nb, g)"
      and ended: "compacted_to f (Max (used f)) ?nb g" by (auto simp: compacted_to_def)
    have "used g = {1..?nb} \<union> {k \<in> used f. Max (used f) < k \<or> k \<le> ?nb}"
      using ended unfolding compacted_to_def fin(2) by blast
    also have "\<dots> = {1..?nb}" using used_pos [of _ f] Max_ge [OF fin(1)] by fastforce
    finally show ?thesis using run ended False by (simp add: compacted_to_def)
  qed
qed

lemma compact_refines:
  assumes ok: "factory_ok f"
  obtains g where "compact f = Inr g" "factory_ok g" "used g = {1..int (card (used f))}"
    "\<forall>j \<in> {1..int (card (used f))}. get_shape_id j g = get_shape_id (sorted_list_of_set (used f) ! nat (j - 1)) f"
proof -
  let ?nb = "int (card (used f))"
  have fin: "finite (used f)" "nb_used f = ?nb" using ok by (simp_all add: factory_ok_def)
  show ?thesis
  proof (cases "used f = {}")
    case True
    then have "compact f = Inr (f\<lparr>chunks := [], open_chunks := []\<rparr>)" using fin by (simp add: compact_def)
    moreover have "used (f\<lparr>chunks := [], open_chunks := []\<rparr>) = {}" by (simp add: used_def find_element_def)
    ultimately show ?thesis using fin True
      by (intro that [of "f\<lparr>chunks := [], open_chunks := []\<rparr>"]) (auto simp: factory_ok_def)
  next
    case False
    then have nb: "0 < ?nb" using fin(1) by (simp add: card_gt_0_iff)
    have max: "get_max_id f = Max (used f)" using get_max_id_refines(1) [OF ok] False by simp
    have pos: "0 < Max (used f)" using used_pos [of "Max (used f)" f] fin(1) False by simp
    from renumbered [OF ok False] obtain g where g:
      "(if ?nb = Max (used f) then Inr f else bind_result (loop (compact_step ?nb) [1..Max (used f)] (0, f)) (\<lambda>(n, g). Inr g)) = Inr g"
      "factory_ok g" "used g = {1..?nb}"
      "\<forall>j \<in> {1..?nb}. get_shape_id j g = get_shape_id (sorted_list_of_set (used f) ! nat (j - 1)) f" by blast
    have "compact f = Inr (keep_chunks (chunks_for ?nb) g)"
      using g(1) nb unfolding compact_def max fin(2) Let_def by (simp add: keep_chunks_def chunks_for_def Let_def)
    moreover note kept = keep_chunks_ok [OF g(2,3) nb]
    ultimately show ?thesis using g(4) by (intro that [of "keep_chunks (chunks_for ?nb) g"]) simp_all
  qed
qed

end
