(* ===== verification/Simulation.thy ===== *)
theory Simulation
  imports Prelude
begin

text \<open>
  Runs of calls that may throw, and what a model of a component owes to its specification: each
  call has the outcome the specification says, an error or a state that stands for the specified
  one, so a run of calls has it too.
\<close>

locale simulation =
  fixes invar :: "'s \<Rightarrow> bool" and view :: "'s \<Rightarrow> 'a"
    and step :: "'c \<Rightarrow> 's \<Rightarrow> ('e, 's) result" and spec :: "'c \<Rightarrow> 'a \<Rightarrow> ('e, 'a) result"
  assumes step_refines: "invar s \<Longrightarrow> (case step c s of Inl e \<Rightarrow> spec c (view s) = Inl e
    | Inr t \<Rightarrow> invar t \<and> spec c (view s) = Inr (view t))"
begin

lemma run_refines:
  "invar s \<Longrightarrow> (case loop step cs s of Inl e \<Rightarrow> loop spec cs (view s) = Inl e
    | Inr t \<Rightarrow> invar t \<and> loop spec cs (view s) = Inr (view t))"
proof (induction cs arbitrary: s)
  case (Cons c cs)
  show ?case
  proof (cases "step c s")
    case (Inr t)
    with step_refines [OF Cons.prems, of c] Cons.IH [of t] show ?thesis by (cases "loop step cs t") simp_all
  qed (use step_refines [OF Cons.prems, of c] in simp)
qed simp

lemma run_outcome: "invar s \<Longrightarrow> map_sum (\<lambda>e. e) view (loop step cs s) = loop spec cs (view s)"
  using run_refines [of s cs] by (auto split: sum.splits)

lemma run_invar: "invar s \<Longrightarrow> loop step cs s = Inr t \<Longrightarrow> invar t"
  using run_refines [of s cs] by simp

lemma run_view: "invar s \<Longrightarrow> loop step cs s = Inr t \<Longrightarrow> loop spec cs (view s) = Inr (view t)"
  using run_refines [of s cs] by simp

end

end
