(* ===== verification/IdPool.thy ===== *)
theory IdPool
  imports CompactFacts Simulation
begin

text \<open>
  The contract of the element factory: a partial map from the ids in use to their sub-shapes. Runs
  of the factory's calls are runs on that map, and its queries read the map.
\<close>

section \<open>Runs of calls\<close>

text \<open>
  \<^verbatim>\<open>NewElement (k)\<close>, \<^verbatim>\<open>NewElement (GetFreeID ())\<close>, and on the element that
  \<^verbatim>\<open>FindElement (k)\<close> finds \<^verbatim>\<open>setShapeID\<close> and \<^verbatim>\<open>Free\<close>; then \<^verbatim>\<open>Compact\<close>.
\<close>

datatype id_call = Make int | Fresh | Assign int int | Drop int | Compact

definition fresh_element :: "factory \<Rightarrow> (access_error, int \<times> factory) result" where
  "fresh_element f = bind_result (get_free_id f) (\<lambda>(k, g). bind_result (new_element k g) (\<lambda>(made, h). Inr (k, h)))"

fun id_step :: "id_call \<Rightarrow> factory \<Rightarrow> (access_error, factory) result" where
  "id_step (Make k) f = bind_result (new_element k f) (\<lambda>(made, g). Inr g)"
| "id_step Fresh f = bind_result (fresh_element f) (\<lambda>(k, g). Inr g)"
| "id_step (Assign k s) f = (if find_element k f then Inr (set_shape_id k s f) else Inl NullElement)"
| "id_step (Drop k) f = free_element k f"
| "id_step Compact f = compact f"

section \<open>The specification\<close>

definition first_free :: "(int \<rightharpoonup> 'a) \<Rightarrow> int" where
  "first_free m = (LEAST k. 0 < k \<and> m k = None)"

definition renumber :: "(int \<rightharpoonup> int) \<Rightarrow> (int \<rightharpoonup> int)" where
  "renumber m = (\<lambda>j. if 1 \<le> j \<and> j \<le> int (card (dom m)) then m (sorted_list_of_set (dom m) ! nat (j - 1)) else None)"

fun pool_spec :: "id_call \<Rightarrow> (int \<rightharpoonup> int) \<Rightarrow> (access_error, int \<rightharpoonup> int) result" where
  "pool_spec (Make k) m = (if k < 1 then Inl OutOfChunk else Inr (if m k = None then m(k \<mapsto> 0) else m))"
| "pool_spec Fresh m = Inr (m(first_free m \<mapsto> 0))"
| "pool_spec (Assign k s) m = (if m k = None then Inl NullElement else Inr (m(k \<mapsto> s)))"
| "pool_spec (Drop k) m = (if m k = None then Inl NullElement else Inr (m(k := None)))"
| "pool_spec Compact m = Inr (renumber m)"

definition pool :: "factory \<Rightarrow> (int \<rightharpoonup> int)" where
  "pool f = (\<lambda>k. if k \<in> used f then Some (get_shape_id k f) else None)"

lemma pool_simps [simp]: "pool f k = None \<longleftrightarrow> k \<notin> used f" "dom (pool f) = used f"
  "k \<in> used f \<Longrightarrow> pool f k = Some (get_shape_id k f)"
  by (auto simp: pool_def domIff split: if_splits)

lemma pool_new: "pool new_factory = Map.empty"
  using factory_ok_new(2) by (auto simp: pool_def)

lemma pool_eqI:
  assumes "used g = dom m" and "\<And>k. k \<in> used g \<Longrightarrow> m k = Some (get_shape_id k g)"
  shows "pool g = m"
  using assms by (intro ext) (auto simp: pool_def domIff)

lemma first_free_eq: "0 < k \<Longrightarrow> k \<notin> dom m \<Longrightarrow> {1..<k} \<subseteq> dom m \<Longrightarrow> first_free m = k"
proof -
  assume k: "0 < k" "k \<notin> dom m" "{1..<k} \<subseteq> dom m"
  have "k \<le> y" if "0 < y" "m y = None" for y
  proof (rule ccontr)
    assume "\<not> k \<le> y"
    then have "y \<in> {1..<k}" using that(1) by simp
    with k(3) that(2) show False by (auto simp: domIff)
  qed
  with k(1,2) show ?thesis unfolding first_free_def by (intro Least_equality) (auto simp: domIff)
qed

section \<open>Each call\<close>

lemma make_refines:
  assumes "factory_ok f" and "0 < k"
  obtains g where "new_element k f = Inr (k \<notin> used f, g)" "factory_ok g"
    "pool g = (if k \<in> used f then pool f else (pool f)(k \<mapsto> 0))"
proof -
  obtain g where g: "new_element k f = Inr (k \<notin> used f, g)" "factory_ok g" "used g = insert k (used f)"
      "\<forall>j \<in> used f. get_shape_id j g = get_shape_id j f" "k \<notin> used f \<longrightarrow> get_shape_id k g = 0"
    using new_element_refines [OF assms] by blast
  have "pool g = (if k \<in> used f then pool f else (pool f)(k \<mapsto> 0))"
    using g(3-5) by (intro pool_eqI) (auto simp: insert_absorb)
  with g(1,2) show ?thesis by (rule that)
qed

lemma fresh_refines:
  assumes "factory_ok f"
  obtains g where "fresh_element f = Inr (first_free (pool f), g)" "factory_ok g"
    "pool g = (pool f)(first_free (pool f) \<mapsto> 0)" "0 < first_free (pool f)" "first_free (pool f) \<notin> used f"
proof -
  obtain k g where k: "get_free_id f = Inr (k, g)" "factory_ok g" "used g = used f" "0 < k" "k \<notin> used f"
      "{1..<k} \<subseteq> used f" and same: "\<forall>j \<in> used f. get_shape_id j g = get_shape_id j f"
    using get_free_id_refines [OF assms] by metis
  have free: "first_free (pool f) = k" using k(4-6) by (intro first_free_eq) simp_all
  have "pool g = pool f" using k(3) same by (intro pool_eqI) simp_all
  moreover obtain h where "new_element k g = Inr (k \<notin> used g, h)" "factory_ok h"
      "pool h = (if k \<in> used g then pool g else (pool g)(k \<mapsto> 0))"
    using make_refines [OF k(2,4)] by metis
  ultimately show ?thesis using k by (intro that [of h]) (simp_all add: fresh_element_def free)
qed

lemma drop_refines:
  assumes "factory_ok f" and "k \<in> used f"
  obtains g where "free_element k f = Inr g" "factory_ok g" "pool g = (pool f)(k := None)"
proof -
  obtain g where g: "free_element k f = Inr g" "factory_ok g" "used g = used f - {k}"
      "\<forall>j \<in> used g. get_shape_id j g = get_shape_id j f"
    using free_element_refines [OF assms] by metis
  have "pool g = (pool f)(k := None)" using g(3,4) by (intro pool_eqI) auto
  with g(1,2) show ?thesis by (rule that)
qed

lemma assign_refines:
  assumes "factory_ok f" and "k \<in> used f"
  shows "factory_ok (set_shape_id k s f)" "pool (set_shape_id k s f) = (pool f)(k \<mapsto> s)"
proof -
  note set = set_shape_id_ok [OF assms, where s = s]
  show "factory_ok (set_shape_id k s f)" by (rule set(1))
  have "used (set_shape_id k s f) = dom ((pool f)(k \<mapsto> s))" using set(2) assms(2) by (simp add: insert_absorb)
  then show "pool (set_shape_id k s f) = (pool f)(k \<mapsto> s)"
    using set(2,3) by (intro pool_eqI) simp_all
qed

lemma compact_renumbers:
  assumes "factory_ok f"
  obtains g where "compact f = Inr g" "factory_ok g" "pool g = renumber (pool f)"
proof -
  obtain g where g: "compact f = Inr g" "factory_ok g" "used g = {1..int (card (used f))}"
      "\<forall>j \<in> {1..int (card (used f))}. get_shape_id j g = get_shape_id (sorted_list_of_set (used f) ! nat (j - 1)) f"
    using compact_refines [OF assms] by metis
  have fin: "finite (used f)" using assms by (simp add: factory_ok_def)
  have nth: "sorted_list_of_set (used f) ! nat (j - 1) \<in> used f" if "j \<in> {1..int (card (used f))}" for j
  proof -
    have "nat (j - 1) < length (sorted_list_of_set (used f))" using that by (simp add: nat_less_iff)
    from nth_mem [OF this] show ?thesis using fin by simp
  qed
  have at_id: "renumber (pool f) j = Some (get_shape_id (sorted_list_of_set (used f) ! nat (j - 1)) f)"
    if "j \<in> {1..int (card (used f))}" for j using nth [OF that] that by (simp add: renumber_def)
  have "used g = dom (renumber (pool f))"
  proof
    show "used g \<subseteq> dom (renumber (pool f))" unfolding g(3) using at_id by blast
    show "dom (renumber (pool f)) \<subseteq> used g" unfolding g(3) by (auto simp: renumber_def split: if_splits)
  qed
  then have "pool g = renumber (pool f)" using at_id g(3,4) by (intro pool_eqI) simp_all
  with g(1,2) show ?thesis by (rule that)
qed

lemma free_unused: "k \<notin> used f \<Longrightarrow> free_element k f = Inl NullElement"
  by (simp add: free_element_def used_def)

lemma id_step_refines:
  assumes ok: "factory_ok f"
  shows "case id_step c f of Inl e \<Rightarrow> pool_spec c (pool f) = Inl e
    | Inr g \<Rightarrow> factory_ok g \<and> pool_spec c (pool f) = Inr (pool g)"
proof (cases c)
  case (Make k)
  show ?thesis
  proof (cases "0 < k")
    case True
    obtain g where "new_element k f = Inr (k \<notin> used f, g)" "factory_ok g"
        "pool g = (if k \<in> used f then pool f else (pool f)(k \<mapsto> 0))"
      using make_refines [OF ok True] by blast
    with True show ?thesis by (simp add: Make)
  qed (simp add: Make new_element_def)
next
  case Fresh
  obtain g where "fresh_element f = Inr (first_free (pool f), g)" "factory_ok g" "pool g = (pool f)(first_free (pool f) \<mapsto> 0)"
    using fresh_refines [OF ok] by blast
  then show ?thesis by (simp add: Fresh)
next
  case (Assign k s)
  with assign_refines [OF ok, of k s] show ?thesis by (auto simp: used_def)
next
  case (Drop k)
  show ?thesis
  proof (cases "k \<in> used f")
    case True
    obtain g where "free_element k f = Inr g" "factory_ok g" "pool g = (pool f)(k := None)"
      using drop_refines [OF ok True] by blast
    with True show ?thesis by (simp add: Drop)
  qed (simp add: Drop free_unused)
next
  case Compact
  obtain g where "compact f = Inr g" "factory_ok g" "pool g = renumber (pool f)"
    using compact_renumbers [OF ok] by blast
  then show ?thesis by (simp add: Compact)
qed

interpretation ids: simulation factory_ok pool id_step pool_spec
  by unfold_locales (rule id_step_refines)

end
