(* ===== verification/IdProps.thy ===== *)
theory IdProps
  imports IdPool
begin

text \<open>
  The properties of the element factory: its calls keep the contract of a partial map from ids to
  sub-shapes, and its queries read that map.
\<close>

text \<open>
  C12. Whatever calls are made on a new factory, they end as they would on a map from the ids in
  use to their sub-shapes: an id below 1 is out of range, a used id is not made twice, a fresh id
  is the least one that is free, an element is freed or assigned when it is in use, and compaction
  renumbers the elements 1, 2, and so on in their order with their sub-shapes kept. The ranges, the
  chunks and the set of chunks with unused elements are never seen.
\<close>

theorem id_calls_follow_the_map:
  "map_sum (\<lambda>e. e) pool (loop id_step cs new_factory) = loop pool_spec cs Map.empty"
  using ids.run_outcome [OF factory_ok_new(1)] by (simp only: pool_new)

lemma no_holes_iff:
  fixes A :: "int set"
  assumes "finite A" and "A \<subseteq> {0<..}" and "A \<noteq> {}"
  shows "(int (card A) = Max A) = (A = {1..int (card A)})"
proof
  assume eq: "int (card A) = Max A"
  have "A \<subseteq> {1..Max A}" using assms Max_ge [OF assms(1)] by force
  with eq have "A \<subseteq> {1..int (card A)}" by simp
  then show "A = {1..int (card A)}" by (intro card_subset_eq) simp_all
next
  assume eq: "A = {1..int (card A)}"
  have "0 < card A" using assms(1,3) by (simp add: card_gt_0_iff)
  then have "Max {1..int (card A)} = int (card A)" by (intro Max_eqI) simp_all
  with eq show "int (card A) = Max A" by simp
qed

text \<open>
  C19. After any calls, the queries of the factory are those of the map: an element is found when
  its id is in the map, the count, the greatest and the least id are the map's, the iterators give
  the ids in use that pass the filter, or those of a sub-shape, ascending and each once, up to
  their limit, and compaction changes ids exactly when the ids in use have holes.
\<close>

theorem id_queries_read_the_map:
  assumes run: "loop id_step cs new_factory = Inr f"
  shows "find_element k f = (pool f k \<noteq> None) \<and>
    nb_used f = int (card (dom (pool f))) \<and>
    get_max_id f = (if dom (pool f) = {} then 0 else Max (dom (pool f))) \<and>
    get_min_id f = (if dom (pool f) = {} then 0 else Min (dom (pool f))) \<and>
    iterate_used P None f = filter P (sorted_list_of_set (dom (pool f))) \<and>
    iterate_used P (Some n) f = take n (filter P (sorted_list_of_set (dom (pool f)))) \<and>
    iterate_shape s n None f = take n (filter (\<lambda>k. pool f k = Some s) (sorted_list_of_set (dom (pool f)))) \<and>
    compact_changes_ids f = (dom (pool f) \<noteq> {1..int (card (dom (pool f)))})"
proof -
  have ok: "factory_ok f" by (rule ids.run_invar [OF factory_ok_new(1) run])
  then have fin: "finite (used f)" and nb: "nb_used f = int (card (used f))" by (simp_all add: factory_ok_def)
  note ends = get_max_id_refines [OF ok]
  have "filter (\<lambda>k. get_shape_id k f = s) (sorted_list_of_set (used f)) =
      filter (\<lambda>k. pool f k = Some s) (sorted_list_of_set (used f))"
    using fin by (intro filter_cong) simp_all
  then have shape: "iterate_shape s n None f = take n (filter (\<lambda>k. pool f k = Some s) (sorted_list_of_set (used f)))"
    using iterate_shape_sorted [OF ok] by simp
  have "used f \<subseteq> {0<..}" using used_pos by auto
  then have "compact_changes_ids f = (used f \<noteq> {1..int (card (used f))})"
    using no_holes_iff [OF fin] ends(1) nb by (simp add: compact_changes_ids_def)
  moreover have "find_element k f = (pool f k \<noteq> None)" by (simp add: used_def)
  ultimately show ?thesis
    using iterate_used_sorted [OF ok] ends nb shape by (simp only: pool_simps simp_thms)
qed

definition demo_calls :: "id_call list" where
  "demo_calls = [Make 3, Make 5, Assign 5 7, Fresh, Make 1030, Assign 1030 7, Drop 3]"

theorem id_queries_witness:
  "\<not> isl (loop id_step demo_calls new_factory) \<and>
   iterate_shape 7 9 None (projr (loop id_step demo_calls new_factory)) =
     take 9 (filter (\<lambda>k. pool (projr (loop id_step demo_calls new_factory)) k = Some 7)
       (sorted_list_of_set (dom (pool (projr (loop id_step demo_calls new_factory)))))) \<and>
   iterate_shape 7 9 None (projr (loop id_step demo_calls new_factory)) = [5, 1030]"
proof -
  have run: "\<not> isl (loop id_step demo_calls new_factory)" by code_simp
  then have "loop id_step demo_calls new_factory = Inr (projr (loop id_step demo_calls new_factory))"
    by (cases "loop id_step demo_calls new_factory") simp_all
  from id_queries_read_the_map [OF this, where s = 7 and n = 9]
  have "iterate_shape 7 9 None (projr (loop id_step demo_calls new_factory)) =
     take 9 (filter (\<lambda>k. pool (projr (loop id_step demo_calls new_factory)) k = Some 7)
       (sorted_list_of_set (dom (pool (projr (loop id_step demo_calls new_factory))))))" by blast
  moreover have "iterate_shape 7 9 None (projr (loop id_step demo_calls new_factory)) = [5, 1030]" by code_simp
  ultimately show ?thesis using run by blast
qed

end
