(* ===== verification/CellTables.thy ===== *)
theory CellTables
  imports Prelude
begin

text \<open>
  The cell types of the mesh (\<^verbatim>\<open>SMDSAbs_ElementType.hxx\<close>, \<^verbatim>\<open>SMDS_MeshCell.cxx\<close>): their
  families and sizes, the VTK types they are stored as, the orders of their nodes, and the tables of
  the faces of a volume (\<^verbatim>\<open>SMDS_VolumeTool.cxx\<close>).
\<close>

section \<open>Types\<close>

datatype element_type = Abs_All | Abs_Node | Abs_Edge | Abs_Face | Abs_Volume | Abs_0DElement | Abs_Ball

datatype geometry_type = Geom_POINT | Geom_EDGE | Geom_TRIANGLE | Geom_QUADRANGLE | Geom_POLYGON | Geom_TETRA |
  Geom_PYRAMID | Geom_HEXA | Geom_PENTA | Geom_HEXAGONAL_PRISM | Geom_POLYHEDRA | Geom_BALL | Geom_NONE

datatype entity = Entity_Node | Entity_0D | Entity_Edge | Entity_Quad_Edge | Entity_Triangle | Entity_Quad_Triangle |
  Entity_BiQuad_Triangle | Entity_Quadrangle | Entity_Quad_Quadrangle | Entity_BiQuad_Quadrangle | Entity_Polygon |
  Entity_Quad_Polygon | Entity_Tetra | Entity_Quad_Tetra | Entity_Pyramid | Entity_Quad_Pyramid | Entity_Hexa |
  Entity_Quad_Hexa | Entity_TriQuad_Hexa | Entity_Penta | Entity_Quad_Penta | Entity_BiQuad_Penta |
  Entity_Hexagonal_Prism | Entity_Polyhedra | Entity_Quad_Polyhedra | Entity_Ball | Entity_Last

text \<open>The values of the enumeration, in order.\<close>

definition entity_types :: "entity list" where
  "entity_types = [Entity_Node, Entity_0D, Entity_Edge, Entity_Quad_Edge, Entity_Triangle, Entity_Quad_Triangle,
     Entity_BiQuad_Triangle, Entity_Quadrangle, Entity_Quad_Quadrangle, Entity_BiQuad_Quadrangle, Entity_Polygon,
     Entity_Quad_Polygon, Entity_Tetra, Entity_Quad_Tetra, Entity_Pyramid, Entity_Quad_Pyramid, Entity_Hexa,
     Entity_Quad_Hexa, Entity_TriQuad_Hexa, Entity_Penta, Entity_Quad_Penta, Entity_BiQuad_Penta,
     Entity_Hexagonal_Prism, Entity_Polyhedra, Entity_Quad_Polyhedra, Entity_Ball]"

text \<open>\<^verbatim>\<open>static_cast<int>\<close> of an entity type.\<close>

definition entity_code :: "entity \<Rightarrow> int" where
  "entity_code e = int (length (takeWhile (\<lambda>x. x \<noteq> e) entity_types))"

datatype vtk_cell = VTK_EMPTY_CELL | VTK_VERTEX | VTK_POLY_VERTEX | VTK_LINE | VTK_QUADRATIC_EDGE | VTK_TRIANGLE |
  VTK_QUADRATIC_TRIANGLE | VTK_BIQUADRATIC_TRIANGLE | VTK_QUAD | VTK_QUADRATIC_QUAD | VTK_BIQUADRATIC_QUAD |
  VTK_POLYGON | VTK_QUADRATIC_POLYGON | VTK_TETRA | VTK_QUADRATIC_TETRA | VTK_PYRAMID | VTK_QUADRATIC_PYRAMID |
  VTK_HEXAHEDRON | VTK_QUADRATIC_HEXAHEDRON | VTK_TRIQUADRATIC_HEXAHEDRON | VTK_WEDGE | VTK_QUADRATIC_WEDGE |
  VTK_BIQUADRATIC_QUADRATIC_WEDGE | VTK_HEXAGONAL_PRISM | VTK_POLYHEDRON

section \<open>Properties of the cells\<close>

record cell_props =
  p_entity :: entity
  p_type :: element_type
  p_geom :: geometry_type
  p_is_poly :: bool
  p_is_quadratic :: bool
  p_nb_corner_nodes :: int
  p_nb_nodes :: int
  p_nb_edges :: int
  p_nb_faces :: int

definition set_props :: "entity \<Rightarrow> element_type \<Rightarrow> geometry_type \<Rightarrow> bool \<Rightarrow> int \<Rightarrow> int \<Rightarrow> int \<Rightarrow> int \<Rightarrow> cell_props" where
  "set_props e t g poly corners nodes edges faces =
     \<lparr>p_entity = e, p_type = t, p_geom = g, p_is_poly = poly, p_is_quadratic = (corners < nodes),
      p_nb_corner_nodes = corners, p_nb_nodes = nodes, p_nb_edges = edges, p_nb_faces = faces\<rparr>"

text \<open>\<^verbatim>\<open>theCellProps\<close>; \<^verbatim>\<open>CellProps ()\<close> leaves \<^verbatim>\<open>myIsQuadratic\<close> as it is, here unset.\<close>

fun props_of :: "vtk_cell \<Rightarrow> cell_props" where
  "props_of VTK_VERTEX = set_props Entity_0D Abs_0DElement Geom_POINT False 1 1 0 0"
| "props_of VTK_LINE = set_props Entity_Edge Abs_Edge Geom_EDGE False 2 2 1 0"
| "props_of VTK_QUADRATIC_EDGE = set_props Entity_Quad_Edge Abs_Edge Geom_EDGE False 2 3 1 0"
| "props_of VTK_TRIANGLE = set_props Entity_Triangle Abs_Face Geom_TRIANGLE False 3 3 3 1"
| "props_of VTK_QUADRATIC_TRIANGLE = set_props Entity_Quad_Triangle Abs_Face Geom_TRIANGLE False 3 6 3 1"
| "props_of VTK_BIQUADRATIC_TRIANGLE = set_props Entity_BiQuad_Triangle Abs_Face Geom_TRIANGLE False 3 7 3 1"
| "props_of VTK_QUAD = set_props Entity_Quadrangle Abs_Face Geom_QUADRANGLE False 4 4 4 1"
| "props_of VTK_QUADRATIC_QUAD = set_props Entity_Quad_Quadrangle Abs_Face Geom_QUADRANGLE False 4 8 4 1"
| "props_of VTK_BIQUADRATIC_QUAD = set_props Entity_BiQuad_Quadrangle Abs_Face Geom_QUADRANGLE False 4 9 4 1"
| "props_of VTK_POLYGON = set_props Entity_Polygon Abs_Face Geom_POLYGON True (-1) (-1) (-1) 1"
| "props_of VTK_QUADRATIC_POLYGON = set_props Entity_Quad_Polygon Abs_Face Geom_POLYGON True (-2) (-1) (-1) 1"
| "props_of VTK_TETRA = set_props Entity_Tetra Abs_Volume Geom_TETRA False 4 4 6 4"
| "props_of VTK_QUADRATIC_TETRA = set_props Entity_Quad_Tetra Abs_Volume Geom_TETRA False 4 10 6 4"
| "props_of VTK_PYRAMID = set_props Entity_Pyramid Abs_Volume Geom_PYRAMID False 5 5 8 5"
| "props_of VTK_QUADRATIC_PYRAMID = set_props Entity_Quad_Pyramid Abs_Volume Geom_PYRAMID False 5 13 8 5"
| "props_of VTK_HEXAHEDRON = set_props Entity_Hexa Abs_Volume Geom_HEXA False 8 8 12 6"
| "props_of VTK_QUADRATIC_HEXAHEDRON = set_props Entity_Quad_Hexa Abs_Volume Geom_HEXA False 8 20 12 6"
| "props_of VTK_TRIQUADRATIC_HEXAHEDRON = set_props Entity_TriQuad_Hexa Abs_Volume Geom_HEXA False 8 27 12 6"
| "props_of VTK_WEDGE = set_props Entity_Penta Abs_Volume Geom_PENTA False 6 6 9 5"
| "props_of VTK_QUADRATIC_WEDGE = set_props Entity_Quad_Penta Abs_Volume Geom_PENTA False 6 15 9 5"
| "props_of VTK_BIQUADRATIC_QUADRATIC_WEDGE = set_props Entity_BiQuad_Penta Abs_Volume Geom_PENTA False 6 18 9 5"
| "props_of VTK_HEXAGONAL_PRISM = set_props Entity_Hexagonal_Prism Abs_Volume Geom_HEXAGONAL_PRISM False 12 12 18 8"
| "props_of VTK_POLYHEDRON = set_props Entity_Polyhedra Abs_Volume Geom_POLYHEDRA True (-1) (-1) (-1) (-1)"
| "props_of VTK_POLY_VERTEX = set_props Entity_Ball Abs_Ball Geom_BALL False 1 1 0 0"
| "props_of VTK_EMPTY_CELL = set_props Entity_Last Abs_All Geom_NONE False 0 0 0 0"

fun to_vtk_type :: "entity \<Rightarrow> vtk_cell" where
  "to_vtk_type Entity_Node = VTK_VERTEX"
| "to_vtk_type Entity_0D = VTK_VERTEX"
| "to_vtk_type Entity_Edge = VTK_LINE"
| "to_vtk_type Entity_Quad_Edge = VTK_QUADRATIC_EDGE"
| "to_vtk_type Entity_Triangle = VTK_TRIANGLE"
| "to_vtk_type Entity_Quad_Triangle = VTK_QUADRATIC_TRIANGLE"
| "to_vtk_type Entity_BiQuad_Triangle = VTK_BIQUADRATIC_TRIANGLE"
| "to_vtk_type Entity_Quadrangle = VTK_QUAD"
| "to_vtk_type Entity_Quad_Quadrangle = VTK_QUADRATIC_QUAD"
| "to_vtk_type Entity_BiQuad_Quadrangle = VTK_BIQUADRATIC_QUAD"
| "to_vtk_type Entity_Polygon = VTK_POLYGON"
| "to_vtk_type Entity_Quad_Polygon = VTK_QUADRATIC_POLYGON"
| "to_vtk_type Entity_Tetra = VTK_TETRA"
| "to_vtk_type Entity_Quad_Tetra = VTK_QUADRATIC_TETRA"
| "to_vtk_type Entity_Pyramid = VTK_PYRAMID"
| "to_vtk_type Entity_Quad_Pyramid = VTK_QUADRATIC_PYRAMID"
| "to_vtk_type Entity_Hexa = VTK_HEXAHEDRON"
| "to_vtk_type Entity_Quad_Hexa = VTK_QUADRATIC_HEXAHEDRON"
| "to_vtk_type Entity_TriQuad_Hexa = VTK_TRIQUADRATIC_HEXAHEDRON"
| "to_vtk_type Entity_Penta = VTK_WEDGE"
| "to_vtk_type Entity_Quad_Penta = VTK_QUADRATIC_WEDGE"
| "to_vtk_type Entity_BiQuad_Penta = VTK_BIQUADRATIC_QUADRATIC_WEDGE"
| "to_vtk_type Entity_Hexagonal_Prism = VTK_HEXAGONAL_PRISM"
| "to_vtk_type Entity_Polyhedra = VTK_POLYHEDRON"
| "to_vtk_type Entity_Ball = VTK_POLY_VERTEX"
| "to_vtk_type Entity_Quad_Polyhedra = VTK_EMPTY_CELL"
| "to_vtk_type Entity_Last = VTK_EMPTY_CELL"

definition to_smds_type :: "vtk_cell \<Rightarrow> entity" where
  "to_smds_type v = p_entity (props_of v)"

definition nb_nodes_of :: "entity \<Rightarrow> int" where
  "nb_nodes_of e = p_nb_nodes (props_of (to_vtk_type e))"

section \<open>Orders of the nodes\<close>

text \<open>\<^verbatim>\<open>theToVtkInterlaces\<close>: \<^verbatim>\<open>vtkIDs[i] = smdsIDs[ indices[i] ]\<close>; empty where the orders agree.\<close>

fun to_vtk_order :: "entity \<Rightarrow> nat list" where
  "to_vtk_order Entity_Tetra = [0, 2, 1, 3]"
| "to_vtk_order Entity_Quad_Tetra = [0, 2, 1, 3, 6, 5, 4, 7, 9, 8]"
| "to_vtk_order Entity_Pyramid = [0, 3, 2, 1, 4]"
| "to_vtk_order Entity_Quad_Pyramid = [0, 3, 2, 1, 4, 8, 7, 6, 5, 9, 12, 11, 10]"
| "to_vtk_order Entity_Hexa = [0, 3, 2, 1, 4, 7, 6, 5]"
| "to_vtk_order Entity_Quad_Hexa = [0, 3, 2, 1, 4, 7, 6, 5, 11, 10, 9, 8, 15, 14, 13, 12, 16, 19, 18, 17]"
| "to_vtk_order Entity_TriQuad_Hexa =
     [0, 3, 2, 1, 4, 7, 6, 5, 11, 10, 9, 8, 15, 14, 13, 12, 16, 19, 18, 17, 21, 23, 24, 22, 20, 25, 26]"
| "to_vtk_order Entity_Penta = [0, 1, 2, 3, 4, 5]"
| "to_vtk_order Entity_Quad_Penta = [0, 1, 2, 3, 4, 5, 6, 7, 8, 9, 10, 11, 12, 13, 14]"
| "to_vtk_order Entity_BiQuad_Penta = [0, 1, 2, 3, 4, 5, 6, 7, 8, 9, 10, 11, 12, 13, 14, 15, 16, 17]"
| "to_vtk_order Entity_Hexagonal_Prism = [0, 5, 4, 3, 2, 1, 6, 11, 10, 9, 8, 7]"
| "to_vtk_order e = []"

text \<open>\<^verbatim>\<open>initFromVtkInterlaces\<close>: \<^verbatim>\<open>toSmds[ toVtk[i] ] = i\<close>.\<close>

definition from_vtk_order :: "entity \<Rightarrow> nat list" where
  "from_vtk_order e =
     (let to_vtk = to_vtk_order e
      in fold (\<lambda>i to_smds. to_smds[to_vtk ! i := i]) [0..<length to_vtk] (replicate (length to_vtk) 0))"

text \<open>\<^verbatim>\<open>reverseSmdsOrder\<close>: \<^verbatim>\<open>reverseIDs[i] = forwardIDs[ indices[i] ]\<close>.\<close>

fun reverse_order :: "entity \<Rightarrow> nat \<Rightarrow> nat list" where
  "reverse_order Entity_0D n = [0]"
| "reverse_order Entity_Node n = [0]"
| "reverse_order Entity_Ball n = [0]"
| "reverse_order Entity_Edge n = [1, 0]"
| "reverse_order Entity_Quad_Edge n = [1, 0, 2]"
| "reverse_order Entity_Triangle n = [0, 2, 1]"
| "reverse_order Entity_Quad_Triangle n = [0, 2, 1, 5, 4, 3]"
| "reverse_order Entity_BiQuad_Triangle n = [0, 2, 1, 5, 4, 3, 6]"
| "reverse_order Entity_Quadrangle n = [0, 3, 2, 1]"
| "reverse_order Entity_Quad_Quadrangle n = [0, 3, 2, 1, 7, 6, 5, 4]"
| "reverse_order Entity_BiQuad_Quadrangle n = [0, 3, 2, 1, 7, 6, 5, 4, 8]"
| "reverse_order Entity_Tetra n = [0, 2, 1, 3]"
| "reverse_order Entity_Quad_Tetra n = [0, 2, 1, 3, 6, 5, 4, 7, 9, 8]"
| "reverse_order Entity_Pyramid n = [0, 3, 2, 1, 4]"
| "reverse_order Entity_Quad_Pyramid n = [0, 3, 2, 1, 4, 8, 7, 6, 5, 9, 12, 11, 10]"
| "reverse_order Entity_Hexa n = [0, 3, 2, 1, 4, 7, 6, 5]"
| "reverse_order Entity_Quad_Hexa n = [0, 3, 2, 1, 4, 7, 6, 5, 11, 10, 9, 8, 15, 14, 13, 12, 16, 19, 18, 17]"
| "reverse_order Entity_TriQuad_Hexa n =
     [0, 3, 2, 1, 4, 7, 6, 5, 11, 10, 9, 8, 15, 14, 13, 12, 16, 19, 18, 17, 20, 24, 23, 22, 21, 25, 26]"
| "reverse_order Entity_Penta n = [0, 2, 1, 3, 5, 4]"
| "reverse_order Entity_Quad_Penta n = [0, 2, 1, 3, 5, 4, 8, 7, 6, 11, 10, 9, 12, 14, 13]"
| "reverse_order Entity_BiQuad_Penta n = [0, 2, 1, 3, 5, 4, 8, 7, 6, 11, 10, 9, 12, 14, 13, 15, 16, 17]"
| "reverse_order Entity_Hexagonal_Prism n = [0, 5, 4, 3, 2, 1, 6, 11, 10, 9, 8, 7]"
| "reverse_order Entity_Polygon n = map (\<lambda>i. n - i - 1) [0..<n]"
| "reverse_order Entity_Quad_Polygon n = 0 # rev [1..<n div 2] @ rev [n div 2..<n]"
| "reverse_order e n = []"

text \<open>
  \<^verbatim>\<open>interlacedSmdsOrder\<close>: the nodes of a quadratic side in the order met along it. Only the
  first six indices of the table are assigned to a quadratic triangle, and eight to a quadrangle.
\<close>

fun interlaced_order :: "entity \<Rightarrow> nat \<Rightarrow> nat list" where
  "interlaced_order Entity_Quad_Edge n = [0, 2, 1]"
| "interlaced_order Entity_Quad_Triangle n = [0, 3, 1, 4, 2, 5]"
| "interlaced_order Entity_BiQuad_Triangle n = [0, 3, 1, 4, 2, 5, 6]"
| "interlaced_order Entity_Quad_Quadrangle n = [0, 4, 1, 5, 2, 6, 3, 7]"
| "interlaced_order Entity_BiQuad_Quadrangle n = [0, 4, 1, 5, 2, 6, 3, 7, 8]"
| "interlaced_order Entity_Quad_Polygon n = concat (map (\<lambda>i. [i, i + n div 2]) [0..<n div 2]) @ replicate (n mod 2) 0"
| "interlaced_order e n = []"

section \<open>Faces of a volume\<close>

text \<open>
  The rows of \<^verbatim>\<open>X_F\<close> and \<^verbatim>\<open>X_RE\<close>: the nodes of each face of a volume that is oriented
  forward, or reversed, padded to the table's width, with how many of a row are the face's. A row of
  a face with a central node ends in it.
\<close>

record face_table =
  f_rows :: "nat list list"
  re_rows :: "nat list list"
  nb_face_nodes :: "nat list"

definition tetra_faces :: face_table where
  "tetra_faces = \<lparr>f_rows =
    [[0, 1, 2, 0],
     [0, 3, 1, 0],
     [1, 3, 2, 1],
     [0, 2, 3, 0]],
   re_rows =
    [[0, 2, 1, 0],
     [0, 1, 3, 0],
     [1, 2, 3, 1],
     [0, 3, 2, 0]],
   nb_face_nodes = [3, 3, 3, 3]\<rparr>"

definition pyramid_faces :: face_table where
  "pyramid_faces = \<lparr>f_rows =
    [[0, 1, 2, 3, 0],
     [0, 4, 1, 0, 4],
     [1, 4, 2, 1, 4],
     [2, 4, 3, 2, 4],
     [3, 4, 0, 3, 4]],
   re_rows =
    [[0, 3, 2, 1, 0],
     [0, 1, 4, 0, 4],
     [1, 2, 4, 1, 4],
     [2, 3, 4, 2, 4],
     [3, 0, 4, 3, 4]],
   nb_face_nodes = [4, 3, 3, 3, 3]\<rparr>"

definition penta_faces :: face_table where
  "penta_faces = \<lparr>f_rows =
    [[0, 1, 2, 0, 0],
     [3, 5, 4, 3, 3],
     [0, 3, 4, 1, 0],
     [1, 4, 5, 2, 1],
     [0, 2, 5, 3, 0]],
   re_rows =
    [[0, 2, 1, 0, 0],
     [3, 4, 5, 3, 3],
     [0, 1, 4, 3, 0],
     [1, 2, 5, 4, 1],
     [0, 3, 5, 2, 0]],
   nb_face_nodes = [3, 3, 4, 4, 4]\<rparr>"

definition hexa_faces :: face_table where
  "hexa_faces = \<lparr>f_rows =
    [[0, 1, 2, 3, 0],
     [4, 7, 6, 5, 4],
     [0, 4, 5, 1, 0],
     [1, 5, 6, 2, 1],
     [3, 2, 6, 7, 3],
     [0, 3, 7, 4, 0]],
   re_rows =
    [[0, 3, 2, 1, 0],
     [4, 5, 6, 7, 4],
     [0, 1, 5, 4, 0],
     [1, 2, 6, 5, 1],
     [3, 7, 6, 2, 3],
     [0, 4, 7, 3, 0]],
   nb_face_nodes = [4, 4, 4, 4, 4, 4]\<rparr>"

definition hex_prism_faces :: face_table where
  "hex_prism_faces = \<lparr>f_rows =
    [[0, 1, 2, 3, 4, 5, 0],
     [6, 11, 10, 9, 8, 7, 6],
     [0, 6, 7, 1, 0, 0, 0],
     [1, 7, 8, 2, 1, 1, 1],
     [2, 8, 9, 3, 2, 2, 2],
     [3, 9, 10, 4, 3, 3, 3],
     [4, 10, 11, 5, 4, 4, 4],
     [5, 11, 6, 0, 5, 5, 5]],
   re_rows =
    [[0, 5, 4, 3, 2, 1, 0],
     [6, 11, 10, 9, 8, 7, 6],
     [0, 6, 7, 1, 0, 0, 0],
     [1, 7, 8, 2, 1, 1, 1],
     [2, 8, 9, 3, 2, 2, 2],
     [3, 9, 10, 4, 3, 3, 3],
     [4, 10, 11, 5, 4, 4, 4],
     [5, 11, 6, 0, 5, 5, 5]],
   nb_face_nodes = [6, 6, 4, 4, 4, 4, 4, 4]\<rparr>"

definition quad_tetra_faces :: face_table where
  "quad_tetra_faces = \<lparr>f_rows =
    [[0, 4, 1, 5, 2, 6, 0],
     [0, 7, 3, 8, 1, 4, 0],
     [1, 8, 3, 9, 2, 5, 1],
     [0, 6, 2, 9, 3, 7, 0]],
   re_rows =
    [[0, 6, 2, 5, 1, 4, 0],
     [0, 4, 1, 8, 3, 7, 0],
     [1, 5, 2, 9, 3, 8, 1],
     [0, 7, 3, 9, 2, 6, 0]],
   nb_face_nodes = [6, 6, 6, 6]\<rparr>"

definition quad_pyram_faces :: face_table where
  "quad_pyram_faces = \<lparr>f_rows =
    [[0, 5, 1, 6, 2, 7, 3, 8, 0],
     [0, 9, 4, 10, 1, 5, 0, 4, 4],
     [1, 10, 4, 11, 2, 6, 1, 4, 4],
     [2, 11, 4, 12, 3, 7, 2, 4, 4],
     [3, 12, 4, 9, 0, 8, 3, 4, 4]],
   re_rows =
    [[0, 8, 3, 7, 2, 6, 1, 5, 0],
     [0, 5, 1, 10, 4, 9, 0, 4, 4],
     [1, 6, 2, 11, 4, 10, 1, 4, 4],
     [2, 7, 3, 12, 4, 11, 2, 4, 4],
     [3, 8, 0, 9, 4, 12, 3, 4, 4]],
   nb_face_nodes = [8, 6, 6, 6, 6]\<rparr>"

definition quad_penta_faces :: face_table where
  "quad_penta_faces = \<lparr>f_rows =
    [[0, 6, 1, 7, 2, 8, 0, 0, 0],
     [3, 11, 5, 10, 4, 9, 3, 3, 3],
     [0, 12, 3, 9, 4, 13, 1, 6, 0],
     [1, 13, 4, 10, 5, 14, 2, 7, 1],
     [0, 8, 2, 14, 5, 11, 3, 12, 0]],
   re_rows =
    [[0, 8, 2, 7, 1, 6, 0, 0, 0],
     [3, 9, 4, 10, 5, 11, 3, 3, 3],
     [0, 6, 1, 13, 4, 9, 3, 12, 0],
     [1, 7, 2, 14, 5, 10, 4, 13, 1],
     [0, 12, 3, 11, 5, 14, 2, 8, 0]],
   nb_face_nodes = [6, 6, 8, 8, 8]\<rparr>"

definition quad_hexa_faces :: face_table where
  "quad_hexa_faces = \<lparr>f_rows =
    [[0, 8, 1, 9, 2, 10, 3, 11, 0],
     [4, 15, 7, 14, 6, 13, 5, 12, 4],
     [0, 16, 4, 12, 5, 17, 1, 8, 0],
     [1, 17, 5, 13, 6, 18, 2, 9, 1],
     [3, 10, 2, 18, 6, 14, 7, 19, 3],
     [0, 11, 3, 19, 7, 15, 4, 16, 0]],
   re_rows =
    [[0, 11, 3, 10, 2, 9, 1, 8, 0],
     [4, 12, 5, 13, 6, 14, 7, 15, 4],
     [0, 8, 1, 17, 5, 12, 4, 16, 0],
     [1, 9, 2, 18, 6, 13, 5, 17, 1],
     [3, 19, 7, 14, 6, 18, 2, 10, 3],
     [0, 16, 4, 15, 7, 19, 3, 11, 0]],
   nb_face_nodes = [8, 8, 8, 8, 8, 8]\<rparr>"

definition tri_quad_hexa_faces :: face_table where
  "tri_quad_hexa_faces = \<lparr>f_rows =
    [[0, 8, 1, 9, 2, 10, 3, 11, 20],
     [4, 15, 7, 14, 6, 13, 5, 12, 25],
     [0, 16, 4, 12, 5, 17, 1, 8, 21],
     [1, 17, 5, 13, 6, 18, 2, 9, 22],
     [3, 10, 2, 18, 6, 14, 7, 19, 23],
     [0, 11, 3, 19, 7, 15, 4, 16, 24]],
   re_rows =
    [[0, 11, 3, 10, 2, 9, 1, 8, 20],
     [4, 12, 5, 13, 6, 14, 7, 15, 25],
     [0, 8, 1, 17, 5, 12, 4, 16, 21],
     [1, 9, 2, 18, 6, 13, 5, 17, 22],
     [3, 19, 7, 14, 6, 18, 2, 10, 23],
     [0, 16, 4, 15, 7, 19, 3, 11, 24]],
   nb_face_nodes = [9, 9, 9, 9, 9, 9]\<rparr>"

text \<open>
  The table that \<^verbatim>\<open>setFace\<close> chooses by the number of nodes. \<^verbatim>\<open>BiQuadPenta_F\<close> and
  \<^verbatim>\<open>BiQuadPenta_RE\<close> are chosen by no branch.
\<close>

definition faces_of_size :: "bool \<Rightarrow> nat \<Rightarrow> face_table option" where
  "faces_of_size ignore_central n =
     (if n = 4 then Some tetra_faces
      else if n = 5 then Some pyramid_faces
      else if n = 6 then Some penta_faces
      else if n = 8 then Some hexa_faces
      else if n = 10 then Some quad_tetra_faces
      else if n = 13 then Some quad_pyram_faces
      else if n = 15 \<or> n = 18 then Some quad_penta_faces
      else if n = 20 then Some quad_hexa_faces
      else if n = 27 then Some (if ignore_central then quad_hexa_faces else tri_quad_hexa_faces)
      else if n = 12 then Some hex_prism_faces
      else None)"

text \<open>\<^verbatim>\<open>setFace\<close> of a volume that is not a polyhedron: the nodes of a face, the first one repeated.\<close>

definition cell_face :: "bool \<Rightarrow> bool \<Rightarrow> nat \<Rightarrow> 'n list \<Rightarrow> 'n list option" where
  "cell_face ignore_central forward i nodes =
     (case faces_of_size ignore_central (length nodes) of None \<Rightarrow> None
      | Some t \<Rightarrow>
          if length (nb_face_nodes t) \<le> i then None
          else let row = (if forward then f_rows t else re_rows t) ! i;
                   face = map (\<lambda>j. nodes ! j) (take (nb_face_nodes t ! i) row)
               in Some (face @ [hd face]))"

text \<open>\<^verbatim>\<open>Inverse\<close>: the swaps of the nodes by their number.\<close>

definition swap_nodes :: "nat \<times> nat \<Rightarrow> 'n list \<Rightarrow> 'n list" where
  "swap_nodes p xs = (let (i, j) = p in xs[i := xs ! j, j := xs ! i])"

definition inverse_swaps :: "nat \<Rightarrow> (nat \<times> nat) list" where
  "inverse_swaps n =
     (if n = 4 then [(1, 2)]
      else if n = 5 then [(1, 3)]
      else if n = 6 then [(1, 2), (4, 5)]
      else if n = 8 then [(1, 3), (5, 7)]
      else if n = 12 then [(1, 5), (2, 4), (7, 11), (8, 10)]
      else if n = 10 then [(1, 2), (4, 6), (8, 9)]
      else if n = 13 then [(1, 3), (5, 8), (6, 7), (10, 12)]
      else if n = 15 then [(1, 2), (4, 5), (6, 8), (9, 11), (13, 14)]
      else if n = 18 then [(1, 2), (4, 5), (6, 8), (9, 11), (13, 14), (16, 17)]
      else if n = 20 then [(1, 3), (5, 7), (8, 11), (9, 10), (12, 15), (13, 14), (17, 19)]
      else if n = 27 then [(1, 3), (5, 7), (8, 11), (9, 10), (12, 15), (13, 14), (17, 19), (21, 24), (22, 23)]
      else [])"

definition inverse_nodes :: "'n list \<Rightarrow> 'n list" where
  "inverse_nodes xs = fold swap_nodes (inverse_swaps (length xs)) xs"

text \<open>\<^verbatim>\<open>GetCenterNodeIndex\<close>: of the node at the centre of a face; negative where there is none.\<close>

definition center_node_index :: "nat \<Rightarrow> nat \<Rightarrow> int" where
  "center_node_index n i =
     (if n = 27 then (if i = 0 then 20 else if i = 1 then 25 else int i + 19)
      else if n = 18 then (if i = 2 then 15 else if i = 3 then 16 else if i = 4 then 17 else - 2)
      else - 1)"

text \<open>\<^verbatim>\<open>GetOppFaceIndexOfHex\<close> and \<^verbatim>\<open>GetOppFaceIndex\<close>.\<close>

definition hexa_opposite_face :: "nat \<Rightarrow> int" where
  "hexa_opposite_face i = [1, 0, 4, 5, 2, 3] ! i"

definition opposite_face_index :: "nat \<Rightarrow> nat \<Rightarrow> int" where
  "opposite_face_index n i =
     (case faces_of_size False n of None \<Rightarrow> - 1
      | Some t \<Rightarrow>
          if length (nb_face_nodes t) \<le> i then - 1
          else if n \<in> {6, 15, 18} then (if i = 0 \<or> i = 1 then 1 - int i else - 1)
          else if n \<in> {8, 12} then
            (if i \<le> 1 then 1 - int i
             else let sides = int (nb_face_nodes t ! 0) in (int i - 2 + sides div 2) mod sides + 2)
          else if n \<in> {20, 27} then hexa_opposite_face i
          else - 1)"

end
