(* ===== verification/CellFacts.thy ===== *)
theory CellFacts
  imports CellTables
begin

text \<open>
  The tables of the volumes checked: what holds of the indices of a cell's nodes is computed, and
  carries over to the nodes of any cell.
\<close>

section \<open>From indices to nodes\<close>

text \<open>The numbers of nodes of a volume that is not a polyhedron.\<close>

definition volume_sizes :: "nat list" where
  "volume_sizes = [4, 5, 6, 8, 10, 12, 13, 15, 18, 20, 27]"

text \<open>The nodes around a face, without the one at its centre, and the sides they make.\<close>

definition around_face :: "bool \<Rightarrow> bool \<Rightarrow> nat \<Rightarrow> 'n list \<Rightarrow> 'n list" where
  "around_face ignore_central forward i nodes =
     (case cell_face ignore_central forward i nodes of None \<Rightarrow> []
      | Some face \<Rightarrow> if length nodes = 27 \<and> \<not> ignore_central then butlast (butlast face) else butlast face)"

definition sides_around :: "'n list \<Rightarrow> ('n \<times> 'n) list" where
  "sides_around xs = zip xs (rotate1 xs)"

definition nb_faces_of_size :: "nat \<Rightarrow> nat" where
  "nb_faces_of_size n = (case faces_of_size False n of None \<Rightarrow> 0 | Some t \<Rightarrow> length (nb_face_nodes t))"

definition cell_sides :: "bool \<Rightarrow> bool \<Rightarrow> 'n list \<Rightarrow> ('n \<times> 'n) list" where
  "cell_sides ignore_central forward nodes =
     concat (map (\<lambda>i. sides_around (around_face ignore_central forward i nodes)) [0..<nb_faces_of_size (length nodes)])"

text \<open>One way round a face and the other.\<close>

definition turned :: "'n list \<Rightarrow> 'n list \<Rightarrow> bool" where
  "turned xs ys = (\<exists>k \<in> {0..<length xs}. ys = rotate k (rev xs))"

lemma rows_within:
  assumes "faces_of_size ig n = Some t"
  shows "list_all (\<lambda>row. \<forall>j \<in> set row. j < n) (f_rows t)" "list_all (\<lambda>row. \<forall>j \<in> set row. j < n) (re_rows t)"
    "length (f_rows t) = length (nb_face_nodes t)" "length (re_rows t) = length (nb_face_nodes t)"
    "list_all (\<lambda>k. 0 < k) (nb_face_nodes t)" "list_all (\<lambda>row. row \<noteq> []) (f_rows t)" "list_all (\<lambda>row. row \<noteq> []) (re_rows t)"
  using assms by (auto simp: faces_of_size_def tetra_faces_def pyramid_faces_def penta_faces_def hexa_faces_def
      hex_prism_faces_def quad_tetra_faces_def quad_pyram_faces_def quad_penta_faces_def quad_hexa_faces_def
      tri_quad_hexa_faces_def split: if_splits)

lemma cell_face_map: "cell_face ig fwd i (map f nodes) = map_option (map f) (cell_face ig fwd i nodes)"
proof (cases "faces_of_size ig (length nodes)")
  case None
  then show ?thesis by (simp add: cell_face_def)
next
  case (Some t)
  note within = rows_within [OF Some]
  show ?thesis
  proof (cases "i < length (nb_face_nodes t)")
    case True
    let ?row = "(if fwd then f_rows t else re_rows t) ! i"
    have row: "\<forall>j \<in> set ?row. j < length nodes" "?row \<noteq> []" "0 < nb_face_nodes t ! i"
      using within True by (auto simp: list_all_length)
    have "take (nb_face_nodes t ! i) ?row \<noteq> []" using row(2,3) by simp
    moreover have "map (\<lambda>j. map f nodes ! j) (take (nb_face_nodes t ! i) ?row) =
        map f (map (\<lambda>j. nodes ! j) (take (nb_face_nodes t ! i) ?row))"
      using row(1) by (auto dest: in_set_takeD)
    moreover have "map f nodes ! hd ?row = f (nodes ! hd ?row)" using row(1,2) hd_in_set [of ?row] by simp
    ultimately show ?thesis using True by (simp add: cell_face_def Some Let_def hd_map)
  qed (simp add: cell_face_def Some)
qed

lemma around_face_map: "around_face ig fwd i (map f nodes) = map f (around_face ig fwd i nodes)"
  by (cases "cell_face ig fwd i nodes"; cases "length nodes = 27 \<and> \<not> ig")
    (auto simp: around_face_def cell_face_map map_butlast)

lemma around_face_indices: "around_face ig fwd i nodes = map (\<lambda>j. nodes ! j) (around_face ig fwd i [0..<length nodes])"
  using around_face_map [of ig fwd i "\<lambda>j. nodes ! j" "[0..<length nodes]"] by (simp add: map_nth)

lemma sides_around_map: "sides_around (map f xs) = map (map_prod f f) (sides_around xs)"
  by (simp add: sides_around_def zip_map_map rotate1_map map_prod_def)

lemma cell_sides_indices:
  "cell_sides ig fwd nodes = map (map_prod (\<lambda>j. nodes ! j) (\<lambda>j. nodes ! j)) (cell_sides ig fwd [0..<length nodes])"
proof -
  have "sides_around (around_face ig fwd i nodes) =
      map (map_prod (\<lambda>j. nodes ! j) (\<lambda>j. nodes ! j)) (sides_around (around_face ig fwd i [0..<length nodes]))" for i
    using sides_around_map around_face_indices [of ig fwd i nodes] by metis
  then show ?thesis by (simp add: cell_sides_def map_concat comp_def)
qed

text \<open>\<^verbatim>\<open>Inverse\<close> permutes the nodes by their indices.\<close>

lemma inverse_swaps_within: "(a, b) \<in> set (inverse_swaps n) \<Longrightarrow> a < n \<and> b < n"
  by (auto simp: inverse_swaps_def split: if_splits)

lemma swap_nodes_map: "a < length xs \<Longrightarrow> b < length xs \<Longrightarrow> swap_nodes (a, b) (map f xs) = map f (swap_nodes (a, b) xs)"
  by (simp add: swap_nodes_def map_update)

lemma inverse_nodes_map: "inverse_nodes (map f xs) = map f (inverse_nodes xs)"
proof -
  have "fold swap_nodes ps (map f xs) = map f (fold swap_nodes ps xs)"
    if "\<forall>(a, b) \<in> set ps. a < length xs \<and> b < length xs" for ps
    using that
  proof (induction ps arbitrary: xs)
    case (Cons p ps)
    obtain a b where p: "p = (a, b)" by (cases p)
    have "length (swap_nodes p xs) = length xs" by (simp add: p swap_nodes_def)
    with Cons swap_nodes_map [of a xs b f] show ?case by (simp add: p)
  qed simp
  then show ?thesis using inverse_swaps_within [of _ _ "length xs"] by (auto simp: inverse_nodes_def)
qed

lemma length_inverse_nodes [simp]: "length (inverse_nodes xs) = length xs"
proof -
  have "length (fold swap_nodes ps xs) = length xs" for ps
    by (induction ps arbitrary: xs) (auto simp: swap_nodes_def)
  then show ?thesis by (simp add: inverse_nodes_def)
qed

lemma inverse_nodes_indices: "inverse_nodes nodes = map (\<lambda>j. nodes ! j) (inverse_nodes [0..<length nodes])"
  using inverse_nodes_map [of "\<lambda>j. nodes ! j" "[0..<length nodes]"] by (simp add: map_nth)

text \<open>Where one list starts in the other decides it.\<close>

definition turns :: "'n list \<Rightarrow> 'n list \<Rightarrow> bool" where
  "turns xs ys = (let k = length (takeWhile (\<lambda>x. x \<noteq> hd ys) (rev xs)) in k < length xs \<and> ys = rotate k (rev xs))"

lemma turns_turned: "turns xs ys \<Longrightarrow> turned xs ys"
  by (auto simp: turns_def turned_def Let_def)

lemma turned_map: "turned xs ys \<Longrightarrow> turned (map f xs) (map f ys)"
  by (auto simp: turned_def rotate_map rev_map)

section \<open>The indices\<close>

text \<open>Central nodes are ignored or not; only of 27 nodes does it matter.\<close>

lemma faces_of_size_central: "n \<noteq> 27 \<Longrightarrow> faces_of_size ig n = faces_of_size False n"
  by (simp add: faces_of_size_def)

lemma around_face_central:
  assumes "length nodes \<noteq> 27"
  shows "around_face ig fwd i nodes = around_face False fwd i nodes"
proof -
  have "cell_face ig fwd i nodes = cell_face False fwd i nodes"
    using assms by (simp add: cell_face_def faces_of_size_central [of _ ig])
  with assms show ?thesis by (cases "cell_face False fwd i nodes") (simp_all add: around_face_def)
qed

text \<open>Membership, and that every side has its reverse, in the form that is computed.\<close>

fun among :: "'a \<Rightarrow> 'a list \<Rightarrow> bool" where
  "among x [] = False"
| "among x (y # ys) = (if y = x then True else among x ys)"

lemma among_iff: "among x xs = (x \<in> set xs)"
  by (induction xs) auto

fun have_reverses :: "(nat \<times> nat) list \<Rightarrow> (nat \<times> nat) list \<Rightarrow> bool" where
  "have_reverses sides [] = True"
| "have_reverses sides ((a, b) # rest) = (if among (b, a) sides then have_reverses sides rest else False)"

lemma have_reverses_iff: "have_reverses sides xs = (\<forall>(a, b) \<in> set xs. (b, a) \<in> set sides)"
  by (induction xs rule: have_reverses.induct) (auto simp: among_iff)

definition closed_sides :: "nat \<Rightarrow> (nat \<times> nat) list \<Rightarrow> bool" where
  "closed_sides n sides = (distinct sides \<and> have_reverses sides sides \<and> list_all (\<lambda>(a, b). a < n \<and> b < n) sides)"

lemma index_cells_closed:
  "list_all (\<lambda>n. closed_sides n (cell_sides False True [0..<n])) volume_sizes" "closed_sides 27 (cell_sides True True [0..<27])"
  "list_all (\<lambda>n. closed_sides n (cell_sides False False [0..<n])) [4, 5, 6, 8, 10, 13, 15, 18, 20, 27]"
  "closed_sides 27 (cell_sides True False [0..<27])"
  by code_simp+

lemma index_faces_turned:
  "list_all (\<lambda>n. list_all (\<lambda>i. turns (around_face False True i [0..<n]) (around_face False False i [0..<n]))
     [0..<nb_faces_of_size n]) [4, 5, 6, 8, 10, 13, 15, 18, 20, 27]"
  "list_all (\<lambda>i. turns (around_face True True i [0..<27]) (around_face True False i [0..<27])) [0..<6]"
  by code_simp+

text \<open>Of a reversed hexagonal prism the bottom alone is turned.\<close>

lemma index_hex_prism_not_turned:
  "turns (around_face False True 0 [0..<12]) (around_face False False 0 [0..<12])"
  "list_all (\<lambda>i. around_face False False i [0..<12] = around_face False True i [0..<12]) [1..<8]"
  by code_simp+

text \<open>\<^verbatim>\<open>Inverse\<close> permutes the nodes as \<^verbatim>\<open>reverseSmdsOrder\<close> does, except of 18 nodes.\<close>

definition volume_of_size :: "nat \<Rightarrow> entity" where
  "volume_of_size n = hd (filter (\<lambda>e. nb_nodes_of e = int n \<and> p_type (props_of (to_vtk_type e)) = Abs_Volume) entity_types)"

lemma index_inverse:
  "list_all (\<lambda>n. inverse_nodes (inverse_nodes [0..<n]) = [0..<n]) volume_sizes"
  "list_all (\<lambda>n. inverse_nodes [0..<n] = reverse_order (volume_of_size n) n) [4, 5, 6, 8, 10, 12, 13, 15, 20, 27]"
  by code_simp+

text \<open>The face of the cell that a face of the inverted cell is.\<close>

definition inverse_face :: "nat \<Rightarrow> nat \<Rightarrow> nat" where
  "inverse_face n i =
     (if n = 4 \<or> n = 10 then [0, 3, 2, 1]
      else if n = 5 \<or> n = 13 then [0, 4, 3, 2, 1]
      else if n = 6 \<or> n = 15 \<or> n = 18 then [0, 1, 4, 3, 2]
      else if n = 12 then [0, 1, 7, 6, 5, 4, 3, 2]
      else [0, 1, 5, 4, 3, 2]) ! i"

lemma index_inverse_faces:
  "list_all (\<lambda>n. list_all (\<lambda>i. inverse_face n i < nb_faces_of_size n \<and>
     turns (around_face False True (inverse_face n i) [0..<n]) (around_face False True i (inverse_nodes [0..<n])))
     [0..<nb_faces_of_size n]) volume_sizes"
  "list_all (\<lambda>i. turns (around_face True True (inverse_face 27 i) [0..<27]) (around_face True True i (inverse_nodes [0..<27]))) [0..<6]"
  by code_simp+

lemma index_centres:
  "list_all (\<lambda>i. inverse_nodes [0..<27] ! nat (center_node_index 27 i) = nat (center_node_index 27 (inverse_face 27 i))) [0..<6]"
  "list_all (\<lambda>i. inverse_nodes [0..<18] ! nat (center_node_index 18 i) \<noteq> nat (center_node_index 18 (inverse_face 18 i))) [2..<5]"
  "list_all (\<lambda>i. reverse_order Entity_BiQuad_Penta 18 ! nat (center_node_index 18 i) \<noteq> nat (center_node_index 18 (inverse_face 18 i))) [2, 4]"
  by code_simp+

text \<open>Opposite faces have no corner in common, and are each other's opposite.\<close>

definition apart :: "nat \<Rightarrow> nat \<Rightarrow> bool" where
  "apart n i =
     (let j = nat (opposite_face_index n i); there = around_face False True j [0..<n]
      in j < nb_faces_of_size n \<and> opposite_face_index n j = int i \<and>
         list_all (\<lambda>k. \<not> among k there) (around_face False True i [0..<n]))"

lemma index_opposite_faces:
  "list_all (\<lambda>n. list_all (\<lambda>i. if opposite_face_index n i < 0 then True else apart n i) [0..<nb_faces_of_size n]) volume_sizes"
  by code_simp

lemma index_within:
  "list_all (\<lambda>n. list_all (\<lambda>i. list_all (\<lambda>k. k < n) (around_face False True i [0..<n])) [0..<nb_faces_of_size n]) volume_sizes"
  by code_simp

end
