(* ===== verification/CellChecks.thy ===== *)
theory CellChecks
  imports CellFacts
begin

text \<open>What the computed facts say of the nodes of any cell.\<close>

lemma all_sizes: "list_all P sizes \<Longrightarrow> n \<in> set sizes \<Longrightarrow> P n"
  by (simp add: list_all_iff)

lemma all_faces: "list_all P [0..<k] \<Longrightarrow> i < k \<Longrightarrow> P i"
  by (simp add: list_all_iff)

lemma nb_faces_27: "nb_faces_of_size 27 = 6"
  by (simp add: nb_faces_of_size_def faces_of_size_def tri_quad_hexa_faces_def)

lemma nth_inj: "distinct nodes \<Longrightarrow> a < length nodes \<Longrightarrow> b < length nodes \<Longrightarrow> (nodes ! a = nodes ! b) = (a = b)"
  by (rule nth_eq_iff_index_eq)

lemma sides_closed:
  assumes n: "length nodes \<in> set volume_sizes" and distinct: "distinct nodes" and fwd: "fwd \<or> length nodes \<noteq> 12"
  shows "distinct (cell_sides ig fwd nodes)" "prod.swap ` set (cell_sides ig fwd nodes) = set (cell_sides ig fwd nodes)"
proof -
  let ?ix = "cell_sides ig fwd [0..<length nodes]" and ?f = "map_prod (\<lambda>j. nodes ! j) (\<lambda>j. nodes ! j)"
  have "closed_sides (length nodes) ?ix"
  proof (cases "length nodes = 27 \<and> ig")
    case True
    then show ?thesis using index_cells_closed(2,4) by (cases fwd) simp_all
  next
    case False
    then have "cell_sides ig fwd [0..<length nodes] = cell_sides False fwd [0..<length nodes]"
      using around_face_central [of "[0..<length nodes]" ig fwd] by (cases ig) (simp_all add: cell_sides_def)
    moreover have "closed_sides (length nodes) (cell_sides False fwd [0..<length nodes])"
    proof (cases fwd)
      case True
      then show ?thesis using all_sizes [OF index_cells_closed(1) n] by simp
    next
      case False
      with n fwd have "length nodes \<in> set [4, 5, 6, 8, 10, 13, 15, 18, 20, 27]" by (auto simp: volume_sizes_def)
      with False show ?thesis using all_sizes [OF index_cells_closed(3)] by simp
    qed
    ultimately show ?thesis by simp
  qed
  then have ix: "distinct ?ix" "\<forall>(a, b) \<in> set ?ix. (b, a) \<in> set ?ix" "\<forall>(a, b) \<in> set ?ix. a < length nodes \<and> b < length nodes"
    by (auto simp: closed_sides_def have_reverses_iff list_all_iff)
  have "inj_on ?f (set ?ix)"
  proof (rule inj_onI)
    fix x y assume "x \<in> set ?ix" "y \<in> set ?ix" and same: "?f x = ?f y"
    then have "fst x < length nodes" "snd x < length nodes" "fst y < length nodes" "snd y < length nodes"
      using ix(3) by auto
    with same nth_inj [OF distinct] show "x = y" by (simp add: prod_eq_iff)
  qed
  then show "distinct (cell_sides ig fwd nodes)"
    unfolding cell_sides_indices [of ig fwd nodes] using ix(1) by (simp add: distinct_map)
  have "prod.swap ` set ?ix = set ?ix" using ix(2) by (force simp: image_iff)
  then have "?f ` prod.swap ` set ?ix = ?f ` set ?ix" by simp
  then show "prod.swap ` set (cell_sides ig fwd nodes) = set (cell_sides ig fwd nodes)"
    unfolding cell_sides_indices [of ig fwd nodes] by (simp add: image_image prod.swap_def map_prod_def case_prod_unfold)
qed

lemma faces_turned:
  assumes n: "length nodes \<in> set volume_sizes" "length nodes \<noteq> 12" and i: "i < nb_faces_of_size (length nodes)"
  shows "turned (around_face ig True i nodes) (around_face ig False i nodes)"
proof -
  have "turns (around_face ig True i [0..<length nodes]) (around_face ig False i [0..<length nodes])"
  proof (cases "length nodes = 27 \<and> ig")
    case True
    with i show ?thesis using all_faces [OF index_faces_turned(2)] by (simp add: nb_faces_27)
  next
    case False
    then have "around_face ig fwd i [0..<length nodes] = around_face False fwd i [0..<length nodes]" for fwd
      using around_face_central [of "[0..<length nodes]" ig] by (cases ig) simp_all
    moreover have "length nodes \<in> set [4, 5, 6, 8, 10, 13, 15, 18, 20, 27]" using n by (auto simp: volume_sizes_def)
    ultimately show ?thesis using all_faces [OF all_sizes [OF index_faces_turned(1)] i] by simp
  qed
  from turned_map [OF turns_turned [OF this]] show ?thesis
    unfolding around_face_indices [of ig True i nodes] around_face_indices [of ig False i nodes] .
qed

lemma inverse_faces_turned:
  assumes n: "length nodes \<in> set volume_sizes" and i: "i < nb_faces_of_size (length nodes)"
  shows "inverse_face (length nodes) i < nb_faces_of_size (length nodes)"
    and "turned (around_face ig True (inverse_face (length nodes) i) nodes) (around_face ig True i (inverse_nodes nodes))"
proof -
  note all = all_faces [OF all_sizes [OF index_inverse_faces(1) n] i]
  then show "inverse_face (length nodes) i < nb_faces_of_size (length nodes)" by blast
  have "turns (around_face ig True (inverse_face (length nodes) i) [0..<length nodes])
      (around_face ig True i (inverse_nodes [0..<length nodes]))"
  proof (cases "length nodes = 27 \<and> ig")
    case True
    with i show ?thesis using all_faces [OF index_inverse_faces(2)] by (simp add: nb_faces_27)
  next
    case False
    then have "around_face ig True j xs = around_face False True j xs" if "length xs = length nodes" for j and xs :: "nat list"
      using around_face_central [of xs ig] that by (cases ig) simp_all
    then show ?thesis using all by simp
  qed
  from turned_map [OF turns_turned [OF this], of "\<lambda>j. nodes ! j"]
  show "turned (around_face ig True (inverse_face (length nodes) i) nodes) (around_face ig True i (inverse_nodes nodes))"
    using around_face_map inverse_nodes_indices [of nodes] around_face_indices [of ig True _ nodes] by metis
qed

lemma inverse_involutive:
  assumes n: "length nodes \<in> set volume_sizes"
  shows "inverse_nodes (inverse_nodes nodes) = nodes"
proof -
  have "inverse_nodes (inverse_nodes nodes) = map (\<lambda>j. nodes ! j) (inverse_nodes (inverse_nodes [0..<length nodes]))"
    using inverse_nodes_map inverse_nodes_indices [of nodes] by metis
  then show ?thesis using all_sizes [OF index_inverse(1) n] by (simp add: map_nth)
qed

lemma inverse_is_reverse_order:
  assumes "length nodes \<in> set volume_sizes" "length nodes \<noteq> 18"
  shows "inverse_nodes nodes = map (\<lambda>j. nodes ! j) (reverse_order (volume_of_size (length nodes)) (length nodes))"
proof -
  have "length nodes \<in> set [4, 5, 6, 8, 10, 12, 13, 15, 20, 27]" using assms by (auto simp: volume_sizes_def)
  then have "inverse_nodes [0..<length nodes] = reverse_order (volume_of_size (length nodes)) (length nodes)"
    using index_inverse(2) unfolding list_all_iff by blast
  then show ?thesis using inverse_nodes_indices [of nodes] by simp
qed

lemma opposites_apart:
  assumes n: "length nodes \<in> set volume_sizes" and distinct: "distinct nodes" and i: "i < nb_faces_of_size (length nodes)"
    and opp: "opposite_face_index (length nodes) i = int j"
  shows "j < nb_faces_of_size (length nodes)" "opposite_face_index (length nodes) j = int i"
    "set (around_face False True i nodes) \<inter> set (around_face False True j nodes) = {}"
proof -
  let ?ix = "\<lambda>k. around_face False True k [0..<length nodes]"
  have "apart (length nodes) i" using all_faces [OF all_sizes [OF index_opposite_faces n] i] opp by simp
  then have "j < nb_faces_of_size (length nodes) \<and> opposite_face_index (length nodes) j = int i \<and> (\<forall>k \<in> set (?ix i). k \<notin> set (?ix j))"
    by (simp add: apart_def Let_def opp among_iff list_all_iff)
  moreover have "k < length nodes" if "k \<in> set (?ix m)" "m < nb_faces_of_size (length nodes)" for k m
    using all_faces [OF all_sizes [OF index_within n] that(2)] that(1) by (simp add: list_all_iff)
  ultimately show "j < nb_faces_of_size (length nodes)" "opposite_face_index (length nodes) j = int i"
    "set (around_face False True i nodes) \<inter> set (around_face False True j nodes) = {}"
    using i nth_inj [OF distinct] unfolding around_face_indices [of False True _ nodes] by auto
qed

text \<open>A reversed volume has the opposite faces of the forward one: its faces have the same nodes.\<close>

lemma reversed_opposites_apart:
  assumes n: "length nodes \<in> set volume_sizes" and distinct: "distinct nodes" and fwd: "fwd \<or> length nodes \<noteq> 12"
    and i: "i < nb_faces_of_size (length nodes)" and opp: "opposite_face_index (length nodes) i = int j"
  shows "set (around_face False fwd i nodes) \<inter> set (around_face False fwd j nodes) = {}"
proof -
  note apart = opposites_apart [OF n distinct i opp]
  have "set (around_face False fwd k nodes) = set (around_face False True k nodes)"
    if "k < nb_faces_of_size (length nodes)" for k
    using faces_turned [OF n _ that, of False] fwd by (cases fwd) (auto simp: turned_def)
  with i apart show ?thesis by simp
qed

end
