(* ===== verification/CellProps.thy ===== *)
theory CellProps
  imports CellChecks
begin

text \<open>
  The properties of the cell tables: the faces of every volume close up, and a volume turned inside
  out has the same faces the other way round.
\<close>

text \<open>
  C23. The faces of a volume close up, for each of the eleven node counts of the volumes that are no
  polyhedra, forward or reversed, with distinct nodes: each side of a face, from node to node, is
  met once, and its reverse is a side as well, so the faces bound the cell and all look outwards or
  all look inwards. An opposite face, where there is one, has no node in common with the face, and
  has the face for its own opposite. The reversed hexagonal prism is excepted: its reversed rows do
  not close up, which C33 is about. A polyhedron brings its faces with it and has no table.
\<close>

theorem cell_faces_close_up:
  assumes "length nodes \<in> set volume_sizes" and "distinct nodes" and "forward \<or> length nodes \<noteq> 12"
  shows "distinct (cell_sides ignore_central forward nodes) \<and>
    prod.swap ` set (cell_sides ignore_central forward nodes) = set (cell_sides ignore_central forward nodes) \<and>
    (\<forall>i < nb_faces_of_size (length nodes). \<forall>j. opposite_face_index (length nodes) i = int j \<longrightarrow>
       j < nb_faces_of_size (length nodes) \<and> opposite_face_index (length nodes) j = int i \<and>
       set (around_face False forward i nodes) \<inter> set (around_face False forward j nodes) = {})"
proof (intro conjI allI impI)
  show "distinct (cell_sides ignore_central forward nodes)"
    "prod.swap ` set (cell_sides ignore_central forward nodes) = set (cell_sides ignore_central forward nodes)"
    by (rule sides_closed [OF assms])+
  fix i j assume ij: "i < nb_faces_of_size (length nodes)" "opposite_face_index (length nodes) i = int j"
  show "j < nb_faces_of_size (length nodes)" "opposite_face_index (length nodes) j = int i"
    by (rule opposites_apart [OF assms(1,2) ij])+
  show "set (around_face False forward i nodes) \<inter> set (around_face False forward j nodes) = {}"
    by (rule reversed_opposites_apart [OF assms ij])
qed

theorem cell_faces_witness:
  "distinct (cell_sides False True [11..<38]) \<and>
   prod.swap ` set (cell_sides False True [11..<38]) = set (cell_sides False True [11..<38]) \<and>
   opposite_face_index 27 2 = int 4 \<and>
   set (around_face False True 2 [11..<38]) \<inter> set (around_face False True 4 [11..<38]) = {} \<and>
   distinct (cell_sides False False [11..<38]) \<and>
   prod.swap ` set (cell_sides False False [11..<38]) = set (cell_sides False False [11..<38])"
proof -
  have len: "length [11..<38] = 27" by simp
  have nodes: "length [11..<38] \<in> set volume_sizes" "distinct [11..<38]" "fwd \<or> length [11..<38] \<noteq> 12" for fwd
    unfolding len by (simp_all add: volume_sizes_def)
  have opp: "opposite_face_index 27 2 = int 4" "2 < nb_faces_of_size 27" by code_simp+
  note forward = cell_faces_close_up [OF nodes(1,2) nodes(3) [of True], of False]
    and reversed = cell_faces_close_up [OF nodes(1,2) nodes(3) [of False], of False]
  note facing = mp [OF spec [OF mp [OF spec [OF forward [THEN conjunct2, THEN conjunct2, unfolded len]] opp(2)]] opp(1)]
  show ?thesis
    by (intro conjI) (rule forward [THEN conjunct1] forward [THEN conjunct2, THEN conjunct1] opp(1)
        facing [THEN conjunct2, THEN conjunct2] reversed [THEN conjunct1] reversed [THEN conjunct2, THEN conjunct1])+
qed

text \<open>
  C24. For each node count of the volumes that are no polyhedra, \<^verbatim>\<open>Inverse\<close> undoes itself, and every face of the inverted volume is a face of the volume
  taken the other way round, its central node too where a cell of 27 nodes has one. Except of 18
  nodes it permutes the nodes as \<^verbatim>\<open>reverseSmdsOrder\<close>, which \<^verbatim>\<open>Reorient\<close> uses, and except of the
  hexagonal prism the faces of a reversed volume are its faces the other way round.
\<close>

theorem inverted_cell_is_inside_out:
  assumes "length nodes \<in> set volume_sizes" and "i < nb_faces_of_size (length nodes)"
  shows "inverse_nodes (inverse_nodes nodes) = nodes \<and>
    (\<exists>j < nb_faces_of_size (length nodes).
       turned (around_face ignore_central True j nodes) (around_face ignore_central True i (inverse_nodes nodes)) \<and>
       (length nodes = 27 \<longrightarrow>
          inverse_nodes nodes ! nat (center_node_index 27 i) = nodes ! nat (center_node_index 27 j))) \<and>
    (length nodes \<noteq> 18 \<longrightarrow>
       inverse_nodes nodes = map (\<lambda>k. nodes ! k) (reverse_order (volume_of_size (length nodes)) (length nodes))) \<and>
    (length nodes \<noteq> 12 \<longrightarrow>
       turned (around_face ignore_central True i nodes) (around_face ignore_central False i nodes))"
proof -
  have "inverse_nodes nodes ! nat (center_node_index 27 i) = nodes ! nat (center_node_index 27 (inverse_face (length nodes) i))"
    if "length nodes = 27"
  proof -
    have i: "i < 6" using assms(2) that by (simp add: nb_faces_27)
    then have "nat (center_node_index 27 i) < length (inverse_nodes [0..<27])" by (auto simp: center_node_index_def nat_less_iff)
    then have "inverse_nodes nodes ! nat (center_node_index 27 i) = nodes ! (inverse_nodes [0..<27] ! nat (center_node_index 27 i))"
      using inverse_nodes_indices [of nodes] by (simp add: that)
    with all_faces [OF index_centres(1) i] show ?thesis by (simp add: that)
  qed
  then show ?thesis
    using inverse_involutive [OF assms(1)] inverse_faces_turned [OF assms] inverse_is_reverse_order [OF assms(1)]
      faces_turned [OF assms(1) _ assms(2)] by metis
qed

theorem inverted_cell_witness:
  "inverse_nodes (inverse_nodes [1::int, 2, 3, 4, 5, 6, 7, 8]) = [1, 2, 3, 4, 5, 6, 7, 8] \<and>
   inverse_nodes [1::int, 2, 3, 4, 5, 6, 7, 8] = [1, 4, 3, 2, 5, 8, 7, 6] \<and>
   turned (around_face False True 2 [1::int, 2, 3, 4, 5, 6, 7, 8]) (around_face False False 2 [1, 2, 3, 4, 5, 6, 7, 8])"
proof -
  let ?hexa = "[1::int, 2, 3, 4, 5, 6, 7, 8]"
  have len: "length ?hexa = 8" by simp
  have "length ?hexa \<in> set volume_sizes" "2 < nb_faces_of_size (length ?hexa)" unfolding len by (simp add: volume_sizes_def) code_simp
  note inside_out = inverted_cell_is_inside_out [OF this, of False, unfolded len]
  have "inverse_nodes ?hexa = [1, 4, 3, 2, 5, 8, 7, 6]" by (simp add: inverse_nodes_def inverse_swaps_def swap_nodes_def)
  moreover have "inverse_nodes (inverse_nodes ?hexa) = ?hexa"
    "turned (around_face False True 2 ?hexa) (around_face False False 2 ?hexa)"
    using inside_out by auto
  ultimately show ?thesis by blast
qed

text \<open>
  C33. Two cells are not turned inside out. The side faces and the top of a reversed hexagonal prism
  are those of the forward one, the same way round. And \<^verbatim>\<open>Inverse\<close> of a wedge of 18 nodes leaves
  every side face with another face's central node.
\<close>

theorem prism_and_wedge_are_not_inverted:
  assumes "length prism = 12" and "i \<in> {1..<8}"
    and "length wedge = 18" and "distinct wedge" and "j \<in> {2..<5}"
  shows "around_face ignore_central False i prism = around_face ignore_central True i prism \<and>
    (\<exists>k \<in> {2..<5}. turned (around_face ignore_central True k wedge) (around_face ignore_central True j (inverse_nodes wedge)) \<and>
       inverse_nodes wedge ! nat (center_node_index 18 j) \<noteq> wedge ! nat (center_node_index 18 k))"
proof
  have "around_face False False i [0..<12] = around_face False True i [0..<12]"
    using index_hex_prism_not_turned(2) assms(2) by (simp add: list_all_iff)
  then have "around_face False False i prism = around_face False True i prism"
    using around_face_indices [of False _ i prism] assms(1) by metis
  then show "around_face ignore_central False i prism = around_face ignore_central True i prism"
    using around_face_central [of prism ignore_central] assms(1) by simp
next
  let ?k = "inverse_face 18 j"
  have k: "?k \<in> {2..<5}" using assms(5) by (auto simp: inverse_face_def less_Suc_eq numeral_eq_Suc)
  have nb: "nb_faces_of_size 18 = 5" by code_simp
  have "turned (around_face ignore_central True ?k wedge) (around_face ignore_central True j (inverse_nodes wedge))"
    using inverse_faces_turned(2) [of wedge j ignore_central] assms(3,5) by (simp add: volume_sizes_def nb)
  moreover have "inverse_nodes wedge ! nat (center_node_index 18 j) \<noteq> wedge ! nat (center_node_index 18 ?k)"
  proof -
    have at: "nat (center_node_index 18 j) < 18" "nat (center_node_index 18 ?k) < 18"
      by (simp_all add: center_node_index_def)
    then have "inverse_nodes wedge ! nat (center_node_index 18 j) = wedge ! (inverse_nodes [0..<18] ! nat (center_node_index 18 j))"
      using inverse_nodes_indices [of wedge] by (simp add: assms(3))
    moreover have "list_all (\<lambda>m. m < 18) (inverse_nodes [0..<18])" by code_simp
    then have "inverse_nodes [0..<18] ! nat (center_node_index 18 j) < 18"
      using at(1) by (simp add: list_all_length)
    moreover have "inverse_nodes [0..<18] ! nat (center_node_index 18 j) \<noteq> nat (center_node_index 18 ?k)"
      using index_centres(2) assms(5) unfolding list_all_iff set_upt by blast
    ultimately show ?thesis using assms(3,4) at(2) nth_inj [of wedge] by simp
  qed
  ultimately show "\<exists>k \<in> {2..<5}. turned (around_face ignore_central True k wedge) (around_face ignore_central True j (inverse_nodes wedge)) \<and>
      inverse_nodes wedge ! nat (center_node_index 18 j) \<noteq> wedge ! nat (center_node_index 18 k)" using k by blast
qed

theorem prism_and_wedge_witness:
  "around_face False False 3 [0..<12] = around_face False True 3 [0..<12] \<and>
   (\<exists>k \<in> {2..<5}. turned (around_face False True k [0..<18]) (around_face False True 2 (inverse_nodes [0..<18])) \<and>
      inverse_nodes [0..<18] ! nat (center_node_index 18 2) \<noteq> [0..<18] ! nat (center_node_index 18 k))"
  using prism_and_wedge_are_not_inverted [of "[0..<12]" 3 "[0..<18]" 2 False] by simp

end
