(* ===== verification/MeshStore.thy ===== *)
theory MeshStore
  imports IdPool CellTables
begin

text \<open>
  The mesh (\<^verbatim>\<open>SMDS_Mesh.cxx\<close>, with the methods of \<^verbatim>\<open>SMDS_MeshCell\<close>, \<^verbatim>\<open>SMDS_MeshVolume\<close>
  and \<^verbatim>\<open>SMDS_MeshInfo\<close> it is read through): two element factories, the VTK grid the nodes and
  cells live in, the tables between the ids of the cells and their places in the grid, and the
  counters. A coordinate triple is of any type. The grid's points are a map, its cells a list that
  is only ever appended to; a cell's node is held as the index of its point.
\<close>

section \<open>The data\<close>

text \<open>
  A cell of the grid: its type and the points it is given by. Of a polyhedron these are the face
  stream, each face its size and then its points, and the number of the faces.
\<close>

record grid_cell =
  g_type :: vtk_cell
  g_points :: "int list"
  g_nb_faces :: nat

record 'c smds_mesh =
  m_nodes :: factory
  m_points :: "int \<rightharpoonup> 'c"
  m_cells :: factory
  m_grid :: "grid_cell list"
  m_vtk_ids :: "int list"
  m_smds_ids :: "int list"
  m_info :: "entity \<Rightarrow> int"
  m_modified :: bool
  m_modif_time :: int

text \<open>
  A bad access, a polygon without nodes, sizes of faces that are negative or beyond the nodes given,
  where what the code then reads is undefined, or an element that is on another sub-shape.
\<close>

datatype store_error = BadAccess access_error | NoNodes | BadFaceSizes | OtherSubMesh

definition accessing :: "(access_error, 'a) result \<Rightarrow> (store_error, 'a) result" where
  "accessing r = (case r of Inl e \<Rightarrow> Inl (BadAccess e) | Inr x \<Rightarrow> Inr x)"

text \<open>The constructor; the counters start at 0, and \<^verbatim>\<open>Modified ()\<close> finds nothing modified.\<close>

definition new_mesh :: "'c smds_mesh" where
  "new_mesh = \<lparr>m_nodes = new_factory, m_points = Map.empty, m_cells = new_factory, m_grid = [], m_vtk_ids = [],
     m_smds_ids = [], m_info = (\<lambda>e. 0), m_modified = False, m_modif_time = 0\<rparr>"

definition modified :: "'c smds_mesh \<Rightarrow> 'c smds_mesh" where
  "modified m = (if m_modified m then m\<lparr>m_modif_time := m_modif_time m + 1, m_modified := False\<rparr> else m)"

section \<open>Ids of cells and places in the grid\<close>

text \<open>
  \<^verbatim>\<open>SetVTKID\<close>: the two tables hold the cells whose place is not their id less 1, and are the
  identity where they were never written.
\<close>

definition widen :: "int list \<Rightarrow> int \<Rightarrow> int list" where
  "widen xs n = xs @ [int (length xs)..n - 1]"

definition set_vtk_id :: "int \<Rightarrow> int \<Rightarrow> 'c smds_mesh \<Rightarrow> 'c smds_mesh" where
  "set_vtk_id k v m =
     (if k - 1 \<noteq> v then
        let vtk_ids = (if int (length (m_vtk_ids m)) \<le> k - 1 then widen (m_vtk_ids m) (k + 100) else m_vtk_ids m);
            smds_ids = (if int (length (m_smds_ids m)) \<le> v then widen (m_smds_ids m) (v + 100) else m_smds_ids m)
        in m\<lparr>m_vtk_ids := vtk_ids[nat (k - 1) := v], m_smds_ids := smds_ids[nat v := k - 1]\<rparr>
      else m\<lparr>m_vtk_ids := (if k \<le> int (length (m_vtk_ids m)) then (m_vtk_ids m)[nat (k - 1) := v] else m_vtk_ids m),
             m_smds_ids := (if v < int (length (m_smds_ids m)) then (m_smds_ids m)[nat v := k - 1] else m_smds_ids m)\<rparr>)"

definition get_vtk_id :: "int \<Rightarrow> 'c smds_mesh \<Rightarrow> int" where
  "get_vtk_id k m = (if k - 1 < int (length (m_vtk_ids m)) then m_vtk_ids m ! nat (k - 1) else k - 1)"

definition from_vtk_to_smds :: "int \<Rightarrow> 'c smds_mesh \<Rightarrow> int" where
  "from_vtk_to_smds v m = (if 0 \<le> v \<and> v < int (length (m_smds_ids m)) then m_smds_ids m ! nat v + 1 else v + 1)"

section \<open>Nodes\<close>

definition count_up :: "entity \<Rightarrow> int \<Rightarrow> 'c smds_mesh \<Rightarrow> 'c smds_mesh" where
  "count_up e d m = m\<lparr>m_info := (m_info m)(e := m_info m e + d)\<rparr>"

text \<open>\<^verbatim>\<open>AddNodeWithID\<close>: whether there was no such node; and \<^verbatim>\<open>AddNode\<close>: the id it takes.\<close>

definition add_node_with_id :: "'c \<Rightarrow> int \<Rightarrow> 'c smds_mesh \<Rightarrow> (store_error, bool \<times> 'c smds_mesh) result" where
  "add_node_with_id xyz k m =
     bind_result (accessing (new_element k (m_nodes m))) (\<lambda>(made, f).
       if \<not> made then Inr (False, m\<lparr>m_nodes := f\<rparr>)
       else Inr (True, count_up Entity_Node 1 (m\<lparr>m_nodes := f, m_points := (m_points m)(k - 1 \<mapsto> xyz), m_modified := True\<rparr>)))"

definition add_node :: "'c \<Rightarrow> 'c smds_mesh \<Rightarrow> (store_error, (int \<times> bool) \<times> 'c smds_mesh) result" where
  "add_node xyz m =
     bind_result (accessing (get_free_id (m_nodes m))) (\<lambda>(k, f).
       bind_result (add_node_with_id xyz k (m\<lparr>m_nodes := f\<rparr>)) (\<lambda>(made, n). Inr ((k, made), n)))"

definition find_node :: "int \<Rightarrow> 'c smds_mesh \<Rightarrow> bool" where
  "find_node k m = find_element k (m_nodes m)"

definition find_node_vtk :: "int \<Rightarrow> 'c smds_mesh \<Rightarrow> int option" where
  "find_node_vtk v m = (if find_node (v + 1) m then Some (v + 1) else None)"

section \<open>Cells\<close>

text \<open>\<^verbatim>\<open>SMDS_MeshCell::init\<close>: the points in VTK's order, where there is one for as many nodes.\<close>

definition in_vtk_order :: "entity \<Rightarrow> int list \<Rightarrow> int list" where
  "in_vtk_order e ids =
     (let interlace = to_vtk_order e
      in if length interlace = length ids then map (\<lambda>i. ids ! i) interlace else ids)"

definition insert_cell :: "int \<Rightarrow> grid_cell \<Rightarrow> 'c smds_mesh \<Rightarrow> 'c smds_mesh" where
  "insert_cell k c m = set_vtk_id k (int (length (m_grid m))) (m\<lparr>m_grid := m_grid m @ [c]\<rparr>)"

text \<open>
  What the functions that add a cell have in common: the nodes are found, the cell's id is new, and
  the cell is put in the grid and counted.
\<close>

definition add_new_cell :: "entity \<Rightarrow> grid_cell \<Rightarrow> int \<Rightarrow> 'c smds_mesh \<Rightarrow> (store_error, bool \<times> 'c smds_mesh) result" where
  "add_new_cell e c k m =
     bind_result (accessing (new_element k (m_cells m))) (\<lambda>(made, f).
       if \<not> made then Inr (False, m\<lparr>m_cells := f\<rparr>)
       else Inr (True, count_up e 1 (insert_cell k c (m\<lparr>m_cells := f, m_modified := True\<rparr>))))"

definition add_cell :: "entity \<Rightarrow> int list \<Rightarrow> int \<Rightarrow> 'c smds_mesh \<Rightarrow> (store_error, bool \<times> 'c smds_mesh) result" where
  "add_cell e ns k m =
     (if list_all (\<lambda>n. find_node n m) ns
      then add_new_cell e \<lparr>g_type = to_vtk_type e, g_points = in_vtk_order e (map (\<lambda>n. n - 1) ns), g_nb_faces = 0\<rparr> k m
      else Inr (False, m))"

text \<open>The overloads of \<^verbatim>\<open>Add0DElementWithID\<close>, \<^verbatim>\<open>AddEdgeWithID\<close>, \<^verbatim>\<open>AddFaceWithID\<close> and
  \<^verbatim>\<open>AddVolumeWithID\<close>, named by their number of nodes; the nodes are passed on in their order.\<close>

definition add_0d_element :: "int list \<Rightarrow> int \<Rightarrow> 'c smds_mesh \<Rightarrow> (store_error, bool \<times> 'c smds_mesh) result" where
  "add_0d_element = add_cell Entity_0D"

definition add_edge_2 :: "int list \<Rightarrow> int \<Rightarrow> 'c smds_mesh \<Rightarrow> (store_error, bool \<times> 'c smds_mesh) result" where
  "add_edge_2 = add_cell Entity_Edge"

definition add_edge_3 :: "int list \<Rightarrow> int \<Rightarrow> 'c smds_mesh \<Rightarrow> (store_error, bool \<times> 'c smds_mesh) result" where
  "add_edge_3 = add_cell Entity_Quad_Edge"

definition add_face_3 :: "int list \<Rightarrow> int \<Rightarrow> 'c smds_mesh \<Rightarrow> (store_error, bool \<times> 'c smds_mesh) result" where
  "add_face_3 = add_cell Entity_Triangle"

definition add_face_4 :: "int list \<Rightarrow> int \<Rightarrow> 'c smds_mesh \<Rightarrow> (store_error, bool \<times> 'c smds_mesh) result" where
  "add_face_4 = add_cell Entity_Quadrangle"

definition add_face_6 :: "int list \<Rightarrow> int \<Rightarrow> 'c smds_mesh \<Rightarrow> (store_error, bool \<times> 'c smds_mesh) result" where
  "add_face_6 = add_cell Entity_Quad_Triangle"

definition add_face_7 :: "int list \<Rightarrow> int \<Rightarrow> 'c smds_mesh \<Rightarrow> (store_error, bool \<times> 'c smds_mesh) result" where
  "add_face_7 = add_cell Entity_BiQuad_Triangle"

definition add_face_8 :: "int list \<Rightarrow> int \<Rightarrow> 'c smds_mesh \<Rightarrow> (store_error, bool \<times> 'c smds_mesh) result" where
  "add_face_8 = add_cell Entity_Quad_Quadrangle"

definition add_face_9 :: "int list \<Rightarrow> int \<Rightarrow> 'c smds_mesh \<Rightarrow> (store_error, bool \<times> 'c smds_mesh) result" where
  "add_face_9 = add_cell Entity_BiQuad_Quadrangle"

definition add_volume_4 :: "int list \<Rightarrow> int \<Rightarrow> 'c smds_mesh \<Rightarrow> (store_error, bool \<times> 'c smds_mesh) result" where
  "add_volume_4 = add_cell Entity_Tetra"

definition add_volume_5 :: "int list \<Rightarrow> int \<Rightarrow> 'c smds_mesh \<Rightarrow> (store_error, bool \<times> 'c smds_mesh) result" where
  "add_volume_5 = add_cell Entity_Pyramid"

definition add_volume_6 :: "int list \<Rightarrow> int \<Rightarrow> 'c smds_mesh \<Rightarrow> (store_error, bool \<times> 'c smds_mesh) result" where
  "add_volume_6 = add_cell Entity_Penta"

definition add_volume_8 :: "int list \<Rightarrow> int \<Rightarrow> 'c smds_mesh \<Rightarrow> (store_error, bool \<times> 'c smds_mesh) result" where
  "add_volume_8 = add_cell Entity_Hexa"

definition add_volume_10 :: "int list \<Rightarrow> int \<Rightarrow> 'c smds_mesh \<Rightarrow> (store_error, bool \<times> 'c smds_mesh) result" where
  "add_volume_10 = add_cell Entity_Quad_Tetra"

definition add_volume_12 :: "int list \<Rightarrow> int \<Rightarrow> 'c smds_mesh \<Rightarrow> (store_error, bool \<times> 'c smds_mesh) result" where
  "add_volume_12 = add_cell Entity_Hexagonal_Prism"

definition add_volume_13 :: "int list \<Rightarrow> int \<Rightarrow> 'c smds_mesh \<Rightarrow> (store_error, bool \<times> 'c smds_mesh) result" where
  "add_volume_13 = add_cell Entity_Quad_Pyramid"

definition add_volume_15 :: "int list \<Rightarrow> int \<Rightarrow> 'c smds_mesh \<Rightarrow> (store_error, bool \<times> 'c smds_mesh) result" where
  "add_volume_15 = add_cell Entity_Quad_Penta"

definition add_volume_18 :: "int list \<Rightarrow> int \<Rightarrow> 'c smds_mesh \<Rightarrow> (store_error, bool \<times> 'c smds_mesh) result" where
  "add_volume_18 = add_cell Entity_BiQuad_Penta"

definition add_volume_20 :: "int list \<Rightarrow> int \<Rightarrow> 'c smds_mesh \<Rightarrow> (store_error, bool \<times> 'c smds_mesh) result" where
  "add_volume_20 = add_cell Entity_Quad_Hexa"

definition add_volume_27 :: "int list \<Rightarrow> int \<Rightarrow> 'c smds_mesh \<Rightarrow> (store_error, bool \<times> 'c smds_mesh) result" where
  "add_volume_27 = add_cell Entity_TriQuad_Hexa"

text \<open>\<^verbatim>\<open>AddPolygonalFaceWithID\<close>, \<^verbatim>\<open>AddQuadPolygonalFaceWithID\<close>: the nodes as they are.\<close>

definition add_polygon :: "entity \<Rightarrow> int list \<Rightarrow> int \<Rightarrow> 'c smds_mesh \<Rightarrow> (store_error, bool \<times> 'c smds_mesh) result" where
  "add_polygon e ns k m =
     (if \<not> list_all (\<lambda>n. find_node n m) ns then Inr (False, m)
      else if ns = [] then Inl NoNodes
      else add_new_cell e \<lparr>g_type = to_vtk_type e, g_points = map (\<lambda>n. n - 1) ns, g_nb_faces = 0\<rparr> k m)"

definition add_polygonal_face :: "int list \<Rightarrow> int \<Rightarrow> 'c smds_mesh \<Rightarrow> (store_error, bool \<times> 'c smds_mesh) result" where
  "add_polygonal_face = add_polygon Entity_Polygon"

definition add_quad_polygonal_face :: "int list \<Rightarrow> int \<Rightarrow> 'c smds_mesh \<Rightarrow> (store_error, bool \<times> 'c smds_mesh) result" where
  "add_quad_polygonal_face = add_polygon Entity_Quad_Polygon"

text \<open>\<^verbatim>\<open>SMDS_MeshVolume::init\<close>: the face stream; the nodes are taken in turn.\<close>

fun face_stream :: "int list \<Rightarrow> int list \<Rightarrow> int list option" where
  "face_stream [] ids = Some []"
| "face_stream (q # qs) ids =
     (if q < 0 \<or> length ids < nat q then None
      else map_option (\<lambda>rest. q # take (nat q) ids @ rest) (face_stream qs (drop (nat q) ids)))"

definition add_polyhedral_volume ::
    "int list \<Rightarrow> int list \<Rightarrow> int \<Rightarrow> 'c smds_mesh \<Rightarrow> (store_error, bool \<times> 'c smds_mesh) result" where
  "add_polyhedral_volume ns quantities k m =
     (if \<not> list_all (\<lambda>n. find_node n m) ns then Inr (False, m)
      else if ns = [] \<or> quantities = [] then Inr (False, m)
      else case face_stream quantities (map (\<lambda>n. n - 1) ns) of
          None \<Rightarrow> bind_result (accessing (new_element k (m_cells m))) (\<lambda>(made, f).
            if made then Inl BadFaceSizes else Inr (False, m\<lparr>m_cells := f\<rparr>))
        | Some stream \<Rightarrow>
            add_new_cell Entity_Polyhedra \<lparr>g_type = VTK_POLYHEDRON, g_points = stream, g_nb_faces = length quantities\<rparr> k m)"

text \<open>\<^verbatim>\<open>AddBallWithID\<close>; the diameter is left out.\<close>

definition add_ball :: "int \<Rightarrow> int \<Rightarrow> 'c smds_mesh \<Rightarrow> (store_error, bool \<times> 'c smds_mesh) result" where
  "add_ball n k m = add_cell Entity_Ball [n] k m"

section \<open>Reading a cell\<close>

definition cell_place :: "int \<Rightarrow> 'c smds_mesh \<Rightarrow> grid_cell" where
  "cell_place k m = m_grid m ! nat (get_vtk_id k m)"

definition get_entity_type :: "int \<Rightarrow> 'c smds_mesh \<Rightarrow> entity" where
  "get_entity_type k m = to_smds_type (g_type (cell_place k m))"

definition get_type :: "int \<Rightarrow> 'c smds_mesh \<Rightarrow> element_type" where
  "get_type k m = p_type (props_of (g_type (cell_place k m)))"

text \<open>\<^verbatim>\<open>GetQuantities\<close>: the sizes of the faces met along the stream.\<close>

fun stream_sizes :: "nat \<Rightarrow> int list \<Rightarrow> int list" where
  "stream_sizes 0 pts = []"
| "stream_sizes (Suc f) pts = hd pts # stream_sizes f (drop (nat (hd pts) + 1) pts)"

definition get_quantities :: "int \<Rightarrow> 'c smds_mesh \<Rightarrow> int list" where
  "get_quantities k m =
     (let c = cell_place k m in if g_type c = VTK_POLYHEDRON then stream_sizes (g_nb_faces c) (g_points c) else [])"

definition nb_cell_nodes :: "int \<Rightarrow> 'c smds_mesh \<Rightarrow> int" where
  "nb_cell_nodes k m =
     (let c = cell_place k m
      in if g_type c = VTK_POLYHEDRON then sum_list (stream_sizes (g_nb_faces c) (g_points c)) else int (length (g_points c)))"

text \<open>
  \<^verbatim>\<open>SMDS_MeshVolume::GetNode\<close>: the loop over the faces, at face \<open>i\<close> with \<open>pts\<close> from its size on
  and \<open>nb\<close> points before it; the node's place in the stream.
\<close>

fun stream_index :: "nat \<Rightarrow> int list \<Rightarrow> nat \<Rightarrow> nat \<Rightarrow> nat \<Rightarrow> nat option" where
  "stream_index 0 pts i nb ind = None"
| "stream_index (Suc f) pts i nb ind =
     (let nf = nat (hd pts)
      in if ind < nb + nf then Some (1 + ind + i) else stream_index f (drop (nf + 1) pts) (i + 1) (nb + nf) ind)"

definition get_node :: "int \<Rightarrow> nat \<Rightarrow> 'c smds_mesh \<Rightarrow> int option" where
  "get_node k ind m =
     (let c = cell_place k m
      in if g_type c = VTK_POLYHEDRON then
           (case stream_index (g_nb_faces c) (g_points c) 0 0 ind of
              None \<Rightarrow> None | Some j \<Rightarrow> find_node_vtk (g_points c ! j) m)
         else let interlace = from_vtk_order (to_smds_type (g_type c))
              in find_node_vtk (g_points c ! (if interlace = [] then ind else interlace ! ind)) m)"

section \<open>Removal of a cell\<close>

text \<open>\<^verbatim>\<open>SMDS_MeshInfo::index\<close> with the fields its pointers lead to: by the family and the nodes.\<close>

fun info_field :: "element_type \<Rightarrow> int \<Rightarrow> entity option" where
  "info_field Abs_0DElement n = (if n = 1 then Some Entity_0D else None)"
| "info_field Abs_Ball n = (if n = 1 then Some Entity_Ball else None)"
| "info_field Abs_Edge n = (if n = 2 then Some Entity_Edge else if n = 3 then Some Entity_Quad_Edge else None)"
| "info_field Abs_Face n =
     (if n = 3 then Some Entity_Triangle else if n = 4 then Some Entity_Quadrangle
      else if n = 6 then Some Entity_Quad_Triangle else if n = 7 then Some Entity_BiQuad_Triangle
      else if n = 8 then Some Entity_Quad_Quadrangle else if n = 9 then Some Entity_BiQuad_Quadrangle else None)"
| "info_field Abs_Volume n =
     (if n = 4 then Some Entity_Tetra else if n = 5 then Some Entity_Pyramid else if n = 6 then Some Entity_Penta
      else if n = 8 then Some Entity_Hexa else if n = 10 then Some Entity_Quad_Tetra
      else if n = 12 then Some Entity_Hexagonal_Prism else if n = 13 then Some Entity_Quad_Pyramid
      else if n = 15 then Some Entity_Quad_Penta else if n = 18 then Some Entity_BiQuad_Penta
      else if n = 20 then Some Entity_Quad_Hexa else if n = 27 then Some Entity_TriQuad_Hexa else None)"
| "info_field t n = None"

text \<open>\<^verbatim>\<open>remove\<close>, \<^verbatim>\<open>RemoveEdge\<close>, \<^verbatim>\<open>RemoveFace\<close> and \<^verbatim>\<open>RemoveVolume\<close> of the counters.\<close>

definition info_removed :: "int \<Rightarrow> 'c smds_mesh \<Rightarrow> entity option" where
  "info_removed k m =
     (let t = get_type k m; e = get_entity_type k m; c = g_type (cell_place k m)
      in if t = Abs_Edge then Some (if p_is_quadratic (props_of c) then Entity_Quad_Edge else Entity_Edge)
         else if t = Abs_Face \<and> (e = Entity_Polygon \<or> e = Entity_Quad_Polygon) then Some e
         else if t = Abs_Volume \<and> p_is_poly (props_of c) then Some Entity_Polyhedra
         else info_field t (nb_cell_nodes k m))"

text \<open>
  \<^verbatim>\<open>RemoveFreeElement\<close> of a cell, with \<^verbatim>\<open>SMDS_ElementFactory::Free\<close>'s part in the tables. The
  links from points to cells are VTK's, and are left out.
\<close>

definition remove_cell :: "int \<Rightarrow> 'c smds_mesh \<Rightarrow> (store_error, 'c smds_mesh) result" where
  "remove_cell k m =
     (if \<not> find_element k (m_cells m) then Inl (BadAccess NullElement)
      else let v = get_vtk_id k m;
               counted = (case info_removed k m of None \<Rightarrow> m | Some e \<Rightarrow> count_up e (- 1) m);
               vtk_ids = (if m_vtk_ids m = [] \<or> int (length (m_vtk_ids m)) \<le> k - 1 then m_vtk_ids m
                          else (m_vtk_ids m)[nat (k - 1) := - 1]);
               smds_ids = (if m_vtk_ids m = [] \<or> int (length (m_smds_ids m)) \<le> v then m_smds_ids m
                           else (m_smds_ids m)[nat v := - 1])
           in bind_result (accessing (free_element k (m_cells m))) (\<lambda>f.
                Inr (counted\<lparr>m_cells := f, m_vtk_ids := vtk_ids, m_smds_ids := smds_ids, m_modified := True,
                  m_grid := (m_grid m)[nat v := (m_grid m ! nat v)\<lparr>g_type := VTK_EMPTY_CELL\<rparr>]\<rparr>)))"

section \<open>Counts and iterators\<close>

text \<open>\<^verbatim>\<open>SMDS_MeshInfo::NbElements\<close> of a family: the sum of its counters.\<close>

fun nb_elements :: "element_type \<Rightarrow> 'c smds_mesh \<Rightarrow> int" where
  "nb_elements Abs_Volume m = sum_list (map (m_info m) [Entity_Tetra, Entity_Pyramid, Entity_Penta, Entity_Hexa,
     Entity_Hexagonal_Prism, Entity_Quad_Tetra, Entity_Quad_Pyramid, Entity_Quad_Penta, Entity_BiQuad_Penta, Entity_Quad_Hexa,
     Entity_TriQuad_Hexa, Entity_Polyhedra])"
| "nb_elements Abs_Face m = sum_list (map (m_info m) [Entity_Triangle, Entity_Quadrangle, Entity_Quad_Triangle,
     Entity_BiQuad_Triangle, Entity_Quad_Quadrangle, Entity_BiQuad_Quadrangle, Entity_Polygon, Entity_Quad_Polygon])"
| "nb_elements Abs_Edge m = m_info m Entity_Edge + m_info m Entity_Quad_Edge"
| "nb_elements Abs_Node m = m_info m Entity_Node"
| "nb_elements Abs_0DElement m = m_info m Entity_0D"
| "nb_elements Abs_Ball m = m_info m Entity_Ball"
| "nb_elements Abs_All m = sum_list (map (m_info m) [Entity_0D, Entity_Ball, Entity_Tetra, Entity_Pyramid, Entity_Penta,
     Entity_Hexa, Entity_Quad_Tetra, Entity_Hexagonal_Prism, Entity_Quad_Pyramid, Entity_Quad_Penta, Entity_Edge,
     Entity_Quad_Edge, Entity_BiQuad_Penta, Entity_Quad_Hexa, Entity_Triangle, Entity_Quadrangle, Entity_TriQuad_Hexa,
     Entity_Quad_Triangle, Entity_BiQuad_Triangle, Entity_Quad_Quadrangle, Entity_BiQuad_Quadrangle, Entity_Polygon,
     Entity_Quad_Polygon, Entity_Polyhedra])"

text \<open>\<^verbatim>\<open>nodesIterator\<close>, and \<^verbatim>\<open>elementsIterator\<close>, whose limit holds where no id would change.\<close>

definition nodes_iterator :: "'c smds_mesh \<Rightarrow> int list" where
  "nodes_iterator m = iterate_used (\<lambda>k. True) None (m_nodes m)"

definition elements_iterator :: "element_type \<Rightarrow> 'c smds_mesh \<Rightarrow> int list" where
  "elements_iterator t m =
     (if t = Abs_All then iterate_used (\<lambda>k. True) None (m_cells m)
      else if t = Abs_Node then nodes_iterator m
      else let nb = (if compact_changes_ids (m_cells m) then None else Some (nat (nb_elements t m)))
           in iterate_used (\<lambda>k. get_type k m = t) nb (m_cells m))"

section \<open>Sub-shapes\<close>

text \<open>
  \<^verbatim>\<open>SMESHDS_SubMesh::AddNode\<close> and \<^verbatim>\<open>AddElement\<close> of the sub-mesh \<open>s\<close>: an element on another
  sub-shape is refused. The counters of the sub-mesh and its first elements are left out.
\<close>

definition submesh_add_node :: "int \<Rightarrow> int \<Rightarrow> 'c smds_mesh \<Rightarrow> (store_error, 'c smds_mesh) result" where
  "submesh_add_node s k m =
     (let old = get_shape_id k (m_nodes m)
      in if \<not> find_node k m then Inl (BadAccess NullElement)
         else if 0 < old then (if old \<noteq> s then Inl OtherSubMesh else Inr m)
         else Inr (m\<lparr>m_nodes := set_shape_id k s (m_nodes m)\<rparr>))"

definition submesh_add_element :: "int \<Rightarrow> int \<Rightarrow> 'c smds_mesh \<Rightarrow> (store_error, 'c smds_mesh) result" where
  "submesh_add_element s k m =
     (let old = get_shape_id k (m_cells m)
      in if \<not> find_element k (m_cells m) then Inl (BadAccess NullElement)
         else if 0 < old \<and> old \<noteq> s then Inl OtherSubMesh
         else Inr (m\<lparr>m_cells := set_shape_id k s (m_cells m)\<rparr>))"

section \<open>Cells by type and number of nodes\<close>

text \<open>\<^verbatim>\<open>family_of\<close>, \<^verbatim>\<open>is_free_form\<close> and \<^verbatim>\<open>add_element\<close> of \<^verbatim>\<open>mesher_scratch.cpp\<close>.\<close>

definition family_of :: "int \<Rightarrow> element_type" where
  "family_of t =
     (if t \<le> entity_code Entity_0D then Abs_0DElement
      else if t \<le> entity_code Entity_Quad_Edge then Abs_Edge
      else if t \<le> entity_code Entity_Quad_Polygon then Abs_Face
      else if t = entity_code Entity_Ball then Abs_Ball
      else Abs_Volume)"

definition is_free_form :: "int \<Rightarrow> bool" where
  "is_free_form t = (t \<in> {entity_code Entity_Polygon, entity_code Entity_Quad_Polygon, entity_code Entity_Polyhedra,
     entity_code Entity_Quad_Polyhedra})"

definition add_element :: "int \<Rightarrow> int list \<Rightarrow> int \<Rightarrow> 'c smds_mesh \<Rightarrow> (store_error, bool \<times> 'c smds_mesh) result" where
  "add_element t ns k m =
     (let n = length ns
      in if family_of t = Abs_0DElement then (if n = 1 then add_0d_element ns k m else Inr (False, m))
         else if family_of t = Abs_Edge then
           (if n = 2 then add_edge_2 ns k m else if n = 3 then add_edge_3 ns k m else Inr (False, m))
         else if family_of t = Abs_Face then
           (if n = 3 then add_face_3 ns k m else if n = 4 then add_face_4 ns k m else if n = 6 then add_face_6 ns k m
            else if n = 7 then add_face_7 ns k m else if n = 8 then add_face_8 ns k m
            else if n = 9 then add_face_9 ns k m else Inr (False, m))
         else if family_of t = Abs_Volume then
           (if n = 4 then add_volume_4 ns k m else if n = 5 then add_volume_5 ns k m
            else if n = 6 then add_volume_6 ns k m else if n = 8 then add_volume_8 ns k m
            else if n = 10 then add_volume_10 ns k m else if n = 12 then add_volume_12 ns k m
            else if n = 13 then add_volume_13 ns k m else if n = 15 then add_volume_15 ns k m
            else if n = 18 then add_volume_18 ns k m else if n = 20 then add_volume_20 ns k m
            else if n = 27 then add_volume_27 ns k m else Inr (False, m))
         else Inr (False, m))"

end
