(* ===== verification/MeshFacts.thy ===== *)
theory MeshFacts
  imports MeshStore
begin

text \<open>
  The mesh as two maps, from ids to coordinates and from ids to cells, each with the sub-shape: the
  invariant behind it, and every operation of the mesh as an operation on the maps.
\<close>

section \<open>Places in the grid\<close>

lemma widen_nth: "i < length xs \<Longrightarrow> widen xs n ! i = xs ! i"
  "length xs \<le> i \<Longrightarrow> int i < n \<Longrightarrow> widen xs n ! i = int i"
  by (simp_all add: widen_def nth_append)

lemma length_widen: "int (length xs) \<le> n \<Longrightarrow> int (length (widen xs n)) = n"
  by (simp add: widen_def)

text \<open>A table that is the identity beyond its end, and what a write does to it.\<close>

definition at_place :: "int list \<Rightarrow> int \<Rightarrow> int" where
  "at_place xs i = (if i < int (length xs) then xs ! nat i else i)"

lemma at_place_widen: "0 \<le> i \<Longrightarrow> int (length xs) \<le> n \<Longrightarrow> at_place (widen xs n) i = at_place xs i"
  using length_widen [of xs n] widen_nth(1) [of "nat i" xs n] widen_nth(2) [of xs "nat i" n] by (auto simp: at_place_def nat_less_iff not_less le_nat_iff)

lemma at_place_update:
  "0 \<le> i \<Longrightarrow> 0 \<le> j \<Longrightarrow> i < int (length xs) \<Longrightarrow> at_place (xs[nat i := v]) j = (if j = i then v else at_place xs j)"
  by (auto simp: at_place_def nth_list_update nat_less_iff eq_nat_nat_iff)

lemma at_place_set:
  assumes "0 \<le> i" "0 \<le> j" "i < n"
  shows "at_place ((if int (length xs) \<le> i then widen xs n else xs)[nat i := v]) j = (if j = i then v else at_place xs j)"
proof (cases "int (length xs) \<le> i")
  case True
  then have "int (length (widen xs n)) = n" using assms(3) by (intro length_widen) simp
  with at_place_update [of i j "widen xs n" v] at_place_widen [of j xs n] assms True show ?thesis by simp
qed (use at_place_update [of i j xs v] assms in simp)

lemma at_place_same:
  "0 \<le> i \<Longrightarrow> 0 \<le> j \<Longrightarrow> at_place (if i < int (length xs) then xs[nat i := i] else xs) j = (if j = i then i else at_place xs j)"
  using at_place_update [of i j xs i] by (auto simp: at_place_def)

lemma get_vtk_id_place: "get_vtk_id k m = at_place (m_vtk_ids m) (k - 1)"
  by (simp add: get_vtk_id_def at_place_def)

lemma from_vtk_to_smds_place: "0 \<le> v \<Longrightarrow> from_vtk_to_smds v m = at_place (m_smds_ids m) v + 1"
  by (simp add: from_vtk_to_smds_def at_place_def)

lemma get_set_vtk_id:
  assumes "0 < k" and "0 < j"
  shows "get_vtk_id j (set_vtk_id k v m) = (if j = k then v else get_vtk_id j m)"
proof (cases "k - 1 = v")
  case True
  let ?xs = "m_vtk_ids m"
  have "m_vtk_ids (set_vtk_id k v m) = (if v < int (length ?xs) then ?xs[nat v := v] else ?xs)"
    using True by (auto simp: set_vtk_id_def)
  with at_place_same [of v "j - 1" ?xs] assms True show ?thesis by (simp only: get_vtk_id_place) simp
next
  case False
  with at_place_set [of "k - 1" "j - 1" "k + 100" "m_vtk_ids m" v] assms show ?thesis
    by (simp add: set_vtk_id_def get_vtk_id_place Let_def)
qed

lemma from_set_vtk_id:
  assumes "0 \<le> v" and "0 \<le> u"
  shows "from_vtk_to_smds u (set_vtk_id k v m) = (if u = v then k else from_vtk_to_smds u m)"
proof (cases "k - 1 = v")
  case True
  let ?xs = "m_smds_ids m"
  have "m_smds_ids (set_vtk_id k v m) = (if v < int (length ?xs) then ?xs[nat v := v] else ?xs)"
    using True by (auto simp: set_vtk_id_def)
  with at_place_same [OF assms, of ?xs] assms True show ?thesis by (simp only: from_vtk_to_smds_place) auto
next
  case False
  with at_place_set [of v u "v + 100" "m_smds_ids m" "k - 1"] assms show ?thesis
    by (simp add: set_vtk_id_def from_vtk_to_smds_place Let_def)
qed

lemma set_vtk_id_simps [simp]:
  "m_nodes (set_vtk_id k v m) = m_nodes m" "m_points (set_vtk_id k v m) = m_points m"
  "m_cells (set_vtk_id k v m) = m_cells m" "m_grid (set_vtk_id k v m) = m_grid m"
  "m_info (set_vtk_id k v m) = m_info m" "m_modified (set_vtk_id k v m) = m_modified m"
  by (auto simp: set_vtk_id_def Let_def)

lemma count_up_simps [simp]:
  "m_nodes (count_up e d m) = m_nodes m" "m_points (count_up e d m) = m_points m"
  "m_cells (count_up e d m) = m_cells m" "m_grid (count_up e d m) = m_grid m"
  "m_vtk_ids (count_up e d m) = m_vtk_ids m" "m_smds_ids (count_up e d m) = m_smds_ids m"
  "m_info (count_up e d m) = (m_info m)(e := m_info m e + d)" "get_vtk_id k (count_up e d m) = get_vtk_id k m"
  by (auto simp: count_up_def get_vtk_id_def)

section \<open>A cell stored and read\<close>

record cell =
  c_entity :: entity
  c_nodes :: "int list"
  c_quantities :: "int list"

text \<open>The cells that are given by their nodes alone, and what is stored of a cell.\<close>

definition plain_entities :: "entity list" where
  "plain_entities = [Entity_0D, Entity_Edge, Entity_Quad_Edge, Entity_Triangle, Entity_Quad_Triangle,
     Entity_BiQuad_Triangle, Entity_Quadrangle, Entity_Quad_Quadrangle, Entity_BiQuad_Quadrangle, Entity_Tetra,
     Entity_Quad_Tetra, Entity_Pyramid, Entity_Quad_Pyramid, Entity_Hexa, Entity_Quad_Hexa, Entity_TriQuad_Hexa,
     Entity_Penta, Entity_Quad_Penta, Entity_BiQuad_Penta, Entity_Hexagonal_Prism, Entity_Ball]"

definition cell_valid :: "cell \<Rightarrow> bool" where
  "cell_valid c =
     (if c_entity c = Entity_Polyhedra then
        c_quantities c \<noteq> [] \<and> list_all (\<lambda>q. 0 \<le> q) (c_quantities c) \<and> int (length (c_nodes c)) = sum_list (c_quantities c)
      else c_quantities c = [] \<and>
        (if c_entity c \<in> {Entity_Polygon, Entity_Quad_Polygon} then c_nodes c \<noteq> []
         else c_entity c \<in> set plain_entities \<and> int (length (c_nodes c)) = nb_nodes_of (c_entity c)))"

definition stored :: "cell \<Rightarrow> grid_cell" where
  "stored c =
     (if c_entity c = Entity_Polyhedra then
        \<lparr>g_type = VTK_POLYHEDRON, g_points = the (face_stream (c_quantities c) (map (\<lambda>n. n - 1) (c_nodes c))),
         g_nb_faces = length (c_quantities c)\<rparr>
      else \<lparr>g_type = to_vtk_type (c_entity c), g_points = in_vtk_order (c_entity c) (map (\<lambda>n. n - 1) (c_nodes c)),
            g_nb_faces = 0\<rparr>)"

definition read_cell :: "int \<Rightarrow> 'c smds_mesh \<Rightarrow> cell" where
  "read_cell k m =
     \<lparr>c_entity = get_entity_type k m, c_nodes = map (\<lambda>i. the (get_node k i m)) [0..<nat (nb_cell_nodes k m)],
      c_quantities = get_quantities k m\<rparr>"

text \<open>The orders are permutations, inverse to each other.\<close>

lemma order_tables:
  "list_all (\<lambda>e. to_smds_type (to_vtk_type e) = e \<and> to_vtk_type e \<noteq> VTK_POLYHEDRON \<and> 0 \<le> nb_nodes_of e \<and>
     length (from_vtk_order e) = length (to_vtk_order e) \<and>
     (to_vtk_order e = [] \<or> int (length (to_vtk_order e)) = nb_nodes_of e)) plain_entities"
  "list_all (\<lambda>e. list_all (\<lambda>i. from_vtk_order e ! i < length (to_vtk_order e) \<and>
     to_vtk_order e ! (from_vtk_order e ! i) = i) [0..<length (to_vtk_order e)]) plain_entities"
  by code_simp+

lemma plain_entity:
  assumes "e \<in> set plain_entities"
  shows "to_smds_type (to_vtk_type e) = e" "to_vtk_type e \<noteq> VTK_POLYHEDRON" "0 \<le> nb_nodes_of e"
    "length (from_vtk_order e) = length (to_vtk_order e)"
    "to_vtk_order e \<noteq> [] \<Longrightarrow> int (length (to_vtk_order e)) = nb_nodes_of e"
    "i < length (to_vtk_order e) \<Longrightarrow> from_vtk_order e ! i < length (to_vtk_order e)"
    "i < length (to_vtk_order e) \<Longrightarrow> to_vtk_order e ! (from_vtk_order e ! i) = i"
  using order_tables assms by (auto simp: list_all_iff)

lemma in_vtk_order_read:
  assumes e: "e \<in> set plain_entities" and n: "int (length xs) = nb_nodes_of e" and i: "i < length xs"
  shows "length (in_vtk_order e xs) = length xs"
    and "in_vtk_order e xs ! (if from_vtk_order e = [] then i else from_vtk_order e ! i) = xs ! i"
proof -
  note e_facts = plain_entity [OF e]
  have "length (in_vtk_order e xs) = length xs \<and>
      in_vtk_order e xs ! (if from_vtk_order e = [] then i else from_vtk_order e ! i) = xs ! i"
  proof (cases "to_vtk_order e = []")
    case True
    with e_facts(4) show ?thesis using i by (simp add: in_vtk_order_def)
  next
    case False
    then have len: "length (to_vtk_order e) = length xs" using e_facts(5) n by simp
    moreover have "from_vtk_order e \<noteq> []" using False e_facts(4) by auto
    ultimately show ?thesis using e_facts(6,7) [of i] i by (simp add: in_vtk_order_def)
  qed
  then show "length (in_vtk_order e xs) = length xs"
    "in_vtk_order e xs ! (if from_vtk_order e = [] then i else from_vtk_order e ! i) = xs ! i" by simp_all
qed

lemma polygon_order: "e \<in> {Entity_Polygon, Entity_Quad_Polygon} \<Longrightarrow> xs \<noteq> [] \<Longrightarrow> in_vtk_order e xs = xs"
  by (auto simp: in_vtk_order_def)

text \<open>The face stream of as many nodes as the sizes ask for, and what is read back from it.\<close>

lemma face_stream_total:
  "list_all (\<lambda>q. 0 \<le> q) qs \<Longrightarrow> sum_list qs \<le> int (length ids) \<Longrightarrow> face_stream qs ids \<noteq> None"
proof (induction qs arbitrary: ids)
  case (Cons q qs)
  then have "0 \<le> sum_list qs" by (simp add: list_all_iff sum_list_nonneg)
  with Cons.prems have "nat q \<le> length ids" "sum_list qs \<le> int (length (drop (nat q) ids))" by (simp_all add: of_nat_diff)
  with Cons show ?case by simp
qed simp

lemma face_stream_bounds: "face_stream qs ids \<noteq> None \<Longrightarrow> list_all (\<lambda>q. 0 \<le> q) qs \<and> sum_list qs \<le> int (length ids)"
proof (induction qs arbitrary: ids)
  case (Cons q qs)
  then have q: "0 \<le> q" "nat q \<le> length ids" "face_stream qs (drop (nat q) ids) \<noteq> None" by (auto split: if_splits)
  with Cons.IH [OF q(3)] show ?case by (simp add: of_nat_diff)
qed simp

lemma face_stream_take: "face_stream qs ids = Some s \<Longrightarrow> face_stream qs (take (nat (sum_list qs)) ids) = Some s"
proof (induction qs arbitrary: ids s)
  case (Cons q qs)
  then have q: "0 \<le> q" "nat q \<le> length ids" by (simp_all split: if_splits)
  then obtain r where r: "face_stream qs (drop (nat q) ids) = Some r" "s = q # take (nat q) ids @ r"
    using Cons.prems by auto
  have "0 \<le> sum_list qs" using face_stream_bounds [of qs "drop (nat q) ids"] r(1) by (simp add: list_all_iff sum_list_nonneg)
  then have n: "nat (sum_list (q # qs)) = nat q + nat (sum_list qs)" using q(1) by (simp add: nat_add_distrib)
  have "drop (nat q) (take (nat q + nat (sum_list qs)) ids) = take (nat (sum_list qs)) (drop (nat q) ids)"
    by (simp add: drop_take)
  with Cons.IH [OF r(1)] q r(2) show ?case unfolding n by (simp add: min_absorb1)
qed simp

lemma stream_sizes_face_stream: "face_stream qs ids = Some s \<Longrightarrow> stream_sizes (length qs) s = qs"
proof (induction qs arbitrary: ids s)
  case (Cons q qs)
  then have q: "0 \<le> q" "nat q \<le> length ids" by (simp_all split: if_splits)
  then obtain r where r: "face_stream qs (drop (nat q) ids) = Some r" "s = q # take (nat q) ids @ r"
    using Cons.prems by auto
  with Cons.IH [OF r(1)] q(2) show ?case by simp
qed simp

lemma stream_index_face_stream:
  assumes "face_stream qs ids = Some s" and "int i < sum_list qs"
  shows "\<exists>j. stream_index (length qs) s f nb (nb + i) = Some (nb + f + j) \<and> 0 < j \<and> j < length s \<and> s ! j = ids ! i"
  using assms
proof (induction qs arbitrary: ids s i f nb)
  case (Cons q qs)
  then have q: "0 \<le> q" "nat q \<le> length ids" by (simp_all split: if_splits)
  then obtain r where r: "face_stream qs (drop (nat q) ids) = Some r" "s = q # take (nat q) ids @ r"
    using Cons.prems by auto
  show ?case
  proof (cases "i < nat q")
    case True
    then have "stream_index (length (q # qs)) s f nb (nb + i) = Some (nb + f + (i + 1))" by (simp add: r(2))
    moreover have "s ! (i + 1) = ids ! i" using True q(2) by (simp add: r(2) nth_append)
    ultimately show ?thesis using True q(2) r(2) by auto
  next
    case False
    then have i: "int (i - nat q) < sum_list qs" using Cons.prems(2) q(1) by (simp add: of_nat_diff)
    from Cons.IH [OF r(1) i, of "f + 1" "nb + nat q"] obtain j where j:
      "stream_index (length qs) r (f + 1) (nb + nat q) (nb + nat q + (i - nat q)) = Some (nb + nat q + (f + 1) + j)"
      "0 < j" "j < length r" "r ! j = drop (nat q) ids ! (i - nat q)" by blast
    have "stream_index (length (q # qs)) s f nb (nb + i) = Some (nb + f + (nat q + 1 + j))"
      using j(1) False q(2) by (simp add: r(2) add.commute add.left_commute)
    moreover have "s ! (nat q + 1 + j) = ids ! i" using j(4) False q(2) by (simp add: r(2) nth_append)
    moreover have "nat q + 1 + j < length s" using j(3) q(2) by (simp add: r(2))
    ultimately show ?thesis using j(2) by (intro exI [of _ "nat q + 1 + j"]) simp
  qed
qed simp

end
