(* ===== verification/MeshView.thy ===== *)
theory MeshView
  imports MeshFacts
begin

text \<open>
  What a mesh holds: its nodes as a map from ids to coordinates and sub-shapes, its cells as a map
  from ids to cells and sub-shapes; and the invariant that ties them to the factories, the grid,
  the tables of ids and the counters.
\<close>

section \<open>Reading back what is stored\<close>

lemma find_node_vtk_back: "find_node n m \<Longrightarrow> find_node_vtk (n - 1) m = Some n"
  by (simp add: find_node_vtk_def)

lemma poly_types [simp]:
  "to_smds_type VTK_POLYHEDRON = Entity_Polyhedra" "p_type (props_of VTK_POLYHEDRON) = Abs_Volume"
  "p_is_poly (props_of VTK_POLYHEDRON)"
  by code_simp+

lemma polygon_types:
  "e \<in> {Entity_Polygon, Entity_Quad_Polygon} \<Longrightarrow> to_smds_type (to_vtk_type e) = e \<and> to_vtk_type e \<noteq> VTK_POLYHEDRON \<and>
     from_vtk_order e = [] \<and> p_type (props_of (to_vtk_type e)) = Abs_Face"
  by auto code_simp+

lemma read_polyhedron:
  assumes c: "c_entity c = Entity_Polyhedra" "cell_valid c" and at_k: "cell_place k m = stored c"
    and nodes: "\<forall>n \<in> set (c_nodes c). find_node n m"
  shows "read_cell k m = c" and "get_type k m = Abs_Volume" and "nb_cell_nodes k m = int (length (c_nodes c))"
    and "i < length (c_nodes c) \<Longrightarrow> get_node k i m = Some (c_nodes c ! i)"
proof -
  let ?ids = "map (\<lambda>n. n - 1) (c_nodes c)" and ?qs = "c_quantities c"
  have qs: "list_all (\<lambda>q. 0 \<le> q) ?qs" "int (length (c_nodes c)) = sum_list ?qs" using c by (simp_all add: cell_valid_def)
  then obtain s where s: "face_stream ?qs ?ids = Some s" using face_stream_total [of ?qs ?ids] by auto
  then have place: "cell_place k m = \<lparr>g_type = VTK_POLYHEDRON, g_points = s, g_nb_faces = length ?qs\<rparr>"
    using at_k c(1) by (simp add: stored_def)
  note sizes = stream_sizes_face_stream [OF s]
  have nb: "nb_cell_nodes k m = sum_list ?qs" by (simp add: nb_cell_nodes_def place sizes)
  have node: "get_node k i m = Some (c_nodes c ! i)" if i: "i < length (c_nodes c)" for i
  proof -
    have "int i < sum_list ?qs" using i qs(2) by simp
    from stream_index_face_stream [OF s this, of 0 0] obtain j where
      "stream_index (length ?qs) s 0 0 i = Some j" "s ! j = ?ids ! i" by auto
    then show ?thesis using nodes i by (simp add: get_node_def place find_node_vtk_back)
  qed
  then show "i < length (c_nodes c) \<Longrightarrow> get_node k i m = Some (c_nodes c ! i)" .
  from node have "map (\<lambda>i. the (get_node k i m)) [0..<nat (nb_cell_nodes k m)] = c_nodes c"
    unfolding nb qs(2) [symmetric] by (intro nth_equalityI) simp_all
  then show "read_cell k m = c"
    using c(1) by (simp add: read_cell_def get_entity_type_def get_quantities_def place sizes)
  show "get_type k m = Abs_Volume" "nb_cell_nodes k m = int (length (c_nodes c))"
    using nb qs(2) by (simp_all add: get_type_def place set_props_def)
qed

lemma read_flat:
  assumes c: "c_entity c \<noteq> Entity_Polyhedra" "cell_valid c" and at_k: "cell_place k m = stored c"
    and nodes: "\<forall>n \<in> set (c_nodes c). find_node n m"
  shows "read_cell k m = c" and "get_type k m = p_type (props_of (to_vtk_type (c_entity c)))"
    and "nb_cell_nodes k m = int (length (c_nodes c))"
    and "i < length (c_nodes c) \<Longrightarrow> get_node k i m = Some (c_nodes c ! i)"
proof -
  let ?e = "c_entity c" and ?ids = "map (\<lambda>n. n - 1) (c_nodes c)"
  have place: "cell_place k m = \<lparr>g_type = to_vtk_type ?e, g_points = in_vtk_order ?e ?ids, g_nb_faces = 0\<rparr>"
    using at_k c(1) by (simp add: stored_def)
  have types: "to_smds_type (to_vtk_type ?e) = ?e" "to_vtk_type ?e \<noteq> VTK_POLYHEDRON" "c_quantities c = []"
    using c polygon_types plain_entity [of ?e] by (auto simp: cell_valid_def split: if_splits)
  have read: "length (in_vtk_order ?e ?ids) = length ?ids"
      "i < length (c_nodes c) \<Longrightarrow> in_vtk_order ?e ?ids ! (if from_vtk_order ?e = [] then i else from_vtk_order ?e ! i) = ?ids ! i"
    for i
  proof -
    show "length (in_vtk_order ?e ?ids) = length ?ids" by (simp add: in_vtk_order_def Let_def)
    assume i: "i < length (c_nodes c)"
    show "in_vtk_order ?e ?ids ! (if from_vtk_order ?e = [] then i else from_vtk_order ?e ! i) = ?ids ! i"
    proof (cases "?e \<in> {Entity_Polygon, Entity_Quad_Polygon}")
      case True
      have "?ids \<noteq> []" using i by auto
      then show ?thesis using polygon_order [OF True, of ?ids] polygon_types [OF True] by simp
    next
      case False
      then have "?e \<in> set plain_entities" "int (length ?ids) = nb_nodes_of ?e" using c by (auto simp: cell_valid_def)
      from in_vtk_order_read(2) [OF this] i show ?thesis by simp
    qed
  qed
  have nb: "nb_cell_nodes k m = int (length (c_nodes c))" using types(2) read(1) by (simp add: nb_cell_nodes_def place)
  have node: "get_node k i m = Some (c_nodes c ! i)" if "i < length (c_nodes c)" for i
    using read(2) [OF that] types(1,2) nodes that by (simp add: get_node_def place find_node_vtk_back del: if_split)
  then show "i < length (c_nodes c) \<Longrightarrow> get_node k i m = Some (c_nodes c ! i)" .
  from node have "map (\<lambda>i. the (get_node k i m)) [0..<nat (nb_cell_nodes k m)] = c_nodes c"
    unfolding nb by (intro nth_equalityI) simp_all
  then show "read_cell k m = c"
    using types by (simp add: read_cell_def get_entity_type_def get_quantities_def place)
  show "get_type k m = p_type (props_of (to_vtk_type ?e))" "nb_cell_nodes k m = int (length (c_nodes c))"
    using nb by (simp_all add: get_type_def place set_props_def)
qed

definition family :: "cell \<Rightarrow> element_type" where
  "family c = p_type (props_of (to_vtk_type (c_entity c)))"

lemma family_polyhedron: "c_entity c = Entity_Polyhedra \<Longrightarrow> family c = Abs_Volume"
  by (simp add: family_def) code_simp

lemma read_stored:
  assumes "cell_valid c" and "cell_place k m = stored c" and "\<forall>n \<in> set (c_nodes c). find_node n m"
  shows "read_cell k m = c" and "get_type k m = family c" and "nb_cell_nodes k m = int (length (c_nodes c))"
    and "get_entity_type k m = c_entity c" and "i < length (c_nodes c) \<Longrightarrow> get_node k i m = Some (c_nodes c ! i)"
proof -
  have "get_node k i m = Some (c_nodes c ! i)" if "i < length (c_nodes c)" for i
    using read_polyhedron(4) [OF _ assms that] read_flat(4) [OF _ assms that] by blast
  then show "i < length (c_nodes c) \<Longrightarrow> get_node k i m = Some (c_nodes c ! i)" .
  have "read_cell k m = c \<and> get_type k m = family c \<and> nb_cell_nodes k m = int (length (c_nodes c))"
  proof (cases "c_entity c = Entity_Polyhedra")
    case True
    with read_polyhedron [OF True assms] show ?thesis by (simp add: family_polyhedron)
  next
    case False
    with read_flat [OF False assms] show ?thesis by (simp add: family_def)
  qed
  then show read: "read_cell k m = c" and "get_type k m = family c" and "nb_cell_nodes k m = int (length (c_nodes c))"
    by simp_all
  from read have "c_entity (read_cell k m) = c_entity c" by simp
  then show "get_entity_type k m = c_entity c" by (simp add: read_cell_def)
qed

section \<open>The view and the invariant\<close>

definition nodes_of :: "'c smds_mesh \<Rightarrow> (int \<rightharpoonup> 'c \<times> int)" where
  "nodes_of m = (\<lambda>k. if find_node k m then Some (the (m_points m (k - 1)), get_shape_id k (m_nodes m)) else None)"

definition cells_of :: "'c smds_mesh \<Rightarrow> (int \<rightharpoonup> cell \<times> int)" where
  "cells_of m = (\<lambda>k. if find_element k (m_cells m) then Some (read_cell k m, get_shape_id k (m_cells m)) else None)"

text \<open>A cell in use has a place of its own in the grid, and there a cell on nodes in use.\<close>

definition cell_at :: "int \<Rightarrow> cell \<Rightarrow> 'c smds_mesh \<Rightarrow> bool" where
  "cell_at k c m =
     (0 \<le> get_vtk_id k m \<and> get_vtk_id k m < int (length (m_grid m)) \<and> from_vtk_to_smds (get_vtk_id k m) m = k \<and>
      cell_valid c \<and> cell_place k m = stored c \<and> set (c_nodes c) \<subseteq> used (m_nodes m))"

definition mesh_ok :: "'c smds_mesh \<Rightarrow> bool" where
  "mesh_ok m =
     (factory_ok (m_nodes m) \<and> factory_ok (m_cells m) \<and>
      (\<forall>k \<in> used (m_cells m). \<exists>c. cell_at k c m) \<and>
      (\<forall>e. m_info m e = (if e = Entity_Node then nb_used (m_nodes m)
        else int (card {k \<in> used (m_cells m). get_entity_type k m = e}))))"

lemma find_node_used: "find_node k m = (k \<in> used (m_nodes m))"
  by (simp add: find_node_def used_def)

lemma find_cell_used: "find_element k f = (k \<in> used f)"
  by (simp add: used_def)

lemma cell_at_read:
  assumes "cell_at k c m"
  shows "read_cell k m = c" "get_type k m = family c" "nb_cell_nodes k m = int (length (c_nodes c))"
    "get_entity_type k m = c_entity c" "cell_valid c" "set (c_nodes c) \<subseteq> used (m_nodes m)"
  using assms read_stored [of c k m] by (auto simp: cell_at_def find_node_used subset_iff)

lemma cell_at_node: "cell_at k c m \<Longrightarrow> i < length (c_nodes c) \<Longrightarrow> get_node k i m = Some (c_nodes c ! i)"
  using read_stored(5) [of c k m i] by (auto simp: cell_at_def find_node_used subset_iff)

lemma cells_of_at: "cell_at k c m \<Longrightarrow> k \<in> used (m_cells m) \<Longrightarrow> cells_of m k = Some (c, get_shape_id k (m_cells m))"
  using cell_at_read(1) [of k c m] by (simp add: cells_of_def find_cell_used)

lemma dom_cells_of [simp]: "dom (cells_of m) = used (m_cells m)"
  by (auto simp: cells_of_def used_def domIff split: if_splits)

lemma dom_nodes_of [simp]: "dom (nodes_of m) = used (m_nodes m)"
  by (auto simp: nodes_of_def find_node_used domIff split: if_splits)

lemma mesh_ok_new: "mesh_ok new_mesh"
  using factory_ok_new by (simp add: mesh_ok_def new_mesh_def new_factory_def)

lemma view_new: "nodes_of new_mesh = Map.empty" "cells_of new_mesh = Map.empty"
  using factory_ok_new(2) by (auto simp: nodes_of_def cells_of_def find_node_used find_cell_used new_mesh_def)

lemma cell_at_entity: "mesh_ok m \<Longrightarrow> k \<in> used (m_cells m) \<Longrightarrow> cell_at k (read_cell k m) m"
  using cell_at_read(1) by (fastforce simp: mesh_ok_def)

end
