(* ===== verification/MeshCalls.thy ===== *)
theory MeshCalls
  imports MeshView
begin

text \<open>
  The operations of the mesh on its two maps: each keeps the invariant and changes the maps as its
  specification says.
\<close>

section \<open>The maps through the factories\<close>

lemma nodes_of_pool: "nodes_of m k = map_option (\<lambda>s. (the (m_points m (k - 1)), s)) (pool (m_nodes m) k)"
  by (simp add: nodes_of_def find_node_used pool_def)

lemma cells_of_pool: "cells_of m k = map_option (\<lambda>s. (read_cell k m, s)) (pool (m_cells m) k)"
  by (simp add: cells_of_def find_cell_used pool_def)

lemma count_insert:
  assumes "finite U" and "k \<notin> U" and "E' k = a" and "\<And>j. j \<in> U \<Longrightarrow> E' j = E j"
  shows "int (card {j \<in> insert k U. E' j = e}) = int (card {j \<in> U. E j = e}) + (if e = a then 1 else 0)"
proof -
  have "{j \<in> insert k U. E' j = e} = (if e = a then insert k {j \<in> U. E j = e} else {j \<in> U. E j = e})"
    using assms(3,4) by auto
  then show ?thesis using assms(1,2) by simp
qed

lemma count_remove:
  assumes "finite U" and "k \<in> U"
  shows "int (card {j \<in> U - {k}. E j = e}) = int (card {j \<in> U. E j = e}) - (if e = E k then 1 else 0)"
  using count_insert [of "U - {k}" k E "E k" E e] assms by (simp add: insert_absorb)

lemma get_vtk_id_cong: "m_vtk_ids n = m_vtk_ids m \<Longrightarrow> get_vtk_id k n = get_vtk_id k m"
  by (simp add: get_vtk_id_def)

lemma from_vtk_to_smds_cong: "m_smds_ids n = m_smds_ids m \<Longrightarrow> from_vtk_to_smds k n = from_vtk_to_smds k m"
  by (simp add: from_vtk_to_smds_def)

lemma cell_at_mono:
  assumes "cell_at k c m" and "m_grid n = m_grid m" "m_vtk_ids n = m_vtk_ids m" "m_smds_ids n = m_smds_ids m"
    and "used (m_nodes m) \<subseteq> used (m_nodes n)"
  shows "cell_at k c n"
  using assms get_vtk_id_cong [OF assms(3)] from_vtk_to_smds_cong [OF assms(4)] by (auto simp: cell_at_def cell_place_def)

lemma read_kept:
  assumes "cell_at k c m" and "cell_at k c n"
  shows "read_cell k n = read_cell k m" "get_entity_type k n = get_entity_type k m"
  using cell_at_read [OF assms(1)] cell_at_read [OF assms(2)] by simp_all

lemma mesh_okD:
  assumes "mesh_ok m"
  shows "factory_ok (m_nodes m)" "factory_ok (m_cells m)" "k \<in> used (m_cells m) \<Longrightarrow> cell_at k (read_cell k m) m"
    "m_info m e = (if e = Entity_Node then nb_used (m_nodes m) else int (card {k \<in> used (m_cells m). get_entity_type k m = e}))"
    "finite (used (m_cells m))" "finite (used (m_nodes m))"
    "nb_used (m_nodes m) = int (card (used (m_nodes m)))"
proof -
  have ok: "factory_ok (m_nodes m)" "factory_ok (m_cells m)" using assms by (simp_all add: mesh_ok_def)
  then show "factory_ok (m_nodes m)" "factory_ok (m_cells m)" "finite (used (m_cells m))" "finite (used (m_nodes m))"
    "nb_used (m_nodes m) = int (card (used (m_nodes m)))" by (simp_all add: factory_ok_def)
  show "k \<in> used (m_cells m) \<Longrightarrow> cell_at k (read_cell k m) m" using assms by (rule cell_at_entity)
  show "m_info m e = (if e = Entity_Node then nb_used (m_nodes m) else int (card {k \<in> used (m_cells m). get_entity_type k m = e}))"
    using assms by (simp add: mesh_ok_def)
qed

text \<open>What changes only the nodes, or only the sub-shapes of the cells, keeps the cells.\<close>

lemma cells_kept:
  assumes ok: "mesh_ok m" and same: "m_grid n = m_grid m" "m_vtk_ids n = m_vtk_ids m" "m_smds_ids n = m_smds_ids m"
    and nodes: "used (m_nodes m) \<subseteq> used (m_nodes n)" "factory_ok (m_nodes n)"
    and cells: "used (m_cells n) = used (m_cells m)" "factory_ok (m_cells n)"
    and info: "\<And>e. m_info n e = (if e = Entity_Node then nb_used (m_nodes n) else m_info m e)"
  shows "mesh_ok n" and "k \<in> used (m_cells m) \<Longrightarrow> read_cell k n = read_cell k m"
proof -
  have at_k: "cell_at k (read_cell k m) n" if "k \<in> used (m_cells m)" for k
    using mesh_okD(3) [OF ok that] same nodes(1) by (rule cell_at_mono)
  note kept = read_kept [OF mesh_okD(3) [OF ok] at_k]
  show "k \<in> used (m_cells m) \<Longrightarrow> read_cell k n = read_cell k m" by (rule kept(1))
  have "{k \<in> used (m_cells n). get_entity_type k n = e} = {k \<in> used (m_cells m). get_entity_type k m = e}" for e
    using kept(2) cells(1) by auto
  then have "m_info n e = (if e = Entity_Node then nb_used (m_nodes n)
      else int (card {k \<in> used (m_cells n). get_entity_type k n = e}))" for e
    using mesh_okD(4) [OF ok, of e] info [of e] by simp
  then show "mesh_ok n" using nodes(2) cells at_k unfolding mesh_ok_def by blast
qed

section \<open>Nodes\<close>

lemma nodes_changed:
  assumes ok: "mesh_ok m" and same: "m_grid n = m_grid m" "m_vtk_ids n = m_vtk_ids m" "m_smds_ids n = m_smds_ids m"
    "m_cells n = m_cells m" and nodes: "used (m_nodes m) \<subseteq> used (m_nodes n)" "factory_ok (m_nodes n)"
    and info: "\<And>e. m_info n e = (if e = Entity_Node then nb_used (m_nodes n) else m_info m e)"
  shows "mesh_ok n" and "cells_of n = cells_of m"
proof -
  have cells: "used (m_cells n) = used (m_cells m)" "factory_ok (m_cells n)" using same(4) mesh_okD(2) [OF ok] by simp_all
  note kept = cells_kept [OF ok same(1-3) nodes cells info]
  show "mesh_ok n" by (rule kept(1))
  show "cells_of n = cells_of m" using kept(2) same(4) by (intro ext) (simp add: cells_of_def find_cell_used)
qed

lemma add_node_with_id_refines:
  assumes ok: "mesh_ok m" and k: "0 < k"
  obtains n where "add_node_with_id xyz k m = Inr (nodes_of m k = None, n)" "mesh_ok n" "cells_of n = cells_of m"
    "nodes_of n = (if nodes_of m k = None then (nodes_of m)(k \<mapsto> (xyz, 0)) else nodes_of m)"
proof -
  obtain f where f: "new_element k (m_nodes m) = Inr (k \<notin> used (m_nodes m), f)" "factory_ok f"
      "pool f = (if k \<in> used (m_nodes m) then pool (m_nodes m) else (pool (m_nodes m))(k \<mapsto> 0))"
    using make_refines [OF mesh_okD(1) [OF ok] k] .
  have free: "(nodes_of m k = None) = (k \<notin> used (m_nodes m))" by (simp add: nodes_of_def find_node_used)
  have used: "used f = insert k (used (m_nodes m))" using f(3) by (simp flip: pool_simps(2)) (auto simp: insert_absorb)
  have nb: "nb_used f = (if k \<in> used (m_nodes m) then nb_used (m_nodes m) else nb_used (m_nodes m) + 1)"
    using f(2) used mesh_okD(6,7) [OF ok] by (simp add: factory_ok_def insert_absorb)
  note info = mesh_okD(4) [OF ok, of Entity_Node]
  show ?thesis
  proof (cases "k \<in> used (m_nodes m)")
    case True
    let ?n = "m\<lparr>m_nodes := f\<rparr>"
    have "m_info ?n e = (if e = Entity_Node then nb_used (m_nodes ?n) else m_info m e)" for e using info nb True by simp
    then have "mesh_ok ?n" "cells_of ?n = cells_of m" using nodes_changed [OF ok, of ?n] f(2) used by (simp_all add: subset_insertI)
    moreover have "nodes_of ?n = nodes_of m" using f(3) True by (intro ext) (simp add: nodes_of_pool)
    ultimately show ?thesis using f(1) True by (intro that [of ?n]) (simp_all add: add_node_with_id_def accessing_def free)
  next
    case False
    let ?n = "count_up Entity_Node 1 (m\<lparr>m_nodes := f, m_points := (m_points m)(k - 1 \<mapsto> xyz), m_modified := True\<rparr>)"
    have "m_info ?n e = (if e = Entity_Node then nb_used (m_nodes ?n) else m_info m e)" for e using info nb False by simp
    then have "mesh_ok ?n" "cells_of ?n = cells_of m" using nodes_changed [OF ok, of ?n] f(2) used by (simp_all add: subset_insertI)
    moreover have "nodes_of ?n = (nodes_of m)(k \<mapsto> (xyz, 0))"
      using f(3) False by (intro ext) (auto simp: nodes_of_pool count_up_def)
    ultimately show ?thesis using f(1) False by (intro that [of ?n]) (simp_all add: add_node_with_id_def accessing_def free)
  qed
qed

lemma add_node_refines:
  assumes ok: "mesh_ok m"
  obtains n where "add_node xyz m = Inr ((first_free (nodes_of m), True), n)" "mesh_ok n" "cells_of n = cells_of m"
    "nodes_of n = (nodes_of m)(first_free (nodes_of m) \<mapsto> (xyz, 0))"
    "0 < first_free (nodes_of m)" "nodes_of m (first_free (nodes_of m)) = None"
proof -
  obtain k f where k: "get_free_id (m_nodes m) = Inr (k, f)" "factory_ok f" "used f = used (m_nodes m)" "0 < k"
      "k \<notin> used (m_nodes m)" "{1..<k} \<subseteq> used (m_nodes m)" and shapes: "\<forall>j \<in> used (m_nodes m). get_shape_id j f = get_shape_id j (m_nodes m)"
    using get_free_id_refines [OF mesh_okD(1) [OF ok]] by metis
  let ?m = "m\<lparr>m_nodes := f\<rparr>"
  have "nb_used f = nb_used (m_nodes m)" using k(2,3) mesh_okD(7) [OF ok] by (simp add: factory_ok_def)
  then have "m_info ?m e = (if e = Entity_Node then nb_used (m_nodes ?m) else m_info m e)" for e
    using mesh_okD(4) [OF ok, of Entity_Node] by simp
  then have ok': "mesh_ok ?m" and cells: "cells_of ?m = cells_of m"
    using nodes_changed [OF ok, of ?m] k(2,3) by simp_all
  have nodes: "nodes_of ?m = nodes_of m" using k(3) shapes by (intro ext) (simp add: nodes_of_def find_node_used)
  have free: "first_free (nodes_of m) = k" using k(4-6) by (intro first_free_eq) simp_all
  have none: "nodes_of m k = None" using k(5) by (simp add: nodes_of_def find_node_used)
  obtain n where "add_node_with_id xyz k ?m = Inr (nodes_of ?m k = None, n)" "mesh_ok n" "cells_of n = cells_of ?m"
    "nodes_of n = (if nodes_of ?m k = None then (nodes_of ?m)(k \<mapsto> (xyz, 0)) else nodes_of ?m)"
    using add_node_with_id_refines [OF ok' k(4)] .
  with k(1,4) none show ?thesis unfolding nodes cells
    by (intro that [of n]) (simp_all add: add_node_def accessing_def free)
qed

section \<open>Cells\<close>

definition with_cell :: "cell \<Rightarrow> int \<Rightarrow> factory \<Rightarrow> 'c smds_mesh \<Rightarrow> 'c smds_mesh" where
  "with_cell c k f m = count_up (c_entity c) 1 (insert_cell k (stored c) (m\<lparr>m_cells := f, m_modified := True\<rparr>))"

lemma with_cell_simps:
  "m_nodes (with_cell c k f m) = m_nodes m" "m_points (with_cell c k f m) = m_points m" "m_cells (with_cell c k f m) = f"
  "m_grid (with_cell c k f m) = m_grid m @ [stored c]"
  "m_info (with_cell c k f m) = (m_info m)(c_entity c := m_info m (c_entity c) + 1)"
  by (simp_all add: with_cell_def insert_cell_def)

lemma from_vtk_to_smds_count_up [simp]: "from_vtk_to_smds v (count_up e d m) = from_vtk_to_smds v m"
  by (rule from_vtk_to_smds_cong) simp

lemma with_cell_ids:
  assumes "0 < k"
  shows "0 < j \<Longrightarrow> get_vtk_id j (with_cell c k f m) = (if j = k then int (length (m_grid m)) else get_vtk_id j m)"
    and "0 \<le> v \<Longrightarrow> from_vtk_to_smds v (with_cell c k f m) = (if v = int (length (m_grid m)) then k else from_vtk_to_smds v m)"
proof -
  let ?m = "m\<lparr>m_cells := f, m_modified := True, m_grid := m_grid m @ [stored c]\<rparr>"
  have same: "get_vtk_id j ?m = get_vtk_id j m" "from_vtk_to_smds v ?m = from_vtk_to_smds v m" for j v
    by (simp_all add: get_vtk_id_def from_vtk_to_smds_def)
  show "0 < j \<Longrightarrow> get_vtk_id j (with_cell c k f m) = (if j = k then int (length (m_grid m)) else get_vtk_id j m)"
    "0 \<le> v \<Longrightarrow> from_vtk_to_smds v (with_cell c k f m) = (if v = int (length (m_grid m)) then k else from_vtk_to_smds v m)"
    using get_set_vtk_id [OF assms, of j _ ?m] from_set_vtk_id [of "int (length (m_grid m))" v k ?m] same
    by (simp_all add: with_cell_def insert_cell_def)
qed

lemma with_cell_at:
  assumes "0 < k"
  shows "cell_valid c \<Longrightarrow> set (c_nodes c) \<subseteq> used (m_nodes m) \<Longrightarrow> cell_at k c (with_cell c k f m)"
    and "cell_at j d m \<Longrightarrow> 0 < j \<Longrightarrow> j \<noteq> k \<Longrightarrow> cell_at j d (with_cell c k f m)"
proof -
  show "cell_at k c (with_cell c k f m)" if "cell_valid c" "set (c_nodes c) \<subseteq> used (m_nodes m)"
    using that with_cell_ids(1) [OF assms assms, of c f m] with_cell_ids(2) [OF assms, of "int (length (m_grid m))" c f m]
    by (simp add: cell_at_def cell_place_def with_cell_simps)
  assume j: "cell_at j d m" "0 < j" "j \<noteq> k"
  then have v: "get_vtk_id j (with_cell c k f m) = get_vtk_id j m" "0 \<le> get_vtk_id j m" "get_vtk_id j m < int (length (m_grid m))"
    using with_cell_ids(1) [OF assms j(2)] by (simp_all add: cell_at_def)
  then have "from_vtk_to_smds (get_vtk_id j m) (with_cell c k f m) = j"
    using with_cell_ids(2) [OF assms v(2), of c f m] v(3) j(1) by (simp add: cell_at_def)
  with v j(1) show "cell_at j d (with_cell c k f m)"
    by (simp add: cell_at_def cell_place_def with_cell_simps nth_append nat_less_iff)
qed

lemma valid_not_node: "cell_valid c \<Longrightarrow> c_entity c \<noteq> Entity_Node"
  by (auto simp: cell_valid_def plain_entities_def)

lemma with_cell_ok:
  assumes ok: "mesh_ok m" and k: "0 < k" "k \<notin> used (m_cells m)" and f: "factory_ok f" "pool f = (pool (m_cells m))(k \<mapsto> 0)"
    and c: "cell_valid c" "set (c_nodes c) \<subseteq> used (m_nodes m)"
  shows "mesh_ok (with_cell c k f m)" "nodes_of (with_cell c k f m) = nodes_of m"
    "cells_of (with_cell c k f m) = (cells_of m)(k \<mapsto> (c, 0))"
proof -
  let ?n = "with_cell c k f m"
  have used: "used f = insert k (used (m_cells m))" using f(2) by (simp flip: pool_simps(2))
  note new = with_cell_at(1) [OF k(1) c, of f]
  have old: "cell_at j (read_cell j m) ?n" if "j \<in> used (m_cells m)" for j
    using with_cell_at(2) [OF k(1) mesh_okD(3) [OF ok that]] that k(2) used_pos by auto
  note kept = read_kept [OF mesh_okD(3) [OF ok] old]
  have "int (card {j \<in> insert k (used (m_cells m)). get_entity_type j ?n = e}) =
      int (card {j \<in> used (m_cells m). get_entity_type j m = e}) + (if e = c_entity c then 1 else 0)" for e
    using kept(2) by (intro count_insert) (simp_all add: mesh_okD(5) [OF ok] k(2) cell_at_read(4) [OF new])
  then have "m_info ?n e = (if e = Entity_Node then nb_used (m_nodes ?n)
      else int (card {k \<in> used (m_cells ?n). get_entity_type k ?n = e}))" for e
    using mesh_okD(4) [OF ok, of e] valid_not_node [OF c(1)] by (auto simp: with_cell_simps used)
  then show "mesh_ok ?n"
    using new old f(1) mesh_okD(1) [OF ok] unfolding mesh_ok_def by (auto simp: with_cell_simps used)
  show "nodes_of ?n = nodes_of m" by (intro ext) (simp add: nodes_of_pool with_cell_simps)
  have "cells_of ?n j = ((cells_of m)(k \<mapsto> (c, 0))) j" for j
    using cell_at_read(1) [OF new] kept(1) [of j] f(2) by (cases "j \<in> used (m_cells m)") (auto simp: cells_of_pool with_cell_simps pool_def)
  then show "cells_of ?n = (cells_of m)(k \<mapsto> (c, 0))" ..
qed

lemma cells_same:
  assumes ok: "mesh_ok m" and f: "factory_ok f" "pool f = pool (m_cells m)"
  shows "mesh_ok (m\<lparr>m_cells := f\<rparr>)" "cells_of (m\<lparr>m_cells := f\<rparr>) = cells_of m" "nodes_of (m\<lparr>m_cells := f\<rparr>) = nodes_of m"
proof -
  let ?n = "m\<lparr>m_cells := f\<rparr>"
  have used: "used f = used (m_cells m)" using f(2) by (simp flip: pool_simps(2))
  have "m_info ?n e = (if e = Entity_Node then nb_used (m_nodes ?n) else m_info m e)" for e
    using mesh_okD(4) [OF ok, of e] by simp
  note kept = cells_kept [OF ok, of ?n, OF _ _ _ _ _ _ _ this]
  show "mesh_ok ?n" using kept(1) f(1) used mesh_okD(1) [OF ok] by simp
  have "read_cell k ?n = read_cell k m" if "k \<in> used (m_cells m)" for k
    using kept(2) [OF _ _ _ _ _ _ _ that] f(1) used mesh_okD(1) [OF ok] by simp
  then have "cells_of ?n k = cells_of m k" for k
    using f(2) by (cases "k \<in> used (m_cells m)") (simp_all add: cells_of_pool pool_def)
  then show "cells_of ?n = cells_of m" ..
  show "nodes_of ?n = nodes_of m" by (intro ext) (simp add: nodes_of_pool)
qed

lemma add_new_cell_refines:
  assumes ok: "mesh_ok m" and k: "0 < k" and c: "cell_valid c" "set (c_nodes c) \<subseteq> used (m_nodes m)"
  obtains n where "add_new_cell (c_entity c) (stored c) k m = Inr (cells_of m k = None, n)" "mesh_ok n" "nodes_of n = nodes_of m"
    "cells_of n = (if cells_of m k = None then (cells_of m)(k \<mapsto> (c, 0)) else cells_of m)"
proof -
  obtain f where f: "new_element k (m_cells m) = Inr (k \<notin> used (m_cells m), f)" "factory_ok f"
      "pool f = (if k \<in> used (m_cells m) then pool (m_cells m) else (pool (m_cells m))(k \<mapsto> 0))"
    using make_refines [OF mesh_okD(2) [OF ok] k] .
  have free: "(cells_of m k = None) = (k \<notin> used (m_cells m))" by (simp add: cells_of_def find_cell_used)
  show ?thesis
  proof (cases "k \<in> used (m_cells m)")
    case True
    with f(3) have "pool f = pool (m_cells m)" by simp
    note same = cells_same [OF ok f(2) this]
    show ?thesis
      by (rule that [of "m\<lparr>m_cells := f\<rparr>"]) (use f(1) True same free in \<open>auto simp: add_new_cell_def accessing_def\<close>)
  next
    case False
    with f(3) have "pool f = (pool (m_cells m))(k \<mapsto> 0)" by simp
    note new = with_cell_ok [OF ok k False f(2) this c]
    show ?thesis
      by (rule that [of "with_cell c k f m"])
        (use f(1) False new free in \<open>simp_all add: add_new_cell_def accessing_def with_cell_def\<close>)
  qed
qed

section \<open>Removal\<close>

lemma counters_of_plain:
  "list_all (\<lambda>e. if p_type (props_of (to_vtk_type e)) = Abs_Edge
     then (if p_is_quadratic (props_of (to_vtk_type e)) then Entity_Quad_Edge else Entity_Edge) = e
     else \<not> p_is_poly (props_of (to_vtk_type e)) \<and> e \<noteq> Entity_Polygon \<and> e \<noteq> Entity_Quad_Polygon \<and>
       info_field (p_type (props_of (to_vtk_type e))) (nb_nodes_of e) = Some e) plain_entities"
  by code_simp

lemma info_removed_at:
  assumes "cell_at k c m"
  shows "info_removed k m = Some (c_entity c)"
proof -
  note read = cell_at_read [OF assms]
  have valid: "cell_valid c" and place: "cell_place k m = stored c" using assms by (simp_all add: cell_at_def)
  consider "c_entity c = Entity_Polyhedra" | "c_entity c \<in> {Entity_Polygon, Entity_Quad_Polygon}"
    | "c_entity c \<in> set plain_entities" "int (length (c_nodes c)) = nb_nodes_of (c_entity c)"
    using valid by (auto simp: cell_valid_def split: if_splits)
  then show ?thesis
  proof cases
    case 1
    then show ?thesis using read(2,4) family_polyhedron [OF 1] poly_types(3) place
      by (simp add: info_removed_def stored_def del: props_of.simps)
  next
    case 2
    then show ?thesis using read(2,4) polygon_types [OF 2] place
      by (simp add: info_removed_def family_def del: props_of.simps)
  next
    case 3
    have "c_entity c \<noteq> Entity_Polyhedra" using 3(1) by (auto simp: plain_entities_def)
    then have g: "g_type (cell_place k m) = to_vtk_type (c_entity c)" using place by (simp add: stored_def)
    have "if p_type (props_of (to_vtk_type (c_entity c))) = Abs_Edge
      then (if p_is_quadratic (props_of (to_vtk_type (c_entity c))) then Entity_Quad_Edge else Entity_Edge) = c_entity c
      else \<not> p_is_poly (props_of (to_vtk_type (c_entity c))) \<and> c_entity c \<noteq> Entity_Polygon \<and> c_entity c \<noteq> Entity_Quad_Polygon \<and>
        info_field (p_type (props_of (to_vtk_type (c_entity c)))) (nb_nodes_of (c_entity c)) = Some (c_entity c)"
      by (rule bspec [OF counters_of_plain [unfolded list_all_iff] 3(1)])
    with 3(2) show ?thesis unfolding info_removed_def Let_def read(2-4) g family_def
      by (cases "p_type (props_of (to_vtk_type (c_entity c))) = Abs_Edge") (simp_all del: props_of.simps to_vtk_type.simps)
  qed
qed

definition without_cell :: "int \<Rightarrow> factory \<Rightarrow> 'c smds_mesh \<Rightarrow> 'c smds_mesh" where
  "without_cell k f m = (let v = get_vtk_id k m in (case info_removed k m of None \<Rightarrow> m | Some e \<Rightarrow> count_up e (- 1) m)\<lparr>m_cells := f,
     m_vtk_ids := (if m_vtk_ids m = [] \<or> int (length (m_vtk_ids m)) \<le> k - 1 then m_vtk_ids m else (m_vtk_ids m)[nat (k - 1) := - 1]),
     m_smds_ids := (if m_vtk_ids m = [] \<or> int (length (m_smds_ids m)) \<le> v then m_smds_ids m else (m_smds_ids m)[nat v := - 1]),
     m_modified := True, m_grid := (m_grid m)[nat v := (m_grid m ! nat v)\<lparr>g_type := VTK_EMPTY_CELL\<rparr>]\<rparr>)"

lemma without_cell_simps:
  assumes "cell_at k c m"
  shows "m_nodes (without_cell k f m) = m_nodes m" "m_points (without_cell k f m) = m_points m"
    "m_cells (without_cell k f m) = f" "m_info (without_cell k f m) = (m_info m)(c_entity c := m_info m (c_entity c) - 1)"
    "m_grid (without_cell k f m) = (m_grid m)[nat (get_vtk_id k m) := (cell_place k m)\<lparr>g_type := VTK_EMPTY_CELL\<rparr>]"
  by (simp_all add: without_cell_def info_removed_at [OF assms] cell_place_def Let_def count_up_def)

lemma without_cell_at:
  assumes k: "cell_at k c m" "0 < k" and j: "cell_at j d m" "0 < j" "j \<noteq> k"
  shows "cell_at j d (without_cell k f m)"
proof -
  let ?n = "without_cell k f m" and ?v = "get_vtk_id k m" and ?u = "get_vtk_id j m"
  have uv: "0 \<le> ?v" "0 \<le> ?u" "?u \<noteq> ?v" using k(1) j(1,3) by (auto simp: cell_at_def)
  have "get_vtk_id j ?n = ?u"
    using at_place_update [of "k - 1" "j - 1" "m_vtk_ids m" "- 1"] k(2) j(2,3) by (simp add: get_vtk_id_place without_cell_def Let_def)
  moreover have "from_vtk_to_smds ?u ?n = from_vtk_to_smds ?u m"
    using at_place_update [OF uv(1,2), of "m_smds_ids m" "- 1"] uv by (simp add: from_vtk_to_smds_place without_cell_def Let_def)
  moreover have "nat ?v \<noteq> nat ?u" using uv by (simp add: eq_nat_nat_iff)
  ultimately show ?thesis using j(1) uv by (simp add: cell_at_def cell_place_def without_cell_simps [OF k(1)])
qed

lemma remove_cell_refines:
  assumes ok: "mesh_ok m" and k: "k \<in> used (m_cells m)"
  obtains n where "remove_cell k m = Inr n" "mesh_ok n" "nodes_of n = nodes_of m" "cells_of n = (cells_of m)(k := None)"
proof -
  obtain f where f: "free_element k (m_cells m) = Inr f" "factory_ok f" "pool f = (pool (m_cells m))(k := None)"
    using drop_refines [OF mesh_okD(2) [OF ok] k] .
  let ?n = "without_cell k f m" and ?c = "read_cell k m"
  have used: "used f = used (m_cells m) - {k}" using f(3) by (simp flip: pool_simps(2))
  note at_k = mesh_okD(3) [OF ok k]
  have old: "cell_at j (read_cell j m) ?n" if "j \<in> used f" for j
    using without_cell_at [OF at_k used_pos [OF k] mesh_okD(3) [OF ok]] that used used_pos by blast
  have kept: "read_cell j ?n = read_cell j m" "get_entity_type j ?n = get_entity_type j m" if "j \<in> used f" for j
    using read_kept [OF mesh_okD(3) [OF ok] old [OF that]] that used by auto
  have "{j \<in> used f. get_entity_type j ?n = e} = {j \<in> used (m_cells m) - {k}. get_entity_type j m = e}" for e
    using kept(2) used by auto
  then have "m_info ?n e = (if e = Entity_Node then nb_used (m_nodes ?n)
      else int (card {k \<in> used (m_cells ?n). get_entity_type k ?n = e}))" for e
    using mesh_okD(4) [OF ok, of e] valid_not_node [OF cell_at_read(5) [OF at_k]] cell_at_read(4) [OF at_k]
      count_remove [OF mesh_okD(5) [OF ok] k, of "\<lambda>j. get_entity_type j m" e]
    by (auto simp: without_cell_simps [OF at_k])
  then have ok_n: "mesh_ok ?n"
    using old f(2) mesh_okD(1) [OF ok] unfolding mesh_ok_def by (auto simp: without_cell_simps [OF at_k])
  have nodes: "nodes_of ?n = nodes_of m" by (intro ext) (simp add: nodes_of_pool without_cell_simps [OF at_k])
  have "cells_of ?n j = ((cells_of m)(k := None)) j" for j
    using kept(1) [of j] f(3) used by (cases "j \<in> used f") (auto simp: cells_of_pool without_cell_simps [OF at_k] pool_def)
  then have "cells_of ?n = (cells_of m)(k := None)" ..
  moreover have "remove_cell k m = Inr ?n"
    using k f(1) by (simp add: remove_cell_def without_cell_def find_cell_used accessing_def Let_def)
  ultimately show ?thesis using that ok_n nodes by blast
qed

section \<open>Sub-shapes\<close>

lemma submesh_add_node_refines:
  assumes ok: "mesh_ok m" and k: "nodes_of m k = Some (xyz, old)"
  shows "if 0 < old \<and> old \<noteq> s then submesh_add_node s k m = Inl OtherSubMesh
    else \<exists>n. submesh_add_node s k m = Inr n \<and> mesh_ok n \<and> cells_of n = cells_of m \<and> nodes_of n = (nodes_of m)(k \<mapsto> (xyz, s))"
proof -
  have used: "k \<in> used (m_nodes m)" and old: "old = get_shape_id k (m_nodes m)" "xyz = the (m_points m (k - 1))"
    using k by (auto simp: nodes_of_def find_node_used split: if_splits)
  note set = assign_refines [OF mesh_okD(1) [OF ok] used, of s]
  let ?n = "m\<lparr>m_nodes := set_shape_id k s (m_nodes m)\<rparr>"
  have same: "used (set_shape_id k s (m_nodes m)) = used (m_nodes m)" using set(2) used by (simp flip: pool_simps(2)) auto
  then have "nb_used (set_shape_id k s (m_nodes m)) = nb_used (m_nodes m)"
    using set(1) mesh_okD(7) [OF ok] by (simp add: factory_ok_def)
  then have "m_info ?n e = (if e = Entity_Node then nb_used (m_nodes ?n) else m_info m e)" for e
    using mesh_okD(4) [OF ok, of Entity_Node] by simp
  then have n: "mesh_ok ?n" "cells_of ?n = cells_of m" using nodes_changed [OF ok, of ?n] set(1) same by simp_all
  have "nodes_of ?n = (nodes_of m)(k \<mapsto> (xyz, s))" using set(2) old by (intro ext) (simp add: nodes_of_pool)
  moreover have "(nodes_of m)(k \<mapsto> (xyz, s)) = nodes_of m" if "s = old" using k that by (simp add: fun_upd_idem)
  ultimately show ?thesis using n ok used old by (auto simp: submesh_add_node_def find_node_used Let_def)
qed

lemma submesh_add_element_refines:
  assumes ok: "mesh_ok m" and k: "cells_of m k = Some (c, old)"
  shows "if 0 < old \<and> old \<noteq> s then submesh_add_element s k m = Inl OtherSubMesh
    else \<exists>n. submesh_add_element s k m = Inr n \<and> mesh_ok n \<and> nodes_of n = nodes_of m \<and> cells_of n = (cells_of m)(k \<mapsto> (c, s))"
proof -
  have used: "k \<in> used (m_cells m)" and old: "old = get_shape_id k (m_cells m)" "c = read_cell k m"
    using k by (auto simp: cells_of_def find_cell_used split: if_splits)
  note set = assign_refines [OF mesh_okD(2) [OF ok] used, of s]
  let ?n = "m\<lparr>m_cells := set_shape_id k s (m_cells m)\<rparr>"
  have same: "used (set_shape_id k s (m_cells m)) = used (m_cells m)" using set(2) used by (simp flip: pool_simps(2)) auto
  have "m_info ?n e = (if e = Entity_Node then nb_used (m_nodes ?n) else m_info m e)" for e
    using mesh_okD(4) [OF ok, of e] by simp
  note kept = cells_kept [OF ok, of ?n, OF _ _ _ _ _ _ _ this]
  have n: "mesh_ok ?n" using kept(1) set(1) same mesh_okD(1) [OF ok] by simp
  have "read_cell j ?n = read_cell j m" if "j \<in> used (m_cells m)" for j
    using kept(2) [OF _ _ _ _ _ _ _ that] set(1) same mesh_okD(1) [OF ok] by simp
  then have "cells_of ?n j = ((cells_of m)(k \<mapsto> (c, s))) j" for j
    using set(2) old used by (cases "j \<in> used (m_cells m)") (auto simp: cells_of_pool pool_def)
  then have "cells_of ?n = (cells_of m)(k \<mapsto> (c, s))" ..
  moreover have "nodes_of ?n = nodes_of m" by (intro ext) (simp add: nodes_of_pool)
  ultimately show ?thesis using n used old by (auto simp: submesh_add_element_def find_cell_used Let_def)
qed

end
