(* ===== verification/MeshPool.thy ===== *)
theory MeshPool
  imports MeshCalls Simulation
begin

text \<open>
  The contract of the mesh: two maps, of the nodes and of the cells. Runs of the mesh's calls, with
  the pointers they return, are runs on the maps.
\<close>

section \<open>Runs of calls\<close>

text \<open>
  \<^verbatim>\<open>AddNodeWithID\<close>, \<^verbatim>\<open>AddNode\<close>, \<^verbatim>\<open>add_element\<close> by type code, the polygons, a polyhedron, a ball, and
  on the element that is found \<^verbatim>\<open>RemoveFreeElement\<close> of a cell and the two \<^verbatim>\<open>Add\<close> of a sub-mesh.
  The answer of a call that adds is the element it returns, by its id, or the null pointer.
\<close>

datatype 'c mesh_call = Node_at 'c int | Node_next 'c | Element int "int list" int | Polygon "int list" int
  | Quad_polygon "int list" int | Polyhedron "int list" "int list" int | Ball int int | Remove int | Node_on int int | Cell_on int int

definition answer :: "int \<Rightarrow> int option list \<Rightarrow> (store_error, bool \<times> 'c smds_mesh) result
    \<Rightarrow> (store_error, int option list \<times> 'c smds_mesh) result" where
  "answer k log r = bind_result r (\<lambda>(made, m). Inr ((if made then Some k else None) # log, m))"

fun mesh_step :: "'c mesh_call \<Rightarrow> int option list \<times> 'c smds_mesh \<Rightarrow> (store_error, int option list \<times> 'c smds_mesh) result" where
  "mesh_step (Node_at xyz k) (log, m) = answer k log (add_node_with_id xyz k m)"
| "mesh_step (Node_next xyz) (log, m) =
     bind_result (add_node xyz m) (\<lambda>((k, made), n). Inr ((if made then Some k else None) # log, n))"
| "mesh_step (Element t ns k) (log, m) = answer k log (add_element t ns k m)"
| "mesh_step (Polygon ns k) (log, m) = answer k log (add_polygonal_face ns k m)"
| "mesh_step (Quad_polygon ns k) (log, m) = answer k log (add_quad_polygonal_face ns k m)"
| "mesh_step (Polyhedron ns qs k) (log, m) = answer k log (add_polyhedral_volume ns qs k m)"
| "mesh_step (Ball n k) (log, m) = answer k log (add_ball n k m)"
| "mesh_step (Remove k) (log, m) = bind_result (remove_cell k m) (\<lambda>n. Inr (log, n))"
| "mesh_step (Node_on s k) (log, m) = bind_result (submesh_add_node s k m) (\<lambda>n. Inr (log, n))"
| "mesh_step (Cell_on s k) (log, m) = bind_result (submesh_add_element s k m) (\<lambda>n. Inr (log, n))"

section \<open>The specification\<close>

type_synonym 'c mesh_maps = "int option list \<times> (int \<rightharpoonup> 'c \<times> int) \<times> (int \<rightharpoonup> cell \<times> int)"

text \<open>The cell that a type code and a number of nodes make, as \<^verbatim>\<open>add_element\<close> chooses it.\<close>

definition built :: "int \<Rightarrow> nat \<Rightarrow> entity option" where
  "built t n = (if family_of t = Abs_Ball then None else info_field (family_of t) (int n))"

definition put_cell :: "cell \<Rightarrow> int \<Rightarrow> 'c mesh_maps \<Rightarrow> (store_error, 'c mesh_maps) result" where
  "put_cell c k v = (case v of (log, N, C) \<Rightarrow>
     if \<not> set (c_nodes c) \<subseteq> dom N then Inr (None # log, N, C)
     else if k < 1 then Inl (BadAccess OutOfChunk)
     else if C k = None then Inr (Some k # log, N, C(k \<mapsto> (c, 0)))
     else Inr (None # log, N, C))"

definition plain_cell :: "entity \<Rightarrow> int list \<Rightarrow> cell" where
  "plain_cell e ns = \<lparr>c_entity = e, c_nodes = ns, c_quantities = []\<rparr>"

fun mesh_spec :: "'c mesh_call \<Rightarrow> 'c mesh_maps \<Rightarrow> (store_error, 'c mesh_maps) result" where
  "mesh_spec (Node_at xyz k) (log, N, C) =
     (if k < 1 then Inl (BadAccess OutOfChunk)
      else if N k = None then Inr (Some k # log, N(k \<mapsto> (xyz, 0)), C) else Inr (None # log, N, C))"
| "mesh_spec (Node_next xyz) (log, N, C) = Inr (Some (first_free N) # log, N(first_free N \<mapsto> (xyz, 0)), C)"
| "mesh_spec (Element t ns k) (log, N, C) =
     (case built t (length ns) of None \<Rightarrow> Inr (None # log, N, C) | Some e \<Rightarrow> put_cell (plain_cell e ns) k (log, N, C))"
| "mesh_spec (Polygon ns k) (log, N, C) = (if ns = [] then Inl NoNodes else put_cell (plain_cell Entity_Polygon ns) k (log, N, C))"
| "mesh_spec (Quad_polygon ns k) (log, N, C) =
     (if ns = [] then Inl NoNodes else put_cell (plain_cell Entity_Quad_Polygon ns) k (log, N, C))"
| "mesh_spec (Polyhedron ns qs k) (log, N, C) =
     (if \<not> set ns \<subseteq> dom N \<or> ns = [] \<or> qs = [] then Inr (None # log, N, C)
      else if k < 1 then Inl (BadAccess OutOfChunk)
      else if C k \<noteq> None then Inr (None # log, N, C)
      else if list_all (\<lambda>q. 0 \<le> q) qs \<and> sum_list qs \<le> int (length ns) then
        Inr (Some k # log, N,
          C(k \<mapsto> (\<lparr>c_entity = Entity_Polyhedra, c_nodes = take (nat (sum_list qs)) ns, c_quantities = qs\<rparr>, 0)))
      else Inl BadFaceSizes)"
| "mesh_spec (Ball n k) (log, N, C) = put_cell (plain_cell Entity_Ball [n]) k (log, N, C)"
| "mesh_spec (Remove k) (log, N, C) =
     (if C k = None then Inl (BadAccess NullElement) else Inr (log, N, C(k := None)))"
| "mesh_spec (Node_on s k) (log, N, C) = (case N k of
       None \<Rightarrow> Inl (BadAccess NullElement)
     | Some (xyz, old) \<Rightarrow> if 0 < old \<and> old \<noteq> s then Inl OtherSubMesh else Inr (log, N(k \<mapsto> (xyz, s)), C))"
| "mesh_spec (Cell_on s k) (log, N, C) = (case C k of
       None \<Rightarrow> Inl (BadAccess NullElement)
     | Some (c, old) \<Rightarrow> if 0 < old \<and> old \<noteq> s then Inl OtherSubMesh else Inr (log, N, C(k \<mapsto> (c, s))))"

fun maps_of :: "int option list \<times> 'c smds_mesh \<Rightarrow> 'c mesh_maps" where
  "maps_of (log, m) = (log, nodes_of m, cells_of m)"

fun run_ok :: "int option list \<times> 'c smds_mesh \<Rightarrow> bool" where
  "run_ok (log, m) = mesh_ok m"

section \<open>Each call\<close>

abbreviation matches :: "(store_error, int option list \<times> 'c smds_mesh) result \<Rightarrow> (store_error, 'c mesh_maps) result \<Rightarrow> bool" where
  "matches r s \<equiv> (case r of Inl e \<Rightarrow> s = Inl e | Inr t \<Rightarrow> run_ok t \<and> s = Inr (maps_of t))"

lemma no_such_id: "k < 1 \<Longrightarrow> accessing (new_element k f) = Inl (BadAccess OutOfChunk)"
  by (simp add: accessing_def new_element_def)

lemma nodes_found: "list_all (\<lambda>n. find_node n m) ns = (set ns \<subseteq> dom (nodes_of m))"
  by (auto simp: list_all_iff find_node_used)

lemma add_new_cell_matches:
  assumes "mesh_ok m" and "cell_valid c" and "set (c_nodes c) \<subseteq> dom (nodes_of m)"
  shows "matches (answer k log (add_new_cell (c_entity c) (stored c) k m)) (put_cell c k (log, nodes_of m, cells_of m))"
proof (cases "0 < k")
  case True
  have "set (c_nodes c) \<subseteq> used (m_nodes m)" using assms(3) by simp
  from add_new_cell_refines [OF assms(1) True assms(2) this] obtain n where
    "add_new_cell (c_entity c) (stored c) k m = Inr (cells_of m k = None, n)" "mesh_ok n" "nodes_of n = nodes_of m"
    "cells_of n = (if cells_of m k = None then (cells_of m)(k \<mapsto> (c, 0)) else cells_of m)" .
  with True assms(3) show ?thesis by (auto simp: answer_def put_cell_def)
qed (use assms(3) in \<open>simp add: answer_def put_cell_def add_new_cell_def no_such_id\<close>)

lemma add_cell_matches:
  assumes "mesh_ok m" and "e \<in> set plain_entities" and "int (length ns) = nb_nodes_of e"
  shows "matches (answer k log (add_cell e ns k m)) (put_cell (plain_cell e ns) k (log, nodes_of m, cells_of m))"
proof (cases "set ns \<subseteq> dom (nodes_of m)")
  case True
  have e: "e \<noteq> Entity_Polyhedra" "e \<noteq> Entity_Polygon" "e \<noteq> Entity_Quad_Polygon" using assms(2) by (auto simp: plain_entities_def)
  then have "cell_valid (plain_cell e ns)" using assms(2,3) by (simp add: cell_valid_def plain_cell_def)
  note new = add_new_cell_matches [OF assms(1) this]
  have "stored (plain_cell e ns) = \<lparr>g_type = to_vtk_type e, g_points = in_vtk_order e (map (\<lambda>n. n - 1) ns), g_nb_faces = 0\<rparr>"
    using e(1) by (simp add: stored_def plain_cell_def)
  then have "add_cell e ns k m = add_new_cell (c_entity (plain_cell e ns)) (stored (plain_cell e ns)) k m"
    using True by (simp only: add_cell_def nodes_found simp_thms if_True) (simp add: plain_cell_def)
  then show ?thesis using new True by (simp add: plain_cell_def)
qed (use assms(1) in \<open>simp add: add_cell_def nodes_found answer_def put_cell_def plain_cell_def\<close>)

lemma add_polygon_matches:
  assumes "mesh_ok m" and e: "e \<in> {Entity_Polygon, Entity_Quad_Polygon}"
  shows "matches (answer k log (add_polygon e ns k m))
    (if ns = [] then Inl NoNodes else put_cell (plain_cell e ns) k (log, nodes_of m, cells_of m))"
proof -
  consider "ns = []" | "ns \<noteq> []" "set ns \<subseteq> dom (nodes_of m)" | "ns \<noteq> []" "\<not> set ns \<subseteq> dom (nodes_of m)" by blast
  then show ?thesis
  proof cases
    case 1
    then show ?thesis by (simp add: add_polygon_def answer_def)
  next
    case 2
    have "cell_valid (plain_cell e ns)" using 2(1) e by (auto simp: cell_valid_def plain_cell_def)
    note new = add_new_cell_matches [OF assms(1) this]
    have "map (\<lambda>n. n - 1) ns \<noteq> []" using 2(1) by simp
    from polygon_order [OF e this]
    have "stored (plain_cell e ns) = \<lparr>g_type = to_vtk_type e, g_points = map (\<lambda>n. n - 1) ns, g_nb_faces = 0\<rparr>"
      using e by (auto simp: stored_def plain_cell_def simp del: to_vtk_type.simps)
    then have "add_polygon e ns k m = add_new_cell (c_entity (plain_cell e ns)) (stored (plain_cell e ns)) k m"
      using 2 by (simp only: add_polygon_def nodes_found simp_thms if_True if_False) (simp add: plain_cell_def)
    then show ?thesis using new 2 by (simp add: plain_cell_def)
  qed (use assms(1) in \<open>simp add: add_polygon_def nodes_found answer_def put_cell_def plain_cell_def\<close>)
qed

lemma add_polyhedron_matches:
  assumes ok: "mesh_ok m"
  shows "matches (mesh_step (Polyhedron ns qs k) (log, m)) (mesh_spec (Polyhedron ns qs k) (log, nodes_of m, cells_of m))"
proof (cases "set ns \<subseteq> dom (nodes_of m) \<and> ns \<noteq> [] \<and> qs \<noteq> []")
  case given: True
  let ?fits = "list_all (\<lambda>q. 0 \<le> q) qs \<and> sum_list qs \<le> int (length ns)"
  have fits: "?fits = (face_stream qs (map (\<lambda>n. n - 1) ns) \<noteq> None)"
    using face_stream_total [of qs "map (\<lambda>n. n - 1) ns"] face_stream_bounds [of qs "map (\<lambda>n. n - 1) ns"] by auto
  show ?thesis
  proof (cases ?fits)
    case True
    let ?n = "nat (sum_list qs)"
    define c where "c = \<lparr>c_entity = Entity_Polyhedra, c_nodes = take ?n ns, c_quantities = qs\<rparr>"
    obtain s where s: "face_stream qs (map (\<lambda>n. n - 1) ns) = Some s" using fits True by auto
    have "0 \<le> sum_list qs" using True by (simp add: list_all_iff sum_list_nonneg)
    then have "int (length (take ?n ns)) = sum_list qs" using True by (simp add: nat_le_iff min_absorb2)
    then have c: "cell_valid c" using True given unfolding cell_valid_def c_def by (simp del: length_take)
    have "set (c_nodes c) \<subseteq> dom (nodes_of m)" using given set_take_subset [of ?n ns] unfolding c_def by auto
    note new = add_new_cell_matches [OF ok c this, of k log]
    have "stored c = \<lparr>g_type = VTK_POLYHEDRON, g_points = s, g_nb_faces = length qs\<rparr>"
      using face_stream_take [OF s] by (simp add: stored_def c_def take_map)
    then have add: "add_polyhedral_volume ns qs k m = add_new_cell (c_entity c) (stored c) k m"
      using given s by (simp only: add_polyhedral_volume_def nodes_found) (simp add: c_def)
    have "set (take ?n ns) \<subseteq> dom (nodes_of m)" using given set_take_subset [of ?n ns] by blast
    then have "put_cell c k (log, nodes_of m, cells_of m) = mesh_spec (Polyhedron ns qs k) (log, nodes_of m, cells_of m)"
      using given True by (cases "cells_of m k") (simp_all add: put_cell_def c_def)
    with new show ?thesis by (simp only: mesh_step.simps add)
  next
    case False
    then have s: "face_stream qs (map (\<lambda>n. n - 1) ns) = None" using fits by auto
    have add: "add_polyhedral_volume ns qs k m = bind_result (accessing (new_element k (m_cells m)))
        (\<lambda>(made, f). if made then Inl BadFaceSizes else Inr (False, m\<lparr>m_cells := f\<rparr>))"
      using given by (simp only: add_polyhedral_volume_def nodes_found s) simp
    show ?thesis
    proof (cases "0 < k")
      case True
      obtain f where f: "new_element k (m_cells m) = Inr (k \<notin> used (m_cells m), f)" "factory_ok f"
          "pool f = (if k \<in> used (m_cells m) then pool (m_cells m) else (pool (m_cells m))(k \<mapsto> 0))"
        using make_refines [OF mesh_okD(2) [OF ok] True] .
      have free: "(cells_of m k = None) = (k \<notin> used (m_cells m))" by (simp add: cells_of_def find_cell_used)
      show ?thesis
      proof (cases "k \<in> used (m_cells m)")
        case in_use: True
        with f(3) have "pool f = pool (m_cells m)" by simp
        from cells_same [OF ok f(2) this] show ?thesis
          using given f(1) in_use True free by (auto simp: add answer_def accessing_def)
      next
        case fresh: False
        then show ?thesis using given f(1) True free False by (simp add: add answer_def accessing_def)
      qed
    qed (use given in \<open>simp add: add answer_def no_such_id\<close>)
  qed
next
  case False
  then have "add_polyhedral_volume ns qs k m = Inr (False, m)"
    by (cases "set ns \<subseteq> dom (nodes_of m)"; cases "ns = [] \<or> qs = []")
      (simp_all only: add_polyhedral_volume_def nodes_found if_True if_False simp_thms de_Morgan_conj not_not)
  with False ok show ?thesis by (auto simp: answer_def)
qed

lemma add_element_built:
  "add_element t ns k m = (case built t (length ns) of None \<Rightarrow> Inr (False, m) | Some e \<Rightarrow> add_cell e ns k m)"
  by (cases "family_of t")
    (simp_all add: add_element_def built_def Let_def add_0d_element_def add_edge_2_def add_edge_3_def add_face_3_def
      add_face_4_def add_face_6_def add_face_7_def add_face_8_def add_face_9_def add_volume_4_def add_volume_5_def
      add_volume_6_def add_volume_8_def add_volume_10_def add_volume_12_def add_volume_13_def add_volume_15_def
      add_volume_18_def add_volume_20_def add_volume_27_def)

lemma built_plain: "built t n = Some e \<Longrightarrow> e \<in> set plain_entities \<and> int n = nb_nodes_of e"
  by (cases "family_of t") (auto simp: built_def plain_entities_def nb_nodes_of_def set_props_def split: if_splits)

lemma mesh_step_refines:
  assumes ok: "mesh_ok m"
  shows "matches (mesh_step call (log, m)) (mesh_spec call (log, nodes_of m, cells_of m))"
proof (cases call)
  case (Node_at xyz k)
  show ?thesis
  proof (cases "0 < k")
    case True
    from add_node_with_id_refines [OF ok True] obtain n where
      "add_node_with_id xyz k m = Inr (nodes_of m k = None, n)" "mesh_ok n" "cells_of n = cells_of m"
      "nodes_of n = (if nodes_of m k = None then (nodes_of m)(k \<mapsto> (xyz, 0)) else nodes_of m)" .
    with True show ?thesis by (auto simp: Node_at answer_def)
  qed (simp add: Node_at answer_def add_node_with_id_def no_such_id)
next
  case (Node_next xyz)
  from add_node_refines [OF ok] obtain n where
    "add_node xyz m = Inr ((first_free (nodes_of m), True), n)" "mesh_ok n" "cells_of n = cells_of m"
    "nodes_of n = (nodes_of m)(first_free (nodes_of m) \<mapsto> (xyz, 0))" .
  then show ?thesis by (simp add: Node_next)
next
  case (Element t ns k)
  show ?thesis
  proof (cases "built t (length ns)")
    case (Some e)
    with add_cell_matches [OF ok] built_plain [OF Some] show ?thesis unfolding Element mesh_step.simps mesh_spec.simps
      add_element_built Some option.case by blast
  qed (use ok in \<open>simp add: Element add_element_built answer_def\<close>)
next
  case (Polygon ns k)
  show ?thesis unfolding Polygon mesh_step.simps mesh_spec.simps add_polygonal_face_def
    by (rule add_polygon_matches [OF ok]) simp
next
  case (Quad_polygon ns k)
  show ?thesis unfolding Quad_polygon mesh_step.simps mesh_spec.simps add_quad_polygonal_face_def
    by (rule add_polygon_matches [OF ok]) simp
next
  case (Polyhedron ns qs k)
  show ?thesis unfolding Polyhedron by (rule add_polyhedron_matches [OF ok])
next
  case (Ball n k)
  have "Entity_Ball \<in> set plain_entities" "int (length [n]) = nb_nodes_of Entity_Ball"
    by (simp_all add: plain_entities_def nb_nodes_of_def set_props_def)
  from add_cell_matches [OF ok this] show ?thesis unfolding Ball mesh_step.simps mesh_spec.simps add_ball_def .
next
  case (Remove k)
  show ?thesis
  proof (cases "k \<in> used (m_cells m)")
    case True
    from remove_cell_refines [OF ok True] obtain n where
      "remove_cell k m = Inr n" "mesh_ok n" "nodes_of n = nodes_of m" "cells_of n = (cells_of m)(k := None)" .
    moreover have "cells_of m k \<noteq> None" using True by (simp add: cells_of_def find_cell_used)
    ultimately show ?thesis by (auto simp: Remove)
  qed (simp add: Remove remove_cell_def cells_of_def find_cell_used)
next
  case (Node_on s k)
  show ?thesis
  proof (cases "nodes_of m k")
    case None
    then have "\<not> find_node k m" by (simp add: nodes_of_def split: if_splits)
    with None show ?thesis by (simp add: Node_on submesh_add_node_def Let_def)
  next
    case (Some x)
    with submesh_add_node_refines [OF ok, of k "fst x" "snd x" s] show ?thesis
      by (auto simp: Node_on split: if_splits prod.splits)
  qed
next
  case (Cell_on s k)
  show ?thesis
  proof (cases "cells_of m k")
    case None
    then have "\<not> find_element k (m_cells m)" by (simp add: cells_of_def split: if_splits)
    with None show ?thesis by (simp add: Cell_on submesh_add_element_def Let_def)
  next
    case (Some x)
    with submesh_add_element_refines [OF ok, of k "fst x" "snd x" s] show ?thesis
      by (auto simp: Cell_on split: if_splits prod.splits)
  qed
qed

interpretation mesh: simulation run_ok maps_of mesh_step mesh_spec
proof unfold_locales
  fix s :: "int option list \<times> 'c smds_mesh" and c assume "run_ok s"
  moreover obtain log m where s: "s = (log, m)" by (cases s)
  ultimately show "matches (mesh_step c s) (mesh_spec c (maps_of s))" using mesh_step_refines [of m c log] unfolding s maps_of.simps by simp
qed

end
