(* ===== verification/MeshQueries.thy ===== *)
theory MeshQueries
  imports MeshPool
begin

text \<open>
  The queries of the mesh on its maps: the counters of a family, its iterator, and the reads of a
  cell.
\<close>

section \<open>Counters\<close>

fun counters_of :: "element_type \<Rightarrow> entity list" where
  "counters_of Abs_Volume = [Entity_Tetra, Entity_Pyramid, Entity_Penta, Entity_Hexa,
     Entity_Hexagonal_Prism, Entity_Quad_Tetra, Entity_Quad_Pyramid, Entity_Quad_Penta, Entity_BiQuad_Penta, Entity_Quad_Hexa,
     Entity_TriQuad_Hexa, Entity_Polyhedra]"
| "counters_of Abs_Face = [Entity_Triangle, Entity_Quadrangle, Entity_Quad_Triangle,
     Entity_BiQuad_Triangle, Entity_Quad_Quadrangle, Entity_BiQuad_Quadrangle, Entity_Polygon, Entity_Quad_Polygon]"
| "counters_of Abs_Edge = [Entity_Edge, Entity_Quad_Edge]"
| "counters_of Abs_Node = [Entity_Node]"
| "counters_of Abs_0DElement = [Entity_0D]"
| "counters_of Abs_Ball = [Entity_Ball]"
| "counters_of Abs_All = [Entity_0D, Entity_Ball, Entity_Tetra, Entity_Pyramid, Entity_Penta,
     Entity_Hexa, Entity_Quad_Tetra, Entity_Hexagonal_Prism, Entity_Quad_Pyramid, Entity_Quad_Penta, Entity_Edge,
     Entity_Quad_Edge, Entity_BiQuad_Penta, Entity_Quad_Hexa, Entity_Triangle, Entity_Quadrangle, Entity_TriQuad_Hexa,
     Entity_Quad_Triangle, Entity_BiQuad_Triangle, Entity_Quad_Quadrangle, Entity_BiQuad_Quadrangle, Entity_Polygon,
     Entity_Quad_Polygon, Entity_Polyhedra]"

lemma nb_elements_counters: "nb_elements t m = sum_list (map (m_info m) (counters_of t))"
  by (cases t) simp_all

definition held_entities :: "entity list" where
  "held_entities = plain_entities @ [Entity_Polygon, Entity_Quad_Polygon, Entity_Polyhedra]"

lemma valid_held: "cell_valid c \<Longrightarrow> c_entity c \<in> set held_entities"
  by (auto simp: cell_valid_def held_entities_def split: if_splits)

definition families :: "element_type list" where
  "families = [Abs_0DElement, Abs_Ball, Abs_Edge, Abs_Face, Abs_Volume]"

lemma counters_of_families:
  "list_all (\<lambda>t. distinct (counters_of t) \<and> Entity_Node \<notin> set (counters_of t) \<and>
     list_all (\<lambda>e. (e \<in> set (counters_of t)) = (p_type (props_of (to_vtk_type e)) = t)) held_entities) families"
  "distinct (counters_of Abs_All) \<and> Entity_Node \<notin> set (counters_of Abs_All) \<and>
   list_all (\<lambda>e. e \<in> set (counters_of Abs_All)) held_entities"
  "list_all (\<lambda>e. p_type (props_of (to_vtk_type e)) \<in> set families) held_entities"
  by code_simp+

lemma sum_counts:
  assumes "finite U" and "distinct es"
  shows "sum_list (map (\<lambda>e. int (card {k \<in> U. E k = e})) es) = int (card {k \<in> U. E k \<in> set es})"
  using assms(2)
proof (induction es)
  case (Cons e es)
  have "{k \<in> U. E k \<in> set (e # es)} = {k \<in> U. E k = e} \<union> {k \<in> U. E k \<in> set es}" by auto
  moreover have "{k \<in> U. E k = e} \<inter> {k \<in> U. E k \<in> set es} = {}" using Cons.prems by auto
  ultimately have "card {k \<in> U. E k \<in> set (e # es)} = card {k \<in> U. E k = e} + card {k \<in> U. E k \<in> set es}"
    using assms(1) by (simp add: card_Un_disjoint)
  with Cons show ?case by simp
qed simp

lemma nb_elements_card:
  assumes ok: "mesh_ok m" and "distinct (counters_of t)" "Entity_Node \<notin> set (counters_of t)"
  shows "nb_elements t m = int (card {k \<in> used (m_cells m). get_entity_type k m \<in> set (counters_of t)})"
proof -
  have "map (m_info m) (counters_of t) =
      map (\<lambda>e. int (card {k \<in> used (m_cells m). get_entity_type k m = e})) (counters_of t)"
    using assms(3) mesh_okD(4) [OF ok] by (intro map_cong) auto
  then show ?thesis using sum_counts [OF mesh_okD(5) [OF ok] assms(2)] by (simp only: nb_elements_counters)
qed

lemma family_at:
  assumes ok: "mesh_ok m" and k: "k \<in> used (m_cells m)"
  shows "get_type k m \<in> set families"
    and "t \<in> set families \<Longrightarrow> (get_entity_type k m \<in> set (counters_of t)) = (get_type k m = t)"
    and "get_entity_type k m \<in> set (counters_of Abs_All)"
proof -
  note read = cell_at_read [OF mesh_okD(3) [OF ok k]]
  note e = valid_held [OF read(5)]
  show "get_type k m \<in> set families"
    using bspec [OF counters_of_families(3) [unfolded list_all_iff] e] by (simp add: read(2,4) family_def)
  show "get_entity_type k m \<in> set (counters_of Abs_All)"
    using counters_of_families(2) e by (simp only: list_all_iff read(4))
  assume "t \<in> set families"
  from bspec [OF counters_of_families(1) [unfolded list_all_iff [of _ families]] this]
  have "list_all (\<lambda>e. (e \<in> set (counters_of t)) = (p_type (props_of (to_vtk_type e)) = t)) held_entities" by blast
  with e show "(get_entity_type k m \<in> set (counters_of t)) = (get_type k m = t)"
    by (simp only: list_all_iff read(2,4) family_def)
qed

lemma nb_elements_family:
  assumes ok: "mesh_ok m"
  shows "t \<in> set families \<Longrightarrow> nb_elements t m = int (card {k \<in> used (m_cells m). get_type k m = t})"
    and "nb_elements Abs_All m = int (card (used (m_cells m)))"
    and "nb_elements Abs_Node m = int (card (used (m_nodes m)))"
proof -
  assume t: "t \<in> set families"
  from bspec [OF counters_of_families(1) [unfolded list_all_iff [of _ families]] t]
  have "distinct (counters_of t)" "Entity_Node \<notin> set (counters_of t)" by blast+
  from nb_elements_card [OF ok this]
  have "nb_elements t m = int (card {k \<in> used (m_cells m). get_entity_type k m \<in> set (counters_of t)})" .
  moreover have "{k \<in> used (m_cells m). get_entity_type k m \<in> set (counters_of t)} = {k \<in> used (m_cells m). get_type k m = t}"
    using family_at(2) [OF ok _ t] by blast
  ultimately show "nb_elements t m = int (card {k \<in> used (m_cells m). get_type k m = t})" by simp
next
  have "distinct (counters_of Abs_All)" "Entity_Node \<notin> set (counters_of Abs_All)"
    using counters_of_families(2) by blast+
  from nb_elements_card [OF ok this]
  have "nb_elements Abs_All m = int (card {k \<in> used (m_cells m). get_entity_type k m \<in> set (counters_of Abs_All)})" .
  moreover have "{k \<in> used (m_cells m). get_entity_type k m \<in> set (counters_of Abs_All)} = used (m_cells m)"
    using family_at(3) [OF ok] by blast
  ultimately show "nb_elements Abs_All m = int (card (used (m_cells m)))" by simp
next
  show "nb_elements Abs_Node m = int (card (used (m_nodes m)))"
    using mesh_okD(4) [OF ok, of Entity_Node] mesh_okD(7) [OF ok] by simp
qed

section \<open>Iterators\<close>

lemma nodes_iterator_eq: "mesh_ok m \<Longrightarrow> nodes_iterator m = sorted_list_of_set (used (m_nodes m))"
  using iterate_used_sorted(1) [OF mesh_okD(1), of m "\<lambda>k. True"] by (simp add: nodes_iterator_def)

lemma elements_iterator_eq:
  assumes ok: "mesh_ok m"
  shows "t \<in> set families \<Longrightarrow> elements_iterator t m = filter (\<lambda>k. get_type k m = t) (sorted_list_of_set (used (m_cells m)))"
    and "elements_iterator Abs_All m = sorted_list_of_set (used (m_cells m))"
proof -
  note sorted = iterate_used_sorted [OF mesh_okD(2) [OF ok]]
  show "elements_iterator Abs_All m = sorted_list_of_set (used (m_cells m))"
    using sorted by (simp add: elements_iterator_def)
  assume t: "t \<in> set families"
  let ?ks = "filter (\<lambda>k. get_type k m = t) (sorted_list_of_set (used (m_cells m)))"
  have "length ?ks = card (set ?ks)" by (rule distinct_card [symmetric]) simp
  also have "set ?ks = {k \<in> used (m_cells m). get_type k m = t}" using mesh_okD(5) [OF ok] by auto
  finally have "nat (nb_elements t m) = length ?ks" using nb_elements_family(1) [OF ok t] by simp
  moreover have "t \<noteq> Abs_All" "t \<noteq> Abs_Node" using t by (auto simp: families_def)
  ultimately show "elements_iterator t m = ?ks" using sorted by (simp add: elements_iterator_def)
qed

text \<open>The reads through the maps.\<close>

lemma node_found: "find_node k m = (nodes_of m k \<noteq> None)"
  by (simp add: nodes_of_def)

lemma family_lists:
  assumes ok: "mesh_ok m"
  shows "list_all (\<lambda>t. nb_elements t m = int (length (elements_iterator t m)) \<and>
    elements_iterator t m = filter (\<lambda>k. family (fst (the (cells_of m k))) = t) (sorted_list_of_set (used (m_cells m)))) families"
  unfolding list_all_iff
proof
  fix t assume t: "t \<in> set families"
  have "family (fst (the (cells_of m k))) = get_type k m" if "k \<in> used (m_cells m)" for k
    using cell_at_read(2) [OF mesh_okD(3) [OF ok that]] that by (simp add: cells_of_def find_cell_used)
  then have "filter (\<lambda>k. get_type k m = t) (sorted_list_of_set (used (m_cells m))) =
      filter (\<lambda>k. family (fst (the (cells_of m k))) = t) (sorted_list_of_set (used (m_cells m)))"
    using mesh_okD(5) [OF ok] by (intro filter_cong) simp_all
  moreover have "length (filter (\<lambda>k. get_type k m = t) (sorted_list_of_set (used (m_cells m)))) =
      card {k \<in> used (m_cells m). get_type k m = t}"
    using mesh_okD(5) [OF ok] by (subst distinct_card [symmetric]) simp_all
  ultimately show "nb_elements t m = int (length (elements_iterator t m)) \<and>
    elements_iterator t m = filter (\<lambda>k. family (fst (the (cells_of m k))) = t) (sorted_list_of_set (used (m_cells m)))"
    using elements_iterator_eq(1) [OF ok t] nb_elements_family(1) [OF ok t] by simp
qed

lemma cell_reads:
  assumes ok: "mesh_ok m"
  shows "case cells_of m k of None \<Rightarrow> \<not> find_element k (m_cells m)
    | Some (c, s) \<Rightarrow> get_entity_type k m = c_entity c \<and> get_type k m = family c \<and> family c \<in> set families \<and>
        nb_cell_nodes k m = int (length (c_nodes c)) \<and>
        map (\<lambda>i. get_node k i m) [0..<length (c_nodes c)] = map Some (c_nodes c) \<and>
        get_quantities k m = c_quantities c \<and> get_shape_id k (m_cells m) = s"
proof (cases "k \<in> used (m_cells m)")
  case True
  obtain c where c: "cell_at k c m" using mesh_okD(3) [OF ok True] by blast
  note read = cell_at_read [OF c]
  have nodes: "map (\<lambda>i. get_node k i m) [0..<length (c_nodes c)] = map Some (c_nodes c)"
    using cell_at_node [OF c] by (intro nth_equalityI) simp_all
  have "c_quantities (read_cell k m) = c_quantities c" using read(1) by simp
  then have "get_quantities k m = c_quantities c" by (simp add: read_cell_def)
  with nodes read family_at(1) [OF ok True] show ?thesis by (simp add: cells_of_at [OF c True])
qed (simp add: cells_of_def find_cell_used)

end
