(* ===== verification/MeshProps.thy ===== *)
theory MeshProps
  imports MeshQueries
begin

text \<open>
  The properties of the mesh: its calls keep the contract of two maps, and its queries read them.
\<close>

text \<open>
  C20. Whatever calls are made on a new mesh, they return the elements or null pointers, and end, as
  they would on two maps, from the ids of the nodes to their coordinates and sub-shapes and from the
  ids of the cells to their types, nodes, sizes of faces and sub-shapes: a cell is added when its
  nodes are there and its id is new, with the type its number of nodes chooses; a polyhedron keeps
  the nodes its faces ask for; an element on a sub-shape is refused on another; and so on. The order
  of the nodes in the grid, the face streams, the tables of the ids and the factories are never seen.
\<close>

theorem mesh_calls_follow_the_maps:
  "map_sum (\<lambda>e. e) maps_of (loop mesh_step cs ([], new_mesh)) = loop mesh_spec cs ([], Map.empty, Map.empty)"
  using mesh.run_outcome [of "([], new_mesh)"] mesh_ok_new by (simp only: run_ok.simps maps_of.simps view_new)

text \<open>
  C21. After any calls, the mesh's counts, iterators and reads are those of the maps: a family's
  count is the number of its cells and its iterator gives their ids ascending, and a cell gives its
  type, its family, its nodes in the order they were given in, the sizes of a polyhedron's faces and
  its sub-shape.
\<close>

theorem mesh_queries_read_the_maps:
  assumes run: "loop mesh_step cs ([], new_mesh) = Inr (log, m)"
  shows "nodes_iterator m = sorted_list_of_set (dom (nodes_of m)) \<and>
    nb_elements Abs_Node m = int (card (dom (nodes_of m))) \<and>
    nb_elements Abs_All m = int (card (dom (cells_of m))) \<and>
    list_all (\<lambda>t. nb_elements t m = int (length (elements_iterator t m)) \<and>
      elements_iterator t m = filter (\<lambda>k. family (fst (the (cells_of m k))) = t) (sorted_list_of_set (dom (cells_of m)))) families \<and>
    find_node k m = (nodes_of m k \<noteq> None) \<and>
    (case cells_of m k of None \<Rightarrow> \<not> find_element k (m_cells m)
     | Some (c, s) \<Rightarrow> get_entity_type k m = c_entity c \<and> get_type k m = family c \<and> family c \<in> set families \<and>
         nb_cell_nodes k m = int (length (c_nodes c)) \<and>
         map (\<lambda>i. get_node k i m) [0..<length (c_nodes c)] = map Some (c_nodes c) \<and>
         get_quantities k m = c_quantities c \<and> get_shape_id k (m_cells m) = s)"
proof -
  have "run_ok (log, m)" using mesh.run_invar [OF _ run] mesh_ok_new by simp
  then have ok: "mesh_ok m" by simp
  show ?thesis
    using nodes_iterator_eq [OF ok] nb_elements_family(2,3) [OF ok] family_lists [OF ok] node_found cell_reads [OF ok]
    by (simp only: dom_cells_of dom_nodes_of simp_thms)
qed

definition tetra_calls :: "int mesh_call list" where
  "tetra_calls = [Node_at 10 1, Node_next 20, Node_at 30 3, Node_next 40, Node_at 99 3,
     Element 14 [1, 2, 3, 4] 2, Element 14 [1, 2, 3, 9] 1, Element 5 [2, 1, 3] 7, Polygon [1, 2, 4] 5, Remove 5, Cell_on 6 2,
     Polyhedron [1, 2, 3, 1, 3, 4, 2] [3, 3] 9]"

theorem mesh_queries_witness:
  "\<exists>log m. loop mesh_step tetra_calls ([], new_mesh) = Inr (log, m) \<and>
     list_all (\<lambda>t. nb_elements t m = int (length (elements_iterator t m)) \<and>
       elements_iterator t m = filter (\<lambda>k. family (fst (the (cells_of m k))) = t) (sorted_list_of_set (dom (cells_of m)))) families \<and>
     elements_iterator Abs_Volume m = [2, 9] \<and> elements_iterator Abs_Face m = [7] \<and>
     map (\<lambda>i. get_node 9 i m) [0..<6] = map Some [1, 2, 3, 1, 3, 4] \<and> get_quantities 9 m = [3, 3]"
proof -
  let ?r = "loop mesh_step tetra_calls ([], new_mesh)" and ?m = "snd (projr (loop mesh_step tetra_calls ([], new_mesh)))"
  have "\<not> isl ?r" by code_simp
  then obtain log m where run: "?r = Inr (log, m)" by (cases ?r) auto
  moreover have "elements_iterator Abs_Volume ?m = [2, 9]" "elements_iterator Abs_Face ?m = [7]"
    "map (\<lambda>i. get_node 9 i ?m) [0..<6] = map Some [1, 2, 3, 1, 3, 4]" "get_quantities 9 ?m = [3, 3]" by code_simp+
  moreover have "list_all (\<lambda>t. nb_elements t m = int (length (elements_iterator t m)) \<and>
      elements_iterator t m = filter (\<lambda>k. family (fst (the (cells_of m k))) = t) (sorted_list_of_set (dom (cells_of m)))) families"
    using mesh_queries_read_the_maps [OF run] by blast
  ultimately show ?thesis by (intro exI [of _ log] exI [of _ m]) simp
qed

end
