(* ===== verification/MeshArrays.thy ===== *)
theory MeshArrays
  imports MeshQueries
begin

text \<open>
  The mesh out and in as plain arrays: \<^verbatim>\<open>harvest_arrays\<close> (\<^verbatim>\<open>mesher_harvest.cpp\<close>), \<^verbatim>\<open>rebuild_mesh\<close> and
  the fill (\<^verbatim>\<open>mesher_scratch.cpp\<close>), with the binding to the sub-shapes of the geometry
  (\<^verbatim>\<open>mesher_core.cpp\<close>). The geometry itself is a parameter: the number of its sub-shapes of each
  kind, and the index that SMESHDS gives to each. An array is its shape and its items in a row; the
  items of the rows and of the ids are not bounded by their width, as no mesh in memory reaches it.
\<close>

section \<open>The mesher's geometry\<close>

record mesher =
  released :: bool
  shape_counts :: "(string \<Rightarrow> int) option"
  shape_to_index :: "string \<Rightarrow> int \<Rightarrow> int"
  max_shape_index :: int
  index_to_ordinal :: "(string \<times> int) list"

record 'a nd_array =
  dims :: "int list"
  items :: "'a list"

datatype mesher_error = Released | NoShape | BadOrdinal string int | UnknownKind string | MissingKey string
  | BadCoords | CountsDisagree | NodeNotAdded int | NoFixedArity int | NotARow int | NotRebuilt int nat int
  | NotAType int | DimensionsDiffer | NodeIsNoElement | NotATable | WrongArity int int | NoSuchNode nat int
  | RowRefused nat int | NodeRefused nat | ParametersNeedShape | AbsentNode | NotAVolume | MeshNotEmpty
  | Stored store_error | OutOfArray | NotOnShape nat | NoParametersOn string

definition kind_names :: "string list" where
  "kind_names = [''SOLID'', ''FACE'', ''EDGE'', ''VERTEX'']"

definition ensure_open :: "mesher \<Rightarrow> (mesher_error, unit) result" where
  "ensure_open w = require (\<not> released w) Released"

text \<open>\<^verbatim>\<open>Mesher::sub_shape\<close> of a kind that is not empty: the index SMESHDS has for the shape.\<close>

definition sub_shape :: "mesher \<Rightarrow> string \<Rightarrow> int \<Rightarrow> (mesher_error, int) result" where
  "sub_shape w kind ordinal =
     bind_result (ensure_open w) (\<lambda>_. case shape_counts w of None \<Rightarrow> Inl NoShape | Some counts \<Rightarrow>
       if kind \<notin> set kind_names then Inl (UnknownKind kind)
       else if ordinal < 1 \<or> counts kind < ordinal then Inl (BadOrdinal kind ordinal)
       else Inr (shape_to_index w kind ordinal))"

definition build_index_map :: "(string \<Rightarrow> int) \<Rightarrow> mesher \<Rightarrow> mesher" where
  "build_index_map counts w =
     (let places = concat (map (\<lambda>kind. map (\<lambda>i. (kind, i)) [1..counts kind]) kind_names)
      in w\<lparr>index_to_ordinal := foldl (\<lambda>table (kind, i).
           let index = shape_to_index w kind i
           in if 0 < index \<and> index \<le> max_shape_index w then table[nat index := (kind, i)] else table)
         (replicate (nat (max_shape_index w) + 1) ('''', 0)) places\<rparr>)"

definition ordinal_of_shape_index :: "mesher \<Rightarrow> int \<Rightarrow> string \<times> int" where
  "ordinal_of_shape_index w s =
     (if s \<le> 0 \<or> int (length (index_to_ordinal w)) \<le> s then ('''', 0) else index_to_ordinal w ! nat s)"

section \<open>The mesh out\<close>

definition kind_code :: "string \<Rightarrow> int" where
  "kind_code kind = (if kind = [] then 0 else if hd kind = CHR ''S'' then 1 else if hd kind = CHR ''F'' then 2
     else if hd kind = CHR ''E'' then 3 else 4)"

record 'f mesh_arrays =
  node_coords :: "'f nd_array"
  node_id :: "int list"
  node_kind :: "int list"
  node_ordinal :: "int list"
  element_offsets :: "int list"
  element_nodes :: "int list"
  element_type_codes :: "int list"
  element_id :: "int list"
  element_kind :: "int list"
  element_ordinal :: "int list"
  face_offsets :: "int list"
  face_sizes :: "int list"

definition binding_of :: "mesher option \<Rightarrow> int \<Rightarrow> string \<times> int" where
  "binding_of w s = (case w of None \<Rightarrow> ('''', 0) | Some g \<Rightarrow> ordinal_of_shape_index g s)"

text \<open>The loop over the nodes: their rows, and the dense table from ids to rows.\<close>

definition harvest_node :: "mesher option \<Rightarrow> ('f \<times> 'f \<times> 'f) smds_mesh \<Rightarrow> 'f mesh_arrays \<times> int list \<Rightarrow> int \<Rightarrow> 'f mesh_arrays \<times> int list" where
  "harvest_node w m = (\<lambda>(out, rows) k.
     let (x, y, z) = the (m_points m (k - 1)); bound = binding_of w (get_shape_id k (m_nodes m));
         row = int (length (node_id out))
     in (out\<lparr>node_coords := (node_coords out)\<lparr>items := items (node_coords out) @ [x, y, z]\<rparr>, node_id := node_id out @ [k],
           node_kind := node_kind out @ [kind_code (fst bound)], node_ordinal := node_ordinal out @ [snd bound]\<rparr>,
         if 0 \<le> k \<and> k < int (length rows) then rows[nat k := row] else rows))"

definition row_of :: "int list \<Rightarrow> int option \<Rightarrow> (mesher_error, int) result" where
  "row_of rows node = (case node of None \<Rightarrow> Inl AbsentNode | Some k \<Rightarrow>
     if 0 \<le> k \<and> k < int (length rows) \<and> 0 \<le> rows ! nat k then Inr (rows ! nat k) else Inl AbsentNode)"

text \<open>
  The body of the loop over the elements. A null pointer in a cell would be read through; here it
  ends as a node absent from the mesh does.
\<close>

definition harvest_element :: "mesher option \<Rightarrow> 'c smds_mesh \<Rightarrow> int list \<Rightarrow> int \<Rightarrow> 'f mesh_arrays \<Rightarrow> (mesher_error, 'f mesh_arrays) result" where
  "harvest_element w m rows k out =
     bind_result (each (\<lambda>i. row_of rows (get_node k i m)) [0..<nat (nb_cell_nodes k m)]) (\<lambda>ns.
       let bound = binding_of w (get_shape_id k (m_cells m)); e = get_entity_type k m;
           poly = (e = Entity_Polyhedra \<or> e = Entity_Quad_Polyhedra);
           sizes = face_sizes out @ (if poly then get_quantities k m else [])
       in if poly \<and> get_type k m \<noteq> Abs_Volume then Inl NotAVolume
          else Inr (out\<lparr>element_nodes := element_nodes out @ ns,
            element_offsets := element_offsets out @ [int (length (element_nodes out @ ns))],
            element_type_codes := element_type_codes out @ [entity_code e], element_id := element_id out @ [k],
            element_kind := element_kind out @ [kind_code (fst bound)], element_ordinal := element_ordinal out @ [snd bound],
            face_sizes := sizes, face_offsets := face_offsets out @ [int (length sizes)]\<rparr>))"

definition harvest_arrays :: "mesher option \<Rightarrow> ('f \<times> 'f \<times> 'f) smds_mesh \<Rightarrow> (mesher_error, 'f mesh_arrays) result" where
  "harvest_arrays w m =
     (let start = \<lparr>node_coords = \<lparr>dims = [nb_elements Abs_Node m, 3], items = []\<rparr>, node_id = [], node_kind = [],
            node_ordinal = [], element_offsets = [0], element_nodes = [], element_type_codes = [], element_id = [],
            element_kind = [], element_ordinal = [], face_offsets = [0], face_sizes = []\<rparr>;
          (out, rows) = foldl (harvest_node w m) (start, replicate (nat (get_max_id (m_nodes m)) + 1) (- 1)) (nodes_iterator m)
      in loop (harvest_element w m rows)
           (concat (map (\<lambda>t. elements_iterator t m) [Abs_0DElement, Abs_Ball, Abs_Edge, Abs_Face, Abs_Volume])) out)"

section \<open>A mesh rebuilt from arrays\<close>

text \<open>
  What the caller gives: a dictionary, any key of which may be missing. A refusal leaves the mesh as
  it is by then, so it carries it.
\<close>

record 'f given_mesh =
  g_coords :: "'f nd_array option"
  g_node_id :: "int list option"
  g_offsets :: "int list option"
  g_nodes :: "int list option"
  g_types :: "int list option"
  g_element_id :: "int list option"

type_synonym ('c, 'a) filling = "(mesher_error \<times> 'c smds_mesh, 'a) result"

definition field :: "string \<Rightarrow> 'a option \<Rightarrow> 'c smds_mesh \<Rightarrow> ('c, 'a) filling" where
  "field key x m = (case x of None \<Rightarrow> Inl (MissingKey key, m) | Some v \<Rightarrow> Inr v)"

definition leaving :: "'c smds_mesh \<Rightarrow> (mesher_error, 'a) result \<Rightarrow> ('c, 'a) filling" where
  "leaving m r = (case r of Inl e \<Rightarrow> Inl (e, m) | Inr x \<Rightarrow> Inr x)"

definition stored_in :: "'c smds_mesh \<Rightarrow> (store_error, 'a) result \<Rightarrow> ('c, 'a) filling" where
  "stored_in m r = (case r of Inl e \<Rightarrow> Inl (Stored e, m) | Inr x \<Rightarrow> Inr x)"

definition rebuild_node :: "'f list \<Rightarrow> nat \<times> int \<Rightarrow> ('f \<times> 'f \<times> 'f) smds_mesh \<Rightarrow> ('f \<times> 'f \<times> 'f, ('f \<times> 'f \<times> 'f) smds_mesh) filling" where
  "rebuild_node xyz = (\<lambda>(i, k) m.
     bind_result (stored_in m (add_node_with_id (xyz ! (3 * i), xyz ! (3 * i + 1), xyz ! (3 * i + 2)) k m)) (\<lambda>(made, n).
       if made then Inr n else Inl (NodeNotAdded k, n)))"

definition connected_nodes :: "int list \<Rightarrow> int list \<Rightarrow> int \<Rightarrow> int \<Rightarrow> (mesher_error, int list) result" where
  "connected_nodes connectivity ids start stop =
     each (\<lambda>j. if j < 0 \<or> int (length connectivity) \<le> j then Inl OutOfArray
       else let row = connectivity ! nat j
            in if row < 0 \<or> int (length ids) \<le> row then Inl (NotARow j) else Inr (ids ! nat row)) [start..stop - 1]"

definition rebuild_element :: "int list \<Rightarrow> int list \<Rightarrow> int list \<Rightarrow> nat \<times> int \<times> int \<Rightarrow> 'c smds_mesh \<Rightarrow> ('c, 'c smds_mesh) filling" where
  "rebuild_element ids offsets connectivity = (\<lambda>(i, t, k) m.
     if is_free_form t then Inl (NoFixedArity k, m)
     else bind_result (leaving m (connected_nodes connectivity ids (offsets ! i) (offsets ! Suc i))) (\<lambda>ns.
       bind_result (stored_in m (add_element t ns k m)) (\<lambda>(made, n).
         if made then Inr n else Inl (NotRebuilt k (length ns) t, n))))"

definition rebuild_mesh :: "'f given_mesh \<Rightarrow> ('f \<times> 'f \<times> 'f) smds_mesh \<Rightarrow> ('f \<times> 'f \<times> 'f, ('f \<times> 'f \<times> 'f) smds_mesh) filling" where
  "rebuild_mesh g m =
     bind_result (field ''node_coords'' (g_coords g) m) (\<lambda>coords.
     bind_result (field ''node_id'' (g_node_id g) m) (\<lambda>ids.
     bind_result (field ''element_offsets'' (g_offsets g) m) (\<lambda>offsets.
     bind_result (field ''element_nodes'' (g_nodes g) m) (\<lambda>connectivity.
     bind_result (field ''element_type'' (g_types g) m) (\<lambda>types.
     bind_result (field ''element_id'' (g_element_id g) m) (\<lambda>element_ids.
       if dims coords \<noteq> [int (length ids), 3] then Inl (BadCoords, m)
       else if length element_ids \<noteq> length types \<or> length offsets \<noteq> length types + 1 then Inl (CountsDisagree, m)
       else bind_result (loop (rebuild_node (items coords)) (enumerate 0 ids) m) (\<lambda>n.
         bind_result (loop (rebuild_element ids offsets connectivity) (enumerate 0 (zip types element_ids)) n) (\<lambda>built_mesh.
           Inr (modified built_mesh)))))))))"

definition fill_from_mesh :: "mesher \<Rightarrow> 'f given_mesh \<Rightarrow> ('f \<times> 'f \<times> 'f) smds_mesh \<Rightarrow> ('f \<times> 'f \<times> 'f, ('f \<times> 'f \<times> 'f) smds_mesh) filling" where
  "fill_from_mesh w g m =
     bind_result (leaving m (ensure_open w)) (\<lambda>_.
       if nb_elements Abs_Node m \<noteq> 0 \<or> nb_elements Abs_All m \<noteq> 0 then Inl (MeshNotEmpty, m) else rebuild_mesh g m)"

section \<open>The fill\<close>

definition dimension_of :: "string \<Rightarrow> int" where
  "dimension_of kind = (if kind = ''VERTEX'' then 0 else if kind = ''EDGE'' then 1 else if kind = ''FACE'' then 2 else 3)"

definition element_dimension :: "int \<Rightarrow> int" where
  "element_dimension t = (case family_of t of Abs_0DElement \<Rightarrow> 0 | Abs_Edge \<Rightarrow> 1 | Abs_Face \<Rightarrow> 2 | Abs_Volume \<Rightarrow> 3 | _ \<Rightarrow> - 1)"

text \<open>
  \<^verbatim>\<open>Mesher::add_nodes\<close>; the binding is given when the kind is not empty. The check that every row
  lies on the sub-shape is geometry, and a parameter that refuses a row or none.
\<close>

definition add_node_row :: "int option \<Rightarrow> 'f list \<Rightarrow> nat \<Rightarrow> int list \<times> ('f \<times> 'f \<times> 'f) smds_mesh
    \<Rightarrow> ('f \<times> 'f \<times> 'f, int list \<times> ('f \<times> 'f \<times> 'f) smds_mesh) filling" where
  "add_node_row bound xyz i = (\<lambda>(out, m).
     bind_result (stored_in m (add_node (xyz ! (3 * i), xyz ! (3 * i + 1), xyz ! (3 * i + 2)) m)) (\<lambda>((k, made), n).
       if \<not> made then Inl (NodeRefused i, n)
       else bind_result (case bound of None \<Rightarrow> Inr n | Some s \<Rightarrow> stored_in n (submesh_add_node s k n)) (\<lambda>n'. Inr (out @ [k], n'))))"

definition add_nodes :: "mesher \<Rightarrow> (string \<times> int) option \<Rightarrow> bool \<Rightarrow> (string \<Rightarrow> int \<Rightarrow> 'f list \<Rightarrow> nat option) \<Rightarrow> 'f nd_array \<Rightarrow> ('f \<times> 'f \<times> 'f) smds_mesh
    \<Rightarrow> ('f \<times> 'f \<times> 'f, int list \<times> ('f \<times> 'f \<times> 'f) smds_mesh) filling" where
  "add_nodes w target with_parameters off_shape coords m =
     bind_result (leaving m (ensure_open w)) (\<lambda>_.
       if length (dims coords) \<noteq> 2 \<or> dims coords ! 1 \<noteq> 3 then Inl (BadCoords, m)
       else bind_result (case target of
           None \<Rightarrow> if with_parameters then Inl (ParametersNeedShape, m) else Inr None
         | Some (kind, ordinal) \<Rightarrow> bind_result (leaving m (sub_shape w kind ordinal)) (\<lambda>s.
             if with_parameters \<and> kind \<noteq> ''EDGE'' \<and> kind \<noteq> ''FACE'' then Inl (NoParametersOn kind, m)
             else case off_shape kind ordinal (items coords) of Some i \<Rightarrow> Inl (NotOnShape i, m) | None \<Rightarrow> Inr (Some s))) (\<lambda>bound.
         bind_result (loop (add_node_row bound (items coords)) [0..<nat (dims coords ! 0)] ([], m)) (\<lambda>(out, n).
           Inr (out, if 0 < dims coords ! 0 then modified n else n))))"

text \<open>\<^verbatim>\<open>Mesher::add_elements\<close>.\<close>

definition add_element_row :: "int \<Rightarrow> nat \<Rightarrow> int option \<Rightarrow> int list \<Rightarrow> nat \<Rightarrow> (int list \<times> int) \<times> 'c smds_mesh
    \<Rightarrow> ('c, (int list \<times> int) \<times> 'c smds_mesh) filling" where
  "add_element_row t arity bound conn i = (\<lambda>((out, next_id), m).
     bind_result (leaving m (each (\<lambda>j. if find_node (conn ! (i * arity + j)) m then Inr (conn ! (i * arity + j))
         else Inl (NoSuchNode i (conn ! (i * arity + j)))) [0..<arity])) (\<lambda>ns.
       bind_result (stored_in m (add_element t ns next_id m)) (\<lambda>(made, n).
         if \<not> made then Inl (RowRefused i t, n)
         else bind_result (case bound of None \<Rightarrow> Inr n | Some s \<Rightarrow> stored_in n (submesh_add_element s next_id n)) (\<lambda>n'.
           Inr ((out @ [next_id], next_id + 1), n')))))"

definition entity_of_code :: "int \<Rightarrow> entity" where
  "entity_of_code t = entity_types ! nat t"

definition element_target :: "mesher \<Rightarrow> int \<Rightarrow> (string \<times> int) option \<Rightarrow> (mesher_error, int option) result" where
  "element_target w t target = (case target of None \<Rightarrow> Inr None | Some (kind, ordinal) \<Rightarrow>
     bind_result (sub_shape w kind ordinal) (\<lambda>s.
       if element_dimension t \<noteq> dimension_of kind then Inl DimensionsDiffer else Inr (Some s)))"

definition add_elements :: "mesher \<Rightarrow> int \<Rightarrow> (string \<times> int) option \<Rightarrow> int nd_array \<Rightarrow> 'c smds_mesh
    \<Rightarrow> ('c, int list \<times> 'c smds_mesh) filling" where
  "add_elements w t target conn m =
     bind_result (leaving m (ensure_open w)) (\<lambda>_.
       if t < 0 \<or> entity_code Entity_Last \<le> t then Inl (NotAType t, m)
       else bind_result (leaving m (element_target w t target)) (\<lambda>bound.
         if t = entity_code Entity_Node then Inl (NodeIsNoElement, m)
         else if is_free_form t then Inl (NoFixedArity t, m)
         else if length (dims conn) \<noteq> 2 then Inl (NotATable, m)
         else let arity = nb_nodes_of (entity_of_code t)
              in if dims conn ! 1 \<noteq> arity then Inl (WrongArity t (dims conn ! 1), m)
              else bind_result (loop (add_element_row t (nat arity) bound (items conn)) [0..<nat (dims conn ! 0)]
                  (([], get_max_id (m_cells m) + 1), m)) (\<lambda>((out, next_id), n).
                Inr (out, if 0 < dims conn ! 0 then modified n else n))))"

end
