(* ===== verification/MeshArrayFacts.thy ===== *)
theory MeshArrayFacts
  imports MeshArrays
begin

text \<open>
  The arrays of a mesh as a function of its two maps, and the loops that write and read them.
\<close>

section \<open>Lists\<close>

text \<open>The first place of an item.\<close>

definition row_place :: "'a \<Rightarrow> 'a list \<Rightarrow> nat" where
  "row_place x xs = length (takeWhile (\<lambda>y. y \<noteq> x) xs)"

lemma row_place_mem: "x \<in> set xs \<Longrightarrow> row_place x xs < length xs" "x \<in> set xs \<Longrightarrow> xs ! row_place x xs = x"
  by (induction xs) (auto simp: row_place_def)

lemma row_place_nth: "distinct xs \<Longrightarrow> i < length xs \<Longrightarrow> row_place (xs ! i) xs = i"
  using row_place_mem [of "xs ! i" xs] nth_mem [of i xs] by (simp add: nth_eq_iff_index_eq)

definition starts_of :: "('a \<Rightarrow> 'b list) \<Rightarrow> 'a list \<Rightarrow> int list" where
  "starts_of f xs = map (\<lambda>i. int (length (concat (map f (take i xs))))) [0..<Suc (length xs)]"

lemma starts_of_nth: "i \<le> length xs \<Longrightarrow> starts_of f xs ! i = int (length (concat (map f (take i xs))))"
  unfolding starts_of_def by (simp add: nth_append del: upt_Suc)

lemma starts_of_Nil [simp]: "starts_of f [] = [0]"
  by (simp add: starts_of_def)

lemma starts_of_snoc: "starts_of f (xs @ [x]) = starts_of f xs @ [int (length (concat (map f (xs @ [x]))))]"
  by (simp add: starts_of_def)

lemma concat_slice:
  assumes "i < length xs" and "q < length (f (xs ! i))"
  shows "concat (map f xs) ! (length (concat (map f (take i xs))) + q) = f (xs ! i) ! q"
    and "length (concat (map f (take i xs))) + q < length (concat (map f xs))"
proof -
  have "xs = take i xs @ xs ! i # drop (Suc i) xs" by (rule id_take_nth_drop [OF assms(1)])
  then have split: "concat (map f xs) = concat (map f (take i xs)) @ f (xs ! i) @ concat (map f (drop (Suc i) xs))"
    by (metis concat.simps(2) concat_append list.simps(9) map_append)
  from assms(2) show "concat (map f xs) ! (length (concat (map f (take i xs))) + q) = f (xs ! i) ! q"
    "length (concat (map f (take i xs))) + q < length (concat (map f xs))"
    unfolding split by (simp_all add: nth_append)
qed

lemma starts_of_step: "i < length xs \<Longrightarrow> starts_of f xs ! Suc i = starts_of f xs ! i + int (length (f (xs ! i)))"
  by (simp add: starts_of_nth take_Suc_conv_app_nth)

lemma each_total_map: "(\<And>x. x \<in> set xs \<Longrightarrow> f x = Inr (g x)) \<Longrightarrow> each f xs = Inr (map g xs)"
  by (auto simp: each_Inr_iff list_all2_conv_all_nth)

section \<open>The arrays of the maps\<close>

definition cell_of :: "(int \<rightharpoonup> cell \<times> int) \<Rightarrow> int \<Rightarrow> cell" where
  "cell_of C k = fst (the (C k))"

definition node_order :: "(int \<rightharpoonup> 'c \<times> int) \<Rightarrow> int list" where
  "node_order N = sorted_list_of_set (dom N)"

definition element_order :: "(int \<rightharpoonup> cell \<times> int) \<Rightarrow> int list" where
  "element_order C = concat (map (\<lambda>t. filter (\<lambda>k. family (cell_of C k) = t) (sorted_list_of_set (dom C))) families)"

definition row_nodes :: "(int \<rightharpoonup> 'c \<times> int) \<Rightarrow> (int \<rightharpoonup> cell \<times> int) \<Rightarrow> int \<Rightarrow> int list" where
  "row_nodes N C k = map (\<lambda>n. int (row_place n (node_order N))) (c_nodes (cell_of C k))"

definition arrays_of :: "mesher option \<Rightarrow> (int \<rightharpoonup> ('f \<times> 'f \<times> 'f) \<times> int) \<Rightarrow> (int \<rightharpoonup> cell \<times> int) \<Rightarrow> 'f mesh_arrays" where
  "arrays_of w N C =
     (let ns = node_order N; es = element_order C; on_node = (\<lambda>k. binding_of w (snd (the (N k))));
          on_cell = (\<lambda>k. binding_of w (snd (the (C k))))
      in \<lparr>node_coords = \<lparr>dims = [int (card (dom N)), 3],
            items = concat (map (\<lambda>k. case fst (the (N k)) of (x, y, z) \<Rightarrow> [x, y, z]) ns)\<rparr>,
          node_id = ns, node_kind = map (\<lambda>k. kind_code (fst (on_node k))) ns, node_ordinal = map (\<lambda>k. snd (on_node k)) ns,
          element_offsets = starts_of (row_nodes N C) es, element_nodes = concat (map (row_nodes N C) es),
          element_type_codes = map (\<lambda>k. entity_code (c_entity (cell_of C k))) es, element_id = es,
          element_kind = map (\<lambda>k. kind_code (fst (on_cell k))) es, element_ordinal = map (\<lambda>k. snd (on_cell k)) es,
          face_offsets = starts_of (\<lambda>k. c_quantities (cell_of C k)) es,
          face_sizes = concat (map (\<lambda>k. c_quantities (cell_of C k)) es)\<rparr>)"

section \<open>The harvest\<close>

lemma harvest_nodes:
  assumes "distinct ks" and "\<forall>k \<in> set ks. 0 \<le> k \<and> k < int (length rows0)"
    and "\<And>k. k \<in> set ks \<Longrightarrow> N k = Some (the (m_points m (k - 1)), get_shape_id k (m_nodes m))"
    and start: "node_id out = []" "items (node_coords out) = []" "node_kind out = []" "node_ordinal out = []"
  shows "\<exists>rows. foldl (harvest_node w m) (out, rows0) ks =
      (out\<lparr>node_coords := (node_coords out)\<lparr>items := concat (map (\<lambda>k. case fst (the (N k)) of (x, y, z) \<Rightarrow> [x, y, z]) ks)\<rparr>,
         node_id := ks, node_kind := map (\<lambda>k. kind_code (fst (binding_of w (snd (the (N k)))))) ks,
         node_ordinal := map (\<lambda>k. snd (binding_of w (snd (the (N k))))) ks\<rparr>, rows) \<and>
    length rows = length rows0 \<and> (\<forall>i < length ks. rows ! nat (ks ! i) = int i)"
  using assms(1-3)
proof (induction ks rule: rev_induct)
  case Nil
  have "(node_coords out)\<lparr>items := []\<rparr> = node_coords out" using start by (intro nd_array.equality) simp_all
  then have "out\<lparr>node_coords := (node_coords out)\<lparr>items := []\<rparr>, node_id := [], node_kind := [], node_ordinal := []\<rparr> = out"
    using start by (intro mesh_arrays.equality) simp_all
  then show ?case by simp
next
  case (snoc k ks)
  then obtain rows where fold: "foldl (harvest_node w m) (out, rows0) ks =
      (out\<lparr>node_coords := (node_coords out)\<lparr>items := concat (map (\<lambda>k. case fst (the (N k)) of (x, y, z) \<Rightarrow> [x, y, z]) ks)\<rparr>,
         node_id := ks, node_kind := map (\<lambda>k. kind_code (fst (binding_of w (snd (the (N k)))))) ks,
         node_ordinal := map (\<lambda>k. snd (binding_of w (snd (the (N k))))) ks\<rparr>, rows)"
    and rows: "length rows = length rows0" "\<forall>i < length ks. rows ! nat (ks ! i) = int i" by auto
  have k: "0 \<le> k" "k < int (length rows)" "N k = Some (the (m_points m (k - 1)), get_shape_id k (m_nodes m))"
    using snoc.prems rows(1) by simp_all
  have "(rows[nat k := int (length ks)]) ! nat ((ks @ [k]) ! i) = int i" if "i < length (ks @ [k])" for i
  proof (cases "i < length ks")
    case True
    then have "ks ! i \<in> set ks" by simp
    then have "ks ! i \<noteq> k" "0 \<le> ks ! i" using snoc.prems(1,2) by auto
    then have "nat (ks ! i) \<noteq> nat k" using k(1) by (simp add: eq_nat_nat_iff)
    then show ?thesis using True rows(2) by (simp add: nth_append)
  next
    case False
    then have "i = length ks" using that by simp
    then show ?thesis using k(1,2) by (simp add: nat_less_iff)
  qed
  moreover obtain x y z where "the (m_points m (k - 1)) = (x, y, z)" by (cases "the (m_points m (k - 1))")
  ultimately show ?case using rows(1) k unfolding foldl_append foldl.simps fold
    by (intro exI [of _ "rows[nat k := int (length ks)]"]) (simp add: harvest_node_def Let_def)
qed

lemma harvest_element_eq:
  assumes ok: "mesh_ok m" and k: "k \<in> used (m_cells m)" and ns: "ns = node_order (nodes_of m)"
    and rows: "length rows = nat (get_max_id (m_nodes m)) + 1" "\<forall>i < length ns. rows ! nat (ns ! i) = int i"
  shows "harvest_element w m rows k out =
    (let c = cell_of (cells_of m) k; bound = binding_of w (snd (the (cells_of m k)));
         row = row_nodes (nodes_of m) (cells_of m) k
     in Inr (out\<lparr>element_nodes := element_nodes out @ row,
       element_offsets := element_offsets out @ [int (length (element_nodes out @ row))],
       element_type_codes := element_type_codes out @ [entity_code (c_entity c)], element_id := element_id out @ [k],
       element_kind := element_kind out @ [kind_code (fst bound)], element_ordinal := element_ordinal out @ [snd bound],
       face_sizes := face_sizes out @ c_quantities c,
       face_offsets := face_offsets out @ [int (length (face_sizes out @ c_quantities c))]\<rparr>))"
proof -
  obtain c where c: "cell_at k c m" using mesh_okD(3) [OF ok k] by blast
  note read = cell_at_read [OF c]
  have at_k: "cells_of m k = Some (c, get_shape_id k (m_cells m))" by (rule cells_of_at [OF c k])
  have row: "row_of rows (get_node k i m) = Inr (int (row_place (c_nodes c ! i) ns))" if i: "i < length (c_nodes c)" for i
  proof -
    let ?n = "c_nodes c ! i"
    have used: "?n \<in> used (m_nodes m)" using read(6) i by auto
    then have mem: "?n \<in> set ns" using mesh_okD(6) [OF ok] by (simp add: ns node_order_def)
    have "?n \<le> get_max_id (m_nodes m)" using get_max_id_refines [OF mesh_okD(1) [OF ok]] used mesh_okD(6) [OF ok]
      by (auto split: if_splits)
    then have "?n < int (length rows)" "0 \<le> ?n" using used_pos [OF used] rows(1) by simp_all
    moreover have "rows ! nat ?n = int (row_place ?n ns)" using row_place_mem [OF mem] rows(2) by metis
    ultimately show ?thesis using cell_at_node [OF c i] by (simp add: row_of_def)
  qed
  then have "each (\<lambda>i. row_of rows (get_node k i m)) [0..<nat (nb_cell_nodes k m)] =
      Inr (map (\<lambda>i. int (row_place (c_nodes c ! i) ns)) [0..<nat (nb_cell_nodes k m)])"
    by (intro each_total_map) (simp add: read(3))
  also have "map (\<lambda>i. int (row_place (c_nodes c ! i) ns)) [0..<nat (nb_cell_nodes k m)] = row_nodes (nodes_of m) (cells_of m) k"
    by (intro nth_equalityI) (simp_all add: read(3) row_nodes_def cell_of_def at_k ns)
  finally have each_row: "each (\<lambda>i. row_of rows (get_node k i m)) [0..<nat (nb_cell_nodes k m)] =
      Inr (row_nodes (nodes_of m) (cells_of m) k)" .
  have "c_quantities (read_cell k m) = c_quantities c" using read(1) by simp
  then have quantities: "get_quantities k m = c_quantities c" by (simp add: read_cell_def)
  have "c_entity c \<noteq> Entity_Quad_Polyhedra" using valid_held [OF read(5)] by (auto simp: held_entities_def plain_entities_def)
  moreover have "c_entity c \<noteq> Entity_Polyhedra \<Longrightarrow> c_quantities c = []" using read(5) by (simp add: cell_valid_def)
  moreover have "c_entity c = Entity_Polyhedra \<Longrightarrow> get_type k m = Abs_Volume" using read(2) family_polyhedron by simp
  ultimately show ?thesis
    using each_row read(4) quantities at_k by (auto simp: harvest_element_def cell_of_def Let_def)
qed

text \<open>The arrays of the elements, on those of the nodes.\<close>

definition with_elements :: "mesher option \<Rightarrow> (int \<rightharpoonup> 'c \<times> int) \<Rightarrow> (int \<rightharpoonup> cell \<times> int) \<Rightarrow> int list \<Rightarrow> 'f mesh_arrays \<Rightarrow> 'f mesh_arrays" where
  "with_elements w N C es out = out\<lparr>
     element_offsets := starts_of (row_nodes N C) es, element_nodes := concat (map (row_nodes N C) es),
     element_type_codes := map (\<lambda>k. entity_code (c_entity (cell_of C k))) es, element_id := es,
     element_kind := map (\<lambda>k. kind_code (fst (binding_of w (snd (the (C k)))))) es,
     element_ordinal := map (\<lambda>k. snd (binding_of w (snd (the (C k))))) es,
     face_offsets := starts_of (\<lambda>k. c_quantities (cell_of C k)) es,
     face_sizes := concat (map (\<lambda>k. c_quantities (cell_of C k)) es)\<rparr>"

lemma harvest_elements:
  assumes ok: "mesh_ok m" and es: "set es \<subseteq> used (m_cells m)" and ns: "ns = node_order (nodes_of m)"
    and rows: "length rows = nat (get_max_id (m_nodes m)) + 1" "\<forall>i < length ns. rows ! nat (ns ! i) = int i"
    and start: "out = with_elements w (nodes_of m) (cells_of m) [] out"
  shows "loop (harvest_element w m rows) es out = Inr (with_elements w (nodes_of m) (cells_of m) es out)"
  using es
proof (induction es rule: rev_induct)
  case Nil
  then show ?case using start by simp
next
  case (snoc k es)
  then have k: "k \<in> used (m_cells m)" and IH: "loop (harvest_element w m rows) es out =
      Inr (with_elements w (nodes_of m) (cells_of m) es out)" by simp_all
  show ?case
    unfolding loop_append IH using harvest_element_eq [OF ok k ns rows, of w "with_elements w (nodes_of m) (cells_of m) es out"]
    by (simp add: with_elements_def starts_of_snoc Let_def)
qed

lemma harvest_arrays_eq:
  fixes m :: "('f \<times> 'f \<times> 'f) smds_mesh"
  assumes ok: "mesh_ok m"
  shows "harvest_arrays w m = Inr (arrays_of w (nodes_of m) (cells_of m))"
proof -
  let ?N = "nodes_of m" and ?C = "cells_of m" and ?ns = "node_order (nodes_of m)"
  let ?rows0 = "replicate (nat (get_max_id (m_nodes m)) + 1) (- 1)"
  define start :: "'f mesh_arrays" where "start = \<lparr>node_coords = \<lparr>dims = [nb_elements Abs_Node m, 3], items = []\<rparr>, node_id = [], node_kind = [],
    node_ordinal = [], element_offsets = [0], element_nodes = [], element_type_codes = [], element_id = [],
    element_kind = [], element_ordinal = [], face_offsets = [0], face_sizes = []\<rparr>"
  have ns: "nodes_iterator m = ?ns" by (simp add: nodes_iterator_eq [OF ok] node_order_def)
  have "elements_iterator t m = filter (\<lambda>k. family (cell_of ?C k) = t) (sorted_list_of_set (dom ?C))" if "t \<in> set families" for t
    using family_lists [OF ok] that by (simp add: list_all_iff cell_of_def)
  then have es: "concat (map (\<lambda>t. elements_iterator t m) [Abs_0DElement, Abs_Ball, Abs_Edge, Abs_Face, Abs_Volume]) = element_order ?C"
    by (simp add: element_order_def families_def)
  have bounds: "\<forall>k \<in> set ?ns. 0 \<le> k \<and> k < int (length ?rows0)"
  proof
    fix k assume "k \<in> set ?ns"
    then have "k \<in> used (m_nodes m)" using mesh_okD(6) [OF ok] by (simp add: node_order_def)
    moreover from this have "k \<le> get_max_id (m_nodes m)"
      using get_max_id_refines [OF mesh_okD(1) [OF ok]] mesh_okD(6) [OF ok] by (auto split: if_splits)
    ultimately show "0 \<le> k \<and> k < int (length ?rows0)" using used_pos [of k "m_nodes m"] by simp
  qed
  have "?N k = Some (the (m_points m (k - 1)), get_shape_id k (m_nodes m))" if "k \<in> set ?ns" for k
  proof -
    have "k \<in> used (m_nodes m)" using that mesh_okD(6) [OF ok] by (simp add: node_order_def)
    then show ?thesis by (simp add: nodes_of_def find_node_used)
  qed
  then obtain rows where fold: "foldl (harvest_node w m) (start, ?rows0) ?ns =
      (start\<lparr>node_coords := (node_coords start)\<lparr>items := concat (map (\<lambda>k. case fst (the (?N k)) of (x, y, z) \<Rightarrow> [x, y, z]) ?ns)\<rparr>,
         node_id := ?ns, node_kind := map (\<lambda>k. kind_code (fst (binding_of w (snd (the (?N k)))))) ?ns,
         node_ordinal := map (\<lambda>k. snd (binding_of w (snd (the (?N k))))) ?ns\<rparr>, rows)"
    and rows: "length rows = nat (get_max_id (m_nodes m)) + 1" "\<forall>i < length ?ns. rows ! nat (?ns ! i) = int i"
    using harvest_nodes [of ?ns ?rows0 ?N m start w] bounds by (auto simp: start_def node_order_def)
  have "set (element_order ?C) \<subseteq> used (m_cells m)" using mesh_okD(5) [OF ok] by (auto simp: element_order_def)
  note elements = harvest_elements [OF ok this refl rows]
  show ?thesis
    unfolding harvest_arrays_def es ns Let_def start_def [symmetric] fold prod.case
    using mesh_okD(4) [OF ok, of Entity_Node] mesh_okD(7) [OF ok]
    by (subst elements) (simp_all add: with_elements_def start_def arrays_of_def Let_def)
qed

section \<open>Nodes put back\<close>

lemma triples_nth:
  assumes "i < length ks"
  shows "concat (map (\<lambda>k. case p k of (x, y, z) \<Rightarrow> [x, y, z]) ks) ! (3 * i) = fst (p (ks ! i))"
    and "concat (map (\<lambda>k. case p k of (x, y, z) \<Rightarrow> [x, y, z]) ks) ! (3 * i + 1) = fst (snd (p (ks ! i)))"
    and "concat (map (\<lambda>k. case p k of (x, y, z) \<Rightarrow> [x, y, z]) ks) ! (3 * i + 2) = snd (snd (p (ks ! i)))"
proof -
  let ?f = "\<lambda>k. case p k of (x, y, z) \<Rightarrow> [x, y, z]"
  have row: "?f k = [fst (p k), fst (snd (p k)), snd (snd (p k))]" for k by (simp split: prod.splits)
  have "length (concat (map ?f ks)) = 3 * length ks" for ks by (induction ks) (simp_all add: row)
  then have "length (concat (map ?f (take i ks))) = 3 * i" using assms by simp
  then show "concat (map ?f ks) ! (3 * i) = fst (p (ks ! i))" "concat (map ?f ks) ! (3 * i + 1) = fst (snd (p (ks ! i)))"
    "concat (map ?f ks) ! (3 * i + 2) = snd (snd (p (ks ! i)))"
    using concat_slice(1) [OF assms, of 0 ?f] concat_slice(1) [OF assms, of 1 ?f] concat_slice(1) [OF assms, of 2 ?f]
    by (simp_all add: row)
qed

lemma rebuild_nodes:
  assumes "mesh_ok m" and "distinct ks" and "\<forall>k \<in> set ks. 0 < k \<and> nodes_of m k = None"
    and "\<forall>j < length ks. (xyz ! (3 * (i + j)), xyz ! (3 * (i + j) + 1), xyz ! (3 * (i + j) + 2)) = p (ks ! j)"
  shows "\<exists>n. loop (rebuild_node xyz) (enumerate i ks) m = Inr n \<and> mesh_ok n \<and> cells_of n = cells_of m \<and>
    nodes_of n = (\<lambda>k. if k \<in> set ks then Some (p k, 0) else nodes_of m k)"
  using assms
proof (induction ks arbitrary: i m)
  case (Cons k ks)
  have k: "0 < k" "nodes_of m k = None" using Cons.prems(3) by simp_all
  obtain n where n: "add_node_with_id (p k) k m = Inr (nodes_of m k = None, n)" "mesh_ok n" "cells_of n = cells_of m"
    "nodes_of n = (if nodes_of m k = None then (nodes_of m)(k \<mapsto> (p k, 0)) else nodes_of m)"
    using add_node_with_id_refines [OF Cons.prems(1) k(1)] .
  have "(xyz ! (3 * i), xyz ! (3 * i + 1), xyz ! (3 * i + 2)) = p k" using Cons.prems(4) by force
  then have step: "rebuild_node xyz (i, k) m = Inr n" using n(1) k(2) by (simp add: rebuild_node_def stored_in_def)
  have "(xyz ! (3 * (Suc i + j)), xyz ! (3 * (Suc i + j) + 1), xyz ! (3 * (Suc i + j) + 2)) = p (ks ! j)"
    if "j < length ks" for j using spec [OF Cons.prems(4), of "Suc j"] that by simp
  then have coords: "\<forall>j < length ks. (xyz ! (3 * (Suc i + j)), xyz ! (3 * (Suc i + j) + 1), xyz ! (3 * (Suc i + j) + 2)) = p (ks ! j)" by blast
  have fresh: "\<forall>j \<in> set ks. 0 < j \<and> nodes_of n j = None" using Cons.prems(2,3) n(4) by auto
  have "distinct ks" using Cons.prems(2) by simp
  from Cons.IH [OF n(2) this fresh coords] obtain n' where "loop (rebuild_node xyz) (enumerate (Suc i) ks) n = Inr n'" "mesh_ok n'" "cells_of n' = cells_of n"
    "nodes_of n' = (\<lambda>k. if k \<in> set ks then Some (p k, 0) else nodes_of n k)"
    by blast
  then show ?case using step n(3,4) k(2) by (intro exI [of _ n']) auto
qed simp

section \<open>Elements put back\<close>

lemma modified_view [simp]: "nodes_of (modified m) = nodes_of m" "cells_of (modified m) = cells_of m" "mesh_ok (modified m) = mesh_ok m"
proof -
  have same: "m_nodes (modified m) = m_nodes m" "m_cells (modified m) = m_cells m" "m_points (modified m) = m_points m"
    "m_grid (modified m) = m_grid m" "m_info (modified m) = m_info m" "m_vtk_ids (modified m) = m_vtk_ids m"
    "m_smds_ids (modified m) = m_smds_ids m" by (simp_all add: modified_def)
  have ids: "get_vtk_id k (modified m) = get_vtk_id k m" "from_vtk_to_smds k (modified m) = from_vtk_to_smds k m" for k
    using same by (simp_all add: get_vtk_id_def from_vtk_to_smds_def)
  then have place: "cell_place k (modified m) = cell_place k m" for k by (simp add: cell_place_def same)
  have vtk: "find_node_vtk v (modified m) = find_node_vtk v m" for v by (simp add: find_node_vtk_def find_node_def same)
  have node: "get_node k i (modified m) = get_node k i m" for k i unfolding get_node_def place vtk by (rule refl)
  have types: "get_entity_type k (modified m) = get_entity_type k m" "nb_cell_nodes k (modified m) = nb_cell_nodes k m"
    "get_quantities k (modified m) = get_quantities k m" for k
    by (simp_all add: get_entity_type_def nb_cell_nodes_def get_quantities_def place)
  show "nodes_of (modified m) = nodes_of m" unfolding nodes_of_def find_node_def same by (rule refl)
  show "cells_of (modified m) = cells_of m" unfolding cells_of_def read_cell_def node types same by (rule refl)
  show "mesh_ok (modified m) = mesh_ok m" unfolding mesh_ok_def cell_at_def place ids types same by (rule refl)
qed

definition fixed_arity :: "entity \<Rightarrow> bool" where
  "fixed_arity e = (e \<in> set plain_entities \<and> e \<noteq> Entity_Ball)"

lemma built_of_code:
  "list_all (\<lambda>e. e = Entity_Ball \<or> built (entity_code e) (nat (nb_nodes_of e)) = Some e \<and> \<not> is_free_form (entity_code e)) plain_entities"
  "list_all (\<lambda>e. is_free_form (entity_code e)) [Entity_Polygon, Entity_Quad_Polygon, Entity_Polyhedra]"
  "built (entity_code Entity_Ball) n = None" "\<not> is_free_form (entity_code Entity_Ball)"
  by code_simp+

lemma fixed_arity_cell:
  assumes "cell_valid c" and "fixed_arity (c_entity c)"
  shows "c = plain_cell (c_entity c) (c_nodes c)" "built (entity_code (c_entity c)) (length (c_nodes c)) = Some (c_entity c)"
    "\<not> is_free_form (entity_code (c_entity c))"
proof -
  have e: "c_entity c \<in> set plain_entities" "c_entity c \<noteq> Entity_Ball" using assms(2) by (simp_all add: fixed_arity_def)
  then have "c_quantities c = []" "int (length (c_nodes c)) = nb_nodes_of (c_entity c)"
    using assms(1) by (auto simp: cell_valid_def plain_entities_def)
  moreover from this have "nat (nb_nodes_of (c_entity c)) = length (c_nodes c)" by (metis nat_int)
  ultimately show "c = plain_cell (c_entity c) (c_nodes c)" "built (entity_code (c_entity c)) (length (c_nodes c)) = Some (c_entity c)"
    "\<not> is_free_form (entity_code (c_entity c))"
    using e bspec [OF built_of_code(1) [unfolded list_all_iff] e(1)] by (simp_all add: plain_cell_def)
qed

text \<open>A cell whose type has a fixed number of nodes, put on nodes that are there.\<close>

lemma add_element_valid:
  assumes ok: "mesh_ok m" and k: "0 < k" "cells_of m k = None" and c: "cell_valid c" "fixed_arity (c_entity c)"
    "set (c_nodes c) \<subseteq> dom (nodes_of m)"
  obtains n where "add_element (entity_code (c_entity c)) (c_nodes c) k m = Inr (True, n)" "mesh_ok n"
    "nodes_of n = nodes_of m" "cells_of n = (cells_of m)(k \<mapsto> (c, 0))"
proof -
  note fixed = fixed_arity_cell [OF c(1,2)]
  let ?add = "add_element (entity_code (c_entity c)) (c_nodes c) k m"
  have "mesh_spec (Element (entity_code (c_entity c)) (c_nodes c) k) ([], nodes_of m, cells_of m) =
      Inr ([Some k], nodes_of m, (cells_of m)(k \<mapsto> (c, 0)))"
    using fixed(2) k c(3) by (simp add: put_cell_def flip: fixed(1))
  with mesh_step_refines [OF ok, of "Element (entity_code (c_entity c)) (c_nodes c) k" "[]"]
  have "\<exists>n. ?add = Inr (True, n) \<and> mesh_ok n \<and> nodes_of n = nodes_of m \<and> cells_of n = (cells_of m)(k \<mapsto> (c, 0))"
    by (cases ?add) (auto simp: answer_def split: if_splits)
  then show ?thesis using that by blast
qed

lemma rebuild_elements:
  assumes "mesh_ok m" and "distinct ks" and "\<forall>k \<in> set ks. 0 < k \<and> cells_of m k = None"
    and "\<forall>k \<in> set ks. cell_valid (p k) \<and> fixed_arity (c_entity (p k)) \<and> set (c_nodes (p k)) \<subseteq> dom (nodes_of m)"
    and "\<forall>j < length ks. connected_nodes conn ids (offsets ! (i + j)) (offsets ! Suc (i + j)) = Inr (c_nodes (p (ks ! j)))"
  shows "\<exists>n. loop (rebuild_element ids offsets conn) (enumerate i (zip (map (\<lambda>k. entity_code (c_entity (p k))) ks) ks)) m = Inr n \<and>
    mesh_ok n \<and> nodes_of n = nodes_of m \<and> cells_of n = (\<lambda>k. if k \<in> set ks then Some (p k, 0) else cells_of m k)"
  using assms
proof (induction ks arbitrary: i m)
  case (Cons k ks)
  have k: "0 < k" "cells_of m k = None" "cell_valid (p k)" "fixed_arity (c_entity (p k))" "set (c_nodes (p k)) \<subseteq> dom (nodes_of m)"
    using Cons.prems(3,4) by simp_all
  obtain n where n: "add_element (entity_code (c_entity (p k))) (c_nodes (p k)) k m = Inr (True, n)" "mesh_ok n"
    "nodes_of n = nodes_of m" "cells_of n = (cells_of m)(k \<mapsto> (p k, 0))"
    using add_element_valid [OF Cons.prems(1) k] .
  have "connected_nodes conn ids (offsets ! i) (offsets ! Suc i) = Inr (c_nodes (p k))" using Cons.prems(5) by force
  then have step: "rebuild_element ids offsets conn (i, entity_code (c_entity (p k)), k) m = Inr n"
    using n(1) fixed_arity_cell(3) [OF k(3,4)] by (simp add: rebuild_element_def leaving_def stored_in_def)
  have "connected_nodes conn ids (offsets ! (Suc i + j)) (offsets ! Suc (Suc i + j)) = Inr (c_nodes (p (ks ! j)))"
    if "j < length ks" for j using spec [OF Cons.prems(5), of "Suc j"] that by simp
  then have rows: "\<forall>j < length ks. connected_nodes conn ids (offsets ! (Suc i + j)) (offsets ! Suc (Suc i + j)) = Inr (c_nodes (p (ks ! j)))"
    by blast
  have fresh: "\<forall>j \<in> set ks. 0 < j \<and> cells_of n j = None" using Cons.prems(2,3) n(4) by auto
  have cells: "\<forall>k \<in> set ks. cell_valid (p k) \<and> fixed_arity (c_entity (p k)) \<and> set (c_nodes (p k)) \<subseteq> dom (nodes_of n)"
    using Cons.prems(4) n(3) by auto
  have "distinct ks" using Cons.prems(2) by simp
  from Cons.IH [OF n(2) this fresh cells rows] obtain n' where
    "loop (rebuild_element ids offsets conn) (enumerate (Suc i) (zip (map (\<lambda>k. entity_code (c_entity (p k))) ks) ks)) n = Inr n'"
    "mesh_ok n'" "nodes_of n' = nodes_of n" "cells_of n' = (\<lambda>k. if k \<in> set ks then Some (p k, 0) else cells_of n k)"
    by blast
  then show ?case using step n(3,4) by (intro exI [of _ n']) auto
qed simp

lemma connected_rows:
  assumes i: "i < length es" and rows: "\<forall>r \<in> set (f (es ! i)). 0 \<le> r \<and> r < int (length ids)"
  shows "connected_nodes (concat (map f es)) ids (starts_of f es ! i) (starts_of f es ! Suc i) =
    Inr (map (\<lambda>r. ids ! nat r) (f (es ! i)))"
proof -
  let ?conn = "concat (map f es)" and ?a = "length (concat (map f (take i es)))" and ?n = "length (f (es ! i))"
  let ?step = "\<lambda>j. if j < 0 \<or> int (length ?conn) \<le> j then Inl OutOfArray
    else let row = ?conn ! nat j in if row < 0 \<or> int (length ids) \<le> row then Inl (NotARow j) else Inr (ids ! nat row)"
  have ends: "starts_of f es ! i = int ?a" "starts_of f es ! Suc i = int ?a + int ?n"
    using i starts_of_step [OF i, of f] by (simp_all add: starts_of_nth)
  have range: "[int ?a..int ?a + int ?n - 1] = map (\<lambda>q. int (?a + q)) [0..<?n]"
    by (intro nth_equalityI) simp_all
  let ?G = "\<lambda>j. ids ! nat (?conn ! nat j)"
  have at_q: "?conn ! (?a + q) = f (es ! i) ! q" "?a + q < length ?conn" "0 \<le> f (es ! i) ! q \<and> f (es ! i) ! q < int (length ids)"
    if "q < ?n" for q using concat_slice [OF i, of q f, OF that] rows that by auto
  have "?step j = Inr (?G j)" if j: "j \<in> set (map (\<lambda>q. int (?a + q)) [0..<?n])" for j
  proof -
    obtain q where q: "j = int (?a + q)" "q < ?n" using j by auto
    have "nat j = ?a + q" "\<not> j < 0" "\<not> int (length ?conn) \<le> j" using q(1) at_q(2) [OF q(2)] by linarith+
    then show ?thesis using at_q(1,3) [OF q(2)] by (simp add: Let_def)
  qed
  then have "each ?step (map (\<lambda>q. int (?a + q)) [0..<?n]) = Inr (map ?G (map (\<lambda>q. int (?a + q)) [0..<?n]))"
    by (rule each_total_map)
  moreover have "map ?G (map (\<lambda>q. int (?a + q)) [0..<?n]) = map (\<lambda>r. ids ! nat r) (f (es ! i))"
    using at_q(1) by (intro nth_equalityI) (simp_all add: nat_int_add)
  ultimately show ?thesis unfolding connected_nodes_def ends range by simp
qed

section \<open>Round trip\<close>

definition given_of :: "'f mesh_arrays \<Rightarrow> 'f given_mesh" where
  "given_of a = \<lparr>g_coords = Some (node_coords a), g_node_id = Some (node_id a), g_offsets = Some (element_offsets a),
     g_nodes = Some (element_nodes a), g_types = Some (element_type_codes a), g_element_id = Some (element_id a)\<rparr>"

definition unbound :: "(int \<rightharpoonup> 'a \<times> int) \<Rightarrow> (int \<rightharpoonup> 'a \<times> int)" where
  "unbound M = (\<lambda>k. map_option (\<lambda>(x, s). (x, 0)) (M k))"

lemma set_element_order:
  assumes ok: "mesh_ok m"
  shows "set (element_order (cells_of m)) = used (m_cells m)" "distinct (element_order (cells_of m))"
proof -
  let ?C = "cells_of m"
  have family: "family (cell_of ?C k) \<in> set families" if "k \<in> used (m_cells m)" for k
    using cell_reads [OF ok, of k] that by (simp add: cells_of_def cell_of_def find_cell_used)
  then show "set (element_order ?C) = used (m_cells m)" using mesh_okD(5) [OF ok] by (auto simp: element_order_def)
  have "distinct (concat (map (\<lambda>t. filter (\<lambda>k. family (cell_of ?C k) = t) ks) ts))" if "distinct ts" "distinct ks" for ts ks
    using that by (induction ts) auto
  moreover have "distinct families" by (simp add: families_def)
  ultimately show "distinct (element_order ?C)" unfolding element_order_def by simp
qed

lemma cells_of_used:
  assumes ok: "mesh_ok m" and k: "k \<in> used (m_cells m)"
  shows "cells_of m k = Some (cell_of (cells_of m) k, get_shape_id k (m_cells m))" "cell_valid (cell_of (cells_of m) k)"
    "set (c_nodes (cell_of (cells_of m) k)) \<subseteq> used (m_nodes m)" "0 < k"
proof -
  note c = mesh_okD(3) [OF ok k]
  show "cells_of m k = Some (cell_of (cells_of m) k, get_shape_id k (m_cells m))" "cell_valid (cell_of (cells_of m) k)"
    "set (c_nodes (cell_of (cells_of m) k)) \<subseteq> used (m_nodes m)" "0 < k"
    using cells_of_at [OF c k] cell_at_read(5,6) [OF c] used_pos [OF k] by (simp_all add: cell_of_def)
qed

text \<open>The rows of a harvest lead back to the nodes of the cells.\<close>

lemma harvested_rows:
  assumes ok: "mesh_ok m" and j: "j < length (element_order (cells_of m))"
  shows "connected_nodes (element_nodes (arrays_of w (nodes_of m) (cells_of m))) (node_order (nodes_of m))
      (element_offsets (arrays_of w (nodes_of m) (cells_of m)) ! j) (element_offsets (arrays_of w (nodes_of m) (cells_of m)) ! Suc j) =
    Inr (c_nodes (cell_of (cells_of m) (element_order (cells_of m) ! j)))"
proof -
  let ?N = "nodes_of m" and ?C = "cells_of m" and ?k = "element_order (cells_of m) ! j"
  have "?k \<in> used (m_cells m)" using nth_mem [OF j] set_element_order(1) [OF ok] by simp
  from cells_of_used(3) [OF ok this] have nodes: "set (c_nodes (cell_of ?C ?k)) \<subseteq> set (node_order ?N)"
    using mesh_okD(6) [OF ok] by (simp add: node_order_def)
  then have "\<forall>r \<in> set (row_nodes ?N ?C ?k). 0 \<le> r \<and> r < int (length (node_order ?N))"
    using row_place_mem(1) by (fastforce simp: row_nodes_def)
  from connected_rows [where f = "row_nodes ?N ?C", OF j this]
  have "connected_nodes (concat (map (row_nodes ?N ?C) (element_order ?C))) (node_order ?N)
      (starts_of (row_nodes ?N ?C) (element_order ?C) ! j) (starts_of (row_nodes ?N ?C) (element_order ?C) ! Suc j) =
    Inr (map (\<lambda>r. node_order ?N ! nat r) (row_nodes ?N ?C ?k))" .
  moreover have "map (\<lambda>r. node_order ?N ! nat r) (row_nodes ?N ?C ?k) = c_nodes (cell_of ?C ?k)"
    using nodes row_place_mem(2) [of _ "node_order ?N"] unfolding row_nodes_def map_map by (intro map_idI) auto
  ultimately show ?thesis by (simp add: arrays_of_def Let_def)
qed

lemma new_mesh_info: "m_info new_mesh e = 0"
  by (simp add: new_mesh_def)

lemma rebuild_start:
  assumes ok: "mesh_ok m"
  obtains n where "mesh_ok n" "cells_of n = Map.empty" "nodes_of n = unbound (nodes_of m)"
    "fill_from_mesh v (given_of (arrays_of w (nodes_of m) (cells_of m))) new_mesh =
      bind_result (leaving new_mesh (ensure_open v)) (\<lambda>_.
      bind_result (loop (rebuild_element (node_order (nodes_of m)) (element_offsets (arrays_of w (nodes_of m) (cells_of m)))
          (element_nodes (arrays_of w (nodes_of m) (cells_of m))))
        (enumerate 0 (zip (map (\<lambda>k. entity_code (c_entity (cell_of (cells_of m) k))) (element_order (cells_of m)))
          (element_order (cells_of m)))) n) (\<lambda>n'. Inr (modified n')))"
proof -
  let ?N = "nodes_of m" and ?C = "cells_of m" and ?ns = "node_order (nodes_of m)"
  let ?xyz = "concat (map (\<lambda>k. case fst (the (?N k)) of (x, y, z) \<Rightarrow> [x, y, z]) ?ns)"
  have set: "set ?ns = used (m_nodes m)" and dist: "distinct ?ns" and len: "length ?ns = card (used (m_nodes m))"
    using mesh_okD(6) [OF ok] by (simp_all add: node_order_def)
  have fresh: "\<forall>k \<in> set ?ns. 0 < k \<and> nodes_of new_mesh k = None" using used_pos set by (auto simp: view_new)
  have "\<forall>j < length ?ns. (?xyz ! (3 * (0 + j)), ?xyz ! (3 * (0 + j) + 1), ?xyz ! (3 * (0 + j) + 2)) = fst (the (?N (?ns ! j)))"
    using triples_nth [of _ ?ns "\<lambda>k. fst (the (?N k))"] by simp
  from rebuild_nodes [OF mesh_ok_new dist fresh this] obtain n where
    n: "loop (rebuild_node ?xyz) (enumerate 0 ?ns) new_mesh = Inr n" "mesh_ok n" "cells_of n = Map.empty"
      "nodes_of n = (\<lambda>k. if k \<in> set ?ns then Some (fst (the (?N k)), 0) else None)" unfolding view_new by blast
  have "nodes_of n = unbound ?N"
    unfolding n(4) set by (intro ext) (auto simp: unbound_def nodes_of_def find_node_used)
  moreover have "length (starts_of (row_nodes ?N ?C) (element_order ?C)) = length (element_order ?C) + 1" by (simp add: starts_of_def)
  ultimately show ?thesis using n(1-3) len
    by (intro that [of n]) (simp_all add: new_mesh_info fill_from_mesh_def rebuild_mesh_def given_of_def arrays_of_def Let_def field_def)
qed

section \<open>The fill with elements\<close>

definition given_rows :: "nat \<Rightarrow> nat \<Rightarrow> int list \<Rightarrow> int list list" where
  "given_rows a n xs = map (\<lambda>i. map (\<lambda>j. xs ! (i * a + j)) [0..<a]) [0..<n]"

definition with_rows :: "int \<Rightarrow> entity \<Rightarrow> int \<Rightarrow> int list list \<Rightarrow> (int \<rightharpoonup> cell \<times> int) \<Rightarrow> (int \<rightharpoonup> cell \<times> int)" where
  "with_rows first e s rows C = (\<lambda>k. if first \<le> k \<and> k < first + int (length rows)
     then Some (plain_cell e (rows ! nat (k - first)), s) else C k)"

definition bound_to :: "int option \<Rightarrow> int" where
  "bound_to bound = (case bound of None \<Rightarrow> 0 | Some s \<Rightarrow> s)"

lemma given_rows_Suc: "given_rows a (Suc n) xs = given_rows a n xs @ [map (\<lambda>j. xs ! (n * a + j)) [0..<a]]"
  by (simp add: given_rows_def)

lemma with_rows_snoc: "with_rows first e s (rows @ [r]) C = (with_rows first e s rows C)(first + int (length rows) \<mapsto> (plain_cell e r, s))"
  by (intro ext) (auto simp: with_rows_def nth_append nat_less_iff)

lemma each_refused:
  "\<exists>x \<in> set xs. \<not> P x \<Longrightarrow> \<exists>x \<in> set xs. \<not> P x \<and> each (\<lambda>x. if P x then Inr (g x) else Inl (h x)) xs = Inl (h x)"
proof (induction xs)
  case (Cons x xs)
  show ?case
  proof (cases "P x")
    case True
    then have "\<exists>x \<in> set xs. \<not> P x" using Cons.prems by simp
    with Cons.IH obtain y where "y \<in> set xs" "\<not> P y" "each (\<lambda>x. if P x then Inr (g x) else Inl (h x)) xs = Inl (h y)" by blast
    with True show ?thesis by (intro bexI [of _ y]) simp_all
  qed simp
qed simp

text \<open>A row whose nodes are there, under an id that is new, on the sub-shape.\<close>

lemma add_element_row_refines:
  assumes ok: "mesh_ok m" and k: "0 < k" "cells_of m k = None" and e: "fixed_arity e" "a = nat (nb_nodes_of e)"
    and row: "set (map (\<lambda>j. xs ! (i * a + j)) [0..<a]) \<subseteq> dom (nodes_of m)"
  obtains n where "add_element_row (entity_code e) a bound xs i ((out, k), m) = Inr ((out @ [k], k + 1), n)" "mesh_ok n"
    "nodes_of n = nodes_of m" "cells_of n = (cells_of m)(k \<mapsto> (plain_cell e (map (\<lambda>j. xs ! (i * a + j)) [0..<a]), bound_to bound))"
proof -
  let ?ns = "map (\<lambda>j. xs ! (i * a + j)) [0..<a]"
  have plain: "e \<in> set plain_entities" using e(1) by (simp add: fixed_arity_def)
  then have "e \<noteq> Entity_Polyhedra" "e \<noteq> Entity_Polygon" "e \<noteq> Entity_Quad_Polygon" by (auto simp: plain_entities_def)
  then have c: "cell_valid (plain_cell e ?ns)" using plain plain_entity(3) [OF plain] e(2) by (simp add: cell_valid_def plain_cell_def)
  have parts: "c_entity (plain_cell e ?ns) = e" "c_nodes (plain_cell e ?ns) = ?ns" by (simp_all add: plain_cell_def)
  from add_element_valid [OF ok k c, unfolded parts, OF e(1) row] obtain n where
    n: "add_element (entity_code e) ?ns k m = Inr (True, n)" "mesh_ok n" "nodes_of n = nodes_of m"
      "cells_of n = (cells_of m)(k \<mapsto> (plain_cell e ?ns, 0))" .
  have "find_node (xs ! (i * a + j)) m" if "j \<in> set [0..<a]" for j using row that by (auto simp: find_node_used)
  then have found: "each (\<lambda>j. if find_node (xs ! (i * a + j)) m then Inr (xs ! (i * a + j)) else Inl (NoSuchNode i (xs ! (i * a + j)))) [0..<a] =
      Inr ?ns" by (intro each_total_map) simp
  show ?thesis
  proof (cases bound)
    case None
    with n found show ?thesis
      by (intro that [of n]) (simp_all add: add_element_row_def leaving_def stored_in_def bound_to_def)
  next
    case (Some s)
    have "cells_of n k = Some (plain_cell e ?ns, 0)" using n(4) by simp
    with submesh_add_element_refines [OF n(2) this, of s] obtain n' where
      "submesh_add_element s k n = Inr n'" "mesh_ok n'" "nodes_of n' = nodes_of n" "cells_of n' = (cells_of n)(k \<mapsto> (plain_cell e ?ns, s))"
      by auto
    with n found Some show ?thesis
      by (intro that [of n']) (simp_all add: add_element_row_def leaving_def stored_in_def bound_to_def)
  qed
qed

lemma rows_added:
  assumes ok: "mesh_ok m" and first: "0 < first" "\<forall>k \<ge> first. cells_of m k = None" and e: "fixed_arity e" "a = nat (nb_nodes_of e)"
    and rows: "\<forall>r \<in> set (given_rows a n xs). set r \<subseteq> dom (nodes_of m)"
  shows "\<exists>m'. loop (add_element_row (entity_code e) a bound xs) [0..<n] (([], first), m) =
      Inr (([first..first + int n - 1], first + int n), m') \<and> mesh_ok m' \<and> nodes_of m' = nodes_of m \<and>
    cells_of m' = with_rows first e (bound_to bound) (given_rows a n xs) (cells_of m)"
  using rows
proof (induction n)
  case 0
  have "with_rows first e (bound_to bound) [] (cells_of m) = cells_of m" by (intro ext) (auto simp: with_rows_def)
  then show ?case using ok by (simp add: given_rows_def)
next
  case (Suc n)
  then obtain m' where m': "loop (add_element_row (entity_code e) a bound xs) [0..<n] (([], first), m) =
      Inr (([first..first + int n - 1], first + int n), m')" "mesh_ok m'" "nodes_of m' = nodes_of m"
    "cells_of m' = with_rows first e (bound_to bound) (given_rows a n xs) (cells_of m)" by (auto simp: given_rows_Suc)
  have len: "length (given_rows a n xs) = n" by (simp add: given_rows_def)
  have k: "0 < first + int n" "cells_of m' (first + int n) = None" using first m'(4) len by (simp_all add: with_rows_def)
  have "set (map (\<lambda>j. xs ! (n * a + j)) [0..<a]) \<subseteq> dom (nodes_of m')" using Suc.prems m'(3) by (simp add: given_rows_Suc)
  from add_element_row_refines [OF m'(2) k e this] obtain m'' where m'':
    "add_element_row (entity_code e) a bound xs n (([first..first + int n - 1], first + int n), m') =
      Inr (([first..first + int n - 1] @ [first + int n], first + int n + 1), m'')" "mesh_ok m''" "nodes_of m'' = nodes_of m'"
    "cells_of m'' = (cells_of m')(first + int n \<mapsto> (plain_cell e (map (\<lambda>j. xs ! (n * a + j)) [0..<a]), bound_to bound))" by blast
  have "[first..first + int n - 1] @ [first + int n] = [first..first + int (Suc n) - 1]"
    using upto_append [of first "first + int n" "first + int n + 1"] by simp
  then show ?case using m'(1) m'' m'(3,4) len
    by (intro exI [of _ m'']) (simp add: loop_append given_rows_Suc with_rows_snoc)
qed

lemma add_element_row_refused:
  assumes "\<not> set (map (\<lambda>j. xs ! (i * a + j)) [0..<a]) \<subseteq> dom (nodes_of m)"
  shows "\<exists>x \<in> set (map (\<lambda>j. xs ! (i * a + j)) [0..<a]). nodes_of m x = None \<and>
    add_element_row t a bound xs i ((out, k), m) = Inl (NoSuchNode i x, m)"
proof -
  have "\<exists>j \<in> set [0..<a]. \<not> find_node (xs ! (i * a + j)) m" using assms by (auto simp: find_node_used)
  from each_refused [OF this, of "\<lambda>j. xs ! (i * a + j)" "\<lambda>j. NoSuchNode i (xs ! (i * a + j))"]
  obtain j where j: "j \<in> set [0..<a]" "\<not> find_node (xs ! (i * a + j)) m"
    "each (\<lambda>j. if find_node (xs ! (i * a + j)) m then Inr (xs ! (i * a + j)) else Inl (NoSuchNode i (xs ! (i * a + j)))) [0..<a] =
      Inl (NoSuchNode i (xs ! (i * a + j)))" by blast
  then have "nodes_of m (xs ! (i * a + j)) = None" using node_found by blast
  with j show ?thesis by (intro bexI [of _ "xs ! (i * a + j)"]) (simp_all add: add_element_row_def leaving_def)
qed

section \<open>Sub-shapes\<close>

text \<open>What the index of SMESHDS is documented to be: a numbering of the sub-shapes from 1.\<close>

definition shape_places :: "(string \<Rightarrow> int) \<Rightarrow> (string \<times> int) list" where
  "shape_places counts = concat (map (\<lambda>kind. map (\<lambda>i. (kind, i)) [1..counts kind]) kind_names)"

definition numbers_shapes :: "(string \<Rightarrow> int) \<Rightarrow> mesher \<Rightarrow> bool" where
  "numbers_shapes counts w =
     (distinct (map (\<lambda>(kind, i). shape_to_index w kind i) (shape_places counts)) \<and>
      list_all (\<lambda>(kind, i). 0 < shape_to_index w kind i \<and> shape_to_index w kind i \<le> max_shape_index w) (shape_places counts))"

lemma fill_table:
  assumes "inj_on (g :: 'a \<Rightarrow> int) (set ps)" and "\<forall>p \<in> set ps. 0 < g p \<and> g p \<le> b" and "b < int (length t0)" and "p \<in> set ps"
  shows "length (foldl (\<lambda>t p. if 0 < g p \<and> g p \<le> b then t[nat (g p) := p] else t) t0 ps) = length t0 \<and>
    foldl (\<lambda>t p. if 0 < g p \<and> g p \<le> b then t[nat (g p) := p] else t) t0 ps ! nat (g p) = p"
  using assms(1,2,4)
proof (induction ps rule: rev_induct)
  case (snoc q ps)
  let ?fill = "\<lambda>ps. foldl (\<lambda>t p. if 0 < g p \<and> g p \<le> b then t[nat (g p) := p] else t) t0 ps"
  have len: "length (?fill ps) = length t0" for ps by (induction ps rule: rev_induct) simp_all
  have q: "0 < g q" "g q \<le> b" using snoc.prems(2) by auto
  then have step: "?fill (ps @ [q]) = (?fill ps)[nat (g q) := q]" by simp
  have "?fill (ps @ [q]) ! nat (g p) = p"
  proof (cases "p = q")
    case True
    then show ?thesis unfolding step using q assms(3) len by (simp add: nat_less_iff)
  next
    case False
    then have p: "p \<in> set ps" using snoc.prems(3) by simp
    have "inj_on g (set ps)" using snoc.prems(1) by (rule inj_on_subset) auto
    with snoc.IH [OF this _ p] snoc.prems(2) have IH: "?fill ps ! nat (g p) = p" by simp
    have "g p \<noteq> g q" using inj_onD [OF snoc.prems(1), of p q] False p by auto
    then have "nat (g p) \<noteq> nat (g q)" using q(1) snoc.prems(2) p by (auto simp: eq_nat_nat_iff)
    then show ?thesis unfolding step using IH by simp
  qed
  with len [of "ps @ [q]"] show ?case by blast
qed simp

lemma index_map_inverts:
  assumes ok: "numbers_shapes counts w" and kind: "kind \<in> set kind_names" "1 \<le> i" "i \<le> counts kind"
  shows "ordinal_of_shape_index (build_index_map counts w) (shape_to_index w kind i) = (kind, i)"
proof -
  let ?ps = "shape_places counts"
  let ?g = "\<lambda>(kind, i). shape_to_index w kind i" and ?b = "max_shape_index w"
  let ?start = "replicate (nat ?b + 1) ('''' :: string, 0 :: int)"
  let ?t = "foldl (\<lambda>t p. if 0 < ?g p \<and> ?g p \<le> ?b then t[nat (?g p) := p] else t) ?start ?ps"
  have inj: "inj_on ?g (set ?ps)" using ok by (simp add: numbers_shapes_def distinct_map)
  have range: "\<forall>p \<in> set ?ps. 0 < ?g p \<and> ?g p \<le> ?b"
    using ok by (auto simp: numbers_shapes_def list_all_iff)
  have p: "(kind, i) \<in> set ?ps" using kind by (simp add: shape_places_def, intro bexI [of _ kind] imageI) simp_all
  then have bounds: "0 < shape_to_index w kind i" "shape_to_index w kind i \<le> ?b" using range by auto
  have "?b < int (length ?start)" by simp
  from fill_table [OF inj range this p] have filled: "length ?t = length ?start \<and> ?t ! nat (?g (kind, i)) = (kind, i)" .
  define t where "t = ?t"
  have "length t = length ?start" "t ! nat (shape_to_index w kind i) = (kind, i)"
    using filled unfolding t_def prod.case by blast+
  moreover have "index_to_ordinal (build_index_map counts w) = t"
    unfolding t_def by (simp add: build_index_map_def shape_places_def Let_def del: replicate.simps, intro foldl_cong refl) (simp split: prod.splits)
  ultimately show ?thesis using bounds by (simp add: ordinal_of_shape_index_def)
qed

end
