(* ===== verification/MeshArrayProps.thy ===== *)
theory MeshArrayProps
  imports MeshArrayFacts MeshProps
begin

text \<open>
  The properties of the arrays: what the harvest gives, that a rebuild of it is the mesh, and what
  a fill with elements does.
\<close>

lemma run_mesh_ok: "loop mesh_step cs ([], new_mesh) = Inr (log, m) \<Longrightarrow> mesh_ok m"
  using mesh.run_invar [of "([], new_mesh)" cs "(log, m)"] mesh_ok_new by simp

section \<open>Round trip\<close>

text \<open>A cell of another type stops the rebuild.\<close>

lemma rebuild_refused:
  assumes "cell_valid c" and "\<not> fixed_arity (c_entity c)" and "connected_nodes conn ids (offsets ! i) (offsets ! Suc i) = Inr (c_nodes c)"
  shows "isl (rebuild_element ids offsets conn (i, entity_code (c_entity c), k) n)"
proof -
  have "c_entity c = Entity_Ball \<or> c_entity c \<in> {Entity_Polygon, Entity_Quad_Polygon, Entity_Polyhedra}"
    using valid_held [OF assms(1)] assms(2) by (auto simp: held_entities_def fixed_arity_def)
  then show ?thesis
  proof
    assume "c_entity c = Entity_Ball"
    then have "add_element (entity_code (c_entity c)) (c_nodes c) k n = Inr (False, n)"
      by (simp add: add_element_built built_of_code(3))
    with assms(3) show ?thesis
      by (cases "is_free_form (entity_code (c_entity c))") (simp_all add: rebuild_element_def leaving_def stored_in_def)
  next
    assume "c_entity c \<in> {Entity_Polygon, Entity_Quad_Polygon, Entity_Polyhedra}"
    then have "is_free_form (entity_code (c_entity c))" using built_of_code(2) by auto
    then show ?thesis by (simp add: rebuild_element_def)
  qed
qed

lemma rebuild_loop:
  assumes ok: "mesh_ok m" and n: "mesh_ok n" "cells_of n = Map.empty" "nodes_of n = unbound (nodes_of m)"
    and C_def: "C = cells_of m" and a_def: "a = arrays_of w (nodes_of m) (cells_of m)" and ks_def: "ks = element_order C"
  shows "case loop (rebuild_element (node_order (nodes_of m)) (element_offsets a) (element_nodes a))
      (enumerate 0 (zip (map (\<lambda>k. entity_code (c_entity (cell_of C k))) ks) ks)) n of
    Inl e \<Rightarrow> \<not> (\<forall>k \<in> set ks. fixed_arity (c_entity (cell_of C k)))
  | Inr n' \<Rightarrow> (\<forall>k \<in> set ks. fixed_arity (c_entity (cell_of C k))) \<and> nodes_of n' = nodes_of n \<and> cells_of n' = unbound C"
proof -
  let ?row = "rebuild_element (node_order (nodes_of m)) (element_offsets a) (element_nodes a)"
  let ?zip = "\<lambda>ks. zip (map (\<lambda>k. entity_code (c_entity (cell_of C k))) ks) ks"
  note used = set_element_order [OF ok, folded C_def, folded ks_def]
  note cell = cells_of_used [OF ok, folded C_def]
  have dom: "dom (nodes_of n) = used (m_nodes m)" by (auto simp: n(3) unbound_def simp flip: dom_nodes_of)
  have rows: "connected_nodes (element_nodes a) (node_order (nodes_of m)) (element_offsets a ! j) (element_offsets a ! Suc j) =
      Inr (c_nodes (cell_of C (ks ! j)))" if "j < length ks" for j
    using harvested_rows [OF ok, of j w] that by (simp add: C_def a_def ks_def)
  have loop_good: "\<exists>n'. loop ?row (enumerate 0 (?zip gs)) n = Inr n' \<and> mesh_ok n' \<and> nodes_of n' = nodes_of n \<and>
      cells_of n' = (\<lambda>k. if k \<in> set gs then Some (cell_of C k, 0) else None)"
    if gs: "ks = gs @ rest" "\<forall>k \<in> set gs. fixed_arity (c_entity (cell_of C k))" for gs rest
  proof -
    have mem: "set gs \<subseteq> used (m_cells m)" using used(1) gs(1) by auto
    have "distinct gs" using used(2) gs(1) by simp
    moreover have "\<forall>k \<in> set gs. 0 < k \<and> cells_of n k = None" using cell(4) mem n(2) by auto
    moreover have "\<forall>k \<in> set gs. cell_valid (cell_of C k) \<and> fixed_arity (c_entity (cell_of C k)) \<and>
        set (c_nodes (cell_of C k)) \<subseteq> dom (nodes_of n)" using cell(2,3) mem gs(2) dom by blast
    moreover have "\<forall>j < length gs. connected_nodes (element_nodes a) (node_order (nodes_of m))
        (element_offsets a ! (0 + j)) (element_offsets a ! Suc (0 + j)) = Inr (c_nodes (cell_of C (gs ! j)))"
      using rows gs(1) by (auto simp: nth_append)
    ultimately show ?thesis using rebuild_elements [OF n(1)] unfolding n(2) by blast
  qed
  show ?thesis
  proof (cases "\<forall>k \<in> set ks. fixed_arity (c_entity (cell_of C k))")
    case True
    then obtain n' where n': "loop ?row (enumerate 0 (?zip ks)) n = Inr n'" "nodes_of n' = nodes_of n"
        "cells_of n' = (\<lambda>k. if k \<in> set ks then Some (cell_of C k, 0) else None)" using loop_good [of ks "[]"] by auto
    have "cells_of n' k = unbound C k" for k
    proof (cases "k \<in> used (m_cells m)")
      case True
      then have "k \<in> set ks" "C k = Some (cell_of C k, get_shape_id k (m_cells m))" using used(1) cell(1) by simp_all
      then show ?thesis by (simp add: n'(3) unbound_def)
    next
      case False
      then have "k \<notin> set ks" "C k = None" using used(1) by (simp_all add: C_def cells_of_def find_cell_used)
      then show ?thesis by (simp add: n'(3) unbound_def)
    qed
    then have "cells_of n' = unbound C" ..
    with True n'(1,2) show ?thesis by simp
  next
    case False
    then have "\<exists>k \<in> set ks. \<not> fixed_arity (c_entity (cell_of C k))" by simp
    from split_list_first_prop [OF this] obtain gs k rest where split: "ks = gs @ k # rest" "\<not> fixed_arity (c_entity (cell_of C k))"
        "\<forall>g \<in> set gs. fixed_arity (c_entity (cell_of C g))" by auto
    obtain n' where n': "loop ?row (enumerate 0 (?zip gs)) n = Inr n'" using loop_good [OF split(1,3)] by blast
    have "k \<in> used (m_cells m)" using used(1) split(1) by auto
    moreover have "connected_nodes (element_nodes a) (node_order (nodes_of m)) (element_offsets a ! length gs)
        (element_offsets a ! Suc (length gs)) = Inr (c_nodes (cell_of C k))" using rows [of "length gs"] split(1) by simp
    ultimately have bad: "isl (?row (length gs, entity_code (c_entity (cell_of C k)), k) n')"
      using rebuild_refused cell(2) split(2) by blast
    have "enumerate 0 (?zip ks) = enumerate 0 (?zip gs) @ (length gs, entity_code (c_entity (cell_of C k)), k) #
        enumerate (Suc (length gs)) (?zip rest)" unfolding split(1) by (simp add: enumerate_append_eq)
    then have "isl (loop ?row (enumerate 0 (?zip ks)) n)" using bad n' by (simp add: loop_append isl_def) auto
    with False show ?thesis by (cases "loop ?row (enumerate 0 (?zip ks)) n") simp_all
  qed
qed

text \<open>
  C13. After any calls, the harvest of a mesh gives the arrays of its maps and never throws: the
  nodes ascending by id, the elements by dimension and then by id, each row of nodes between its two
  offsets, each polyhedron's sizes of faces between its own, and the kind and ordinal of the
  sub-shape of each node and element.
\<close>

theorem harvest_is_the_maps:
  assumes run: "loop mesh_step cs ([], new_mesh) = Inr (log, m)"
  shows "harvest_arrays w m = Inr (arrays_of w (nodes_of m) (cells_of m))"
  by (rule harvest_arrays_eq [OF run_mesh_ok [OF run]])

text \<open>
  C26. The arrays harvested from a mesh, given to an open mesher whose mesh is empty, build the mesh
  again: the same nodes with their ids and coordinates and the same cells with their ids, types and
  nodes in order, on no sub-shape. It is refused exactly when the mesh has a polygon, a polyhedron
  or a ball.
\<close>

theorem rebuilt_mesh_is_the_mesh:
  assumes run: "loop mesh_step cs ([], new_mesh) = Inr (log, m)" and out: "harvest_arrays w m = Inr a"
    and "\<not> released v"
  shows "case fill_from_mesh v (given_of a) new_mesh of
      Inl e \<Rightarrow> \<not> (\<forall>k \<in> dom (cells_of m). fixed_arity (c_entity (cell_of (cells_of m) k)))
    | Inr n \<Rightarrow> (\<forall>k \<in> dom (cells_of m). fixed_arity (c_entity (cell_of (cells_of m) k))) \<and>
        nodes_of n = unbound (nodes_of m) \<and> cells_of n = unbound (cells_of m)"
proof -
  note ok = run_mesh_ok [OF run]
  have a: "a = arrays_of w (nodes_of m) (cells_of m)" using out harvest_arrays_eq [OF ok, of w] by simp
  from rebuild_start [OF ok, of v w] obtain n where n: "mesh_ok n" "cells_of n = Map.empty" "nodes_of n = unbound (nodes_of m)"
    and fill: "fill_from_mesh v (given_of a) new_mesh = bind_result (leaving new_mesh (ensure_open v)) (\<lambda>_.
      bind_result (loop (rebuild_element (node_order (nodes_of m)) (element_offsets a) (element_nodes a))
        (enumerate 0 (zip (map (\<lambda>k. entity_code (c_entity (cell_of (cells_of m) k))) (element_order (cells_of m)))
          (element_order (cells_of m)))) n) (\<lambda>n'. Inr (modified n')))" unfolding a by blast
  have "set (element_order (cells_of m)) = dom (cells_of m)" using set_element_order(1) [OF ok] by simp
  with rebuild_loop [OF ok n refl a refl] assms(3) n(3) show ?thesis
    unfolding fill by (auto simp: ensure_open_def leaving_def split: sum.splits)
qed

definition plate_calls :: "(int \<times> int \<times> int) mesh_call list" where
  "plate_calls = [Node_at (0, 0, 0) 1, Node_next (1, 0, 0), Node_at (0, 1, 0) 7, Node_next (0, 0, 1),
     Element (entity_code Entity_Tetra) [1, 2, 7, 3] 5, Element (entity_code Entity_Triangle) [7, 2, 1] 8, Node_on 4 7]"

definition plate_counts :: "string \<Rightarrow> int" where
  "plate_counts kind = (if kind = ''SOLID'' then 1 else if kind = ''FACE'' then 2 else 0)"

definition bare_mesher :: mesher where
  "bare_mesher = \<lparr>released = False, shape_counts = Some plate_counts,
     shape_to_index = (\<lambda>kind i. if kind = ''SOLID'' then i else i + 1), max_shape_index = 3, index_to_ordinal = []\<rparr>"

definition plate_mesh :: "(int \<times> int \<times> int) smds_mesh" where
  "plate_mesh = snd (projr (loop mesh_step plate_calls ([], new_mesh)))"

lemma plate_run: "\<exists>log. loop mesh_step plate_calls ([], new_mesh) = Inr (log, plate_mesh)"
proof -
  have "\<not> isl (loop mesh_step plate_calls ([], new_mesh))" by code_simp
  then show ?thesis by (cases "loop mesh_step plate_calls ([], new_mesh)") (auto simp: plate_mesh_def)
qed

theorem harvest_witness:
  "harvest_arrays None plate_mesh = Inr (arrays_of None (nodes_of plate_mesh) (cells_of plate_mesh)) \<and>
   element_id (projr (harvest_arrays None plate_mesh)) = [8, 5] \<and>
   element_nodes (projr (harvest_arrays None plate_mesh)) = [3, 1, 0, 0, 1, 3, 2] \<and>
   element_offsets (projr (harvest_arrays None plate_mesh)) = [0, 3, 7]"
proof (intro conjI)
  obtain log where "loop mesh_step plate_calls ([], new_mesh) = Inr (log, plate_mesh)" using plate_run by blast
  then show "harvest_arrays None plate_mesh = Inr (arrays_of None (nodes_of plate_mesh) (cells_of plate_mesh))"
    by (rule harvest_is_the_maps)
qed code_simp+

theorem rebuilt_mesh_witness:
  "\<exists>n. fill_from_mesh bare_mesher (given_of (projr (harvest_arrays None plate_mesh))) new_mesh = Inr n \<and>
     nodes_of n = unbound (nodes_of plate_mesh) \<and> cells_of n = unbound (cells_of plate_mesh) \<and>
     cells_of plate_mesh 8 = Some (plain_cell Entity_Triangle [7, 2, 1], 0) \<and> nodes_of plate_mesh 7 = Some ((0, 1, 0), 4)"
proof -
  let ?h = "harvest_arrays None plate_mesh" and ?f = "fill_from_mesh bare_mesher (given_of (projr (harvest_arrays None plate_mesh))) new_mesh"
  obtain log where run: "loop mesh_step plate_calls ([], new_mesh) = Inr (log, plate_mesh)" using plate_run by blast
  have "\<not> isl ?h" by code_simp
  then have out: "?h = Inr (projr ?h)" by (cases ?h) simp_all
  have "\<not> isl ?f" by code_simp
  then obtain n where f: "?f = Inr n" by (cases ?f) simp_all
  have "\<not> released bare_mesher" by code_simp
  from rebuilt_mesh_is_the_mesh [OF run out this] f
  have "nodes_of n = unbound (nodes_of plate_mesh)" "cells_of n = unbound (cells_of plate_mesh)" by simp_all
  moreover have "cells_of plate_mesh 8 = Some (plain_cell Entity_Triangle [7, 2, 1], 0)" "nodes_of plate_mesh 7 = Some ((0, 1, 0), 4)"
    by code_simp+
  ultimately show ?thesis using f by blast
qed

text \<open>The number of nodes is not compared with the type: a triangle with four nodes becomes a quadrangle.\<close>

definition untyped_row :: "int given_mesh" where
  "untyped_row = \<lparr>g_coords = Some \<lparr>dims = [4, 3], items = [0, 0, 0, 1, 0, 0, 1, 1, 0, 0, 1, 0]\<rparr>, g_node_id = Some [1, 2, 3, 4],
     g_offsets = Some [0, 4], g_nodes = Some [0, 1, 2, 3], g_types = Some [entity_code Entity_Triangle], g_element_id = Some [1]\<rparr>"

lemma untyped_row_is_rebuilt:
  "\<not> isl (rebuild_mesh untyped_row new_mesh) \<and> get_entity_type 1 (projr (rebuild_mesh untyped_row new_mesh)) = Entity_Quadrangle"
  by code_simp

section \<open>The fill with elements\<close>

lemma used_below: "mesh_ok m \<Longrightarrow> k \<in> used (m_cells m) \<Longrightarrow> 0 < k \<and> k \<le> get_max_id (m_cells m)"
  using get_max_id_refines(1) [OF mesh_okD(2), of m] mesh_okD(5) [of m] Max_ge [of "used (m_cells m)" k] used_pos [of k "m_cells m"]
  by (simp split: if_splits)

lemma cells_below: "mesh_ok m \<Longrightarrow> get_max_id (m_cells m) + 1 \<le> k \<Longrightarrow> cells_of m k = None"
  using used_below [of m k] by (auto simp: cells_of_def find_cell_used)

lemma max_id_nonneg:
  assumes ok: "mesh_ok m"
  shows "0 \<le> get_max_id (m_cells m)"
proof (cases "used (m_cells m) = {}")
  case True
  then show ?thesis using get_max_id_refines(1) [OF mesh_okD(2) [OF ok]] by simp
next
  case False
  then obtain k where "k \<in> used (m_cells m)" by blast
  from used_below [OF ok this] show ?thesis by simp
qed

lemma fixed_arity_code:
  assumes "fixed_arity e"
  shows "0 \<le> entity_code e" "entity_code e < entity_code Entity_Last" "entity_code e \<noteq> entity_code Entity_Node"
    "\<not> is_free_form (entity_code e)" "entity_of_code (entity_code e) = e" "0 \<le> nb_nodes_of e"
proof -
  have "list_all (\<lambda>e. e = Entity_Ball \<or> 0 \<le> entity_code e \<and> entity_code e < entity_code Entity_Last \<and> entity_code e \<noteq> entity_code Entity_Node \<and>
      \<not> is_free_form (entity_code e) \<and> entity_of_code (entity_code e) = e \<and> 0 \<le> nb_nodes_of e) plain_entities" by code_simp
  with assms show "0 \<le> entity_code e" "entity_code e < entity_code Entity_Last" "entity_code e \<noteq> entity_code Entity_Node"
    "\<not> is_free_form (entity_code e)" "entity_of_code (entity_code e) = e" "0 \<le> nb_nodes_of e"
    unfolding fixed_arity_def list_all_iff by blast+
qed

lemma add_elements_loop:
  assumes "\<not> released w" and "fixed_arity e" and "dims conn = [int n, nb_nodes_of e]"
    and "element_target w (entity_code e) target = Inr bound"
  shows "add_elements w (entity_code e) target conn m =
    bind_result (loop (add_element_row (entity_code e) (nat (nb_nodes_of e)) bound (items conn)) [0..<n]
      (([], get_max_id (m_cells m) + 1), m)) (\<lambda>((out, next_id), n'). Inr (out, if 0 < n then modified n' else n'))"
  using assms(1,3,4) fixed_arity_code [OF assms(2)] by (simp add: add_elements_def ensure_open_def leaving_def)

lemma add_elements_effect:
  assumes ok: "mesh_ok m" and "\<not> released w" and e: "fixed_arity e"
    and dims: "dims conn = [int n, nb_nodes_of e]" and target: "element_target w (entity_code e) target = Inr bound"
    and rows: "rows = given_rows (nat (nb_nodes_of e)) n (items conn)"
    and good: "good = takeWhile (\<lambda>r. set r \<subseteq> dom (nodes_of m)) rows" and first: "first = get_max_id (m_cells m) + 1"
  shows "dom (cells_of m) \<subseteq> {0<..<first} \<and>
    (case add_elements w (entity_code e) target conn m of
       Inr (ids, m') \<Rightarrow> mesh_ok m' \<and> good = rows \<and> ids = [first..first + int n - 1] \<and> nodes_of m' = nodes_of m \<and>
         cells_of m' = with_rows first e (bound_to bound) good (cells_of m)
     | Inl (err, m') \<Rightarrow> length good < n \<and>
         (\<exists>x \<in> set (rows ! length good). nodes_of m x = None \<and> err = NoSuchNode (length good) x) \<and>
         nodes_of m' = nodes_of m \<and> cells_of m' = with_rows first e (bound_to bound) good (cells_of m))"
proof
  let ?a = "nat (nb_nodes_of e)" and ?g = "length good"
  let ?row = "add_element_row (entity_code e) ?a bound (items conn)"
  show "dom (cells_of m) \<subseteq> {0<..<first}" using used_below [OF ok] unfolding first dom_cells_of by auto
  have len: "length rows = n" by (simp add: rows given_rows_def)
  have le: "?g \<le> n" using length_takeWhile_le [of "\<lambda>r. set r \<subseteq> dom (nodes_of m)" rows] len by (simp add: good)
  have "good = take ?g rows" unfolding good by (rule takeWhile_eq_take)
  moreover have "given_rows ?a ?g (items conn) = take ?g rows" using le by (simp add: rows given_rows_def take_map)
  ultimately have prefix: "given_rows ?a ?g (items conn) = good" by simp
  have "0 < first" "\<forall>k \<ge> first. cells_of m k = None" using max_id_nonneg [OF ok] cells_below [OF ok] by (simp_all add: first)
  moreover have "\<forall>r \<in> set (given_rows ?a ?g (items conn)). set r \<subseteq> dom (nodes_of m)"
  proof
    fix r assume "r \<in> set (given_rows ?a ?g (items conn))"
    then have "r \<in> set good" using prefix by simp
    then have "r \<in> set (takeWhile (\<lambda>r. set r \<subseteq> dom (nodes_of m)) rows)" unfolding good .
    then show "set r \<subseteq> dom (nodes_of m)" by (rule conjunct2 [OF set_takeWhileD])
  qed
  ultimately obtain m' where m': "loop ?row [0..<?g] (([], first), m) = Inr (([first..first + int ?g - 1], first + int ?g), m')"
    "mesh_ok m'" "nodes_of m' = nodes_of m" "cells_of m' = with_rows first e (bound_to bound) good (cells_of m)"
    using rows_added [OF ok _ _ e refl, of first ?g "items conn" bound] unfolding prefix by blast
  note call = add_elements_loop [OF assms(2) e dims target, of m, folded first]
  show "case add_elements w (entity_code e) target conn m of
       Inr (ids, m') \<Rightarrow> mesh_ok m' \<and> good = rows \<and> ids = [first..first + int n - 1] \<and> nodes_of m' = nodes_of m \<and>
         cells_of m' = with_rows first e (bound_to bound) good (cells_of m)
     | Inl (err, m') \<Rightarrow> length good < n \<and>
         (\<exists>x \<in> set (rows ! length good). nodes_of m x = None \<and> err = NoSuchNode (length good) x) \<and>
         nodes_of m' = nodes_of m \<and> cells_of m' = with_rows first e (bound_to bound) good (cells_of m)"
  proof (cases "?g = n")
    case True
    moreover have "good = rows" using prefix rows True by simp
    ultimately show ?thesis using m' by (simp add: call)
  next
    case False
    then have g: "?g < n" using le by simp
    have "rows ! ?g = map (\<lambda>j. items conn ! (?g * ?a + j)) [0..<?a]" using g by (simp add: rows given_rows_def)
    moreover have "\<not> set (rows ! ?g) \<subseteq> dom (nodes_of m)"
      using nth_length_takeWhile [of "\<lambda>r. set r \<subseteq> dom (nodes_of m)" rows] g len unfolding good by simp
    ultimately obtain x where x: "x \<in> set (rows ! ?g)" "nodes_of m x = None"
      "?row ?g (([first..first + int ?g - 1], first + int ?g), m') = Inl (NoSuchNode ?g x, m')"
      using add_element_row_refused [of "items conn" ?g ?a m' "entity_code e" bound] m'(3) by metis
    have "[0..<n] = [0..<?g] @ ?g # [Suc ?g..<n]" using g upt_add_eq_append [of 0 ?g "n - ?g"] upt_conv_Cons [of ?g n] by simp
    then have "loop ?row [0..<n] (([], first), m) = Inl (NoSuchNode ?g x, m')" using m'(1) x(3) by (simp add: loop_append)
    then show ?thesis using x(1,2) g m'(3,4) by (auto simp: call)
  qed
qed

text \<open>
  C36. A table of elements of a type of fixed arity, given to an open mesher with a valid target,
  is added row by row up to the first row that names a node the mesh does not have: each row is the
  cell of that type on those nodes in order, bound to the target, and the ids are the consecutive
  ones above every id in the mesh. When every row is good the ids are returned; otherwise the call
  throws for the first bad row, naming a missing node of it, and the rows before it stay in the mesh.
\<close>

theorem added_elements_are_the_rows:
  assumes run: "loop mesh_step cs ([], new_mesh) = Inr (log, m)" and "\<not> released w" and e: "fixed_arity e"
    and dims: "dims conn = [int n, nb_nodes_of e]" and target: "element_target w (entity_code e) target = Inr bound"
    and rows: "rows = given_rows (nat (nb_nodes_of e)) n (items conn)"
    and good: "good = takeWhile (\<lambda>r. set r \<subseteq> dom (nodes_of m)) rows" and first: "first = get_max_id (m_cells m) + 1"
  shows "dom (cells_of m) \<subseteq> {0<..<first} \<and>
    (case add_elements w (entity_code e) target conn m of
       Inr (ids, m') \<Rightarrow> good = rows \<and> ids = [first..first + int n - 1] \<and> nodes_of m' = nodes_of m \<and>
         cells_of m' = with_rows first e (bound_to bound) good (cells_of m)
     | Inl (err, m') \<Rightarrow> length good < n \<and>
         (\<exists>x \<in> set (rows ! length good). nodes_of m x = None \<and> err = NoSuchNode (length good) x) \<and>
         nodes_of m' = nodes_of m \<and> cells_of m' = with_rows first e (bound_to bound) good (cells_of m))"
  using add_elements_effect [OF run_mesh_ok [OF run] assms(2-)] by (auto split: sum.splits)

definition plate_mesher :: mesher where
  "plate_mesher = build_index_map plate_counts bare_mesher"

definition plate_table :: "int nd_array" where
  "plate_table = \<lparr>dims = [3, 3], items = [2, 7, 3, 1, 3, 2, 7, 9, 1]\<rparr>"

theorem added_elements_witness:
  "\<exists>m'. add_elements plate_mesher (entity_code Entity_Triangle) (Some (''FACE'', 2)) plate_table plate_mesh =
       Inl (NoSuchNode 2 9, m') \<and>
     cells_of m' = with_rows 9 Entity_Triangle 3 [[2, 7, 3], [1, 3, 2]] (cells_of plate_mesh) \<and>
     dom (cells_of plate_mesh) \<subseteq> {0<..<9}"
proof -
  let ?rows = "[[2, 7, 3], [1, 3, 2], [7, 9, 1]] :: int list list" and ?good = "[[2, 7, 3], [1, 3, 2]] :: int list list"
  let ?call = "add_elements plate_mesher (entity_code Entity_Triangle) (Some (''FACE'', 2)) plate_table plate_mesh"
  obtain log where run: "loop mesh_step plate_calls ([], new_mesh) = Inr (log, plate_mesh)" using plate_run by blast
  have "nodes_of plate_mesh n \<noteq> None" if "n \<in> {1, 2, 3, 7}" for n
  proof -
    have "list_all (\<lambda>n. find_node n plate_mesh) [1, 2, 3, 7]" by code_simp
    with that show ?thesis by (auto simp: list_all_iff node_found)
  qed
  moreover have "nodes_of plate_mesh 9 = None"
  proof -
    have "\<not> find_node 9 plate_mesh" by code_simp
    then show ?thesis using node_found by blast
  qed
  ultimately have good: "?good = takeWhile (\<lambda>r. set r \<subseteq> dom (nodes_of plate_mesh)) ?rows" by (auto simp: domIff simp del: dom_nodes_of)
  have rows: "?rows = given_rows (nat (nb_nodes_of Entity_Triangle)) 3 (items plate_table)" by code_simp
  have "\<not> released plate_mesher" by code_simp
  moreover have "fixed_arity Entity_Triangle" by code_simp
  moreover have "dims plate_table = [int 3, nb_nodes_of Entity_Triangle]" by code_simp
  moreover have "element_target plate_mesher (entity_code Entity_Triangle) (Some (''FACE'', 2)) = Inr (Some 3)" by code_simp
  moreover have first: "9 = get_max_id (m_cells plate_mesh) + 1" by code_simp
  ultimately have added: "dom (cells_of plate_mesh) \<subseteq> {0<..<9} \<and>
    (case ?call of
       Inr (ids, m') \<Rightarrow> ?good = ?rows \<and> ids = [9..9 + int 3 - 1] \<and> nodes_of m' = nodes_of plate_mesh \<and>
         cells_of m' = with_rows 9 Entity_Triangle (bound_to (Some 3)) ?good (cells_of plate_mesh)
     | Inl (err, m') \<Rightarrow> length ?good < 3 \<and>
         (\<exists>x \<in> set (?rows ! length ?good). nodes_of plate_mesh x = None \<and> err = NoSuchNode (length ?good) x) \<and>
         nodes_of m' = nodes_of plate_mesh \<and>
         cells_of m' = with_rows 9 Entity_Triangle (bound_to (Some 3)) ?good (cells_of plate_mesh))"
    using added_elements_are_the_rows [OF run _ _ _ _ rows good first] by blast
  have "isl ?call \<and> fst (projl ?call) = NoSuchNode 2 9" by code_simp
  then obtain m' where "?call = Inl (NoSuchNode 2 9, m')" by (cases ?call) auto
  with added show ?thesis by (intro exI [of _ m']) (simp add: bound_to_def)
qed

section \<open>Bindings\<close>

lemma arrays_at:
  assumes ok: "mesh_ok m" and k: "cells_of m k = Some (c, s)"
  shows "\<exists>j < length (element_id (arrays_of w (nodes_of m) (cells_of m))).
    element_id (arrays_of w (nodes_of m) (cells_of m)) ! j = k \<and>
    element_kind (arrays_of w (nodes_of m) (cells_of m)) ! j = kind_code (fst (binding_of w s)) \<and>
    element_ordinal (arrays_of w (nodes_of m) (cells_of m)) ! j = snd (binding_of w s)"
proof -
  have "k \<in> used (m_cells m)" using domI [where m = "cells_of m", OF k] by simp
  then have "k \<in> set (element_order (cells_of m))" using set_element_order(1) [OF ok] by simp
  then obtain j where "j < length (element_order (cells_of m))" "element_order (cells_of m) ! j = k" by (auto simp: in_set_conv_nth)
  with k show ?thesis by (intro exI [of _ j]) (simp add: arrays_of_def Let_def)
qed

text \<open>
  C27. Elements that a mesher on a geometry adds on one of its sub-shapes come out of its harvest
  with the code of that sub-shape's kind and its ordinal: the index of SMESHDS, which the mesh
  stores, is translated back.
\<close>

theorem bound_elements_name_their_shape:
  assumes run: "loop mesh_step cs ([], new_mesh) = Inr (log, m)"
    and w: "w = build_index_map counts w0" "shape_counts w0 = Some counts" "numbers_shapes counts w0"
    and e: "fixed_arity e" "dims conn = [int n, nb_nodes_of e]"
    and add: "add_elements w (entity_code e) (Some (kind, ordinal)) conn m = Inr (ids, m')"
  shows "\<exists>a. harvest_arrays (Some w) m' = Inr a \<and> ids = [get_max_id (m_cells m) + 1..get_max_id (m_cells m) + int n] \<and>
    (\<forall>k \<in> set ids. \<exists>j < length (element_id a). element_id a ! j = k \<and> element_kind a ! j = kind_code kind \<and>
       element_ordinal a ! j = ordinal)"
proof -
  note ok = run_mesh_ok [OF run]
  have w0: "shape_to_index w = shape_to_index w0" "shape_counts w = shape_counts w0" by (simp_all add: w(1) build_index_map_def Let_def)
  have "\<not> released w" using add by (auto simp: add_elements_def ensure_open_def leaving_def split: if_splits)
  moreover have "\<exists>bound. element_target w (entity_code e) (Some (kind, ordinal)) = Inr bound"
    using add fixed_arity_code [OF e(1)]
    by (cases "element_target w (entity_code e) (Some (kind, ordinal))")
      (auto simp: add_elements_def leaving_def ensure_open_def \<open>\<not> released w\<close>)
  then obtain bound where target: "element_target w (entity_code e) (Some (kind, ordinal)) = Inr bound" by blast
  have shape: "kind \<in> set kind_names" "1 \<le> ordinal" "ordinal \<le> counts kind" "bound = Some (shape_to_index w0 kind ordinal)"
    using target w(2) by (auto simp: element_target_def sub_shape_def w0 ensure_open_def \<open>\<not> released w\<close> split: if_splits)
  let ?s = "shape_to_index w0 kind ordinal" and ?first = "get_max_id (m_cells m) + 1"
  let ?rows = "given_rows (nat (nb_nodes_of e)) n (items conn)"
  have len: "length ?rows = n" by (simp add: given_rows_def)
  let ?P = "\<lambda>r. set r \<subseteq> dom (nodes_of m)"
  have effect: "mesh_ok m' \<and> takeWhile ?P ?rows = ?rows \<and> ids = [?first..?first + int n - 1] \<and> nodes_of m' = nodes_of m \<and>
      cells_of m' = with_rows ?first e (bound_to bound) (takeWhile ?P ?rows) (cells_of m)"
    using add_elements_effect [OF ok calculation e target refl refl refl] unfolding add sum.case prod.case by blast
  then have ok': "mesh_ok m'" and ids: "ids = [?first..?first + int n - 1]" by blast+
  have "bound_to bound = ?s" by (simp add: shape(4) bound_to_def)
  then have cells: "cells_of m' = with_rows ?first e ?s ?rows (cells_of m)" using effect by metis
  have inverse: "binding_of (Some w) ?s = (kind, ordinal)"
    using index_map_inverts [OF w(3) shape(1-3)] by (simp add: binding_of_def w(1))
  let ?a = "arrays_of (Some w) (nodes_of m') (cells_of m')"
  have "\<exists>j < length (element_id ?a). element_id ?a ! j = k \<and> element_kind ?a ! j = kind_code kind \<and> element_ordinal ?a ! j = ordinal"
    if "k \<in> set ids" for k
  proof -
    have "cells_of m' k = Some (plain_cell e (?rows ! nat (k - ?first)), ?s)" using that ids len by (simp add: cells with_rows_def)
    from arrays_at [OF ok' this, of "Some w"] show ?thesis by (simp only: inverse fst_conv snd_conv)
  qed
  then show ?thesis using harvest_arrays_eq [OF ok', of "Some w"] ids by simp
qed

theorem bound_elements_witness:
  "\<exists>m' a. add_elements plate_mesher (entity_code Entity_Triangle) (Some (''FACE'', 2)) \<lparr>dims = [2, 3], items = [2, 7, 3, 1, 3, 2]\<rparr> plate_mesh =
       Inr ([9, 10], m') \<and> harvest_arrays (Some plate_mesher) m' = Inr a \<and>
     (\<forall>k \<in> {9, 10}. \<exists>j < length (element_id a). element_id a ! j = k \<and> element_kind a ! j = 2 \<and> element_ordinal a ! j = 2)"
proof -
  let ?table = "\<lparr>dims = [2, 3], items = [2, 7, 3, 1, 3, 2]\<rparr> :: int nd_array"
  let ?call = "add_elements plate_mesher (entity_code Entity_Triangle) (Some (''FACE'', 2)) ?table plate_mesh"
  obtain log where run: "loop mesh_step plate_calls ([], new_mesh) = Inr (log, plate_mesh)" using plate_run by blast
  have "\<not> isl ?call \<and> fst (projr ?call) = [9, 10]" by code_simp
  then obtain m' where call: "?call = Inr ([9, 10], m')" by (cases ?call) auto
  have counts: "shape_counts bare_mesher = Some plate_counts" by (simp add: bare_mesher_def)
  have shapes: "numbers_shapes plate_counts bare_mesher"
    by code_simp
  have e: "fixed_arity Entity_Triangle" "dims ?table = [int 2, nb_nodes_of Entity_Triangle]" by code_simp+
  obtain a where "harvest_arrays (Some plate_mesher) m' = Inr a" "\<forall>k \<in> set [9, 10]. \<exists>j < length (element_id a).
      element_id a ! j = k \<and> element_kind a ! j = kind_code ''FACE'' \<and> element_ordinal a ! j = 2"
    using bound_elements_name_their_shape [OF run plate_mesher_def counts shapes e call] by blast
  moreover have "kind_code ''FACE'' = 2" by code_simp
  ultimately show ?thesis using call by (intro exI [of _ m'] exI [of _ a]) simp
qed

end
