(* ===== verification/Spec2Isabelle.thy ===== *)
theory Spec2Isabelle
  imports SessionProps CommitProps QueryProps SketchProps SketchRows SketchBounds HistoryProps BlockProps ChainProps
    BlockQueryProps ArrayProps TessellateProps IdProps CellProps MeshProps MeshArrayProps
begin

text \<open>
  A model of the C++ bindings of pySMESH (\<^verbatim>\<open>src/bindings\<close>), the part of the repository that is its
  own code: a modelling session that names the sub-shapes of an OCCT model by ids that survive
  operations, a constraint sketch handed to PlaneGCS, the block operations taken over from
  GEOM, and a mesh that goes out and comes in as plain arrays; and of the mesh itself, which is
  SMESH's (\<^verbatim>\<open>src/extern/smesh\<close>), the store the arrays are read from and written to. The geometry is
  OCCT's, the numerics PlaneGCS's and the meshing SMESH's; the bindings decide what those results
  mean, and that is what is modelled.

  \<^bold>\<open>The program and how its parts interact.\<close> A \<^verbatim>\<open>Session\<close> (\<^verbatim>\<open>session.hpp\<close>) holds a root compound,
  a registry that maps ids to shapes and shapes to ids, a table of permanent names, the
  provenance of every id and a list of snapshots. Every operation, whether it builds, moves or
  glues, runs OCCT on shapes resolved from ids and ends in \<^verbatim>\<open>commit\<close>, which checks the shape built,
  carries the registry over to the new root through the operation's history, and issues ids to
  what is new; or, for a rigid motion, in \<^verbatim>\<open>relocate\<close>, which relabels the registry. The queries read
  the root and the registry; \<^verbatim>\<open>tessellate\<close> keeps a record of what it last handed out, beside the
  session's state. The block operations are queries and operations of the session that
  run GEOM's block algorithms on the shapes. A sketch (\<^verbatim>\<open>sketch.cpp\<close>) stands apart from the
  session: flat arrays are checked row by row, planned, turned into calls of a PlaneGCS system over
  one buffer, solved, and reported. A \<^verbatim>\<open>Mesher\<close> (\<^verbatim>\<open>mesher.hpp\<close>) holds a mesh of SMDS: two factories that
  hand out the ids of nodes and cells, a VTK grid that keeps the cells in VTK's order of nodes, two
  tables between the ids and the places in the grid, and counters. \<^verbatim>\<open>harvest_arrays\<close> reads it into
  arrays, \<^verbatim>\<open>rebuild_mesh\<close> and the fill write it, and a table translates the index SMESHDS has for a
  sub-shape to the kind and ordinal the caller knows.

  \<^bold>\<open>The theories.\<close>
  \<^item> \<open>Prelude\<close>: results with an error branch, loops that may throw, the C++ containers; the
    collections \<open>result_simps\<close> and \<open>table_simps\<close>, and the interface \<open>multimap\<close> of the tables of
    lists.
  \<^item> The session. \<open>Shapes\<close>: \<^verbatim>\<open>TopoDS_Shape\<close> as a value with its TShape, Location and Orientation,
    \<^verbatim>\<open>IsSame\<close> as equality of keys, \<^verbatim>\<open>registered_subshapes\<close>. \<open>Registry\<close>: the registry, the deltas
    and \<^verbatim>\<open>carry_registry\<close> of \<^verbatim>\<open>session_core.cpp\<close>. \<open>Session\<close>: the session record, \<^verbatim>\<open>OpGuard\<close>,
    snapshots, the id queries. \<open>Commit\<close>: \<^verbatim>\<open>commit\<close>, refusals, ids to bodies, faces and edges.
    \<open>Transform\<close>: \<^verbatim>\<open>session_transform.cpp\<close>. \<open>Carry\<close>, \<open>Issue\<close>, \<open>SessionFacts\<close>, \<open>CarryFacts\<close>,
    \<open>TransformFacts\<close> and \<open>SessionRun\<close> hold the invariant \<open>session_ok\<close>, that every method keeps it,
    and the reachable sessions as a step relation with runs. \<open>Tessellate\<close> and \<open>TessellateFacts\<close>: the
    render mesh of \<^verbatim>\<open>session_tessellate.cpp\<close>, its layout and its delta. \<open>Model\<close> is a small OCCT to evaluate on.
  \<^item> The sketch. \<open>Doubles\<close>: IEEE doubles with the rounding as an argument. \<open>SketchTables\<close>,
    \<open>SketchCheck\<close>, \<open>SketchPlan\<close>, \<open>SketchBuild\<close>, \<open>SketchSolve\<close>: the stages of \<^verbatim>\<open>sketch.cpp\<close> in the
    order the code has them. \<open>SketchFacts\<close>, \<open>SketchPlanFacts\<close>, \<open>SketchBuildFacts\<close> and
    \<open>SketchSystem\<close> say what each stage promises the next; \<open>SketchModel\<close> has a small solver.
  \<^item> The blocks, \<^verbatim>\<open>session_blocks.cpp\<close> and \<^verbatim>\<open>geom_block6.cpp\<close>. \<open>Histories\<close>: \<^verbatim>\<open>compose_histories\<close>.
    \<open>BlockSearch\<close> and \<open>BlockCheck\<close>: the check of a compound of blocks with its two depth-first
    searches; \<open>BlockFacts\<close> and \<open>BlockLeaves\<close> what they compute. \<open>BlockChains\<close>: propagation chains.
    \<open>Ancestors\<close>: what the map of sub-shapes and ancestors holds. \<open>Block6\<close>: the explorer of a
    hexahedron, with its tables; \<open>Block6Facts\<close> its steps on a hexahedron. \<open>BlockQueries\<close>:
    \<^verbatim>\<open>opposite_face\<close>, \<^verbatim>\<open>face_by_edges\<close>, \<^verbatim>\<open>find_block_near\<close>; \<open>BlockQueryFacts\<close> their reference
    definitions. \<open>BlockArrays\<close>: \<^verbatim>\<open>multi_transform\<close>.
  \<^item> The mesh. \<open>RangeSet\<close> and \<open>IdFactory\<close>: \<^verbatim>\<open>SMDS_ElementFactory\<close> with its chunks and range sets;
    \<open>IdFactoryFacts\<close> and \<open>CompactFacts\<close> its invariant. \<open>Simulation\<close>: the interface of a component to
    its specification, a locale; \<open>IdPool\<close> interprets it for the factory, with a map of ids as the
    specification. \<open>CellTables\<close>: the types, node orders and face tables of \<^verbatim>\<open>SMDS_MeshCell.cxx\<close> and
    \<^verbatim>\<open>SMDS_VolumeTool.cxx\<close>; \<open>CellFacts\<close> and \<open>CellChecks\<close> evaluate them. \<open>MeshStore\<close>: \<^verbatim>\<open>SMDS_Mesh.cxx\<close>.
    \<open>MeshFacts\<close>: a cell stored is the cell read. \<open>MeshView\<close>: the invariant \<open>mesh_ok\<close> and the mesh as two
    maps. \<open>MeshCalls\<close>: each operation on the maps. \<open>MeshPool\<close> interprets \<open>simulation\<close> again, for the
    mesh. \<open>MeshQueries\<close>: counters and iterators on the maps. \<open>MeshArrays\<close>: \<^verbatim>\<open>mesher_harvest.cpp\<close> and
    \<^verbatim>\<open>mesher_scratch.cpp\<close>; \<open>MeshArrayFacts\<close> the arrays as a function of the maps.
  \<^item> The properties: \<open>SessionProps\<close>, \<open>CommitProps\<close>, \<open>QueryProps\<close>, \<open>SketchProps\<close>, \<open>SketchRows\<close>,
    \<open>SketchBounds\<close>, \<open>HistoryProps\<close>, \<open>BlockProps\<close>, \<open>ChainProps\<close>, \<open>Block6Props\<close>, \<open>BlockQueryProps\<close>,
    \<open>ArrayProps\<close>, \<open>TessellateProps\<close>, \<open>IdProps\<close>, \<open>CellProps\<close>, \<open>MeshProps\<close> and \<open>MeshArrayProps\<close>. Each property is one theorem, numbered C1 to C40 in the text before it.

  \<^bold>\<open>What is proved.\<close> C1 to C11 and C15, the session: the registry and the root agree in every
  reachable session, an id standing twice in a row after a relocation that puts one of its shapes
  onto another; ids, names and provenance are never taken back; names resolve; a snapshot mark
  brings back its state; the delta of a commit is exact; a refusal changes nothing; what each rule
  of the carry does to an id; a relocation keeps every id; the carry does not depend on hash order.
  C14 and C22, the delta and the layout of the render mesh. C16, C17, C18, C25 and C28, the sketch:
  pointers stay in the buffer, the unknowns are what moves, every row reaches the solver, no access of
  the checks and plans runs past an array, arguments make tables. C29 to C32, the composed histories and the check of blocks:
  refinement of the composition, termination of the searches, the verdict as connectedness of the
  graph of glued blocks. C34 and C35, propagation chains: the closure of the opposite-edge relation,
  and the partition of the edges into complete chains. C37, the face opposite to one of a hexahedron. C38 to C40: the face
  of two edges, the nearest block, and the array of copies.
  The mesh: C12 and C19, any run of calls of the element factory is one on a map of ids, and its
  queries read that map. C23, C24 and C33, the faces of a volume close up, its inverse is inside
  out, and the two types of cell for which the tables do not say so; polyhedra have no table. C20 and C21, any run of calls
  of the mesh is one on two maps, and its counts, iterators and reads are theirs. C13, the arrays
  of a harvest are those of the maps. C26, what is harvested is rebuilt, and exactly what cannot be
  is refused. C36, the fill with elements and where it stops. C27, the sub-shape an element is put
  on is the one it is harvested with.
  Lemmas of the same weight, outside that numbering: \<open>labels_are_total\<close>, \<open>fixed_and_knots_stay\<close>,
  \<open>reported_rows_are_rows\<close>, \<open>slot_length_wraps\<close>, \<open>slots_belong_to_one_row\<close>, \<open>block6_tables_agree\<close>,
  \<open>owner_bodies_total\<close>, \<open>status_means_what_it_says\<close>, \<open>operand_order_does_not_matter\<close>.

  \<^bold>\<open>Modelling conventions.\<close> A method that may throw is a function into a sum, one constructor of an
  error type for each exception with the data its message names; texts of messages are left out.
  An \<^verbatim>\<open>EntityId\<close> is an unbounded integer, cut to 32 bits where the code casts it; the slot and
  index arithmetic of a sketch and the product of the counts of \<^verbatim>\<open>multi_transform\<close> are kept at their
  width. A fresh address is the next number of a counter of the session. Hash tables are
  association lists; where the code iterates over one, C15 shows that the order does not matter.

  The ids, rows and offsets of a mesh are unbounded integers: no mesh in memory has 2^31 nodes. A
  mesh that a refused fill leaves half built is part of its error.

  \<^bold>\<open>Bounds and fuel.\<close> \<open>find_connected\<close> and \<open>has_any_connection\<close> recurse to a depth of at most the
  number of blocks, since each call marks a new row; \<open>grow_chain\<close> makes at most two more passes than
  the map has edges, since each pass accepts a new one; C30 and the lemma \<open>propagation_ends\<close> show
  that \<open>OutOfFuel\<close> is never the answer. All other functions are structural recursions.

  An array read or written past its end is the outcome \<open>OutOfRange\<close>. In a sketch each step of the
  checks and plans that indexes an array stands under the guard \<open>indexing\<close>, which is no check of
  the code: C25 shows that it never fails.

  \<^bold>\<open>Hypotheses.\<close> What a property relies on of the code outside is named: \<open>occt_ok\<close> (the maps of
  sub-shapes list each of the sub-shapes of the kind once), \<open>trsf_ok\<close> (\<^verbatim>\<open>Moved\<close> keeps TShapes and
  relabels Locations injectively), \<open>moves_as_occt\<close>, in the step of a transform of a session (there is
  such a relabelling, and bodies that are the same shape have the same sub-shapes, \<open>coherent\<close>), \<open>steps_ok\<close> (a history is keyed by \<^verbatim>\<open>IsSame\<close>), \<open>sorts\<close> (sorting
  permutes), \<open>meshes_ok\<close> (a face's triangles and polygons name its nodes), \<open>meets_the_rest\<close> (an explorer that avoids a kind meets what is not under it),
  \<open>writes_unknowns_only\<close> and \<open>reports_given_tags\<close> (PlaneGCS writes its unknowns and reports tags it
  was given), \<open>block_is\<close>, \<open>ends_are\<close> and \<open>face_is\<close> (a block is a hexahedron under the explorer's
  numbering), \<open>numbers_shapes\<close> (SMESHDS numbers the sub-shapes from 1, each once). Of the sizes of a sketch,
  \<open>tables_ok\<close> is what the argument checks leave (C28), and \<open>small_slots\<close> bounds them where 64 bits
  wrap. Each property that has hypotheses is applied to a concrete model right after it.

  \<^bold>\<open>Not modelled.\<close> The methods of the session that build geometry (booleans, offsets, fillets,
  healing, gluing, sweeps, \<^verbatim>\<open>make_quad\<close> and \<^verbatim>\<open>make_hexa\<close>) and those that measure it: each checks
  numbers, runs OCCT or GEOM, and hands shape and history to the modelled \<^verbatim>\<open>commit\<close>. The
  free \<^verbatim>\<open>tessellate\<close> function and the hand-off to the mesher. Progress and cancellation across threads: what
  \<^verbatim>\<open>More ()\<close> answers is an argument. Of the explorer, \<^verbatim>\<open>InitByTwoFaces\<close>, \<^verbatim>\<open>MakeFace\<close> and the
  accessors that build geometry. Of the mesh, the removal and moving of nodes and the links from points to
  cells, which are VTK's, groups, compaction of the grid, the sizes of sub-meshes and the geometry of
  cells. Reading and writing of files, the other bindings of the meshers, the Python layer and the
  module definitions, and the rest of \<^verbatim>\<open>src/extern\<close>.
\<close>

end
